(* ===== verification/Prelude.thy ===== *)
theory Prelude
  imports Main "HOL-Library.Word" "HOL-Library.AList" "HOL-Library.Multiset"
    "HOL-Library.Monad_Syntax" "HOL-Library.Char_ord" "HOL-Library.List_Lexorder"
begin

text \<open>
  Shared material of the development: the conventions of the model, the lemma
  collections, the model of the parts of the Go language and standard library that
  several components use (comparator sorts, decimal conversion of integers, maps that
  are iterated), and the locale of machines whose operations keep an invariant.

  Conventions.
  \<^item> A Go \<^verbatim>\<open>panic\<close> is the value \<open>None\<close>: a function that may panic returns
    \<open>'a option\<close> and is written in the option monad. A Go \<^verbatim>\<open>error\<close> is the left side of
    a sum type.
  \<^item> A struct that is compared with \<^verbatim>\<open>==\<close> and used as a map key is a one-constructor
    \<open>datatype\<close> (it gets class instances); other structs are \<open>record\<close>s.
  \<^item> A map that is only looked up is \<open>'k \<rightharpoonup> 'v\<close>; a map that the code ranges over is an
    association list with distinct keys, in the (arbitrary) order of the iteration.
  \<^item> A mutex makes the operation it guards atomic: one operation of the model is one
    critical section.
\<close>

type_synonym u64 = "64 word"
type_synonym i64 = "64 word"
type_synonym go_time = int
type_synonym ('k, 'v) gomap = "('k \<times> 'v) list"

named_theorems val_simps \<open>values of fixed-point numbers as integers\<close>

subsection \<open>Comparator sorts\<close>

text \<open>
  \<^verbatim>\<open>sort.SliceStable\<close>: insertion sort by a strict order \<open>lt\<close>; elements that do not
  compare keep their relative order. \<^verbatim>\<open>sort.Slice\<close> promises less; the code applies it
  to slices whose keys are distinct, where the two agree.
\<close>

fun insert_by :: "('a \<Rightarrow> 'a \<Rightarrow> bool) \<Rightarrow> 'a \<Rightarrow> 'a list \<Rightarrow> 'a list" where
  "insert_by lt x [] = [x]"
| "insert_by lt x (y # ys) = (if lt y x then y # insert_by lt x ys else x # y # ys)"

fun slice_stable :: "('a \<Rightarrow> 'a \<Rightarrow> bool) \<Rightarrow> 'a list \<Rightarrow> 'a list" where
  "slice_stable lt [] = []"
| "slice_stable lt (x # xs) = insert_by lt x (slice_stable lt xs)"

lemma mset_insert_by [simp]: "mset (insert_by lt x ys) = add_mset x (mset ys)"
  by (induction ys) auto

lemma mset_slice_stable [simp]: "mset (slice_stable lt xs) = mset xs"
  by (induction xs) auto

lemma set_insert_by [simp]: "set (insert_by lt x ys) = insert x (set ys)"
  by (induction ys) auto

lemma set_slice_stable [simp]: "set (slice_stable lt xs) = set xs"
  by (induction xs) auto

lemma length_slice_stable [simp]: "length (slice_stable lt xs) = length xs"
  by (metis mset_slice_stable size_mset)

text \<open>
  The laws of a comparator: a strict weak order, stated through the key it compares.
\<close>

locale comparator =
  fixes lt :: "'a \<Rightarrow> 'a \<Rightarrow> bool"
    and key :: "'a \<Rightarrow> 'k::linorder"
  assumes lt_key: "lt x y \<longleftrightarrow> key x < key y"
begin

lemma sorted_insert_by:
  "sorted (map key (insert_by lt x ys)) = sorted (map key ys)"
  if "sorted (map key ys)"
  using that by (induction ys) (auto simp: lt_key)

lemma sorted_slice: "sorted (map key (slice_stable lt xs))"
  by (induction xs) (simp_all add: sorted_insert_by)

text \<open>Appending an element to a sorted slice and sorting it stably puts the element behind
  every element it does not precede, and leaves the rest in place.\<close>

lemma insert_by_sorted_head:
  "sorted (map key (x # ys)) \<Longrightarrow> insert_by lt x ys = x # ys"
  by (cases ys) (auto simp: lt_key)

lemma slice_sorted_id: "sorted (map key xs) \<Longrightarrow> slice_stable lt xs = xs"
  by (induction xs) (simp_all add: insert_by_sorted_head[simplified])

lemma slice_snoc:
  "sorted (map key xs) \<Longrightarrow>
   slice_stable lt (xs @ [x]) =
     takeWhile (\<lambda>y. key y \<le> key x) xs @ x # dropWhile (\<lambda>y. key y \<le> key x) xs"
proof (induction xs)
  case Nil
  then show ?case by simp
next
  case (Cons y ys)
  then have sorted: "sorted (map key ys)" by simp
  show ?case
  proof (cases "key y \<le> key x")
    case True
    with Cons sorted show ?thesis
      by (cases ys) (auto simp: lt_key)
  next
    case False
    with Cons.prems have "takeWhile (\<lambda>y. key y \<le> key x) ys = []"
      by (cases ys) (auto dest: order_trans)
    moreover from False Cons.prems have "dropWhile (\<lambda>y. key y \<le> key x) ys = ys"
      by (cases ys) (auto dest: order_trans)
    ultimately have "slice_stable lt (ys @ [x]) = x # ys"
      using Cons.IH sorted by simp
    moreover have "insert_by lt y ys = y # ys"
      using Cons.prems by (rule insert_by_sorted_head)
    moreover have "lt x y" using False by (simp add: lt_key)
    ultimately show ?thesis using False by simp
  qed
qed

text \<open>Two slices with the same elements and distinct keys sort to the same slice.\<close>

lemma slice_unique:
  assumes "mset xs = mset ys" and "distinct (map key xs)"
  shows "slice_stable lt xs = slice_stable lt ys"
proof -
  have "inj_on key (set xs)" using assms(2) by (simp add: distinct_map)
  moreover have "set xs = set ys" using assms(1) by (metis set_mset_mset)
  moreover have "map key (slice_stable lt xs) = map key (slice_stable lt ys)"
    using assms sorted_slice
    by (metis mset_map mset_slice_stable properties_for_sort)
  ultimately show ?thesis
    by (metis map_inj_on set_slice_stable sup.idem)
qed

end

subsection \<open>Machines that keep an invariant\<close>

text \<open>
  A component is a state and operations that may panic. If every operation keeps an
  invariant, every run of operations does.
\<close>

fun run_ops :: "('op \<Rightarrow> 's \<Rightarrow> 's option) \<Rightarrow> 'op list \<Rightarrow> 's \<Rightarrow> 's option" where
  "run_ops step [] s = Some s"
| "run_ops step (x # xs) s = do { s' \<leftarrow> step x s; run_ops step xs s' }"

text \<open>\<open>ok\<close> is what a caller promises of an operation; \<open>\<lambda>_. True\<close> where nothing is needed.\<close>

locale invariant_machine =
  fixes step :: "'op \<Rightarrow> 's \<Rightarrow> 's option"
    and ok :: "'op \<Rightarrow> bool"
    and inv :: "'s \<Rightarrow> bool"
  assumes step_inv: "inv s \<Longrightarrow> ok x \<Longrightarrow> step x s = Some s' \<Longrightarrow> inv s'"
begin

lemma run_inv: "inv s \<Longrightarrow> list_all ok xs \<Longrightarrow> run_ops step xs s = Some s' \<Longrightarrow> inv s'"
  by (induction xs arbitrary: s) (auto simp: bind_eq_Some_conv intro: step_inv)

lemma run_append:
  "run_ops step (xs @ ys) s = do { s' \<leftarrow> run_ops step xs s; run_ops step ys s' }"
  by (induction xs arbitrary: s) (auto split: Option.bind_splits)

end

locale total_machine = invariant_machine +
  assumes step_total: "inv s \<Longrightarrow> ok x \<Longrightarrow> \<exists>s'. step x s = Some s'"
begin

lemma run_total: "inv s \<Longrightarrow> list_all ok xs \<Longrightarrow> \<exists>s'. run_ops step xs s = Some s' \<and> inv s'"
proof (induction xs arbitrary: s)
  case Nil
  then show ?case by simp
next
  case (Cons x xs)
  then obtain s1 where "step x s = Some s1" using step_total[of s x] by auto
  with Cons step_inv show ?case by auto
qed

end

subsection \<open>Association lists\<close>

lemma map_of_update_eq: "map_of (AList.update k v al) k' = (if k' = k then Some v else map_of al k')"
  by (simp add: update_conv')

lemma map_of_delete_eq: "map_of (AList.delete k al) k' = (if k' = k then None else map_of al k')"
  by (simp add: delete_conv')

end
