(* ===== verification/DecimalArith.thy ===== *)
theory DecimalArith
  imports Decimal
begin

text \<open>
  Correctness of the limb arithmetic of \<^verbatim>\<open>pkg/decimal\<close>: every operation of \<open>Decimal\<close> is the
  operation on integers (its big-integer oracle), and panics exactly when the result is
  outside the signed 128-bit range or the divisor is zero. The comparisons are the order of
  the integers, which makes \<open>decimal\<close> a linear order. The last section states the laws that
  clients rely on as the locale \<open>fixed_point\<close> and interprets it on the operations.
\<close>

unbundle bit_operations_syntax

subsection \<open>Words as integers\<close>

lemma euclid_unique:
  assumes "a * B + b = c * B + d" "0 \<le> b" "b < B" "0 \<le> d" "d < (B::int)"
  shows "a = c \<and> b = d"
proof -
  have "(a * B + b) div B = a" and "(c * B + d) div B = c" using assms(2-5) by simp_all
  with assms(1) have "a = c" by metis
  with assms(1) show ?thesis by simp
qed

lemma u64_bound: "0 \<le> uint (x::u64)" "uint (x::u64) < 18446744073709551616"
  using uint_lt2p [of x] by simp_all

lemma i64_bound: "- 9223372036854775808 \<le> sint (x::i64)" "sint (x::i64) < 9223372036854775808"
  using sint_ge [of x] sint_lt [of x] by simp_all

lemma sint_uint_cases: "sint (h::i64) = (if uint h < 9223372036854775808 then uint h else uint h - 18446744073709551616)"
proof -
  have "sint h = (uint h + 9223372036854775808) mod 18446744073709551616 - 9223372036854775808"
    by (simp add: sint_uint signed_take_bit_eq_take_bit_shift take_bit_eq_mod)
  also have "(uint h + 9223372036854775808) mod 18446744073709551616 =
    (if uint h < 9223372036854775808 then uint h + 9223372036854775808 else uint h - 9223372036854775808)"
    using u64_bound[of h] by (simp add: mod_pos_pos_trivial mod_if) (smt (verit) mod_pos_pos_trivial minus_mod_self2)
  finally show ?thesis by simp
qed

lemma sless_0_uint: "((h::i64) <s 0) = (9223372036854775808 \<le> uint h)"
  using u64_bound[of h] by (simp add: word_sless_alt sint_uint_cases)

lemma toBig_eq: "toBig d = sint (hi d) * 18446744073709551616 + uint (lo d)"
  by (simp add: toBig_def push_bit_eq_mult)

lemma minNeg_num: "minNeg = - 170141183460469231731687303715884105728"
  by (simp add: minNeg_def)

lemma maxPos_num: "maxPos = 170141183460469231731687303715884105727"
  by (simp add: maxPos_def)

lemma toBig_range: "minNeg \<le> toBig d" "toBig d \<le> maxPos"
  using u64_bound[of "lo d"] i64_bound[of "hi d"]
  unfolding toBig_eq minNeg_num maxPos_num by linarith+

lemma toBig_inj: "toBig d = toBig e \<longleftrightarrow> d = e"
proof
  assume "toBig d = toBig e"
  then have "sint (hi d) = sint (hi e) \<and> uint (lo d) = uint (lo e)"
    unfolding toBig_eq by (rule euclid_unique) (rule u64_bound)+
  then have "hi d = hi e" and "lo d = lo e" by (simp_all add: word_uint_eq_iff uint_sint)
  then show "d = e" by (simp add: decimal.expand)
qed simp

lemma fromBigChecked_eq:
  "fromBigChecked b = (if b > maxPos \<or> b < minNeg then None
     else Some (Decimal (word_of_int (b div 2 ^ 64)) (word_of_int b)))"
proof -
  have "(b + 2 ^ 128) div 2 ^ 64 = b div 2 ^ 64 + 2 ^ 64" by simp
  moreover have "(word_of_int (b div 2 ^ 64 + 2 ^ 64) :: i64) = word_of_int (b div 2 ^ 64)"
    by (simp add: word_of_int_eq_iff take_bit_eq_mod)
  moreover have "(word_of_int (b + 2 ^ 128) :: u64) = word_of_int b"
    by (simp add: word_of_int_eq_iff take_bit_eq_mod mod_simps)
  moreover have "t AND (2 ^ 64 - 1) = take_bit 64 t" for t :: int
    by (simp only: take_bit_eq_mask mask_eq_exp_minus_1)
  then have "(word_of_int (t AND (2 ^ 64 - 1)) :: u64) = word_of_int t" for t :: int
    by (simp only: word_of_int_eq_iff) simp
  ultimately show ?thesis
    by (simp add: fromBigChecked_def Let_def drop_bit_eq_div)
qed
definition in_range :: "int \<Rightarrow> bool" where
  "in_range i \<longleftrightarrow> minNeg \<le> i \<and> i \<le> maxPos"

lemma toBig_in_range [simp]: "in_range (toBig d)"
  by (simp add: in_range_def toBig_range)

lemma toBig_of_int:
  assumes "in_range b"
  shows "toBig (Decimal (word_of_int (b div 2 ^ 64)) (word_of_int b)) = b"
proof -
  have "- 9223372036854775808 \<le> b div 2 ^ 64" "b div 2 ^ 64 < 9223372036854775808"
    using assms unfolding in_range_def minNeg_num maxPos_num by simp_all linarith+
  then have "sint (word_of_int (b div 2 ^ 64) :: i64) = b div 2 ^ 64"
    by (simp add: int_word_sint)
  then have "toBig (Decimal (word_of_int (b div 2 ^ 64)) (word_of_int b)) =
      b div 2 ^ 64 * 2 ^ 64 + b mod 2 ^ 64"
    by (simp add: toBig_eq uint_word_of_int)
  then show ?thesis by (simp only: div_mult_mod_eq)
qed

lemma fromBigChecked_Some: "fromBigChecked b = Some d \<longleftrightarrow> in_range b \<and> toBig d = b"
proof
  assume "fromBigChecked b = Some d"
  then have r: "in_range b" and "d = Decimal (word_of_int (b div 2 ^ 64)) (word_of_int b)"
    by (auto simp: fromBigChecked_eq in_range_def split: if_splits)
  then show "in_range b \<and> toBig d = b" using toBig_of_int[OF r] by blast
next
  assume "in_range b \<and> toBig d = b"
  then show "fromBigChecked b = Some d"
    using toBig_of_int[of b] by (auto simp: fromBigChecked_eq in_range_def toBig_inj[symmetric])
qed

lemma fromBigChecked_None: "fromBigChecked b = None \<longleftrightarrow> \<not> in_range b"
  by (auto simp: fromBigChecked_eq in_range_def)

lemma fromBig_is_checked [simp]: "fromBig b = fromBigChecked b"
  by (simp add: fromBig_def split: option.splits)

text \<open>To show that an operation is the big-integer operation it is enough to name the integer.\<close>

lemma eq_fromBigChecked_iff:
  "r = fromBigChecked b \<longleftrightarrow> (case r of None \<Rightarrow> \<not> in_range b | Some d \<Rightarrow> in_range b \<and> toBig d = b)"
proof (cases r)
  case None
  then show ?thesis using fromBigChecked_None[of b] by auto
next
  case (Some d)
  then show ?thesis using fromBigChecked_Some[of b d] by auto
qed

lemma mod_by_quotient: "0 \<le> i - k * m \<Longrightarrow> i - k * m < m \<Longrightarrow> i mod m = i - k * (m::int)"
  by (metis diff_add_cancel mod_mult_self1 mod_pos_pos_trivial)

lemma uint_add3: "uint (x + y + c :: u64) = (uint x + uint y + uint c) mod 18446744073709551616"
  by (simp add: uint_word_ariths mod_simps)

lemma uint_sub3: "uint (x - y - b :: u64) = (uint x - uint y - uint b) mod 18446744073709551616"
  by (simp add: uint_word_ariths mod_simps)

lemma Add64_spec:
  assumes "Add64 x y c = (s, cy)" "uint c \<le> 1"
  shows "uint s + 18446744073709551616 * uint cy = uint x + uint y + uint c \<and> uint cy \<le> 1"
proof (cases "18446744073709551616 \<le> uint x + uint y + uint c")
  case True
  then have "(uint x + uint y + uint c) mod 18446744073709551616 =
      uint x + uint y + uint c - 1 * 18446744073709551616"
    using assms(2) u64_bound[of x] u64_bound[of y] by (intro mod_by_quotient; linarith)
  with True show ?thesis using assms by (auto simp: Add64_def uint_add3)
next
  case False
  then have "uint s = uint x + uint y + uint c"
    using assms u64_bound[of x] u64_bound[of y] u64_bound[of c]
    by (auto simp: Add64_def uint_add3 intro!: mod_pos_pos_trivial add_nonneg_nonneg)
  with False show ?thesis using assms by (auto simp: Add64_def)
qed

lemma Sub64_spec:
  assumes "Sub64 x y b = (s, bw)" "uint b \<le> 1"
  shows "uint s - 18446744073709551616 * uint bw = uint x - uint y - uint b \<and> uint bw \<le> 1"
proof (cases "uint x < uint y + uint b")
  case True
  then have "(uint x - uint y - uint b) mod 18446744073709551616 =
      uint x - uint y - uint b - (-1) * 18446744073709551616"
    using assms(2) u64_bound[of x] u64_bound[of y] by (intro mod_by_quotient; linarith)
  with True show ?thesis using assms by (auto simp: Sub64_def uint_sub3)
next
  case False
  then have "(uint x - uint y - uint b) mod 18446744073709551616 = uint x - uint y - uint b"
    using u64_bound[of x] u64_bound[of y] u64_bound[of b] by (intro mod_pos_pos_trivial; linarith)
  with False show ?thesis using assms by (auto simp: Sub64_def uint_sub3)
qed

lemma Mul64_spec:
  assumes "Mul64 x y = (h, l)"
  shows "uint h * 18446744073709551616 + uint l = uint x * uint y"
proof -
  have "uint x * uint y < 18446744073709551616 * 18446744073709551616"
    using u64_bound[of x] u64_bound[of y] by (intro mult_strict_mono) auto
  then have "uint x * uint y div 18446744073709551616 < 18446744073709551616"
    by (simp add: div_less_iff_less_mult)
  moreover have "0 \<le> uint x * uint y div 18446744073709551616"
    by (intro pos_imp_zdiv_nonneg_iff[THEN iffD2] mult_nonneg_nonneg) simp_all
  ultimately have "uint h = uint x * uint y div 18446744073709551616"
    using assms by (auto simp: Mul64_def uint_word_of_int)
  moreover have "uint l = uint x * uint y mod 18446744073709551616"
    using assms by (auto simp: Mul64_def uint_word_ariths)
  ultimately show ?thesis by simp
qed

lemma Div64_spec:
  assumes "uint h < uint y"
  shows "\<exists>q r. Div64 h l y = Some (q, r) \<and> uint r < uint y \<and>
    uint h * 18446744073709551616 + uint l = uint q * uint y + uint r"
proof -
  let ?n = "uint h * 18446744073709551616 + uint l"
  have y: "0 < uint y" using assms u64_bound[of h] by linarith
  have n: "0 \<le> ?n" "?n < 18446744073709551616 * uint y"
    using assms u64_bound[of l] u64_bound[of h] by linarith+
  have "?n div uint y * uint y \<le> ?n"
    using div_mult_mod_eq[of ?n "uint y"] pos_mod_sign[OF y, of ?n] by linarith
  then have "?n div uint y * uint y < 18446744073709551616 * uint y" using n by linarith
  then have q: "0 \<le> ?n div uint y" "?n div uint y < 18446744073709551616"
    using y n by (simp_all only: pos_imp_zdiv_nonneg_iff mult_less_cancel_right_pos)
  have r: "?n mod uint y < uint y" "0 \<le> ?n mod uint y" using y by simp_all
  have "\<not> (y = 0 \<or> y \<le> h)" using assms y by (auto simp: word_le_def)
  then have "Div64 h l y = Some (word_of_int (?n div uint y), word_of_int (?n mod uint y))"
    by (simp add: Div64_def Let_def)
  moreover have "uint (word_of_int (?n div uint y) :: u64) = ?n div uint y"
    using q by (simp add: uint_word_of_int)
  moreover have "uint (word_of_int (?n mod uint y) :: u64) = ?n mod uint y"
    using r u64_bound[of y] by (simp add: uint_word_of_int)
  ultimately show ?thesis using r by simp
qed

text \<open>The signed reading of a high word, on integers.\<close>

lemma signed_add_core:
  fixes a b c f l cy h :: int
  assumes "0 \<le> a" "a < 18446744073709551616" "0 \<le> c" "c < 18446744073709551616"
    and "0 \<le> l" "l < 18446744073709551616" "0 \<le> cy" "cy \<le> 1"
    and l: "l + 18446744073709551616 * cy = b + f"
    and h: "h = (a + c + cy) mod 18446744073709551616"
  defines "s \<equiv> \<lambda>x::int. if x < 9223372036854775808 then x else x - 18446744073709551616"
  defines "r \<equiv> s a * 18446744073709551616 + b + (s c * 18446744073709551616 + f)"
  shows "(if (9223372036854775808 \<le> a) = (9223372036854775808 \<le> c) \<and>
            (9223372036854775808 \<le> h) \<noteq> (9223372036854775808 \<le> a)
          then \<not> in_range r else in_range r \<and> s h * 18446744073709551616 + l = r)"
proof -
  have "0 \<le> h" "h < 18446744073709551616" using h by simp_all
  moreover have "h = a + c + cy \<or> h = a + c + cy - 18446744073709551616"
    using assms(1-8) mod_by_quotient[of "a + c + cy" 0 18446744073709551616]
     mod_by_quotient[of "a + c + cy" 1 18446744073709551616] unfolding h by linarith
  ultimately show ?thesis using assms(1-8) l unfolding s_def r_def in_range_def minNeg_num maxPos_num
    by (elim disjE; simp split: if_splits; linarith)
qed
lemma signed_add_words:
  assumes "uint l + 18446744073709551616 * uint cy = uint (lo d) + uint (lo e)" "uint (cy::u64) \<le> 1"
  shows "if (hi d <s 0) = (hi e <s 0) \<and> (hi d + hi e + cy <s 0) \<noteq> (hi d <s 0)
     then \<not> in_range (toBig d + toBig e)
     else in_range (toBig d + toBig e) \<and> toBig (Decimal (hi d + hi e + cy) l) = toBig d + toBig e"
  unfolding sless_0_uint toBig_eq sint_uint_cases decimal.sel
  by (rule signed_add_core) (use assms in \<open>simp_all only: u64_bound uint_add3\<close>)

lemma Add_spec: "Add d e = fromBigChecked (toBig d + toBig e)"
proof -
  obtain l cy where a: "Add64 (lo d) (lo e) 0 = (l, cy)" by (meson surj_pair)
  from Add64_spec[OF a] have "uint l + 18446744073709551616 * uint cy = uint (lo d) + uint (lo e)" "uint cy \<le> 1"
    by simp_all
  from signed_add_words[OF this] show ?thesis
    unfolding eq_fromBigChecked_iff by (auto simp add: Add_def a Let_def)
qed

lemma signed_sub_core:
  fixes a b c f l bw h :: int
  assumes "0 \<le> a" "a < 18446744073709551616" "0 \<le> c" "c < 18446744073709551616"
    and "0 \<le> l" "l < 18446744073709551616" "0 \<le> bw" "bw \<le> 1"
    and l: "l - 18446744073709551616 * bw = b - f"
    and h: "h = (a - c - bw) mod 18446744073709551616"
  defines "s \<equiv> \<lambda>x::int. if x < 9223372036854775808 then x else x - 18446744073709551616"
  defines "r \<equiv> s a * 18446744073709551616 + b - (s c * 18446744073709551616 + f)"
  shows "(if (9223372036854775808 \<le> a) \<noteq> (9223372036854775808 \<le> c) \<and>
            (9223372036854775808 \<le> h) \<noteq> (9223372036854775808 \<le> a)
          then \<not> in_range r else in_range r \<and> s h * 18446744073709551616 + l = r)"
proof -
  have "0 \<le> h" "h < 18446744073709551616" using h by simp_all
  moreover have "h = a - c - bw \<or> h = a - c - bw + 18446744073709551616"
    using assms(1-8) mod_by_quotient[of "a - c - bw" 0 18446744073709551616]
     mod_by_quotient[of "a - c - bw" "-1" 18446744073709551616] unfolding h by linarith
  ultimately show ?thesis using assms(1-8) l unfolding s_def r_def in_range_def minNeg_num maxPos_num
    by (elim disjE; simp split: if_splits; linarith)
qed

lemma signed_sub_words:
  assumes "uint l - 18446744073709551616 * uint bw = uint (lo d) - uint (lo e)" "uint (bw::u64) \<le> 1"
  shows "if (hi d <s 0) \<noteq> (hi e <s 0) \<and> (hi d - hi e - bw <s 0) \<noteq> (hi d <s 0)
     then \<not> in_range (toBig d - toBig e)
     else in_range (toBig d - toBig e) \<and> toBig (Decimal (hi d - hi e - bw) l) = toBig d - toBig e"
  unfolding sless_0_uint toBig_eq sint_uint_cases decimal.sel
  by (rule signed_sub_core) (use assms in \<open>simp_all only: u64_bound uint_sub3\<close>)

lemma Sub_spec: "Sub d e = fromBigChecked (toBig d - toBig e)"
proof -
  obtain l bw where a: "Sub64 (lo d) (lo e) 0 = (l, bw)" by (meson surj_pair)
  from Sub64_spec[OF a] have "uint l - 18446744073709551616 * uint bw = uint (lo d) - uint (lo e)" "uint bw \<le> 1"
    by simp_all
  from signed_sub_words[OF this] show ?thesis
    unfolding eq_fromBigChecked_iff by (auto simp add: Sub_def a Let_def)
qed

lemma toBig_Zero [simp]: "toBig Zero = 0"
  by (simp add: toBig_eq Zero_def)

lemma Neg_spec: "Neg d = fromBigChecked (- toBig d)"
  by (simp add: Neg_def Sub_spec)

lemma toBig_0_iff: "toBig d = 0 \<longleftrightarrow> hi d = 0 \<and> lo d = 0"
proof -
  have "toBig d = 0 \<longleftrightarrow> d = Zero" using toBig_inj[of d Zero] by simp
  then show ?thesis by (cases d) (simp add: Zero_def)
qed

lemma hi_negative: "hi d <s 0 \<longleftrightarrow> toBig d < 0"
  unfolding word_sless_alt toBig_eq sint_0
  using u64_bound[of "lo d"] by (intro iffI; linarith)

lemma Sign_spec: "Sign d = sgn (toBig d)"
  by (simp add: Sign_def hi_negative flip: toBig_0_iff)

lemma IsZero_spec: "IsZero d \<longleftrightarrow> toBig d = 0"
  by (simp add: IsZero_def toBig_0_iff)

lemma sgn_int_simps [simp]:
  "sgn (x::int) \<le> 0 \<longleftrightarrow> x \<le> 0" "0 \<le> sgn x \<longleftrightarrow> 0 \<le> x" "sgn x < 0 \<longleftrightarrow> x < 0" "0 < sgn x \<longleftrightarrow> 0 < x"
  by (auto simp: sgn_if)

lemma Cmp_spec: "Cmp d e = sgn (toBig d - toBig e)"
proof (cases "hi d = hi e")
  case True
  then have "toBig d - toBig e = uint (lo d) - uint (lo e)" by (simp add: toBig_eq)
  then show ?thesis using True
    by (auto simp: Cmp_def word_less_def word_uint_eq_iff[of "lo d"])
next
  case False
  then have "sint (hi d) \<noteq> sint (hi e)" by (metis word_uint_eq_iff uint_sint)
  then have "sint (hi d) < sint (hi e) \<and> toBig d < toBig e \<or> sint (hi e) < sint (hi d) \<and> toBig e < toBig d"
    using u64_bound[of "lo d"] u64_bound[of "lo e"] unfolding toBig_eq by linarith
  with False show ?thesis by (auto simp: Cmp_def word_sless_alt)
qed

instantiation decimal :: linorder
begin

definition less_eq_decimal :: "decimal \<Rightarrow> decimal \<Rightarrow> bool" where
  "less_eq_decimal d e \<longleftrightarrow> Lte d e"

definition less_decimal :: "decimal \<Rightarrow> decimal \<Rightarrow> bool" where
  "less_decimal d e \<longleftrightarrow> Lt d e"

instance
proof
  fix x y z :: decimal
  have le: "a \<le> b \<longleftrightarrow> toBig a \<le> toBig b" for a b :: decimal
    by (simp add: less_eq_decimal_def Lte_def Cmp_spec)
  have lt: "a < b \<longleftrightarrow> toBig a < toBig b" for a b :: decimal
    by (simp add: less_decimal_def Lt_def Cmp_spec)
  show "x < y \<longleftrightarrow> x \<le> y \<and> \<not> y \<le> x" by (auto simp: le lt)
  show "x \<le> x" by (simp add: le)
  show "x \<le> y \<Longrightarrow> y \<le> z \<Longrightarrow> x \<le> z" by (simp add: le)
  show "x \<le> y \<Longrightarrow> y \<le> x \<Longrightarrow> x = y" by (simp add: le flip: toBig_inj)
  show "x \<le> y \<or> y \<le> x" by (auto simp: le)
qed

end

lemma le_toBig: "d \<le> e \<longleftrightarrow> toBig d \<le> toBig e"
  by (simp add: less_eq_decimal_def Lte_def Cmp_spec)

lemma less_toBig: "d < e \<longleftrightarrow> toBig d < toBig e"
  by (simp add: less_decimal_def Lt_def Cmp_spec)

lemma compare_simps [simp]:
  "Lt d e \<longleftrightarrow> d < e" "Lte d e \<longleftrightarrow> d \<le> e" "Gt d e \<longleftrightarrow> e < d" "Gte d e \<longleftrightarrow> e \<le> d" "Eq d e \<longleftrightarrow> d = e"
  "DMin d e = min d e" "DMax d e = max d e"
  "Cmp d e < 0 \<longleftrightarrow> d < e" "Cmp d e > 0 \<longleftrightarrow> e < d" "Cmp d e \<le> 0 \<longleftrightarrow> d \<le> e" "Cmp d e \<ge> 0 \<longleftrightarrow> e \<le> d"
  by (auto simp: Lt_def Lte_def Gt_def Gte_def Eq_def DMin_def DMax_def Cmp_spec le_toBig less_toBig
      min_def max_def toBig_inj[symmetric])

subsection \<open>Magnitudes, products and quotients by one limb\<close>

definition mag :: "u64 \<Rightarrow> u64 \<Rightarrow> int" where
  "mag h l = uint h * 18446744073709551616 + uint l"

lemma mag_nonneg: "0 \<le> mag h l"
  by (simp add: mag_def)

lemma mag_bound: "mag h l < 340282366920938463463374607431768211456"
  using u64_bound[of h] u64_bound[of l] unfolding mag_def by linarith

lemma absMag_spec:
  assumes "absMag d = (h, l, neg)"
  shows "mag h l = \<bar>toBig d\<bar>" and "neg \<longleftrightarrow> toBig d < 0"
proof -
  show neg: "neg \<longleftrightarrow> toBig d < 0"
    using assms by (auto simp: absMag_def Let_def hi_negative split: if_splits prod.splits)
  show "mag h l = \<bar>toBig d\<bar>"
  proof (cases "hi d <s 0")
    case True
    obtain l' bw where l': "Sub64 0 (lo d) 0 = (l', bw)" by (meson surj_pair)
    obtain h' b2 where h': "Sub64 0 (hi d) bw = (h', b2)" by (meson surj_pair)
    have "uint h = uint h'" "uint l = uint l'" using assms True l' h' by (simp_all add: absMag_def)
    moreover have "uint l' - 18446744073709551616 * uint bw = - uint (lo d)" "uint bw \<le> 1"
      using Sub64_spec[OF l'] by simp_all
    moreover have "uint h' - 18446744073709551616 * uint b2 = - uint (hi d) - uint bw" "uint b2 \<le> 1"
      using Sub64_spec[OF h'] \<open>uint bw \<le> 1\<close> by simp_all
    moreover have "toBig d = uint (hi d) * 18446744073709551616 - 340282366920938463463374607431768211456 + uint (lo d)"
      "9223372036854775808 \<le> uint (hi d)"
      using True by (simp_all add: toBig_eq sless_0_uint sint_uint_cases)
    moreover have "toBig d < 0" using True by (simp add: hi_negative)
    moreover have "uint b2 = 0 \<or> uint b2 = 1"
      using \<open>uint b2 \<le> 1\<close> u64_bound(1)[of b2] by linarith
    ultimately show ?thesis using u64_bound(1)[of h'] u64_bound(1)[of bw]
      unfolding mag_def abs_of_neg[OF \<open>toBig d < 0\<close>] by (elim disjE) linarith+
  next
    case False
    then have "toBig d \<ge> 0" "uint (hi d) < 9223372036854775808"
      by (simp_all add: hi_negative flip: sless_0_uint) (simp add: sless_0_uint flip: hi_negative)
    with False assms show ?thesis by (auto simp: absMag_def mag_def toBig_eq sint_uint_cases)
  qed
qed

lemma signBit_uint: "uint signBit = 9223372036854775808"
  by (simp add: signBit_def)

lemma negate_core:
  fixes h l h' l' bw b2 :: int
  assumes "l' - 18446744073709551616 * bw = - l" "h' - 18446744073709551616 * b2 = - h - bw"
    and "bw = 0 \<or> bw = 1" "b2 = 0 \<or> b2 = 1"
    and "0 \<le> l" "0 \<le> h" "0 \<le> l'" "0 \<le> h'" "l' < 18446744073709551616" "h' < 18446744073709551616"
    and "h * 18446744073709551616 + l \<le> 170141183460469231731687303715884105728"
  shows "(if h' < 9223372036854775808 then h' else h' - 18446744073709551616) * 18446744073709551616 + l' =
    - (h * 18446744073709551616 + l)"
  using assms by (elim disjE; simp split: if_splits; linarith)

lemma bit_value: "uint x \<le> 1 \<Longrightarrow> uint x = 0 \<or> uint x = 1"
  using uint_ge_0[of x] by linarith

lemma fromMag_spec: "fromMag h l neg = fromBigChecked (if neg then - mag h l else mag h l)"
proof (cases neg)
  case True
  obtain l' bw where l': "Sub64 0 l 0 = (l', bw)" by (meson surj_pair)
  obtain h' b2 where h': "Sub64 0 h bw = (h', b2)" by (meson surj_pair)
  have l1: "uint l' - 18446744073709551616 * uint bw = - uint l" "uint bw \<le> 1"
    using Sub64_spec[OF l'] by simp_all
  have h1: "uint h' - 18446744073709551616 * uint b2 = - uint h - uint bw" "uint b2 \<le> 1"
    using Sub64_spec[OF h'] l1(2) by simp_all
  have eq: "fromMag h l neg = (if 170141183460469231731687303715884105728 < mag h l then None else Some (Decimal h' l'))"
    unfolding fromMag_def using True l' h' u64_bound[of l]
    by (auto simp: mag_def word_less_def signBit_uint word_uint_eq_iff[of h] simp del: uint_ge_0 unsigned_greater_eq)
  have "mag h l \<le> 170141183460469231731687303715884105728 \<Longrightarrow> toBig (Decimal h' l') = - mag h l"
    unfolding toBig_eq sint_uint_cases mag_def decimal.sel
    by (rule negate_core[OF l1(1) h1(1) bit_value[OF l1(2)] bit_value[OF h1(2)]]) (auto simp: u64_bound)
  then show ?thesis unfolding eq eq_fromBigChecked_iff
    using True mag_nonneg[of h l] by (auto simp: in_range_def minNeg_num maxPos_num)
next
  case False
  then show ?thesis unfolding eq_fromBigChecked_iff fromMag_def
    using u64_bound[of h] u64_bound[of l]
    by (auto simp: in_range_def minNeg_num maxPos_num toBig_eq sint_uint_cases mag_def word_le_def signBit_uint
        simp del: uint_ge_0 unsigned_greater_eq)
qed

lemma mul128to256_spec:
  assumes "mul128to256 ahi alo bhi blo = (p0, p1, p2, p3)"
  shows "uint p0 + uint p1 * 18446744073709551616 + uint p2 * 18446744073709551616 ^ 2
     + uint p3 * 18446744073709551616 ^ 3 = mag ahi alo * mag bhi blo"
proof -
  let ?M = "18446744073709551616 :: int"
  obtain llH llL where ll: "Mul64 alo blo = (llH, llL)" by (meson surj_pair)
  obtain lhH lhL where lh: "Mul64 alo bhi = (lhH, lhL)" by (meson surj_pair)
  obtain hlH hlL where hl: "Mul64 ahi blo = (hlH, hlL)" by (meson surj_pair)
  obtain hhH hhL where hh: "Mul64 ahi bhi = (hhH, hhL)" by (meson surj_pair)
  obtain s1 c1 where s1: "Add64 llH lhL 0 = (s1, c1)" by (meson surj_pair)
  obtain s2 c2 where s2: "Add64 s1 hlL 0 = (s2, c2)" by (meson surj_pair)
  obtain s3 c3 where s3: "Add64 lhH hlH 0 = (s3, c3)" by (meson surj_pair)
  obtain s4 c4 where s4: "Add64 s3 hhL 0 = (s4, c4)" by (meson surj_pair)
  obtain s5 c5 where s5: "Add64 s4 (c1 + c2) 0 = (s5, c5)" by (meson surj_pair)
  note eqs = ll lh hl hh s1 s2 s3 s4 s5
  have p: "p0 = llL" "p1 = s2" "p2 = s5" "p3 = hhH + (c3 + c4 + c5)"
    using assms by (simp_all add: mul128to256_def eqs)
  note a1 = Add64_spec[OF s1, simplified] and a2 = Add64_spec[OF s2, simplified]
    and a3 = Add64_spec[OF s3, simplified] and a4 = Add64_spec[OF s4, simplified]
    and a5 = Add64_spec[OF s5, simplified]
  have c12: "uint (c1 + c2) = uint c1 + uint c2"
    using a1 a2 by (simp add: uint_plus_if')
  have c345: "uint (c3 + c4 + c5) = uint c3 + uint c4 + uint c5"
    using a3 a4 a5 by (simp add: uint_add3)
  have total: "uint p0 + uint p1 * ?M + uint p2 * ?M ^ 2 + (uint hhH + uint (c3 + c4 + c5)) * ?M ^ 3
      = mag ahi alo * mag bhi blo"
  proof -
    have "mag ahi alo * mag bhi blo = uint alo * uint blo + (uint alo * uint bhi + uint ahi * uint blo) * ?M
        + uint ahi * uint bhi * ?M ^ 2"
      by (simp add: mag_def algebra_simps power2_eq_square)
    then show ?thesis
      using Mul64_spec[OF ll] Mul64_spec[OF lh] Mul64_spec[OF hl] Mul64_spec[OF hh] a1 a2 a3 a4 a5 c12 c345
      unfolding p by (simp add: algebra_simps)
  qed
  have "mag ahi alo * mag bhi blo < ?M ^ 2 * ?M ^ 2"
    using mag_bound[of ahi alo] mag_bound[of bhi blo] mag_nonneg[of ahi alo] mag_nonneg[of bhi blo]
    by (intro mult_strict_mono) simp_all
  then have "uint hhH + uint (c3 + c4 + c5) < ?M"
    using total u64_bound(1)[of p0] u64_bound(1)[of p1] u64_bound(1)[of p2]
    by (simp del: uint_ge_0 unsigned_greater_eq)
  then have "uint p3 = uint hhH + uint (c3 + c4 + c5)"
    unfolding p by (simp add: uint_plus_if')
  with total show ?thesis by simp
qed
lemma div256by64_spec:
  assumes "0 < uint d"
  shows "\<exists>q0 q1 q2 q3. div256by64 n0 n1 n2 n3 d = Some (q0, q1, q2, q3) \<and>
    uint q0 + uint q1 * 18446744073709551616 + uint q2 * 18446744073709551616 ^ 2 + uint q3 * 18446744073709551616 ^ 3
    = (uint n0 + uint n1 * 18446744073709551616 + uint n2 * 18446744073709551616 ^ 2
        + uint n3 * 18446744073709551616 ^ 3) div uint d"
proof -
  let ?M = "18446744073709551616 :: int"
  obtain q3 r3 where d3: "Div64 0 n3 d = Some (q3, r3)" "uint r3 < uint d" "uint n3 = uint q3 * uint d + uint r3"
    using Div64_spec[of 0 d n3] assms by auto
  obtain q2 r2 where d2: "Div64 r3 n2 d = Some (q2, r2)" "uint r2 < uint d" "uint r3 * ?M + uint n2 = uint q2 * uint d + uint r2"
    using Div64_spec[of r3 d n2] d3(2) by auto
  obtain q1 r1 where d1: "Div64 r2 n1 d = Some (q1, r1)" "uint r1 < uint d" "uint r2 * ?M + uint n1 = uint q1 * uint d + uint r1"
    using Div64_spec[of r2 d n1] d2(2) by auto
  obtain q0 r0 where d0: "Div64 r1 n0 d = Some (q0, r0)" "uint r0 < uint d" "uint r1 * ?M + uint n0 = uint q0 * uint d + uint r0"
    using Div64_spec[of r1 d n0] d1(2) by auto
  let ?Q = "uint q0 + uint q1 * ?M + uint q2 * ?M ^ 2 + uint q3 * ?M ^ 3"
  have "uint n0 + uint n1 * ?M + uint n2 * ?M ^ 2 + uint n3 * ?M ^ 3 = ?Q * uint d + uint r0"
    using d0(3) d1(3) d2(3) d3(3) by (simp add: algebra_simps)
  then have "(uint n0 + uint n1 * ?M + uint n2 * ?M ^ 2 + uint n3 * ?M ^ 3) div uint d = ?Q"
    using d0(2) assms by (simp only:) (simp add: div_pos_pos_trivial)
  then show ?thesis using d0(1) d1(1) d2(1) d3(1) by (simp add: div256by64_def)
qed

lemma scaleU_uint: "uint scaleU = 1000000000000000000"
  by (simp add: scaleU_def)

lemma scaleBig_num: "scaleBig = 1000000000000000000"
  by (simp add: scaleBig_def scaleU_uint)

lemma sdiv_by_magnitude:
  "a sdiv b = (if (a < 0) \<noteq> (b < 0) then - (\<bar>a\<bar> div \<bar>b\<bar>) else \<bar>a\<bar> div \<bar>b\<bar>)" for a b :: int
  by (auto simp: signed_divide_int_def sgn_if)

text \<open>A quotient with a limb above the lower two does not fit a decimal.\<close>

lemma high_limbs:
  assumes "q = uint q0 + uint q1 * 18446744073709551616 + uint (q2::u64) * 18446744073709551616 ^ 2
      + uint (q3::u64) * 18446744073709551616 ^ 3"
  shows "q2 \<noteq> 0 \<or> q3 \<noteq> 0 \<Longrightarrow> \<not> in_range q \<and> \<not> in_range (- q)"
    and "\<not> (q2 \<noteq> 0 \<or> q3 \<noteq> 0) \<Longrightarrow> q = mag q1 q0"
proof -
  assume "q2 \<noteq> 0 \<or> q3 \<noteq> 0"
  then have "1 \<le> uint q2 \<or> 1 \<le> uint q3"
    using uint_ge_0[of q2] uint_ge_0[of q3] by (auto simp: word_uint_eq_iff simp del: uint_ge_0 unsigned_greater_eq)
  then have "340282366920938463463374607431768211456 \<le> q"
    using uint_ge_0[of q0] uint_ge_0[of q1] uint_ge_0[of q2] uint_ge_0[of q3] assms
    by (auto simp del: uint_ge_0 unsigned_greater_eq)
  then show "\<not> in_range q \<and> \<not> in_range (- q)"
    by (auto simp: in_range_def minNeg_num maxPos_num)
next
  assume "\<not> (q2 \<noteq> 0 \<or> q3 \<noteq> 0)"
  with assms show "q = mag q1 q0" by (simp add: mag_def)
qed

lemma Mul_spec: "Mul d e = fromBigChecked (toBig d * toBig e sdiv scaleBig)"
proof -
  obtain ah al an where a: "absMag d = (ah, al, an)" using prod_cases3 by blast
  obtain bh bl bn where b: "absMag e = (bh, bl, bn)" using prod_cases3 by blast
  obtain p0 p1 p2 p3 where p: "mul128to256 ah al bh bl = (p0, p1, p2, p3)" using prod_cases4 by blast
  obtain q0 q1 q2 q3 where q: "div256by64 p0 p1 p2 p3 scaleU = Some (q0, q1, q2, q3)"
      "uint q0 + uint q1 * 18446744073709551616 + uint q2 * 18446744073709551616 ^ 2 + uint q3 * 18446744073709551616 ^ 3
        = \<bar>toBig d * toBig e\<bar> div scaleBig"
    using div256by64_spec[of scaleU p0 p1 p2 p3] mul128to256_spec[OF p]
    by (auto simp: scaleU_uint scaleBig_num absMag_spec(1)[OF a] absMag_spec(1)[OF b] abs_mult)
  let ?q = "\<bar>toBig d * toBig e\<bar> div scaleBig"
  have res: "toBig d * toBig e sdiv scaleBig = (if an \<noteq> bn then - ?q else ?q)"
  proof (cases "toBig d = 0 \<or> toBig e = 0")
    case True
    then show ?thesis by (auto simp: sdiv_by_magnitude)
  next
    case False
    then show ?thesis
      by (auto simp: sdiv_by_magnitude absMag_spec(2)[OF a] absMag_spec(2)[OF b] scaleBig_num mult_less_0_iff)
  qed
  show ?thesis
    using high_limbs[OF q(2)[symmetric]]
    by (auto simp: Mul_def a b p q(1) res fromMag_spec fromBigChecked_None[THEN iffD2] eq_commute[of None])
qed

subsection \<open>Binary long division\<close>

fun lval :: "u64 list \<Rightarrow> int" where
  "lval [] = 0"
| "lval (x # xs) = uint x + 2 ^ 64 * lval xs"

lemma lval_concat: "lval (x # xs) = concat_bit 64 (uint x) (lval xs)"
  using u64_bound[of x] by (simp add: concat_bit_eq push_bit_eq_mult take_bit_int_eq_self)

lemma bit_lval: "i < 64 * length xs \<Longrightarrow> bit (lval xs) i \<longleftrightarrow> bit (xs ! (i div 64)) (i mod 64)"
proof (induction xs arbitrary: i)
  case Nil
  then show ?case by simp
next
  case (Cons x xs)
  show ?case
  proof (cases "i < 64")
    case True
    then show ?thesis by (simp only: lval_concat bit_concat_bit_iff) (simp add: bit_uint_iff)
  next
    case False
    then have "i div 64 = Suc ((i - 64) div 64)" "i mod 64 = (i - 64) mod 64"
      by (simp_all add: le_div_geq le_mod_geq)
    with False Cons.IH[of "i - 64"] Cons.prems show ?thesis
      by (simp only: lval_concat bit_concat_bit_iff) simp
  qed
qed

lemma uint_set_bit:
  assumes "\<not> bit x m" "m < 64"
  shows "uint (x OR push_bit m 1 :: u64) = uint x + 2 ^ m"
proof -
  have "(2::int) ^ m < 2 ^ 64" using assms(2) by (rule power_strict_increasing) simp
  then have "take_bit 64 (2 ^ m :: int) = 2 ^ m" by (intro take_bit_int_eq_self) simp_all
  then have "uint (push_bit m 1 :: u64) = 2 ^ m"
    by (simp only: unsigned_push_bit_eq) (simp add: push_bit_eq_mult)
  moreover have "uint x OR 2 ^ m = uint x + 2 ^ m"
    using assms by (intro disjunctive_add[symmetric]) (auto simp: bit_uint_iff bit_exp_iff)
  ultimately show ?thesis by (simp add: uint_or)
qed

lemma lval_set_bit:
  "j < length q \<Longrightarrow> m < 64 \<Longrightarrow> \<not> bit (q ! j) m \<Longrightarrow>
    lval (q[j := q ! j OR push_bit m 1]) = lval q + 2 ^ (64 * j + m)"
proof (induction q arbitrary: j)
  case Nil
  then show ?case by simp
next
  case (Cons x xs)
  show ?case
  proof (cases j)
    case 0
    then show ?thesis using Cons.prems uint_set_bit[of x m] by simp
  next
    case (Suc k)
    then have "lval (xs[k := xs ! k OR push_bit m 1]) = lval xs + 2 ^ (64 * k + m)"
      using Cons by simp
    then show ?thesis using Suc by (simp add: power_add algebra_simps)
  qed
qed

text \<open>The invariant of the long division with \<open>k\<close> bits left: the divisor times the quotient so
  far plus the remainder is the numerator without its \<open>k\<close> low bits.\<close>

definition div_inv :: "int \<Rightarrow> int \<Rightarrow> nat \<Rightarrow> u64 list \<times> u64 \<times> u64 \<Rightarrow> bool" where
  "div_inv N D k = (\<lambda>(q, rhi, rlo). length q = 4 \<and> mag rhi rlo < D \<and>
     (\<exists>Q. lval q = Q * 2 ^ k \<and> N div 2 ^ k = Q * D + mag rhi rlo))"

lemma shift_in:
  assumes "uint b \<le> 1"
  shows "uint (push_bit 1 x OR b :: u64) = 2 * uint x mod 18446744073709551616 + uint b"
proof -
  have "uint (push_bit 1 x) = 2 * uint x mod 18446744073709551616"
    by (simp only: unsigned_push_bit_eq) (simp add: take_bit_eq_mod push_bit_eq_mult mult.commute)
  moreover have "even (2 * uint x mod 18446744073709551616)"
    by (simp add: even_even_mod_4_iff mod_mod_cancel dvd_mod_iff)
  ultimately show ?thesis
    using bit_value[OF assms] by (auto simp: uint_or or_one_eq)
qed

lemma top_bit: "uint (drop_bit 63 x :: u64) = uint x div 9223372036854775808"
  by (simp add: drop_bit_eq_div uint_div_distrib)

lemma shift_core:
  fixes h l h' l' b T :: int
  assumes "0 \<le> h" "h < 18446744073709551616" "0 \<le> l" "l < 18446744073709551616"
    and "h' = 2 * h mod 18446744073709551616 + l div 9223372036854775808"
    and "l' = 2 * l mod 18446744073709551616 + b"
  shows "2 * (h * 18446744073709551616 + l) + b =
    h div 9223372036854775808 * 340282366920938463463374607431768211456 + (h' * 18446744073709551616 + l')"
proof -
  have dbl: "2 * x = x div 9223372036854775808 * 18446744073709551616 + 2 * x mod 18446744073709551616" for x :: int
    using div_mult_mod_eq[of "2 * x" 18446744073709551616] by simp
  show ?thesis using dbl[of h] dbl[of l] unfolding assms(5,6) by (simp add: algebra_simps)
qed

text \<open>Subtracting the divisor from the shifted remainder: the borrow cancels the carry.\<close>

lemma wrapping_subtract:
  assumes "Sub64 rlo dlo 0 = (l, bw)" "Sub64 rhi dhi bw = (h, b2)"
    and "c = 0 \<or> c = 1" "D = mag dhi dlo"
    and "T = c * 340282366920938463463374607431768211456 + mag rhi rlo" "D \<le> T" "T < 2 * D"
  shows "mag h l = T - D"
proof -
  have l: "uint l - 18446744073709551616 * uint bw = uint rlo - uint dlo" "uint bw \<le> 1"
    using Sub64_spec[OF assms(1)] by simp_all
  have h: "uint h - 18446744073709551616 * uint b2 = uint rhi - uint dhi - uint bw" "uint b2 \<le> 1"
    using Sub64_spec[OF assms(2) l(2)] by simp_all
  have "mag h l - uint b2 * 340282366920938463463374607431768211456 =
      T - D - c * 340282366920938463463374607431768211456"
    using l(1) h(1) assms(4,5) unfolding mag_def by linarith
  moreover have "0 \<le> mag h l" "mag h l < 340282366920938463463374607431768211456"
    "D < 340282366920938463463374607431768211456"
    using mag_nonneg mag_bound assms(4) by blast+
  ultimately show ?thesis
    using assms(3,6,7) bit_value[OF h(2)] by (elim disjE; linarith)
qed

lemma carry_cases:
  "drop_bit 63 (x::u64) = 1 \<longleftrightarrow> uint x div 9223372036854775808 = 1"
  "uint x div 9223372036854775808 = 0 \<or> uint x div 9223372036854775808 = 1"
proof -
  show "drop_bit 63 x = 1 \<longleftrightarrow> uint x div 9223372036854775808 = 1"
    by (simp only: word_uint_eq_iff top_bit) simp
  have "uint x div 9223372036854775808 < 2" "0 \<le> uint x div 9223372036854775808"
    using u64_bound[of x] by (simp_all add: div_less_iff_less_mult pos_imp_zdiv_nonneg_iff)
  then show "uint x div 9223372036854775808 = 0 \<or> uint x div 9223372036854775808 = 1" by linarith
qed

lemma ge128_spec: "ge128 ahi alo bhi blo \<longleftrightarrow> mag bhi blo \<le> mag ahi alo"
proof (cases "ahi = bhi")
  case True
  then show ?thesis by (simp add: ge128_def mag_def word_le_def)
next
  case False
  then have "uint ahi \<noteq> uint bhi" by (simp add: word_uint_eq_iff)
  then consider "uint ahi < uint bhi" | "uint bhi < uint ahi" by linarith
  then show ?thesis
  proof cases
    case 1
    then have "mag ahi alo < mag bhi blo"
      using u64_bound[of alo] u64_bound[of blo] unfolding mag_def by linarith
    with 1 False show ?thesis by (simp add: ge128_def word_less_def)
  next
    case 2
    then have "mag bhi blo \<le> mag ahi alo"
      using u64_bound[of alo] u64_bound[of blo] unfolding mag_def by linarith
    with 2 False show ?thesis by (simp add: ge128_def word_less_def)
  qed
qed

lemma numerator_bit:
  assumes "i < 256" "length n = 4"
  shows "uint (drop_bit (i mod 64) (n ! (i div 64)) AND 1 :: u64) = lval n div 2 ^ i mod 2"
proof -
  have "lval n div 2 ^ i mod 2 = of_bool (bit (lval n) i)"
    by (simp add: bit_iff_odd mod_2_eq_odd)
  moreover have "uint (drop_bit m x AND 1 :: u64) = of_bool (bit x m)" for x :: u64 and m
    by (cases "bit x m") (simp_all add: and_one_eq bit_iff_odd_drop_bit mod_2_eq_odd)
  ultimately show ?thesis using assms by (simp only: bit_lval)
qed

lemma div_step_inv:
  assumes n: "length n = 4" and i: "i < 256" and D: "D = mag dhi dlo"
    and inv: "div_inv (lval n) D (Suc i) s"
  shows "div_inv (lval n) D i (div_step n dhi dlo i s)"
proof -
  obtain q rhi rlo where s: "s = (q, rhi, rlo)" using prod_cases3 by blast
  from inv s obtain Q where q: "length q = 4" and R: "mag rhi rlo < D"
    and Q: "lval q = Q * 2 ^ Suc i" "lval n div 2 ^ Suc i = Q * D + mag rhi rlo"
    by (auto simp: div_inv_def)
  define b where "b = drop_bit (i mod 64) (n ! (i div 64)) AND 1"
  define rhi' where "rhi' = push_bit 1 rhi OR drop_bit 63 rlo"
  define rlo' where "rlo' = push_bit 1 rlo OR b"
  define c where "c = uint rhi div 9223372036854775808"
  define T where "T = 2 * mag rhi rlo + uint b"
  have b: "uint b = lval n div 2 ^ i mod 2" unfolding b_def by (rule numerator_bit[OF i n])
  then have b1: "uint b \<le> 1" by simp
  have "uint (drop_bit 63 rlo) \<le> 1" using carry_cases(2)[of rlo] by (auto simp only: top_bit)
  then have T: "T = c * 340282366920938463463374607431768211456 + mag rhi' rlo'"
    unfolding T_def c_def mag_def rhi'_def rlo'_def
    by (intro shift_core) (simp_all only: u64_bound shift_in top_bit b1)
  have N: "lval n div 2 ^ i = 2 * Q * D + T"
  proof -
    have "lval n div 2 ^ i = 2 * (lval n div 2 ^ Suc i) + lval n div 2 ^ i mod 2"
      by (simp add: power_Suc2 zdiv_zmult2_eq del: power_Suc)
    then show ?thesis unfolding Q(2) T_def b by (simp add: algebra_simps)
  qed
  have T2: "T < 2 * D" using R b1 unfolding T_def by linarith
  have cond: "drop_bit 63 rhi = 1 \<or> ge128 rhi' rlo' dhi dlo \<longleftrightarrow> D \<le> T"
    using carry_cases[of rhi] T D mag_bound[of dhi dlo] mag_nonneg[of rhi' rlo']
    unfolding ge128_spec c_def by auto
  obtain l bw where l: "Sub64 rlo' dlo 0 = (l, bw)" by (meson surj_pair)
  obtain h b2 where h: "Sub64 rhi' dhi bw = (h, b2)" by (meson surj_pair)
  have step: "div_step n dhi dlo i s = (if D \<le> T
      then (q[i div 64 := q ! (i div 64) OR push_bit (i mod 64) 1], h, l) else (q, rhi', rlo'))"
    unfolding cond[symmetric] s div_step_def prod.case Let_def
      b_def[symmetric] rhi'_def[symmetric] rlo'_def[symmetric] l h ..
  show ?thesis
  proof (cases "D \<le> T")
    case True
    have "mag h l = T - D"
      using wrapping_subtract[OF l h carry_cases(2)[of rhi, folded c_def] D T True T2] .
    moreover have "\<not> bit (lval q) i"
      unfolding Q(1) push_bit_eq_mult[symmetric] by (simp only: bit_push_bit_iff) simp
    then have "lval (q[i div 64 := q ! (i div 64) OR push_bit (i mod 64) 1]) = (2 * Q + 1) * 2 ^ i"
      using lval_set_bit[of "i div 64" q "i mod 64"] bit_lval[of i q] i q Q(1)
      by (simp add: algebra_simps)
    ultimately show ?thesis using True q N T2 unfolding step
      by (auto simp: div_inv_def algebra_simps intro!: exI[of _ "2 * Q + 1"])
  next
    case False
    then have "c = 0" using T D mag_bound[of dhi dlo] mag_nonneg[of rhi' rlo'] carry_cases(2)[of rhi]
      unfolding c_def by auto
    with False q N T Q(1) show ?thesis unfolding step
      by (auto simp: div_inv_def algebra_simps intro!: exI[of _ "2 * Q"])
  qed
qed

lemma div_loop_inv:
  "length n = 4 \<Longrightarrow> k \<le> 256 \<Longrightarrow> D = mag dhi dlo \<Longrightarrow> div_inv (lval n) D k s \<Longrightarrow>
    div_inv (lval n) D 0 (div_loop n dhi dlo k s)"
  by (induction k arbitrary: s) (simp_all add: div_step_inv)

lemma lval_four: "lval [a, b, c, d] = uint a + uint b * 18446744073709551616
    + uint c * 18446744073709551616 ^ 2 + uint d * 18446744073709551616 ^ 3"
  by simp

lemma length_4E:
  assumes "length q = 4"
  obtains a b c d where "q = [a, b, c, d]"
  using assms by (auto simp: eval_nat_numeral length_Suc_conv)

lemma div256by128_spec:
  assumes "D = mag dhi dlo" "0 < D" and N: "N = lval [n0, n1, n2, n3]"
    and div: "div256by128 n0 n1 n2 n3 dhi dlo = (qhi, qlo, ok)"
  shows "if ok then mag qhi qlo = N div D else \<not> in_range (N div D) \<and> \<not> in_range (- (N div D))"
proof -
  let ?n = "[n0, n1, n2, n3]"
  have bound: "0 \<le> N" "N < 2 ^ 256"
    using u64_bound[of n0] u64_bound[of n1] u64_bound[of n2] u64_bound[of n3] unfolding N lval_four
    by (simp_all del: uint_ge_0 unsigned_greater_eq)
  obtain q rhi rlo where loop: "div_loop ?n dhi dlo 256 ([0, 0, 0, 0], 0, 0) = (q, rhi, rlo)"
    using prod_cases3 by blast
  have "div_inv (lval ?n) D 256 ([0, 0, 0, 0], 0, 0)"
    using assms(2) bound unfolding N by (simp add: div_inv_def mag_def div_pos_pos_trivial)
  from div_loop_inv[OF _ _ assms(1) this] have "div_inv N D 0 (q, rhi, rlo)"
    unfolding loop N by simp
  then have q: "length q = 4" "N = lval q * D + mag rhi rlo" "mag rhi rlo < D"
    by (auto simp: div_inv_def)
  then have quot: "N div D = lval q"
    using mag_nonneg[of rhi rlo] assms(2) by (simp add: div_pos_pos_trivial)
  from q(1) obtain a b c d where abcd: "q = [a, b, c, d]" by (rule length_4E)
  show ?thesis
    using div high_limbs[OF quot[unfolded abcd lval_four]]
    by (auto simp: div256by128_def loop abcd split: if_splits)
qed

lemma Div_spec: "Div d e = (if toBig e = 0 then None else fromBigChecked (toBig d * scaleBig sdiv toBig e))"
proof (cases "toBig e = 0")
  case True
  then show ?thesis by (simp add: Div_def IsZero_spec)
next
  case False
  obtain ah al an where a: "absMag d = (ah, al, an)" using prod_cases3 by blast
  obtain bh bl bn where b: "absMag e = (bh, bl, bn)" using prod_cases3 by blast
  obtain n0 n1 n2 n3 where n: "mul128to256 ah al 0 scaleU = (n0, n1, n2, n3)" using prod_cases4 by blast
  obtain qh ql ok where q: "div256by128 n0 n1 n2 n3 bh bl = (qh, ql, ok)" using prod_cases3 by blast
  let ?q = "\<bar>toBig d * scaleBig\<bar> div \<bar>toBig e\<bar>"
  have "\<bar>toBig d * scaleBig\<bar> = lval [n0, n1, n2, n3]"
    using mul128to256_spec[OF n] unfolding lval_four absMag_spec(1)[OF a]
    by (simp add: mag_def scaleU_uint scaleBig_num abs_mult)
  from div256by128_spec[OF _ _ this q, of "\<bar>toBig e\<bar>"] False
  have quot: "if ok then mag qh ql = ?q else \<not> in_range ?q \<and> \<not> in_range (- ?q)"
    by (simp add: absMag_spec(1)[OF b])
  have res: "toBig d * scaleBig sdiv toBig e = (if an \<noteq> bn then - ?q else ?q)"
    by (simp add: sdiv_by_magnitude absMag_spec(2)[OF a] absMag_spec(2)[OF b] scaleBig_num)
  show ?thesis
    using quot False
    by (auto simp: Div_def IsZero_spec a b n q res fromMag_spec fromBigChecked_None[THEN iffD2] split: if_splits)
qed

subsection \<open>The laws clients use\<close>

locale fixed_point =
  fixes val :: "'d \<Rightarrow> int"
    and fits :: "int \<Rightarrow> bool"
    and add :: "'d \<Rightarrow> 'd \<Rightarrow> 'd option"
    and sub :: "'d \<Rightarrow> 'd \<Rightarrow> 'd option"
  assumes val_inj: "val a = val b \<Longrightarrow> a = b"
    and fits_val: "fits (val a)"
    and fits_between: "fits i \<Longrightarrow> fits k \<Longrightarrow> i \<le> j \<Longrightarrow> j \<le> k \<Longrightarrow> fits j"
    and fits_zero: "fits 0"
    and add_iff: "add a b = Some c \<longleftrightarrow> fits (val a + val b) \<and> val c = val a + val b"
    and sub_iff: "sub a b = Some c \<longleftrightarrow> fits (val a - val b) \<and> val c = val a - val b"
    and fits_some: "fits i \<Longrightarrow> \<exists>c. val c = i"
begin

lemma add_Some: "fits (val a + val b) \<Longrightarrow> \<exists>c. add a b = Some c \<and> val c = val a + val b"
  using fits_some add_iff by metis

lemma sub_Some: "fits (val a - val b) \<Longrightarrow> \<exists>c. sub a b = Some c \<and> val c = val a - val b"
  using fits_some sub_iff by metis

lemma sub_below:
  "0 \<le> val b \<Longrightarrow> val b \<le> val a \<Longrightarrow> \<exists>c. sub a b = Some c \<and> val c = val a - val b"
  by (rule sub_Some) (rule fits_between[OF fits_zero fits_val[of a]]; simp)

lemma add_value: "add a b = Some c \<Longrightarrow> val c = val a + val b"
  by (simp add: add_iff)

lemma sub_value: "sub a b = Some c \<Longrightarrow> val c = val a - val b"
  by (simp add: sub_iff)

lemma add_None: "add a b = None \<longleftrightarrow> \<not> fits (val a + val b)"
  using add_Some add_iff by (metis not_None_eq)

lemma sub_None: "sub a b = None \<longleftrightarrow> \<not> fits (val a - val b)"
  using sub_Some sub_iff by (metis not_None_eq)

lemma move_conserves:
  "sub a x = Some a' \<Longrightarrow> add b x = Some b' \<Longrightarrow> val a' + val b' = val a + val b"
  by (simp add: add_iff sub_iff)

lemma add_sub_inverse: "add a b = Some c \<Longrightarrow> sub c b = Some a"
  by (simp add: add_iff sub_iff fits_val)

end

lemma in_range_between: "in_range i \<Longrightarrow> in_range k \<Longrightarrow> i \<le> j \<Longrightarrow> j \<le> k \<Longrightarrow> in_range j"
  by (simp add: in_range_def)

lemma in_range_zero [simp]: "in_range 0"
  by (simp add: in_range_def minNeg_num maxPos_num)

interpretation dec: fixed_point toBig in_range Add Sub
  by unfold_locales
    (auto simp: Add_spec Sub_spec fromBigChecked_Some toBig_inj intro: in_range_between toBig_of_int)

lemmas arith_values = dec.add_value dec.sub_value

lemma Mul_Some: "Mul d e = Some r \<longleftrightarrow>
    in_range (toBig d * toBig e sdiv scaleBig) \<and> toBig r = toBig d * toBig e sdiv scaleBig"
  by (simp add: Mul_spec fromBigChecked_Some)

lemma Div_Some: "Div d e = Some r \<longleftrightarrow> toBig e \<noteq> 0 \<and>
    in_range (toBig d * scaleBig sdiv toBig e) \<and> toBig r = toBig d * scaleBig sdiv toBig e"
  by (simp add: Div_spec fromBigChecked_Some)

lemma sdiv_nonneg: "0 \<le> a \<Longrightarrow> 0 \<le> b \<Longrightarrow> a sdiv b = a div b" for a b :: int
  by (simp add: sdiv_by_magnitude)

declare toBig_Zero [val_simps] Sign_spec [val_simps] IsZero_spec [val_simps]
  le_toBig [val_simps] less_toBig [val_simps]

end
