(* ===== verification/DecimalText.thy ===== *)
theory DecimalText
  imports DecimalArith
begin

text \<open>
  The text form of \<^verbatim>\<open>pkg/decimal\<close>: \<^verbatim>\<open>Parse\<close>, \<^verbatim>\<open>StringPrec\<close>/\<^verbatim>\<open>String\<close> and the text and JSON
  marshallers, on byte strings. Also the decimal conversions of integers of \<^verbatim>\<open>strconv\<close> and
  \<^verbatim>\<open>math/big\<close> that the rest of the program uses. The theorems: printing with \<open>p\<close> digits and
  parsing back truncates to \<open>p\<close> digits, so 18 digits round-trip exactly.
\<close>

subsection \<open>Integers in decimal\<close>

definition isDigit :: "char \<Rightarrow> bool" where
  "isDigit b \<longleftrightarrow> 48 \<le> (of_char b :: nat) \<and> (of_char b :: nat) \<le> 57"

definition digit_value :: "char \<Rightarrow> int" where
  "digit_value b = int (of_char b) - 48"

definition digit_char :: "nat \<Rightarrow> char" where
  "digit_char n = char_of (48 + n)"

text \<open>\<^verbatim>\<open>(*big.Int).String\<close> of a natural number, also \<^verbatim>\<open>strconv.FormatInt\<close> of one.\<close>

fun nat_string :: "nat \<Rightarrow> string" where
  "nat_string n = (if n < 10 then [digit_char n] else nat_string (n div 10) @ [digit_char (n mod 10)])"

declare nat_string.simps [simp del]

definition int_string :: "int \<Rightarrow> string" where
  "int_string i = (if i < 0 then CHR ''-'' # nat_string (nat (- i)) else nat_string (nat i))"

subsection \<open>Parsing\<close>

datatype parse_error = EmptyString | InvalidFormat string | Overflows string

text \<open>The digit loop of the integral part: the value read and the rest of the input.\<close>

fun scan_integral :: "int \<Rightarrow> string \<Rightarrow> int \<times> string" where
  "scan_integral acc [] = (acc, [])"
| "scan_integral acc (c # cs) =
     (if isDigit c then scan_integral (acc * 10 + digit_value c) cs else (acc, c # cs))"

text \<open>The digit loop of the fraction: digits after the eighteenth are read and dropped.\<close>

fun scan_fraction :: "int \<Rightarrow> nat \<Rightarrow> string \<Rightarrow> int \<times> nat \<times> string" where
  "scan_fraction acc n [] = (acc, n, [])"
| "scan_fraction acc n (c # cs) =
     (if isDigit c
      then (if n < ScaleDigits then scan_fraction (acc * 10 + digit_value c) (n + 1) cs
            else scan_fraction acc n cs)
      else (acc, n, c # cs))"

function pad_fraction :: "int \<Rightarrow> nat \<Rightarrow> int" where
  "pad_fraction acc n = (if n < ScaleDigits then pad_fraction (acc * 10) (n + 1) else acc)"
  by pat_completeness auto
termination
  by (relation "measure (\<lambda>(acc, n). ScaleDigits - n)") auto

declare pad_fraction.simps [simp del]

text \<open>What follows the integral digits: nothing, or a point and the fraction.\<close>

definition parse_fraction :: "string \<Rightarrow> int option" where
  "parse_fraction rest =
     (case rest of [] \<Rightarrow> Some 0
      | b # bs \<Rightarrow>
          if b \<noteq> CHR ''.'' then None
          else let (f, n, rest') = scan_fraction 0 0 bs
               in if rest' \<noteq> [] then None else Some (pad_fraction f n))"

text \<open>The scaled magnitude of an unsigned number.\<close>

definition parse_magnitude :: "string \<Rightarrow> int option" where
  "parse_magnitude body =
     (if body = [] \<or> \<not> isDigit (hd body) then None
      else let (integral, rest) = scan_integral 0 body
           in case parse_fraction rest of None \<Rightarrow> None | Some f \<Rightarrow> Some (integral * scaleBig + f))"

definition Parse :: "string \<Rightarrow> parse_error + decimal" where
  "Parse s =
     (case s of [] \<Rightarrow> Inl EmptyString
      | c # cs \<Rightarrow>
        (let neg = (c = CHR ''-'');
             body = (if c = CHR ''+'' \<or> c = CHR ''-'' then cs else s)
         in case parse_magnitude body of
              None \<Rightarrow> Inl (InvalidFormat s)
            | Some raw \<Rightarrow>
                (case fromBigChecked (if neg then - raw else raw) of
                   None \<Rightarrow> Inl (Overflows s)
                 | Some d \<Rightarrow> Inr d)))"

text \<open>\<^verbatim>\<open>MustParse\<close> panics on an error.\<close>

definition MustParse :: "string \<Rightarrow> decimal option" where
  "MustParse s = (case Parse s of Inl e \<Rightarrow> None | Inr d \<Rightarrow> Some d)"

text \<open>\<^verbatim>\<open>strconv.Atoi\<close>, and \<^verbatim>\<open>strconv.ParseInt\<close> to base 10 and 64 bits: an optional sign and at least
  one digit, within 64 bits.\<close>

definition Atoi :: "string \<Rightarrow> int option" where
  "Atoi s =
     (let neg = (s \<noteq> [] \<and> hd s = CHR ''-'');
          ds = (if s \<noteq> [] \<and> (hd s = CHR ''-'' \<or> hd s = CHR ''+'') then tl s else s)
      in if ds = [] \<or> \<not> list_all isDigit ds then None
         else let n = (if neg then - fst (scan_integral 0 ds) else fst (scan_integral 0 ds))
              in if n < - (2 ^ 63) \<or> n > 2 ^ 63 - 1 then None else Some n)"

subsection \<open>Formatting\<close>

definition StringPrec :: "decimal \<Rightarrow> int \<Rightarrow> string" where
  "StringPrec d prec =
     (let prec = (if prec < 0 then 0 else prec);
          prec = (if prec > int ScaleDigits then int ScaleDigits else prec);
          neg = Sign d < 0;
          abs = \<bar>toBig d\<bar>;
          integral = abs div scaleBig;
          frac = abs mod scaleBig;
          fs = nat_string (nat frac);
          fs = replicate (ScaleDigits - length fs) (CHR ''0'') @ fs
      in (if neg then [CHR ''-''] else []) @ nat_string (nat integral)
         @ (if prec > 0 then CHR ''.'' # take (nat prec) fs else []))"

definition String :: "decimal \<Rightarrow> string" where
  "String d = StringPrec d 6"

definition MarshalText :: "decimal \<Rightarrow> string" where
  "MarshalText d = StringPrec d (int ScaleDigits)"

text \<open>\<^verbatim>\<open>UnmarshalText\<close> writes through its receiver only when the text parses.\<close>

definition UnmarshalText :: "decimal \<Rightarrow> string \<Rightarrow> parse_error option \<times> decimal" where
  "UnmarshalText d s = (case Parse s of Inl e \<Rightarrow> (Some e, d) | Inr v \<Rightarrow> (None, v))"

definition MarshalJSON :: "decimal \<Rightarrow> string" where
  "MarshalJSON d = [CHR 0x22] @ StringPrec d (int ScaleDigits) @ [CHR 0x22]"

definition is_space :: "char \<Rightarrow> bool" where
  "is_space c \<longleftrightarrow> c \<in> {CHR '' '', CHR 0x09, CHR 0x0A, CHR 0x0B, CHR 0x0C, CHR 0x0D}"

definition TrimSpace :: "string \<Rightarrow> string" where
  "TrimSpace s = rev (dropWhile is_space (rev (dropWhile is_space s)))"

text \<open>\<^verbatim>\<open>json.Unmarshal\<close> into a string is the parameter \<open>unmarshal\<close>; \<open>None\<close> is its error.\<close>

datatype json_error = JsonError | ParseError parse_error

definition UnmarshalJSON ::
    "(string \<Rightarrow> string option) \<Rightarrow> decimal \<Rightarrow> string \<Rightarrow> json_error option \<times> decimal" where
  "UnmarshalJSON unmarshal d data =
     (let s = TrimSpace data
      in if s = ''null'' then (None, d)
         else case (if s \<noteq> [] \<and> hd s = CHR 0x22 then unmarshal data else Some s) of
                None \<Rightarrow> (Some JsonError, d)
              | Some str \<Rightarrow> (case Parse str of Inl e \<Rightarrow> (Some (ParseError e), d) | Inr v \<Rightarrow> (None, v)))"

subsection \<open>Digits\<close>

lemma of_char_digit [simp]: "n < 10 \<Longrightarrow> (of_char (digit_char n) :: nat) = 48 + n"
  by (simp add: digit_char_def of_char_of take_bit_nat_eq_self)

lemma isDigit_digit_char [simp]: "n < 10 \<Longrightarrow> isDigit (digit_char n)"
  by (simp add: isDigit_def)

lemma digit_value_digit_char [simp]: "n < 10 \<Longrightarrow> digit_value (digit_char n) = int n"
  by (simp add: digit_value_def)

lemma digit_value_bounds: "isDigit c \<Longrightarrow> 0 \<le> digit_value c \<and> digit_value c < 10"
  by (auto simp: isDigit_def digit_value_def)

definition digits_value :: "string \<Rightarrow> int" where
  "digits_value ds = foldl (\<lambda>acc c. acc * 10 + digit_value c) 0 ds"

lemma foldl_digits: "foldl (\<lambda>acc c. acc * 10 + digit_value c) a ds = a * 10 ^ length ds + digits_value ds"
proof (induction ds arbitrary: a)
  case Nil
  then show ?case by (simp add: digits_value_def)
next
  case (Cons d ds)
  from Cons[of "a * 10 + digit_value d"] Cons[of "digit_value d"] show ?case
    by (simp add: digits_value_def algebra_simps)
qed

lemma digits_value_append: "digits_value (xs @ ys) = digits_value xs * 10 ^ length ys + digits_value ys"
  by (simp add: digits_value_def) (simp add: foldl_digits flip: digits_value_def)

lemma digits_value_simps [simp]:
  "digits_value [] = 0" "digits_value (c # cs) = digit_value c * 10 ^ length cs + digits_value cs"
  using digits_value_append[of "[c]" cs] by (simp_all add: digits_value_def)

lemma digits_value_bounds:
  "list_all isDigit ds \<Longrightarrow> 0 \<le> digits_value ds \<and> digits_value ds < 10 ^ length ds"
proof (induction ds)
  case Nil
  then show ?case by simp
next
  case (Cons c cs)
  then have c: "0 \<le> digit_value c" "digit_value c \<le> 9" using digit_value_bounds[of c] by simp_all
  have "digit_value c * 10 ^ length cs \<le> 9 * 10 ^ length cs"
    using c(2) by (rule mult_right_mono) simp
  moreover have "0 \<le> digit_value c * 10 ^ length cs" using c(1) by simp
  moreover have "0 \<le> digits_value cs" "digits_value cs < 10 ^ length cs" using Cons by simp_all
  ultimately show ?case
    unfolding digits_value_simps length_Cons power_Suc by (intro conjI; linarith)
qed

lemma digits_value_zeros [simp]: "digits_value (replicate n (CHR ''0'')) = 0"
  by (induction n) (simp_all add: digit_value_def)

lemma digits_value_take:
  assumes "list_all isDigit ds" "p \<le> length ds"
  shows "digits_value (take p ds) = digits_value ds div 10 ^ (length ds - p)"
proof -
  have "digits_value ds = digits_value (take p ds) * 10 ^ (length ds - p) + digits_value (drop p ds)"
    using digits_value_append[of "take p ds" "drop p ds"] by simp
  moreover have "0 \<le> digits_value (drop p ds)" "digits_value (drop p ds) < 10 ^ (length ds - p)"
    using digits_value_bounds[of "drop p ds"] assms(1) set_drop_subset[of p ds]
    by (auto simp: list_all_iff)
  ultimately show ?thesis by (simp add: div_pos_pos_trivial)
qed

lemma nat_string_digits: "list_all isDigit (nat_string n)"
proof (induction n rule: nat_string.induct)
  case (1 n)
  then show ?case by (subst nat_string.simps) simp
qed

lemma nat_string_nonempty [simp]: "nat_string n \<noteq> []"
  by (subst nat_string.simps) simp

lemma nat_string_value: "digits_value (nat_string n) = int n"
proof (induction n rule: nat_string.induct)
  case (1 n)
  then show ?case
    by (subst nat_string.simps) (simp add: digits_value_append zmod_int zdiv_int)
qed

lemma nat_string_length: "n < 10 ^ k \<Longrightarrow> 0 < k \<Longrightarrow> length (nat_string n) \<le> k"
proof (induction n arbitrary: k rule: nat_string.induct)
  case (1 n)
  show ?case
  proof (cases "n < 10")
    case True
    with "1.prems" show ?thesis by (subst nat_string.simps) simp
  next
    case False
    then have "1 < k" using "1.prems"(1) by (cases k; cases "k - 1") auto
    then have "n div 10 < 10 ^ (k - 1)" using "1.prems"
      by (cases k) (auto simp: div_less_iff_less_mult)
    with False "1.IH" \<open>1 < k\<close> have "length (nat_string (n div 10)) \<le> k - 1" by simp
    with False \<open>1 < k\<close> show ?thesis by (subst nat_string.simps) simp
  qed
qed

lemma nat_string_head: "isDigit (hd (nat_string n))"
  using nat_string_digits[of n] by (cases "nat_string n") (auto simp: list_all_iff)

lemma isDigit_signs [simp]: "\<not> isDigit (CHR ''+'')" "\<not> isDigit (CHR ''-'')" "\<not> isDigit (CHR ''.'')"
  by (simp_all add: isDigit_def)

lemma isDigit_zero [simp]: "isDigit (CHR ''0'')"
  by (simp add: isDigit_def)

subsection \<open>The scanners\<close>

lemma scan_integral_digits:
  "list_all isDigit ds \<Longrightarrow> rest = [] \<or> \<not> isDigit (hd rest) \<Longrightarrow>
    scan_integral acc (ds @ rest) = (acc * 10 ^ length ds + digits_value ds, rest)"
proof (induction ds arbitrary: acc)
  case Nil
  then show ?case by (cases rest) auto
next
  case (Cons d ds)
  then show ?case by (simp add: algebra_simps)
qed

lemma scan_fraction_digits:
  "list_all isDigit ds \<Longrightarrow> n + length ds \<le> ScaleDigits \<Longrightarrow>
    scan_fraction acc n ds = (acc * 10 ^ length ds + digits_value ds, n + length ds, [])"
  by (induction ds arbitrary: acc n) (auto simp: algebra_simps)

lemma pad_fraction_eq: "n \<le> ScaleDigits \<Longrightarrow> pad_fraction acc n = acc * 10 ^ (ScaleDigits - n)"
proof (induction acc n rule: pad_fraction.induct)
  case (1 acc n)
  show ?case
  proof (cases "n < ScaleDigits")
    case True
    then have "ScaleDigits - n = Suc (ScaleDigits - (n + 1))" by simp
    with True 1 show ?thesis by (subst pad_fraction.simps) simp
  next
    case False
    with "1.prems" show ?thesis by (subst pad_fraction.simps) simp
  qed
qed

subsection \<open>Printing and parsing\<close>

definition clamp_prec :: "int \<Rightarrow> nat" where
  "clamp_prec prec = min (nat prec) ScaleDigits"

text \<open>The fraction as it is printed: eighteen digits.\<close>

definition fraction_digits :: "int \<Rightarrow> string" where
  "fraction_digits f =
     replicate (ScaleDigits - length (nat_string (nat f))) (CHR ''0'') @ nat_string (nat f)"

lemma scale_digits_power: "scaleBig = 10 ^ ScaleDigits"
  by (simp add: scaleBig_num ScaleDigits_def)

lemma fraction_digits_facts:
  assumes "0 \<le> f" "f < scaleBig"
  shows "length (fraction_digits f) = ScaleDigits" "list_all isDigit (fraction_digits f)"
    "digits_value (fraction_digits f) = f"
proof -
  have "int (nat f) < int (10 ^ ScaleDigits)" using assms by (simp add: scale_digits_power)
  then have "nat f < 10 ^ ScaleDigits" by (simp only: of_nat_less_iff)
  then have "length (nat_string (nat f)) \<le> ScaleDigits"
    by (rule nat_string_length) (simp add: ScaleDigits_def)
  then show "length (fraction_digits f) = ScaleDigits" by (simp add: fraction_digits_def)
  show "list_all isDigit (fraction_digits f)"
    using nat_string_digits by (auto simp: fraction_digits_def list_all_iff)
  show "digits_value (fraction_digits f) = f"
    using assms(1) by (simp add: fraction_digits_def digits_value_append nat_string_value)
qed

lemma StringPrec_eq:
  "StringPrec d prec = (if toBig d < 0 then [CHR ''-''] else [])
     @ nat_string (nat (\<bar>toBig d\<bar> div scaleBig))
     @ (if clamp_prec prec > 0
        then CHR ''.'' # take (clamp_prec prec) (fraction_digits (\<bar>toBig d\<bar> mod scaleBig)) else [])"
proof -
  let ?c = "if (if prec < 0 then 0 else prec) > int ScaleDigits then int ScaleDigits
     else (if prec < 0 then 0 else prec)"
  have "nat ?c = clamp_prec prec" "(?c > 0) = (clamp_prec prec > 0)"
    by (auto simp: clamp_prec_def ScaleDigits_def)
  then show ?thesis
    unfolding StringPrec_def Let_def Sign_spec sgn_int_simps fraction_digits_def[symmetric] by simp
qed

text \<open>The text of a number: digits, and a fraction if it has digits.\<close>

definition number_text :: "string \<Rightarrow> string \<Rightarrow> string" where
  "number_text ds fs = ds @ (if fs = [] then [] else CHR ''.'' # fs)"

lemma parse_fraction_text:
  assumes "list_all isDigit fs" "length fs \<le> ScaleDigits"
  shows "parse_fraction (if fs = [] then [] else CHR ''.'' # fs) =
    Some (digits_value fs * 10 ^ (ScaleDigits - length fs))"
  using scan_fraction_digits[of fs 0 0] assms by (auto simp: parse_fraction_def pad_fraction_eq)

lemma parse_magnitude_text:
  assumes "list_all isDigit ds" "ds \<noteq> []" "list_all isDigit fs" "length fs \<le> ScaleDigits"
  shows "parse_magnitude (number_text ds fs) =
    Some (digits_value ds * scaleBig + digits_value fs * 10 ^ (ScaleDigits - length fs))"
proof -
  have "isDigit (hd (number_text ds fs))" "number_text ds fs \<noteq> []"
    using assms(1,2) by (cases ds; simp add: number_text_def)+
  moreover have "scan_integral 0 (number_text ds fs) = (digits_value ds, if fs = [] then [] else CHR ''.'' # fs)"
    using scan_integral_digits[of ds "if fs = [] then [] else CHR ''.'' # fs" 0] assms(1)
    by (simp add: number_text_def)
  ultimately show ?thesis
    using parse_fraction_text[OF assms(3,4)] by (simp add: parse_magnitude_def)
qed

lemma Parse_signed:
  assumes "parse_magnitude body = Some raw"
  shows "Parse ((if neg then [CHR ''-''] else []) @ body) =
    (case fromBigChecked (if neg then - raw else raw) of
       None \<Rightarrow> Inl (Overflows ((if neg then [CHR ''-''] else []) @ body)) | Some d \<Rightarrow> Inr d)"
proof -
  obtain c cs where "body = c # cs" and "isDigit c"
    using assms by (cases body) (auto simp: parse_magnitude_def split: if_splits)
  moreover from this have "c \<noteq> CHR ''+''" "c \<noteq> CHR ''-''" using isDigit_signs by metis+
  ultimately show ?thesis using assms by (auto simp: Parse_def split: option.splits)
qed

text \<open>Truncation towards zero to the first \<open>p\<close> fractional digits.\<close>

definition truncated :: "nat \<Rightarrow> int \<Rightarrow> int" where
  "truncated p i = (i sdiv 10 ^ (ScaleDigits - p)) * 10 ^ (ScaleDigits - p)"

lemma truncated_abs:
  "truncated p i = (if i < 0 then - (\<bar>i\<bar> div 10 ^ (ScaleDigits - p) * 10 ^ (ScaleDigits - p))
     else \<bar>i\<bar> div 10 ^ (ScaleDigits - p) * 10 ^ (ScaleDigits - p))"
  by (auto simp: truncated_def sdiv_by_magnitude)

lemma truncated_in_range: "in_range i \<Longrightarrow> in_range (truncated p i)"
proof -
  assume i: "in_range i"
  let ?t = "\<bar>i\<bar> div 10 ^ (ScaleDigits - p) * 10 ^ (ScaleDigits - p)"
  have "0 \<le> \<bar>i\<bar> mod 10 ^ (ScaleDigits - p)" by simp
  then have "?t \<le> \<bar>i\<bar>"
    using div_mult_mod_eq[of "\<bar>i\<bar>" "10 ^ (ScaleDigits - p)"] by linarith
  moreover have "0 \<le> ?t" by (simp add: pos_imp_zdiv_nonneg_iff)
  ultimately show ?thesis
    using i in_range_between[OF i in_range_zero] in_range_between[OF in_range_zero i]
    unfolding truncated_abs by (auto simp: abs_if split: if_splits)
qed

lemma truncated_split:
  assumes "p \<le> ScaleDigits" "0 \<le> a"
  shows "a div scaleBig * scaleBig + a mod scaleBig div 10 ^ (ScaleDigits - p) * 10 ^ (ScaleDigits - p)
    = a div 10 ^ (ScaleDigits - p) * 10 ^ (ScaleDigits - p)"
proof -
  let ?k = "10 ^ (ScaleDigits - p) :: int"
  have scale: "scaleBig = 10 ^ p * ?k" using assms(1) by (simp add: scale_digits_power flip: power_add)
  have "a div ?k = (a div scaleBig * scaleBig + a mod scaleBig) div ?k" by simp
  also have "\<dots> = a div scaleBig * 10 ^ p + a mod scaleBig div ?k"
    unfolding scale mult.assoc[symmetric] by (simp add: add.commute)
  finally show ?thesis by (simp add: scale algebra_simps)
qed

lemma Parse_StringPrec:
  "\<exists>d'. Parse (StringPrec d prec) = Inr d' \<and> toBig d' = truncated (clamp_prec prec) (toBig d)"
proof -
  let ?a = "\<bar>toBig d\<bar>" and ?p = "clamp_prec prec"
  let ?fs = "take ?p (fraction_digits (?a mod scaleBig))"
  have p: "?p \<le> ScaleDigits" by (simp add: clamp_prec_def)
  have f: "0 \<le> ?a mod scaleBig" "?a mod scaleBig < scaleBig" by (simp_all add: scaleBig_num)
  note fd = fraction_digits_facts[OF f]
  have len: "length ?fs = ?p" using fd(1) p by simp
  have digits: "list_all isDigit ?fs" using fd(2) by (auto simp: list_all_iff dest: in_set_takeD)
  have dv: "digits_value ?fs = ?a mod scaleBig div 10 ^ (ScaleDigits - ?p)"
    using digits_value_take[OF fd(2)] fd(1,3) p by simp
  let ?body = "number_text (nat_string (nat (?a div scaleBig))) ?fs"
  have printed: "StringPrec d prec = (if toBig d < 0 then [CHR ''-''] else []) @ ?body"
    using len by (auto simp: StringPrec_eq number_text_def)
  have "parse_magnitude ?body = Some (?a div 10 ^ (ScaleDigits - ?p) * 10 ^ (ScaleDigits - ?p))"
  proof -
    have "parse_magnitude ?body = Some (digits_value (nat_string (nat (?a div scaleBig))) * scaleBig
        + digits_value ?fs * 10 ^ (ScaleDigits - length ?fs))"
      by (rule parse_magnitude_text[OF nat_string_digits nat_string_nonempty digits]) (simp only: len p)
    moreover have "int (nat (?a div scaleBig)) = ?a div scaleBig"
      by (simp add: scaleBig_num pos_imp_zdiv_nonneg_iff)
    ultimately show ?thesis
      by (simp only: nat_string_value dv len truncated_split[OF p abs_ge_zero])
  qed
  from Parse_signed[OF this, of "toBig d < 0"]
  have "Parse (StringPrec d prec) = (case fromBigChecked (truncated ?p (toBig d)) of
      None \<Rightarrow> Inl (Overflows (StringPrec d prec)) | Some d' \<Rightarrow> Inr d')"
    unfolding printed by (simp add: truncated_abs)
  moreover have "in_range (truncated ?p (toBig d))" by (simp add: truncated_in_range)
  then obtain d' where "fromBigChecked (truncated ?p (toBig d)) = Some d'"
    using fromBigChecked_None by (metis option.exhaust)
  ultimately show ?thesis by (auto simp: fromBigChecked_Some)
qed

lemma truncated_full [simp]: "truncated ScaleDigits i = i"
  by (simp add: truncated_def signed_divide_int_def sgn_if)

lemma Parse_full: "Parse (StringPrec d (int ScaleDigits)) = Inr d"
  using Parse_StringPrec[of d "int ScaleDigits"] by (auto simp: clamp_prec_def toBig_inj)


subsection \<open>Properties of the decimal type\<close>

text \<open>C37: Addition and subtraction are exact, and panic exactly when the result leaves the signed
  128-bit range; a subtraction undoes an addition.\<close>

theorem decimal_add_sub_exact:
  "(case Add d e of Some r \<Rightarrow> toBig r = toBig d + toBig e \<and> Sub r e = Some d
      | None \<Rightarrow> \<not> in_range (toBig d + toBig e)) \<and>
   (case Sub d e of Some r \<Rightarrow> toBig r = toBig d - toBig e | None \<Rightarrow> \<not> in_range (toBig d - toBig e))"
  using dec.add_None[of d e] dec.sub_None[of d e]
  by (auto simp: arith_values dec.add_sub_inverse split: option.split)

text \<open>C14: The limb multiplication is the exact product divided by the scale and truncated towards
  zero, and it panics exactly when that quotient leaves the range.\<close>

theorem decimal_mul_exact:
  "case Mul d e of
     Some r \<Rightarrow> toBig r = toBig d * toBig e sdiv scaleBig
   | None \<Rightarrow> \<not> in_range (toBig d * toBig e sdiv scaleBig)"
  by (auto simp: Mul_spec fromBigChecked_Some fromBigChecked_None split: option.split)

text \<open>C15: The bit-by-bit division returns the scaled quotient truncated towards zero; it panics
  exactly on a zero divisor and when the quotient leaves the range.\<close>

theorem decimal_div_exact:
  "case Div d e of
     Some r \<Rightarrow> toBig e \<noteq> 0 \<and> toBig r = toBig d * scaleBig sdiv toBig e
   | None \<Rightarrow> \<not> (toBig e \<noteq> 0 \<and> in_range (toBig d * scaleBig sdiv toBig e))"
  by (auto simp: Div_spec fromBigChecked_Some fromBigChecked_None split: option.split)

text \<open>Comparison by words is comparison of the values, \<^verbatim>\<open>==\<close> is equality of the values, and
  \<^verbatim>\<open>Sign\<close>, \<^verbatim>\<open>Neg\<close> and \<^verbatim>\<open>Abs\<close> agree with it: only the least value has no negation.\<close>

theorem decimal_order_exact:
  "Cmp d e = sgn (toBig d - toBig e) \<and> (Cmp d e = 0 \<longleftrightarrow> Eq d e) \<and> Sign d = Cmp d Zero \<and>
   toBig (DMin d e) = min (toBig d) (toBig e) \<and> toBig (DMax d e) = max (toBig d) (toBig e) \<and>
   (case Neg d of Some r \<Rightarrow> toBig r = - toBig d | None \<Rightarrow> toBig d = minNeg) \<and>
   (case Abs d of Some r \<Rightarrow> toBig r = \<bar>toBig d\<bar> | None \<Rightarrow> toBig d = minNeg)"
proof -
  have neg: "case Neg d of Some r \<Rightarrow> toBig r = - toBig d | None \<Rightarrow> toBig d = minNeg"
    using toBig_range[of d] by (auto simp: Neg_spec fromBigChecked_Some fromBigChecked_None in_range_def
        minNeg_num maxPos_num split: option.split)
  then have "case Abs d of Some r \<Rightarrow> toBig r = \<bar>toBig d\<bar> | None \<Rightarrow> toBig d = minNeg"
    by (auto simp: Abs_def Sign_spec sgn_if abs_if split: option.splits)
  with neg show ?thesis
    by (auto simp: Cmp_spec Eq_def Sign_spec toBig_inj min_def max_def le_toBig sgn_if toBig_Zero)
qed

text \<open>C38: Printing with any precision and parsing back truncates towards zero to that many digits
  (at most eighteen); the text marshallers are inverse.\<close>

theorem decimal_text_roundtrip:
  "(\<exists>d'. Parse (StringPrec d prec) = Inr d' \<and> toBig d' = truncated (clamp_prec prec) (toBig d)) \<and>
   UnmarshalText old (MarshalText d) = (None, d)"
  using Parse_StringPrec by (simp add: UnmarshalText_def MarshalText_def Parse_full)

definition plain_char :: "char \<Rightarrow> bool" where
  "plain_char c \<longleftrightarrow> isDigit c \<or> c = CHR ''.'' \<or> c = CHR ''-''"

lemma StringPrec_plain: "list_all plain_char (StringPrec d prec)"
proof -
  have f: "0 \<le> \<bar>toBig d\<bar> mod scaleBig" "\<bar>toBig d\<bar> mod scaleBig < scaleBig" by (simp_all add: scaleBig_num)
  show ?thesis using nat_string_digits fraction_digits_facts(2)[OF f]
    by (auto simp: StringPrec_eq list_all_iff plain_char_def dest: in_set_takeD)
qed

lemma MarshalJSON_trim: "TrimSpace (MarshalJSON d) = MarshalJSON d"
  by (simp add: TrimSpace_def MarshalJSON_def is_space_def)

text \<open>The JSON marshallers are inverse, for a JSON decoder that reads a quoted string without
  escapes or control characters as its contents.\<close>

theorem decimal_json_roundtrip:
  assumes "\<And>s. list_all plain_char s \<Longrightarrow> unmarshal (CHR 0x22 # s @ [CHR 0x22]) = Some s"
  shows "UnmarshalJSON unmarshal old (MarshalJSON d) = (None, d)"
  using assms[OF StringPrec_plain]
  by (simp add: UnmarshalJSON_def MarshalJSON_trim) (simp add: MarshalJSON_def Parse_full)

theorem decimal_json_roundtrip_witness:
  "UnmarshalJSON (\<lambda>s. Some (butlast (tl s))) Zero (MarshalJSON (Decimal 1 5)) = (None, Decimal 1 5)"
  by (rule decimal_json_roundtrip) simp

end
