(* ===== verification/OrderBook.thy ===== *)
theory OrderBook
  imports DecimalArith
begin

text \<open>
  \<^verbatim>\<open>internal/orderbook/orderbook.go\<close>: the price-time matching engine. The state of the Go
  \<^verbatim>\<open>OrderBook\<close> is a record: the books per instrument, the registered hooks, the injectable
  clock (the \<open>k\<close>-th reading is \<open>ob_now b k\<close>, \<open>ob_reads\<close> counts the readings) and, to make
  the callbacks observable, the log \<open>ob_calls\<close> of hook invocations. An order passed by
  pointer is returned updated.
\<close>

subsection \<open>Data\<close>

text \<open>\<^verbatim>\<open>Side\<close> is a string type; the code compares it with two constants only.\<close>

datatype side = SideBuy | SideSell | SideOther string

record order =
  ord_ID :: string
  ord_Instrument :: string
  ord_Price :: decimal
  ord_Volume :: decimal
  ord_Side :: side
  ord_IsMarket :: bool
  ord_Metadata :: "string \<rightharpoonup> string"

record trade =
  tr_BuyOrderID :: string
  tr_SellOrderID :: string
  tr_Instrument :: string
  tr_Price :: decimal
  tr_Volume :: decimal
  tr_TakerSide :: side
  tr_ExecutedAt :: go_time

record level =
  lv_Price :: decimal
  lv_Volume :: decimal

record snapshot =
  sn_Instrument :: string
  sn_Bids :: "level list"
  sn_Asks :: "level list"
  sn_LastTrade :: "trade option"
  sn_BestBid :: decimal
  sn_BestAsk :: decimal

datatype book_error = ErrUnknownInstrument | ErrOrderNotFound

datatype hook_event = EvTrigger order | EvTrade trade | EvCancel order

record instrument_book =
  ib_bids :: "order list"
  ib_asks :: "order list"
  ib_lastTrade :: "trade option"

record order_book =
  ob_instruments :: "string \<rightharpoonup> instrument_book"
  ob_hooks :: "nat list"
  ob_now :: "nat \<Rightarrow> go_time"
  ob_reads :: nat
  ob_calls :: "(nat \<times> hook_event) list"

definition empty_book :: instrument_book where
  "empty_book = \<lparr>ib_bids = [], ib_asks = [], ib_lastTrade = None\<rparr>"

definition NewOrderBook :: "(nat \<Rightarrow> go_time) \<Rightarrow> string list \<Rightarrow> order_book" where
  "NewOrderBook now insts = \<lparr>ob_instruments = map_of (map (\<lambda>s. (s, empty_book)) insts), ob_hooks = [],
     ob_now = now, ob_reads = 0, ob_calls = []\<rparr>"

definition Register :: "order_book \<Rightarrow> string \<Rightarrow> order_book" where
  "Register b inst =
     (case ob_instruments b inst of
        None \<Rightarrow> b\<lparr>ob_instruments := (ob_instruments b)(inst \<mapsto> empty_book)\<rparr>
      | Some _ \<Rightarrow> b)"

definition SetClock :: "order_book \<Rightarrow> (nat \<Rightarrow> go_time) option \<Rightarrow> order_book" where
  "SetClock b now = (case now of None \<Rightarrow> b | Some f \<Rightarrow> b\<lparr>ob_now := f, ob_reads := 0\<rparr>)"

definition RegisterHook :: "order_book \<Rightarrow> nat \<Rightarrow> order_book" where
  "RegisterHook b h = b\<lparr>ob_hooks := ob_hooks b @ [h]\<rparr>"

definition fire :: "order_book \<Rightarrow> hook_event \<Rightarrow> order_book" where
  "fire b ev = b\<lparr>ob_calls := ob_calls b @ map (\<lambda>h. (h, ev)) (ob_hooks b)\<rparr>"

definition lookup :: "order_book \<Rightarrow> string \<Rightarrow> instrument_book option" where
  "lookup b inst = ob_instruments b inst"

subsection \<open>Matching\<close>

text \<open>A resting order a limit order does not reach: the two \<^verbatim>\<open>break\<close>s of the loop.\<close>

definition beyond_limit :: "order \<Rightarrow> order \<Rightarrow> bool" where
  "beyond_limit incoming resting \<longleftrightarrow> \<not> ord_IsMarket incoming \<and>
     (ord_Side incoming = SideBuy \<and> Cmp (ord_Price incoming) (ord_Price resting) < 0 \<or>
      ord_Side incoming = SideSell \<and> Cmp (ord_Price incoming) (ord_Price resting) > 0)"

definition mk_trade :: "order \<Rightarrow> order \<Rightarrow> decimal \<Rightarrow> go_time \<Rightarrow> trade" where
  "mk_trade incoming resting traded t =
     \<lparr>tr_BuyOrderID = (if ord_Side incoming = SideBuy then ord_ID incoming else ord_ID resting),
      tr_SellOrderID = (if ord_Side incoming = SideBuy then ord_ID resting else ord_ID incoming),
      tr_Instrument = ord_Instrument incoming,
      tr_Price = ord_Price resting,
      tr_Volume = traded,
      tr_TakerSide = ord_Side incoming,
      tr_ExecutedAt = t\<rparr>"

text \<open>
  The loop of \<^verbatim>\<open>matchLocked\<close> on the part of the queue from index \<open>i\<close>; \<open>k\<close> is the number of
  clock readings so far. It returns the incoming order, the queue that is left and the trades.
\<close>

fun match_loop ::
    "(nat \<Rightarrow> go_time) \<Rightarrow> nat \<Rightarrow> order \<Rightarrow> order list \<Rightarrow> (order \<times> order list \<times> trade list) option" where
  "match_loop now k incoming [] = Some (incoming, [], [])"
| "match_loop now k incoming (resting # rest) =
     (if \<not> Sign (ord_Volume incoming) > 0 \<or> beyond_limit incoming resting
      then Some (incoming, resting # rest, [])
      else let traded = DMin (ord_Volume incoming) (ord_Volume resting) in do {
        v \<leftarrow> Sub (ord_Volume incoming) traded;
        w \<leftarrow> Sub (ord_Volume resting) traded;
        let incoming' = incoming\<lparr>ord_Volume := v\<rparr>;
        let resting' = resting\<lparr>ord_Volume := w\<rparr>;
        let t = mk_trade incoming resting traded (now k);
        if IsZero w then do {
          (inc, queue, ts) \<leftarrow> match_loop now (k + 1) incoming' rest;
          Some (inc, queue, t # ts)
        } else Some (incoming', resting' # rest, [t])
      })"

definition opposite_queue :: "instrument_book \<Rightarrow> side \<Rightarrow> order list" where
  "opposite_queue ib s = (if s = SideBuy then ib_asks ib else ib_bids ib)"

definition set_opposite :: "instrument_book \<Rightarrow> side \<Rightarrow> order list \<Rightarrow> instrument_book" where
  "set_opposite ib s q = (if s = SideBuy then ib\<lparr>ib_asks := q\<rparr> else ib\<lparr>ib_bids := q\<rparr>)"

definition matchLocked ::
    "(nat \<Rightarrow> go_time) \<Rightarrow> nat \<Rightarrow> instrument_book \<Rightarrow> order \<Rightarrow> (instrument_book \<times> order \<times> trade list) option" where
  "matchLocked now k ib incoming = do {
     (inc, queue, trades) \<leftarrow> match_loop now k incoming (opposite_queue ib (ord_Side incoming));
     let ib' = set_opposite ib (ord_Side incoming) queue;
     Some (if trades = [] then ib' else ib'\<lparr>ib_lastTrade := Some (last trades)\<rparr>, inc, trades)
   }"

definition bid_before :: "order \<Rightarrow> order \<Rightarrow> bool" where
  "bid_before x y \<longleftrightarrow> Cmp (ord_Price x) (ord_Price y) > 0"

definition ask_before :: "order \<Rightarrow> order \<Rightarrow> bool" where
  "ask_before x y \<longleftrightarrow> Cmp (ord_Price x) (ord_Price y) < 0"

definition enqueueLocked :: "instrument_book \<Rightarrow> order \<Rightarrow> instrument_book" where
  "enqueueLocked ib ord =
     (if ord_Side ord = SideBuy
      then ib\<lparr>ib_bids := slice_stable bid_before (ib_bids ib @ [ord])\<rparr>
      else ib\<lparr>ib_asks := slice_stable ask_before (ib_asks ib @ [ord])\<rparr>)"

subsection \<open>The operations of the book\<close>

definition put_book :: "order_book \<Rightarrow> string \<Rightarrow> instrument_book \<Rightarrow> order_book" where
  "put_book b inst ib = b\<lparr>ob_instruments := (ob_instruments b)(inst \<mapsto> ib)\<rparr>"

text \<open>Storing the book after a match, counting the clock readings and firing the trades.\<close>

definition commit :: "order_book \<Rightarrow> string \<Rightarrow> instrument_book \<Rightarrow> trade list \<Rightarrow> order_book" where
  "commit b inst ib trades =
     fold (\<lambda>t b. fire b (EvTrade t)) trades
       ((put_book b inst ib)\<lparr>ob_reads := ob_reads b + length trades\<rparr>)"

definition AddLimitOrder ::
    "order_book \<Rightarrow> order \<Rightarrow> ((book_error + trade list) \<times> order \<times> order_book) option" where
  "AddLimitOrder b ord =
     (case lookup b (ord_Instrument ord) of
        None \<Rightarrow> Some (Inl ErrUnknownInstrument, ord, b)
      | Some ib \<Rightarrow>
          if IsZero (ord_Volume ord) then Some (Inr [], ord, fire b (EvTrigger ord))
          else do {
            (ib', ord', trades) \<leftarrow> matchLocked (ob_now b) (ob_reads b) ib ord;
            let ib'' = (if Sign (ord_Volume ord') > 0 \<and> \<not> ord_IsMarket ord'
                        then enqueueLocked ib' ord' else ib');
            Some (Inr trades, ord', commit b (ord_Instrument ord) ib'' trades)
          })"

definition ExecuteMarketOrder ::
    "order_book \<Rightarrow> order \<Rightarrow> ((book_error + trade list) \<times> order \<times> order_book) option" where
  "ExecuteMarketOrder b ord = AddLimitOrder b (ord\<lparr>ord_IsMarket := True\<rparr>)"

definition ExecuteLimitIOC ::
    "order_book \<Rightarrow> order \<Rightarrow> ((book_error + trade list) \<times> order \<times> order_book) option" where
  "ExecuteLimitIOC b ord =
     (case lookup b (ord_Instrument ord) of
        None \<Rightarrow> Some (Inl ErrUnknownInstrument, ord, b)
      | Some ib \<Rightarrow>
          if Sign (ord_Volume ord) \<le> 0 then Some (Inr [], ord, b)
          else do {
            (ib', ord', trades) \<leftarrow> matchLocked (ob_now b) (ob_reads b) ib ord;
            Some (Inr trades, ord', commit b (ord_Instrument ord) ib' trades)
          })"

fun removeOrder :: "order list \<Rightarrow> string \<Rightarrow> (order \<times> order list) option" where
  "removeOrder [] oid = None"
| "removeOrder (ord # rest) oid =
     (if ord_ID ord = oid then Some (ord, rest)
      else case removeOrder rest oid of None \<Rightarrow> None | Some (r, q) \<Rightarrow> Some (r, ord # q))"

definition CancelOrder ::
    "order_book \<Rightarrow> string \<Rightarrow> string \<Rightarrow> (book_error + order) \<times> order_book" where
  "CancelOrder b inst oid =
     (case lookup b inst of
        None \<Rightarrow> (Inl ErrUnknownInstrument, b)
      | Some ib \<Rightarrow>
         (case removeOrder (ib_bids ib) oid of
            Some (removed, q) \<Rightarrow>
              (Inr removed, fire (put_book b inst (ib\<lparr>ib_bids := q\<rparr>)) (EvCancel removed))
          | None \<Rightarrow>
             (case removeOrder (ib_asks ib) oid of
                Some (removed, q) \<Rightarrow>
                  (Inr removed, fire (put_book b inst (ib\<lparr>ib_asks := q\<rparr>)) (EvCancel removed))
              | None \<Rightarrow> (Inl ErrOrderNotFound, b))))"

definition OpenOrders :: "order_book \<Rightarrow> string \<Rightarrow> order list" where
  "OpenOrders b inst =
     (case lookup b inst of None \<Rightarrow> [] | Some ib \<Rightarrow> ib_bids ib @ ib_asks ib)"

subsection \<open>Snapshots\<close>

text \<open>
  \<^verbatim>\<open>aggregateLevels\<close>: the map of volumes per price (a missing entry is the zero value), then
  its prices sorted. The order of the association list is the order of first insertion; Go
  ranges over the map in an arbitrary order, which the sort makes irrelevant.
\<close>

fun sum_levels :: "(decimal, decimal) gomap \<Rightarrow> order list \<Rightarrow> (decimal, decimal) gomap option" where
  "sum_levels m [] = Some m"
| "sum_levels m (o1 # os) = do {
     v \<leftarrow> Add (case map_of m (ord_Price o1) of None \<Rightarrow> Zero | Some x \<Rightarrow> x) (ord_Volume o1);
     sum_levels (AList.update (ord_Price o1) v m) os
   }"

definition price_before :: "bool \<Rightarrow> decimal \<Rightarrow> decimal \<Rightarrow> bool" where
  "price_before desc p q \<longleftrightarrow> (if desc then Cmp p q > 0 else Cmp p q < 0)"

definition aggregateLevels :: "order list \<Rightarrow> bool \<Rightarrow> level list option" where
  "aggregateLevels os desc = do {
     levels \<leftarrow> sum_levels [] os;
     let prices = slice_stable (price_before desc) (map fst levels);
     Some (map (\<lambda>p. \<lparr>lv_Price = p, lv_Volume = the (map_of levels p)\<rparr>) prices)
   }"

definition Snapshot :: "order_book \<Rightarrow> string \<Rightarrow> (book_error + snapshot) option" where
  "Snapshot b inst =
     (case lookup b inst of
        None \<Rightarrow> Some (Inl ErrUnknownInstrument)
      | Some ib \<Rightarrow> do {
          bids \<leftarrow> aggregateLevels (ib_bids ib) True;
          asks \<leftarrow> aggregateLevels (ib_asks ib) False;
          Some (Inr \<lparr>sn_Instrument = inst, sn_Bids = bids, sn_Asks = asks,
            sn_LastTrade = ib_lastTrade ib,
            sn_BestBid = (case bids of [] \<Rightarrow> Zero | l # _ \<Rightarrow> lv_Price l),
            sn_BestAsk = (case asks of [] \<Rightarrow> Zero | l # _ \<Rightarrow> lv_Price l)\<rparr>)
        })"

end
