(* ===== verification/Matching.thy ===== *)
theory Matching
  imports OrderBook "HOL-Library.Sublist"
begin

text \<open>
  Correctness of the matching engine. The loop of \<^verbatim>\<open>matchLocked\<close> is shown to run without a
  panic and to follow \<open>match_run\<close>, a big-step relation with one rule per way the loop goes
  on; the facts about fills (conservation, price limit, price-time priority, the declared
  fill of each resting order) are rule inductions over it. Then the well-formedness of a
  book, kept by every operation, and the absence of a crossed book.
\<close>

abbreviation vol :: "order \<Rightarrow> int" where "vol x \<equiv> toBig (ord_Volume x)"
abbreviation price :: "order \<Rightarrow> int" where "price x \<equiv> toBig (ord_Price x)"

definition total :: "order list \<Rightarrow> int" where
  "total os = sum_list (map vol os)"

definition traded :: "trade list \<Rightarrow> int" where
  "traded ts = sum_list (map (\<lambda>t. toBig (tr_Volume t)) ts)"

definition positive :: "order list \<Rightarrow> bool" where
  "positive os \<longleftrightarrow> (\<forall>x\<in>set os. 0 < vol x)"

lemma total_simps [simp]: "total [] = 0" "total (x # xs) = vol x + total xs" "total (xs @ ys) = total xs + total ys"
  by (simp_all add: total_def)

lemma traded_simps [simp]: "traded [] = 0" "traded (t # ts) = toBig (tr_Volume t) + traded ts"
  by (simp_all add: traded_def)

lemma positive_simps [simp]: "positive []" "positive (x # xs) \<longleftrightarrow> 0 < vol x \<and> positive xs"
  by (auto simp: positive_def)

lemma total_nonneg: "positive os \<Longrightarrow> 0 \<le> total os"
  by (induction os) auto

subsection \<open>The relation of matching\<close>

inductive match_run ::
    "(nat \<Rightarrow> go_time) \<Rightarrow> nat \<Rightarrow> order \<Rightarrow> order list \<Rightarrow> order \<Rightarrow> order list \<Rightarrow> trade list \<Rightarrow> bool"
  for now where
  stop: "vol inc \<le> 0 \<or> q = [] \<or> beyond_limit inc (hd q) \<Longrightarrow> match_run now k inc q inc q []"
| fill: "0 < vol inc \<Longrightarrow> \<not> beyond_limit inc r \<Longrightarrow> vol r \<le> vol inc \<Longrightarrow> toBig v = vol inc - vol r \<Longrightarrow>
    match_run now (k + 1) (inc\<lparr>ord_Volume := v\<rparr>) rest inc' q' ts \<Longrightarrow>
    match_run now k inc (r # rest) inc' q' (mk_trade inc r (ord_Volume r) (now k) # ts)"
| partial: "0 < vol inc \<Longrightarrow> \<not> beyond_limit inc r \<Longrightarrow> vol inc < vol r \<Longrightarrow> toBig w = vol r - vol inc \<Longrightarrow>
    match_run now k inc (r # rest) (inc\<lparr>ord_Volume := Zero\<rparr>) (r\<lparr>ord_Volume := w\<rparr> # rest)
      [mk_trade inc r (ord_Volume inc) (now k)]"

inductive_cases match_run_NilE: "match_run now k inc [] inc' q' ts"
inductive_simps match_run_Nil: "match_run now k inc [] inc' q' ts"

lemma Sub_min:
  assumes "0 < toBig a" "0 < toBig b"
  obtains v w where "Sub a (min a b) = Some v" "toBig v = toBig a - toBig (min a b)"
    "Sub b (min a b) = Some w" "toBig w = toBig b - toBig (min a b)"
proof -
  have "0 \<le> toBig (min a b)" "toBig (min a b) \<le> toBig a" "toBig (min a b) \<le> toBig b"
    using assms by (auto simp: min_def le_toBig)
  then show thesis using that dec.sub_below by metis
qed

lemma Sign_pos [simp]: "Sign d > 0 \<longleftrightarrow> 0 < toBig d" "Sign d \<le> 0 \<longleftrightarrow> toBig d \<le> 0"
  by (simp_all add: Sign_spec)

text \<open>The loop runs to an end, without a panic, and follows the relation.\<close>

lemma match_loop_runs:
  "positive q \<Longrightarrow> \<exists>inc' q' ts. match_loop now k inc q = Some (inc', q', ts) \<and> match_run now k inc q inc' q' ts"
proof (induction q arbitrary: k inc)
  case Nil
  then show ?case by (auto intro: match_run.stop)
next
  case (Cons r rest)
  show ?case
  proof (cases "vol inc \<le> 0 \<or> beyond_limit inc r")
    case True
    then show ?thesis by (auto simp: not_less intro: match_run.stop)
  next
    case False
    then have inc: "0 < vol inc" and r: "0 < vol r" using Cons.prems by simp_all
    let ?m = "min (ord_Volume inc) (ord_Volume r)"
    obtain v w where vw: "Sub (ord_Volume inc) ?m = Some v" "toBig v = vol inc - toBig ?m"
        "Sub (ord_Volume r) ?m = Some w" "toBig w = vol r - toBig ?m"
      using Sub_min[OF inc r] by blast
    show ?thesis
    proof (cases "vol r \<le> vol inc")
      case True
      then have m: "?m = ord_Volume r" by (simp add: min_def le_toBig antisym_conv flip: toBig_inj)
      obtain inc' q' ts where rec: "match_loop now (k + 1) (inc\<lparr>ord_Volume := v\<rparr>) rest = Some (inc', q', ts)"
          "match_run now (k + 1) (inc\<lparr>ord_Volume := v\<rparr>) rest inc' q' ts"
        using Cons.IH[of "k + 1" "inc\<lparr>ord_Volume := v\<rparr>"] Cons.prems by auto
      have "match_run now k inc (r # rest) inc' q' (mk_trade inc r (ord_Volume r) (now k) # ts)"
        using False True vw(2) rec(2) unfolding m by (intro match_run.fill) auto
      moreover have "IsZero w" using vw(4) unfolding m by (simp add: IsZero_spec)
      ultimately show ?thesis using False inc vw(1,3) rec(1) unfolding m by (auto simp: m)
    next
      case False2: False
      then have m: "?m = ord_Volume inc" by (simp add: min_def le_toBig)
      have v: "v = Zero" using vw(2) unfolding m by (simp flip: toBig_inj)
      have "match_run now k inc (r # rest) (inc\<lparr>ord_Volume := Zero\<rparr>) (r\<lparr>ord_Volume := w\<rparr> # rest)
          [mk_trade inc r (ord_Volume inc) (now k)]"
        using False False2 vw(4) unfolding m by (intro match_run.partial) auto
      moreover have "\<not> IsZero w" using vw(4) False2 unfolding m by (simp add: IsZero_spec)
      ultimately show ?thesis using False inc vw(1,3) v unfolding m by (auto simp: m)
    qed
  qed
qed

lemma match_loop_run:
  "positive q \<Longrightarrow> match_loop now k inc q = Some (inc', q', ts) \<Longrightarrow> match_run now k inc q inc' q' ts"
  using match_loop_runs[of q now k inc] by auto

subsection \<open>What a run of the loop does\<close>

lemma mk_trade_simps [simp]:
  "tr_Price (mk_trade i r v t) = ord_Price r" "tr_Volume (mk_trade i r v t) = v"
  "tr_TakerSide (mk_trade i r v t) = ord_Side i" "tr_Instrument (mk_trade i r v t) = ord_Instrument i"
  "tr_ExecutedAt (mk_trade i r v t) = t"
  by (simp_all add: mk_trade_def)

lemma beyond_limit_volume [simp]:
  "beyond_limit (inc\<lparr>ord_Volume := v\<rparr>) r = beyond_limit inc r"
  "beyond_limit inc (r\<lparr>ord_Volume := v\<rparr>) = beyond_limit inc r"
  by (simp_all add: beyond_limit_def)

text \<open>Only the volume of the incoming order changes; what it loses is what was traded.\<close>

lemma run_incoming: "match_run now k inc q inc' q' ts \<Longrightarrow> inc' = inc\<lparr>ord_Volume := ord_Volume inc'\<rparr>"
  by (induction rule: match_run.induct) (auto intro!: order.equality)

lemma run_conserves_incoming: "match_run now k inc q inc' q' ts \<Longrightarrow> vol inc = vol inc' + traded ts"
  by (induction rule: match_run.induct) auto

lemma run_conserves_queue: "match_run now k inc q inc' q' ts \<Longrightarrow> total q = total q' + traded ts"
  by (induction rule: match_run.induct) auto

lemma run_incoming_nonneg: "match_run now k inc q inc' q' ts \<Longrightarrow> 0 \<le> vol inc \<Longrightarrow> 0 \<le> vol inc'"
  by (induction rule: match_run.induct) auto

lemma run_positive: "match_run now k inc q inc' q' ts \<Longrightarrow> positive q \<Longrightarrow> positive q'"
  by (induction rule: match_run.induct) auto

lemma run_trades_positive:
  "match_run now k inc q inc' q' ts \<Longrightarrow> positive q \<Longrightarrow> t \<in> set ts \<Longrightarrow> 0 < toBig (tr_Volume t)"
  by (induction rule: match_run.induct) auto

lemma run_taker: "match_run now k inc q inc' q' ts \<Longrightarrow> t \<in> set ts \<Longrightarrow>
    tr_TakerSide t = ord_Side inc \<and> tr_Instrument t = ord_Instrument inc"
  by (induction rule: match_run.induct) auto

text \<open>Why the loop stopped.\<close>

lemma run_stops: "match_run now k inc q inc' q' ts \<Longrightarrow>
    vol inc' \<le> 0 \<or> q' = [] \<or> beyond_limit inc (hd q')"
  by (induction rule: match_run.induct) auto

text \<open>
  The queue that is left is a suffix of the queue, up to the volume of its head: orders are
  consumed from the front, in queue order.
\<close>

definition strip :: "order \<Rightarrow> order" where
  "strip x = x\<lparr>ord_Volume := Zero\<rparr>"

lemma strip_simps [simp]: "strip (x\<lparr>ord_Volume := v\<rparr>) = strip x" "ord_Price (strip x) = ord_Price x"
  "ord_ID (strip x) = ord_ID x" "ord_Side (strip x) = ord_Side x" "ord_IsMarket (strip x) = ord_IsMarket x"
  "ord_Instrument (strip x) = ord_Instrument x"
  by (simp_all add: strip_def)

lemma run_suffix: "match_run now k inc q inc' q' ts \<Longrightarrow> suffix (map strip q') (map strip q)"
  by (induction rule: match_run.induct) (auto simp: suffix_ConsI)

lemma run_members: "match_run now k inc q inc' q' ts \<Longrightarrow> x \<in> set q' \<Longrightarrow> \<exists>y\<in>set q. strip x = strip y"
  using set_mono_suffix[OF run_suffix[of now k inc q inc' q' ts]] by auto

text \<open>
  The \<open>i\<close>-th trade is with the \<open>i\<close>-th resting order, at its price, and not beyond the limit.
\<close>

lemma run_trade_nth:
  "match_run now k inc q inc' q' ts \<Longrightarrow> i < length ts \<Longrightarrow>
    i < length q \<and> tr_Price (ts ! i) = ord_Price (q ! i) \<and> \<not> beyond_limit inc (q ! i) \<and>
    ts ! i = mk_trade inc (q ! i) (tr_Volume (ts ! i)) (now (k + i))"
proof (induction arbitrary: i rule: match_run.induct)
  case (stop inc q k)
  then show ?case by simp
next
  case (fill inc r v k rest inc' q' ts)
  then show ?case by (cases i) (auto simp: mk_trade_def)
next
  case (partial inc r w k rest)
  then show ?case by simp
qed

text \<open>
  The declared fill: each resting order in turn gets the least of its volume and what is
  left of the incoming order.
\<close>

definition declared_fill :: "int \<Rightarrow> order list \<Rightarrow> nat \<Rightarrow> int" where
  "declared_fill v q i = min (vol (q ! i)) (v - total (take i q))"

lemma run_fills:
  "match_run now k inc q inc' q' ts \<Longrightarrow> i < length ts \<Longrightarrow>
    toBig (tr_Volume (ts ! i)) = declared_fill (vol inc) q i"
proof (induction arbitrary: i rule: match_run.induct)
  case (stop inc q k)
  then show ?case by simp
next
  case (fill inc r v k rest inc' q' ts)
  then show ?case by (cases i) (auto simp: declared_fill_def)
next
  case (partial inc r w k rest)
  then show ?case by (simp add: declared_fill_def)
qed

lemma price_strip: "map ord_Price q = map ord_Price (map strip q)"
  by simp

lemma sorted_suffix:
  assumes "suffix (map strip q') (map strip q)" "sorted_wrt P (map ord_Price q)"
  shows "sorted_wrt P (map ord_Price q')"
proof -
  obtain zs where "map strip q = zs @ map strip q'" using assms(1) by (auto simp: suffix_def)
  then have "map ord_Price q = map ord_Price zs @ map ord_Price q'"
    by (subst price_strip) (simp add: o_def)
  with assms(2) show ?thesis by (simp add: sorted_wrt_append)
qed

subsection \<open>Well-formed books\<close>

abbreviation desc_prices :: "order list \<Rightarrow> bool" where
  "desc_prices q \<equiv> sorted_wrt (\<ge>) (map ord_Price q)"

abbreviation asc_prices :: "order list \<Rightarrow> bool" where
  "asc_prices q \<equiv> sorted_wrt (\<le>) (map ord_Price q)"

text \<open>
  Each side is sorted by price, every resting order has volume left and is a limit order.
\<close>

definition wf_side :: "order list \<Rightarrow> bool" where
  "wf_side q \<longleftrightarrow> positive q \<and> (\<forall>x\<in>set q. \<not> ord_IsMarket x)"

definition wf_ib :: "instrument_book \<Rightarrow> bool" where
  "wf_ib ib \<longleftrightarrow> wf_side (ib_bids ib) \<and> wf_side (ib_asks ib) \<and>
     desc_prices (ib_bids ib) \<and> asc_prices (ib_asks ib) \<and> (\<forall>x\<in>set (ib_bids ib). ord_Side x = SideBuy) \<and>
     (\<forall>x\<in>set (ib_asks ib). ord_Side x \<noteq> SideBuy)"

definition wf_book :: "order_book \<Rightarrow> bool" where
  "wf_book b \<longleftrightarrow> (\<forall>inst ib. ob_instruments b inst = Some ib \<longrightarrow> wf_ib ib)"

definition uncrossed :: "instrument_book \<Rightarrow> bool" where
  "uncrossed ib \<longleftrightarrow> (\<forall>x\<in>set (ib_bids ib). \<forall>y\<in>set (ib_asks ib). ord_Price x < ord_Price y)"

lemma wf_empty [simp]: "wf_ib empty_book" "uncrossed empty_book"
  by (simp_all add: wf_ib_def wf_side_def empty_book_def uncrossed_def)

interpretation bid_order: comparator bid_before "\<lambda>x. - price x"
  by unfold_locales (simp add: bid_before_def less_toBig)

interpretation ask_order: comparator ask_before price
  by unfold_locales (simp add: ask_before_def less_toBig)

lemma desc_prices_iff: "desc_prices q \<longleftrightarrow> sorted (map (\<lambda>x. - price x) q)"
  by (induction q) (auto simp: le_toBig)

lemma asc_prices_iff: "asc_prices q \<longleftrightarrow> sorted (map price q)"
  by (induction q) (auto simp: le_toBig)

lemma run_wf_side:
  assumes "match_run now k inc q inc' q' ts" "wf_side q"
  shows "wf_side q'"
proof -
  have "\<not> ord_IsMarket x" if "x \<in> set q'" for x
  proof -
    from run_members[OF assms(1) that] obtain y where "y \<in> set q" "strip x = strip y" by blast
    with assms(2) show ?thesis unfolding wf_side_def by (metis strip_simps(5))
  qed
  with run_positive[OF assms(1)] assms(2) show ?thesis by (simp add: wf_side_def)
qed

lemma run_sides:
  assumes "match_run now k inc q inc' q' ts" "\<forall>x\<in>set q. P (ord_Side x)"
  shows "\<forall>x\<in>set q'. P (ord_Side x)"
  using run_members[OF assms(1)] assms(2) by (metis strip_simps(4))

lemma wf_enqueue:
  assumes "wf_ib ib" "0 < vol ord" "\<not> ord_IsMarket ord"
  shows "wf_ib (enqueueLocked ib ord)"
  using assms bid_order.sorted_slice[of "ib_bids ib @ [ord]"] ask_order.sorted_slice[of "ib_asks ib @ [ord]"]
  by (auto simp: enqueueLocked_def wf_ib_def wf_side_def positive_def desc_prices_iff asc_prices_iff)

text \<open>\<^verbatim>\<open>removeOrder\<close> takes the first order with the identifier out, and nothing else.\<close>

lemma removeOrder_split:
  "removeOrder q oid = Some (r, q') \<Longrightarrow>
    \<exists>xs ys. q = xs @ r # ys \<and> q' = xs @ ys \<and> ord_ID r = oid \<and> oid \<notin> ord_ID ` set xs"
proof (induction q oid arbitrary: r q' rule: removeOrder.induct)
  case (1 oid)
  then show ?case by simp
next
  case (2 x rest oid)
  show ?case
  proof (cases "ord_ID x = oid")
    case True
    with "2.prems" have "x # rest = [] @ r # q'" "q' = [] @ q'" "ord_ID r = oid" by simp_all
    then show ?thesis by fastforce
  next
    case False
    then obtain q1 where "removeOrder rest oid = Some (r, q1)" "q' = x # q1"
      using "2.prems" by (auto split: option.splits)
    with "2.IH"[OF False this(1)] False obtain xs ys where
      "rest = xs @ r # ys" "q1 = xs @ ys" "ord_ID r = oid" "oid \<notin> ord_ID ` set xs" by blast
    with False \<open>q' = x # q1\<close> have
      "x # rest = (x # xs) @ r # ys" "q' = (x # xs) @ ys" "ord_ID r = oid" "oid \<notin> ord_ID ` set (x # xs)" by auto
    then show ?thesis by blast
  qed
qed

lemma removeOrder_None: "removeOrder q oid = None \<longleftrightarrow> oid \<notin> ord_ID ` set q"
  by (induction q oid rule: removeOrder.induct) (auto split: option.splits)

subsection \<open>The operations keep a book well-formed and never panic\<close>

lemma matchLocked_runs:
  assumes "wf_ib ib"
  obtains ib' ord' ts q' where "matchLocked now k ib ord = Some (ib', ord', ts)"
    "match_run now k ord (opposite_queue ib (ord_Side ord)) ord' q' ts"
    "ib_bids ib' = (if ord_Side ord = SideBuy then ib_bids ib else q')"
    "ib_asks ib' = (if ord_Side ord = SideBuy then q' else ib_asks ib)"
    "wf_ib ib'"
proof -
  let ?q = "opposite_queue ib (ord_Side ord)"
  have wf: "wf_side ?q" using assms by (simp add: wf_ib_def opposite_queue_def)
  then obtain ord' q' ts where run: "match_loop now k ord ?q = Some (ord', q', ts)"
      "match_run now k ord ?q ord' q' ts"
    using match_loop_runs[of ?q now k ord] by (auto simp: wf_side_def)
  let ?ib = "set_opposite ib (ord_Side ord) q'"
  let ?ib' = "if ts = [] then ?ib else ?ib\<lparr>ib_lastTrade := Some (last ts)\<rparr>"
  have "matchLocked now k ib ord = Some (?ib', ord', ts)" by (simp add: matchLocked_def run(1))
  moreover have "wf_ib ?ib'"
  proof (cases "ord_Side ord = SideBuy")
    case True
    then have q: "?q = ib_asks ib" by (simp add: opposite_queue_def)
    have "asc_prices q'" using sorted_suffix[OF run_suffix[OF run(2)]] assms q by (simp add: wf_ib_def)
    moreover have "\<forall>x\<in>set q'. ord_Side x \<noteq> SideBuy"
      using run_sides[OF run(2), of "\<lambda>s. s \<noteq> SideBuy"] assms q by (simp add: wf_ib_def)
    ultimately show ?thesis
      using True assms run_wf_side[OF run(2) wf] by (simp add: wf_ib_def set_opposite_def)
  next
    case False
    then have q: "?q = ib_bids ib" by (simp add: opposite_queue_def)
    have "desc_prices q'" using sorted_suffix[OF run_suffix[OF run(2)]] assms q by (simp add: wf_ib_def)
    moreover have "\<forall>x\<in>set q'. ord_Side x = SideBuy"
      using run_sides[OF run(2), of "\<lambda>s. s = SideBuy"] assms q by (simp add: wf_ib_def)
    ultimately show ?thesis
      using False assms run_wf_side[OF run(2) wf] by (simp add: wf_ib_def set_opposite_def)
  qed
  ultimately show thesis using run(2) that[of ?ib' ord' ts q'] by (simp add: set_opposite_def)
qed

lemma fire_instruments [simp]: "ob_instruments (fire b ev) = ob_instruments b"
  "ob_now (fire b ev) = ob_now b" "ob_reads (fire b ev) = ob_reads b" "ob_hooks (fire b ev) = ob_hooks b"
  by (simp_all add: fire_def)

lemma commit_instruments [simp]:
  "ob_instruments (commit b inst ib ts) = (ob_instruments b)(inst \<mapsto> ib)"
  "ob_hooks (commit b inst ib ts) = ob_hooks b"
proof -
  have "ob_instruments (fold (\<lambda>t b. fire b (EvTrade t)) ts b') = ob_instruments b' \<and>
      ob_hooks (fold (\<lambda>t b. fire b (EvTrade t)) ts b') = ob_hooks b'" for b'
    by (induction ts arbitrary: b') auto
  then show "ob_instruments (commit b inst ib ts) = (ob_instruments b)(inst \<mapsto> ib)"
    "ob_hooks (commit b inst ib ts) = ob_hooks b"
    by (simp_all add: commit_def put_book_def)
qed

text \<open>The hooks see every trade, in order, each hook once per trade.\<close>

lemma commit_calls: "ob_calls (commit b inst ib ts) =
    ob_calls b @ concat (map (\<lambda>t. map (\<lambda>h. (h, EvTrade t)) (ob_hooks b)) ts)"
proof -
  have "ob_calls (fold (\<lambda>t b. fire b (EvTrade t)) ts b') =
      ob_calls b' @ concat (map (\<lambda>t. map (\<lambda>h. (h, EvTrade t)) (ob_hooks b')) ts)" for b'
    by (induction ts arbitrary: b') (auto simp: fire_def)
  then show ?thesis by (simp add: commit_def put_book_def)
qed

definition rested :: "instrument_book \<Rightarrow> order \<Rightarrow> instrument_book" where
  "rested ib ord = (if 0 < vol ord \<and> \<not> ord_IsMarket ord then enqueueLocked ib ord else ib)"

text \<open>The one way an order with volume goes through a known instrument.\<close>

lemma AddLimitOrder_known:
  assumes "wf_book b" "ob_instruments b (ord_Instrument ord) = Some ib" "vol ord \<noteq> 0"
  obtains ib' ord' ts q' where
    "AddLimitOrder b ord = Some (Inr ts, ord', commit b (ord_Instrument ord) (rested ib' ord') ts)"
    "match_run (ob_now b) (ob_reads b) ord (opposite_queue ib (ord_Side ord)) ord' q' ts"
    "ib_bids ib' = (if ord_Side ord = SideBuy then ib_bids ib else q')"
    "ib_asks ib' = (if ord_Side ord = SideBuy then q' else ib_asks ib)"
    "wf_ib ib'" "wf_ib (rested ib' ord')"
proof -
  have "wf_ib ib" using assms(1,2) by (simp add: wf_book_def)
  then obtain ib' ord' ts q' where m: "matchLocked (ob_now b) (ob_reads b) ib ord = Some (ib', ord', ts)"
      "match_run (ob_now b) (ob_reads b) ord (opposite_queue ib (ord_Side ord)) ord' q' ts"
      "ib_bids ib' = (if ord_Side ord = SideBuy then ib_bids ib else q')"
      "ib_asks ib' = (if ord_Side ord = SideBuy then q' else ib_asks ib)" "wf_ib ib'"
    by (rule matchLocked_runs)
  moreover have "AddLimitOrder b ord = Some (Inr ts, ord', commit b (ord_Instrument ord) (rested ib' ord') ts)"
    using assms(2,3) m(1) by (auto simp: AddLimitOrder_def lookup_def IsZero_spec rested_def)
  moreover have "wf_ib (rested ib' ord')" using m(5) by (simp add: rested_def wf_enqueue)
  ultimately show thesis using that by blast
qed

lemma IOC_known:
  assumes "wf_book b" "ob_instruments b (ord_Instrument ord) = Some ib" "0 < vol ord"
  obtains ib' ord' ts q' where
    "ExecuteLimitIOC b ord = Some (Inr ts, ord', commit b (ord_Instrument ord) ib' ts)"
    "match_run (ob_now b) (ob_reads b) ord (opposite_queue ib (ord_Side ord)) ord' q' ts"
    "ib_bids ib' = (if ord_Side ord = SideBuy then ib_bids ib else q')"
    "ib_asks ib' = (if ord_Side ord = SideBuy then q' else ib_asks ib)"
    "wf_ib ib'"
proof -
  have "wf_ib ib" using assms(1,2) by (simp add: wf_book_def)
  then obtain ib' ord' ts q' where m: "matchLocked (ob_now b) (ob_reads b) ib ord = Some (ib', ord', ts)"
      "match_run (ob_now b) (ob_reads b) ord (opposite_queue ib (ord_Side ord)) ord' q' ts"
      "ib_bids ib' = (if ord_Side ord = SideBuy then ib_bids ib else q')"
      "ib_asks ib' = (if ord_Side ord = SideBuy then q' else ib_asks ib)" "wf_ib ib'"
    by (rule matchLocked_runs)
  moreover have "ExecuteLimitIOC b ord = Some (Inr ts, ord', commit b (ord_Instrument ord) ib' ts)"
    using assms(2,3) m(1) by (auto simp: ExecuteLimitIOC_def lookup_def)
  ultimately show thesis using that by blast
qed

subsection \<open>Books that are not crossed\<close>

lemma uncrossed_run:
  assumes "uncrossed ib" "match_run now k ord (opposite_queue ib (ord_Side ord)) ord' q' ts"
    and "ib_bids ib' = (if ord_Side ord = SideBuy then ib_bids ib else q')"
    and "ib_asks ib' = (if ord_Side ord = SideBuy then q' else ib_asks ib)"
  shows "uncrossed ib'"
proof -
  have mem: "\<exists>y\<in>set (opposite_queue ib (ord_Side ord)). ord_Price x = ord_Price y" if "x \<in> set q'" for x
    using run_members[OF assms(2) that] by (metis strip_simps(2))
  show ?thesis
  proof (cases "ord_Side ord = SideBuy")
    case True
    then show ?thesis using assms(1,3,4) mem by (fastforce simp: uncrossed_def opposite_queue_def)
  next
    case False
    then show ?thesis using assms(1,3,4) mem by (fastforce simp: uncrossed_def opposite_queue_def)
  qed
qed

lemma rested_uncrossed:
  assumes "wf_ib ib'" "uncrossed ib'" "ord_Side ord \<in> {SideBuy, SideSell}"
    and "match_run now k ord (opposite_queue ib (ord_Side ord)) ord' q' ts"
    and "ib_bids ib' = (if ord_Side ord = SideBuy then ib_bids ib else q')"
    and "ib_asks ib' = (if ord_Side ord = SideBuy then q' else ib_asks ib)"
  shows "uncrossed (rested ib' ord')"
proof (cases "0 < vol ord' \<and> \<not> ord_IsMarket ord'")
  case False
  then show ?thesis using assms(2) unfolding rested_def by (simp only: if_False)
next
  case True
  have ord': "ord_Side ord' = ord_Side ord" "ord_Price ord' = ord_Price ord" "ord_IsMarket ord' = ord_IsMarket ord"
    by (subst run_incoming[OF assms(4)], simp)+
  have head: "q' = [] \<or> beyond_limit ord (hd q')" using run_stops[OF assms(4)] True by auto
  show ?thesis
  proof (cases "ord_Side ord = SideBuy")
    case side: True
    have "ord_Price ord < ord_Price y" if "y \<in> set q'" for y
    proof -
      have "ord_Price ord < ord_Price (hd q')" using head that side by (auto simp: beyond_limit_def)
      moreover have "ord_Price (hd q') \<le> ord_Price y"
        using assms(1,6) side that by (cases q') (auto simp: wf_ib_def)
      ultimately show ?thesis by simp
    qed
    then show ?thesis using True side assms(2,5,6) ord'
      by (auto simp: rested_def enqueueLocked_def uncrossed_def)
  next
    case side: False
    then have sell: "ord_Side ord = SideSell" using assms(3) by simp
    have "ord_Price y < ord_Price ord" if "y \<in> set q'" for y
    proof -
      have "ord_Price (hd q') < ord_Price ord" using head that sell by (auto simp: beyond_limit_def)
      moreover have "ord_Price y \<le> ord_Price (hd q')"
        using assms(1,5) side that by (cases q') (auto simp: wf_ib_def)
      ultimately show ?thesis by simp
    qed
    then show ?thesis using True side assms(2,5,6) ord'
      by (auto simp: rested_def enqueueLocked_def uncrossed_def)
  qed
qed

subsection \<open>Snapshots aggregate the resting orders\<close>

definition level_total :: "order list \<Rightarrow> decimal \<Rightarrow> int" where
  "level_total os p = total (filter (\<lambda>x. ord_Price x = p) os)"

definition level_of :: "(decimal, decimal) gomap \<Rightarrow> decimal \<Rightarrow> int" where
  "level_of m p = (case map_of m p of None \<Rightarrow> 0 | Some v \<Rightarrow> toBig v)"

lemma level_of_update: "level_of (AList.update q v m) p = (if p = q then toBig v else level_of m p)"
  by (simp add: level_of_def map_of_update_eq)

lemma sum_levels_result:
  "sum_levels m os = Some m' \<Longrightarrow> distinct (map fst m) \<Longrightarrow>
    distinct (map fst m') \<and> fst ` set m' = fst ` set m \<union> ord_Price ` set os \<and>
    (\<forall>p. level_of m' p = level_of m p + level_total os p)"
proof (induction os arbitrary: m)
  case Nil
  then show ?case by (simp add: level_total_def)
next
  case (Cons x os)
  then obtain v where v: "Add (case map_of m (ord_Price x) of None \<Rightarrow> Zero | Some v \<Rightarrow> v) (ord_Volume x) = Some v"
      "sum_levels (AList.update (ord_Price x) v m) os = Some m'"
    by (auto simp: bind_eq_Some_conv)
  have "toBig v = level_of m (ord_Price x) + vol x"
    using dec.add_value[OF v(1)] by (simp add: level_of_def split: option.splits)
  then show ?case using Cons.IH[OF v(2)] Cons.prems(2)
    by (auto simp: distinct_update update_keys level_of_update level_total_def dom_update)
qed

lemma level_total_bounds:
  "positive os \<Longrightarrow> 0 \<le> level_total os p \<and> level_total os p \<le> total os"
  by (induction os) (auto simp: level_total_def)

lemma sum_levels_total:
  "positive os \<Longrightarrow> (\<forall>p. 0 \<le> level_of m p \<and> level_of m p + level_total os p \<le> maxPos) \<Longrightarrow>
    \<exists>m'. sum_levels m os = Some m'"
proof (induction os arbitrary: m)
  case Nil
  then show ?case by simp
next
  case (Cons x os)
  let ?p = "ord_Price x" and ?c = "case map_of m (ord_Price x) of None \<Rightarrow> Zero | Some v \<Rightarrow> v"
  have c: "toBig ?c = level_of m ?p" by (simp add: level_of_def split: option.splits)
  have split: "level_total (x # os) p = (if p = ?p then vol x else 0) + level_total os p" for p
    by (auto simp: level_total_def)
  have pos: "positive os" "0 < vol x" using Cons.prems(1) by simp_all
  have b: "0 \<le> level_of m p" "level_of m p + level_total (x # os) p \<le> maxPos" for p
    using Cons.prems(2) by blast+
  have "level_of m ?p + vol x \<le> maxPos"
    using b(2)[of ?p] split[of ?p] level_total_bounds[OF pos(1), of ?p] by simp
  then have "in_range (toBig ?c + vol x)"
    using b(1)[of ?p] pos(2) unfolding c in_range_def by (simp add: minNeg_num)
  then obtain v where v: "Add ?c (ord_Volume x) = Some v" "toBig v = level_of m ?p + vol x"
    using dec.add_Some c by metis
  have "0 \<le> level_of (AList.update ?p v m) p \<and> level_of (AList.update ?p v m) p + level_total os p \<le> maxPos" for p
    using b[of p] split[of p] v(2) pos(2) by (auto simp: level_of_update)
  then obtain m' where "sum_levels (AList.update ?p v m) os = Some m'" using Cons.IH pos(1) by blast
  then show ?case using v(1) by auto
qed

interpretation desc_price: comparator "price_before True" "\<lambda>p. - toBig p"
  by unfold_locales (simp add: price_before_def less_toBig)

interpretation asc_price: comparator "price_before False" toBig
  by unfold_locales (simp add: price_before_def less_toBig)

text \<open>A side of a snapshot: one level per price, sorted, with the sum of the volumes there.\<close>

definition levels_of :: "order list \<Rightarrow> bool \<Rightarrow> level list \<Rightarrow> bool" where
  "levels_of os desc ls \<longleftrightarrow>
     sorted_wrt (\<lambda>a b. if desc then lv_Price b < lv_Price a else lv_Price a < lv_Price b) ls \<and>
     lv_Price ` set ls = ord_Price ` set os \<and>
     (\<forall>l\<in>set ls. toBig (lv_Volume l) = level_total os (lv_Price l))"

lemma distinct_sorted_strict:
  "sorted (map f xs) \<Longrightarrow> distinct (map f xs) \<Longrightarrow> sorted_wrt (\<lambda>a b. f a < f b) xs"
  by (induction xs) (auto simp: order.strict_iff_order)

lemma aggregateLevels_result:
  assumes "aggregateLevels os desc = Some ls"
  shows "levels_of os desc ls"
proof -
  obtain m where m: "sum_levels [] os = Some m"
      "ls = map (\<lambda>p. \<lparr>lv_Price = p, lv_Volume = the (map_of m p)\<rparr>)
        (slice_stable (price_before desc) (map fst m))"
    using assms by (auto simp: aggregateLevels_def bind_eq_Some_conv)
  from sum_levels_result[OF m(1)] have d: "distinct (map fst m)" "fst ` set m = ord_Price ` set os"
      and lv: "level_of m p = level_total os p" for p
    by (auto simp: level_of_def)
  let ?ps = "slice_stable (price_before desc) (map fst m)"
  have set_ps: "set ?ps = ord_Price ` set os" using d(2) by simp
  have dps: "distinct ?ps"
    using d(1) by (metis mset_slice_stable mset_eq_imp_distinct_iff)
  have "sorted_wrt (\<lambda>a b. if desc then b < a else a < b) ?ps"
  proof (cases desc)
    case True
    have "sorted_wrt (\<lambda>a b. - toBig a < - toBig b) ?ps"
      using desc_price.sorted_slice[of "map fst m"] dps True
      by (intro distinct_sorted_strict) (auto simp: distinct_map inj_on_def toBig_inj)
    then show ?thesis using True by (simp add: less_toBig)
  next
    case False
    have "sorted_wrt (\<lambda>a b. toBig a < toBig b) ?ps"
      using asc_price.sorted_slice[of "map fst m"] dps False
      by (intro distinct_sorted_strict) (auto simp: distinct_map inj_on_def toBig_inj)
    then show ?thesis using False by (simp add: less_toBig)
  qed
  moreover have "toBig (the (map_of m p)) = level_total os p" if "p \<in> set ?ps" for p
  proof -
    from that set_ps d(2) have "p \<in> fst ` set m" by simp
    then obtain v where "map_of m p = Some v" by (metis map_of_eq_None_iff option.exhaust)
    then show ?thesis using lv[of p] by (simp add: level_of_def)
  qed
  ultimately show ?thesis using set_ps unfolding levels_of_def m(2)
    by (auto simp: sorted_wrt_map image_image if_bool_eq_conj)
qed

lemma levels_of_head:
  assumes "levels_of os desc (l # ls)" "x \<in> set os"
  shows "if desc then ord_Price x \<le> lv_Price l else lv_Price l \<le> ord_Price x"
proof -
  have "ord_Price x \<in> lv_Price ` set (l # ls)" using assms by (auto simp: levels_of_def)
  then show ?thesis using assms(1) by (auto simp: levels_of_def)
qed

lemma aggregateLevels_total:
  assumes "positive os" "total os \<le> maxPos"
  shows "\<exists>ls. aggregateLevels os desc = Some ls"
proof -
  have "0 \<le> level_of [] p \<and> level_of [] p + level_total os p \<le> maxPos" for p
    using level_total_bounds[OF assms(1), of p] assms(2) by (simp add: level_of_def)
  then obtain m where "sum_levels [] os = Some m" using sum_levels_total[OF assms(1)] by blast
  then show ?thesis by (simp add: aggregateLevels_def)
qed

subsection \<open>Runs of operations\<close>

datatype book_op =
    OpLimit order | OpMarket order | OpIOC order
  | OpCancel string string | OpRegister string | OpHook nat | OpClock "(nat \<Rightarrow> go_time) option"

text \<open>The state after an operation; its answer is dropped.\<close>

fun book_step :: "book_op \<Rightarrow> order_book \<Rightarrow> order_book option" where
  "book_step (OpLimit ord) b = do { (res, ord', b') \<leftarrow> AddLimitOrder b ord; Some b' }"
| "book_step (OpMarket ord) b = do { (res, ord', b') \<leftarrow> ExecuteMarketOrder b ord; Some b' }"
| "book_step (OpIOC ord) b = do { (res, ord', b') \<leftarrow> ExecuteLimitIOC b ord; Some b' }"
| "book_step (OpCancel inst oid) b = Some (snd (CancelOrder b inst oid))"
| "book_step (OpRegister inst) b = Some (Register b inst)"
| "book_step (OpHook h) b = Some (RegisterHook b h)"
| "book_step (OpClock now) b = Some (SetClock b now)"

fun op_order :: "book_op \<Rightarrow> order option" where
  "op_order (OpLimit ord) = Some ord"
| "op_order (OpMarket ord) = Some ord"
| "op_order (OpIOC ord) = Some ord"
| "op_order x = None"

text \<open>Every order of the operation is a buy or a sell.\<close>

definition two_sided :: "book_op \<Rightarrow> bool" where
  "two_sided x \<longleftrightarrow> (case op_order x of None \<Rightarrow> True | Some ord \<Rightarrow> ord_Side ord \<in> {SideBuy, SideSell})"

definition sound_book :: "bool \<Rightarrow> order_book \<Rightarrow> bool" where
  "sound_book strict b \<longleftrightarrow> wf_book b \<and>
     (strict \<longrightarrow> (\<forall>inst ib. ob_instruments b inst = Some ib \<longrightarrow> uncrossed ib))"

lemma sound_book_put:
  "sound_book strict b \<Longrightarrow> wf_ib ib \<Longrightarrow> (strict \<Longrightarrow> uncrossed ib) \<Longrightarrow>
    ob_instruments b' = (ob_instruments b)(inst \<mapsto> ib) \<Longrightarrow> sound_book strict b'"
  by (auto simp: sound_book_def wf_book_def)

lemma sound_book_same: "sound_book strict b \<Longrightarrow> ob_instruments b' = ob_instruments b \<Longrightarrow> sound_book strict b'"
  by (simp add: sound_book_def wf_book_def)

lemma AddLimitOrder_sound:
  assumes "sound_book strict b" "strict \<longrightarrow> ord_Side ord \<in> {SideBuy, SideSell}"
  shows "\<exists>res ord' b'. AddLimitOrder b ord = Some (res, ord', b') \<and> sound_book strict b'"
proof (cases "ob_instruments b (ord_Instrument ord)")
  case None
  then show ?thesis using assms by (simp add: AddLimitOrder_def lookup_def)
next
  case (Some ib)
  show ?thesis
  proof (cases "vol ord = 0")
    case True
    then show ?thesis using assms(1) Some sound_book_same[OF assms(1)]
      by (simp add: AddLimitOrder_def lookup_def IsZero_spec)
  next
    case False
    have wf: "wf_book b" using assms(1) by (simp add: sound_book_def)
    from wf Some False show ?thesis
    proof (rule AddLimitOrder_known)
      fix ib' ord' ts q'
      assume add: "AddLimitOrder b ord = Some (Inr ts, ord', commit b (ord_Instrument ord) (rested ib' ord') ts)"
        and run: "match_run (ob_now b) (ob_reads b) ord (opposite_queue ib (ord_Side ord)) ord' q' ts"
        and q: "ib_bids ib' = (if ord_Side ord = SideBuy then ib_bids ib else q')"
          "ib_asks ib' = (if ord_Side ord = SideBuy then q' else ib_asks ib)"
        and wf': "wf_ib ib'" "wf_ib (rested ib' ord')"
      have "uncrossed (rested ib' ord')" if strict
      proof -
        have "uncrossed ib" using assms(1) Some that by (simp add: sound_book_def)
        then have "uncrossed ib'" using run q by (rule uncrossed_run)
        with wf'(1) show ?thesis using assms(2) that run q by (blast intro: rested_uncrossed)
      qed
      then show ?thesis using add sound_book_put[OF assms(1) wf'(2)] by simp
    qed
  qed
qed

lemma IOC_sound:
  assumes "sound_book strict b"
  shows "\<exists>res ord' b'. ExecuteLimitIOC b ord = Some (res, ord', b') \<and> sound_book strict b'"
proof (cases "ob_instruments b (ord_Instrument ord)")
  case None
  then show ?thesis using assms by (simp add: ExecuteLimitIOC_def lookup_def)
next
  case (Some ib)
  show ?thesis
  proof (cases "0 < vol ord")
    case False
    then show ?thesis using assms Some by (simp add: ExecuteLimitIOC_def lookup_def)
  next
    case True
    have wf: "wf_book b" using assms by (simp add: sound_book_def)
    from wf Some True show ?thesis
    proof (rule IOC_known)
      fix ib' ord' ts q'
      assume ioc: "ExecuteLimitIOC b ord = Some (Inr ts, ord', commit b (ord_Instrument ord) ib' ts)"
        and run: "match_run (ob_now b) (ob_reads b) ord (opposite_queue ib (ord_Side ord)) ord' q' ts"
        and q: "ib_bids ib' = (if ord_Side ord = SideBuy then ib_bids ib else q')"
          "ib_asks ib' = (if ord_Side ord = SideBuy then q' else ib_asks ib)"
        and wf': "wf_ib ib'"
      have "uncrossed ib'" if strict
      proof -
        have "uncrossed ib" using assms Some that by (simp add: sound_book_def)
        then show ?thesis using run q by (rule uncrossed_run)
      qed
      then show ?thesis using ioc sound_book_put[OF assms wf'] by simp
    qed
  qed
qed

lemma uncrossed_subset:
  "uncrossed ib \<Longrightarrow> set (ib_bids ib') \<subseteq> set (ib_bids ib) \<Longrightarrow> set (ib_asks ib') \<subseteq> set (ib_asks ib) \<Longrightarrow> uncrossed ib'"
  by (auto simp: uncrossed_def)

lemma removed_side:
  assumes "removeOrder q oid = Some (r, q')"
  shows "set q' \<subseteq> set q" "wf_side q \<Longrightarrow> wf_side q'" "sorted_wrt P (map ord_Price q) \<Longrightarrow> sorted_wrt P (map ord_Price q')"
proof -
  obtain xs ys where "q = xs @ r # ys" "q' = xs @ ys" using removeOrder_split[OF assms] by blast
  then show "set q' \<subseteq> set q" "wf_side q \<Longrightarrow> wf_side q'"
    "sorted_wrt P (map ord_Price q) \<Longrightarrow> sorted_wrt P (map ord_Price q')"
    by (auto simp: wf_side_def positive_def sorted_wrt_append)
qed

lemma Cancel_sound: "sound_book strict b \<Longrightarrow> sound_book strict (snd (CancelOrder b inst oid))"
proof (cases "ob_instruments b inst")
  case None
  then show "sound_book strict b \<Longrightarrow> ?thesis" by (simp add: CancelOrder_def lookup_def)
next
  case (Some ib)
  assume sound: "sound_book strict b"
  then have ib: "wf_ib ib" "strict \<Longrightarrow> uncrossed ib" using Some by (auto simp: sound_book_def wf_book_def)
  show ?thesis
  proof (cases "removeOrder (ib_bids ib) oid")
    case bid: (Some rq)
    obtain r q where rq: "rq = (r, q)" by fastforce
    note side = removed_side[OF bid[unfolded rq]]
    have "wf_ib (ib\<lparr>ib_bids := q\<rparr>)" using ib(1) side by (auto simp: wf_ib_def)
    moreover have "strict \<Longrightarrow> uncrossed (ib\<lparr>ib_bids := q\<rparr>)"
      by (rule uncrossed_subset[OF ib(2)]) (use side(1) in auto)
    ultimately show ?thesis using Some bid rq sound_book_put[OF sound]
      by (simp add: CancelOrder_def lookup_def put_book_def)
  next
    case nobid: None
    show ?thesis
    proof (cases "removeOrder (ib_asks ib) oid")
      case None
      then show ?thesis using Some nobid sound by (simp add: CancelOrder_def lookup_def)
    next
      case ask: (Some rq)
      obtain r q where rq: "rq = (r, q)" by fastforce
      note side = removed_side[OF ask[unfolded rq]]
      have "wf_ib (ib\<lparr>ib_asks := q\<rparr>)" using ib(1) side by (auto simp: wf_ib_def)
      moreover have "strict \<Longrightarrow> uncrossed (ib\<lparr>ib_asks := q\<rparr>)"
        by (rule uncrossed_subset[OF ib(2)]) (use side(1) in auto)
      ultimately show ?thesis using Some nobid ask rq sound_book_put[OF sound]
        by (simp add: CancelOrder_def lookup_def put_book_def)
    qed
  qed
qed

lemma book_step_sound:
  "sound_book strict b \<Longrightarrow> (strict \<longrightarrow> two_sided x) \<Longrightarrow> \<exists>b'. book_step x b = Some b' \<and> sound_book strict b'"
proof (cases x)
  case (OpLimit ord)
  then show "sound_book strict b \<Longrightarrow> (strict \<longrightarrow> two_sided x) \<Longrightarrow> ?thesis"
    using AddLimitOrder_sound[of strict b ord] by (auto simp: two_sided_def)
next
  case (OpMarket ord)
  then show "sound_book strict b \<Longrightarrow> (strict \<longrightarrow> two_sided x) \<Longrightarrow> ?thesis"
    using AddLimitOrder_sound[of strict b "ord\<lparr>ord_IsMarket := True\<rparr>"]
    by (auto simp: two_sided_def ExecuteMarketOrder_def)
next
  case (OpIOC ord)
  then show "sound_book strict b \<Longrightarrow> (strict \<longrightarrow> two_sided x) \<Longrightarrow> ?thesis"
    using IOC_sound[of strict b ord] by auto
next
  case (OpRegister inst)
  then show "sound_book strict b \<Longrightarrow> (strict \<longrightarrow> two_sided x) \<Longrightarrow> ?thesis"
    using sound_book_put[of strict b empty_book "Register b inst" inst]
    by (auto simp: Register_def split: option.splits)
qed (auto simp: Cancel_sound RegisterHook_def SetClock_def intro: sound_book_same split: option.splits)

lemma book_step_keeps:
  "sound_book strict b \<Longrightarrow> (strict \<longrightarrow> two_sided x) \<Longrightarrow> book_step x b = Some b' \<Longrightarrow> sound_book strict b'"
  using book_step_sound[of strict b x] by auto

interpretation any_book: total_machine book_step "\<lambda>_. True" "sound_book False"
  by unfold_locales (blast dest: book_step_keeps book_step_sound)+

interpretation sided_book: total_machine book_step two_sided "sound_book True"
  by unfold_locales (blast dest: book_step_keeps book_step_sound)+

lemma NewOrderBook_sound: "sound_book strict (NewOrderBook now insts)"
  by (auto simp: sound_book_def wf_book_def NewOrderBook_def dest!: map_of_SomeD)

subsection \<open>A concrete book\<close>

text \<open>A book with one ask of 5 units at 100, and a bid of 7 units at 101, for the witnesses.\<close>

definition ex_ask :: order where
  "ex_ask = \<lparr>ord_ID = ''a1'', ord_Instrument = ''BTC-USD'', ord_Price = Decimal 0 100, ord_Volume = Decimal 0 5,
     ord_Side = SideSell, ord_IsMarket = False, ord_Metadata = Map.empty\<rparr>"

definition ex_bid :: order where
  "ex_bid = \<lparr>ord_ID = ''b1'', ord_Instrument = ''BTC-USD'', ord_Price = Decimal 0 101, ord_Volume = Decimal 0 7,
     ord_Side = SideBuy, ord_IsMarket = False, ord_Metadata = Map.empty\<rparr>"

definition ex_ib :: instrument_book where
  "ex_ib = \<lparr>ib_bids = [], ib_asks = [ex_ask], ib_lastTrade = None\<rparr>"

definition ex_book :: order_book where
  "ex_book = \<lparr>ob_instruments = [''BTC-USD'' \<mapsto> ex_ib], ob_hooks = [0], ob_now = int, ob_reads = 0, ob_calls = []\<rparr>"

lemmas ex_defs = ex_ask_def ex_bid_def ex_ib_def ex_book_def

lemmas book_eval = beyond_limit_def Cmp_def Sub_def Add_def Sub64_def Add64_def Sign_def min_def le_toBig less_toBig
  toBig_eq IsZero_def Let_def lookup_def AddLimitOrder_def ExecuteLimitIOC_def ExecuteMarketOrder_def matchLocked_def
  opposite_queue_def set_opposite_def commit_def put_book_def fire_def enqueueLocked_def mk_trade_def
  bid_before_def ask_before_def CancelOrder_def

lemma ex_wf [simp]: "wf_book ex_book" "wf_ib ex_ib"
  by (simp_all add: wf_book_def wf_ib_def wf_side_def ex_defs toBig_eq)

lemma ex_lookup [simp]: "ob_instruments ex_book (ord_Instrument ex_bid) = Some ex_ib"
  "ob_instruments ex_book ''BTC-USD'' = Some ex_ib" "ord_Instrument ex_bid = ''BTC-USD''"
  by (simp_all add: ex_defs)

definition ex_trade :: trade where
  "ex_trade = mk_trade ex_bid ex_ask (Decimal 0 5) 0"

definition ex_ib' :: instrument_book where
  "ex_ib' = \<lparr>ib_bids = [ex_bid\<lparr>ord_Volume := Decimal 0 2\<rparr>], ib_asks = [], ib_lastTrade = Some ex_trade\<rparr>"

lemma ex_add: "AddLimitOrder ex_book ex_bid =
    Some (Inr [ex_trade], ex_bid\<lparr>ord_Volume := Decimal 0 2\<rparr>, commit ex_book ''BTC-USD'' ex_ib' [ex_trade])"
  by (simp add: ex_defs ex_trade_def ex_ib'_def book_eval)

subsection \<open>Properties of the matching engine\<close>

text \<open>C2: A limit or market order conserves volume: what it loses is what was traded, and the
  volume resting in the book falls by the traded volume and grows by the remainder of a limit
  order that rests.\<close>

theorem limit_order_conserves:
  assumes "wf_book b" "AddLimitOrder b ord = Some (Inr ts, ord', b')" "0 < vol ord"
    and "ob_instruments b (ord_Instrument ord) = Some ib"
    and "ob_instruments b' (ord_Instrument ord) = Some ib'"
  shows "vol ord = vol ord' + traded ts \<and> 0 \<le> vol ord' \<and>
    total (ib_bids ib') + total (ib_asks ib') =
      total (ib_bids ib) + total (ib_asks ib) - traded ts + (if ord_IsMarket ord then 0 else vol ord')"
proof -
  have "vol ord \<noteq> 0" using assms(3) by simp
  from assms(1,4) this obtain ib1 ord1 ts1 q' where add: "AddLimitOrder b ord =
        Some (Inr ts1, ord1, commit b (ord_Instrument ord) (rested ib1 ord1) ts1)"
      and run: "match_run (ob_now b) (ob_reads b) ord (opposite_queue ib (ord_Side ord)) ord1 q' ts1"
      and q: "ib_bids ib1 = (if ord_Side ord = SideBuy then ib_bids ib else q')"
        "ib_asks ib1 = (if ord_Side ord = SideBuy then q' else ib_asks ib)"
    by (rule AddLimitOrder_known)
  have eqs: "ts1 = ts" "ord1 = ord'" "ib' = rested ib1 ord'" using add assms(2,5) by auto
  have market: "ord_IsMarket ord' = ord_IsMarket ord"
    unfolding eqs[symmetric] by (subst run_incoming[OF run]) simp
  have "total (ib_bids (enqueueLocked ib1 ord')) + total (ib_asks (enqueueLocked ib1 ord')) =
      total (ib_bids ib1) + total (ib_asks ib1) + vol ord'"
    by (simp add: enqueueLocked_def total_def flip: sum_mset_sum_list)
  then show ?thesis
    using run_conserves_incoming[OF run] run_conserves_queue[OF run] run_incoming_nonneg[OF run] assms(3) q market
    unfolding eqs by (auto simp: rested_def opposite_queue_def)
qed

theorem limit_order_conserves_witness:
  "vol ex_bid = vol (ex_bid\<lparr>ord_Volume := Decimal 0 2\<rparr>) + traded [ex_trade]"
  using limit_order_conserves[OF ex_wf(1) ex_add _ ex_lookup(1)] by (simp add: ex_bid_def toBig_eq)

text \<open>C1: Price-time priority: the \<open>i\<close>-th trade of an order is with the \<open>i\<close>-th order of the
  opposite queue, at that order's price, within the limit, for the least of that order's volume
  and what the earlier orders left of the incoming volume.\<close>

theorem price_time_priority:
  assumes "wf_book b" "AddLimitOrder b ord = Some (Inr ts, ord', b')" "vol ord \<noteq> 0"
    and "ob_instruments b (ord_Instrument ord) = Some ib" "i < length ts"
    and "q = opposite_queue ib (ord_Side ord)"
  shows "i < length q \<and> tr_Price (ts ! i) = ord_Price (q ! i) \<and> \<not> beyond_limit ord (q ! i) \<and>
    toBig (tr_Volume (ts ! i)) = min (vol (q ! i)) (vol ord - total (take i q)) \<and>
    ts ! i = mk_trade ord (q ! i) (tr_Volume (ts ! i)) (ob_now b (ob_reads b + i))"
proof -
  from assms(1,4,3) obtain ib1 ord1 ts1 q' where add: "AddLimitOrder b ord =
        Some (Inr ts1, ord1, commit b (ord_Instrument ord) (rested ib1 ord1) ts1)"
      and run: "match_run (ob_now b) (ob_reads b) ord (opposite_queue ib (ord_Side ord)) ord1 q' ts1"
    by (rule AddLimitOrder_known)
  have "ts1 = ts" using add assms(2) by auto
  then show ?thesis
    using run_trade_nth[OF run, of i] run_fills[OF run, of i] assms(5,6) by (simp add: declared_fill_def)
qed

theorem price_time_priority_witness: "tr_Price ([ex_trade] ! 0) = ord_Price ex_ask"
  using price_time_priority[OF ex_wf(1) ex_add _ ex_lookup(1), of 0 "[ex_ask]"]
  by (simp add: ex_defs toBig_eq opposite_queue_def)

text \<open>Best execution: an order that leaves \<^verbatim>\<open>AddLimitOrder\<close> with volume has taken everything it
  could: the opposite queue is empty or starts beyond its limit; and a market order then faces an
  empty queue.\<close>

theorem best_execution:
  assumes "wf_book b" "AddLimitOrder b ord = Some (Inr ts, ord', b')" "vol ord \<noteq> 0"
    and "ob_instruments b (ord_Instrument ord) = Some ib" "0 < vol ord'"
    and "ob_instruments b' (ord_Instrument ord) = Some ib'"
  shows "opposite_queue ib' (ord_Side ord) = [] \<or>
    \<not> ord_IsMarket ord \<and> beyond_limit ord (hd (opposite_queue ib' (ord_Side ord)))"
proof -
  from assms(1,4,3) obtain ib1 ord1 ts1 q' where add: "AddLimitOrder b ord =
        Some (Inr ts1, ord1, commit b (ord_Instrument ord) (rested ib1 ord1) ts1)"
      and run: "match_run (ob_now b) (ob_reads b) ord (opposite_queue ib (ord_Side ord)) ord1 q' ts1"
      and q: "ib_bids ib1 = (if ord_Side ord = SideBuy then ib_bids ib else q')"
        "ib_asks ib1 = (if ord_Side ord = SideBuy then q' else ib_asks ib)"
    by (rule AddLimitOrder_known)
  have eqs: "ord1 = ord'" "ib' = rested ib1 ord'" using add assms(2,6) by auto
  have "ord_Side ord' = ord_Side ord"
    unfolding eqs(1)[symmetric] by (subst run_incoming[OF run]) simp
  then have "opposite_queue ib' (ord_Side ord) = q'"
    using q unfolding eqs by (auto simp: opposite_queue_def rested_def enqueueLocked_def)
  then show ?thesis
    using run_stops[OF run] assms(5) unfolding eqs by (auto simp: beyond_limit_def)
qed

theorem best_execution_witness: "opposite_queue ex_ib' SideBuy = []"
proof -
  have "ob_instruments (commit ex_book ''BTC-USD'' ex_ib' [ex_trade]) (ord_Instrument ex_bid) = Some ex_ib'"
    by simp
  from best_execution[OF ex_wf(1) ex_add _ ex_lookup(1) _ this] show ?thesis
    by (simp add: ex_defs toBig_eq opposite_queue_def ex_ib'_def)
qed

text \<open>Time priority: an order that rests is put behind every order of its side with an equal or
  better price and before every other, and no other order moves.\<close>

theorem enqueue_time_priority:
  assumes "wf_ib ib"
  shows "enqueueLocked ib ord = (if ord_Side ord = SideBuy
    then ib\<lparr>ib_bids := takeWhile (\<lambda>y. ord_Price ord \<le> ord_Price y) (ib_bids ib) @ ord #
          dropWhile (\<lambda>y. ord_Price ord \<le> ord_Price y) (ib_bids ib)\<rparr>
    else ib\<lparr>ib_asks := takeWhile (\<lambda>y. ord_Price y \<le> ord_Price ord) (ib_asks ib) @ ord #
          dropWhile (\<lambda>y. ord_Price y \<le> ord_Price ord) (ib_asks ib)\<rparr>)"
proof -
  have "sorted (map (\<lambda>x. - price x) (ib_bids ib))" "sorted (map price (ib_asks ib))"
    using assms by (simp_all only: wf_ib_def desc_prices_iff asc_prices_iff)
  then show ?thesis
    using bid_order.slice_snoc[of "ib_bids ib" ord] ask_order.slice_snoc[of "ib_asks ib" ord]
    by (simp add: enqueueLocked_def le_toBig)
qed

theorem enqueue_time_priority_witness: "ib_asks (enqueueLocked ex_ib (ex_ask\<lparr>ord_ID := ''a2''\<rparr>)) =
    [ex_ask, ex_ask\<lparr>ord_ID := ''a2''\<rparr>]"
  using enqueue_time_priority[OF ex_wf(2), of "ex_ask\<lparr>ord_ID := ''a2''\<rparr>"] by (simp add: ex_defs)


text \<open>C3: If every order is a buy or a sell, no reachable book is crossed: each resting bid is
  strictly below each resting ask.\<close>

theorem book_never_crossed:
  assumes "list_all two_sided ops" "run_ops book_step ops (NewOrderBook now insts) = Some b"
    and "ob_instruments b inst = Some ib" "x \<in> set (ib_bids ib)" "y \<in> set (ib_asks ib)"
  shows "ord_Price x < ord_Price y"
  using sided_book.run_inv[OF NewOrderBook_sound assms(1,2)] assms(3-5)
  by (auto simp: sound_book_def uncrossed_def)

theorem book_never_crossed_witness:
  "\<exists>b ib. run_ops book_step [OpLimit ex_ask, OpLimit (ex_bid\<lparr>ord_Price := Decimal 0 99\<rparr>)]
      (NewOrderBook int [''BTC-USD'']) = Some b \<and> ob_instruments b ''BTC-USD'' = Some ib \<and>
    ib_bids ib = [ex_bid\<lparr>ord_Price := Decimal 0 99\<rparr>] \<and> ib_asks ib = [ex_ask] \<and> Decimal 0 99 < Decimal 0 100"
proof -
  let ?ops = "[OpLimit ex_ask, OpLimit (ex_bid\<lparr>ord_Price := Decimal 0 99\<rparr>)]"
  have ok: "list_all two_sided ?ops" by (simp add: two_sided_def ex_defs)
  obtain b ib where b: "run_ops book_step ?ops (NewOrderBook int [''BTC-USD'']) = Some b"
      "ob_instruments b ''BTC-USD'' = Some ib"
      "ib_bids ib = [ex_bid\<lparr>ord_Price := Decimal 0 99\<rparr>]" "ib_asks ib = [ex_ask]"
    by (simp add: NewOrderBook_def empty_book_def ex_defs book_eval)
  from book_never_crossed[OF ok b(1,2), of "ex_bid\<lparr>ord_Price := Decimal 0 99\<rparr>" ex_ask] b
  show ?thesis by (simp add: ex_defs)
qed

text \<open>An order executed as market or immediate-or-cancel never comes to rest: the book afterwards
  holds no order that was not in it, its own side is untouched, and the other side lost exactly
  what was traded.\<close>

theorem taker_never_rests:
  assumes "wf_book b" "ob_instruments b (ord_Instrument ord) = Some ib" "0 < vol ord"
    and "ExecuteMarketOrder b ord = Some (Inr ts, ord', b') \<or> ExecuteLimitIOC b ord = Some (Inr ts, ord', b')"
    and "ob_instruments b' (ord_Instrument ord) = Some ib'"
  shows "(if ord_Side ord = SideBuy then ib_bids ib' = ib_bids ib else ib_asks ib' = ib_asks ib) \<and>
    strip ` set (OpenOrders b' (ord_Instrument ord)) \<subseteq> strip ` set (OpenOrders b (ord_Instrument ord)) \<and>
    total (OpenOrders b (ord_Instrument ord)) = total (OpenOrders b' (ord_Instrument ord)) + traded ts"
proof -
  have "\<exists>ib1 mkt ord1 k q'. match_run (ob_now b) k (ord\<lparr>ord_IsMarket := mkt\<rparr>) (opposite_queue ib (ord_Side ord)) ord1 q' ts \<and>
      ib' = ib1 \<and> ib_bids ib1 = (if ord_Side ord = SideBuy then ib_bids ib else q') \<and>
      ib_asks ib1 = (if ord_Side ord = SideBuy then q' else ib_asks ib)"
    using assms(4)
  proof
    assume m: "ExecuteMarketOrder b ord = Some (Inr ts, ord', b')"
    let ?ord = "ord\<lparr>ord_IsMarket := True\<rparr>"
    have "ob_instruments b (ord_Instrument ?ord) = Some ib" "vol ?ord \<noteq> 0" using assms(2,3) by simp_all
    from assms(1) this obtain ib1 ord1 ts1 q' where add: "AddLimitOrder b ?ord =
          Some (Inr ts1, ord1, commit b (ord_Instrument ?ord) (rested ib1 ord1) ts1)"
        and run: "match_run (ob_now b) (ob_reads b) ?ord (opposite_queue ib (ord_Side ?ord)) ord1 q' ts1"
        and q: "ib_bids ib1 = (if ord_Side ?ord = SideBuy then ib_bids ib else q')"
          "ib_asks ib1 = (if ord_Side ?ord = SideBuy then q' else ib_asks ib)"
      by (rule AddLimitOrder_known)
    have "ord_IsMarket ord1" by (subst run_incoming[OF run]) simp
    then have "ib' = ib1" "ts1 = ts" using m add assms(5) by (auto simp: ExecuteMarketOrder_def rested_def)
    moreover have "match_run (ob_now b) (ob_reads b) ?ord (opposite_queue ib (ord_Side ord)) ord1 q' ts1"
      using run by simp
    moreover have "ib_bids ib1 = (if ord_Side ord = SideBuy then ib_bids ib else q')"
      "ib_asks ib1 = (if ord_Side ord = SideBuy then q' else ib_asks ib)" using q by simp_all
    ultimately show ?thesis by blast
  next
    assume m: "ExecuteLimitIOC b ord = Some (Inr ts, ord', b')"
    from assms(1,2,3) obtain ib1 ord1 ts1 q' where ioc: "ExecuteLimitIOC b ord =
          Some (Inr ts1, ord1, commit b (ord_Instrument ord) ib1 ts1)"
        and run: "match_run (ob_now b) (ob_reads b) ord (opposite_queue ib (ord_Side ord)) ord1 q' ts1"
        and q: "ib_bids ib1 = (if ord_Side ord = SideBuy then ib_bids ib else q')"
          "ib_asks ib1 = (if ord_Side ord = SideBuy then q' else ib_asks ib)"
      by (rule IOC_known)
    have "ib' = ib1" "ts1 = ts" using m ioc assms(5) by auto
    moreover have "ord = ord\<lparr>ord_IsMarket := ord_IsMarket ord\<rparr>" by simp
    ultimately show ?thesis using run q by metis
  qed
  then obtain mkt ord1 k q' where
    run: "match_run (ob_now b) k (ord\<lparr>ord_IsMarket := mkt\<rparr>) (opposite_queue ib (ord_Side ord)) ord1 q' ts"
    and q: "ib_bids ib' = (if ord_Side ord = SideBuy then ib_bids ib else q')"
      "ib_asks ib' = (if ord_Side ord = SideBuy then q' else ib_asks ib)" by blast
  have "strip ` set q' \<subseteq> strip ` set (opposite_queue ib (ord_Side ord))"
    using set_mono_suffix[OF run_suffix[OF run]] by simp
  then show ?thesis using run_conserves_queue[OF run] q assms(2,5)
    by (auto simp: OpenOrders_def lookup_def opposite_queue_def)
qed

theorem taker_never_rests_witness:
  "ib_bids (ex_ib\<lparr>ib_asks := [], ib_lastTrade := Some ex_trade\<rparr>) = ib_bids ex_ib"
proof -
  let ?ib = "ex_ib\<lparr>ib_asks := [], ib_lastTrade := Some ex_trade\<rparr>"
  have ioc: "ExecuteLimitIOC ex_book ex_bid =
      Some (Inr [ex_trade], ex_bid\<lparr>ord_Volume := Decimal 0 2\<rparr>, commit ex_book ''BTC-USD'' ?ib [ex_trade])"
    by (simp add: ex_defs ex_trade_def book_eval)
  have "ob_instruments (commit ex_book ''BTC-USD'' ?ib [ex_trade]) (ord_Instrument ex_bid) = Some ?ib" by simp
  from taker_never_rests[OF ex_wf(1) ex_lookup(1) _ disjI2[OF ioc] this]
  show ?thesis by (simp add: ex_defs toBig_eq)
qed

lemma CancelOrder_exact:
  assumes "lookup b inst = Some ib"
  shows "(case CancelOrder b inst oid of
      (Inl e, b') \<Rightarrow> e = ErrOrderNotFound \<and> b' = b \<and> oid \<notin> ord_ID ` set (OpenOrders b inst)
    | (Inr r, b') \<Rightarrow> ord_ID r = oid \<and> oid \<in> ord_ID ` set (OpenOrders b inst) \<and>
        ob_calls b' = ob_calls b @ map (\<lambda>h. (h, EvCancel r)) (ob_hooks b) \<and>
        (\<exists>xs ys. OpenOrders b inst = xs @ r # ys \<and> OpenOrders b' inst = xs @ ys \<and> oid \<notin> ord_ID ` set xs))"
proof (cases "removeOrder (ib_bids ib) oid")
  case bid: (Some rq)
  obtain r q where rq: "rq = (r, q)" by fastforce
  from removeOrder_split[OF bid[unfolded rq]] obtain xs ys where
    sp: "ib_bids ib = xs @ r # ys" "q = xs @ ys" "ord_ID r = oid" "oid \<notin> ord_ID ` set xs" by blast
  then have "ib_bids ib @ ib_asks ib = xs @ r # (ys @ ib_asks ib)" "q @ ib_asks ib = xs @ (ys @ ib_asks ib)" by simp_all
  with sp(3,4) bid rq assms show ?thesis
    by (auto simp: CancelOrder_def OpenOrders_def lookup_def put_book_def fire_def)
next
  case nobid: None
  show ?thesis
  proof (cases "removeOrder (ib_asks ib) oid")
    case noask: None
    have "CancelOrder b inst oid = (Inl ErrOrderNotFound, b)" by (simp add: CancelOrder_def assms nobid noask)
    moreover have "oid \<notin> ord_ID ` set (OpenOrders b inst)"
      using nobid noask assms by (auto simp: OpenOrders_def removeOrder_None)
    ultimately show ?thesis by simp
  next
    case ask: (Some rq)
    obtain r q where rq: "rq = (r, q)" by fastforce
    from removeOrder_split[OF ask[unfolded rq]] obtain xs ys where
      sp: "ib_asks ib = xs @ r # ys" "q = xs @ ys" "ord_ID r = oid" "oid \<notin> ord_ID ` set xs" by blast
    then have "ib_bids ib @ ib_asks ib = (ib_bids ib @ xs) @ r # ys" "ib_bids ib @ q = (ib_bids ib @ xs) @ ys"
      "oid \<notin> ord_ID ` set (ib_bids ib @ xs)" using nobid by (auto simp: removeOrder_None)
    then have "\<exists>xs' ys'. ib_bids ib @ ib_asks ib = xs' @ r # ys' \<and> ib_bids ib @ q = xs' @ ys' \<and>
        oid \<notin> ord_ID ` set xs'" by blast
    with sp(1,3) nobid ask rq assms show ?thesis
      by (simp add: CancelOrder_def OpenOrders_def lookup_def put_book_def fire_def)
  qed
qed

text \<open>Cancelling removes exactly the first resting order with the identifier, bids before asks,
  reports it to every hook, and reports an error without a change when there is none.\<close>

theorem cancel_exact:
  assumes "lookup b inst = Some ib"
  shows "(case CancelOrder b inst oid of
      (Inl e, b') \<Rightarrow> e = ErrOrderNotFound \<and> b' = b \<and> oid \<notin> ord_ID ` set (OpenOrders b inst)
    | (Inr r, b') \<Rightarrow> ord_ID r = oid \<and> oid \<in> ord_ID ` set (OpenOrders b inst) \<and>
        ob_calls b' = ob_calls b @ map (\<lambda>h. (h, EvCancel r)) (ob_hooks b) \<and>
        (\<exists>xs ys. OpenOrders b inst = xs @ r # ys \<and> OpenOrders b' inst = xs @ ys \<and> oid \<notin> ord_ID ` set xs))"
  by (rule CancelOrder_exact[OF assms])

theorem cancel_exact_witness:
  "\<exists>b'. CancelOrder ex_book ''BTC-USD'' ''a1'' = (Inr ex_ask, b') \<and> ord_ID ex_ask = ''a1'' \<and>
    ob_calls b' = [(0, EvCancel ex_ask)]"
proof -
  have "lookup ex_book ''BTC-USD'' = Some ex_ib" by (simp add: lookup_def)
  from cancel_exact[OF this, of "''a1''"] show ?thesis by (simp add: ex_defs book_eval)
qed

text \<open>A snapshot shows, per side, one level per price in price order with exactly the volume
  resting there, and the best prices are those of the first resting orders.\<close>

theorem snapshot_faithful:
  assumes "lookup b inst = Some ib" "Snapshot b inst = Some (Inr sn)" "wf_book b"
  shows "levels_of (ib_bids ib) True (sn_Bids sn) \<and> levels_of (ib_asks ib) False (sn_Asks sn) \<and>
    sn_BestBid sn = (case ib_bids ib of [] \<Rightarrow> Zero | x # _ \<Rightarrow> ord_Price x) \<and>
    sn_BestAsk sn = (case ib_asks ib of [] \<Rightarrow> Zero | x # _ \<Rightarrow> ord_Price x) \<and> sn_LastTrade sn = ib_lastTrade ib"
proof -
  from assms(1,2) have bids: "levels_of (ib_bids ib) True (sn_Bids sn)"
    and asks: "levels_of (ib_asks ib) False (sn_Asks sn)" and sn: "sn_LastTrade sn = ib_lastTrade ib"
    "sn_BestBid sn = (case sn_Bids sn of [] \<Rightarrow> Zero | l # _ \<Rightarrow> lv_Price l)"
    "sn_BestAsk sn = (case sn_Asks sn of [] \<Rightarrow> Zero | l # _ \<Rightarrow> lv_Price l)"
    by (auto simp: Snapshot_def bind_eq_Some_conv intro: aggregateLevels_result)
  have wf: "desc_prices (ib_bids ib)" "asc_prices (ib_asks ib)"
    using assms(1,3) by (auto simp: wf_book_def wf_ib_def lookup_def)
  have best: "lv_Price l = ord_Price x"
    if "levels_of (x # os) desc (l # ls)" "if desc then desc_prices (x # os) else asc_prices (x # os)" for x os desc l ls
  proof -
    have "lv_Price l \<in> ord_Price ` set (x # os)" using that(1) by (auto simp: levels_of_def)
    then have "if desc then lv_Price l \<le> ord_Price x else ord_Price x \<le> lv_Price l" using that(2) by auto
    with levels_of_head[OF that(1), of x] show ?thesis by (auto split: if_splits)
  qed
  have "sn_Bids sn = [] \<longleftrightarrow> ib_bids ib = []" "sn_Asks sn = [] \<longleftrightarrow> ib_asks ib = []"
    using bids asks by (auto simp: levels_of_def)
  then show ?thesis using bids asks sn wf best[of _ _ True] best[of _ _ False]
    by (cases "ib_bids ib"; cases "sn_Bids sn"; cases "ib_asks ib"; cases "sn_Asks sn") auto
qed

lemma ex_snapshot: "Snapshot ex_book ''BTC-USD'' = Some (Inr \<lparr>sn_Instrument = ''BTC-USD'', sn_Bids = [],
    sn_Asks = [\<lparr>lv_Price = Decimal 0 100, lv_Volume = Decimal 0 5\<rparr>], sn_LastTrade = None,
    sn_BestBid = Zero, sn_BestAsk = Decimal 0 100\<rparr>)"
  by (simp add: Snapshot_def aggregateLevels_def ex_defs book_eval Zero_def)

theorem snapshot_faithful_witness: "levels_of [ex_ask] False [\<lparr>lv_Price = Decimal 0 100, lv_Volume = Decimal 0 5\<rparr>]"
proof -
  have "lookup ex_book ''BTC-USD'' = Some ex_ib" by (simp add: lookup_def)
  from snapshot_faithful[OF this ex_snapshot ex_wf(1)] show ?thesis by (simp add: ex_defs)
qed

text \<open>A snapshot of a well-formed book whose resting volume fits a decimal never panics.\<close>

theorem snapshot_never_panics:
  assumes "wf_book b" "lookup b inst = Some ib" "total (ib_bids ib) \<le> maxPos" "total (ib_asks ib) \<le> maxPos"
  shows "\<exists>sn. Snapshot b inst = Some (Inr sn)"
proof -
  have "positive (ib_bids ib)" "positive (ib_asks ib)"
    using assms(1,2) by (auto simp: wf_book_def wf_ib_def wf_side_def lookup_def)
  then obtain bids asks where "aggregateLevels (ib_bids ib) True = Some bids" "aggregateLevels (ib_asks ib) False = Some asks"
    using aggregateLevels_total assms(3,4) by blast
  then show ?thesis using assms(2) by (simp add: Snapshot_def)
qed

theorem snapshot_never_panics_witness: "\<exists>sn. Snapshot ex_book ''BTC-USD'' = Some (Inr sn)"
  by (rule snapshot_never_panics[of _ _ ex_ib]) (simp_all add: lookup_def, simp_all add: ex_defs toBig_eq maxPos_num)

end
