(* ===== verification/LedgerProofs.thy ===== *)
theory LedgerProofs
  imports Ledger
begin

text \<open>
  The abstract account of a ledger: two functions from assets to integers, free and locked,
  with the operations of the ledger in plain integer arithmetic. Every operation of the
  ledger that does not panic is its abstract counterpart; the properties of the balances are
  proved on the abstract account.
\<close>

subsection \<open>The abstract account\<close>

type_synonym account = "(string \<Rightarrow> int) \<times> (string \<Rightarrow> int)"

definition fr :: "ledger \<Rightarrow> string \<Rightarrow> int" where
  "fr l = (\<lambda>a. toBig (free_at l a))"

definition lk :: "ledger \<Rightarrow> string \<Rightarrow> int" where
  "lk l = (\<lambda>a. toBig (locked_at l a))"

definition account_of :: "ledger \<Rightarrow> account" where
  "account_of l = (fr l, lk l)"

text \<open>The scaled product, truncated.\<close>

definition prod :: "int \<Rightarrow> int \<Rightarrow> int" where
  "prod x y = x * y sdiv scaleBig"

fun spec_lock :: "account \<Rightarrow> string \<Rightarrow> int \<Rightarrow> account" where
  "spec_lock (f, k) a x = (if x \<le> 0 \<or> f a < x then (f, k) else (f(a := f a - x), k(a := k a + x)))"

fun spec_release :: "account \<Rightarrow> string \<Rightarrow> int \<Rightarrow> account" where
  "spec_release (f, k) a x = (f(a := f a + min x (k a)), k(a := k a - min x (k a)))"

fun spec_debit :: "account \<Rightarrow> string \<Rightarrow> int \<Rightarrow> account" where
  "spec_debit (f, k) a x = (f(a := f a - min x (f a)), k)"

fun spec_credit :: "account \<Rightarrow> string \<Rightarrow> int \<Rightarrow> account" where
  "spec_credit (f, k) a x = (f(a := f a + x), k)"

definition spec_bought :: "int \<Rightarrow> int \<Rightarrow> int \<Rightarrow> int" where
  "spec_bought q c pay = (if pay < c \<and> 0 < c then prod q pay * scaleBig sdiv c else q)"

fun spec_settle :: "account \<Rightarrow> bool \<Rightarrow> string \<Rightarrow> string \<Rightarrow> int \<Rightarrow> int \<Rightarrow> int \<Rightarrow> account" where
  "spec_settle s isBuy base quote q p r =
     (if r \<le> 0
      then (if isBuy
        then spec_credit (spec_debit s quote (prod q p)) base (spec_bought q (prod q p) (min (prod q p) (fst s quote)))
        else spec_credit (spec_debit s base q) quote (prod (min q (fst s base)) p))
      else (if isBuy
        then spec_credit (spec_debit (spec_release s quote (prod q r)) quote (prod q p)) base q
        else spec_credit (spec_debit (spec_release s base q) base q) quote (prod q p)))"

datatype ledger_op =
    OpLock string decimal
  | OpUnlock string decimal
  | OpSettle bool string string decimal decimal decimal
  | OpDebit string decimal
  | OpCredit string decimal
  | OpBurn string decimal
  | OpGet string

fun ledger_step :: "ledger_op \<Rightarrow> ledger \<Rightarrow> ledger option" where
  "ledger_step (OpLock a x) l = map_option snd (Lock l a x)"
| "ledger_step (OpUnlock a x) l = Unlock l a x"
| "ledger_step (OpSettle isBuy base quote q p r) l = SettleFill l isBuy base quote q p r"
| "ledger_step (OpDebit a x) l = map_option snd (Debit l a x)"
| "ledger_step (OpCredit a x) l = Credit l a x"
| "ledger_step (OpBurn a x) l = Burn l a x"
| "ledger_step (OpGet a) l = Some (snd (Get l a))"

fun spec_step :: "ledger_op \<Rightarrow> account \<Rightarrow> account" where
  "spec_step (OpLock a x) s = spec_lock s a (toBig x)"
| "spec_step (OpUnlock a x) s = (if toBig x \<le> 0 then s else spec_release s a (toBig x))"
| "spec_step (OpSettle isBuy base quote q p r) s = spec_settle s isBuy base quote (toBig q) (toBig p) (toBig r)"
| "spec_step (OpDebit a x) s = (if toBig x \<le> 0 \<or> fst s a < toBig x then s else spec_debit s a (toBig x))"
| "spec_step (OpCredit a x) s = (if toBig x \<le> 0 then s else spec_credit s a (toBig x))"
| "spec_step (OpBurn a x) s = (if toBig x \<le> 0 then s else spec_debit s a (toBig x))"
| "spec_step (OpGet a) s = s"

subsection \<open>Reading after writing\<close>

lemma holding_touch [simp]: "holding_at (touch l a) b = holding_at l b"
  by (simp add: touch_def holding_at_def map_of_update_eq split: option.splits)

lemma holding_set [simp]:
  "holding_at (set_free l a v) b = (if b = a then (holding_at l a)\<lparr>h_free := v\<rparr> else holding_at l b)"
  "holding_at (set_locked l a v) b = (if b = a then (holding_at l a)\<lparr>h_locked := v\<rparr> else holding_at l b)"
  by (simp_all add: set_free_def set_locked_def holding_at_def map_of_update_eq)

lemma account_set:
  "fr (touch l a) = fr l" "lk (touch l a) = lk l"
  "fr (set_free l a v) = (fr l)(a := toBig v)" "lk (set_free l a v) = lk l"
  "fr (set_locked l a v) = fr l" "lk (set_locked l a v) = (lk l)(a := toBig v)"
  by (auto simp: fr_def lk_def)

lemma account_read: "toBig (free_at l a) = fr l a" "toBig (locked_at l a) = lk l a"
  by (simp_all add: fr_def lk_def)

lemmas account_simps = account_set account_read account_of_def bind_eq_Some_conv Let_def

lemma Sign_le_0: "Sign x \<le> 0 \<longleftrightarrow> toBig x \<le> 0"
  by (simp add: Sign_spec sgn_if)

lemmas amount_simps = Sign_le_0 less_toBig

subsection \<open>Each operation is its abstract counterpart\<close>

lemma Lock_refines: "Lock l a x = Some (ok, l') \<Longrightarrow>
    account_of l' = spec_lock (account_of l) a (toBig x) \<and> (ok \<longleftrightarrow> toBig x \<le> 0 \<or> toBig x \<le> fr l a)"
  by (auto simp: Lock_def amount_simps account_simps split: if_splits dest!: arith_values)

lemma release_refines: "release l a x = Some l' \<Longrightarrow> account_of l' = spec_release (account_of l) a (toBig x)"
  by (auto simp: release_def amount_simps account_simps min_def split: if_splits dest!: arith_values)

lemma debitFree_refines: "debitFree l a x = Some l' \<Longrightarrow> account_of l' = spec_debit (account_of l) a (toBig x)"
  by (auto simp: debitFree_def amount_simps account_simps min_def split: if_splits dest!: arith_values)

lemma addFree_refines: "addFree l a x = Some l' \<Longrightarrow> account_of l' = spec_credit (account_of l) a (toBig x)"
  by (auto simp: addFree_def amount_simps account_simps dest!: arith_values)

lemma Mul_prod: "Mul d e = Some r \<Longrightarrow> toBig r = prod (toBig d) (toBig e)"
  by (simp add: Mul_Some prod_def)

lemma market_buy_refines:
  assumes "settle_market_buy l base quote qty cost = Some l'"
  shows "account_of l' = spec_credit (spec_debit (account_of l) quote (toBig cost)) base
    (spec_bought (toBig qty) (toBig cost) (min (toBig cost) (fr l quote)))"
proof -
  let ?pay = "if free_at l quote < cost then free_at l quote else cost"
  from assms obtain f c where f: "Sub (free_at l quote) ?pay = Some f"
    and c: "(if ?pay < cost \<and> Sign cost > 0 then do { m \<leftarrow> Mul qty ?pay; Div m cost } else Some qty) = Some c"
    and l': "addFree (set_free (touch l quote) quote f) base c = Some l'"
    unfolding settle_market_buy_def Let_def holding_touch compare_simps bind_eq_Some_conv by blast
  have pay: "toBig ?pay = min (toBig cost) (fr l quote)" by (simp add: amount_simps account_read min_def)
  have f': "toBig f = fr l quote - toBig ?pay" using dec.sub_value[OF f] by (simp only: account_read)
  have "toBig c = spec_bought (toBig qty) (toBig cost) (toBig ?pay)"
  proof (cases "?pay < cost \<and> Sign cost > 0")
    case True
    from c[unfolded if_P[OF True]] obtain m where "Mul qty ?pay = Some m" "Div m cost = Some c"
      by (auto simp only: bind_eq_Some_conv)
    then have "toBig c = prod (toBig qty) (toBig ?pay) * scaleBig sdiv toBig cost"
      by (simp only: Div_Some Mul_prod)
    moreover have "toBig ?pay < toBig cost \<and> 0 < toBig cost"
      using True by (simp only: less_toBig Sign_spec sgn_greater)
    ultimately show ?thesis by (simp only: spec_bought_def if_True simp_thms)
  next
    case False
    then have "\<not> (toBig ?pay < toBig cost \<and> 0 < toBig cost)"
      by (simp only: less_toBig Sign_spec sgn_greater not_False_eq_True)
    moreover have "c = qty" using c[unfolded if_not_P[OF False]] by simp
    ultimately show ?thesis by (simp only: spec_bought_def if_False)
  qed
  with addFree_refines[OF l'] f' pay show ?thesis by (simp add: account_simps)
qed

lemma market_sell_refines:
  assumes "settle_market_sell l base quote qty p = Some l'"
  shows "account_of l' = spec_credit (spec_debit (account_of l) base (toBig qty)) quote
    (prod (min (toBig qty) (fr l base)) (toBig p))"
proof -
  let ?sell = "if free_at l base < qty then free_at l base else qty"
  from assms obtain f c where f: "Sub (free_at l base) ?sell = Some f" and c: "Mul ?sell p = Some c"
    and l': "addFree (set_free (touch l base) base f) quote c = Some l'"
    unfolding settle_market_sell_def Let_def holding_touch compare_simps bind_eq_Some_conv by blast
  have sell: "toBig ?sell = min (toBig qty) (fr l base)" by (simp add: amount_simps account_read min_def)
  have f': "toBig f = fr l base - toBig ?sell" using dec.sub_value[OF f] by (simp only: account_read)
  from addFree_refines[OF l'] Mul_prod[OF c] f' sell show ?thesis by (simp add: account_simps)
qed

lemma SettleFill_refines:
  assumes "SettleFill l isBuy base quote q p r = Some l'"
  shows "account_of l' = spec_settle (account_of l) isBuy base quote (toBig q) (toBig p) (toBig r)"
  using assms
  by (auto simp: SettleFill_def bind_eq_Some_conv Sign_le_0 split: if_splits
      dest!: market_buy_refines market_sell_refines addFree_refines debitFree_refines release_refines Mul_prod)
    (simp_all add: account_of_def)

lemma touch_refines [simp]: "account_of (touch l a) = account_of l"
  by (simp add: account_simps)

lemma Debit_refines: "Debit l a x = Some (ok, l') \<Longrightarrow>
    account_of l' = (if toBig x \<le> 0 \<or> fr l a < toBig x then account_of l else spec_debit (account_of l) a (toBig x)) \<and>
    (ok \<longleftrightarrow> toBig x \<le> 0 \<or> toBig x \<le> fr l a)"
  by (auto simp: Debit_def amount_simps account_simps split: if_splits dest!: arith_values)

lemma fst_account [simp]: "fst (account_of l) = fr l" "snd (account_of l) = lk l"
  by (simp_all add: account_of_def)

lemma step_refines: "ledger_step op l = Some l' \<Longrightarrow> account_of l' = spec_step op (account_of l)"
proof (induction op l rule: ledger_step.induct)
  case (1 a x l)
  then show ?case by (auto dest: Lock_refines)
next
  case (2 a x l)
  then show ?case by (auto simp: Unlock_def Sign_le_0 split: if_splits dest: release_refines)
next
  case (3 isBuy base quote q p r l)
  then show ?case by (simp only: ledger_step.simps spec_step.simps SettleFill_refines)
next
  case (4 a x l)
  then show ?case by (auto dest!: Debit_refines)
next
  case (5 a x l)
  then show ?case by (auto simp: Credit_def Sign_le_0 split: if_splits dest: addFree_refines)
next
  case (6 a x l)
  then show ?case by (auto simp: Burn_def Sign_le_0 split: if_splits dest: debitFree_refines)
next
  case (7 a l)
  then show ?case by (auto simp: Get_def Let_def)
qed


subsection \<open>Laws of the abstract account\<close>

lemma div_times_le: "0 < k \<Longrightarrow> n div k * k \<le> n" for k n :: int
  using div_mult_mod_eq[of n k] pos_mod_sign[of k n] by linarith

lemma prod_nonneg: "0 \<le> x \<Longrightarrow> 0 \<le> y \<Longrightarrow> 0 \<le> prod x y"
  by (simp add: prod_def scaleBig_num sdiv_nonneg pos_imp_zdiv_nonneg_iff)

lemma prod_mono: "0 \<le> x \<Longrightarrow> 0 \<le> y \<Longrightarrow> y \<le> z \<Longrightarrow> prod x y \<le> prod x z"
  by (simp add: prod_def scaleBig_num sdiv_nonneg zdiv_mono1 mult_left_mono)

lemma prod_scaled: "0 \<le> x \<Longrightarrow> 0 \<le> y \<Longrightarrow> prod x y * scaleBig \<le> x * y"
  by (simp add: prod_def scaleBig_num sdiv_nonneg div_times_le)

text \<open>What an underfunded market buy is credited: never more than was asked for, and never
  worth more than was paid.\<close>

lemma spec_bought_bounds:
  assumes "0 \<le> q" "0 \<le> pay" "pay \<le> c"
  shows "0 \<le> spec_bought q c pay \<and> spec_bought q c pay \<le> q \<and> spec_bought q c pay * c \<le> q * pay"
proof (cases "pay < c \<and> 0 < c")
  case True
  then have c: "0 < c" and eq: "spec_bought q c pay = prod q pay * scaleBig div c"
    using assms prod_nonneg[of q pay] by (simp_all add: spec_bought_def sdiv_nonneg scaleBig_num)
  have "prod q pay * scaleBig div c * c \<le> prod q pay * scaleBig"
    using c by (rule div_times_le)
  with prod_scaled[of q pay] assms have worth: "spec_bought q c pay * c \<le> q * pay" by (simp add: eq)
  also have "\<dots> \<le> q * c" using assms by (simp add: mult_left_mono)
  finally have "spec_bought q c pay \<le> q" using c by simp
  moreover have "0 \<le> spec_bought q c pay"
    using c prod_nonneg[of q pay] assms by (simp add: eq scaleBig_num pos_imp_zdiv_nonneg_iff)
  ultimately show ?thesis using worth by simp
next
  case False
  then have "pay = c" using assms by linarith
  then show ?thesis using assms by (simp add: spec_bought_def)
qed

definition no_debt :: "account \<Rightarrow> bool" where
  "no_debt s \<longleftrightarrow> (\<forall>a. 0 \<le> fst s a \<and> 0 \<le> snd s a)"

lemma no_debt_ops:
  "no_debt s \<Longrightarrow> no_debt (spec_lock s a x)"
  "no_debt s \<Longrightarrow> 0 \<le> x \<Longrightarrow> no_debt (spec_release s a x)"
  "no_debt s \<Longrightarrow> no_debt (spec_debit s a x)"
  "no_debt s \<Longrightarrow> 0 \<le> x \<Longrightarrow> no_debt (spec_credit s a x)"
  by (cases s; auto simp: no_debt_def)+

text \<open>What the callers of a fill promise: a quantity and a price that are not negative.\<close>

fun op_ok :: "ledger_op \<Rightarrow> bool" where
  "op_ok (OpSettle isBuy base quote q p r) \<longleftrightarrow> 0 \<le> toBig q \<and> 0 \<le> toBig p"
| "op_ok _ \<longleftrightarrow> True"

lemma no_debt_settle:
  assumes "no_debt s" "0 \<le> q" "0 \<le> p"
  shows "no_debt (spec_settle s isBuy base quote q p r)"
proof -
  have "0 \<le> fst s a" for a using assms(1) by (simp add: no_debt_def)
  then have "0 \<le> spec_bought q (prod q p) (min (prod q p) (fst s quote))" "0 \<le> prod (min q (fst s base)) p"
    using spec_bought_bounds[of q "min (prod q p) (fst s quote)" "prod q p"] prod_nonneg assms(2,3) by simp_all
  then show ?thesis using assms by (auto intro!: no_debt_ops prod_nonneg)
qed

lemma no_debt_step: "no_debt s \<Longrightarrow> op_ok op \<Longrightarrow> no_debt (spec_step op s)"
  by (cases op) (auto intro: no_debt_ops no_debt_settle simp del: spec_lock.simps spec_settle.simps)

interpretation solvent: invariant_machine ledger_step op_ok "\<lambda>l. no_debt (account_of l)"
  by unfold_locales (simp add: step_refines no_debt_step)

lemma NewLedger_solvent: "list_all (\<lambda>(a, v). 0 \<le> toBig v) initial \<Longrightarrow> no_debt (account_of (NewLedger initial))"
  by (auto simp: no_debt_def account_of_def fr_def lk_def holding_at_def NewLedger_def list_all_iff toBig_Zero
      split: option.splits prod.splits dest!: map_of_SomeD)

interpretation by_asset: comparator asset_before bl_Asset
  by unfold_locales (simp add: asset_before_def)


subsection \<open>Operations that return\<close>

fun small_op :: "ledger_op \<Rightarrow> bool" where
  "small_op (OpSettle isBuy base quote q p r) \<longleftrightarrow> (\<forall>x\<in>{q, p, r}. 0 \<le> toBig x \<and> toBig x \<le> 10 ^ 24)"
| "small_op (OpGet a) \<longleftrightarrow> True"
| "small_op (OpLock a x) \<longleftrightarrow> toBig x \<le> 10 ^ 36"
| "small_op (OpUnlock a x) \<longleftrightarrow> toBig x \<le> 10 ^ 36"
| "small_op (OpDebit a x) \<longleftrightarrow> toBig x \<le> 10 ^ 36"
| "small_op (OpCredit a x) \<longleftrightarrow> toBig x \<le> 10 ^ 36"
| "small_op (OpBurn a x) \<longleftrightarrow> toBig x \<le> 10 ^ 36"

lemma small_in_range: "0 \<le> i \<Longrightarrow> i \<le> 10 ^ 38 \<Longrightarrow> in_range i"
  by (simp add: in_range_def minNeg_num maxPos_num)

lemma addFree_returns: "0 \<le> fr l a + toBig x \<Longrightarrow> fr l a + toBig x \<le> 10 ^ 38 \<Longrightarrow> \<exists>l'. addFree l a x = Some l'"
  using dec.add_Some[of "free_at l a" x] small_in_range by (fastforce simp: addFree_def account_read)

lemma debitFree_returns:
  assumes "0 \<le> fr l a" "0 \<le> toBig x"
  shows "\<exists>l'. debitFree l a x = Some l'"
proof -
  let ?x = "if free_at l a < x then free_at l a else x"
  have "0 \<le> toBig ?x" "toBig ?x \<le> fr l a" using assms by (simp_all add: less_toBig account_read)
  then obtain f where "Sub (free_at l a) ?x = Some f"
    using dec.sub_below[of ?x "free_at l a"] by (auto simp only: account_read)
  then show ?thesis unfolding debitFree_def Let_def holding_touch compare_simps by simp
qed

lemma release_returns:
  assumes "0 \<le> fr l a" "0 \<le> lk l a" "0 \<le> toBig x" "fr l a + toBig x \<le> 10 ^ 38"
  shows "\<exists>l'. release l a x = Some l'"
proof -
  let ?x = "if locked_at l a < x then locked_at l a else x"
  have "0 \<le> toBig ?x" "toBig ?x \<le> lk l a" "toBig ?x \<le> toBig x"
    using assms by (simp_all add: less_toBig account_read)
  then obtain k f where "Sub (locked_at l a) ?x = Some k" "Add (free_at l a) ?x = Some f"
    using dec.sub_below[of ?x "locked_at l a"] dec.add_Some[of "free_at l a" ?x]
      small_in_range[of "fr l a + toBig ?x"] assms by (auto simp only: account_read)
  then show ?thesis unfolding release_def Let_def holding_touch compare_simps by simp
qed

lemma prod_small:
  assumes "0 \<le> x" "x \<le> 10 ^ m" "0 \<le> y" "y \<le> 10 ^ n" "18 \<le> m"
  shows "prod x y \<le> 10 ^ (m + n - 18)"
proof -
  have "x * y \<le> 10 ^ m * 10 ^ n" using assms by (intro mult_mono) simp_all
  also have "\<dots> = 10 ^ (m + n - 18) * 10 ^ 18"
    using assms(5) by (simp only: power_add[symmetric] le_add_diff_inverse2 trans_le_add1)
  also have "\<dots> = 10 ^ (m + n - 18) * scaleBig" by (simp add: scaleBig_num)
  finally have "x * y \<le> 10 ^ (m + n - 18) * scaleBig" .
  then have "x * y div scaleBig \<le> 10 ^ (m + n - 18) * scaleBig div scaleBig"
    by (rule zdiv_mono1) (simp add: scaleBig_num)
  then show ?thesis using assms(1,3) by (simp add: prod_def scaleBig_num sdiv_nonneg)
qed

lemma Mul_returns:
  assumes "0 \<le> toBig x" "0 \<le> toBig y" "prod (toBig x) (toBig y) \<le> 10 ^ 38"
  shows "\<exists>z. Mul x y = Some z \<and> toBig z = prod (toBig x) (toBig y)"
proof (cases "Mul x y")
  case None
  then show ?thesis
    using small_in_range[of "prod (toBig x) (toBig y)"] assms prod_nonneg
    by (simp add: Mul_spec fromBigChecked_None prod_def)
next
  case (Some z)
  then show ?thesis by (simp add: Mul_prod)
qed

lemma market_buy_returns:
  assumes "no_debt (account_of l)" "\<And>a. fr l a \<le> 10 ^ 36" "0 \<le> toBig qty" "toBig qty \<le> 10 ^ 24"
    and "0 \<le> toBig cost" "toBig cost \<le> 10 ^ 30"
  shows "\<exists>l'. settle_market_buy l base quote qty cost = Some l'"
proof -
  let ?pay = "if free_at l quote < cost then free_at l quote else cost"
  have nn: "0 \<le> fr l a" for a using assms(1) by (simp add: no_debt_def)
  have pay: "0 \<le> toBig ?pay" "toBig ?pay \<le> toBig cost" "toBig ?pay \<le> fr l quote"
    using nn assms(5) by (simp_all add: less_toBig account_read)
  then obtain f where f: "Sub (free_at l quote) ?pay = Some f" "toBig f = fr l quote - toBig ?pay"
    using dec.sub_below[of ?pay "free_at l quote"] by (auto simp only: account_read)
  have m_le: "prod (toBig qty) (toBig ?pay) \<le> 10 ^ 36"
    using prod_small[of "toBig qty" 24 "toBig ?pay" 30] pay assms(3,4,6) by simp
  then obtain m where m: "Mul qty ?pay = Some m" "toBig m = prod (toBig qty) (toBig ?pay)"
    using Mul_returns[OF assms(3) pay(1)] by auto
  note bought = spec_bought_bounds[OF assms(3) pay(1,2)]
  obtain c where c: "(if ?pay < cost \<and> Sign cost > 0 then do { m \<leftarrow> Mul qty ?pay; Div m cost } else Some qty) = Some c"
    and c_le: "0 \<le> toBig c" "toBig c \<le> toBig qty"
  proof (cases "?pay < cost \<and> Sign cost > 0")
    case True
    then have t: "toBig ?pay < toBig cost \<and> 0 < toBig cost" by (simp only: less_toBig Sign_spec sgn_greater)
    then have b: "spec_bought (toBig qty) (toBig cost) (toBig ?pay) = toBig m * scaleBig sdiv toBig cost"
      by (simp only: spec_bought_def m(2) if_True simp_thms)
    then obtain c where "Div m cost = Some c" "toBig c = toBig m * scaleBig sdiv toBig cost"
      using t bought assms(4) small_in_range[of "spec_bought (toBig qty) (toBig cost) (toBig ?pay)"]
      by (cases "Div m cost") (simp_all add: Div_spec fromBigChecked_None fromBigChecked_Some del: compare_simps)
    with that[of c] True m(1) b bought show ?thesis by (simp only: simp_thms if_True bind.bind_lunit)
  next
    case False
    show ?thesis by (rule that[of qty]) (simp_all only: if_not_P[OF False] assms order_refl)
  qed
  have "0 \<le> fr (set_free (touch l quote) quote f) base + toBig c \<and>
      fr (set_free (touch l quote) quote f) base + toBig c \<le> 10 ^ 38"
    using nn[of base] assms(2)[of base] f(2) pay(1,3) c_le assms(2)[of quote] assms(4) by (simp add: account_simps)
  then obtain l' where "addFree (set_free (touch l quote) quote f) base c = Some l'"
    using addFree_returns by blast
  with f(1) c show ?thesis
    unfolding settle_market_buy_def Let_def holding_touch compare_simps by (simp only: bind.bind_lunit) blast
qed

lemma market_sell_returns:
  assumes "no_debt (account_of l)" "\<And>a. fr l a \<le> 10 ^ 36" "0 \<le> toBig qty" "toBig qty \<le> 10 ^ 24"
    and "0 \<le> toBig p" "toBig p \<le> 10 ^ 24"
  shows "\<exists>l'. settle_market_sell l base quote qty p = Some l'"
proof -
  let ?sell = "if free_at l base < qty then free_at l base else qty"
  have nn: "0 \<le> fr l a" for a using assms(1) by (simp add: no_debt_def)
  have sell: "0 \<le> toBig ?sell" "toBig ?sell \<le> toBig qty" "toBig ?sell \<le> fr l base"
    using nn assms(3) by (simp_all add: less_toBig account_read)
  then obtain f where f: "Sub (free_at l base) ?sell = Some f" "toBig f = fr l base - toBig ?sell"
    using dec.sub_below[of ?sell "free_at l base"] by (auto simp only: account_read)
  have m_le: "prod (toBig ?sell) (toBig p) \<le> 10 ^ 30"
    using prod_small[of "toBig ?sell" 24 "toBig p" 24] sell assms(4-6) by simp
  then obtain m where m: "Mul ?sell p = Some m" "toBig m = prod (toBig ?sell) (toBig p)"
    using Mul_returns[OF sell(1) assms(5)] by auto
  have "0 \<le> toBig m" using m(2) prod_nonneg sell(1) assms(5) by simp
  then have "0 \<le> fr (set_free (touch l base) base f) quote + toBig m \<and>
      fr (set_free (touch l base) base f) quote + toBig m \<le> 10 ^ 38"
    using nn[of quote] assms(2)[of quote] f(2) sell(1,3) m_le m(2) assms(2)[of base] by (simp add: account_simps)
  then obtain l' where "addFree (set_free (touch l base) base f) quote m = Some l'"
    using addFree_returns by blast
  with f(1) m(1) show ?thesis
    unfolding settle_market_sell_def Let_def holding_touch compare_simps by (simp only: bind.bind_lunit) blast
qed

lemma SettleFill_returns:
  assumes "no_debt (account_of l)" "\<And>a. fr l a \<le> 10 ^ 36 \<and> lk l a \<le> 10 ^ 36"
    and "small_op (OpSettle isBuy base quote q p r)"
  shows "\<exists>l'. SettleFill l isBuy base quote q p r = Some l'"
proof -
  have nn: "0 \<le> fr l a" "0 \<le> lk l a" for a using assms(1) by (simp_all add: no_debt_def)
  have q: "0 \<le> toBig q" "toBig q \<le> 10 ^ 24" and p: "0 \<le> toBig p" "toBig p \<le> 10 ^ 24"
    and r: "0 \<le> toBig r" "toBig r \<le> 10 ^ 24" using assms(3) by simp_all
  have cost_le: "prod (toBig q) (toBig p) \<le> 10 ^ 30" and res_le: "prod (toBig q) (toBig r) \<le> 10 ^ 30"
    using prod_small[of "toBig q" 24 "toBig p" 24] prod_small[of "toBig q" 24 "toBig r" 24] q p r by simp_all
  obtain cost where cost: "Mul q p = Some cost" "toBig cost = prod (toBig q) (toBig p)"
    using Mul_returns[OF q(1) p(1)] cost_le by auto
  obtain res where res: "Mul q r = Some res" "toBig res = prod (toBig q) (toBig r)"
    using Mul_returns[OF q(1) r(1)] res_le by auto
  have nonneg: "0 \<le> toBig cost" "0 \<le> toBig res" using cost(2) res(2) prod_nonneg q(1) p(1) r(1) by simp_all
  have limit: "\<exists>l1 l2 l3. release l a x = Some l1 \<and> debitFree l1 a y = Some l2 \<and> addFree l2 b z = Some l3"
    if xs: "0 \<le> toBig x" "toBig x \<le> 10 ^ 30" "0 \<le> toBig y" "0 \<le> toBig z" "toBig z \<le> 10 ^ 30" for a b x y z
  proof -
    have small: "fr l a + toBig x \<le> 10 ^ 38" using assms(2)[of a] xs(2) by simp
    obtain l1 where l1: "release l a x = Some l1"
      using release_returns[OF nn(1) nn(2) _ small] \<open>0 \<le> toBig x\<close> by blast
    note v1 = release_refines[OF l1]
    then have f1: "0 \<le> fr l1 c \<and> fr l1 c \<le> 2 * 10 ^ 36" for c
      using nn[of c] nn[of a] assms(2)[of c] xs by (auto simp: account_of_def min_def)
    obtain l2 where l2: "debitFree l1 a y = Some l2" using debitFree_returns[of l1 a y] f1 xs by auto
    from debitFree_refines[OF l2] have "0 \<le> fr l2 b \<and> fr l2 b \<le> 2 * 10 ^ 36"
      using f1[of b] f1[of a] xs(3) by (auto simp: account_of_def min_def)
    then have "\<exists>l3. addFree l2 b z = Some l3" using addFree_returns[of l2 b z] xs by simp
    with l1 l2 show ?thesis by blast
  qed
  from market_buy_returns[OF assms(1) _ q nonneg(1), of base quote] cost_le assms(2)
  have market_buy: "\<exists>l'. settle_market_buy l base quote q cost = Some l'" by (simp add: cost(2))
  from market_sell_returns[OF assms(1) _ q p, of base quote] assms(2)
  have market_sell: "\<exists>l'. settle_market_sell l base quote q p = Some l'" by simp
  from limit[of res cost q quote base] limit[of q q cost base quote] nonneg cost_le res_le q
  show ?thesis using market_buy market_sell by (auto simp: SettleFill_def cost res)
qed

lemma Lock_returns:
  assumes "no_debt (account_of l)" "lk l a \<le> 10 ^ 36" "toBig x \<le> 10 ^ 36"
  shows "\<exists>r. Lock l a x = Some r"
proof -
  have nn: "0 \<le> fr l a" "0 \<le> lk l a" using assms(1) by (simp_all add: no_debt_def)
  have "\<exists>f k. Sub (free_at l a) x = Some f \<and> Add (locked_at l a) x = Some k" if "0 < toBig x" "toBig x \<le> fr l a"
    using dec.sub_below[of x "free_at l a"] dec.add_Some[of "locked_at l a" x] nn assms(2,3) that
      small_in_range[of "lk l a + toBig x"] by (auto simp: account_read)
  then show ?thesis
    by (cases "0 < toBig x \<and> toBig x \<le> fr l a")
      (auto simp: Lock_def account_read account_set less_toBig Sign_le_0 Let_def)
qed

lemma Debit_returns: "\<exists>r. Debit l a x = Some r"
proof -
  have "\<exists>f. Sub (free_at l a) x = Some f" if "0 < toBig x" "toBig x \<le> fr l a"
    using dec.sub_below[of x "free_at l a"] that by (auto simp: account_read)
  then show ?thesis
    by (cases "0 < toBig x \<and> toBig x \<le> fr l a")
      (auto simp: Debit_def account_read account_set less_toBig Sign_le_0 Let_def)
qed

lemma step_returns:
  assumes "no_debt (account_of l)" "\<And>a. fr l a \<le> 10 ^ 36 \<and> lk l a \<le> 10 ^ 36" "small_op op"
  shows "\<exists>l'. ledger_step op l = Some l'"
proof (cases op)
  case (OpLock a x)
  then show ?thesis using Lock_returns[OF assms(1), of a x] assms(2)[of a] assms(3) by auto
next
  case (OpSettle isBuy base quote q p r)
  then show ?thesis using SettleFill_returns[OF assms(1,2)] assms(3) by (simp del: small_op.simps)
next
  case (OpDebit a x)
  then show ?thesis using Debit_returns[of l a x] by auto
next
  case (OpUnlock a x)
  then show ?thesis using release_returns[of l a x] assms(2)[of a] assms(1,3)
    by (auto simp: Unlock_def Sign_le_0 no_debt_def)
next
  case (OpCredit a x)
  then show ?thesis using addFree_returns[of l a x] assms(2)[of a] assms(1,3)
    by (auto simp: Credit_def Sign_le_0 no_debt_def)
next
  case (OpBurn a x)
  then show ?thesis using debitFree_returns[of l a x] assms(1)
    by (auto simp: Burn_def Sign_le_0 no_debt_def)
qed simp

subsection \<open>A concrete ledger\<close>

definition ex_ledger :: ledger where
  "ex_ledger = [(''USD'', \<lparr>h_free = Decimal 0 1000, h_locked = Zero\<rparr>), (''BTC'', \<lparr>h_free = Decimal 0 7, h_locked = Zero\<rparr>)]"

text \<open>One unit, as a decimal.\<close>

definition unit_price :: decimal where
  "unit_price = Decimal 0 1000000000000000000"

lemma ex_values: "toBig unit_price = scaleBig" "toBig (Decimal 0 5) = 5" "toBig (Decimal 0 0) = 0"
  by (simp_all add: unit_price_def toBig_eq scaleBig_num)

lemma ex_fr: "fr ex_ledger = (\<lambda>_. 0)(''USD'' := 1000, ''BTC'' := 7)" "lk ex_ledger = (\<lambda>_. 0)"
  by (auto simp: fun_eq_iff fr_def lk_def ex_ledger_def holding_at_def toBig_eq Zero_def)

lemma ex_solvent: "no_debt (account_of ex_ledger)"
  by (simp add: no_debt_def ex_fr)

lemma ex_prod: "0 \<le> x \<Longrightarrow> prod x scaleBig = x"
  by (simp add: prod_def scaleBig_num sdiv_nonneg)

lemma ex_mul: "Mul (Decimal 0 5) unit_price = Some (Decimal 0 5)"
  by (simp add: Mul_Some ex_values ex_prod[unfolded prod_def] small_in_range)

subsection \<open>Properties of the ledger\<close>

text \<open>C13: The ledger implements the integer account: on a ledger without debt and amounts within
  bounds (balances up to \<open>10 ^ 36\<close> raw units, quantities and prices up to \<open>10 ^ 24\<close>) every operation
  returns, and changes the free and locked balances exactly as the abstract operation, on every branch.\<close>

theorem ledger_refines_account:
  assumes "no_debt (account_of l)" "\<And>a. fr l a \<le> 10 ^ 36 \<and> lk l a \<le> 10 ^ 36" "small_op op"
  shows "\<exists>l'. ledger_step op l = Some l' \<and> account_of l' = spec_step op (account_of l)"
  using step_returns[OF assms] step_refines by blast

theorem ledger_refines_account_witness:
  "\<exists>l'. ledger_step (OpSettle True ''BTC'' ''USD'' (Decimal 0 5) unit_price (Decimal 0 0)) ex_ledger = Some l' \<and>
    account_of l' = ((\<lambda>_. 0)(''USD'' := 995, ''BTC'' := 12), \<lambda>_. 0)"
proof -
  have "small_op (OpSettle True ''BTC'' ''USD'' (Decimal 0 5) unit_price (Decimal 0 0))"
    by (simp add: ex_values scaleBig_num)
  from ledger_refines_account[OF ex_solvent _ this] show ?thesis
    by (simp add: ex_fr ex_values ex_prod spec_bought_def account_of_def fun_upd_twist)
qed

text \<open>No run of operations overdraws: with a non-negative opening and fills of non-negative
  quantity and price, every free and every locked balance stays non-negative.\<close>

theorem ledger_never_overdrawn:
  assumes "list_all (\<lambda>(a, v). 0 \<le> toBig v) initial" "list_all op_ok ops"
    and "run_ops ledger_step ops (NewLedger initial) = Some l"
  shows "0 \<le> toBig (free_at l a) \<and> 0 \<le> toBig (locked_at l a)"
  using solvent.run_inv[OF NewLedger_solvent[OF assms(1)] assms(2,3)]
  by (simp add: no_debt_def account_of_def fr_def lk_def)

theorem ledger_never_overdrawn_witness:
  "\<exists>l. run_ops ledger_step [OpBurn ''BTC'' (Decimal 0 9), OpCredit ''USD'' (Decimal 0 5)]
      (NewLedger [(''BTC'', Decimal 0 5)]) = Some l \<and> 0 \<le> toBig (free_at l ''BTC'')"
proof -
  let ?ops = "[OpBurn ''BTC'' (Decimal 0 9), OpCredit ''USD'' (Decimal 0 5)]"
  let ?init = "[(''BTC'', Decimal 0 5)]"
  obtain l where l: "run_ops ledger_step ?ops (NewLedger ?init) = Some l"
    by (simp add: Burn_def Credit_def debitFree_def addFree_def NewLedger_def touch_def set_free_def holding_at_def
        Sign_def less_toBig toBig_eq Sub_def Sub64_def Add_def Add64_def Zero_def Let_def)
  from ledger_never_overdrawn[OF _ _ l, of "''BTC''"] l show ?thesis by (simp add: toBig_eq)
qed

text \<open>A lock reserves the amount or is refused: it succeeds exactly when the free balance covers
  it, a refusal changes no balance, and the sum of free and locked never changes.\<close>

theorem lock_exact:
  "case Lock l a x of
     None \<Rightarrow> \<not> in_range (lk l a + toBig x)
   | Some (ok, l') \<Rightarrow> (ok \<longleftrightarrow> toBig x \<le> 0 \<or> toBig x \<le> fr l a) \<and> fr l' b + lk l' b = fr l b + lk l b \<and>
       lk l' b = (if b = a \<and> ok \<and> 0 < toBig x then lk l b + toBig x else lk l b)"
proof (cases "Lock l a x")
  case None
  then have x: "0 < toBig x" "toBig x \<le> fr l a" and
    "Sub (free_at l a) x = None \<or> Add (locked_at l a) x = None"
    by (auto simp: Lock_def amount_simps account_read account_set Let_def bind_eq_None_conv split: if_splits)
  moreover have "in_range (fr l a - toBig x)"
    using x in_range_between[OF in_range_zero toBig_in_range[of "free_at l a"], of "fr l a - toBig x"]
    by (simp add: account_read)
  ultimately show ?thesis using None by (simp add: dec.add_None dec.sub_None account_read)
next
  case (Some r)
  then show ?thesis
    by (cases r) (auto dest!: Lock_refines simp: account_of_def split: if_splits)
qed

text \<open>A limit order that is locked at its price and filled completely at a price no worse leaves
  nothing of its reservation locked; the account pays exactly the cost and receives exactly the
  quantity, so a price improvement is refunded.\<close>

theorem limit_order_lifecycle:
  assumes "Lock l (if isBuy then quote else base) (if isBuy then amt else qty) = Some (True, l1)"
    and "Mul qty price = Some amt" "SettleFill l1 isBuy base quote qty p price = Some l2"
    and "no_debt (account_of l)" "0 \<le> toBig qty" "0 < toBig price" "0 \<le> toBig p" "base \<noteq> quote"
    and "isBuy \<Longrightarrow> toBig p \<le> toBig price"
  shows "lk l2 = lk l \<and> (if isBuy
    then fr l2 = (fr l)(quote := fr l quote - prod (toBig qty) (toBig p), base := fr l base + toBig qty)
    else fr l2 = (fr l)(base := fr l base - toBig qty, quote := fr l quote + prod (toBig qty) (toBig p)))"
proof -
  have solvent: "0 \<le> fr l a" "0 \<le> lk l a" for a using assms(4) by (simp_all add: no_debt_def)
  have amt: "toBig amt = prod (toBig qty) (toBig price)" using assms(2) by (rule Mul_prod)
  have nn: "0 \<le> prod (toBig qty) (toBig price)" "0 \<le> prod (toBig qty) (toBig p)"
    using assms(5-7) prod_nonneg by simp_all
  note l1 = Lock_refines[OF assms(1)] note l2 = SettleFill_refines[OF assms(3)]
  show ?thesis
  proof (cases isBuy)
    case True
    have "prod (toBig qty) (toBig p) \<le> prod (toBig qty) (toBig price)" using prod_mono assms(5,7,9) True by simp
    with True l1 l2 amt nn solvent assms(6,8) show ?thesis
      by (auto simp: account_of_def min_def fun_eq_iff split: if_splits)
  next
    case False
    with l1 l2 nn solvent assms(5,6,8) show ?thesis
      by (auto simp: account_of_def min_def fun_eq_iff split: if_splits)
  qed
qed

theorem limit_order_lifecycle_witness:
  "\<exists>l1 l2. Lock ex_ledger ''USD'' (Decimal 0 5) = Some (True, l1) \<and>
    SettleFill l1 True ''BTC'' ''USD'' (Decimal 0 5) unit_price unit_price = Some l2 \<and>
    fr l2 ''USD'' = 995 \<and> fr l2 ''BTC'' = 12 \<and> lk l2 ''USD'' = 0"
proof -
  obtain ok l1 where l1: "Lock ex_ledger ''USD'' (Decimal 0 5) = Some (ok, l1)"
    using Lock_returns[OF ex_solvent, of "''USD''" "Decimal 0 5"] by (auto simp: ex_fr ex_values)
  then have "ok" using Lock_refines by (fastforce simp: ex_fr ex_values)
  with l1 have l1: "Lock ex_ledger ''USD'' (Decimal 0 5) = Some (True, l1)" by simp
  have acc: "account_of l1 = spec_lock (account_of ex_ledger) ''USD'' 5"
    using Lock_refines[OF l1] by (simp add: ex_values)
  have s: "small_op (OpSettle True ''BTC'' ''USD'' (Decimal 0 5) unit_price unit_price)"
    by (simp add: ex_values scaleBig_num)
  have "no_debt (account_of l1)" "fr l1 a \<le> 10 ^ 36 \<and> lk l1 a \<le> 10 ^ 36" for a
    using acc by (auto simp: no_debt_def ex_fr account_of_def)
  from SettleFill_returns[OF this s] obtain l2 where
    l2: "SettleFill l1 True ''BTC'' ''USD'' (Decimal 0 5) unit_price unit_price = Some l2" by blast
  have "Lock ex_ledger (if True then ''USD'' else ''BTC'') (if True then Decimal 0 5 else Decimal 0 5) = Some (True, l1)"
    using l1 by simp
  from limit_order_lifecycle[OF this ex_mul l2 ex_solvent]
  have "lk l2 = lk ex_ledger \<and>
      fr l2 = (fr ex_ledger)(''USD'' := fr ex_ledger ''USD'' - prod 5 scaleBig, ''BTC'' := fr ex_ledger ''BTC'' + 5)"
    by (simp add: ex_values scaleBig_num)
  with l1 l2 show ?thesis by (simp add: ex_prod ex_fr)
qed

text \<open>A market buy never spends more than is free and never mints: it pays the least of the
  cost and the free balance, is credited at most the quantity and in proportion to what it paid,
  and a funded order is filled in full.\<close>

theorem market_buy_proportional:
  assumes "SettleFill l True base quote qty p r = Some l'" "toBig r \<le> 0" "base \<noteq> quote"
    and "no_debt (account_of l)" "0 \<le> toBig qty" "0 \<le> toBig p"
  shows "let cost = prod (toBig qty) (toBig p); paid = fr l quote - fr l' quote; got = fr l' base - fr l base
    in paid = min cost (fr l quote) \<and> 0 \<le> got \<and> got \<le> toBig qty \<and> got * cost \<le> toBig qty * paid \<and>
       (paid = cost \<longrightarrow> got = toBig qty) \<and> lk l' = lk l"
proof -
  let ?c = "prod (toBig qty) (toBig p)"
  have "0 \<le> ?c" "0 \<le> fr l quote" using assms(4-6) prod_nonneg by (simp_all add: no_debt_def)
  then have b: "0 \<le> min ?c (fr l quote)" "min ?c (fr l quote) \<le> ?c" by simp_all
  have "spec_bought (toBig qty) ?c ?c = toBig qty" by (simp add: spec_bought_def)
  then show ?thesis
    using SettleFill_refines[OF assms(1)] assms(2,3) spec_bought_bounds[OF assms(5) b]
    by (auto simp: account_of_def Let_def)
qed

theorem market_buy_proportional_witness:
  "\<exists>l'. SettleFill ex_ledger True ''BTC'' ''USD'' (Decimal 0 5) unit_price (Decimal 0 0) = Some l' \<and>
    fr l' ''BTC'' - 7 \<le> 5"
proof -
  have s: "small_op (OpSettle True ''BTC'' ''USD'' (Decimal 0 5) unit_price (Decimal 0 0))"
    by (simp add: ex_values scaleBig_num)
  have "fr ex_ledger a \<le> 10 ^ 36 \<and> lk ex_ledger a \<le> 10 ^ 36" for a by (simp add: ex_fr)
  from SettleFill_returns[OF ex_solvent this s] obtain l' where
    l': "SettleFill ex_ledger True ''BTC'' ''USD'' (Decimal 0 5) unit_price (Decimal 0 0) = Some l'" by blast
  from market_buy_proportional[OF this _ _ ex_solvent] l' show ?thesis
    by (simp add: ex_values scaleBig_num Let_def ex_fr)
qed

text \<open>A market buy so small that its cost truncates to zero is credited in full for nothing.\<close>

lemma market_buy_dust:
  "\<exists>l'. SettleFill [] True ''BTC'' ''USD'' (Decimal 0 1) (Decimal 0 1) (Decimal 0 0) = Some l' \<and>
    fr l' ''BTC'' = 1 \<and> fr l' ''USD'' = 0"
proof -
  let ?op = "OpSettle True ''BTC'' ''USD'' (Decimal 0 1) (Decimal 0 1) (Decimal 0 0)"
  have acc: "fr [] = (\<lambda>_. 0)" "lk [] = (\<lambda>_. 0)"
    by (auto simp: fun_eq_iff fr_def lk_def holding_at_def toBig_eq Zero_def)
  then have "no_debt (account_of [])" "fr [] a \<le> 10 ^ 36 \<and> lk [] a \<le> 10 ^ 36" "small_op ?op" for a
    by (simp_all add: no_debt_def account_of_def toBig_eq)
  from step_returns[OF this] obtain l' where "ledger_step ?op [] = Some l'" by blast
  with step_refines[OF this] show ?thesis
    by (auto simp: acc toBig_eq prod_def scaleBig_num sdiv_nonneg spec_bought_def account_of_def)
qed

text \<open>Fills that each truncate leave dust of the reservation locked: a lock of one raw unit for two
  raw units at half price, filled one by one, releases nothing.\<close>

lemma partial_fills_leave_dust:
  "(let half = 500000000000000000; s0 = spec_lock ((\<lambda>_. 0)(''USD'' := 1), \<lambda>_. 0) ''USD'' (prod 2 half);
        s1 = spec_settle s0 True ''BTC'' ''USD'' 1 half half; s2 = spec_settle s1 True ''BTC'' ''USD'' 1 half half
    in snd s2 ''USD'' = 1 \<and> fst s2 ''BTC'' = 2)"
  by (simp add: Let_def prod_def scaleBig_num sdiv_nonneg)

text \<open>A snapshot lists every tracked asset once, in increasing order, with the balances
  that \<^verbatim>\<open>Get\<close> reports for it.\<close>

theorem ledger_snapshot_exact:
  assumes "distinct (map fst l)"
  shows "sorted (map bl_Asset (ledger_Snapshot l)) \<and> distinct (map bl_Asset (ledger_Snapshot l)) \<and>
    set (ledger_Snapshot l) = {fst (Get l a) | a. a \<in> fst ` set l}"
proof -
  let ?bal = "\<lambda>(asset, h). \<lparr>bl_Asset = asset, bl_Free = h_free h, bl_Locked = h_locked h\<rparr>"
  have names: "map bl_Asset (map ?bal l) = map fst l" by (simp add: case_prod_beta comp_def)
  have "mset (map bl_Asset (ledger_Snapshot l)) = mset (map fst l)"
    unfolding names[symmetric] mset_map ledger_Snapshot_def by simp
  then have "distinct (map bl_Asset (ledger_Snapshot l))" using assms mset_eq_imp_distinct_iff by blast
  moreover have "?bal ` set l = {fst (Get l a) | a. a \<in> fst ` set l}"
  proof -
    have "?bal x = fst (Get l (fst x))" if "x \<in> set l" for x
    proof -
      obtain a h where x: "x = (a, h)" by fastforce
      then have "holding_at l a = h" using that assms by (simp add: holding_at_def)
      then show ?thesis by (simp add: x Get_def Let_def)
    qed
    then show ?thesis by force
  qed
  ultimately show ?thesis using by_asset.sorted_slice by (simp add: ledger_Snapshot_def)
qed

theorem ledger_snapshot_exact_witness:
  "sorted (map bl_Asset (ledger_Snapshot ex_ledger))"
proof -
  have "distinct (map fst ex_ledger)" by (simp add: ex_ledger_def)
  from ledger_snapshot_exact[OF this] show ?thesis by simp
qed

end
