(* ===== verification/Reference.thy ===== *)
theory Reference
  imports DecimalText
begin

text \<open>
  \<^verbatim>\<open>internal/reference\<close>: the reference order book rebuilt from a venue's market data
  (\<^verbatim>\<open>book.go\<close>, \<^verbatim>\<open>read.go\<close>) and the set of books keyed by instrument (\<^verbatim>\<open>set.go\<close>), with the
  frame types of \<^verbatim>\<open>internal/feed/types.go\<close> they consume. A read returns the book too: it
  may rebuild the cached sorted view. A time is a number of nanoseconds, zero for the zero
  time; the conversion of a non-finite number panics.
\<close>

subsection \<open>Frames\<close>

record lob_level =
  ll_Price :: float64
  ll_Quantity :: float64
  ll_OrderCount :: "32 word"
  ll_PriceDecimal :: string
  ll_QuantityDecimal :: string

record lob_snapshot =
  ls_Instrument :: string
  ls_Exchange :: string
  ls_Timestamp :: go_time
  ls_SequenceNumber :: u64
  ls_Snapshot :: bool
  ls_Bids :: "lob_level list"
  ls_Asks :: "lob_level list"

text \<open>The kinds of an event; only \<^verbatim>\<open>Event.Book\<close> matters to the reference layer.\<close>

datatype event_kind = KindTrade | KindBook | KindTicker | KindUnknown nat

record event =
  ev_Kind :: event_kind
  ev_Book :: "lob_snapshot option"

subsection \<open>The book\<close>

record rlevel =
  rl_Price :: decimal
  rl_Quantity :: decimal
  rl_OrderCount :: "32 word"

type_synonym levels = "(decimal, rlevel) gomap"

record ref_book =
  rb_instrument :: string
  rb_exchange :: string
  rb_bids :: levels
  rb_asks :: levels
  rb_initialized :: bool
  rb_lastSeq :: u64
  rb_anomalies :: u64
  rb_crossings :: u64
  rb_lastUpdate :: go_time
  rb_dirty :: bool
  rb_crossed :: bool
  rb_sortedBids :: "rlevel list"
  rb_sortedAsks :: "rlevel list"

definition NewBook :: "string \<Rightarrow> string \<Rightarrow> ref_book" where
  "NewBook instrument exchange =
     \<lparr>rb_instrument = instrument, rb_exchange = exchange, rb_bids = [], rb_asks = [],
      rb_initialized = False, rb_lastSeq = 0, rb_anomalies = 0, rb_crossings = 0, rb_lastUpdate = 0,
      rb_dirty = False, rb_crossed = False, rb_sortedBids = [], rb_sortedAsks = []\<rparr>"

text \<open>One of the two halves of \<^verbatim>\<open>toLevel\<close>: the decimal text when it parses, else the float.\<close>

definition exact_or_float :: "string \<Rightarrow> float64 \<Rightarrow> decimal option" where
  "exact_or_float txt f =
     (if txt \<noteq> [] then (case Parse txt of Inr d \<Rightarrow> Some d | Inl e \<Rightarrow> FromFloat f) else FromFloat f)"

definition toLevel :: "lob_level \<Rightarrow> rlevel option" where
  "toLevel l = do {
     price \<leftarrow> exact_or_float (ll_PriceDecimal l) (ll_Price l);
     qty \<leftarrow> exact_or_float (ll_QuantityDecimal l) (ll_Quantity l);
     Some \<lparr>rl_Price = price, rl_Quantity = qty, rl_OrderCount = ll_OrderCount l\<rparr>
   }"

text \<open>The loop that fills one side from a snapshot.\<close>

fun fillSide :: "levels \<Rightarrow> lob_level list \<Rightarrow> levels option" where
  "fillSide side [] = Some side"
| "fillSide side (l # ls) = do {
     lvl \<leftarrow> toLevel l;
     fillSide (if Sign (rl_Quantity lvl) > 0 then AList.update (rl_Price lvl) lvl side else side) ls
   }"

fun applySide :: "levels \<Rightarrow> lob_level list \<Rightarrow> levels option" where
  "applySide side [] = Some side"
| "applySide side (l # ls) = do {
     lvl \<leftarrow> toLevel l;
     applySide (if Sign (rl_Quantity lvl) = 0 then AList.delete (rl_Price lvl) side
                else AList.update (rl_Price lvl) lvl side) ls
   }"

definition stamp :: "ref_book \<Rightarrow> go_time \<Rightarrow> ref_book" where
  "stamp b ts = (if ts \<noteq> 0 then b\<lparr>rb_lastUpdate := ts\<rparr> else b)"

definition book_Apply :: "ref_book \<Rightarrow> lob_snapshot option \<Rightarrow> (bool \<times> ref_book) option" where
  "book_Apply b s =
     (case s of None \<Rightarrow> Some (False, b)
      | Some s \<Rightarrow>
        if ls_Snapshot s then do {
          bids \<leftarrow> fillSide [] (ls_Bids s);
          asks \<leftarrow> fillSide [] (ls_Asks s);
          let b = b\<lparr>rb_bids := bids, rb_asks := asks, rb_initialized := True, rb_lastSeq := ls_SequenceNumber s\<rparr>;
          Some (True, (stamp b (ls_Timestamp s))\<lparr>rb_dirty := True\<rparr>)
        }
        else if \<not> rb_initialized b then Some (False, b\<lparr>rb_anomalies := rb_anomalies b + 1\<rparr>)
        else do {
          let b = (if ls_SequenceNumber s > 0 then b\<lparr>rb_lastSeq := ls_SequenceNumber s\<rparr> else b);
          bids \<leftarrow> applySide (rb_bids b) (ls_Bids s);
          asks \<leftarrow> applySide (rb_asks b) (ls_Asks s);
          Some (True, (stamp (b\<lparr>rb_bids := bids, rb_asks := asks\<rparr>) (ls_Timestamp s))\<lparr>rb_dirty := True\<rparr>)
        })"

definition level_before :: "bool \<Rightarrow> rlevel \<Rightarrow> rlevel \<Rightarrow> bool" where
  "level_before desc x y \<longleftrightarrow>
     (if desc then Cmp (rl_Price x) (rl_Price y) > 0 else Cmp (rl_Price x) (rl_Price y) < 0)"

definition sortedLevels :: "levels \<Rightarrow> bool \<Rightarrow> rlevel list" where
  "sortedLevels m desc = slice_stable (level_before desc) (map snd m)"

definition rebuild :: "ref_book \<Rightarrow> ref_book" where
  "rebuild b =
     (if \<not> rb_dirty b then b
      else let bids = sortedLevels (rb_bids b) True;
               asks = sortedLevels (rb_asks b) False;
               crossed = (bids \<noteq> [] \<and> asks \<noteq> [] \<and> Gte (rl_Price (hd bids)) (rl_Price (hd asks)))
           in b\<lparr>rb_sortedBids := bids, rb_sortedAsks := asks, rb_crossed := crossed,
                rb_crossings := rb_crossings b + (if crossed then 1 else 0), rb_dirty := False\<rparr>)"

subsection \<open>Reads\<close>

definition Initialized :: "ref_book \<Rightarrow> bool" where
  "Initialized b = rb_initialized b"

definition Anomalies :: "ref_book \<Rightarrow> u64" where
  "Anomalies b = rb_anomalies b"

definition LastUpdate :: "ref_book \<Rightarrow> go_time" where
  "LastUpdate b = rb_lastUpdate b"

definition Crossed :: "ref_book \<Rightarrow> bool \<times> ref_book" where
  "Crossed b = (let b = rebuild b in (rb_crossed b, b))"

definition Crossings :: "ref_book \<Rightarrow> u64 \<times> ref_book" where
  "Crossings b = (let b = rebuild b in (rb_crossings b, b))"

text \<open>\<^verbatim>\<open>time.Time.Sub\<close> saturates at the range of a \<^verbatim>\<open>Duration\<close>.\<close>

definition time_Sub :: "go_time \<Rightarrow> go_time \<Rightarrow> int" where
  "time_Sub t u = max (- (2 ^ 63)) (min (2 ^ 63 - 1) (t - u))"

definition Stale :: "ref_book \<Rightarrow> go_time \<Rightarrow> int \<Rightarrow> bool" where
  "Stale b now maxAge =
     (if \<not> rb_initialized b then True
      else if maxAge \<le> 0 then False
      else time_Sub now (rb_lastUpdate b) > maxAge)"

definition BestBid :: "ref_book \<Rightarrow> rlevel option \<times> ref_book" where
  "BestBid b = (let b = rebuild b in (case rb_sortedBids b of [] \<Rightarrow> None | l # _ \<Rightarrow> Some l, b))"

definition BestAsk :: "ref_book \<Rightarrow> rlevel option \<times> ref_book" where
  "BestAsk b = (let b = rebuild b in (case rb_sortedAsks b of [] \<Rightarrow> None | l # _ \<Rightarrow> Some l, b))"

definition BestBidAsk :: "ref_book \<Rightarrow> (rlevel \<times> rlevel) option \<times> ref_book" where
  "BestBidAsk b =
     (let b = rebuild b
      in (if rb_sortedBids b = [] \<or> rb_sortedAsks b = [] then None
          else Some (hd (rb_sortedBids b), hd (rb_sortedAsks b)), b))"

text \<open>The first component is the answer of \<^verbatim>\<open>Mid\<close> and \<^verbatim>\<open>Spread\<close>: \<open>None\<close> is \<^verbatim>\<open>ok = false\<close>; the
  whole is \<open>None\<close> when the arithmetic panics.\<close>

definition Mid :: "ref_book \<Rightarrow> (decimal option \<times> ref_book) option" where
  "Mid b =
     (case BestBidAsk b of
        (None, b) \<Rightarrow> Some (None, b)
      | (Some (bid, ask), b) \<Rightarrow> do {
          s \<leftarrow> Add (rl_Price bid) (rl_Price ask);
          two \<leftarrow> FromInt 2;
          m \<leftarrow> Div s two;
          Some (Some m, b)
        })"

definition Spread :: "ref_book \<Rightarrow> (decimal option \<times> ref_book) option" where
  "Spread b =
     (case BestBidAsk b of
        (None, b) \<Rightarrow> Some (None, b)
      | (Some (bid, ask), b) \<Rightarrow> do { d \<leftarrow> Sub (rl_Price ask) (rl_Price bid); Some (Some d, b) })"

definition clip :: "rlevel list \<Rightarrow> int \<Rightarrow> rlevel list" where
  "clip s n = (let n = (if n \<le> 0 \<or> n > int (length s) then int (length s) else n) in take (nat n) s)"

definition Depth :: "ref_book \<Rightarrow> int \<Rightarrow> (rlevel list \<times> rlevel list) \<times> ref_book" where
  "Depth b n = (let b = rebuild b in ((clip (rb_sortedBids b) n, clip (rb_sortedAsks b) n), b))"

record ref_snapshot =
  rs_Instrument :: string
  rs_Exchange :: string
  rs_Timestamp :: go_time
  rs_SequenceNumber :: u64
  rs_Bids :: "rlevel list"
  rs_Asks :: "rlevel list"

definition book_Snapshot :: "ref_book \<Rightarrow> ref_snapshot \<times> ref_book" where
  "book_Snapshot b =
     (let b = rebuild b
      in (\<lparr>rs_Instrument = rb_instrument b, rs_Exchange = rb_exchange b, rs_Timestamp = rb_lastUpdate b,
           rs_SequenceNumber = rb_lastSeq b, rs_Bids = clip (rb_sortedBids b) 0,
           rs_Asks = clip (rb_sortedAsks b) 0\<rparr>, b))"

subsection \<open>The set of books\<close>

type_synonym book_set = "(string, ref_book) gomap"

definition set_Get :: "book_set \<Rightarrow> string \<Rightarrow> ref_book option" where
  "set_Get s instrument = map_of s instrument"

definition book :: "book_set \<Rightarrow> string \<Rightarrow> string \<Rightarrow> ref_book \<times> book_set" where
  "book s instrument exchange =
     (case map_of s instrument of
        Some b \<Rightarrow> (b, s)
      | None \<Rightarrow> let b = NewBook instrument exchange in (b, AList.update instrument b s))"

definition Instruments :: "book_set \<Rightarrow> string list" where
  "Instruments s = slice_stable (<) (map fst s)"

definition set_Apply :: "book_set \<Rightarrow> event \<Rightarrow> book_set option" where
  "set_Apply s ev =
     (case ev_Book ev of
        None \<Rightarrow> Some s
      | Some f \<Rightarrow>
          if ev_Kind ev \<noteq> KindBook \<or> ls_Instrument f = [] then Some s
          else let (b, s) = book s (ls_Instrument f) (ls_Exchange f)
               in do { (_, b) \<leftarrow> book_Apply b (Some f); Some (AList.update (ls_Instrument f) b s) })"

text \<open>The loop of \<^verbatim>\<open>Consume\<close> over what its \<^verbatim>\<open>select\<close> chooses in turn.\<close>

datatype choice = CtxDone | ChannelClosed | Received event

fun Consume :: "book_set \<Rightarrow> choice list \<Rightarrow> book_set option" where
  "Consume s [] = Some s"
| "Consume s (c # cs) =
     (case c of CtxDone \<Rightarrow> Some s | ChannelClosed \<Rightarrow> Some s
      | Received ev \<Rightarrow> do { s \<leftarrow> set_Apply s ev; Consume s cs })"

end
