(* ===== verification/ReferenceProofs.thy ===== *)
theory ReferenceProofs
  imports Reference
begin

text \<open>
  The reference book is its feed: a price has the last level quoted for it since the
  snapshot, reads see exactly these levels in price order, and the set routes each frame to
  the book of its instrument.
\<close>

subsection \<open>One side\<close>

definition quote_of :: "lob_level \<Rightarrow> rlevel" where
  "quote_of l = the (toLevel l)"

text \<open>The last quote of a price in a sequence of quotes.\<close>

definition last_quote :: "rlevel list \<Rightarrow> decimal \<Rightarrow> rlevel option" where
  "last_quote ls p = find (\<lambda>l. rl_Price l = p) (rev ls)"

lemma last_quote_Nil [simp]: "last_quote [] p = None"
  by (simp add: last_quote_def)

lemma find_append: "find P (xs @ ys) = (case find P xs of None \<Rightarrow> find P ys | Some x \<Rightarrow> Some x)"
  by (induction xs) simp_all

lemma last_quote_append: "last_quote (xs @ ys) p = (case last_quote ys p of None \<Rightarrow> last_quote xs p | Some l \<Rightarrow> Some l)"
  by (simp add: last_quote_def find_append split: option.split)

lemma last_quote_Cons:
  "last_quote (l # ls) p = (case last_quote ls p of None \<Rightarrow> if rl_Price l = p then Some l else None | Some x \<Rightarrow> Some x)"
  by (simp add: last_quote_def find_append split: option.split)

lemma last_quote_price: "last_quote ls p = Some l \<Longrightarrow> l \<in> set ls \<and> rl_Price l = p"
  by (metis (mono_tags, lifting) find_Some_iff last_quote_def nth_mem set_rev)

text \<open>What a diff makes of the level at a price: a zero quantity removes it.\<close>

definition after_quote :: "rlevel option \<Rightarrow> rlevel option \<Rightarrow> rlevel option" where
  "after_quote old q = (case q of None \<Rightarrow> old | Some l \<Rightarrow> if toBig (rl_Quantity l) = 0 then None else Some l)"

lemma Sign_zero: "Sign d = 0 \<longleftrightarrow> toBig d = 0" and Sign_pos: "Sign d > 0 \<longleftrightarrow> 0 < toBig d"
  by (simp_all add: Sign_spec sgn_if)

lemma applySide_levels: "applySide m ls = Some m' \<Longrightarrow>
    map_of m' p = after_quote (map_of m p) (last_quote (map quote_of ls) p)"
proof (induction m ls rule: applySide.induct)
  case (1 m)
  then show ?case by (simp add: after_quote_def)
next
  case (2 m l ls)
  then obtain lvl where lvl: "toLevel l = Some lvl" by (auto simp: bind_eq_Some_conv)
  with 2 show ?case
    by (auto simp: last_quote_Cons quote_of_def after_quote_def Sign_zero map_of_update_eq map_of_delete_eq
        split: option.splits if_splits)
qed

lemma fillSide_levels: "fillSide m ls = Some m' \<Longrightarrow>
    map_of m' p = (case last_quote (filter (\<lambda>l. 0 < toBig (rl_Quantity l)) (map quote_of ls)) p of
      None \<Rightarrow> map_of m p | Some l \<Rightarrow> Some l)"
proof (induction m ls rule: fillSide.induct)
  case (1 m)
  then show ?case by simp
next
  case (2 m l ls)
  then obtain lvl where lvl: "toLevel l = Some lvl" by (auto simp: bind_eq_Some_conv)
  with 2 show ?case
    by (auto simp: last_quote_Cons quote_of_def Sign_pos map_of_update_eq split: option.splits if_splits)
qed

definition wf_levels :: "levels \<Rightarrow> bool" where
  "wf_levels m \<longleftrightarrow> distinct (map fst m) \<and> (\<forall>(p, l)\<in>set m. rl_Price l = p)"

lemma wf_levels_Nil [simp]: "wf_levels []"
  by (simp add: wf_levels_def)

lemma wf_levels_iff: "wf_levels m \<longleftrightarrow> distinct (map fst m) \<and> (\<forall>p l. map_of m p = Some l \<longrightarrow> rl_Price l = p)"
  by (auto simp: wf_levels_def dest: map_of_SomeD)

lemma wf_levels_update: "wf_levels m \<Longrightarrow> wf_levels (AList.update (rl_Price l) l m)"
  by (auto simp: wf_levels_iff distinct_update map_of_update_eq)

lemma wf_levels_delete: "wf_levels m \<Longrightarrow> wf_levels (AList.delete p m)"
  by (auto simp: wf_levels_iff distinct_delete map_of_delete_eq split: if_splits)

lemma wf_fillSide: "fillSide m ls = Some m' \<Longrightarrow> wf_levels m \<Longrightarrow> wf_levels m'"
  by (induction m ls rule: fillSide.induct) (auto simp: bind_eq_Some_conv wf_levels_update split: if_splits)

lemma wf_applySide: "applySide m ls = Some m' \<Longrightarrow> wf_levels m \<Longrightarrow> wf_levels m'"
  by (induction m ls rule: applySide.induct)
    (auto simp: bind_eq_Some_conv wf_levels_update wf_levels_delete split: if_splits)

subsection \<open>The sorted view\<close>

interpretation level_desc: comparator "level_before True" "\<lambda>l. - toBig (rl_Price l)"
  by unfold_locales (simp add: level_before_def less_toBig)

interpretation level_asc: comparator "level_before False" "\<lambda>l. toBig (rl_Price l)"
  by unfold_locales (simp add: level_before_def less_toBig)

lemma set_sortedLevels [simp]: "set (sortedLevels m desc) = snd ` set m"
  by (simp add: sortedLevels_def)

lemma sortedLevels_empty [simp]: "sortedLevels m desc = [] \<longleftrightarrow> m = []"
  by (metis set_sortedLevels image_is_empty set_empty)

lemma distinct_sortedLevels:
  assumes "wf_levels m"
  shows "distinct (map rl_Price (sortedLevels m desc))"
proof -
  have "map rl_Price (map snd m) = map fst m" using assms by (auto simp: wf_levels_def)
  then have "mset (map rl_Price (sortedLevels m desc)) = mset (map fst m)"
    by (metis mset_map mset_slice_stable sortedLevels_def)
  then show ?thesis using assms mset_eq_imp_distinct_iff unfolding wf_levels_def by blast
qed

definition in_order :: "bool \<Rightarrow> rlevel list \<Rightarrow> bool" where
  "in_order desc ls \<longleftrightarrow>
     sorted_wrt (\<lambda>x y. if desc then rl_Price y < rl_Price x else rl_Price x < rl_Price y) ls"

lemma sorted_wrt_strict:
  "sorted_wrt (\<lambda>x y. f x \<le> f y) xs \<Longrightarrow> distinct (map f xs) \<Longrightarrow> sorted_wrt (\<lambda>x y. f x < f y) xs"
  for f :: "'a \<Rightarrow> 'b::linorder"
  by (induction xs) (auto simp: less_le)

lemma sorted_wrt_strict_desc:
  "sorted_wrt (\<lambda>x y. f y \<le> f x) xs \<Longrightarrow> distinct (map f xs) \<Longrightarrow> sorted_wrt (\<lambda>x y. f y < f x) xs"
  for f :: "'a \<Rightarrow> 'b::linorder"
  by (induction xs) (auto simp: less_le, metis image_eqI)

lemma sortedLevels_in_order:
  assumes "wf_levels m"
  shows "in_order desc (sortedLevels m desc)"
proof (cases desc)
  case True
  have "sorted_wrt (\<lambda>x y. rl_Price y \<le> rl_Price x) (sortedLevels m True)"
    using level_desc.sorted_slice by (simp add: sortedLevels_def sorted_wrt_map le_toBig)
  with True show ?thesis
    using sorted_wrt_strict_desc distinct_sortedLevels[OF assms] by (auto simp: in_order_def)
next
  case False
  have "sorted_wrt (\<lambda>x y. rl_Price x \<le> rl_Price y) (sortedLevels m False)"
    using level_asc.sorted_slice by (simp add: sortedLevels_def sorted_wrt_map le_toBig)
  with False show ?thesis
    using sorted_wrt_strict distinct_sortedLevels[OF assms] by (auto simp: in_order_def)
qed


subsection \<open>The book\<close>

definition touch_crossed :: "rlevel list \<Rightarrow> rlevel list \<Rightarrow> bool" where
  "touch_crossed bids asks \<longleftrightarrow> bids \<noteq> [] \<and> asks \<noteq> [] \<and> rl_Price (hd asks) \<le> rl_Price (hd bids)"

text \<open>The cache is coherent: unless it is marked dirty it is the sorted view of the levels.\<close>

definition coherent :: "ref_book \<Rightarrow> bool" where
  "coherent b \<longleftrightarrow> wf_levels (rb_bids b) \<and> wf_levels (rb_asks b) \<and>
     (\<not> rb_dirty b \<longrightarrow> rb_sortedBids b = sortedLevels (rb_bids b) True \<and>
       rb_sortedAsks b = sortedLevels (rb_asks b) False \<and> rb_crossed b = touch_crossed (rb_sortedBids b) (rb_sortedAsks b))"

lemma coherent_new: "coherent (NewBook i e)"
  by (simp add: coherent_def NewBook_def sortedLevels_def touch_crossed_def)

lemma rebuild_levels [simp]: "rb_bids (rebuild b) = rb_bids b" "rb_asks (rebuild b) = rb_asks b"
  "rb_initialized (rebuild b) = rb_initialized b" "rb_instrument (rebuild b) = rb_instrument b"
  "\<not> rb_dirty (rebuild b)"
  by (simp_all add: rebuild_def Let_def)

lemma rebuild_view:
  assumes "coherent b"
  shows "rb_sortedBids (rebuild b) = sortedLevels (rb_bids b) True"
    "rb_sortedAsks (rebuild b) = sortedLevels (rb_asks b) False"
    "rb_crossed (rebuild b) = touch_crossed (sortedLevels (rb_bids b) True) (sortedLevels (rb_asks b) False)"
  using assms by (auto simp: rebuild_def Let_def coherent_def touch_crossed_def)

lemma coherent_rebuild: "coherent b \<Longrightarrow> coherent (rebuild b)"
  using rebuild_view[of b] by (auto simp: coherent_def)

lemma stamp_simps [simp]: "rb_bids (stamp b ts) = rb_bids b" "rb_asks (stamp b ts) = rb_asks b"
  "rb_initialized (stamp b ts) = rb_initialized b"
  by (simp_all add: stamp_def)

text \<open>The three ways a frame is taken: a snapshot, a diff without a base, a diff.\<close>

lemma Apply_cases:
  assumes "book_Apply b (Some f) = Some (ok, b')"
  obtains (snapshot) "ls_Snapshot f" "ok" "fillSide [] (ls_Bids f) = Some (rb_bids b')"
      "fillSide [] (ls_Asks f) = Some (rb_asks b')" "rb_initialized b'" "rb_dirty b'"
  | (early) "\<not> ls_Snapshot f" "\<not> rb_initialized b" "\<not> ok" "b' = b\<lparr>rb_anomalies := rb_anomalies b + 1\<rparr>"
  | (diff) "\<not> ls_Snapshot f" "rb_initialized b" "ok" "applySide (rb_bids b) (ls_Bids f) = Some (rb_bids b')"
      "applySide (rb_asks b) (ls_Asks f) = Some (rb_asks b')" "rb_initialized b'" "rb_dirty b'"
proof (cases "ls_Snapshot f")
  case True
  with assms obtain B A where "fillSide [] (ls_Bids f) = Some B" "fillSide [] (ls_Asks f) = Some A" "ok"
    "b' = (stamp (b\<lparr>rb_bids := B, rb_asks := A, rb_initialized := True, rb_lastSeq := ls_SequenceNumber f\<rparr>)
      (ls_Timestamp f))\<lparr>rb_dirty := True\<rparr>"
    unfolding book_Apply_def Let_def by (fastforce simp: bind_eq_Some_conv)
  with True show ?thesis by (intro snapshot) simp_all
next
  case False
  show ?thesis
  proof (cases "rb_initialized b")
    case init: True
    let ?b = "if ls_SequenceNumber f > 0 then b\<lparr>rb_lastSeq := ls_SequenceNumber f\<rparr> else b"
    have "rb_bids ?b = rb_bids b" "rb_asks ?b = rb_asks b" "rb_initialized ?b" using init by simp_all
    moreover from this obtain B A where "applySide (rb_bids b) (ls_Bids f) = Some B"
      "applySide (rb_asks b) (ls_Asks f) = Some A" "ok"
      "b' = (stamp (?b\<lparr>rb_bids := B, rb_asks := A\<rparr>) (ls_Timestamp f))\<lparr>rb_dirty := True\<rparr>"
      using assms False init unfolding book_Apply_def Let_def
      by (simp add: bind_eq_Some_conv del: word_greater_zero_iff split del: if_split) metis
    ultimately show ?thesis using False init by (intro diff) simp_all
  next
    case noinit: False
    with False assms show ?thesis by (intro early) (auto simp: book_Apply_def)
  qed
qed

lemma coherent_Apply:
  assumes "coherent b" "book_Apply b f = Some (ok, b')"
  shows "coherent b'"
proof (cases f)
  case None
  with assms show ?thesis by (simp add: book_Apply_def)
next
  case (Some g)
  have wf: "wf_levels (rb_bids b)" "wf_levels (rb_asks b)" using assms(1) by (simp_all add: coherent_def)
  from assms(2)[unfolded Some] show ?thesis
  proof (cases rule: Apply_cases)
    case snapshot
    then show ?thesis using wf_fillSide[OF _ wf_levels_Nil] by (simp add: coherent_def)
  next
    case early
    then show ?thesis using assms(1) by (simp add: coherent_def)
  next
    case diff
    then show ?thesis using wf_applySide wf by (simp add: coherent_def)
  qed
qed

datatype ref_op = OpApply "lob_snapshot option" | OpRead

fun ref_step :: "ref_op \<Rightarrow> ref_book \<Rightarrow> ref_book option" where
  "ref_step (OpApply f) b = map_option snd (book_Apply b f)"
| "ref_step OpRead b = Some (rebuild b)"

interpretation ref: invariant_machine ref_step "\<lambda>_. True" coherent
proof
  fix s x s'
  assume "coherent s" "ref_step x s = Some s'"
  then show "coherent s'" by (cases x) (auto intro: coherent_rebuild coherent_Apply)
qed

text \<open>What frames without a snapshot do to an initialized book.\<close>

abbreviation bid_quotes :: "lob_snapshot list \<Rightarrow> rlevel list" where
  "bid_quotes fs \<equiv> concat (map (\<lambda>f. map quote_of (ls_Bids f)) fs)"

abbreviation ask_quotes :: "lob_snapshot list \<Rightarrow> rlevel list" where
  "ask_quotes fs \<equiv> concat (map (\<lambda>f. map quote_of (ls_Asks f)) fs)"

lemma after_quote_twice: "after_quote (after_quote old q) q' = after_quote old (case q' of None \<Rightarrow> q | Some l \<Rightarrow> Some l)"
  by (auto simp: after_quote_def split: option.split)

lemma diff_levels:
  assumes "ref_step (OpApply (Some f)) b = Some b'" "rb_initialized b" "\<not> ls_Snapshot f"
  shows "rb_initialized b' \<and> map_of (rb_bids b') p = after_quote (map_of (rb_bids b) p) (last_quote (map quote_of (ls_Bids f)) p) \<and>
    map_of (rb_asks b') p = after_quote (map_of (rb_asks b) p) (last_quote (map quote_of (ls_Asks f)) p)"
  using assms by (auto elim!: Apply_cases simp: applySide_levels)

lemma diffs_levels:
  "run_ops ref_step (map (\<lambda>f. OpApply (Some f)) fs) b = Some b' \<Longrightarrow> rb_initialized b \<Longrightarrow>
    list_all (\<lambda>f. \<not> ls_Snapshot f) fs \<Longrightarrow>
    map_of (rb_bids b') p = after_quote (map_of (rb_bids b) p) (last_quote (bid_quotes fs) p) \<and>
    map_of (rb_asks b') p = after_quote (map_of (rb_asks b) p) (last_quote (ask_quotes fs) p)"
proof (induction fs arbitrary: b)
  case Nil
  then show ?case by (simp add: after_quote_def)
next
  case (Cons f fs)
  then obtain b1 where b1: "ref_step (OpApply (Some f)) b = Some b1"
    and run: "run_ops ref_step (map (\<lambda>f. OpApply (Some f)) fs) b1 = Some b'"
    by (auto simp: bind_eq_Some_conv)
  from diff_levels[OF b1 Cons.prems(2), of p] Cons.IH[OF run] Cons.prems(3) show ?case
    by (simp add: after_quote_twice last_quote_append)
qed

definition positive_quotes :: "rlevel list \<Rightarrow> rlevel list" where
  "positive_quotes = filter (\<lambda>l. 0 < toBig (rl_Quantity l))"

lemma snapshot_levels:
  assumes "ref_step (OpApply (Some f)) b = Some b'" "ls_Snapshot f"
  shows "rb_initialized b' \<and> map_of (rb_bids b') p = last_quote (positive_quotes (map quote_of (ls_Bids f))) p \<and>
    map_of (rb_asks b') p = last_quote (positive_quotes (map quote_of (ls_Asks f))) p"
  using assms by (auto elim!: Apply_cases simp: fillSide_levels positive_quotes_def split: option.split)


subsection \<open>The set\<close>

text \<open>The frames of an instrument among the events of a feed.\<close>

fun frames_of :: "string \<Rightarrow> event list \<Rightarrow> lob_snapshot list" where
  "frames_of i [] = []"
| "frames_of i (ev # evs) =
     (case ev_Book ev of
        Some f \<Rightarrow> if ev_Kind ev = KindBook \<and> ls_Instrument f = i \<and> i \<noteq> [] then f # frames_of i evs else frames_of i evs
      | None \<Rightarrow> frames_of i evs)"

lemma set_Apply_other:
  assumes "set_Apply s ev = Some s'" "frames_of i [ev] = []"
  shows "map_of s' i = map_of s i"
  using assms by (auto simp: set_Apply_def book_def Let_def bind_eq_Some_conv map_of_update_eq
      split: option.splits if_splits)

lemma set_Apply_frame:
  assumes "set_Apply s ev = Some s'" "frames_of i [ev] = [f]"
  shows "\<exists>b'. map_of s' i = Some b' \<and>
    ref_step (OpApply (Some f)) (case map_of s i of Some b \<Rightarrow> b | None \<Rightarrow> NewBook i (ls_Exchange f)) = Some b'"
  using assms by (auto simp: set_Apply_def book_def Let_def bind_eq_Some_conv map_of_update_eq
      split: option.splits if_splits)

lemma Consume_frames:
  "Consume s (map Received evs) = Some s' \<Longrightarrow> map_of s i = Some b \<Longrightarrow>
    \<exists>b'. map_of s' i = Some b' \<and> run_ops ref_step (map (\<lambda>f. OpApply (Some f)) (frames_of i evs)) b = Some b'"
proof (induction evs arbitrary: s b)
  case Nil
  then show ?case by simp
next
  case (Cons ev evs)
  then obtain s1 where s1: "set_Apply s ev = Some s1" "Consume s1 (map Received evs) = Some s'"
    by (auto simp: bind_eq_Some_conv)
  show ?case
  proof (cases "frames_of i [ev]")
    case Nil
    with set_Apply_other[OF s1(1) Nil] Cons.prems(2) Cons.IH[OF s1(2)] show ?thesis
      by (auto split: option.splits if_splits)
  next
    case (Cons f fs)
    then have f: "frames_of i [ev] = [f]" "frames_of i (ev # evs) = f # frames_of i evs"
      by (auto split: option.splits if_splits)
    from set_Apply_frame[OF s1(1) f(1)] Cons.prems(2) obtain b1 where
      "map_of s1 i = Some b1" "ref_step (OpApply (Some f)) b = Some b1" by auto
    with Cons.IH[OF s1(2)] f(2) show ?thesis by auto
  qed
qed

subsection \<open>A concrete feed\<close>

definition ex_level :: "string \<Rightarrow> string \<Rightarrow> lob_level" where
  "ex_level p q = \<lparr>ll_Price = Finite 0 0, ll_Quantity = Finite 0 0, ll_OrderCount = 0, ll_PriceDecimal = p,
     ll_QuantityDecimal = q\<rparr>"

definition ex_frame :: "bool \<Rightarrow> u64 \<Rightarrow> lob_level list \<Rightarrow> lob_level list \<Rightarrow> lob_snapshot" where
  "ex_frame snap n bids asks = \<lparr>ls_Instrument = ''BTC'', ls_Exchange = ''X'', ls_Timestamp = 1,
     ls_SequenceNumber = n, ls_Snapshot = snap, ls_Bids = bids, ls_Asks = asks\<rparr>"

definition ex_two :: decimal where
  "ex_two = Decimal 0 2000000000000000000"

definition ex_three :: decimal where
  "ex_three = Decimal 0 3000000000000000000"

lemma ex_parse: "Parse ''2'' = Inr ex_two" "Parse ''3'' = Inr ex_three" "Parse ''0'' = Inr Zero"
  "Parse ''-2'' = Inr (Decimal (- 1) (- 2000000000000000000))"
  by (simp_all add: Parse_def parse_magnitude_def isDigit_def digit_value_def parse_fraction_def fromBigChecked_def
      scaleBig_num maxPos_num minNeg_num ex_two_def ex_three_def Zero_def)

lemma ex_toBig: "toBig ex_two = 2000000000000000000" "toBig ex_three = 3000000000000000000"
  "ex_two < ex_three" "toBig (Decimal (- 1) (- 2000000000000000000)) = - 2000000000000000000"
  "ex_two \<noteq> ex_three"
  by (simp_all add: ex_two_def ex_three_def toBig_eq less_toBig)

lemmas ex_quotes = toLevel_def exact_or_float_def ex_level_def ex_parse

definition ex_snap :: lob_snapshot where
  "ex_snap = ex_frame True 9 [ex_level ''2'' ''3''] [ex_level ''3'' ''2'']"

definition ex_diff :: lob_snapshot where
  "ex_diff = ex_frame False 4 [ex_level ''2'' ''0'', ex_level ''2'' ''2''] [ex_level ''3'' ''0'']"

lemmas ex_frames = ex_snap_def ex_diff_def ex_frame_def

lemma ex_sign: "Sign ex_two = 1" "Sign ex_three = 1" "Sign Zero = 0" "Sign (Decimal (- 1) (- 2000000000000000000)) = -1"
  by (simp_all add: Sign_def ex_two_def ex_three_def Zero_def)

lemma ex_apply: "\<exists>b. run_ops ref_step [OpApply (Some ex_snap), OpApply (Some ex_diff)] (NewBook ''BTC'' ''X'') = Some b"
  by (simp add: ex_frames book_Apply_def ex_quotes ex_sign stamp_def NewBook_def)

subsection \<open>Reads of a coherent book\<close>

lemma levels_range: "wf_levels m \<Longrightarrow> snd ` set m = ran (map_of m)"
  by (simp add: wf_levels_def ran_distinct)

lemma in_order_hd:
  "in_order True (x # xs) \<Longrightarrow> y \<in> set (x # xs) \<Longrightarrow> rl_Price y \<le> rl_Price x"
  "in_order False (x # xs) \<Longrightarrow> y \<in> set (x # xs) \<Longrightarrow> rl_Price x \<le> rl_Price y"
  by (auto simp: in_order_def)

lemma touch_crossed_any:
  assumes "in_order True bids" "in_order False asks"
  shows "touch_crossed bids asks \<longleftrightarrow> (\<exists>x\<in>set bids. \<exists>y\<in>set asks. rl_Price y \<le> rl_Price x)"
  using in_order_hd(1)[of "hd bids" "tl bids"] in_order_hd(2)[of "hd asks" "tl asks"] assms
  by (cases bids; cases asks) (auto simp: touch_crossed_def intro: order_trans, meson order_trans)

lemma clip_all [simp]: "clip ls 0 = ls"
  by (simp add: clip_def)

lemma Depth_view:
  assumes "coherent b"
  shows "Depth b n = ((clip (sortedLevels (rb_bids b) True) n, clip (sortedLevels (rb_asks b) False) n), rebuild b)"
  using rebuild_view[OF assms] by (simp add: Depth_def Let_def)

lemma BestBidAsk_view:
  assumes "coherent b" "BestBidAsk b = (Some (bid, ask), b')"
  shows "bid \<in> snd ` set (rb_bids b) \<and> ask \<in> snd ` set (rb_asks b) \<and>
    (\<forall>l\<in>snd ` set (rb_bids b). rl_Price l \<le> rl_Price bid) \<and> (\<forall>l\<in>snd ` set (rb_asks b). rl_Price ask \<le> rl_Price l)"
proof -
  let ?B = "sortedLevels (rb_bids b) True" and ?A = "sortedLevels (rb_asks b) False"
  have wf: "wf_levels (rb_bids b)" "wf_levels (rb_asks b)" using assms(1) by (simp_all add: coherent_def)
  have "?B \<noteq> []" "?A \<noteq> []" "bid = hd ?B" "ask = hd ?A"
    using assms(2) rebuild_view[OF assms(1)] by (auto simp: BestBidAsk_def Let_def split: if_splits)
  then obtain B A where "?B = bid # B" "?A = ask # A" by (metis list.collapse)
  moreover have "set ?B = snd ` set (rb_bids b)" "set ?A = snd ` set (rb_asks b)" by simp_all
  ultimately show ?thesis
    using in_order_hd sortedLevels_in_order[OF wf(1), of True] sortedLevels_in_order[OF wf(2), of False]
    by (metis list.set_intros(1))
qed

lemma sdiv_scaled: "0 < k \<Longrightarrow> x * k sdiv (m * k) = x sdiv m" for x k m :: int
  by (simp add: signed_divide_int_def abs_mult sgn_mult)

subsection \<open>Properties of the reference book\<close>

text \<open>C16: The book is its feed: after a snapshot and any sequence of diffs, the level at a price is the
  last one quoted for it by the diffs (none if that quantity is zero), or else the last one of
  positive quantity in the snapshot.\<close>

theorem reference_follows_feed:
  assumes "run_ops ref_step (map (\<lambda>f. OpApply (Some f)) (f # fs)) b = Some b'"
    and "ls_Snapshot f" "list_all (\<lambda>f. \<not> ls_Snapshot f) fs"
  shows "map_of (rb_bids b') p =
      after_quote (last_quote (positive_quotes (bid_quotes [f])) p) (last_quote (bid_quotes fs) p) \<and>
    map_of (rb_asks b') p =
      after_quote (last_quote (positive_quotes (ask_quotes [f])) p) (last_quote (ask_quotes fs) p)"
proof -
  from assms(1) obtain b1 where b1: "ref_step (OpApply (Some f)) b = Some b1"
    and run: "run_ops ref_step (map (\<lambda>f. OpApply (Some f)) fs) b1 = Some b'"
    by (auto simp: bind_eq_Some_conv)
  from snapshot_levels[OF b1 assms(2), of p] diffs_levels[OF run _ assms(3), of p] show ?thesis by simp
qed

theorem reference_follows_feed_witness:
  "\<exists>b'. run_ops ref_step (map (\<lambda>f. OpApply (Some f)) [ex_snap, ex_diff]) (NewBook ''BTC'' ''X'') = Some b' \<and>
    map_of (rb_bids b') ex_two = Some \<lparr>rl_Price = ex_two, rl_Quantity = ex_two, rl_OrderCount = 0\<rparr> \<and>
    map_of (rb_asks b') ex_three = None"
proof -
  obtain b' where b': "run_ops ref_step (map (\<lambda>f. OpApply (Some f)) [ex_snap, ex_diff]) (NewBook ''BTC'' ''X'') = Some b'"
    using ex_apply by auto
  have "ls_Snapshot ex_snap" "list_all (\<lambda>f. \<not> ls_Snapshot f) [ex_diff]" by (simp_all add: ex_frames)
  from reference_follows_feed[OF b' this, of ex_two] reference_follows_feed[OF b' this, of ex_three] b'
  show ?thesis
    by (simp add: ex_frames ex_quotes quote_of_def positive_quotes_def last_quote_def after_quote_def ex_toBig toBig_Zero)
qed

text \<open>Reads are exact whatever was applied and read before: a depth query lists, per side, the
  levels of the book once each from the best price on, a bounded one is its prefix, the best bid
  and ask are extreme, and the book is crossed exactly when some bid reaches some ask.\<close>

theorem reference_reads_exact:
  assumes "run_ops ref_step ops (NewBook i e) = Some b" "Depth b 0 = ((bids, asks), b0)"
  shows "in_order True bids \<and> in_order False asks \<and> set bids = ran (map_of (rb_bids b)) \<and>
    set asks = ran (map_of (rb_asks b)) \<and>
    (0 < n \<longrightarrow> fst (Depth b n) = (take (nat n) bids, take (nat n) asks)) \<and>
    fst (BestBid b) = (if bids = [] then None else Some (hd bids)) \<and>
    fst (BestAsk b) = (if asks = [] then None else Some (hd asks)) \<and>
    fst (Crossed b) = (\<exists>x\<in>set bids. \<exists>y\<in>set asks. rl_Price y \<le> rl_Price x)"
proof -
  have co: "coherent b" using ref.run_inv[OF coherent_new _ assms(1)] by (simp add: list_all_iff)
  then have wf: "wf_levels (rb_bids b)" "wf_levels (rb_asks b)" by (simp_all add: coherent_def)
  have view: "bids = sortedLevels (rb_bids b) True" "asks = sortedLevels (rb_asks b) False"
    using Depth_view[OF co, of 0] assms(2) by simp_all
  have ord: "in_order True bids" "in_order False asks" using view sortedLevels_in_order wf by simp_all
  have "set bids = ran (map_of (rb_bids b))" "set asks = ran (map_of (rb_asks b))"
    unfolding view using levels_range wf by simp_all
  moreover have "0 < n \<longrightarrow> fst (Depth b n) = (take (nat n) bids, take (nat n) asks)"
    using Depth_view[OF co, of n] by (simp add: view clip_def)
  moreover have "fst (BestBid b) = (if bids = [] then None else Some (hd bids))"
    "fst (BestAsk b) = (if asks = [] then None else Some (hd asks))"
    unfolding view by (simp_all add: BestBid_def BestAsk_def Let_def rebuild_view[OF co] del: sortedLevels_empty split: list.split)
  moreover have "fst (Crossed b) = (\<exists>x\<in>set bids. \<exists>y\<in>set asks. rl_Price y \<le> rl_Price x)"
    using touch_crossed_any[OF ord] by (simp only: Crossed_def Let_def rebuild_view(3)[OF co] fst_conv view)
  ultimately show ?thesis using ord by blast
qed

theorem reference_reads_exact_witness:
  "\<exists>b. run_ops ref_step [OpApply (Some ex_snap), OpApply (Some ex_diff)] (NewBook ''BTC'' ''X'') = Some b \<and>
    in_order True (fst (fst (Depth b 0)))"
proof -
  obtain b where b: "run_ops ref_step [OpApply (Some ex_snap), OpApply (Some ex_diff)] (NewBook ''BTC'' ''X'') = Some b"
    using ex_apply by blast
  obtain bids asks b0 where d: "Depth b 0 = ((bids, asks), b0)" by (metis prod.exhaust)
  from reference_reads_exact[OF b d] b d show ?thesis by simp
qed

text \<open>The mid price is half the sum of the best bid and the best ask, and lies between them unless
  the book is crossed.\<close>

theorem mid_between:
  assumes "coherent b" "Mid b = Some (Some m, b')"
  shows "\<exists>bid ask. bid \<in> ran (map_of (rb_bids b)) \<and> ask \<in> ran (map_of (rb_asks b)) \<and>
    toBig m = (toBig (rl_Price bid) + toBig (rl_Price ask)) sdiv 2 \<and>
    (rl_Price bid \<le> rl_Price ask \<longrightarrow> rl_Price bid \<le> m \<and> m \<le> rl_Price ask)"
proof -
  from assms(2) obtain bid ask s two where touch: "BestBidAsk b = (Some (bid, ask), b')"
    and s: "Add (rl_Price bid) (rl_Price ask) = Some s" and two: "FromInt 2 = Some two" and m: "Div s two = Some m"
    by (auto simp: Mid_def bind_eq_Some_conv split: prod.splits option.splits)
  have "toBig two = 2 * scaleBig" using two by (simp add: FromInt_def fromBigChecked_Some)
  then have "toBig m = (toBig (rl_Price bid) + toBig (rl_Price ask)) * scaleBig sdiv (2 * scaleBig)"
    using m dec.add_value[OF s] by (simp add: Div_Some)
  also have "\<dots> = (toBig (rl_Price bid) + toBig (rl_Price ask)) sdiv 2"
    by (rule sdiv_scaled) (simp add: scaleBig_num)
  finally have mid: "toBig m = (toBig (rl_Price bid) + toBig (rl_Price ask)) sdiv 2" .
  have "x \<le> (x + y) sdiv 2 \<and> (x + y) sdiv 2 \<le> y" if "x \<le> y" for x y :: int
    using that by (auto simp: signed_divide_int_def sgn_if abs_if)
  with mid have "rl_Price bid \<le> rl_Price ask \<longrightarrow> rl_Price bid \<le> m \<and> m \<le> rl_Price ask" by (simp add: le_toBig)
  moreover have "wf_levels (rb_bids b)" "wf_levels (rb_asks b)" using assms(1) by (simp_all add: coherent_def)
  ultimately show ?thesis
    using BestBidAsk_view[OF assms(1) touch] mid levels_range by blast
qed

definition ex_book2 :: ref_book where
  "ex_book2 = (NewBook ''BTC'' ''X'')\<lparr>rb_bids := [(ex_two, \<lparr>rl_Price = ex_two, rl_Quantity = ex_three, rl_OrderCount = 0\<rparr>)],
     rb_asks := [(ex_three, \<lparr>rl_Price = ex_three, rl_Quantity = ex_two, rl_OrderCount = 0\<rparr>)],
     rb_initialized := True, rb_lastSeq := 9, rb_lastUpdate := 1, rb_dirty := True\<rparr>"

lemma ex_book2_fed: "ref_step (OpApply (Some ex_snap)) (NewBook ''BTC'' ''X'') = Some ex_book2"
  by (simp add: ex_frames book_Apply_def ex_quotes ex_sign stamp_def NewBook_def ex_book2_def)

theorem mid_between_witness:
  "\<exists>m b'. Mid ex_book2 = Some (Some m, b') \<and> ex_two \<le> m \<and> m \<le> ex_three"
proof -
  have co: "coherent ex_book2" using ref.step_inv[OF coherent_new _ ex_book2_fed] by simp
  have "FromInt 2 = Some ex_two"
    by (simp add: FromInt_def fromBigChecked_def scaleBig_num maxPos_num minNeg_num ex_two_def)
  moreover have "Add ex_two ex_three = Some (Decimal 0 5000000000000000000)"
    by (simp add: Add_def Add64_def ex_two_def ex_three_def)
  moreover have "\<exists>m. Div (Decimal 0 5000000000000000000) ex_two = Some m"
    by (simp add: Div_spec ex_two_def fromBigChecked_def toBig_eq scaleBig_num maxPos_num minNeg_num signed_divide_int_def Let_def)
  ultimately obtain m b' where m: "Mid ex_book2 = Some (Some m, b')"
    by (auto simp: Mid_def BestBidAsk_def ex_book2_def rebuild_def sortedLevels_def Let_def)
  from mid_between[OF co this] m show ?thesis
    by (auto simp: ex_book2_def ran_def ex_toBig less_imp_le split: if_splits)
qed

text \<open>The set keeps its books apart: after any events, the book of an instrument is the one that
  the frames of that instrument alone make of a new book; an instrument without a frame has none.\<close>

theorem set_routes_feed:
  assumes "Consume [] (map Received evs) = Some s"
  shows "set_Get s i = (case frames_of i evs of
      [] \<Rightarrow> None
    | f # fs \<Rightarrow> run_ops ref_step (map (\<lambda>f. OpApply (Some f)) (f # fs)) (NewBook i (ls_Exchange f)))"
proof -
  have "map_of s i = (case frames_of i evs of
      [] \<Rightarrow> None
    | f # fs \<Rightarrow> run_ops ref_step (map (\<lambda>f. OpApply (Some f)) (f # fs)) (NewBook i (ls_Exchange f)))"
    if "Consume s0 (map Received evs) = Some s" "map_of s0 i = None" for s0
    using that
  proof (induction evs arbitrary: s0)
    case Nil
    then show ?case by simp
  next
    case (Cons ev evs)
    then obtain s1 where s1: "set_Apply s0 ev = Some s1" "Consume s1 (map Received evs) = Some s"
      by (auto simp: bind_eq_Some_conv)
    show ?case
    proof (cases "frames_of i [ev]")
      case Nil
      with set_Apply_other[OF s1(1) Nil] Cons.prems(2) Cons.IH[OF s1(2)] show ?thesis
        by (auto split: option.splits if_splits)
    next
      case (Cons f fs)
      then have f: "frames_of i [ev] = [f]" "frames_of i (ev # evs) = f # frames_of i evs"
        by (auto split: option.splits if_splits)
      from set_Apply_frame[OF s1(1) f(1)] Cons.prems(2) obtain b1 where
        b1: "map_of s1 i = Some b1" "ref_step (OpApply (Some f)) (NewBook i (ls_Exchange f)) = Some b1" by auto
      from Consume_frames[OF s1(2) b1(1)] b1(2) f(2) show ?thesis by auto
    qed
  qed
  with assms show ?thesis by (simp add: set_Get_def)
qed

theorem set_routes_feed_witness:
  "\<exists>s. Consume [] (map Received [\<lparr>ev_Kind = KindBook, ev_Book = Some ex_snap\<rparr>, \<lparr>ev_Kind = KindTrade, ev_Book = None\<rparr>]) =
      Some s \<and> set_Get s ''BTC'' = Some ex_book2"
proof -
  let ?evs = "[\<lparr>ev_Kind = KindBook, ev_Book = Some ex_snap\<rparr>, \<lparr>ev_Kind = KindTrade, ev_Book = None\<rparr>]"
  have "\<exists>s. Consume [] (map Received ?evs) = Some s"
    by (simp add: set_Apply_def book_def ex_frames book_Apply_def ex_quotes ex_sign stamp_def NewBook_def Let_def)
  then obtain s where s: "Consume [] (map Received ?evs) = Some s" by blast
  have "ls_Instrument ex_snap = ''BTC''" "ls_Exchange ex_snap = ''X''" by (simp_all add: ex_frames)
  with set_routes_feed[OF s, of "''BTC''"] s ex_book2_fed show ?thesis by (simp del: ref_step.simps)
qed

subsection \<open>What the comments say otherwise\<close>

text \<open>The comment of \<^verbatim>\<open>Apply\<close> says that a diff with a sequence number that is not increasing is dropped
  and counted as an anomaly; it is applied and not counted.\<close>

lemma old_sequence_is_applied:
  "\<exists>b. book_Apply ex_book2 (Some ex_diff) = Some (True, b) \<and> Anomalies b = 0 \<and> rb_lastSeq b = 4 \<and>
    ls_SequenceNumber ex_diff < rb_lastSeq ex_book2"
  by (simp add: ex_frames book_Apply_def ex_quotes ex_sign stamp_def ex_book2_def NewBook_def Anomalies_def)

text \<open>A diff may leave a level of negative quantity at the touch, which no snapshot can.\<close>

lemma negative_level_is_kept:
  "\<exists>b b' l. book_Apply ex_book2 (Some (ex_frame False 10 [ex_level ''2'' ''-2''] [])) = Some (True, b) \<and>
    BestBid b = (Some l, b') \<and> toBig (rl_Quantity l) < 0"
  by (simp add: ex_frame_def book_Apply_def ex_quotes ex_sign stamp_def ex_book2_def NewBook_def BestBid_def rebuild_def
      sortedLevels_def Let_def ex_toBig)

end
