(* ===== verification/Engine.thy ===== *)
theory Engine
  imports Matching DecimalText
begin

text \<open>
  \<^verbatim>\<open>internal/engine/engine.go\<close>, \<^verbatim>\<open>internal/margin/validator.go\<close> and the wrapper of
  \<^verbatim>\<open>cmd/exchange/emulator.go\<close> that exempts the emulator's own orders: orders pass the margin
  checks, are recorded in the write-ahead log, and reach the book. The log is the sequence
  of records appended through the \<^verbatim>\<open>wal.Appender\<close> interface; the engine ignores its errors.
  A check is user code: it may accept (\<open>Some None\<close>), refuse (\<open>Some (Some e)\<close>) or panic.
\<close>

subsection \<open>Margin checks\<close>

datatype margin_error = SnapshotError book_error | NotionalExceeds string string | CheckError string

type_synonym check = "order \<Rightarrow> snapshot \<Rightarrow> margin_error option option"

type_synonym validator = "order_book \<Rightarrow> order \<Rightarrow> margin_error option option"

fun run_checks :: "check list \<Rightarrow> order \<Rightarrow> snapshot \<Rightarrow> margin_error option option" where
  "run_checks [] ord snap = Some None"
| "run_checks (check # checks) ord snap = do {
     err \<leftarrow> check ord snap;
     (case err of Some e \<Rightarrow> Some (Some e) | None \<Rightarrow> run_checks checks ord snap)
   }"

definition Validate :: "check list \<Rightarrow> validator" where
  "Validate checks b ord = do {
     snap \<leftarrow> Snapshot b (ord_Instrument ord);
     (case snap of Inl e \<Rightarrow> Some (Some (SnapshotError e)) | Inr sn \<Rightarrow> run_checks checks ord sn)
   }"

text \<open>\<^verbatim>\<open>WithNotionalLimit\<close>, given the limit as a decimal (the conversion is \<open>FromFloat\<close>).\<close>

definition notional_reference :: "order \<Rightarrow> snapshot \<Rightarrow> decimal" where
  "notional_reference ord snap =
     (let reference = (if ord_Side ord = SideSell then sn_BestBid snap else sn_BestAsk snap)
      in if IsZero reference then ord_Price ord else reference)"

definition notional_check :: "decimal \<Rightarrow> check" where
  "notional_check limit ord snap = do {
     notional \<leftarrow> Mul (ord_Volume ord) (notional_reference ord snap);
     Some (if Gt notional limit then Some (NotionalExceeds (StringPrec notional 2) (StringPrec limit 2)) else None)
   }"

definition WithNotionalLimit :: "float64 \<Rightarrow> check option" where
  "WithNotionalLimit limit = do { d \<leftarrow> FromFloat limit; Some (notional_check d) }"

text \<open>A missing metadata key reads as the empty string.\<close>

definition metadata_get :: "order \<Rightarrow> string \<Rightarrow> string" where
  "metadata_get ord k = (case ord_Metadata ord k of None \<Rightarrow> [] | Some v \<Rightarrow> v)"

definition syntheticExemptMargin :: "validator \<Rightarrow> validator" where
  "syntheticExemptMargin inner b ord =
     (if metadata_get ord ''synthetic'' = ''true'' \<or> metadata_get ord ''tape'' = ''true'' then Some None
      else inner b ord)"

subsection \<open>The engine\<close>

datatype wal_payload =
    OrderPayload (pl_id: string) (pl_instrument: string) (pl_price: decimal) (pl_volume: decimal)
      (pl_side: side) (pl_market: bool)
  | CancelPayload (pl_id: string) (pl_instrument: string)

record engine =
  en_book :: order_book
  en_margin :: validator
  en_log :: "(string \<times> wal_payload) list"

datatype engine_error = MarginFailed margin_error | BookError book_error

definition engine_New :: "order_book \<Rightarrow> validator \<Rightarrow> engine" where
  "engine_New b margin = \<lparr>en_book = b, en_margin = margin, en_log = []\<rparr>"

definition snapshotOrder :: "order \<Rightarrow> wal_payload" where
  "snapshotOrder ord = OrderPayload (ord_ID ord) (ord_Instrument ord) (ord_Price ord) (ord_Volume ord)
     (ord_Side ord) (ord_IsMarket ord)"

definition append_log :: "engine \<Rightarrow> string \<Rightarrow> wal_payload \<Rightarrow> engine" where
  "append_log e ev p = e\<lparr>en_log := en_log e @ [(ev, p)]\<rparr>"

text \<open>
  The answer of a placement: the trades, the snapshot, and the error. The order is returned as
  matching left it.
\<close>

record placement =
  pm_trades :: "trade list"
  pm_snapshot :: "snapshot option"
  pm_error :: "engine_error option"

definition PlaceLimit :: "engine \<Rightarrow> order \<Rightarrow> (placement \<times> order \<times> engine) option" where
  "PlaceLimit e ord = do {
     verdict \<leftarrow> en_margin e (en_book e) ord;
     (case verdict of
        Some err \<Rightarrow> Some (\<lparr>pm_trades = [], pm_snapshot = None, pm_error = Some (MarginFailed err)\<rparr>, ord, e)
      | None \<Rightarrow> do {
          let e = append_log e ''order.limit'' (snapshotOrder ord);
          (res, ord', b) \<leftarrow> AddLimitOrder (en_book e) ord;
          let e = e\<lparr>en_book := b\<rparr>;
          (case res of
             Inl err \<Rightarrow> Some (\<lparr>pm_trades = [], pm_snapshot = None, pm_error = Some (BookError err)\<rparr>, ord', e)
           | Inr trades \<Rightarrow> do {
               snap \<leftarrow> Snapshot b (ord_Instrument ord');
               (case snap of
                  Inl err \<Rightarrow> Some (\<lparr>pm_trades = trades, pm_snapshot = None, pm_error = Some (BookError err)\<rparr>, ord', e)
                | Inr sn \<Rightarrow> Some (\<lparr>pm_trades = trades, pm_snapshot = Some sn, pm_error = None\<rparr>, ord', e))
             })
        })
   }"

definition PlaceMarket :: "engine \<Rightarrow> order \<Rightarrow> (placement \<times> order \<times> engine) option" where
  "PlaceMarket e ord =
     (let ord = ord\<lparr>ord_IsMarket := True\<rparr>
      in PlaceLimit (append_log e ''order.market'' (snapshotOrder ord)) ord)"

definition ExecuteIOC :: "engine \<Rightarrow> order \<Rightarrow> ((engine_error + trade list) \<times> order \<times> engine) option" where
  "ExecuteIOC e ord = do {
     verdict \<leftarrow> en_margin e (en_book e) ord;
     (case verdict of
        Some err \<Rightarrow> Some (Inl (MarginFailed err), ord, e)
      | None \<Rightarrow> do {
          let e = append_log e ''order.ioc'' (snapshotOrder ord);
          (res, ord', b) \<leftarrow> ExecuteLimitIOC (en_book e) ord;
          Some (case res of Inl err \<Rightarrow> Inl (BookError err) | Inr trades \<Rightarrow> Inr trades, ord', e\<lparr>en_book := b\<rparr>)
        })
   }"

definition engine_Snapshot :: "engine \<Rightarrow> string \<Rightarrow> (book_error + snapshot) option" where
  "engine_Snapshot e symbol = Snapshot (en_book e) symbol"

definition engine_CancelOrder :: "engine \<Rightarrow> string \<Rightarrow> string \<Rightarrow> (book_error + order) \<times> engine" where
  "engine_CancelOrder e instrument orderID =
     (let e = append_log e ''order.cancel'' (CancelPayload orderID instrument);
          (res, b) = CancelOrder (en_book e) instrument orderID
      in (res, e\<lparr>en_book := b\<rparr>))"

end
