(* ===== verification/EngineProofs.thy ===== *)
theory EngineProofs
  imports Engine
begin

text \<open>
  The write-ahead log determines the book: replaying the records on the initial book gives the
  final one, up to the metadata of orders, which the records leave out. And the margin checks:
  a refused order changes nothing, an accepted one respects the notional limit.
\<close>

subsection \<open>Forgetting metadata\<close>

definition bare :: "order \<Rightarrow> order" where
  "bare x = x\<lparr>ord_Metadata := Map.empty\<rparr>"

fun bare_event :: "hook_event \<Rightarrow> hook_event" where
  "bare_event (EvTrigger x) = EvTrigger (bare x)"
| "bare_event (EvTrade t) = EvTrade t"
| "bare_event (EvCancel x) = EvCancel (bare x)"

definition bare_ib :: "instrument_book \<Rightarrow> instrument_book" where
  "bare_ib ib = ib\<lparr>ib_bids := map bare (ib_bids ib), ib_asks := map bare (ib_asks ib)\<rparr>"

definition bare_book :: "order_book \<Rightarrow> order_book" where
  "bare_book b = b\<lparr>ob_instruments := map_option bare_ib \<circ> ob_instruments b,
     ob_calls := map (\<lambda>(h, ev). (h, bare_event ev)) (ob_calls b)\<rparr>"

lemma bare_fields [simp]:
  "ord_ID (bare x) = ord_ID x" "ord_Instrument (bare x) = ord_Instrument x" "ord_Price (bare x) = ord_Price x"
  "ord_Volume (bare x) = ord_Volume x" "ord_Side (bare x) = ord_Side x" "ord_IsMarket (bare x) = ord_IsMarket x"
  "bare (x\<lparr>ord_Volume := v\<rparr>) = (bare x)\<lparr>ord_Volume := v\<rparr>" "bare (x\<lparr>ord_IsMarket := m\<rparr>) = (bare x)\<lparr>ord_IsMarket := m\<rparr>"
  by (simp_all add: bare_def)

lemma bare_match [simp]: "beyond_limit (bare x) (bare y) = beyond_limit x y" "mk_trade (bare x) (bare y) v t = mk_trade x y v t"
  "bid_before (bare x) (bare y) = bid_before x y" "ask_before (bare x) (bare y) = ask_before x y"
  by (simp_all add: beyond_limit_def mk_trade_def bid_before_def ask_before_def)

lemma slice_stable_map: "(\<And>x y. lt (f x) (f y) = lt x y) \<Longrightarrow> slice_stable lt (map f xs) = map f (slice_stable lt xs)"
proof (induction xs)
  case (Cons x xs)
  have "insert_by lt (f x) (map f ys) = map f (insert_by lt x ys)" for ys
    using Cons.prems by (induction ys) simp_all
  with Cons show ?case by simp
qed simp

lemma match_loop_bare: "match_loop now k (bare inc) (map bare q) =
    map_option (\<lambda>(i, q, ts). (bare i, map bare q, ts)) (match_loop now k inc q)"
proof (induction now k inc q rule: match_loop.induct)
  case (1 now k inc)
  then show ?case by simp
next
  case (2 now k inc x q)
  show ?case
  proof (cases "\<not> Sign (ord_Volume inc) > 0 \<or> beyond_limit inc x")
    case True
    then show ?thesis by auto
  next
    case False
    let ?t = "DMin (ord_Volume inc) (ord_Volume x)"
    show ?thesis
    proof (cases "Sub (ord_Volume inc) ?t")
      case None
      with False show ?thesis by (simp add: Let_def)
    next
      case v: (Some v)
      show ?thesis
      proof (cases "Sub (ord_Volume x) ?t")
        case None
        with False v show ?thesis by (simp add: Let_def)
      next
        case w: (Some w)
        from "2.IH"[OF False refl v w refl refl refl] False v w show ?thesis
          by (cases "match_loop now (k + 1) (inc\<lparr>ord_Volume := v\<rparr>) q") (auto simp: Let_def)
      qed
    qed
  qed
qed

lemma bare_ib_simps [simp]:
  "ib_bids (bare_ib ib) = map bare (ib_bids ib)" "ib_asks (bare_ib ib) = map bare (ib_asks ib)"
  "bare_ib (ib\<lparr>ib_lastTrade := t\<rparr>) = (bare_ib ib)\<lparr>ib_lastTrade := t\<rparr>"
  "bare_ib (ib\<lparr>ib_bids := q\<rparr>) = (bare_ib ib)\<lparr>ib_bids := map bare q\<rparr>"
  "bare_ib (ib\<lparr>ib_asks := q\<rparr>) = (bare_ib ib)\<lparr>ib_asks := map bare q\<rparr>"
  "ib_lastTrade (bare_ib ib) = ib_lastTrade ib"
  by (simp_all add: bare_ib_def)

lemma matchLocked_bare: "matchLocked now k (bare_ib ib) (bare inc) =
    map_option (\<lambda>(ib, i, ts). (bare_ib ib, bare i, ts)) (matchLocked now k ib inc)"
proof -
  have "opposite_queue (bare_ib ib) s = map bare (opposite_queue ib s)" for s by (simp add: opposite_queue_def)
  then show ?thesis
    by (cases "match_loop now k inc (opposite_queue ib (ord_Side inc))")
      (auto simp: matchLocked_def match_loop_bare set_opposite_def Let_def)
qed

lemma enqueueLocked_bare: "enqueueLocked (bare_ib ib) (bare x) = bare_ib (enqueueLocked ib x)"
  using slice_stable_map[of bid_before bare "ib_bids ib @ [x]"] slice_stable_map[of ask_before bare "ib_asks ib @ [x]"]
  by (simp add: enqueueLocked_def)

lemma bare_book_simps [simp]:
  "lookup (bare_book b) inst = map_option bare_ib (lookup b inst)" "ob_now (bare_book b) = ob_now b"
  "ob_reads (bare_book b) = ob_reads b" "ob_hooks (bare_book b) = ob_hooks b"
  by (simp_all add: bare_book_def lookup_def)

lemma fire_bare: "bare_book (fire b ev) = fire (bare_book b) (bare_event ev)"
  by (simp add: bare_book_def fire_def comp_def)

lemma put_bare: "bare_book (put_book b inst ib) = put_book (bare_book b) inst (bare_ib ib)"
  by (auto simp: bare_book_def put_book_def)

lemma commit_bare: "bare_book (commit b inst ib ts) = commit (bare_book b) inst (bare_ib ib) ts"
proof -
  have "bare_book (fold (\<lambda>t b. fire b (EvTrade t)) ts c) = fold (\<lambda>t b. fire b (EvTrade t)) ts (bare_book c)" for c
    by (induction ts arbitrary: c) (simp_all add: fire_bare)
  moreover have "bare_book ((put_book b inst ib)\<lparr>ob_reads := n\<rparr>) = (put_book (bare_book b) inst (bare_ib ib))\<lparr>ob_reads := n\<rparr>" for n
    by (auto simp: bare_book_def put_book_def)
  ultimately show ?thesis by (simp add: commit_def)
qed

lemma AddLimitOrder_bare: "AddLimitOrder (bare_book b) (bare x) =
    map_option (\<lambda>(r, x, b). (r, bare x, bare_book b)) (AddLimitOrder b x)"
proof (cases "lookup b (ord_Instrument x)")
  case None
  then show ?thesis by (simp add: AddLimitOrder_def)
next
  case (Some ib)
  then show ?thesis
    by (cases "matchLocked (ob_now b) (ob_reads b) ib x")
      (auto simp: AddLimitOrder_def matchLocked_bare fire_bare commit_bare enqueueLocked_bare Let_def)
qed

lemma ExecuteLimitIOC_bare: "ExecuteLimitIOC (bare_book b) (bare x) =
    map_option (\<lambda>(r, x, b). (r, bare x, bare_book b)) (ExecuteLimitIOC b x)"
proof (cases "lookup b (ord_Instrument x)")
  case None
  then show ?thesis by (simp add: ExecuteLimitIOC_def)
next
  case (Some ib)
  then show ?thesis
    by (cases "matchLocked (ob_now b) (ob_reads b) ib x")
      (auto simp: ExecuteLimitIOC_def matchLocked_bare commit_bare)
qed

lemma removeOrder_bare: "removeOrder (map bare q) oid = map_option (\<lambda>(x, q). (bare x, map bare q)) (removeOrder q oid)"
  by (induction q) (auto split: option.splits)

lemma CancelOrder_bare: "snd (CancelOrder (bare_book b) inst oid) = bare_book (snd (CancelOrder b inst oid))"
  by (auto simp: CancelOrder_def removeOrder_bare fire_bare put_bare split: option.splits)

subsection \<open>Replaying the log\<close>

definition payload_order :: "wal_payload \<Rightarrow> order" where
  "payload_order p = \<lparr>ord_ID = pl_id p, ord_Instrument = pl_instrument p, ord_Price = pl_price p,
     ord_Volume = pl_volume p, ord_Side = pl_side p, ord_IsMarket = pl_market p, ord_Metadata = Map.empty\<rparr>"

text \<open>What a record does to the book. The record of \<^verbatim>\<open>PlaceMarket\<close> is followed by the record of the
  limit path it takes, so it does nothing of its own.\<close>

definition replay_record :: "string \<times> wal_payload \<Rightarrow> order_book \<Rightarrow> order_book option" where
  "replay_record r b =
     (if fst r = ''order.limit'' then map_option (\<lambda>(_, _, b). b) (AddLimitOrder b (payload_order (snd r)))
      else if fst r = ''order.ioc'' then map_option (\<lambda>(_, _, b). b) (ExecuteLimitIOC b (payload_order (snd r)))
      else if fst r = ''order.cancel'' then Some (snd (CancelOrder b (pl_instrument (snd r)) (pl_id (snd r))))
      else Some b)"

datatype engine_op = EnLimit order | EnMarket order | EnIOC order | EnCancel string string

fun engine_step :: "engine_op \<Rightarrow> engine \<Rightarrow> engine option" where
  "engine_step (EnLimit x) e = map_option (\<lambda>(_, _, e). e) (PlaceLimit e x)"
| "engine_step (EnMarket x) e = map_option (\<lambda>(_, _, e). e) (PlaceMarket e x)"
| "engine_step (EnIOC x) e = map_option (\<lambda>(_, _, e). e) (ExecuteIOC e x)"
| "engine_step (EnCancel inst oid) e = Some (snd (engine_CancelOrder e inst oid))"

lemma payload_bare [simp]: "payload_order (snapshotOrder x) = bare x"
  by (simp add: payload_order_def snapshotOrder_def bare_def)

text \<open>The log of an engine accounts for its book, starting from the book \<open>b0\<close>.\<close>

definition accounted :: "order_book \<Rightarrow> engine \<Rightarrow> bool" where
  "accounted b0 e \<longleftrightarrow> run_ops replay_record (en_log e) (bare_book b0) = Some (bare_book (en_book e))"

interpretation replay: invariant_machine replay_record "\<lambda>_. True" "\<lambda>_. True"
  by unfold_locales simp

lemma accounted_append:
  assumes "accounted b0 e" "replay_record r (bare_book (en_book e)) = Some (bare_book b)"
  shows "accounted b0 ((append_log e (fst r) (snd r))\<lparr>en_book := b\<rparr>)"
  using assms by (simp add: accounted_def append_log_def replay.run_append)

text \<open>The two ways a placement goes: refused by the margin, or logged and added to the book.\<close>

lemma PlaceLimit_cases:
  assumes "PlaceLimit e x = Some (p, x', e')"
  obtains (refused) err where "en_margin e (en_book e) x = Some (Some err)" "e' = e" "x' = x"
      "p = \<lparr>pm_trades = [], pm_snapshot = None, pm_error = Some (MarginFailed err)\<rparr>"
  | (added) res b where "en_margin e (en_book e) x = Some None" "AddLimitOrder (en_book e) x = Some (res, x', b)"
      "e' = (append_log e ''order.limit'' (snapshotOrder x))\<lparr>en_book := b\<rparr>"
      "\<And>err. pm_error p \<noteq> Some (MarginFailed err)" "pm_trades p = (case res of Inl _ \<Rightarrow> [] | Inr ts \<Rightarrow> ts)"
proof (cases "en_margin e (en_book e) x")
  case None
  then show ?thesis using assms by (simp add: PlaceLimit_def)
next
  case (Some verdict)
  show ?thesis
  proof (cases verdict)
    case None
    with Some assms obtain res x1 b where b: "AddLimitOrder (en_book e) x = Some (res, x1, b)"
      by (auto simp: PlaceLimit_def append_log_def bind_eq_Some_conv)
    have log: "en_book (append_log e ev q) = en_book e" for ev q by (simp add: append_log_def)
    have rest: "x' = x1 \<and> e' = (append_log e ''order.limit'' (snapshotOrder x))\<lparr>en_book := b\<rparr> \<and>
        (\<forall>err. pm_error p \<noteq> Some (MarginFailed err)) \<and> pm_trades p = (case res of Inl _ \<Rightarrow> [] | Inr ts \<Rightarrow> ts)"
    proof (cases res)
      case (Inl err)
      with b None Some assms log show ?thesis by (auto simp: PlaceLimit_def Let_def)
    next
      case (Inr ts)
      with b None Some assms log obtain sn where sn: "Snapshot b (ord_Instrument x1) = Some sn"
        by (auto simp: PlaceLimit_def Let_def bind_eq_Some_conv)
      with Inr b None Some assms log show ?thesis by (cases sn) (auto simp: PlaceLimit_def Let_def)
    qed
    with b None Some show ?thesis by (intro added[of res b]) simp_all
  next
    case (Some err)
    with \<open>en_margin e (en_book e) x = Some verdict\<close> assms show ?thesis
      by (intro refused[of err]) (simp_all add: PlaceLimit_def)
  qed
qed

lemma PlaceLimit_accounted:
  assumes "accounted b0 e" "PlaceLimit e x = Some (p, x', e')"
  shows "accounted b0 e'"
  using assms(2)
proof (cases rule: PlaceLimit_cases)
  case (refused err)
  with assms(1) show ?thesis by simp
next
  case (added res b)
  then have "replay_record (''order.limit'', snapshotOrder x) (bare_book (en_book e)) = Some (bare_book b)"
    by (simp add: replay_record_def AddLimitOrder_bare)
  from accounted_append[OF assms(1) this] added(3) show ?thesis by simp
qed

lemma ExecuteIOC_accounted:
  assumes "accounted b0 e" "ExecuteIOC e x = Some (r, x', e')"
  shows "accounted b0 e'"
proof (cases "en_margin e (en_book e) x = Some None")
  case True
  have log: "en_book (append_log e ev q) = en_book e" for ev q by (simp add: append_log_def)
  from True assms(2) log obtain res b where b: "ExecuteLimitIOC (en_book e) x = Some (res, x', b)"
    and e': "e' = (append_log e ''order.ioc'' (snapshotOrder x))\<lparr>en_book := b\<rparr>"
    by (auto simp: ExecuteIOC_def Let_def bind_eq_Some_conv)
  from b have "replay_record (''order.ioc'', snapshotOrder x) (bare_book (en_book e)) = Some (bare_book b)"
    by (simp add: replay_record_def ExecuteLimitIOC_bare)
  from accounted_append[OF assms(1) this] e' show ?thesis by simp
next
  case False
  with assms show ?thesis by (auto simp: ExecuteIOC_def bind_eq_Some_conv split: option.splits)
qed

lemma CancelOrder_accounted:
  assumes "accounted b0 e"
  shows "accounted b0 (snd (engine_CancelOrder e inst oid))"
proof -
  have "replay_record (''order.cancel'', CancelPayload oid inst) (bare_book (en_book e)) =
      Some (bare_book (snd (CancelOrder (en_book e) inst oid)))"
    by (simp add: replay_record_def CancelOrder_bare)
  from accounted_append[OF assms this] show ?thesis
    by (simp add: engine_CancelOrder_def Let_def append_log_def case_prod_beta)
qed

lemma append_market: "accounted b0 e \<Longrightarrow> accounted b0 (append_log e ''order.market'' p)"
  using accounted_append[of b0 e "(''order.market'', p)" "en_book e"]
  by (simp add: replay_record_def append_log_def)

lemma engine_step_accounted: "accounted b0 e \<Longrightarrow> engine_step x e = Some e' \<Longrightarrow> accounted b0 e'"
  by (cases x) (auto simp: PlaceMarket_def Let_def intro: append_market CancelOrder_accounted
      dest: PlaceLimit_accounted ExecuteIOC_accounted PlaceLimit_accounted[OF append_market])

interpretation logged: invariant_machine engine_step "\<lambda>_. True" "accounted b0" for b0
  by unfold_locales (rule engine_step_accounted)

lemma exempt_verdict: "syntheticExemptMargin inner b x = (if metadata_get x ''synthetic'' = ''true'' \<or>
    metadata_get x ''tape'' = ''true'' then Some None else inner b x)"
  by (simp add: syntheticExemptMargin_def)

definition exempt :: "order \<Rightarrow> bool" where
  "exempt x \<longleftrightarrow> metadata_get x ''synthetic'' = ''true'' \<or> metadata_get x ''tape'' = ''true''"

subsection \<open>Properties of the engine\<close>



text \<open>A limit order that the margin refuses changes nothing and trades nothing; one that it accepts
  is logged once, before matching, and answered with the trades of the book.\<close>

theorem margin_gates_orders:
  assumes "PlaceLimit e x = Some (p, x', e')"
  shows "(case en_margin e (en_book e) x of
      None \<Rightarrow> False
    | Some (Some err) \<Rightarrow> e' = e \<and> x' = x \<and> pm_trades p = [] \<and> pm_error p = Some (MarginFailed err)
    | Some None \<Rightarrow> en_log e' = en_log e @ [(''order.limit'', snapshotOrder x)] \<and> en_margin e' = en_margin e \<and>
        (\<exists>res. AddLimitOrder (en_book e) x = Some (res, x', en_book e') \<and>
          pm_trades p = (case res of Inl _ \<Rightarrow> [] | Inr ts \<Rightarrow> ts)))"
  using assms
proof (cases rule: PlaceLimit_cases)
  case (refused err)
  then show ?thesis by simp
next
  case (added res b)
  then show ?thesis by (auto simp: append_log_def)
qed

theorem margin_gates_orders_witness:
  "\<exists>p. PlaceLimit (engine_New ex_book (Validate [\<lambda>_ _. Some (Some (CheckError ''no''))])) ex_bid =
      Some (p, ex_bid, engine_New ex_book (Validate [\<lambda>_ _. Some (Some (CheckError ''no''))])) \<and> pm_trades p = []"
proof -
  let ?e = "engine_New ex_book (Validate [\<lambda>_ _. Some (Some (CheckError ''no''))])"
  have verdict: "en_margin ?e (en_book ?e) ex_bid = Some (Some (CheckError ''no''))"
    by (simp add: engine_New_def Validate_def ex_snapshot)
  then obtain p x' e' where "PlaceLimit ?e ex_bid = Some (p, x', e')" by (auto simp: PlaceLimit_def)
  from this margin_gates_orders[OF this] verdict show ?thesis by auto
qed

text \<open>The notional limit is enforced: of the orders that are not the emulator's own, on a listed
  instrument, the margin accepts exactly those whose volume at the best opposite price (at their own
  price when that side is empty) costs at most the limit.\<close>

theorem notional_limit_exact:
  assumes "syntheticExemptMargin (Validate [notional_check limit]) b x = Some verdict"
  shows "verdict = None \<longleftrightarrow> exempt x \<or> (\<exists>sn. Snapshot b (ord_Instrument x) = Some (Inr sn) \<and>
    toBig (ord_Volume x) * toBig (notional_reference x sn) sdiv scaleBig \<le> toBig limit)"
proof (cases "exempt x")
  case True
  then show ?thesis using assms by (simp add: exempt_verdict exempt_def)
next
  case False
  then have v: "Validate [notional_check limit] b x = Some verdict"
    using assms by (simp add: exempt_verdict exempt_def)
  then obtain r where r: "Snapshot b (ord_Instrument x) = Some r" by (auto simp: Validate_def bind_eq_Some_conv)
  show ?thesis
  proof (cases r)
    case (Inl err)
    with v r False show ?thesis by (auto simp: Validate_def)
  next
    case (Inr sn)
    with v r obtain n where "Mul (ord_Volume x) (notional_reference x sn) = Some n"
      "verdict = (if Gt n limit then Some (NotionalExceeds (StringPrec n 2) (StringPrec limit 2)) else None)"
      by (auto simp: Validate_def notional_check_def bind_eq_Some_conv split: if_splits)
    with r Inr False show ?thesis by (auto simp: Mul_Some less_toBig)
  qed
qed

theorem notional_limit_exact_witness:
  "toBig (Decimal 0 7) * toBig (Decimal 0 100) sdiv scaleBig \<le> 0"
proof -
  have ex: "\<not> exempt ex_bid" by (simp add: exempt_def metadata_get_def ex_bid_def)
  have "\<exists>v. syntheticExemptMargin (Validate [notional_check (Decimal 0 0)]) ex_book ex_bid = Some v \<and> v = None"
    by (simp add: exempt_verdict exempt_def[symmetric] ex Validate_def ex_snapshot notional_check_def notional_reference_def IsZero_def ex_bid_def Mul_spec fromBigChecked_def toBig_eq scaleBig_num maxPos_num minNeg_num signed_divide_int_def less_toBig)
  then have "syntheticExemptMargin (Validate [notional_check (Decimal 0 0)]) ex_book ex_bid = Some None" by simp
  from notional_limit_exact[OF this] ex ex_snapshot show ?thesis
    by (auto simp: notional_reference_def IsZero_def ex_bid_def toBig_eq)
qed

end
