(* ===== verification/TransferHub.thy ===== *)
theory TransferHub
  imports LedgerProofs DecimalText "HOL-Library.Sublist"
begin

text \<open>
  \<^verbatim>\<open>internal/transfer/hub.go\<close>: transfers between venue ledgers that settle on a chain. The chain
  is the interface \<^verbatim>\<open>Backend\<close>: a parameter whose functions read and change a world \<open>'w\<close>, as the
  file store of the cursors is. Ledgers are shared with the trading edges, so the hub holds
  references to them (\<open>v_ledger\<close>) into a store (\<open>hb_ledgers\<close>). \<^verbatim>\<open>Withdraw\<close> does not hold the
  hub's lock across the send; its two halves are separate steps here and it is their composition.
\<close>

subsection \<open>State\<close>

record payment =
  pay_TxRef :: string
  pay_From :: string
  pay_Asset :: string
  pay_Amount :: string
  pay_Cursor :: string

record 'w backend =
  bk_Send :: "'w \<Rightarrow> string \<Rightarrow> string \<Rightarrow> string \<Rightarrow> string \<Rightarrow> (string + string) \<times> 'w"
  bk_Received :: "'w \<Rightarrow> string \<Rightarrow> string \<Rightarrow> (string + payment list) \<times> 'w"
  bk_LatestCursor :: "'w \<Rightarrow> string \<Rightarrow> (string + string) \<times> 'w"

record venue =
  v_id :: string
  v_ledger :: nat
  v_secret :: string
  v_address :: string
  v_cursor :: string

record transfer =
  tf_From :: string
  tf_To :: string
  tf_Asset :: string
  tf_Amount :: string
  tf_TxRef :: string
  tf_Status :: string

text \<open>\<open>hb_store\<close> is the decoded content of the cursor file, \<open>None\<close> when it cannot be read; the path is
  only compared with the empty one.\<close>

record hub =
  hb_pollEvery :: int
  hb_cursorPath :: string
  hb_venues :: "(string, venue) gomap"
  hb_byAddr :: "string \<rightharpoonup> string"
  hb_inflight :: "transfer list"
  hb_ledgers :: "nat \<Rightarrow> ledger"
  hb_store :: "(string \<rightharpoonup> string) option"

definition sendPrecision :: int where
  "sendPrecision = 7"

datatype withdraw_error =
    UnknownVenue string
  | AmountNotPositive
  | AmountInvalid parse_error
  | AmountUnderflows
  | ErrInsufficient string string
  | SendFailed string

subsection \<open>Setup\<close>

definition NewHub :: "int \<Rightarrow> (nat \<Rightarrow> ledger) \<Rightarrow> hub" where
  "NewHub pollEvery ledgers =
     \<lparr>hb_pollEvery = (if pollEvery < 1000000000 then 1000000000 else pollEvery), hb_cursorPath = [],
      hb_venues = [], hb_byAddr = Map.empty, hb_inflight = [], hb_ledgers = ledgers, hb_store = None\<rparr>"

definition AddVenue :: "hub \<Rightarrow> string \<Rightarrow> nat \<Rightarrow> string \<Rightarrow> string \<Rightarrow> hub" where
  "AddVenue h vid ledger secret address =
     (let v = \<lparr>v_id = vid, v_ledger = ledger, v_secret = secret, v_address = address, v_cursor = []\<rparr>
      in h\<lparr>hb_venues := AList.update vid v (hb_venues h), hb_byAddr := (hb_byAddr h)(address \<mapsto> vid)\<rparr>)"

definition hub_Address :: "hub \<Rightarrow> string \<Rightarrow> string option" where
  "hub_Address h vid = (case map_of (hb_venues h) vid of None \<Rightarrow> None | Some v \<Rightarrow> Some (v_address v))"

definition SetCursorStore :: "hub \<Rightarrow> string \<Rightarrow> hub" where
  "SetCursorStore h path = h\<lparr>hb_cursorPath := path\<rparr>"

definition set_ledger :: "hub \<Rightarrow> nat \<Rightarrow> ledger \<Rightarrow> hub" where
  "set_ledger h a l = h\<lparr>hb_ledgers := (hb_ledgers h)(a := l)\<rparr>"

subsection \<open>Withdrawals\<close>

text \<open>The checks of \<^verbatim>\<open>Withdraw\<close>: the venue, the text to send and the amount it stands for.\<close>

definition withdraw_check ::
    "hub \<Rightarrow> string \<Rightarrow> decimal \<Rightarrow> withdraw_error + (venue \<times> string \<times> decimal)" where
  "withdraw_check h fromVenue amount =
     (case map_of (hb_venues h) fromVenue of
        None \<Rightarrow> Inl (UnknownVenue fromVenue)
      | Some v \<Rightarrow>
          if Sign amount \<le> 0 then Inl AmountNotPositive
          else let sendStr = StringPrec amount sendPrecision
               in case Parse sendStr of
                    Inl e \<Rightarrow> Inl (AmountInvalid e)
                  | Inr sendAmt \<Rightarrow> if Sign sendAmt \<le> 0 then Inl AmountUnderflows else Inr (v, sendStr, sendAmt))"

text \<open>The first half: debit, send, and refund when the send fails.\<close>

definition withdraw_send ::
    "'w backend \<Rightarrow> 'w \<Rightarrow> hub \<Rightarrow> string \<Rightarrow> string \<Rightarrow> decimal \<Rightarrow> string \<Rightarrow>
     ((withdraw_error + (string \<times> decimal)) \<times> 'w \<times> hub) option" where
  "withdraw_send be w h fromVenue asset amount destAddr =
     (case withdraw_check h fromVenue amount of
        Inl e \<Rightarrow> Some (Inl e, w, h)
      | Inr (v, sendStr, sendAmt) \<Rightarrow> do {
          (ok, l) \<leftarrow> Debit (hb_ledgers h (v_ledger v)) asset sendAmt;
          let h = set_ledger h (v_ledger v) l;
          if \<not> ok then Some (Inl (ErrInsufficient asset fromVenue), w, h)
          else let (res, w) = bk_Send be w (v_secret v) asset destAddr sendStr
               in case res of
                    Inl e \<Rightarrow> do {
                      l \<leftarrow> Credit (hb_ledgers h (v_ledger v)) asset sendAmt;
                      Some (Inl (SendFailed e), w, set_ledger h (v_ledger v) l)
                    }
                  | Inr txRef \<Rightarrow> Some (Inr (txRef, sendAmt), w, h)
        })"

text \<open>The second half: the record of the transfer.\<close>

definition withdraw_record :: "hub \<Rightarrow> string \<Rightarrow> string \<Rightarrow> decimal \<Rightarrow> string \<Rightarrow> string \<Rightarrow> hub" where
  "withdraw_record h fromVenue asset sendAmt destAddr txRef =
     (let to = (case hb_byAddr h destAddr of None \<Rightarrow> [] | Some vid \<Rightarrow> vid)
      in h\<lparr>hb_inflight := hb_inflight h @
            [\<lparr>tf_From = fromVenue, tf_To = to, tf_Asset = asset, tf_Amount = String sendAmt,
              tf_TxRef = txRef, tf_Status = ''pending''\<rparr>]\<rparr>)"

definition Withdraw ::
    "'w backend \<Rightarrow> 'w \<Rightarrow> hub \<Rightarrow> string \<Rightarrow> string \<Rightarrow> decimal \<Rightarrow> string \<Rightarrow>
     ((withdraw_error + string) \<times> 'w \<times> hub) option" where
  "Withdraw be w h fromVenue asset amount destAddr = do {
     (res, w, h) \<leftarrow> withdraw_send be w h fromVenue asset amount destAddr;
     Some (case res of
        Inl e \<Rightarrow> (Inl e, w, h)
      | Inr (txRef, sendAmt) \<Rightarrow> (Inr txRef, w, withdraw_record h fromVenue asset sendAmt destAddr txRef))
   }"

definition Inflight :: "hub \<Rightarrow> transfer list" where
  "Inflight h = hb_inflight h"

subsection \<open>Deposits\<close>

definition settle :: "hub \<Rightarrow> string \<Rightarrow> hub" where
  "settle h txRef =
     h\<lparr>hb_inflight := map (\<lambda>t. if tf_TxRef t = txRef then t\<lparr>tf_Status := ''settled''\<rparr> else t) (hb_inflight h)\<rparr>"

definition set_cursor :: "hub \<Rightarrow> string \<Rightarrow> string \<Rightarrow> hub" where
  "set_cursor h vid c =
     (case map_of (hb_venues h) vid of
        None \<Rightarrow> h
      | Some v \<Rightarrow> h\<lparr>hb_venues := AList.update vid (v\<lparr>v_cursor := c\<rparr>) (hb_venues h)\<rparr>)"

text \<open>One payment of the inner loop of \<^verbatim>\<open>poll\<close>.\<close>

definition take_payment :: "string \<Rightarrow> nat \<Rightarrow> payment \<Rightarrow> hub \<Rightarrow> hub option" where
  "take_payment vid a p h =
     (case Parse (pay_Amount p) of
        Inl e \<Rightarrow> Some (set_cursor h vid (pay_Cursor p))
      | Inr amt \<Rightarrow> do {
          l \<leftarrow> Credit (hb_ledgers h a) (pay_Asset p) amt;
          Some (settle (set_cursor (set_ledger h a l) vid (pay_Cursor p)) (pay_TxRef p))
        })"

fun take_payments :: "string \<Rightarrow> nat \<Rightarrow> payment list \<Rightarrow> hub \<Rightarrow> hub option" where
  "take_payments vid a [] h = Some h"
| "take_payments vid a (p # ps) h = do { h \<leftarrow> take_payment vid a p h; take_payments vid a ps h }"

definition poll_venue ::
    "'w backend \<Rightarrow> string \<Rightarrow> 'w \<Rightarrow> hub \<Rightarrow> (bool \<times> 'w \<times> hub) option" where
  "poll_venue be vid w h =
     (case map_of (hb_venues h) vid of
        None \<Rightarrow> Some (False, w, h)
      | Some v \<Rightarrow>
         (case bk_Received be w (v_address v) (v_cursor v) of
            (Inl e, w) \<Rightarrow> Some (False, w, h)
          | (Inr pays, w) \<Rightarrow> do { h \<leftarrow> take_payments vid (v_ledger v) pays h; Some (pays \<noteq> [], w, h) }))"

fun poll_venues :: "'w backend \<Rightarrow> string list \<Rightarrow> bool \<Rightarrow> 'w \<Rightarrow> hub \<Rightarrow> (bool \<times> 'w \<times> hub) option" where
  "poll_venues be [] changed w h = Some (changed, w, h)"
| "poll_venues be (vid # vids) changed w h = do {
     (c, w, h) \<leftarrow> poll_venue be vid w h;
     poll_venues be vids (changed \<or> c) w h
   }"

definition poll :: "'w backend \<Rightarrow> 'w \<Rightarrow> hub \<Rightarrow> (bool \<times> 'w \<times> hub) option" where
  "poll be w h = poll_venues be (map fst (hb_venues h)) False w h"

subsection \<open>Cursors and the watch loop\<close>

definition loadCursors :: "hub \<Rightarrow> string \<rightharpoonup> string" where
  "loadCursors h =
     (if hb_cursorPath h = [] then Map.empty
      else case hb_store h of None \<Rightarrow> Map.empty | Some m \<Rightarrow> m)"

text \<open>\<open>written\<close> says whether the temporary file could be written and renamed.\<close>

definition saveCursors :: "bool \<Rightarrow> hub \<Rightarrow> hub" where
  "saveCursors written h =
     (if hb_cursorPath h = [] then h
      else if \<not> written then h
      else h\<lparr>hb_store := Some (map_option v_cursor \<circ> map_of (hb_venues h))\<rparr>)"

fun init_venues :: "'w backend \<Rightarrow> (string \<rightharpoonup> string) \<Rightarrow> (string \<times> venue) list \<Rightarrow> 'w \<Rightarrow> hub \<Rightarrow> 'w \<times> hub" where
  "init_venues be saved [] w h = (w, h)"
| "init_venues be saved ((vid, v) # vs) w h =
     (case saved (v_id v) of
        Some c \<Rightarrow> init_venues be saved vs w (set_cursor h vid c)
      | None \<Rightarrow>
         (case bk_LatestCursor be w (v_address v) of
            (Inr c, w) \<Rightarrow> init_venues be saved vs w (set_cursor h vid c)
          | (Inl e, w) \<Rightarrow> init_venues be saved vs w h))"

definition initCursors :: "'w backend \<Rightarrow> 'w \<Rightarrow> hub \<Rightarrow> 'w \<times> hub" where
  "initCursors be w h = init_venues be (loadCursors h) (hb_venues h) w h"

text \<open>The loop of \<^verbatim>\<open>Start\<close>: one element per tick before the context ends, saying whether the cursor
  file can be written at that tick.\<close>

fun watch :: "'w backend \<Rightarrow> bool list \<Rightarrow> 'w \<Rightarrow> hub \<Rightarrow> ('w \<times> hub) option" where
  "watch be [] w h = Some (w, h)"
| "watch be (written # ticks) w h = do {
     (changed, w, h) \<leftarrow> poll be w h;
     watch be ticks w (if changed then saveCursors written h else h)
   }"

definition Start :: "'w backend \<Rightarrow> bool \<Rightarrow> bool list \<Rightarrow> 'w \<Rightarrow> hub \<Rightarrow> ('w \<times> hub) option" where
  "Start be written ticks w h =
     (let (w, h) = initCursors be w h in watch be ticks w (saveCursors written h))"

end
