(* ===== verification/TransferProofs.thy ===== *)
theory TransferProofs
  imports TransferHub
begin

text \<open>
  A withdrawal debits exactly what it sends and nothing when it fails; the deposit watcher
  credits every payment of a chain once, in order, whatever the number of polls and however
  the chain grows between them.
\<close>

subsection \<open>Withdrawals\<close>

lemma set_ledger_simps [simp]:
  "hb_ledgers (set_ledger h a l) = (hb_ledgers h)(a := l)" "hb_venues (set_ledger h a l) = hb_venues h"
  "hb_inflight (set_ledger h a l) = hb_inflight h" "hb_byAddr (set_ledger h a l) = hb_byAddr h"
  by (simp_all add: set_ledger_def)

lemma record_simps [simp]:
  "hb_ledgers (withdraw_record h f a s d t) = hb_ledgers h" "hb_venues (withdraw_record h f a s d t) = hb_venues h"
  "\<exists>t'. hb_inflight (withdraw_record h f a s d t) = hb_inflight h @ [t']"
  by (simp_all add: withdraw_record_def Let_def)

lemma withdraw_check_Inr:
  assumes "withdraw_check h vid amount = Inr (v, s, x)"
  shows "map_of (hb_venues h) vid = Some v" "s = StringPrec amount 7" "Parse s = Inr x"
    "toBig x = truncated 7 (toBig amount)" "0 < toBig x" "toBig x \<le> toBig amount"
proof -
  show facts: "map_of (hb_venues h) vid = Some v" "s = StringPrec amount 7" "Parse s = Inr x" and pos: "0 < toBig x"
    using assms by (auto simp: withdraw_check_def sendPrecision_def Let_def Sign_le_0 split: option.splits if_splits sum.splits)
  from Parse_StringPrec[of amount 7] facts show val: "toBig x = truncated 7 (toBig amount)"
    by (simp add: clamp_prec_def ScaleDigits_def)
  have amt: "0 < toBig amount"
    using assms by (auto simp: withdraw_check_def Sign_le_0 split: option.splits if_splits)
  have "truncated 7 (toBig amount) = toBig amount div 10 ^ 11 * 10 ^ 11"
    using amt by (simp add: truncated_def ScaleDigits_def sdiv_nonneg)
  then show "toBig x \<le> toBig amount" using val div_times_le[of "10 ^ 11" "toBig amount"] by simp
qed

text \<open>The first half: a success debits the source, a failure leaves every balance.\<close>

definition same_balances :: "hub \<Rightarrow> hub \<Rightarrow> bool" where
  "same_balances h h' \<longleftrightarrow> (\<forall>a. account_of (hb_ledgers h' a) = account_of (hb_ledgers h a))"

lemma Credit_refines: "Credit l a x = Some l' \<Longrightarrow> 0 < toBig x \<Longrightarrow> account_of l' = spec_credit (account_of l) a (toBig x)"
  by (auto simp: Credit_def Sign_le_0 split: if_splits dest: addFree_refines)

lemma refund_restores: "0 < x \<Longrightarrow> x \<le> f a \<Longrightarrow> spec_credit (spec_debit (f, k) a x) a x = (f, k)"
  by (auto simp: fun_eq_iff)

lemma withdraw_send_balances:
  assumes "withdraw_send be w h vid asset amount dest = Some (res, w', h')"
  shows "(case res of
      Inl e \<Rightarrow> same_balances h h' \<and> (w' = w \<or> (\<exists>m. e = SendFailed m))
    | Inr (tx, x) \<Rightarrow> \<exists>v. withdraw_check h vid amount = Inr (v, StringPrec amount 7, x) \<and>
        bk_Send be w (v_secret v) asset dest (StringPrec amount 7) = (Inr tx, w') \<and>
        (\<forall>a. a \<noteq> v_ledger v \<longrightarrow> hb_ledgers h' a = hb_ledgers h a) \<and> toBig x \<le> fr (hb_ledgers h (v_ledger v)) asset \<and>
        account_of (hb_ledgers h' (v_ledger v)) = spec_debit (account_of (hb_ledgers h (v_ledger v))) asset (toBig x)) \<and>
    hb_inflight h' = hb_inflight h \<and> hb_venues h' = hb_venues h"
proof (cases "withdraw_check h vid amount")
  case (Inl e)
  with assms show ?thesis by (auto simp: withdraw_send_def same_balances_def)
next
  case (Inr c)
  obtain v s x where c: "c = (v, s, x)" by (metis prod_cases3)
  note chk = withdraw_check_Inr[OF Inr[unfolded c]]
  let ?l = "hb_ledgers h (v_ledger v)"
  from assms Inr c obtain ok l where d: "Debit ?l asset x = Some (ok, l)"
    by (auto simp: withdraw_send_def bind_eq_Some_conv)
  note d' = Debit_refines[OF d]
  show ?thesis
  proof (cases ok)
    case False
    with assms Inr c d d' chk(5) show ?thesis
      by (auto simp: withdraw_send_def same_balances_def)
  next
    case True
    then have debited: "account_of l = spec_debit (account_of ?l) asset (toBig x)" "toBig x \<le> fr ?l asset"
      using d' chk(5) by auto
    obtain r w1 where send: "bk_Send be w (v_secret v) asset dest s = (r, w1)" by fastforce
    show ?thesis
    proof (cases r)
      case (Inr tx)
      with assms \<open>withdraw_check h vid amount = Inr c\<close> c d True send debited chk(2) show ?thesis
        by (auto simp: withdraw_send_def)
    next
      case (Inl m)
      with assms \<open>withdraw_check h vid amount = Inr c\<close> c d True send obtain l2 where
        l2: "Credit l asset x = Some l2" and h': "h' = set_ledger (set_ledger h (v_ledger v) l) (v_ledger v) l2"
        "res = Inl (SendFailed m)" "w' = w1"
        by (auto simp: withdraw_send_def bind_eq_Some_conv)
      have "account_of l2 = account_of ?l"
        using Credit_refines[OF l2 chk(5)] debited refund_restores[OF chk(5)] by (simp add: account_of_def)
      with h' show ?thesis by (auto simp: same_balances_def)
    qed
  qed
qed

subsection \<open>Deposits\<close>

definition payment_value :: "payment \<Rightarrow> int" where
  "payment_value p = (case Parse (pay_Amount p) of Inl e \<Rightarrow> 0 | Inr d \<Rightarrow> max 0 (toBig d))"

definition deposits :: "payment list \<Rightarrow> string \<Rightarrow> int" where
  "deposits ps a = sum_list (map payment_value (filter (\<lambda>p. pay_Asset p = a) ps))"

definition cursor_after :: "payment list \<Rightarrow> string" where
  "cursor_after ps = (if ps = [] then [] else pay_Cursor (last ps))"

lemma deposits_simps [simp]: "deposits [] a = 0" "deposits (p # ps) a = (if pay_Asset p = a then payment_value p else 0) + deposits ps a"
  "deposits (ps @ qs) a = deposits ps a + deposits qs a"
  by (simp_all add: deposits_def)

lemma set_cursor_simps [simp]: "hb_ledgers (set_cursor h vid c) = hb_ledgers h"
  "hb_ledgers (settle h t) = hb_ledgers h" "hb_venues (settle h t) = hb_venues h"
  by (auto simp: set_cursor_def settle_def split: option.split)

lemma set_cursor_keys [simp]: "map fst (hb_venues (set_cursor h vid c)) = map fst (hb_venues h)"
proof (cases "map_of (hb_venues h) vid")
  case None
  then show ?thesis by (simp add: set_cursor_def)
next
  case (Some v)
  then have "vid \<in> set (map fst (hb_venues h))" by (force dest: map_of_SomeD)
  with Some show ?thesis by (simp add: set_cursor_def update_keys)
qed

lemma set_cursor_venue: "map_of (hb_venues (set_cursor h vid c)) vid' =
    (if vid' = vid then map_option (\<lambda>v. v\<lparr>v_cursor := c\<rparr>) (map_of (hb_venues h) vid) else map_of (hb_venues h) vid')"
  by (auto simp: set_cursor_def map_of_update_eq split: option.split)

lemma Credit_value: "Credit l a x = Some l' \<Longrightarrow> fr l' = (fr l)(a := fr l a + max 0 (toBig x)) \<and> lk l' = lk l"
  by (cases "0 < toBig x") (auto simp: account_of_def Credit_def Sign_le_0 fun_eq_iff dest!: addFree_refines split: if_splits)

lemma take_payment_effect:
  assumes "take_payment vid a p h = Some h'"
  shows "fr (hb_ledgers h' a) x = fr (hb_ledgers h a) x + (if pay_Asset p = x then payment_value p else 0)"
    "lk (hb_ledgers h' a) = lk (hb_ledgers h a)" "b \<noteq> a \<Longrightarrow> hb_ledgers h' b = hb_ledgers h b"
    "map_of (hb_venues h') vid' = (if vid' = vid then map_option (\<lambda>v. v\<lparr>v_cursor := pay_Cursor p\<rparr>) (map_of (hb_venues h) vid)
      else map_of (hb_venues h) vid')"
    "map fst (hb_venues h') = map fst (hb_venues h)"
  using assms
  by (auto simp: take_payment_def payment_value_def bind_eq_Some_conv set_cursor_venue split: sum.splits
      dest!: Credit_value)

lemma take_payments_effect:
  assumes "take_payments vid a ps h = Some h'" "map_of (hb_venues h) vid = Some v"
  shows "fr (hb_ledgers h' a) x = fr (hb_ledgers h a) x + deposits ps x \<and>
    lk (hb_ledgers h' a) = lk (hb_ledgers h a) \<and> (b \<noteq> a \<longrightarrow> hb_ledgers h' b = hb_ledgers h b) \<and>
    map_of (hb_venues h') vid' = (if vid' = vid then Some (if ps = [] then v else v\<lparr>v_cursor := cursor_after ps\<rparr>)
      else map_of (hb_venues h) vid') \<and>
    map fst (hb_venues h') = map fst (hb_venues h)"
  using assms
proof (induction vid a ps h arbitrary: v rule: take_payments.induct)
  case (1 vid a h)
  then show ?case by simp
next
  case (2 vid a p ps h)
  then obtain h1 where h1: "take_payment vid a p h = Some h1" and rest: "take_payments vid a ps h1 = Some h'"
    by (auto simp: bind_eq_Some_conv)
  note eff = take_payment_effect[OF h1]
  have "map_of (hb_venues h1) vid = Some (v\<lparr>v_cursor := pay_Cursor p\<rparr>)" using eff(4)[of vid] "2.prems"(2) by simp
  from "2.IH"[OF h1 rest this] eff show ?case by (auto simp: cursor_after_def)
qed

subsection \<open>A chain that grows\<close>

text \<open>The payments after a cursor; the empty cursor is the beginning.\<close>

definition after :: "string \<Rightarrow> payment list \<Rightarrow> payment list" where
  "after c ps = (if c = [] then ps else tl (dropWhile (\<lambda>p. pay_Cursor p \<noteq> c) ps))"

text \<open>
  The documented contract of a \<^verbatim>\<open>Watcher\<close>, for the payments \<open>chain w addr\<close> that the world \<open>w\<close>
  has recorded: paging tokens are distinct and not empty, payments are never removed or
  reordered, and a successful call returns the payments after the cursor.
\<close>

definition watcher_contract :: "'w backend \<Rightarrow> ('w \<Rightarrow> string \<Rightarrow> payment list) \<Rightarrow> bool" where
  "watcher_contract be chain \<longleftrightarrow>
     (\<forall>w addr. distinct (map pay_Cursor (chain w addr)) \<and> [] \<notin> pay_Cursor ` set (chain w addr)) \<and>
     (\<forall>w addr c. case bk_Received be w addr c of (res, w') \<Rightarrow>
        (\<forall>ad. prefix (chain w ad) (chain w' ad)) \<and>
        (case res of Inl e \<Rightarrow> True | Inr ps \<Rightarrow> ps = after c (chain w' addr)))"

lemma after_done:
  assumes "distinct (map pay_Cursor (ds @ rest))" "[] \<notin> pay_Cursor ` set (ds @ rest)"
  shows "after (cursor_after ds) (ds @ rest) = rest"
proof (cases "ds = []")
  case True
  then show ?thesis by (simp add: after_def cursor_after_def)
next
  case False
  then obtain d p where ds: "ds = d @ [p]" by (metis rev_exhaust)
  have "\<forall>q\<in>set d. pay_Cursor q \<noteq> pay_Cursor p"
  proof -
    have "pay_Cursor p \<notin> pay_Cursor ` set d" using assms(1) unfolding ds by simp
    then show ?thesis by (metis image_eqI)
  qed
  moreover have "pay_Cursor p \<noteq> []" using assms(2) unfolding ds by auto
  ultimately show ?thesis by (simp add: after_def cursor_after_def ds dropWhile_append3)
qed

lemma cursor_after_append [simp]: "cursor_after (ds @ ps) = (if ps = [] then cursor_after ds else cursor_after ps)"
  by (simp add: cursor_after_def)

text \<open>
  A venue is in step with its chain: a first part of its payments is credited, once each, on
  top of the balances \<open>base\<close> that the venue has otherwise, and the cursor stands at its end.
\<close>

definition in_step :: "payment list \<Rightarrow> (string \<Rightarrow> int) \<Rightarrow> venue \<Rightarrow> ledger \<Rightarrow> payment list \<Rightarrow> bool" where
  "in_step ps base v l ds \<longleftrightarrow> prefix ds ps \<and> v_cursor v = cursor_after ds \<and> (\<forall>x. fr l x = base x + deposits ds x)"

definition hub_in_step :: "('w \<Rightarrow> string \<Rightarrow> payment list) \<Rightarrow> (string \<Rightarrow> string \<Rightarrow> int) \<Rightarrow> 'w \<Rightarrow> hub \<Rightarrow> bool" where
  "hub_in_step chain base w h \<longleftrightarrow>
     (\<forall>vid v. map_of (hb_venues h) vid = Some v \<longrightarrow>
        (\<exists>ds. in_step (chain w (v_address v)) (base vid) v (hb_ledgers h (v_ledger v)) ds)) \<and>
     (\<forall>vid v vid' v'. map_of (hb_venues h) vid = Some v \<longrightarrow> map_of (hb_venues h) vid' = Some v' \<longrightarrow>
        v_ledger v = v_ledger v' \<longrightarrow> vid = vid')"

lemma in_step_grows: "in_step ps base v l ds \<Longrightarrow> prefix ps ps' \<Longrightarrow> in_step ps' base v l ds"
  by (auto simp: in_step_def intro: prefix_order.trans)

text \<open>One poll of a venue: on success the whole chain is credited.\<close>

lemma poll_venue_step:
  assumes "watcher_contract be chain" "hub_in_step chain base w h" "poll_venue be vid w h = Some (changed, w', h')"
  shows "hub_in_step chain base w' h'"
proof (cases "map_of (hb_venues h) vid")
  case None
  with assms show ?thesis by (simp add: poll_venue_def)
next
  case (Some v)
  obtain res w1 where r: "bk_Received be w (v_address v) (v_cursor v) = (res, w1)" by fastforce
  have "case bk_Received be w (v_address v) (v_cursor v) of (res, w') \<Rightarrow> (\<forall>ad. prefix (chain w ad) (chain w' ad)) \<and>
      (case res of Inl e \<Rightarrow> True | Inr ps \<Rightarrow> ps = after (v_cursor v) (chain w' (v_address v)))"
    by (rule assms(1)[unfolded watcher_contract_def, THEN conjunct2, THEN spec, THEN spec, THEN spec])
  then have grows: "prefix (chain w ad) (chain w1 ad)"
    and answer: "case res of Inl e \<Rightarrow> True | Inr ps \<Rightarrow> ps = after (v_cursor v) (chain w1 (v_address v))" for ad
    by (simp_all add: r)
  have stepped: "\<exists>ds. in_step (chain w1 (v_address u)) (base i) u (hb_ledgers h (v_ledger u)) ds"
    if "map_of (hb_venues h) i = Some u" for i u
    using assms(2) that in_step_grows grows unfolding hub_in_step_def by metis
  show ?thesis
  proof (cases res)
    case (Inl e)
    with assms(2,3) Some r stepped show ?thesis by (auto simp: poll_venue_def hub_in_step_def)
  next
    case (Inr ps)
    let ?c = "chain w1 (v_address v)"
    have w': "w' = w1" and take: "take_payments vid (v_ledger v) ps h = Some h'"
      using assms(3) Some r Inr by (auto simp: poll_venue_def bind_eq_Some_conv)
    have ps: "ps = after (v_cursor v) ?c" "distinct (map pay_Cursor ?c)" "[] \<notin> pay_Cursor ` set ?c"
      using assms(1) answer Inr by (simp_all add: watcher_contract_def)
    from stepped[OF Some] obtain ds rest where ds: "?c = ds @ rest" "v_cursor v = cursor_after ds"
      "\<forall>x. fr (hb_ledgers h (v_ledger v)) x = base vid x + deposits ds x"
      by (auto simp: in_step_def prefix_def)
    have rest: "ps = rest" using ps after_done unfolding ds(1,2) by metis
    note eff = take_payments_effect[OF take Some]
    show ?thesis
      unfolding hub_in_step_def
    proof (intro conjI allI impI)
      fix i u assume u: "map_of (hb_venues h') i = Some u"
      show "\<exists>ds. in_step (chain w' (v_address u)) (base i) u (hb_ledgers h' (v_ledger u)) ds"
      proof (cases "i = vid")
        case True
        then have "u = (if ps = [] then v else v\<lparr>v_cursor := cursor_after ps\<rparr>)" using eff u by auto
        then have "in_step (chain w' (v_address u)) (base i) u (hb_ledgers h' (v_ledger u)) (ds @ ps)"
          using eff ds rest w' True by (auto simp: in_step_def)
        then show ?thesis ..
      next
        case False
        then have u': "map_of (hb_venues h) i = Some u" using eff u by auto
        then have "v_ledger u \<noteq> v_ledger v" using assms(2) Some False unfolding hub_in_step_def by blast
        then have "hb_ledgers h' (v_ledger u) = hb_ledgers h (v_ledger u)"
          using take_payments_effect[OF take Some, of _ "v_ledger u"] by simp
        then show ?thesis using stepped[OF u'] w' by simp
      qed
    next
      fix i u j t assume "map_of (hb_venues h') i = Some u" "map_of (hb_venues h') j = Some t" "v_ledger u = v_ledger t"
      then show "i = j" using eff Some assms(2) unfolding hub_in_step_def
        by (auto split: if_splits)
    qed
  qed
qed

lemma poll_venue_success:
  assumes "watcher_contract be chain" "hub_in_step chain base w h" "map_of (hb_venues h) vid = Some v"
    and "bk_Received be w (v_address v) (v_cursor v) = (Inr ps, w1)"
  shows "\<exists>ds. chain w1 (v_address v) = ds @ ps \<and> v_cursor v = cursor_after ds \<and>
    (\<forall>x. fr (hb_ledgers h (v_ledger v)) x = base vid x + deposits ds x)"
proof -
  have "case bk_Received be w (v_address v) (v_cursor v) of (res, w') \<Rightarrow> (\<forall>ad. prefix (chain w ad) (chain w' ad)) \<and>
      (case res of Inl e \<Rightarrow> True | Inr ps \<Rightarrow> ps = after (v_cursor v) (chain w' (v_address v)))"
    by (rule assms(1)[unfolded watcher_contract_def, THEN conjunct2, THEN spec, THEN spec, THEN spec])
  then have grows: "prefix (chain w (v_address v)) (chain w1 (v_address v))"
    and ps: "ps = after (v_cursor v) (chain w1 (v_address v))"
    by (simp_all add: assms(4))
  from assms(2,3) obtain ds where ds: "in_step (chain w (v_address v)) (base vid) v (hb_ledgers h (v_ledger v)) ds"
    unfolding hub_in_step_def by blast
  from in_step_grows[OF ds grows] obtain rest where rest: "chain w1 (v_address v) = ds @ rest" "v_cursor v = cursor_after ds"
    "\<forall>x. fr (hb_ledgers h (v_ledger v)) x = base vid x + deposits ds x"
    by (auto simp: in_step_def prefix_def)
  have "distinct (map pay_Cursor (ds @ rest))" "[] \<notin> pay_Cursor ` set (ds @ rest)"
    unfolding rest(1)[symmetric] using assms(1) by (simp_all add: watcher_contract_def)
  from after_done[OF this] have "ps = rest" using ps rest(1,2) by simp
  with rest show ?thesis by blast
qed

lemma poll_venues_step:
  assumes "watcher_contract be chain"
  shows "hub_in_step chain base w h \<Longrightarrow> poll_venues be vids c w h = Some (changed, w', h') \<Longrightarrow> hub_in_step chain base w' h'"
proof (induction vids arbitrary: c w h)
  case Nil
  then show ?case by simp
next
  case (Cons vid vids)
  then obtain c1 w1 h1 where "poll_venue be vid w h = Some (c1, w1, h1)"
    "poll_venues be vids (c \<or> c1) w1 h1 = Some (changed, w', h')" by (auto simp: bind_eq_Some_conv)
  with Cons.IH poll_venue_step[OF assms Cons.prems(1)] show ?case by blast
qed

lemma saveCursors_in_step: "hub_in_step chain base w h \<Longrightarrow> hub_in_step chain base w (saveCursors written h)"
  by (simp add: saveCursors_def hub_in_step_def)

lemma watch_in_step:
  assumes "watcher_contract be chain"
  shows "hub_in_step chain base w h \<Longrightarrow> watch be ticks w h = Some (w', h') \<Longrightarrow> hub_in_step chain base w' h'"
proof (induction ticks arbitrary: w h)
  case Nil
  then show ?case by simp
next
  case (Cons t ts)
  then obtain c w1 h1 where p: "poll be w h = Some (c, w1, h1)"
    and rest: "watch be ts w1 (if c then saveCursors t h1 else h1) = Some (w', h')"
    by (auto simp: bind_eq_Some_conv)
  have "hub_in_step chain base w1 h1" using poll_venues_step[OF assms Cons.prems(1)] p unfolding poll_def by blast
  then have "hub_in_step chain base w1 (if c then saveCursors t h1 else h1)" by (simp add: saveCursors_in_step)
  with Cons.IH rest show ?case by blast
qed

subsection \<open>A concrete chain\<close>

definition ex_payment :: payment where
  "ex_payment = \<lparr>pay_TxRef = ''t1'', pay_From = ''G'', pay_Asset = ''XLM'', pay_Amount = ''2'', pay_Cursor = ''1''\<rparr>"

definition ex_chain :: "unit backend" where
  "ex_chain = \<lparr>bk_Send = (\<lambda>w secret asset dest amount. (Inr ''t2'', w)),
     bk_Received = (\<lambda>w addr c. (Inr (after c [ex_payment]), w)),
     bk_LatestCursor = (\<lambda>w addr. (Inr ''1'', w))\<rparr>"

lemma ex_contract: "watcher_contract ex_chain (\<lambda>_ _. [ex_payment])"
  by (simp add: watcher_contract_def ex_chain_def ex_payment_def)

definition ex_hub :: hub where
  "ex_hub = AddVenue (NewHub 0 (\<lambda>_. [(''XLM'', \<lparr>h_free = Decimal 0 2000000000000000000, h_locked = Zero\<rparr>)])) ''A'' 0 ''s'' ''addr''"

definition ex_venue :: venue where
  "ex_venue = \<lparr>v_id = ''A'', v_ledger = 0, v_secret = ''s'', v_address = ''addr'', v_cursor = []\<rparr>"

lemma ex_hub_venue: "hb_venues ex_hub = [(''A'', ex_venue)]"
  by (simp add: ex_hub_def AddVenue_def NewHub_def ex_venue_def Let_def)

lemma ex_in_step: "hub_in_step (\<lambda>_ _. [ex_payment]) (\<lambda>_. fr (hb_ledgers ex_hub 0)) w ex_hub"
  by (auto simp: hub_in_step_def ex_hub_venue in_step_def ex_venue_def cursor_after_def intro: exI[of _ "[]"] split: if_splits)

subsection \<open>Properties of the transfer hub\<close>

text \<open>C20: A withdrawal moves exactly what it debits: on success the chain was asked to pay the amount
  truncated to seven digits, and the source account (it could afford it) is debited that amount and
  nothing else changes; on any error all balances are as before, and the chain was not asked to pay
  unless its own send failed.\<close>

theorem withdraw_exact:
  assumes "Withdraw be w h vid asset amount dest = Some (res, w', h')"
  shows "case res of
      Inl e \<Rightarrow> (\<forall>a. account_of (hb_ledgers h' a) = account_of (hb_ledgers h a)) \<and>
        hb_inflight h' = hb_inflight h \<and> (w' = w \<or> (\<exists>m. e = SendFailed m))
    | Inr tx \<Rightarrow> \<exists>v x t. map_of (hb_venues h) vid = Some v \<and> Parse (StringPrec amount 7) = Inr x \<and>
        toBig x = truncated 7 (toBig amount) \<and> 0 < toBig x \<and> toBig x \<le> fr (hb_ledgers h (v_ledger v)) asset \<and>
        bk_Send be w (v_secret v) asset dest (StringPrec amount 7) = (Inr tx, w') \<and>
        account_of (hb_ledgers h' (v_ledger v)) = spec_debit (account_of (hb_ledgers h (v_ledger v))) asset (toBig x) \<and>
        (\<forall>a. a \<noteq> v_ledger v \<longrightarrow> hb_ledgers h' a = hb_ledgers h a) \<and>
        hb_inflight h' = hb_inflight h @ [t] \<and> tf_TxRef t = tx \<and> tf_Status t = ''pending''"
proof -
  from assms obtain r w1 h1 where s: "withdraw_send be w h vid asset amount dest = Some (r, w1, h1)"
    and res: "(res, w', h') = (case r of Inl e \<Rightarrow> (Inl e, w1, h1)
      | Inr (tx, x) \<Rightarrow> (Inr tx, w1, withdraw_record h1 vid asset x dest tx))"
    by (auto simp: Withdraw_def bind_eq_Some_conv)
  note b = withdraw_send_balances[OF s]
  show ?thesis
  proof (cases r)
    case (Inl e)
    with b res show ?thesis by (auto simp: same_balances_def)
  next
    case (Inr p)
    obtain tx x where p: "p = (tx, x)" by fastforce
    with b Inr obtain v where v: "withdraw_check h vid amount = Inr (v, StringPrec amount 7, x)"
      "bk_Send be w (v_secret v) asset dest (StringPrec amount 7) = (Inr tx, w1)"
      "\<forall>a. a \<noteq> v_ledger v \<longrightarrow> hb_ledgers h1 a = hb_ledgers h a" "toBig x \<le> fr (hb_ledgers h (v_ledger v)) asset"
      "account_of (hb_ledgers h1 (v_ledger v)) = spec_debit (account_of (hb_ledgers h (v_ledger v))) asset (toBig x)"
      "hb_inflight h1 = hb_inflight h" by auto
    have "\<exists>t. hb_inflight (withdraw_record h1 vid asset x dest tx) = hb_inflight h1 @ [t] \<and>
        tf_TxRef t = tx \<and> tf_Status t = ''pending''" by (simp add: withdraw_record_def Let_def)
    with v withdraw_check_Inr[OF v(1)] res Inr p show ?thesis by auto
  qed
qed

theorem withdraw_exact_witness:
  "\<exists>h'. Withdraw ex_chain () ex_hub ''A'' ''XLM'' (Decimal 0 1000000000000000001) ''B'' = Some (Inr ''t2'', (), h') \<and>
    fr (hb_ledgers h' 0) ''XLM'' = 1000000000000000000"
proof -
  let ?x = "Decimal 0 1000000000000000001" and ?y = "Decimal 0 1000000000000000000"
  have t: "truncated 7 (toBig ?x) = 1000000000000000000"
    by (simp add: truncated_def ScaleDigits_def toBig_eq sdiv_nonneg)
  then obtain y where y: "Parse (StringPrec ?x 7) = Inr y" "toBig y = toBig ?y"
    using Parse_StringPrec[of ?x 7] by (auto simp: clamp_prec_def ScaleDigits_def toBig_eq)
  then have "Parse (StringPrec ?x 7) = Inr ?y" by (simp add: toBig_inj)
  then have "\<exists>h'. Withdraw ex_chain () ex_hub ''A'' ''XLM'' ?x ''B'' = Some (Inr ''t2'', (), h')"
    by (simp add: Withdraw_def withdraw_send_def withdraw_check_def ex_hub_venue sendPrecision_def Sign_def Let_def
        Debit_def less_toBig toBig_eq holding_at_def touch_def ex_hub_def AddVenue_def NewHub_def ex_venue_def ex_chain_def
        Sub_def Sub64_def)
  then obtain h' where h': "Withdraw ex_chain () ex_hub ''A'' ''XLM'' ?x ''B'' = Some (Inr ''t2'', (), h')" by blast
  have "fr (hb_ledgers ex_hub 0) ''XLM'' = 2000000000000000000"
    by (simp add: ex_hub_def AddVenue_def NewHub_def fr_def holding_at_def toBig_eq Let_def)
  with withdraw_exact[OF h'] t have "fr (hb_ledgers h' 0) ''XLM'' = 1000000000000000000"
    by (auto simp: ex_hub_venue ex_venue_def account_of_def)
  with h' show ?thesis by blast
qed



lemma ex_parse_two: "Parse ''2'' = Inr (Decimal 0 2000000000000000000)"
  by (simp add: Parse_def parse_magnitude_def isDigit_def digit_value_def parse_fraction_def fromBigChecked_def
      scaleBig_num maxPos_num minNeg_num)

lemma ex_poll: "\<exists>h'. poll_venue ex_chain ''A'' () ex_hub = Some (True, (), h') \<and> map_of (hb_venues h') ''A'' = Some (ex_venue\<lparr>v_cursor := ''1''\<rparr>)"
  by (simp add: poll_venue_def ex_hub_venue ex_chain_def ex_venue_def after_def take_payment_def ex_payment_def
      ex_parse_two Credit_def addFree_def Sign_def Let_def ex_hub_def AddVenue_def NewHub_def touch_def holding_at_def
      Add_def Add64_def set_cursor_venue set_ledger_def settle_def)



subsection \<open>What the comments say otherwise\<close>

text \<open>The recorded amount has six digits where seven are sent: the least amount is recorded as zero.\<close>

lemma recorded_amount_is_short:
  "Parse (StringPrec (Decimal 0 100000000000) 7) = Inr (Decimal 0 100000000000) \<and>
   Parse (tf_Amount (last (hb_inflight (withdraw_record h ''A'' ''XLM'' (Decimal 0 100000000000) ''B'' ''t'')))) = Inr Zero"
proof -
  have "truncated (clamp_prec 7) (toBig (Decimal 0 100000000000)) = toBig (Decimal 0 100000000000)"
    "truncated (clamp_prec 6) (toBig (Decimal 0 100000000000)) = toBig Zero"
    by (simp_all add: truncated_def clamp_prec_def ScaleDigits_def toBig_eq sdiv_nonneg Zero_def)
  then obtain d e where "Parse (StringPrec (Decimal 0 100000000000) 7) = Inr d" "toBig d = toBig (Decimal 0 100000000000)"
    "Parse (StringPrec (Decimal 0 100000000000) 6) = Inr e" "toBig e = toBig Zero"
    using Parse_StringPrec[of "Decimal 0 100000000000" 7] Parse_StringPrec[of "Decimal 0 100000000000" 6] by metis
  moreover from this have "d = Decimal 0 100000000000" "e = Zero" by (simp_all only: toBig_inj)
  ultimately show ?thesis by (simp add: withdraw_record_def Let_def String_def)
qed

text \<open>When the tip of the chain cannot be read, a venue without a stored cursor starts at the beginning
  of its history, which the next poll credits.\<close>

lemma failed_tip_credits_history:
  assumes "\<And>w a. bk_LatestCursor be w a = (Inl e, w)"
  shows "init_venues be Map.empty vs w h = (w, h)" "after [] ps = ps"
  using assms by (induction vs arbitrary: w h) (auto simp: after_def)

text \<open>A deposit that settles before the transfer is recorded leaves it pending.\<close>

lemma settle_before_record:
  "\<forall>t\<in>set (hb_inflight (withdraw_record (settle h tx) vid a x d tx)) - set (hb_inflight (settle h tx)). tf_Status t = ''pending''"
  by (auto simp: withdraw_record_def Let_def)

end
