(* ===== verification/FillLifecycle.thy ===== *)
theory FillLifecycle
  imports OrderBook LedgerProofs DecimalText
begin

text \<open>
  What the order stores of the Binance and Coinbase edges share: a record of an order that
  fills are folded into, and that is cancelled. The locale states the laws of a record as
  both \<^verbatim>\<open>registry.go\<close> files implement them; the accounting of a sequence of fills is proved
  once from the laws. Also here: engine identifiers built from a sequence number.
\<close>

subsection \<open>Identifiers\<close>

definition HasPrefix :: "string \<Rightarrow> string \<Rightarrow> bool" where
  "HasPrefix s p \<longleftrightarrow> take (length p) s = p"

lemma HasPrefix_append [simp]: "HasPrefix (p @ s) p"
  by (simp add: HasPrefix_def)

lemma nat_string_inj: "nat_string m = nat_string n \<longleftrightarrow> m = n"
proof
  assume "nat_string m = nat_string n"
  then have "int m = int n" by (metis nat_string_value)
  then show "m = n" by simp
qed simp

lemma int_string_inj: "0 \<le> i \<Longrightarrow> 0 \<le> j \<Longrightarrow> int_string i = int_string j \<longleftrightarrow> i = j"
  by (auto simp: int_string_def nat_string_inj)

subsection \<open>Fills\<close>

text \<open>A fill: quantity and price.\<close>

type_synonym fill = "decimal \<times> decimal"

definition fills_qty :: "fill list \<Rightarrow> int" where
  "fills_qty fs = sum_list (map (\<lambda>(q, p). max 0 (toBig q)) fs)"

definition fills_quote :: "fill list \<Rightarrow> int" where
  "fills_quote fs = sum_list (map (\<lambda>(q, p). if 0 < toBig q then prod (toBig q) (toBig p) else 0) fs)"

lemma fills_simps [simp]: "fills_qty [] = 0" "fills_quote [] = 0"
  "fills_qty ((q, p) # fs) = max 0 (toBig q) + fills_qty fs"
  "fills_quote ((q, p) # fs) = (if 0 < toBig q then prod (toBig q) (toBig p) else 0) + fills_quote fs"
  by (simp_all add: fills_qty_def fills_quote_def)

lemma fills_qty_nonneg: "0 \<le> fills_qty fs"
  by (induction fs) auto

text \<open>
  A record: how much of it is executed, at what total value, out of what quantity, and whether it
  is filled or cancelled. A fill that is not positive changes nothing; a cancelled order keeps
  accounting but never becomes filled; a filled one is never cancelled.
\<close>

locale fill_record =
  fixes fill :: "'r \<Rightarrow> decimal \<Rightarrow> decimal \<Rightarrow> int \<Rightarrow> 'r option"
    and cancel :: "'r \<Rightarrow> int \<Rightarrow> 'r"
    and executed :: "'r \<Rightarrow> int" and quote :: "'r \<Rightarrow> int" and orig :: "'r \<Rightarrow> int"
    and filled :: "'r \<Rightarrow> bool" and cancelled :: "'r \<Rightarrow> bool"
  assumes fill_executed: "fill r q p t = Some r' \<Longrightarrow> executed r' = executed r + max 0 (toBig q)"
    and fill_quote: "fill r q p t = Some r' \<Longrightarrow> quote r' = quote r + (if 0 < toBig q then prod (toBig q) (toBig p) else 0)"
    and fill_orig: "fill r q p t = Some r' \<Longrightarrow> orig r' = orig r"
    and fill_cancelled: "fill r q p t = Some r' \<Longrightarrow> cancelled r' = cancelled r"
    and fill_reaches: "fill r q p t = Some r' \<Longrightarrow> \<not> cancelled r \<Longrightarrow> 0 < toBig q \<Longrightarrow> orig r \<le> executed r' \<Longrightarrow> filled r'"
    and fill_short: "fill r q p t = Some r' \<Longrightarrow> \<not> filled r \<Longrightarrow> executed r' < orig r \<Longrightarrow> \<not> filled r'"
    and fill_nothing: "fill r q p t = Some r' \<Longrightarrow> \<not> 0 < toBig q \<or> cancelled r \<Longrightarrow> filled r' = filled r"
    and cancel_filled: "filled r \<Longrightarrow> cancel r t = r"
    and cancel_open: "\<not> filled r \<Longrightarrow> cancelled (cancel r t) \<and> \<not> filled (cancel r t)"
    and cancel_amounts: "executed (cancel r t) = executed r" "quote (cancel r t) = quote r" "orig (cancel r t) = orig r"
begin

fun fill_all :: "'r \<Rightarrow> (fill \<times> int) list \<Rightarrow> 'r option" where
  "fill_all r [] = Some r"
| "fill_all r (((q, p), t) # fs) = do { r \<leftarrow> fill r q p t; fill_all r fs }"

lemma fill_all_amounts:
  "fill_all r fs = Some r' \<Longrightarrow>
    executed r' = executed r + fills_qty (map fst fs) \<and> quote r' = quote r + fills_quote (map fst fs) \<and>
    orig r' = orig r \<and> cancelled r' = cancelled r"
proof (induction r fs rule: fill_all.induct)
  case (1 r)
  then show ?case by simp
next
  case (2 r q p t fs)
  then obtain r1 where r1: "fill r q p t = Some r1" and rest: "fill_all r1 fs = Some r'"
    by (auto simp: bind_eq_Some_conv)
  from "2.IH"[OF r1 rest] fill_executed[OF r1] fill_quote[OF r1] fill_orig[OF r1] fill_cancelled[OF r1]
  show ?case by simp
qed

text \<open>A live order is filled exactly when its fills reach its quantity.\<close>

lemma fill_all_filled:
  "fill_all r fs = Some r' \<Longrightarrow> \<not> cancelled r \<Longrightarrow> 0 < orig r \<Longrightarrow> (filled r \<longleftrightarrow> orig r \<le> executed r) \<Longrightarrow>
    filled r' \<longleftrightarrow> orig r' \<le> executed r'"
proof (induction r fs rule: fill_all.induct)
  case (1 r)
  then show ?case by simp
next
  case (2 r q p t fs)
  then obtain r1 where r1: "fill r q p t = Some r1" and rest: "fill_all r1 fs = Some r'"
    by (auto simp: bind_eq_Some_conv)
  have "filled r1 \<longleftrightarrow> orig r1 \<le> executed r1"
    using fill_reaches[OF r1] fill_short[OF r1] fill_nothing[OF r1] fill_executed[OF r1] fill_orig[OF r1] "2.prems"(2,4)
    by (cases "0 < toBig q"; cases "filled r"; cases "orig r \<le> executed r + toBig q") (auto simp: max_def)
  with "2.IH"[OF r1 rest] fill_cancelled[OF r1] fill_orig[OF r1] "2.prems"(2,3) show ?case by simp
qed

lemma fill_all_cancelled: "fill_all r fs = Some r' \<Longrightarrow> cancelled r \<Longrightarrow> filled r' = filled r \<and> cancelled r'"
proof (induction r fs rule: fill_all.induct)
  case (1 r)
  then show ?case by simp
next
  case (2 r q p t fs)
  then obtain r1 where r1: "fill r q p t = Some r1" and rest: "fill_all r1 fs = Some r'"
    by (auto simp: bind_eq_Some_conv)
  with "2.IH"[OF r1 rest] fill_nothing[OF r1] fill_cancelled[OF r1] "2.prems"(2) show ?case by simp
qed

lemma fill_all_append: "fill_all r (xs @ ys) = do { r \<leftarrow> fill_all r xs; fill_all r ys }"
  by (induction r xs rule: fill_all.induct) (auto split: Option.bind_splits)

end

subsection \<open>Stores of records\<close>

text \<open>The fills a trade makes of an order: one for each side that names it.\<close>

definition trade_fills :: "string \<Rightarrow> trade \<Rightarrow> fill list" where
  "trade_fills e t = (if tr_BuyOrderID t = e then [(tr_Volume t, tr_Price t)] else []) @
     (if tr_SellOrderID t = e then [(tr_Volume t, tr_Price t)] else [])"

definition all_fills :: "string \<Rightarrow> (trade \<times> int) list \<Rightarrow> fill list" where
  "all_fills e ts = concat (map (\<lambda>(t, n). trade_fills e t) ts)"

lemma all_fills_simps [simp]: "all_fills e [] = []" "all_fills e ((t, n) # ts) = trade_fills e t @ all_fills e ts"
  by (simp_all add: all_fills_def)

text \<open>A store finds records by a key; a trade folds its fills, at the time of the hook, into the
  record of each order it names, and changes no other.\<close>

locale fill_store =
  fill_record fill cancel executed quote orig filled cancelled
  for fill :: "'r \<Rightarrow> decimal \<Rightarrow> decimal \<Rightarrow> int \<Rightarrow> 'r option" and cancel executed quote orig filled cancelled +
  fixes inv :: "'s \<Rightarrow> bool" and look :: "'k \<Rightarrow> 's \<Rightarrow> 'r option"
    and on_trade :: "trade \<Rightarrow> int \<Rightarrow> 's \<Rightarrow> 's option" and engine_id :: "'k \<Rightarrow> string"
  assumes on_trade_inv: "inv s \<Longrightarrow> on_trade t n s = Some s' \<Longrightarrow> inv s'"
    and on_trade_fills: "inv s \<Longrightarrow> look k s = Some r \<Longrightarrow> on_trade t n s = Some s' \<Longrightarrow>
      \<exists>r'. look k s' = Some r' \<and> fill_all r (map (\<lambda>f. (f, n)) (trade_fills (engine_id k) t)) = Some r'"
begin

lemma on_trades_inv: "inv s \<Longrightarrow> run_ops (\<lambda>(t, n). on_trade t n) ts s = Some s' \<Longrightarrow> inv s'"
  by (induction ts arbitrary: s) (auto simp: bind_eq_Some_conv dest: on_trade_inv)

lemma on_trades_fills:
  "inv s \<Longrightarrow> look k s = Some r \<Longrightarrow> run_ops (\<lambda>(t, n). on_trade t n) ts s = Some s' \<Longrightarrow>
    \<exists>r' fs. look k s' = Some r' \<and> fill_all r fs = Some r' \<and> map fst fs = all_fills (engine_id k) ts"
proof (induction ts arbitrary: s r)
  case Nil
  then show ?case by simp
next
  case (Cons x ts)
  obtain t n where x: "x = (t, n)" by fastforce
  with Cons.prems(3) obtain s1 where s1: "on_trade t n s = Some s1"
    and rest: "run_ops (\<lambda>(t, n). on_trade t n) ts s1 = Some s'" by (auto simp: bind_eq_Some_conv)
  from on_trade_fills[OF Cons.prems(1,2) s1] obtain r1 where r1: "look k s1 = Some r1"
    "fill_all r (map (\<lambda>f. (f, n)) (trade_fills (engine_id k) t)) = Some r1" by blast
  from Cons.IH[OF on_trade_inv[OF Cons.prems(1) s1] r1(1) rest] obtain r' fs where
    "look k s' = Some r'" "fill_all r1 fs = Some r'" "map fst fs = all_fills (engine_id k) ts" by blast
  then show ?case using r1(2)
    by (intro exI[of _ r'] exI[of _ "map (\<lambda>f. (f, n)) (trade_fills (engine_id k) t) @ fs"])
      (simp add: x fill_all_append comp_def)
qed

text \<open>Over any trades a record accounts for the fills of its order, and for no others.\<close>

lemma trades_accounted:
  assumes "inv s" "look k s = Some r" "run_ops (\<lambda>(t, n). on_trade t n) ts s = Some s'"
  shows "\<exists>r'. look k s' = Some r' \<and> executed r' = executed r + fills_qty (all_fills (engine_id k) ts) \<and>
    quote r' = quote r + fills_quote (all_fills (engine_id k) ts) \<and>
    (\<not> filled r \<and> \<not> cancelled r \<and> executed r = 0 \<and> 0 < orig r \<longrightarrow>
      (filled r' \<longleftrightarrow> orig r \<le> fills_qty (all_fills (engine_id k) ts))) \<and>
    (cancelled r \<longrightarrow> cancelled r')"
proof -
  from on_trades_fills[OF assms] obtain r' fs where r': "look k s' = Some r'" "fill_all r fs = Some r'"
    and fs: "map fst fs = all_fills (engine_id k) ts" by blast
  note amounts = fill_all_amounts[OF r'(2), unfolded fs]
  moreover have "filled r' \<longleftrightarrow> orig r \<le> fills_qty (all_fills (engine_id k) ts)"
    if "\<not> filled r" "\<not> cancelled r" "executed r = 0" "0 < orig r"
    using fill_all_filled[OF r'(2)] that amounts by simp
  ultimately show ?thesis using r'(1) by blast
qed

end

lemma next_seq: "0 \<le> sint s \<Longrightarrow> sint s < 2 ^ 63 - 1 \<Longrightarrow> sint (s + 1) = sint s + 1" for s :: i64
  by (simp add: sint_word_ariths signed_take_bit_int_eq_self)

end
