(* ===== verification/BinanceRegistryProofs.thy ===== *)
theory BinanceRegistryProofs
  imports BinanceRegistry
begin

text \<open>
  The Binance order store: its three indexes agree after any operations, client identifiers
  are unique, and the record of an order accounts for the trades of that order, by the laws of
  the locale \<open>fill_record\<close>.
\<close>

subsection \<open>The record\<close>

lemma applyFill_cases:
  assumes "bin_applyFill rec q p t = Some rec'"
  obtains (idle) "\<not> 0 < toBig q" "rec' = rec"
  | (fill) x y s where "0 < toBig q" "toBig x = toBig (or_ExecutedQty rec) + toBig q"
      "toBig y = toBig (or_CummulativeQuoteQty rec) + prod (toBig q) (toBig p)"
      "rec' = rec\<lparr>or_ExecutedQty := x, or_CummulativeQuoteQty := y, or_UpdateTime := t, or_Status := s\<rparr>"
      "s = (if or_Status rec = statusCanceled then statusCanceled else if or_OrigQty rec \<le> x then statusFilled
        else if 0 < toBig x then statusPartiallyFilled else or_Status rec)"
proof (cases "0 < toBig q")
  case False
  then have "rec' = rec" using assms by (simp add: bin_applyFill_def Sign_le_0)
  then show ?thesis by (rule idle[OF False])
next
  case True
  with assms obtain x v y where x: "Add (or_ExecutedQty rec) q = Some x" and v: "Mul q p = Some v"
    and y: "Add (or_CummulativeQuoteQty rec) v = Some y"
    by (auto simp: bin_applyFill_def Sign_le_0 bind_eq_Some_conv)
  have pos: "Sign x > 0 \<longleftrightarrow> 0 < toBig x" by (simp add: Sign_spec sgn_if)
  define s where "s = (if or_Status rec = statusCanceled then statusCanceled else if or_OrigQty rec \<le> x then statusFilled
    else if 0 < toBig x then statusPartiallyFilled else or_Status rec)"
  have "rec' = rec\<lparr>or_ExecutedQty := x, or_CummulativeQuoteQty := y, or_UpdateTime := t, or_Status := s\<rparr>"
    using x v y True assms by (cases rec) (auto simp: bin_applyFill_def Sign_le_0 pos Let_def s_def)
  then show ?thesis
    by (rule fill[OF True dec.add_value[OF x] dec.add_value[OF y, unfolded Mul_prod[OF v]]]) (rule s_def)
qed

interpretation bin_fill: fill_record bin_applyFill bin_cancelRecord "\<lambda>r. toBig (or_ExecutedQty r)"
  "\<lambda>r. toBig (or_CummulativeQuoteQty r)" "\<lambda>r. toBig (or_OrigQty r)" "\<lambda>r. or_Status r = statusFilled"
  "\<lambda>r. or_Status r = statusCanceled"
  by unfold_locales
    ((erule applyFill_cases, simp, simp add: le_toBig status_defs split: if_split_asm)
      | simp add: bin_cancelRecord_def status_defs)+

text \<open>The identity of a record never changes.\<close>

definition rec_ids :: "order_record \<Rightarrow> int \<times> string \<times> string" where
  "rec_ids rec = (or_OrderID rec, or_EngineID rec, or_ClientOrderID rec)"

lemma applyFill_ids: "bin_applyFill rec q p t = Some rec' \<Longrightarrow> rec_ids rec' = rec_ids rec"
  by (auto elim!: applyFill_cases simp: rec_ids_def)

lemma cancelRecord_ids: "rec_ids (bin_cancelRecord rec t) = rec_ids rec"
  by (simp add: rec_ids_def bin_cancelRecord_def)

subsection \<open>Coherence of the indexes\<close>

text \<open>
  Every tracked order has a position of its own in the heap, its three identifiers lead to it,
  and no identifier leads anywhere else; order identifiers are at most the sequence number.
\<close>

definition tracked :: "registry \<Rightarrow> int \<Rightarrow> nat \<Rightarrow> bool" where
  "tracked r oid p \<longleftrightarrow> map_of (rg_byOrderID r) oid = Some p"

definition coherent_reg :: "registry \<Rightarrow> bool" where
  "coherent_reg r \<longleftrightarrow> distinct (map fst (rg_byOrderID r)) \<and> 0 \<le> sint (rg_seq r) \<and>
     (\<forall>oid p. tracked r oid p \<longrightarrow> p < length (rg_heap r) \<and> or_OrderID (rg_heap r ! p) = oid \<and>
        or_EngineID (rg_heap r ! p) = bin_EngineID oid \<and> 1 \<le> oid \<and> oid \<le> sint (rg_seq r)) \<and>
     (\<forall>e p. rg_byEngine r e = Some p \<longleftrightarrow> (\<exists>oid. tracked r oid p \<and> or_EngineID (rg_heap r ! p) = e)) \<and>
     (\<forall>c p. rg_byClient r c = Some p \<longleftrightarrow> (\<exists>oid. tracked r oid p \<and> or_ClientOrderID (rg_heap r ! p) = c))"

lemma tracked_own:
  assumes "coherent_reg r" "tracked r oid p"
  shows "p < length (rg_heap r)" "or_OrderID (rg_heap r ! p) = oid" "or_EngineID (rg_heap r ! p) = bin_EngineID oid"
    "1 \<le> oid" "oid \<le> sint (rg_seq r)"
  using assms unfolding coherent_reg_def by blast+

lemma index_engine:
  assumes "coherent_reg r"
  shows "rg_byEngine r e = Some p \<longleftrightarrow> (\<exists>oid. tracked r oid p \<and> or_EngineID (rg_heap r ! p) = e)"
  using assms unfolding coherent_reg_def by blast

lemma index_client:
  assumes "coherent_reg r"
  shows "rg_byClient r c = Some p \<longleftrightarrow> (\<exists>oid. tracked r oid p \<and> or_ClientOrderID (rg_heap r ! p) = c)"
  using assms unfolding coherent_reg_def by blast

lemma coherent_reg_new: "coherent_reg bin_NewRegistry"
  by (simp add: coherent_reg_def bin_NewRegistry_def tracked_def)

lemma EngineID_inj: "0 \<le> i \<Longrightarrow> 0 \<le> j \<Longrightarrow> bin_EngineID i = bin_EngineID j \<longleftrightarrow> i = j"
  by (simp add: bin_EngineID_def int_string_inj)

lemma put_record_simps [simp]: "rg_byOrderID (put_record r p rec) = rg_byOrderID r" "rg_seq (put_record r p rec) = rg_seq r"
  "rg_byEngine (put_record r p rec) = rg_byEngine r" "rg_byClient (put_record r p rec) = rg_byClient r"
  "length (rg_heap (put_record r p rec)) = length (rg_heap r)" "tracked (put_record r p rec) = tracked r"
  by (simp_all add: put_record_def tracked_def[abs_def])

lemma put_record_ids: "rec_ids rec = rec_ids (rg_heap r ! p) \<Longrightarrow> rec_ids (rg_heap (put_record r p rec) ! q) = rec_ids (rg_heap r ! q)"
  by (cases "p < length (rg_heap r)") (auto simp: put_record_def nth_list_update list_update_beyond)

lemma coherent_put:
  assumes "coherent_reg r" "rec_ids rec = rec_ids (rg_heap r ! p)"
  shows "coherent_reg (put_record r p rec)"
  using assms(1) put_record_ids[OF assms(2)] by (simp add: coherent_reg_def rec_ids_def)

lemma coherent_fillOrder: "coherent_reg r \<Longrightarrow> bin_fillOrder t n oid r = Some r' \<Longrightarrow> coherent_reg r' \<and> rg_seq r' = rg_seq r"
  by (auto simp: bin_fillOrder_def bind_eq_Some_conv split: if_splits option.splits intro!: coherent_put dest: applyFill_ids)

lemma coherent_OnTrade: "coherent_reg r \<Longrightarrow> bin_OnTrade t n r = Some r' \<Longrightarrow> coherent_reg r' \<and> rg_seq r' = rg_seq r"
proof (cases t)
  case None
  then show "coherent_reg r \<Longrightarrow> bin_OnTrade t n r = Some r' \<Longrightarrow> coherent_reg r' \<and> rg_seq r' = rg_seq r"
    by (simp add: bin_OnTrade_def)
next
  case (Some tr)
  assume "coherent_reg r" "bin_OnTrade t n r = Some r'"
  with Some obtain r1 where "bin_fillOrder tr n (tr_BuyOrderID tr) r = Some r1"
    "bin_fillOrder tr n (tr_SellOrderID tr) r1 = Some r'"
    by (auto simp: bin_OnTrade_def bind_eq_Some_conv)
  with coherent_fillOrder \<open>coherent_reg r\<close> show "coherent_reg r' \<and> rg_seq r' = rg_seq r" by metis
qed

lemma coherent_OnCancel: "coherent_reg r \<Longrightarrow> coherent_reg (bin_OnCancel x n r) \<and> rg_seq (bin_OnCancel x n r) = rg_seq r"
  by (auto simp: bin_OnCancel_def cancelRecord_ids split: option.split intro!: coherent_put)

lemma coherent_MarkCanceled: "coherent_reg r \<Longrightarrow> coherent_reg (bin_MarkCanceled r x n) \<and> rg_seq (bin_MarkCanceled r x n) = rg_seq r"
  by (auto simp: bin_MarkCanceled_def cancelRecord_ids split: option.split intro!: coherent_put)

lemma coherent_Remove:
  assumes "coherent_reg r"
  shows "coherent_reg (bin_Remove r oid) \<and> rg_seq (bin_Remove r oid) = rg_seq r"
proof (cases "map_of (rg_byOrderID r) oid")
  case None
  with assms show ?thesis by (simp add: bin_Remove_def)
next
  case (Some p)
  let ?r = "bin_Remove r oid"
  have tr: "tracked ?r i q \<longleftrightarrow> i \<noteq> oid \<and> tracked r i q" for i q
    using Some by (simp add: tracked_def bin_Remove_def map_of_delete_eq Let_def)
  have same: "rg_heap ?r = rg_heap r" "rg_seq ?r = rg_seq r" "distinct (map fst (rg_byOrderID ?r))"
    "rg_byEngine ?r = (rg_byEngine r)(or_EngineID (rg_heap r ! p) := None)"
    "rg_byClient ?r = (rg_byClient r)(or_ClientOrderID (rg_heap r ! p) := None)"
    using Some assms by (simp_all add: bin_Remove_def Let_def coherent_reg_def distinct_delete)
  have p: "tracked r oid p" using Some by (simp add: tracked_def)
  have other: "i \<noteq> oid \<longleftrightarrow> q \<noteq> p" if "tracked r i q" for i q
  proof -
    have "or_OrderID (rg_heap r ! p) = oid" "or_OrderID (rg_heap r ! q) = i"
      using tracked_own[OF assms] p that by blast+
    then show ?thesis using p that unfolding tracked_def by (metis option.inject)
  qed
  have eng: "rg_byEngine r e = Some q \<longleftrightarrow> (\<exists>i. tracked r i q \<and> or_EngineID (rg_heap r ! q) = e)" for e q
    by (rule index_engine[OF assms])
  have cli: "rg_byClient r c = Some q \<longleftrightarrow> (\<exists>i. tracked r i q \<and> or_ClientOrderID (rg_heap r ! q) = c)" for c q
    by (rule index_client[OF assms])
  have gone: "\<not> (\<exists>i. tracked ?r i p)" using other[of _ p] tr by blast
  have eng': "rg_byEngine ?r e = Some q \<longleftrightarrow> (\<exists>i. tracked ?r i q \<and> or_EngineID (rg_heap r ! q) = e)" for e q
  proof (cases "e = or_EngineID (rg_heap r ! p)")
    case True
    then have "rg_byEngine r e = Some p" using eng p by blast
    then have "q = p" if "tracked r i q" "or_EngineID (rg_heap r ! q) = e" for i using eng[of e q] that by auto
    with True gone same(4) tr show ?thesis by auto
  next
    case False
    then show ?thesis using eng[of e q] other p same(4) tr by auto
  qed
  have cli': "rg_byClient ?r c = Some q \<longleftrightarrow> (\<exists>i. tracked ?r i q \<and> or_ClientOrderID (rg_heap r ! q) = c)" for c q
  proof (cases "c = or_ClientOrderID (rg_heap r ! p)")
    case True
    then have "rg_byClient r c = Some p" using cli p by blast
    then have "q = p" if "tracked r i q" "or_ClientOrderID (rg_heap r ! q) = c" for i using cli[of c q] that by auto
    with True gone same(5) tr show ?thesis by auto
  next
    case False
    then show ?thesis using cli[of c q] other p same(5) tr by auto
  qed
  have own: "\<forall>i q. tracked ?r i q \<longrightarrow> q < length (rg_heap r) \<and> or_OrderID (rg_heap r ! q) = i \<and>
      or_EngineID (rg_heap r ! q) = bin_EngineID i \<and> 1 \<le> i \<and> i \<le> sint (rg_seq r)"
    using tracked_own[OF assms] tr by blast
  have seq: "0 \<le> sint (rg_seq r)" using assms by (simp add: coherent_reg_def)
  show ?thesis unfolding coherent_reg_def same(1,2)
    by (intro conjI own seq same(3) refl; intro allI; rule eng' cli')
qed

text \<open>The record that a placement stores, and the client identifier it gets.\<close>

definition client_or_own :: "string \<Rightarrow> int \<Rightarrow> string" where
  "client_or_own c oid = (if c = [] then ''x-emu-'' @ int_string oid else c)"

definition fresh_record ::
    "int \<Rightarrow> string \<Rightarrow> string \<Rightarrow> string \<Rightarrow> string \<Rightarrow> string \<Rightarrow> decimal \<Rightarrow> decimal \<Rightarrow> string \<Rightarrow> int \<Rightarrow> order_record" where
  "fresh_record oid bsym esym side typ tif px qty c t =
     \<lparr>or_OrderID = oid, or_ClientOrderID = client_or_own c oid, or_EngineID = bin_EngineID oid,
      or_EngineSymbol = esym, or_BinanceSymbol = bsym, or_Side = side, or_Type = typ, or_TimeInForce = tif,
      or_Price = px, or_OrigQty = qty, or_ExecutedQty = Zero, or_CummulativeQuoteQty = Zero, or_Status = statusNew,
      or_Time = t, or_UpdateTime = t\<rparr>"

lemma fresh_simps [simp]: "or_OrderID (fresh_record oid bsym esym side typ tif px qty c t) = oid"
  "or_EngineID (fresh_record oid bsym esym side typ tif px qty c t) = bin_EngineID oid"
  "or_ClientOrderID (fresh_record oid bsym esym side typ tif px qty c t) = client_or_own c oid"
  by (simp_all add: fresh_record_def)

lemma RecordUnique_cases:
  assumes "bin_RecordUnique r bsym esym side typ tif px qty c t = (res, r')"
    and "0 \<le> sint (rg_seq r)" "sint (rg_seq r) < 2 ^ 63 - 1"
  obtains (duplicate) "res = Inl ErrDuplicateClientOrderID"
      "rg_byClient r (client_or_own c (sint (rg_seq r) + 1)) \<noteq> None" "r' = r\<lparr>rg_seq := rg_seq r + 1\<rparr>"
  | (stored) "res = Inr (length (rg_heap r))" "rg_byClient r (client_or_own c (sint (rg_seq r) + 1)) = None"
      "r' = r\<lparr>rg_seq := rg_seq r + 1,
        rg_heap := rg_heap r @ [fresh_record (sint (rg_seq r) + 1) bsym esym side typ tif px qty c t],
        rg_byOrderID := AList.update (sint (rg_seq r) + 1) (length (rg_heap r)) (rg_byOrderID r),
        rg_byEngine := (rg_byEngine r)(bin_EngineID (sint (rg_seq r) + 1) \<mapsto> length (rg_heap r)),
        rg_byClient := (rg_byClient r)(client_or_own c (sint (rg_seq r) + 1) \<mapsto> length (rg_heap r))\<rparr>"
proof -
  have own: "(if c = [] then ''x-emu-'' @ int_string i else c) = client_or_own c i" for i
    by (simp add: client_or_own_def)
  have seq: "sint (rg_seq r + 1) = sint (rg_seq r) + 1" using next_seq assms(2,3) by blast
  show ?thesis
  proof (cases "rg_byClient r (client_or_own c (sint (rg_seq r) + 1)) = None")
    case True
    with assms(1) show ?thesis
      by (intro stored) (simp_all add: bin_RecordUnique_def bin_record_def bin_nextID_def Let_def seq own fresh_record_def)
  next
    case False
    with assms(1) show ?thesis
      by (intro duplicate) (simp_all add: bin_RecordUnique_def bin_record_def bin_nextID_def Let_def seq own)
  qed
qed

lemma coherent_seq: "coherent_reg r \<Longrightarrow> 0 \<le> sint (rg_seq r)"
  unfolding coherent_reg_def by blast

lemma coherent_RecordUnique:
  assumes "coherent_reg r" "sint (rg_seq r) < 2 ^ 63 - 1"
    and "bin_RecordUnique r bsym esym side typ tif px qty c t = (res, r')"
  shows "coherent_reg r' \<and> sint (rg_seq r') = sint (rg_seq r) + 1"
  using assms(3) coherent_seq[OF assms(1)] assms(2)
proof (cases rule: RecordUnique_cases)
  case duplicate
  let ?n = "sint (rg_seq r) + 1"
  have seq: "sint (rg_seq r + 1) = ?n" using next_seq coherent_seq[OF assms(1)] assms(2) by blast
  have tr: "tracked r' = tracked r" using duplicate(3) by (simp add: tracked_def[abs_def])
  have "\<forall>oid p. tracked r oid p \<longrightarrow> p < length (rg_heap r) \<and> or_OrderID (rg_heap r ! p) = oid \<and>
      or_EngineID (rg_heap r ! p) = bin_EngineID oid \<and> 1 \<le> oid \<and> oid \<le> ?n"
    using tracked_own[OF assms(1)] by (meson add_increasing2 order_trans zero_le_one)
  moreover have "distinct (map fst (rg_byOrderID r))" using assms(1) unfolding coherent_reg_def by blast
  ultimately show ?thesis
    unfolding coherent_reg_def tr unfolding duplicate(3)
    using index_engine[OF assms(1)] index_client[OF assms(1)] coherent_seq[OF assms(1)] seq by simp
next
  case stored
  let ?n = "sint (rg_seq r) + 1" and ?k = "length (rg_heap r)"
  let ?rec = "fresh_record ?n bsym esym side typ tif px qty c t"
  have seq: "sint (rg_seq r + 1) = ?n" using next_seq coherent_seq[OF assms(1)] assms(2) by blast
  have fields: "rg_heap r' = rg_heap r @ [?rec]" "rg_seq r' = rg_seq r + 1"
    "rg_byOrderID r' = AList.update ?n ?k (rg_byOrderID r)"
    "rg_byEngine r' = (rg_byEngine r)(bin_EngineID ?n \<mapsto> ?k)"
    "rg_byClient r' = (rg_byClient r)(client_or_own c ?n \<mapsto> ?k)" using stored(3) by simp_all
  have tr: "tracked r' i q \<longleftrightarrow> (if i = ?n then q = ?k else tracked r i q)" for i q
    by (auto simp: tracked_def fields map_of_update_eq)
  have old: "i \<noteq> ?n" "q < ?k" "rg_heap r' ! q = rg_heap r ! q" if "tracked r i q" for i q
    using tracked_own[OF assms(1) that] by (simp_all add: fields nth_append)
  have new: "rg_heap r' ! ?k = ?rec" by (simp add: fields)
  have fresh_engine: "bin_EngineID i \<noteq> bin_EngineID ?n" if "tracked r i q" for i q
    using tracked_own[OF assms(1) that] EngineID_inj[of i ?n] coherent_seq[OF assms(1)] by simp
  have eng: "rg_byEngine r' e = Some q \<longleftrightarrow> (\<exists>i. tracked r' i q \<and> or_EngineID (rg_heap r' ! q) = e)" for e q
  proof (cases "e = bin_EngineID ?n")
    case True
    have "q = ?k" if "tracked r' i q" "or_EngineID (rg_heap r' ! q) = e" for i
      using that True tr old(3) fresh_engine tracked_own(3)[OF assms(1)] by (metis (full_types))
    moreover have "tracked r' ?n ?k" "or_EngineID (rg_heap r' ! ?k) = e" using tr new True by simp_all
    ultimately have "(\<exists>i. tracked r' i q \<and> or_EngineID (rg_heap r' ! q) = e) \<longleftrightarrow> q = ?k" by blast
    then show ?thesis using True by (auto simp: fields(4))
  next
    case False
    then have "(\<exists>i. tracked r' i q \<and> or_EngineID (rg_heap r' ! q) = e) \<longleftrightarrow>
        (\<exists>i. tracked r i q \<and> or_EngineID (rg_heap r ! q) = e)" using tr old(1,3) new by (metis fresh_simps(2))
    then show ?thesis using index_engine[OF assms(1), of e q] False by (simp add: fields(4))
  qed
  have cli: "rg_byClient r' d = Some q \<longleftrightarrow> (\<exists>i. tracked r' i q \<and> or_ClientOrderID (rg_heap r' ! q) = d)" for d q
  proof (cases "d = client_or_own c ?n")
    case True
    then have "\<not> (\<exists>i q. tracked r i q \<and> or_ClientOrderID (rg_heap r ! q) = d)"
      using index_client[OF assms(1), of d] stored(2) by auto
    then show ?thesis using True new tr old(3) by (auto simp: fields(5))
  next
    case False
    then have "(\<exists>i. tracked r' i q \<and> or_ClientOrderID (rg_heap r' ! q) = d) \<longleftrightarrow>
        (\<exists>i. tracked r i q \<and> or_ClientOrderID (rg_heap r ! q) = d)" using tr old(1,3) new by (metis fresh_simps(3))
    then show ?thesis using index_client[OF assms(1), of d q] False by (simp add: fields(5))
  qed
  have own: "\<forall>i q. tracked r' i q \<longrightarrow> q < length (rg_heap r') \<and> or_OrderID (rg_heap r' ! q) = i \<and>
      or_EngineID (rg_heap r' ! q) = bin_EngineID i \<and> 1 \<le> i \<and> i \<le> sint (rg_seq r')"
    using tr old new tracked_own[OF assms(1)] coherent_seq[OF assms(1)]
    by (auto simp: fields seq) (force dest: tracked_own[OF assms(1)])+
  have distinct: "distinct (map fst (rg_byOrderID r'))"
    using assms(1) unfolding coherent_reg_def fields by (simp add: distinct_update)
  have seq': "0 \<le> sint (rg_seq r')" "sint (rg_seq r') = ?n" using coherent_seq[OF assms(1)] seq fields(2) by simp_all
  show ?thesis unfolding coherent_reg_def by (intro conjI own distinct seq'; intro allI; rule eng cli)
qed

subsection \<open>Runs\<close>

datatype reg_op =
    RecordOp string string string string string decimal decimal string int
  | TradeOp "trade option" int
  | CancelOp "order option" int
  | MarkOp int int
  | RemoveOp int

fun reg_step :: "reg_op \<Rightarrow> registry \<Rightarrow> registry option" where
  "reg_step (RecordOp bsym esym side typ tif px qty c t) r = Some (snd (bin_RecordUnique r bsym esym side typ tif px qty c t))"
| "reg_step (TradeOp tr t) r = bin_OnTrade tr t r"
| "reg_step (CancelOp x t) r = Some (bin_OnCancel x t r)"
| "reg_step (MarkOp oid t) r = Some (bin_MarkCanceled r oid t)"
| "reg_step (RemoveOp oid) r = Some (bin_Remove r oid)"

lemma reg_step_coherent:
  assumes "coherent_reg r" "sint (rg_seq r) < 2 ^ 63 - 1" "reg_step x r = Some r'"
  shows "coherent_reg r' \<and> sint (rg_seq r') \<le> sint (rg_seq r) + 1"
proof (cases x)
  case (RecordOp bsym esym side kind tif px qty c t)
  then show ?thesis
    using assms coherent_RecordUnique[OF assms(1,2), of bsym esym side kind tif px qty c t]
    by (cases "bin_RecordUnique r bsym esym side kind tif px qty c t") auto
next
  case (TradeOp tr t)
  then show ?thesis using assms(3) coherent_OnTrade[OF assms(1)] by force
next
  case (CancelOp y t)
  then show ?thesis using assms(3) coherent_OnCancel[OF assms(1)] by force
next
  case (MarkOp oid t)
  then show ?thesis using assms(3) coherent_MarkCanceled[OF assms(1)] by force
next
  case (RemoveOp oid)
  then show ?thesis using assms(3) coherent_Remove[OF assms(1)] by force
qed

text \<open>The sequence number has room for as many operations as a run has.\<close>

lemma reg_run_coherent:
  "coherent_reg r \<Longrightarrow> sint (rg_seq r) + int (length ops) < 2 ^ 63 \<Longrightarrow> run_ops reg_step ops r = Some r' \<Longrightarrow>
    coherent_reg r'"
proof (induction ops arbitrary: r)
  case Nil
  then show ?case by simp
next
  case (Cons x ops)
  then obtain r1 where r1: "reg_step x r = Some r1" "run_ops reg_step ops r1 = Some r'"
    by (auto simp: bind_eq_Some_conv)
  have "sint (rg_seq r) < 2 ^ 63 - 1" using Cons.prems(2) by simp
  from reg_step_coherent[OF Cons.prems(1) this r1(1)] Cons.prems(2) Cons.IH[OF _ _ r1(2)] show ?case by simp
qed

subsection \<open>The record of an order under trades\<close>

lemma EngineID_prefix [simp]: "HasPrefix (bin_EngineID oid) bin_prefix"
  by (simp add: bin_EngineID_def)

lemma fillOrder_record:
  assumes "coherent_reg r" "tracked r oid p" "bin_fillOrder t n i r = Some r'"
  shows "coherent_reg r'" "tracked r' oid p"
    "bin_fill.fill_all (rg_heap r ! p) (if i = bin_EngineID oid then [((tr_Volume t, tr_Price t), n)] else []) =
      Some (rg_heap r' ! p)"
proof -
  show "coherent_reg r'" using coherent_fillOrder assms(1,3) by blast
  show "tracked r' oid p" using assms(2,3) by (auto simp: bin_fillOrder_def bind_eq_Some_conv split: if_splits option.splits)
  have p: "p < length (rg_heap r)" "rg_byEngine r (bin_EngineID oid) = Some p"
    using tracked_own[OF assms(1,2)] index_engine[OF assms(1)] assms(2) by auto
  have "q \<noteq> p" if "rg_byEngine r i = Some q" "i \<noteq> bin_EngineID oid" for q
    using that index_engine[OF assms(1)] tracked_own(3)[OF assms(1,2)] by auto
  then show "bin_fill.fill_all (rg_heap r ! p) (if i = bin_EngineID oid then [((tr_Volume t, tr_Price t), n)] else []) =
      Some (rg_heap r' ! p)"
    using assms(3) p
    by (auto simp: bin_fillOrder_def put_record_def bind_eq_Some_conv nth_list_update split: if_splits option.splits)
qed

lemma OnTrade_record:
  assumes "coherent_reg r" "tracked r oid p" "bin_OnTrade (Some t) n r = Some r'"
  shows "coherent_reg r' \<and> tracked r' oid p \<and>
    bin_fill.fill_all (rg_heap r ! p) (map (\<lambda>f. (f, n)) (trade_fills (bin_EngineID oid) t)) = Some (rg_heap r' ! p)"
proof -
  from assms(3) obtain r1 where r1: "bin_fillOrder t n (tr_BuyOrderID t) r = Some r1"
    and r2: "bin_fillOrder t n (tr_SellOrderID t) r1 = Some r'" by (auto simp: bin_OnTrade_def bind_eq_Some_conv)
  note f1 = fillOrder_record[OF assms(1,2) r1] note f2 = fillOrder_record[OF f1(1,2) r2]
  have "map (\<lambda>f. (f, n)) (trade_fills (bin_EngineID oid) t) =
      (if tr_BuyOrderID t = bin_EngineID oid then [((tr_Volume t, tr_Price t), n)] else []) @
      (if tr_SellOrderID t = bin_EngineID oid then [((tr_Volume t, tr_Price t), n)] else [])"
    by (simp add: trade_fills_def)
  then show ?thesis using f1 f2 bin_fill.fill_all_append by simp
qed

interpretation bin_store: fill_store bin_applyFill bin_cancelRecord "\<lambda>r. toBig (or_ExecutedQty r)"
  "\<lambda>r. toBig (or_CummulativeQuoteQty r)" "\<lambda>r. toBig (or_OrigQty r)" "\<lambda>r. or_Status r = statusFilled"
  "\<lambda>r. or_Status r = statusCanceled" coherent_reg "\<lambda>oid r. bin_Get r oid" "\<lambda>t n. bin_OnTrade (Some t) n" bin_EngineID
proof unfold_locales
  show "coherent_reg r'" if "coherent_reg r" "bin_OnTrade (Some t) n r = Some r'" for r t n r'
    using coherent_OnTrade that by blast
  show "\<exists>rec'. bin_Get r' oid = Some rec' \<and>
      bin_fill.fill_all rec (map (\<lambda>f. (f, n)) (trade_fills (bin_EngineID oid) t)) = Some rec'"
    if "coherent_reg r" "bin_Get r oid = Some rec" "bin_OnTrade (Some t) n r = Some r'" for r oid rec t n r'
  proof -
    from that(2) obtain p where "tracked r oid p" "rg_heap r ! p = rec" by (auto simp: bin_Get_def tracked_def)
    with OnTrade_record[OF that(1) _ that(3)] show ?thesis by (auto simp: bin_Get_def tracked_def)
  qed
qed

interpretation by_order_id: comparator bin_before or_OrderID
  by unfold_locales (simp add: bin_before_def)

subsection \<open>A concrete registry\<close>

definition ex_registry :: registry where
  "ex_registry = snd (bin_RecordUnique bin_NewRegistry ''BTCUSDT'' ''BTC-USD'' ''BUY'' ''LIMIT'' ''GTC''
     (Decimal 0 100) (Decimal 0 7) ''mine'' 1)"

lemma ex_registry_eq: "ex_registry = \<lparr>rg_heap = [fresh_record 1 ''BTCUSDT'' ''BTC-USD'' ''BUY'' ''LIMIT'' ''GTC''
     (Decimal 0 100) (Decimal 0 7) ''mine'' 1], rg_seq = 1, rg_byOrderID = [(1, 0)],
     rg_byEngine = [bin_EngineID 1 \<mapsto> 0], rg_byClient = [''mine'' \<mapsto> 0]\<rparr>"
  by (simp add: ex_registry_def bin_RecordUnique_def bin_record_def bin_nextID_def bin_NewRegistry_def Let_def
      fresh_record_def client_or_own_def)

lemma ex_registry_coherent: "coherent_reg ex_registry"
proof -
  have "sint (rg_seq bin_NewRegistry) < 2 ^ 63 - 1" by (simp add: bin_NewRegistry_def)
  from coherent_RecordUnique[OF coherent_reg_new this surjective_pairing] show ?thesis unfolding ex_registry_def by blast
qed

definition ex_fill_trade :: trade where
  "ex_fill_trade = \<lparr>tr_BuyOrderID = bin_EngineID 1, tr_SellOrderID = ''synth:1'', tr_Instrument = ''BTC-USD'',
     tr_Price = Decimal 0 100, tr_Volume = Decimal 0 7, tr_TakerSide = SideSell, tr_ExecutedAt = 0\<rparr>"

lemma ex_fill_run: "\<exists>r. bin_OnTrade (Some ex_fill_trade) 2 ex_registry = Some r"
proof -
  have "HasPrefix ''synth:1'' bin_prefix = False" by (simp add: HasPrefix_def bin_prefix_def)
  then show ?thesis
    by (simp add: bin_OnTrade_def ex_fill_trade_def bin_fillOrder_def ex_registry_eq bin_applyFill_def fresh_record_def
        Sign_def Add_def Add64_def Zero_def Mul_spec fromBigChecked_def toBig_eq scaleBig_num sdiv_nonneg
        maxPos_num minNeg_num Let_def)
qed

subsection \<open>Properties of the order store\<close>



text \<open>A placement is idempotent in its client identifier: while an order with it is tracked, a second
  placement is refused and no lookup changes; otherwise exactly one new order appears, with a new
  identifier, open and without fills.\<close>

theorem place_idempotent:
  assumes "coherent_reg r" "sint (rg_seq r) < 2 ^ 63 - 1" "c \<noteq> []"
    and "bin_RecordUnique r bsym esym side kind tif px qty c t = (res, r')"
  shows "if bin_GetByClientOrderID r c \<noteq> None
    then res = Inl ErrDuplicateClientOrderID \<and> bin_Get r' = bin_Get r \<and> bin_GetByClientOrderID r' = bin_GetByClientOrderID r
    else \<exists>p oid rec. res = Inr p \<and> bin_Get r oid = None \<and> bin_Get r' = (bin_Get r)(oid \<mapsto> rec) \<and>
      or_ClientOrderID rec = c \<and> or_OrderID rec = oid \<and> or_Status rec = statusNew \<and> toBig (or_ExecutedQty rec) = 0 \<and>
      or_OrigQty rec = qty"
  using assms(4) coherent_seq[OF assms(1)] assms(2)
proof (cases rule: RecordUnique_cases)
  case duplicate
  then show ?thesis using assms(3) by (auto simp: client_or_own_def bin_GetByClientOrderID_def[abs_def] bin_Get_def[abs_def])
next
  case stored
  let ?n = "sint (rg_seq r) + 1" and ?rec = "fresh_record (sint (rg_seq r) + 1) bsym esym side kind tif px qty c t"
  have c: "client_or_own c ?n = c" using assms(3) by (simp add: client_or_own_def)
  have none: "map_of (rg_byOrderID r) ?n = None"
  proof (cases "map_of (rg_byOrderID r) ?n")
    case (Some p)
    then show ?thesis using tracked_own(5)[OF assms(1), of ?n p] by (simp add: tracked_def)
  qed simp
  have "bin_Get r' i = ((bin_Get r)(?n \<mapsto> ?rec)) i" for i
    using tracked_own(1)[OF assms(1), of i] stored(3)
    by (cases "map_of (rg_byOrderID r) i") (auto simp: bin_Get_def map_of_update_eq tracked_def nth_append)
  then have "bin_Get r' = (bin_Get r)(?n \<mapsto> ?rec)" by blast
  moreover have "bin_Get r ?n = None" by (simp add: bin_Get_def none)
  moreover have "or_ClientOrderID ?rec = c" "or_OrderID ?rec = ?n" "or_Status ?rec = statusNew"
    "toBig (or_ExecutedQty ?rec) = 0" "or_OrigQty ?rec = qty"
    using c by (simp_all add: fresh_record_def toBig_Zero)
  ultimately have "\<exists>p oid rec. res = Inr p \<and> bin_Get r oid = None \<and> bin_Get r' = (bin_Get r)(oid \<mapsto> rec) \<and>
      or_ClientOrderID rec = c \<and> or_OrderID rec = oid \<and> or_Status rec = statusNew \<and> toBig (or_ExecutedQty rec) = 0 \<and>
      or_OrigQty rec = qty" using stored(1) by blast
  moreover have "bin_GetByClientOrderID r c = None" using stored(2) c by (simp add: bin_GetByClientOrderID_def)
  ultimately show ?thesis by simp
qed

theorem place_idempotent_witness:
  "fst (bin_RecordUnique ex_registry ''BTCUSDT'' ''BTC-USD'' ''BUY'' ''LIMIT'' ''GTC'' Zero Zero ''mine'' 2) =
    Inl ErrDuplicateClientOrderID"
proof -
  obtain res r' where r: "bin_RecordUnique ex_registry ''BTCUSDT'' ''BTC-USD'' ''BUY'' ''LIMIT'' ''GTC'' Zero Zero ''mine'' 2 = (res, r')"
    by fastforce
  have "sint (rg_seq ex_registry) < 2 ^ 63 - 1" by (simp add: ex_registry_eq)
  from place_idempotent[OF ex_registry_coherent this _ r] r show ?thesis
    by (simp add: bin_GetByClientOrderID_def ex_registry_eq)
qed

text \<open>C18: A record accounts for the trades of its order and no others: over any sequence of trades its
  executed quantity and value grow by those of the trades that name its engine identifier, and an
  order that was open is FILLED exactly when they reach its quantity.\<close>

theorem fills_accounted:
  assumes "coherent_reg r" "bin_Get r oid = Some rec"
    and "run_ops (\<lambda>(t, n). bin_OnTrade (Some t) n) ts r = Some r'"
  shows "\<exists>rec'. bin_Get r' oid = Some rec' \<and>
    toBig (or_ExecutedQty rec') = toBig (or_ExecutedQty rec) + fills_qty (all_fills (bin_EngineID oid) ts) \<and>
    toBig (or_CummulativeQuoteQty rec') = toBig (or_CummulativeQuoteQty rec) + fills_quote (all_fills (bin_EngineID oid) ts) \<and>
    (or_Status rec \<notin> {statusFilled, statusCanceled} \<and> toBig (or_ExecutedQty rec) = 0 \<and> 0 < toBig (or_OrigQty rec) \<longrightarrow>
      (or_Status rec' = statusFilled \<longleftrightarrow> toBig (or_OrigQty rec) \<le> fills_qty (all_fills (bin_EngineID oid) ts))) \<and>
    (or_Status rec = statusCanceled \<longrightarrow> or_Status rec' = statusCanceled)"
  using bin_store.trades_accounted[OF assms] by simp

theorem fills_accounted_witness:
  "\<exists>r rec. run_ops (\<lambda>(t, n). bin_OnTrade (Some t) n) [(ex_fill_trade, 2)] ex_registry = Some r \<and>
    bin_Get r 1 = Some rec \<and> or_Status rec = statusFilled \<and> toBig (or_ExecutedQty rec) = 7"
proof -
  obtain r where r: "run_ops (\<lambda>(t, n). bin_OnTrade (Some t) n) [(ex_fill_trade, 2)] ex_registry = Some r"
    using ex_fill_run by auto
  have "bin_Get ex_registry 1 = Some (fresh_record 1 ''BTCUSDT'' ''BTC-USD'' ''BUY'' ''LIMIT'' ''GTC''
      (Decimal 0 100) (Decimal 0 7) ''mine'' 1)" by (simp add: bin_Get_def ex_registry_eq)
  from fills_accounted[OF ex_registry_coherent this r]
  have "\<exists>rec. bin_Get r 1 = Some rec \<and> or_Status rec = statusFilled \<and> toBig (or_ExecutedQty rec) = 7"
    by (auto simp: fresh_record_def trade_fills_def ex_fill_trade_def bin_EngineID_def bin_prefix_def toBig_eq Zero_def
        status_defs)
  with r show ?thesis by blast
qed

text \<open>The list of open orders is exact: in the order of their identifiers, each tracked order that is
  NEW or PARTIALLY_FILLED (of the symbol, if one is given) once, and no other.\<close>

theorem open_orders_exact:
  assumes "coherent_reg r"
  shows "sorted_wrt (\<lambda>x y. or_OrderID x < or_OrderID y) (bin_OpenOrders r symbol) \<and>
    set (bin_OpenOrders r symbol) = {rec. \<exists>oid. bin_Get r oid = Some rec \<and> bin_listed symbol rec}"
proof -
  have d: "distinct (map fst (rg_byOrderID r))" using assms unfolding coherent_reg_def by blast
  let ?recs = "map (\<lambda>(_, p). rg_heap r ! p) (rg_byOrderID r)"
  have "or_OrderID (rg_heap r ! p) = oid" if "(oid, p) \<in> set (rg_byOrderID r)" for oid p
    using tracked_own(2)[OF assms, of oid p] that d by (simp add: tracked_def)
  then have "map or_OrderID ?recs = map fst (rg_byOrderID r)" by auto
  then have "distinct (map or_OrderID (filter (bin_listed symbol) ?recs))"
    using d by (metis distinct_map_filter)
  moreover have "mset (map or_OrderID (bin_OpenOrders r symbol)) = mset (map or_OrderID (filter (bin_listed symbol) ?recs))"
    by (simp add: bin_OpenOrders_def)
  ultimately have "distinct (map or_OrderID (bin_OpenOrders r symbol))" using mset_eq_imp_distinct_iff by blast
  moreover have "sorted (map or_OrderID (bin_OpenOrders r symbol))"
    unfolding bin_OpenOrders_def by (rule by_order_id.sorted_slice)
  ultimately have "sorted_wrt (<) (map or_OrderID (bin_OpenOrders r symbol))" by (simp add: strict_sorted_iff)
  moreover have "set (bin_OpenOrders r symbol) = {rec. \<exists>oid. bin_Get r oid = Some rec \<and> bin_listed symbol rec}"
    using d by (force simp: bin_OpenOrders_def bin_Get_def)
  ultimately show ?thesis by (simp add: sorted_wrt_map)
qed

theorem open_orders_exact_witness:
  "map or_ClientOrderID (bin_OpenOrders ex_registry ''BTC-USD'') = [''mine''] \<and>
    sorted_wrt (\<lambda>x y. or_OrderID x < or_OrderID y) (bin_OpenOrders ex_registry ''BTC-USD'')"
  using open_orders_exact[OF ex_registry_coherent, of "''BTC-USD''"]
  by (simp add: bin_OpenOrders_def ex_registry_eq bin_listed_def fresh_record_def client_or_own_def)

subsection \<open>What the comments say otherwise\<close>

text \<open>An empty client identifier is said to be always unique; the one generated for it may have been
  taken by an earlier order.\<close>

lemma generated_identifier_clashes:
  "let r = snd (bin_RecordUnique bin_NewRegistry s e sd k tif px qty (''x-emu-'' @ int_string 2) t)
   in fst (bin_RecordUnique r s e sd k tif px qty [] t) = Inl ErrDuplicateClientOrderID"
  by (simp add: bin_RecordUnique_def bin_record_def bin_nextID_def bin_NewRegistry_def Let_def)

end
