(* ===== verification/Float64.thy ===== *)
theory Float64
  imports DecimalText
begin

text \<open>
  The float64 operations of the Go language and its \<^verbatim>\<open>math\<close> package that the modelled code uses: an
  operation on finite numbers is the exact result, rounded to the nearest number with 53 bits and
  exponent at least -1074, ties to even. Then the two conversions of \<^verbatim>\<open>pkg/decimal\<close> that go
  through a float: \<^verbatim>\<open>Float64\<close> and \<^verbatim>\<open>MulFloat\<close>.
\<close>

subsection \<open>Rounding\<close>

function bit_count :: "int \<Rightarrow> int" where
  "bit_count n = (if n \<le> 0 then 0 else 1 + bit_count (n div 2))"
  by pat_completeness auto
termination by (relation "measure nat") auto

declare bit_count.simps [simp del]

text \<open>\<open>num / den * 2 ^ e\<close> with the quotient rounded half to even; too large a result is infinite.\<close>

definition round_quotient :: "bool \<Rightarrow> int \<Rightarrow> int \<Rightarrow> int \<Rightarrow> float64" where
  "round_quotient neg num den e =
     (let k = num div den; r = num mod den;
          k = (if 2 * r > den \<or> (2 * r = den \<and> odd k) then k + 1 else k)
      in if e > 971 \<or> (e = 971 \<and> k = 2 ^ 53) then Infinite neg else Finite (if neg then - k else k) e)"

text \<open>The number nearest to \<open>p / q\<close>, for \<open>q > 0\<close>.\<close>

definition float_of_ratio :: "int \<Rightarrow> int \<Rightarrow> float64" where
  "float_of_ratio p q =
     (if p = 0 then Finite 0 0
      else let a = \<bar>p\<bar>;
               e = max (bit_count a - bit_count q - 53) (- 1074);
               num = a * 2 ^ nat (- e);
               den = q * 2 ^ nat e
           in if num \<ge> 2 ^ 53 * den then round_quotient (p < 0) num (2 * den) (e + 1)
              else round_quotient (p < 0) num den e)"

subsection \<open>Operations\<close>

text \<open>The value \<open>m * 2 ^ e\<close> as a ratio.\<close>

definition ratio_num :: "int \<Rightarrow> int \<Rightarrow> int" where
  "ratio_num m e = m * 2 ^ nat e"

definition ratio_den :: "int \<Rightarrow> int" where
  "ratio_den e = 2 ^ nat (- e)"

fun float_mul :: "float64 \<Rightarrow> float64 \<Rightarrow> float64" where
  "float_mul NaN y = NaN"
| "float_mul (Infinite n) y =
     (case y of NaN \<Rightarrow> NaN | Infinite n' \<Rightarrow> Infinite (n \<noteq> n')
      | Finite m e \<Rightarrow> if m = 0 then NaN else Infinite (n \<noteq> (m < 0)))"
| "float_mul (Finite m e) y =
     (case y of NaN \<Rightarrow> NaN | Infinite n' \<Rightarrow> if m = 0 then NaN else Infinite ((m < 0) \<noteq> n')
      | Finite m' e' \<Rightarrow> float_of_ratio (ratio_num (m * m') (e + e')) (ratio_den (e + e')))"

fun float_neg :: "float64 \<Rightarrow> float64" where
  "float_neg NaN = NaN"
| "float_neg (Infinite n) = Infinite (\<not> n)"
| "float_neg (Finite m e) = Finite (- m) e"

fun float_add :: "float64 \<Rightarrow> float64 \<Rightarrow> float64" where
  "float_add NaN y = NaN"
| "float_add (Infinite n) y =
     (case y of NaN \<Rightarrow> NaN | Infinite n' \<Rightarrow> if n = n' then Infinite n else NaN | Finite m e \<Rightarrow> Infinite n)"
| "float_add (Finite m e) y =
     (case y of NaN \<Rightarrow> NaN | Infinite n' \<Rightarrow> Infinite n'
      | Finite m' e' \<Rightarrow>
          let b = min e e' in float_of_ratio (ratio_num (m * 2 ^ nat (e - b) + m' * 2 ^ nat (e' - b)) b) (ratio_den b))"

definition float_sub :: "float64 \<Rightarrow> float64 \<Rightarrow> float64" where
  "float_sub x y = float_add x (float_neg y)"

text \<open>Comparisons are false when an operand is not a number.\<close>

fun float_less :: "float64 \<Rightarrow> float64 \<Rightarrow> bool" where
  "float_less NaN y = False"
| "float_less (Infinite n) y = (case y of NaN \<Rightarrow> False | Infinite n' \<Rightarrow> n \<and> \<not> n' | Finite m e \<Rightarrow> n)"
| "float_less (Finite m e) y =
     (case y of NaN \<Rightarrow> False | Infinite n' \<Rightarrow> \<not> n'
      | Finite m' e' \<Rightarrow> let b = min e e' in m * 2 ^ nat (e - b) < m' * 2 ^ nat (e' - b))"

text \<open>\<^verbatim>\<open>math.Max\<close> and \<^verbatim>\<open>math.Min\<close>: an infinity of their side wins over NaN.\<close>

definition float_max :: "float64 \<Rightarrow> float64 \<Rightarrow> float64" where
  "float_max x y =
     (if x = Infinite False \<or> y = Infinite False then Infinite False
      else if x = NaN \<or> y = NaN then NaN else if float_less y x then x else y)"

definition float_min :: "float64 \<Rightarrow> float64 \<Rightarrow> float64" where
  "float_min x y =
     (if x = Infinite True \<or> y = Infinite True then Infinite True
      else if x = NaN \<or> y = NaN then NaN else if float_less x y then x else y)"

definition float_one :: float64 where
  "float_one = Finite 1 0"

definition float_zero :: float64 where
  "float_zero = Finite 0 0"

subsection \<open>Conversions of decimals\<close>

definition Float64 :: "decimal \<Rightarrow> float64" where
  "Float64 d = float_of_ratio (toBig d) scaleBig"

definition MulFloat :: "decimal \<Rightarrow> float64 \<Rightarrow> decimal option" where
  "MulFloat d f = FromFloat (float_mul (Float64 d) f)"

end
