(* ===== verification/GoStrings.thy ===== *)
theory GoStrings
  imports DecimalText
begin

text \<open>
  The functions of Go's \<^verbatim>\<open>strings\<close> and \<^verbatim>\<open>time\<close> packages that several parts of the program use: changes of case (of
  ASCII letters), and dates. An instant is the number of nanoseconds since 1970; a date is its year, month and day.
\<close>

subsection \<open>Letters\<close>

definition lower_char :: "char \<Rightarrow> char" where
  "lower_char c = (let n = of_char c :: nat in if 65 \<le> n \<and> n \<le> 90 then char_of (n + 32) else c)"

definition ToLower :: "string \<Rightarrow> string" where
  "ToLower s = map lower_char s"

definition upper_char :: "char \<Rightarrow> char" where
  "upper_char c = (let n = of_char c :: nat in if 97 \<le> n \<and> n \<le> 122 then char_of (n - 32) else c)"

definition ToUpper :: "string \<Rightarrow> string" where
  "ToUpper s = map upper_char s"

subsection \<open>Dates\<close>

definition leap_year :: "int \<Rightarrow> bool" where
  "leap_year y \<longleftrightarrow> 4 dvd y \<and> (\<not> 100 dvd y \<or> 400 dvd y)"

definition month_days :: "int \<Rightarrow> int \<Rightarrow> int" where
  "month_days y m =
     (if m = 2 then (if leap_year y then 29 else 28)
      else if m = 4 \<or> m = 6 \<or> m = 9 \<or> m = 11 then 30 else 31)"

definition year_days :: "int \<Rightarrow> int" where
  "year_days y = (if leap_year y then 366 else 365)"

text \<open>The days from 1 January 1970 to the first of January of a year, and from there to the first of a month.\<close>

definition days_to_year :: "int \<Rightarrow> int" where
  "days_to_year y = 365 * (y - 1970) + (y - 1) div 4 - (y - 1) div 100 + (y - 1) div 400 - 477"

definition days_to_month :: "int \<Rightarrow> int \<Rightarrow> int" where
  "days_to_month y m = sum_list (map (\<lambda>i. month_days y (int i)) [1..<nat m])"

definition days_of_date :: "int \<Rightarrow> int \<Rightarrow> int \<Rightarrow> int" where
  "days_of_date y m d = days_to_year y + days_to_month y m + (d - 1)"

lemma pred_div:
  fixes k y :: int
  assumes "0 < k"
  shows "y div k = (y - 1) div k + (if k dvd y then 1 else 0)"
proof (cases "k dvd y")
  case True
  then obtain q where "y = k * q" by blast
  then have "(y - 1) div k = q - 1" using assms by (intro int_div_pos_eq[of _ _ _ "k - 1"]) (auto simp: algebra_simps)
  with True \<open>y = k * q\<close> assms show ?thesis by simp
next
  case False
  then have "y mod k \<noteq> 0" by (simp add: dvd_eq_mod_eq_0)
  moreover have "0 \<le> y mod k" "y mod k < k" using assms by simp_all
  ultimately have "(y - 1) div k = y div k"
    by (intro int_div_pos_eq[of _ _ _ "y mod k - 1"]) (auto simp: algebra_simps)
  with False show ?thesis by simp
qed

lemma days_to_year_Suc: "days_to_year (y + 1) = days_to_year y + year_days y"
proof -
  have count: "(if a then 1 else 0) - (if b then 1 else 0) + (if c then 1 else 0) = (if a \<and> (\<not> b \<or> c) then 366 else 365) - (365 :: int)"
    if "c \<longrightarrow> b" "b \<longrightarrow> a" for a b c
    using that by (cases a; cases b; cases c) simp_all
  have "400 dvd y \<longrightarrow> 100 dvd y" using dvd_trans[of 100 400 y] by (intro impI) (simp only: dvd_numeral_simp, simp)
  moreover have "100 dvd y \<longrightarrow> 4 dvd y" using dvd_trans[of 4 100 y] by (intro impI) (simp only: dvd_numeral_simp, simp)
  ultimately have "(if 4 dvd y then 1 else 0) - (if 100 dvd y then 1 else 0) + (if 400 dvd y then 1 else 0) = year_days y - 365"
    unfolding year_days_def leap_year_def by (intro count)
  moreover have "z1 = z + yd" if "f4 - f100 + f400 = yd - 365" "z1 = 365 * (y - 1969) + a - b + c - 477"
    "z = 365 * (y - 1970) + a' - b' + c' - 477" "a = a' + f4" "b = b' + f100" "c = c' + f400" for z z1 yd a a' b b' c c' f4 f100 f400
    using that by (simp add: algebra_simps)
  moreover have "days_to_year (y + 1) = 365 * (y - 1969) + y div 4 - y div 100 + y div 400 - 477"
    by (simp add: days_to_year_def)
  ultimately show ?thesis using days_to_year_def[of y] pred_div[of 4 y] pred_div[of 100 y] pred_div[of 400 y] by simp
qed

lemma year_days_bounds: "365 \<le> year_days y" "year_days y \<le> 366"
  by (simp_all add: year_days_def)

text \<open>The year of a day, looked for from \<open>y\<close> on, and the month of a day of a year, from \<open>m\<close> on.\<close>

function year_from :: "int \<Rightarrow> int \<Rightarrow> int" where
  "year_from n y = (if n < days_to_year (y + 1) then y else year_from n (y + 1))"
  by pat_completeness auto
termination
proof (relation "measure (\<lambda>(n, y). nat (n + 1 - days_to_year y))")
  fix n y :: int assume "\<not> n < days_to_year (y + 1)"
  then show "((n, y + 1), (n, y)) \<in> measure (\<lambda>(n, y). nat (n + 1 - days_to_year y))"
    using year_days_bounds(1)[of y] by (simp add: days_to_year_Suc)
qed simp

declare year_from.simps [simp del]

fun month_from :: "int \<Rightarrow> int \<Rightarrow> int list \<Rightarrow> int \<times> int" where
  "month_from y k [] = (12, k + 1)"
| "month_from y k (m # ms) = (if k < month_days y m then (m, k + 1) else month_from y (k - month_days y m) ms)"

definition date_of_days :: "int \<Rightarrow> int \<times> int \<times> int" where
  "date_of_days n =
     (let y = year_from n (1970 + (if n \<ge> 0 then n div 366 else n div 365));
          (m, d) = month_from y (n - days_to_year y) [1, 2, 3, 4, 5, 6, 7, 8, 9, 10, 11, 12]
      in (y, m, d))"

definition day_ns :: int where "day_ns = 86400000000000"

text \<open>\<^verbatim>\<open>time.Date\<close> at a full hour, \<^verbatim>\<open>UTC().Date()\<close> and \<^verbatim>\<open>UnixMilli\<close>.\<close>

definition time_at_hour :: "int \<Rightarrow> int \<Rightarrow> int \<Rightarrow> int \<Rightarrow> int" where
  "time_at_hour y m d h = days_of_date y m d * day_ns + h * 3600000000000"

definition utc_date :: "int \<Rightarrow> int \<times> int \<times> int" where
  "utc_date t = date_of_days (t div day_ns)"

definition unix_milli :: "int \<Rightarrow> int" where
  "unix_milli t = t div 1000000"

subsection \<open>A date and its day\<close>

definition valid_date :: "int \<Rightarrow> int \<Rightarrow> int \<Rightarrow> bool" where
  "valid_date y m d \<longleftrightarrow> 1 \<le> m \<and> m \<le> 12 \<and> 1 \<le> d \<and> d \<le> month_days y m"

lemma days_to_year_mono: "y \<le> z \<Longrightarrow> days_to_year y \<le> days_to_year z"
proof (induction z rule: int_ge_induct)
  case (step i)
  then show ?case using year_days_bounds(1)[of i] by (simp add: days_to_year_Suc)
qed simp

lemma days_to_year_upper: "1970 \<le> y \<Longrightarrow> days_to_year (y + 1) \<le> 366 * (y - 1970) + 366"
proof (induction y rule: int_ge_induct)
  case base
  show ?case by (simp add: days_to_year_def)
next
  case (step i)
  then show ?case using year_days_bounds(2)[of "i + 1"] days_to_year_Suc[of "i + 1"] by simp
qed

lemma days_to_year_before: "y \<le> 1969 \<Longrightarrow> days_to_year (y + 1) \<le> 365 * (y - 1969)"
proof (induction y rule: int_le_induct)
  case base
  show ?case by (simp add: days_to_year_def)
next
  case (step i)
  then show ?case using year_days_bounds(1)[of i] days_to_year_Suc[of i] by simp
qed

lemma year_from_eq: "days_to_year y \<le> n \<Longrightarrow> n < days_to_year (y + 1) \<Longrightarrow> z \<le> y \<Longrightarrow> year_from n z = y"
proof (induction "nat (y - z)" arbitrary: z)
  case 0
  then show ?case by (subst year_from.simps) simp
next
  case (Suc k)
  then have "z + 1 \<le> y" by simp
  with Suc.prems days_to_year_mono[of "z + 1" y] have "\<not> n < days_to_year (z + 1)" by simp
  with Suc.hyps(1)[of "z + 1"] Suc.hyps(2) Suc.prems show ?case by (subst year_from.simps) simp
qed

lemma month_days_values [simp]:
  "month_days y 1 = 31" "month_days y 3 = 31" "month_days y 4 = 30" "month_days y 5 = 31" "month_days y 6 = 30"
  "month_days y 7 = 31" "month_days y 8 = 31" "month_days y 9 = 30" "month_days y 10 = 31" "month_days y 11 = 30" "month_days y 12 = 31"
  by (simp_all add: month_days_def)

lemma february: "28 \<le> month_days y 2" "month_days y 2 \<le> 29" "year_days y = 337 + month_days y 2"
  by (simp_all add: month_days_def year_days_def)

lemma days_to_month_values:
  "days_to_month y 1 = 0" "days_to_month y 2 = 31" "days_to_month y 3 = 31 + month_days y 2" "days_to_month y 4 = 62 + month_days y 2"
  "days_to_month y 5 = 92 + month_days y 2" "days_to_month y 6 = 123 + month_days y 2" "days_to_month y 7 = 153 + month_days y 2"
  "days_to_month y 8 = 184 + month_days y 2" "days_to_month y 9 = 215 + month_days y 2" "days_to_month y 10 = 245 + month_days y 2"
  "days_to_month y 11 = 276 + month_days y 2" "days_to_month y 12 = 306 + month_days y 2"
  by (simp_all add: days_to_month_def upt_rec)

lemma months:
  assumes "1 \<le> m" "m \<le> 12"
  obtains "m = 1" | "m = 2" | "m = 3" | "m = 4" | "m = 5" | "m = 6" | "m = 7" | "m = 8" | "m = 9" | "m = 10" | "m = 11" | "m = (12 :: int)"
proof -
  have "m = 1 \<or> m = 2 \<or> m = 3 \<or> m = 4 \<or> m = 5 \<or> m = 6 \<or> m = 7 \<or> m = 8 \<or> m = 9 \<or> m = 10 \<or> m = 11 \<or> m = 12"
    using assms by presburger
  then show thesis using that by blast
qed

lemma month_from_eq:
  assumes "valid_date y m d"
  shows "month_from y (days_to_month y m + (d - 1)) [1, 2, 3, 4, 5, 6, 7, 8, 9, 10, 11, 12] = (m, d)"
proof -
  have m: "1 \<le> m" "m \<le> 12" and d: "1 \<le> d" "d \<le> month_days y m" using assms by (simp_all add: valid_date_def)
  from m show ?thesis by (rule months) (use d february[of y] in \<open>simp_all add: days_to_month_values\<close>)
qed

lemma date_in_year:
  assumes "valid_date y m d"
  shows "0 \<le> days_to_month y m + (d - 1) \<and> days_to_month y m + (d - 1) < year_days y"
proof -
  have m: "1 \<le> m" "m \<le> 12" and d: "1 \<le> d" "d \<le> month_days y m" using assms by (simp_all add: valid_date_def)
  from m show ?thesis by (rule months) (use d february[of y] in \<open>simp_all add: days_to_month_values\<close>)
qed

lemma date_of_days_of_date:
  assumes "valid_date y m d"
  shows "date_of_days (days_of_date y m d) = (y, m, d)"
proof -
  let ?n = "days_of_date y m d"
  have n: "days_to_year y \<le> ?n" "?n < days_to_year (y + 1)"
    using date_in_year[OF assms] by (simp_all add: days_of_date_def days_to_year_Suc)
  have "1970 + (if ?n \<ge> 0 then ?n div 366 else ?n div 365) \<le> y"
  proof (cases "1970 \<le> y")
    case True
    then have "0 \<le> ?n" using n(1) days_to_year_mono[of 1970 y] by (simp add: days_to_year_def)
    moreover have "?n < 366 * (y - 1970) + 366" using n(2) days_to_year_upper[OF True] by simp
    then have "?n div 366 \<le> y - 1970" using zdiv_mono1[of ?n "366 * (y - 1970) + 365" 366] by simp
    ultimately show ?thesis by simp
  next
    case False
    then have u: "?n < 365 * (y - 1969)" using n(2) days_to_year_before[of y] by simp
    then have "?n div 365 \<le> y - 1970" using zdiv_mono1[of ?n "365 * (y - 1970) + 364" 365] by simp
    then show ?thesis using u False by simp
  qed
  then have "year_from ?n (1970 + (if ?n \<ge> 0 then ?n div 366 else ?n div 365)) = y" by (intro year_from_eq n)
  moreover have "?n - days_to_year y = days_to_month y m + (d - 1)" by (simp add: days_of_date_def)
  ultimately show ?thesis using month_from_eq[OF assms] unfolding date_of_days_def by (simp del: month_from.simps)
qed

lemma utc_date_at_hour: "valid_date y m d \<Longrightarrow> 0 \<le> h \<Longrightarrow> h < 24 \<Longrightarrow> utc_date (time_at_hour y m d h) = (y, m, d)"
proof -
  assume v: "valid_date y m d" and h: "0 \<le> h" "h < 24"
  have "time_at_hour y m d h div day_ns = days_of_date y m d"
    using h by (simp add: time_at_hour_def day_ns_def div_pos_pos_trivial)
  then show ?thesis using date_of_days_of_date[OF v] by (simp add: utc_date_def)
qed

end
