(* ===== verification/FloatText.thy ===== *)
theory FloatText
  imports Float64 GoStrings
begin

text \<open>
  More of Go's float64: division, comparison by value, and the texts of \<^verbatim>\<open>strconv\<close>: \<^verbatim>\<open>ParseFloat\<close> and
  \<^verbatim>\<open>FormatFloat(x, 'f', -1, 64)\<close>, which prints the shortest decimal that is read back as the same number. The theorem
  of the theory: what is printed is read back.
\<close>

subsection \<open>Division and comparison\<close>

fun float_div :: "float64 \<Rightarrow> float64 \<Rightarrow> float64" where
  "float_div NaN y = NaN"
| "float_div (Infinite n) y =
     (case y of NaN \<Rightarrow> NaN | Infinite n' \<Rightarrow> NaN | Finite m e \<Rightarrow> Infinite (n \<noteq> (m < 0)))"
| "float_div (Finite m e) y =
     (case y of NaN \<Rightarrow> NaN | Infinite n' \<Rightarrow> Finite 0 0
      | Finite m' e' \<Rightarrow>
          if m' = 0 then (if m = 0 then NaN else Infinite (m < 0))
          else float_of_ratio (sgn m' * ratio_num m (e - e')) (\<bar>m'\<bar> * ratio_den (e - e')))"

definition float_eq :: "float64 \<Rightarrow> float64 \<Rightarrow> bool" where
  "float_eq x y \<longleftrightarrow> x \<noteq> NaN \<and> y \<noteq> NaN \<and> \<not> float_less x y \<and> \<not> float_less y x"

definition float_le :: "float64 \<Rightarrow> float64 \<Rightarrow> bool" where
  "float_le x y \<longleftrightarrow> float_less x y \<or> float_eq x y"

definition float_of_int :: "int \<Rightarrow> float64" where
  "float_of_int i = float_of_ratio i 1"

subsection \<open>Reading\<close>

definition hex_value :: "char \<Rightarrow> int" where
  "hex_value c = (if isDigit c then digit_value c else int (of_char (lower_char c)) - 87)"

definition base_digit :: "bool \<Rightarrow> char \<Rightarrow> bool" where
  "base_digit hex c \<longleftrightarrow> isDigit c \<or> hex \<and> lower_char c \<in> {CHR ''a'', CHR ''b'', CHR ''c'', CHR ''d'', CHR ''e'', CHR ''f''}"

text \<open>The mantissa: the value of its digits, how many stand behind the point, whether there was a point and any digit, and the rest.\<close>

fun scan_mantissa :: "bool \<Rightarrow> int \<Rightarrow> nat \<Rightarrow> bool \<Rightarrow> bool \<Rightarrow> string \<Rightarrow> int \<times> nat \<times> bool \<times> string" where
  "scan_mantissa hex v k point any [] = (v, k, any, [])"
| "scan_mantissa hex v k point any (c # cs) =
     (if c = CHR ''_'' then scan_mantissa hex v k point any cs
      else if c = CHR ''.'' then (if point then (v, k, any, c # cs) else scan_mantissa hex v k True any cs)
      else if base_digit hex c then
        scan_mantissa hex (v * (if hex then 16 else 10) + hex_value c) (if point then k + 1 else k) point True cs
      else (v, k, any, c # cs))"

fun scan_exponent :: "int \<Rightarrow> string \<Rightarrow> int \<times> string" where
  "scan_exponent e [] = (e, [])"
| "scan_exponent e (c # cs) =
     (if c = CHR ''_'' then scan_exponent e cs
      else if isDigit c then scan_exponent (if e < 10000 then e * 10 + digit_value c else e) cs
      else (e, c # cs))"

text \<open>An exponent, if one follows: it and the rest, or nothing when it is malformed.\<close>

definition read_exponent :: "bool \<Rightarrow> string \<Rightarrow> (int \<times> string) option" where
  "read_exponent hex s =
     (case s of [] \<Rightarrow> if hex then None else Some (0, [])
      | c # cs \<Rightarrow>
          if lower_char c \<noteq> (if hex then CHR ''p'' else CHR ''e'') then (if hex then None else Some (0, s))
          else let neg = (cs \<noteq> [] \<and> hd cs = CHR ''-'');
                   ds = (if cs \<noteq> [] \<and> (hd cs = CHR ''-'' \<or> hd cs = CHR ''+'') then tl cs else cs)
               in if ds = [] \<or> \<not> isDigit (hd ds) then None
                  else let (e, rest) = scan_exponent 0 ds in Some (if neg then - e else e, rest))"

text \<open>Where digit separators may stand: \<open>last\<close> is the kind of the character before.\<close>

datatype last_seen = SeenStart | SeenDigit | SeenSeparator | SeenOther

fun separators_ok :: "bool \<Rightarrow> last_seen \<Rightarrow> string \<Rightarrow> bool" where
  "separators_ok hex seen [] \<longleftrightarrow> seen \<noteq> SeenSeparator"
| "separators_ok hex seen (c # cs) \<longleftrightarrow>
     (if base_digit hex c then separators_ok hex SeenDigit cs
      else if c = CHR ''_'' then seen = SeenDigit \<and> separators_ok hex SeenSeparator cs
      else seen \<noteq> SeenSeparator \<and> separators_ok hex SeenOther cs)"

definition read_number :: "bool \<Rightarrow> string \<Rightarrow> float64 option" where
  "read_number neg s =
     (let hex = (length s > 2 \<and> hd s = CHR ''0'' \<and> lower_char (s ! 1) = CHR ''x'');
          (v, k, any, rest) = scan_mantissa hex 0 0 False False (if hex then drop 2 s else s)
      in if \<not> any then None
         else case read_exponent hex rest of None \<Rightarrow> None
           | Some (e, rest) \<Rightarrow>
               if rest \<noteq> [] then None
               else if CHR ''_'' \<in> set s \<and> \<not> separators_ok hex (if hex then SeenDigit else SeenStart) (if hex then drop 2 s else s) then None
               else let p = (if neg then - v else v);
                        x = (if hex then float_of_ratio (ratio_num p (e - 4 * int k)) (ratio_den (e - 4 * int k))
                             else float_of_ratio (p * 10 ^ nat (e - int k)) (10 ^ nat (int k - e)))
                    in case x of Finite m b \<Rightarrow> Some x | _ \<Rightarrow> None)"

definition ParseFloat :: "string \<Rightarrow> float64 option" where
  "ParseFloat s =
     (let neg = (s \<noteq> [] \<and> hd s = CHR ''-'');
          body = (if s \<noteq> [] \<and> (hd s = CHR ''-'' \<or> hd s = CHR ''+'') then tl s else s)
      in if ToLower s = ''nan'' then Some NaN
         else if ToLower body = ''inf'' \<or> ToLower body = ''infinity'' then Some (Infinite neg)
         else read_number neg body)"

subsection \<open>Printing\<close>

text \<open>How many zeros follow the point of \<open>p / q < 1\<close>.\<close>

function leading_zeros :: "int \<Rightarrow> int \<Rightarrow> nat" where
  "leading_zeros p q = (if p \<le> 0 \<or> 10 * p \<ge> q then 0 else leading_zeros (10 * p) q + 1)"
  by pat_completeness auto
termination by (relation "measure (\<lambda>(p, q). nat (q - p))") auto

declare leading_zeros.simps [simp del]

text \<open>The position of the decimal point: \<open>10 ^ (k - 1) \<le> p / q < 10 ^ k\<close>.\<close>

definition point_of :: "int \<Rightarrow> int \<Rightarrow> int" where
  "point_of p q = (if p \<ge> q then int (length (nat_string (nat (p div q)))) else - int (leading_zeros p q))"

text \<open>The value with \<open>d\<close> in its last place, which is \<open>j\<close> places behind the point; and the better one of the two
  numbers of \<open>n\<close> digits next to \<open>p / q\<close> that are read as \<open>x\<close>.\<close>

definition at_place :: "int \<Rightarrow> int \<Rightarrow> float64" where
  "at_place d j = float_of_ratio (d * 10 ^ nat (- j)) (10 ^ nat j)"

definition candidate :: "float64 \<Rightarrow> int \<Rightarrow> int \<Rightarrow> int \<Rightarrow> int option" where
  "candidate x p q j =
     (let num = p * 10 ^ nat j; den = q * 10 ^ nat (- j); d = num div den
      in if at_place d j = x \<and> at_place (d + 1) j = x
         then Some (if 2 * (num - d * den) > den \<or> (2 * (num - d * den) = den \<and> odd d) then d + 1 else d)
         else if at_place d j = x then Some d
         else if at_place (d + 1) j = x then Some (d + 1)
         else None)"

fun shortest :: "nat \<Rightarrow> float64 \<Rightarrow> int \<Rightarrow> int \<Rightarrow> int \<Rightarrow> (int \<times> int) option" where
  "shortest 0 x p q j = None"
| "shortest (Suc n) x p q j = (case candidate x p q j of Some d \<Rightarrow> Some (d, j) | None \<Rightarrow> shortest n x p q (j + 1))"

text \<open>The digits \<open>d\<close> with the last one \<open>j\<close> places behind the point; zeros at the end of the fraction are dropped.\<close>

definition trim_zeros :: "string \<Rightarrow> string" where
  "trim_zeros s = rev (dropWhile (\<lambda>c. c = CHR ''0'') (rev s))"

definition place_text :: "int \<Rightarrow> int \<Rightarrow> string" where
  "place_text d j =
     (if j \<le> 0 then nat_string (nat (d * 10 ^ nat (- j)))
      else let ip = d div 10 ^ nat j;
               fs = nat_string (nat (d mod 10 ^ nat j));
               fp = trim_zeros (replicate (nat j - length fs) (CHR ''0'') @ fs)
           in nat_string (nat ip) @ (if fp = [] then [] else CHR ''.'' # fp))"

definition FormatFloat :: "float64 \<Rightarrow> string" where
  "FormatFloat x =
     (case x of NaN \<Rightarrow> ''NaN'' | Infinite n \<Rightarrow> (if n then ''-Inf'' else ''+Inf'')
      | Finite m e \<Rightarrow>
          if m = 0 then ''0''
          else let p = ratio_num \<bar>m\<bar> e; q = ratio_den e; k = point_of p q
               in (if m < 0 then ''-'' else [])
                  @ (case shortest (nat (k + max 0 (- e)) + 1) (Finite \<bar>m\<bar> e) p q (1 - k) of
                       Some (d, j) \<Rightarrow> place_text d j | None \<Rightarrow> []))"

subsection \<open>The rounding depends on the value only\<close>

lemma bit_count_bounds: "0 < n \<Longrightarrow> \<exists>b. bit_count n = int b + 1 \<and> 2 ^ b \<le> n \<and> n < 2 ^ (b + 1)"
proof (induction n rule: bit_count.induct)
  case (1 n)
  show ?case
  proof (cases "n = 1")
    case True
    then show ?thesis by (intro exI[of _ 0]) (simp add: bit_count.simps)
  next
    case False
    then have "0 < n div 2" using 1(2) by linarith
    with 1 obtain b where "bit_count (n div 2) = int b + 1" "2 ^ b \<le> n div 2" "n div 2 < 2 ^ (b + 1)" by auto
    then show ?thesis using 1(2) by (intro exI[of _ "b + 1"]) (auto simp: bit_count.simps[of n])
  qed
qed

text \<open>That \<open>a / q < 2 ^ (E + 53)\<close>.\<close>

definition below :: "int \<Rightarrow> int \<Rightarrow> int \<Rightarrow> bool" where
  "below a q E \<longleftrightarrow> a * 2 ^ nat (- E) < 2 ^ 53 * (q * 2 ^ nat E)"

lemma below_step:
  assumes "0 < q" "0 \<le> a" "below a q E"
  shows "below a q (E + 1)"
proof (cases "0 \<le> E")
  case True
  then have "nat (E + 1) = Suc (nat E)" "nat (- E) = 0" "nat (- (E + 1)) = 0" by simp_all
  moreover have "0 < q * 2 ^ nat E" using assms(1) by simp
  ultimately show ?thesis using assms(3) by (simp add: below_def)
next
  case False
  then have "nat (- E) = Suc (nat (- (E + 1)))" "nat E = 0" "nat (E + 1) = 0" by simp_all
  moreover have "0 \<le> a * 2 ^ nat (- (E + 1))" using assms(2) by simp
  ultimately show ?thesis using assms(3) by (simp add: below_def)
qed

lemma below_mono:
  assumes "0 < q" "0 \<le> a" "below a q E" "E \<le> E'"
  shows "below a q E'"
  using assms(4) by (induction E' rule: int_ge_induct) (use assms below_step in auto)

lemma below_scale: "0 < c \<Longrightarrow> below (a * c) (q * c) E = below a q E"
  by (simp add: below_def mult.commute[of a] mult.commute[of q] mult.assoc mult.left_commute[of _ c])

definition exponent_of :: "int \<Rightarrow> int \<Rightarrow> int \<Rightarrow> bool" where
  "exponent_of a q E \<longleftrightarrow> - 1074 \<le> E \<and> below a q E \<and> (E = - 1074 \<or> \<not> below a q (E - 1))"

lemma exponent_unique:
  assumes "0 < q" "0 \<le> a" "exponent_of a q E" "exponent_of a q E'"
  shows "E = E'"
proof -
  have "\<not> E < E'" if "exponent_of a q E" "exponent_of a q E'" for E E'
    using that below_mono[OF assms(1,2), of E "E' - 1"] by (auto simp: exponent_of_def)
  from this[OF assms(3,4)] this[OF assms(4,3)] show ?thesis by simp
qed

lemma round_quotient_scale: "0 < c \<Longrightarrow> round_quotient neg (num * c) (den * c) e = round_quotient neg num den e"
  by (simp add: round_quotient_def Let_def)

lemma float_of_ratio_exponent:
  assumes "0 < q" "p \<noteq> 0"
  obtains E where "exponent_of \<bar>p\<bar> q E"
    "float_of_ratio p q = round_quotient (p < 0) (\<bar>p\<bar> * 2 ^ nat (- E)) (q * 2 ^ nat E) E"
proof -
  let ?a = "\<bar>p\<bar>"
  obtain b1 where b1: "bit_count ?a = int b1 + 1" "2 ^ b1 \<le> ?a" "?a < 2 ^ (b1 + 1)" using bit_count_bounds[of ?a] assms(2) by auto
  obtain b2 where b2: "bit_count q = int b2 + 1" "2 ^ b2 \<le> q" "q < 2 ^ (b2 + 1)" using bit_count_bounds[OF assms(1)] by auto
  define e where "e = max (int b1 - int b2 - 53) (- 1074)"
  have f: "float_of_ratio p q = (if below ?a q e then round_quotient (p < 0) (?a * 2 ^ nat (- e)) (q * 2 ^ nat e) e
      else round_quotient (p < 0) (?a * 2 ^ nat (- e)) (2 * (q * 2 ^ nat e)) (e + 1))"
    using assms(2) b1(1) b2(1) by (simp add: float_of_ratio_def Let_def e_def below_def not_less)
  have up: "below ?a q (e + 1)"
  proof -
    have "int b1 + 1 + int (nat (- (e + 1))) \<le> 53 + int b2 + int (nat (e + 1))" by (simp add: e_def max_def)
    then have "b1 + 1 + nat (- (e + 1)) \<le> 53 + (b2 + nat (e + 1))" by linarith
    then have "(2 :: int) ^ (b1 + 1) * 2 ^ nat (- (e + 1)) \<le> 2 ^ 53 * (2 ^ b2 * 2 ^ nat (e + 1))"
      by (simp only: power_add[symmetric]) (rule power_increasing, simp_all)
    moreover have "?a * 2 ^ nat (- (e + 1)) < 2 ^ (b1 + 1) * 2 ^ nat (- (e + 1))" using b1(3) by (intro mult_strict_right_mono) simp_all
    moreover have "(2 :: int) ^ 53 * (2 ^ b2 * 2 ^ nat (e + 1)) \<le> 2 ^ 53 * (q * 2 ^ nat (e + 1))"
      using b2(2) by (intro mult_left_mono mult_right_mono) simp_all
    ultimately show ?thesis unfolding below_def by linarith
  qed
  have down: "e = - 1074 \<or> \<not> below ?a q (e - 1)"
  proof (cases "e = - 1074")
    case False
    then have e: "e = int b1 - int b2 - 53" by (simp add: e_def max_def split: if_splits)
    then have "53 + (b2 + 1) + nat (e - 1) \<le> b1 + nat (- (e - 1))" by linarith
    then have "(2 :: int) ^ 53 * (2 ^ (b2 + 1) * 2 ^ nat (e - 1)) \<le> 2 ^ b1 * 2 ^ nat (- (e - 1))"
      by (simp only: power_add[symmetric] add.assoc) (rule power_increasing, simp_all)
    moreover have "2 ^ b1 * 2 ^ nat (- (e - 1)) \<le> ?a * 2 ^ nat (- (e - 1))" using b1(2) by (intro mult_right_mono) simp_all
    moreover have "2 ^ 53 * (q * 2 ^ nat (e - 1)) \<le> 2 ^ 53 * (2 ^ (b2 + 1) * 2 ^ nat (e - 1))"
      using b2(3) by (intro mult_left_mono mult_right_mono) simp_all
    ultimately show ?thesis unfolding below_def by linarith
  qed simp
  have low: "- 1074 \<le> e" by (simp add: e_def)
  show thesis
  proof (cases "below ?a q e")
    case True
    then show thesis using f low down by (intro that[of e]) (simp_all add: exponent_of_def)
  next
    case False
    have "round_quotient (p < 0) (?a * 2 ^ nat (- e)) (2 * (q * 2 ^ nat e)) (e + 1) =
        round_quotient (p < 0) (?a * 2 ^ nat (- (e + 1))) (q * 2 ^ nat (e + 1)) (e + 1)"
    proof (cases "0 \<le> e")
      case True
      then have "nat (e + 1) = Suc (nat e)" "nat (- e) = 0" "nat (- (e + 1)) = 0" by simp_all
      then show ?thesis by (simp add: mult.left_commute)
    next
      case neg: False
      then have "nat (- e) = Suc (nat (- (e + 1)))" "nat e = 0" "nat (e + 1) = 0" by simp_all
      then show ?thesis using round_quotient_scale[of 2 "p < 0" "?a * 2 ^ nat (- (e + 1))" q "e + 1"] by (simp add: ac_simps)
    qed
    then show thesis using f False low up by (intro that[of "e + 1"]) (simp_all add: exponent_of_def)
  qed
qed

lemma float_of_ratio_scale:
  assumes "0 < q" "0 < c"
  shows "float_of_ratio (p * c) (q * c) = float_of_ratio p q"
proof (cases "p = 0")
  case True
  then show ?thesis by (simp add: float_of_ratio_def)
next
  case False
  obtain E where E: "exponent_of \<bar>p\<bar> q E" "float_of_ratio p q = round_quotient (p < 0) (\<bar>p\<bar> * 2 ^ nat (- E)) (q * 2 ^ nat E) E"
    by (rule float_of_ratio_exponent[OF assms(1) False])
  obtain F where F: "exponent_of \<bar>p * c\<bar> (q * c) F"
    "float_of_ratio (p * c) (q * c) = round_quotient (p * c < 0) (\<bar>p * c\<bar> * 2 ^ nat (- F)) (q * c * 2 ^ nat F) F"
    using False assms by (auto intro: float_of_ratio_exponent[of "q * c" "p * c"])
  have ab: "\<bar>p * c\<bar> = \<bar>p\<bar> * c" using assms(2) by (simp add: abs_mult)
  have "exponent_of \<bar>p\<bar> q F" using F(1) below_scale[OF assms(2)] by (simp add: exponent_of_def ab)
  with E(1) have "F = E" using exponent_unique[OF assms(1), of "\<bar>p\<bar>" F E] by simp
  moreover have "(p * c < 0) = (p < 0)" using assms(2) by (simp add: mult_less_0_iff)
  moreover have "round_quotient n (\<bar>p\<bar> * c * 2 ^ nat (- E)) (q * c * 2 ^ nat E) E = round_quotient n (\<bar>p\<bar> * 2 ^ nat (- E)) (q * 2 ^ nat E) E" for n
    using round_quotient_scale[OF assms(2), of n "\<bar>p\<bar> * 2 ^ nat (- E)" "q * 2 ^ nat E" E] by (simp add: ac_simps)
  ultimately show ?thesis using E(2) F(2) ab by simp
qed

lemma float_of_ratio_cross:
  assumes "0 < q" "0 < q'" "p * q' = p' * q"
  shows "float_of_ratio p q = float_of_ratio p' q'"
proof -
  have "float_of_ratio p q = float_of_ratio (p * q') (q * q')" using float_of_ratio_scale[OF assms(1,2)] by simp
  also have "\<dots> = float_of_ratio (p' * q) (q' * q)" using assms(3) by (simp add: mult.commute)
  also have "\<dots> = float_of_ratio p' q'" by (rule float_of_ratio_scale[OF assms(2,1)])
  finally show ?thesis .
qed

subsection \<open>What is printed is read back\<close>

text \<open>A number in the form that the operations give it.\<close>

definition normal_float :: "float64 \<Rightarrow> bool" where
  "normal_float x \<longleftrightarrow> (\<exists>m e. x = Finite m e \<and> float_of_ratio (ratio_num m e) (ratio_den e) = x)"

lemma at_place_cross: "0 < q \<Longrightarrow> d * (q * 10 ^ nat (- j)) = p * 10 ^ nat j \<Longrightarrow> at_place d j = float_of_ratio p q"
proof -
  assume q: "0 < q" and eq: "d * (q * 10 ^ nat (- j)) = p * 10 ^ nat j"
  show ?thesis unfolding at_place_def
    by (rule float_of_ratio_cross) (use q eq in \<open>simp_all add: ac_simps\<close>)
qed

lemma candidate_sound: "candidate x p q j = Some d \<Longrightarrow> at_place d j = x"
  by (auto simp: candidate_def Let_def split: if_splits)

lemma candidate_nonneg: "candidate x p q j = Some d \<Longrightarrow> 0 \<le> p \<Longrightarrow> 0 < q \<Longrightarrow> 0 \<le> d"
  by (auto simp: candidate_def Let_def pos_imp_zdiv_nonneg_iff split: if_splits intro: add_nonneg_nonneg)

lemma candidate_exact:
  assumes "0 < q" "float_of_ratio p q = x" "q * 10 ^ nat (- j) dvd p * 10 ^ nat j"
  shows "candidate x p q j \<noteq> None"
proof -
  have "p * 10 ^ nat j div (q * 10 ^ nat (- j)) * (q * 10 ^ nat (- j)) = p * 10 ^ nat j" using assms(3) by simp
  then have "at_place (p * 10 ^ nat j div (q * 10 ^ nat (- j))) j = x" using at_place_cross[OF assms(1)] assms(2) by simp
  then show ?thesis by (simp add: candidate_def Let_def)
qed

lemma shortest_sound: "shortest n x p q j = Some (d, i) \<Longrightarrow> 0 \<le> p \<Longrightarrow> 0 < q \<Longrightarrow> at_place d i = x \<and> 0 \<le> d"
  by (induction n x p q j rule: shortest.induct) (auto split: option.splits dest: candidate_sound candidate_nonneg)

lemma shortest_found: "candidate x p q (j + int i) \<noteq> None \<Longrightarrow> i < n \<Longrightarrow> shortest n x p q j \<noteq> None"
proof (induction n arbitrary: i j)
  case (Suc n)
  show ?case
  proof (cases i)
    case 0
    with Suc.prems show ?thesis by (auto split: option.splits)
  next
    case (Suc i')
    with Suc.prems Suc.IH[of "j + 1" i'] show ?thesis by (auto simp: ac_simps split: option.splits)
  qed
qed simp

lemma shortest_finds:
  assumes "0 < m" "float_of_ratio (ratio_num m e) (ratio_den e) = Finite m e"
  obtains d j where "shortest (nat (k + max 0 (- e)) + 1) (Finite m e) (ratio_num m e) (ratio_den e) (1 - k) = Some (d, j)"
    "at_place d j = Finite m e" "0 \<le> d"
proof -
  define i where "i = nat (k + max 0 (- e))"
  have j: "max 0 (- e) \<le> 1 - k + int i" by (auto simp: i_def max_def)
  have "ratio_den e * 10 ^ nat (- (1 - k + int i)) dvd ratio_num m e * 10 ^ nat (1 - k + int i)"
  proof -
    have "nat (- (1 - k + int i)) = 0" "nat (- e) \<le> nat (1 - k + int i)" using j by linarith+
    then have "(2 :: int) ^ nat (- e) dvd 2 ^ nat (1 - k + int i)" by (simp add: le_imp_power_dvd)
    moreover have "(10 :: int) ^ n = 2 ^ n * 5 ^ n" for n using power_mult_distrib[of "2 :: int" 5 n] by simp
    ultimately show ?thesis using \<open>nat (- (1 - k + int i)) = 0\<close> by (simp add: ratio_den_def dvd_mult dvd_mult2)
  qed
  from candidate_exact[OF _ assms(2) this] have "candidate (Finite m e) (ratio_num m e) (ratio_den e) (1 - k + int i) \<noteq> None"
    by (simp add: ratio_den_def)
  then have "shortest (i + 1) (Finite m e) (ratio_num m e) (ratio_den e) (1 - k) \<noteq> None"
    by (rule shortest_found) simp
  then obtain d j where "shortest (i + 1) (Finite m e) (ratio_num m e) (ratio_den e) (1 - k) = Some (d, j)" by fastforce
  moreover from shortest_sound[OF this] assms(1) have "at_place d j = Finite m e" "0 \<le> d" by (simp_all add: ratio_num_def ratio_den_def)
  ultimately show thesis using that unfolding i_def by blast
qed

lemma scan_digits:
  assumes "list_all isDigit ds"
  shows "scan_mantissa False v k point any (ds @ rest) =
    scan_mantissa False (v * 10 ^ length ds + digits_value ds) (if point then k + length ds else k) point (any \<or> ds \<noteq> []) rest"
  using assms
proof (induction ds arbitrary: v k any)
  case (Cons c cs)
  then have c: "isDigit c" and cs: "list_all isDigit cs" by simp_all
  have "c \<noteq> CHR ''_''" "c \<noteq> CHR ''.''" using c by (auto simp: isDigit_def)
  then show ?case using c Cons.IH[OF cs] by (simp add: base_digit_def hex_value_def algebra_simps)
qed simp

lemma digits_value_zero_run: "digits_value (replicate n (CHR ''0'') @ s) = digits_value s"
  by (simp add: digits_value_append)

lemma trim_zeros_split:
  obtains n where "s = trim_zeros s @ replicate n (CHR ''0'')"
proof -
  let ?zs = "takeWhile (\<lambda>c. c = CHR ''0'') (rev s)"
  have "?zs = replicate (length ?zs) (CHR ''0'')" by (rule replicate_length_same[symmetric]) (auto dest: set_takeWhileD)
  moreover have "rev s = ?zs @ dropWhile (\<lambda>c. c = CHR ''0'') (rev s)" by simp
  then have "s = trim_zeros s @ rev ?zs" unfolding trim_zeros_def by (metis rev_append rev_rev_ident)
  ultimately show thesis using that by (metis rev_replicate)
qed

text \<open>A text of digits, perhaps with a fraction.\<close>

lemma ParseFloat_decimal:
  assumes "list_all isDigit ip" "ip \<noteq> []" "list_all isDigit fp"
    "float_of_ratio (digits_value ip * 10 ^ length fp + digits_value fp) (10 ^ length fp) = Finite m e"
  shows "ParseFloat (ip @ (if fp = [] then [] else CHR ''.'' # fp)) = Some (Finite m e)"
proof -
  let ?s = "ip @ (if fp = [] then [] else CHR ''.'' # fp)"
  have chars: "isDigit c \<or> c = CHR ''.''" if "c \<in> set ?s" for c using that assms(1,3) by (auto simp: list_all_iff split: if_splits)
  have low: "lower_char c = c" if "isDigit c \<or> c = CHR ''.''" for c
    using that by (auto simp: lower_char_def isDigit_def Let_def)
  have "ToLower ?s = ?s" unfolding ToLower_def by (rule map_idI) (use low chars in blast)
  moreover have hd: "isDigit (hd ?s)" using assms(1,2) by (cases ip) simp_all
  ultimately have plain: "ToLower ?s \<noteq> ''nan''" "ToLower ?s \<noteq> ''inf''" "ToLower ?s \<noteq> ''infinity''" by (auto simp: isDigit_def)
  have sign: "hd ?s \<noteq> CHR ''-''" "hd ?s \<noteq> CHR ''+''" using hd by auto
  have hex: "lower_char (?s ! 1) \<noteq> CHR ''x''" if "length ?s > 2"
  proof -
    have "isDigit (?s ! 1) \<or> ?s ! 1 = CHR ''.''" using that by (intro chars nth_mem) simp
    with low[OF this] show ?thesis by (auto simp: isDigit_def)
  qed
  have sep: "CHR ''_'' \<notin> set ?s" using chars by (fastforce simp: isDigit_def)
  have scan: "scan_mantissa False 0 0 False False ?s =
      (digits_value ip * 10 ^ length fp + digits_value fp, length fp, True, [])"
    using scan_digits[OF assms(1), of 0 0 False False "if fp = [] then [] else CHR ''.'' # fp"]
      scan_digits[OF assms(3), of "digits_value ip" 0 True True "[]"] assms(2)
    by (auto split: if_splits)
  have "read_number False s = Some (Finite m e)" if "s = ?s" for s
  proof -
    have "\<not> (length s > 2 \<and> hd s = CHR ''0'' \<and> lower_char (s ! 1) = CHR ''x'')" "CHR ''_'' \<notin> set s"
      using hex sep unfolding that by blast+
    then show ?thesis using scan assms(4) unfolding that[symmetric] by (auto simp: read_number_def read_exponent_def Let_def)
  qed
  then show ?thesis using plain sign by (simp add: ParseFloat_def Let_def del: append_is_Nil_conv)
qed

lemma ParseFloat_place_text:
  assumes "0 \<le> d" "at_place d j = Finite m e"
  shows "ParseFloat (place_text d j) = Some (Finite m e)"
proof (cases "j \<le> 0")
  case True
  then have "float_of_ratio (digits_value (nat_string (nat (d * 10 ^ nat (- j))))) 1 = Finite m e"
    using assms by (simp add: at_place_def nat_string_value)
  then show ?thesis
    using ParseFloat_decimal[of "nat_string (nat (d * 10 ^ nat (- j)))" "[]" m e] True nat_string_digits
    by (simp add: place_text_def)
next
  case False
  define ip where "ip = d div 10 ^ nat j"
  define fr where "fr = d mod 10 ^ nat j"
  define fs where "fs = nat_string (nat fr)"
  define pad where "pad = replicate (nat j - length fs) (CHR ''0'') @ fs"
  have fr: "0 \<le> fr" "fr < 10 ^ nat j" "0 \<le> ip"
    using assms(1) pos_imp_zdiv_nonneg_iff[of "10 ^ nat j" d] by (simp_all add: fr_def ip_def)
  have whole: "d = ip * 10 ^ nat j + fr" unfolding fr_def ip_def by (rule div_mult_mod_eq[symmetric])
  have "nat fr < 10 ^ nat j" using fr(1,2) by (simp add: nat_less_iff)
  then have "length fs \<le> nat j" using False nat_string_length[of "nat fr" "nat j"] by (simp add: fs_def)
  then have pad: "length pad = nat j" "digits_value pad = fr" "list_all isDigit pad"
    using fr(1) nat_string_digits[of "nat fr"]
    by (auto simp: pad_def digits_value_zero_run fs_def nat_string_value list_all_iff)
  obtain n where n: "pad = trim_zeros pad @ replicate n (CHR ''0'')" by (rule trim_zeros_split)
  define fp where "fp = trim_zeros pad"
  have len: "nat j = length fp + n" using pad(1) n by (metis fp_def length_append length_replicate)
  have val: "fr = digits_value fp * 10 ^ n" using pad(2) n by (metis add.right_neutral digits_value_append digits_value_zeros fp_def length_replicate)
  have dig: "list_all isDigit fp" using pad(3) n unfolding fp_def by (metis list_all_append)
  have "float_of_ratio (ip * 10 ^ length fp + digits_value fp) (10 ^ length fp) = at_place d j"
    unfolding at_place_def by (rule float_of_ratio_cross) (use whole val len False in \<open>simp_all add: power_add algebra_simps\<close>)
  moreover have "place_text d j = nat_string (nat ip) @ (if fp = [] then [] else CHR ''.'' # fp)"
    using False by (simp add: place_text_def Let_def ip_def fp_def pad_def fs_def fr_def)
  ultimately show ?thesis
    using ParseFloat_decimal[OF nat_string_digits _ dig, of "nat ip" m e] assms(2) fr(3) by (simp add: nat_string_value)
qed

lemma float_text_roundtrip:
  assumes "normal_float x" "0 < mant x"
  shows "ParseFloat (FormatFloat x) = Some x"
proof -
  obtain m e where x: "x = Finite m e" "0 < m" "float_of_ratio (ratio_num m e) (ratio_den e) = Finite m e"
    using assms by (auto simp: normal_float_def)
  let ?k = "point_of (ratio_num m e) (ratio_den e)"
  obtain d j where dj: "shortest (nat (?k + max 0 (- e)) + 1) (Finite m e) (ratio_num m e) (ratio_den e) (1 - ?k) = Some (d, j)"
    "at_place d j = Finite m e" "0 \<le> d"
    by (rule shortest_finds[OF x(2,3)])
  have "FormatFloat x = place_text d j" using x(1,2) dj(1) by (simp add: FormatFloat_def Let_def del: shortest.simps)
  then show ?thesis using ParseFloat_place_text[OF dj(3,2)] x(1) by simp
qed

text \<open>No separator of names is printed for a positive number.\<close>

lemma place_text_chars: "c \<in> set (place_text d j) \<Longrightarrow> isDigit c \<or> c = CHR ''.''"
proof -
  have ns: "isDigit c" if "c \<in> set (nat_string n)" for c n using that nat_string_digits[of n] by (simp add: list_all_iff)
  have tz: "set (trim_zeros s) \<subseteq> set s" for s unfolding trim_zeros_def using set_dropWhileD by fastforce
  show "c \<in> set (place_text d j) \<Longrightarrow> isDigit c \<or> c = CHR ''.''"
    by (auto simp: place_text_def Let_def split: if_splits dest!: ns subsetD[OF tz])
qed

end
