(* ===== verification/FixMessage.thy ===== *)
theory FixMessage
  imports DecimalText
begin

text \<open>
  \<^verbatim>\<open>internal/api/fix/message.go\<close> and \<^verbatim>\<open>dictionary.go\<close>: the wire format of FIX 4.4 messages, the
  framing of a byte stream into messages, and the validation dictionary. A \<^verbatim>\<open>bufio.Reader\<close> is
  the rest of its input; a read that meets its end is the error \<open>EOF\<close>, or \<open>UnexpectedEOF\<close> within a body. A string is a list of bytes.
\<close>

subsection \<open>Fields and messages\<close>

definition SOH :: char where
  "SOH = CHR 0x01"

definition BeginString :: string where
  "BeginString = ''FIX.4.4''"

definition TagBeginString :: int where "TagBeginString = 8"
definition TagBodyLength :: int where "TagBodyLength = 9"
definition TagCheckSum :: int where "TagCheckSum = 10"
definition TagMsgType :: int where "TagMsgType = 35"

lemmas tag_defs = TagBeginString_def TagBodyLength_def TagCheckSum_def TagMsgType_def

record field =
  f_Tag :: int
  f_Value :: string

record message =
  m_Fields :: "field list"
  m_byTag :: "int \<rightharpoonup> string list"

definition msg_Set :: "message \<Rightarrow> int \<Rightarrow> string \<Rightarrow> message" where
  "msg_Set m tag v =
     \<lparr>m_Fields = m_Fields m @ [\<lparr>f_Tag = tag, f_Value = v\<rparr>],
      m_byTag = (m_byTag m)(tag \<mapsto> (case m_byTag m tag of None \<Rightarrow> [] | Some vs \<Rightarrow> vs) @ [v])\<rparr>"

definition empty_message :: message where
  "empty_message = \<lparr>m_Fields = [], m_byTag = Map.empty\<rparr>"

definition NewMessage :: "string \<Rightarrow> message" where
  "NewMessage msgType = msg_Set empty_message TagMsgType msgType"

definition msg_SetInt :: "message \<Rightarrow> int \<Rightarrow> int \<Rightarrow> message" where
  "msg_SetInt m tag v = msg_Set m tag (int_string v)"

definition msg_Get :: "message \<Rightarrow> int \<Rightarrow> string option" where
  "msg_Get m tag = (case m_byTag m tag of None \<Rightarrow> None | Some [] \<Rightarrow> None | Some (v # _) \<Rightarrow> Some v)"

definition msg_GetInt :: "message \<Rightarrow> int \<Rightarrow> int option" where
  "msg_GetInt m tag = (case msg_Get m tag of None \<Rightarrow> None | Some v \<Rightarrow> Atoi v)"

definition msg_Has :: "message \<Rightarrow> int \<Rightarrow> bool" where
  "msg_Has m tag \<longleftrightarrow> m_byTag m tag \<noteq> None"

definition MsgType :: "message \<Rightarrow> string" where
  "MsgType m = (case msg_Get m TagMsgType of None \<Rightarrow> [] | Some v \<Rightarrow> v)"

subsection \<open>Encoding\<close>

definition field_text :: "field \<Rightarrow> string" where
  "field_text f = int_string (f_Tag f) @ [CHR ''=''] @ f_Value f @ [SOH]"

definition fields_body :: "field list \<Rightarrow> string" where
  "fields_body fs = concat (map field_text fs)"

definition checksum :: "string \<Rightarrow> int" where
  "checksum b = sum_list (map (\<lambda>c. int (of_char c)) b) mod 256"

text \<open>\<^verbatim>\<open>%03d\<close> of a number that is not negative.\<close>

definition pad3 :: "int \<Rightarrow> string" where
  "pad3 i = replicate (3 - length (int_string i)) (CHR ''0'') @ int_string i"

definition fix_header :: "int \<Rightarrow> string" where
  "fix_header n = ''8='' @ BeginString @ [SOH] @ ''9='' @ int_string n @ [SOH]"

definition Encode :: "message \<Rightarrow> string" where
  "Encode m =
     (let bodyBytes = fields_body (m_Fields m);
          full = fix_header (int (length bodyBytes)) @ bodyBytes
      in full @ ''10='' @ pad3 (checksum full) @ [SOH])"

subsection \<open>Framing\<close>

datatype fix_error = EOF | UnexpectedEOF | Malformed | BadField string | NonNumericTag string | BadBeginString
  | MissingBodyLength | MissingCheckSum | BodyLengthMismatch int int | CheckSumMismatch int int

text \<open>\<^verbatim>\<open>ReadBytes\<close>: up to and with the first separator.\<close>

fun ReadBytes :: "char \<Rightarrow> string \<Rightarrow> (string \<times> string) option" where
  "ReadBytes d [] = None"
| "ReadBytes d (c # cs) =
     (if c = d then Some ([c], cs)
      else case ReadBytes d cs of None \<Rightarrow> None | Some (x, rest) \<Rightarrow> Some (c # x, rest))"

definition ReadFrame :: "string \<Rightarrow> fix_error + (string \<times> string)" where
  "ReadFrame r =
     (case ReadBytes SOH r of None \<Rightarrow> Inl EOF
      | Some (begin_field, r) \<Rightarrow>
     (case ReadBytes SOH r of None \<Rightarrow> Inl EOF
      | Some (len_field, r) \<Rightarrow>
        if length len_field < 3 \<or> take 2 len_field \<noteq> ''9='' then Inl Malformed
        else case Atoi (butlast (drop 2 len_field)) of None \<Rightarrow> Inl Malformed
          | Some n \<Rightarrow>
            if n < 0 \<or> n > 2 ^ 20 then Inl Malformed
            else if length r < nat n then Inl (if r = [] then EOF else UnexpectedEOF)
            else case ReadBytes SOH (drop (nat n) r) of None \<Rightarrow> Inl EOF
              | Some (cs_field, rest) \<Rightarrow> Inr (begin_field @ len_field @ take (nat n) r @ cs_field, rest)))"

subsection \<open>Decoding\<close>

text \<open>\<^verbatim>\<open>strings.Split\<close> by one byte.\<close>

fun split_on :: "char \<Rightarrow> string \<Rightarrow> string list" where
  "split_on d [] = [[]]"
| "split_on d (c # cs) =
     (if c = d then [] # split_on d cs
      else case split_on d cs of [] \<Rightarrow> [[c]] | p # ps \<Rightarrow> (c # p) # ps)"

text \<open>One turn of the field loop: the position of the first equals sign splits the part.\<close>

definition decode_part :: "string \<Rightarrow> message \<Rightarrow> fix_error + message" where
  "decode_part p m =
     (let tag = takeWhile (\<lambda>c. c \<noteq> CHR ''='') p
      in if tag = [] \<or> tag = p then Inl (BadField p)
         else case Atoi tag of None \<Rightarrow> Inl (NonNumericTag tag)
           | Some n \<Rightarrow> Inr (msg_Set m n (drop (length tag + 1) p)))"

fun decode_parts :: "string list \<Rightarrow> message \<Rightarrow> fix_error + message" where
  "decode_parts [] m = Inr m"
| "decode_parts (p # ps) m = (case decode_part p m of Inl e \<Rightarrow> Inl e | Inr m \<Rightarrow> decode_parts ps m)"

text \<open>The checks of a parsed message: header, length and checksum.\<close>

definition check_message :: "message \<Rightarrow> fix_error option" where
  "check_message m =
     (let fs = m_Fields m
      in if fs = [] \<or> f_Tag (hd fs) \<noteq> TagBeginString \<or> f_Value (hd fs) \<noteq> BeginString then Some BadBeginString
         else case msg_GetInt m TagBodyLength of None \<Rightarrow> Some MissingBodyLength
           | Some declaredLen \<Rightarrow>
             if length fs < 2 \<or> f_Tag (fs ! 1) \<noteq> TagBodyLength then Some MissingBodyLength
             else let bodyFields = drop 2 fs
                  in if bodyFields = [] \<or> f_Tag (last bodyFields) \<noteq> TagCheckSum then Some MissingCheckSum
                     else let bodyFields = butlast bodyFields;
                              got = int (length (fields_body bodyFields))
                          in if got \<noteq> declaredLen then Some (BodyLengthMismatch declaredLen got)
                             else let declaredCS = (case msg_GetInt m TagCheckSum of None \<Rightarrow> 0 | Some n \<Rightarrow> n);
                                      got = checksum (fix_header declaredLen @ fields_body bodyFields)
                                  in if got \<noteq> declaredCS then Some (CheckSumMismatch declaredCS got) else None)"

definition Decode :: "string \<Rightarrow> fix_error + message" where
  "Decode raw =
     (if raw = [] then Inl Malformed
      else let parts = split_on SOH raw;
               parts = (if last parts = [] then butlast parts else parts)
           in if length parts < 3 then Inl Malformed
              else case decode_parts parts empty_message of Inl e \<Rightarrow> Inl e
                | Inr m \<Rightarrow> (case check_message m of Some e \<Rightarrow> Inl e | None \<Rightarrow> Inr m))"

definition ReadMessage :: "string \<Rightarrow> fix_error + (message \<times> string)" where
  "ReadMessage r =
     (case ReadFrame r of Inl e \<Rightarrow> Inl e
      | Inr (raw, rest) \<Rightarrow> (case Decode raw of Inl e \<Rightarrow> Inl e | Inr m \<Rightarrow> Inr (m, rest)))"

subsection \<open>The dictionary\<close>

definition headerRequired :: "int list" where
  "headerRequired = [35, 49, 56, 34, 52]"

text \<open>\<^verbatim>\<open>NewDictionary\<close>: the tags that an inbound message type requires.\<close>

definition NewDictionary :: "string \<rightharpoonup> int list" where
  "NewDictionary =
     [''A'' \<mapsto> [98, 108], ''0'' \<mapsto> [], ''1'' \<mapsto> [112], ''2'' \<mapsto> [7, 16], ''4'' \<mapsto> [36], ''5'' \<mapsto> [],
      ''D'' \<mapsto> [11, 55, 54, 38, 40], ''F'' \<mapsto> [11, 41, 55, 54], ''G'' \<mapsto> [11, 41, 55, 54, 38, 40],
      ''V'' \<mapsto> [262, 263, 264, 267, 146], ''z'' \<mapsto> [131, 55, 54, 38]]"

definition Known :: "(string \<rightharpoonup> int list) \<Rightarrow> string \<Rightarrow> bool" where
  "Known d msgType \<longleftrightarrow> d msgType \<noteq> None"

datatype validate_error = MissingHeader int | UnsupportedType string | MissingTag string int | MissingPrice

text \<open>The tag that the reject message refers to, and its text. \<^verbatim>\<open>%q\<close> is modelled on ASCII bytes.\<close>

fun error_tag :: "validate_error \<Rightarrow> int" where
  "error_tag (MissingHeader t) = t"
| "error_tag (UnsupportedType mt) = TagMsgType"
| "error_tag (MissingTag mt t) = t"
| "error_tag MissingPrice = 44"

definition hex_digit :: "nat \<Rightarrow> char" where
  "hex_digit n = ''0123456789abcdef'' ! n"

definition quote_char :: "char \<Rightarrow> string" where
  "quote_char c =
     (let n = of_char c :: nat
      in if n = 34 \<or> n = 92 then [CHR 0x5C, c]
         else if 7 \<le> n \<and> n \<le> 13 then [CHR 0x5C, ''abtnvfr'' ! (n - 7)]
         else if n < 32 \<or> 127 \<le> n then [CHR 0x5C, CHR ''x'', hex_digit (n div 16), hex_digit (n mod 16)]
         else [c])"

definition go_quote :: "string \<Rightarrow> string" where
  "go_quote s = [CHR 0x22] @ concat (map quote_char s) @ [CHR 0x22]"

fun error_text :: "validate_error \<Rightarrow> string" where
  "error_text (MissingHeader t) = ''missing required header tag '' @ int_string t"
| "error_text (UnsupportedType mt) = ''unsupported MsgType '' @ go_quote mt"
| "error_text (MissingTag mt t) = mt @ '' missing required tag '' @ int_string t"
| "error_text MissingPrice = ''LIMIT order missing Price (44)''"

definition fix_Validate :: "(string \<rightharpoonup> int list) \<Rightarrow> message \<Rightarrow> validate_error option" where
  "fix_Validate d m =
     (case find (\<lambda>t. \<not> msg_Has m t) headerRequired of Some t \<Rightarrow> Some (MissingHeader t)
      | None \<Rightarrow>
        let mt = MsgType m
        in case d mt of None \<Rightarrow> Some (UnsupportedType mt)
          | Some req \<Rightarrow>
            (case find (\<lambda>t. \<not> msg_Has m t) req of Some t \<Rightarrow> Some (MissingTag mt t)
             | None \<Rightarrow>
               let quoted = (mt = ''D'' \<and> msg_Get m 692 = Some ''Y'')
               in if (mt = ''D'' \<or> mt = ''G'') \<and> msg_Get m 40 = Some ''2'' \<and> \<not> quoted \<and> \<not> msg_Has m 44
                  then Some MissingPrice else None))"

end
