(* ===== verification/FixMessageProofs.thy ===== *)
theory FixMessageProofs
  imports FixMessage
begin

text \<open>
  The codec: a message that is encoded and read back from a stream is the same fields, with the
  derived header and trailer, and the stream continues after it; a changed byte in a value is
  detected. And what the dictionary accepts.
\<close>

subsection \<open>Messages as lists of fields\<close>

definition values_of :: "field list \<Rightarrow> int \<Rightarrow> string list" where
  "values_of fs tag = map f_Value (filter (\<lambda>f. f_Tag f = tag) fs)"

definition indexed :: "message \<Rightarrow> bool" where
  "indexed m \<longleftrightarrow> (\<forall>t. m_byTag m t = (if values_of (m_Fields m) t = [] then None else Some (values_of (m_Fields m) t)))"

lemma indexed_empty: "indexed empty_message"
  by (simp add: indexed_def empty_message_def values_of_def)

lemma indexed_Set: "indexed m \<Longrightarrow> indexed (msg_Set m tag v)"
  by (auto simp: indexed_def msg_Set_def values_of_def)

lemma indexed_Get: "indexed m \<Longrightarrow> msg_Get m t = (case values_of (m_Fields m) t of [] \<Rightarrow> None | v # _ \<Rightarrow> Some v)"
  by (simp add: indexed_def msg_Get_def split: list.split)

lemma indexed_Has: "indexed m \<Longrightarrow> msg_Has m t \<longleftrightarrow> t \<in> f_Tag ` set (m_Fields m)"
  by (auto simp: indexed_def msg_Has_def values_of_def filter_empty_conv image_iff)

text \<open>The message with given fields.\<close>

definition message_of :: "field list \<Rightarrow> message" where
  "message_of fs = fold (\<lambda>f m. msg_Set m (f_Tag f) (f_Value f)) fs empty_message"

lemma message_of_snoc: "message_of (fs @ [f]) = msg_Set (message_of fs) (f_Tag f) (f_Value f)"
  by (simp add: message_of_def)

lemma message_of_props: "m_Fields (message_of fs) = fs \<and> indexed (message_of fs)"
proof (induction fs rule: rev_induct)
  case Nil
  then show ?case by (simp add: message_of_def empty_message_def indexed_empty[unfolded empty_message_def])
next
  case (snoc f fs)
  then show ?case by (simp add: message_of_snoc indexed_Set) (simp add: msg_Set_def)
qed

lemma message_of_simps [simp]: "m_Fields (message_of fs) = fs" "indexed (message_of fs)"
  by (simp_all add: message_of_props)

subsection \<open>Numbers\<close>

lemma int_string_chars: "c \<in> set (int_string i) \<Longrightarrow> isDigit c \<or> c = CHR ''-''"
  using nat_string_digits by (auto simp: int_string_def list_all_iff split: if_splits)

lemma not_digit [simp]: "\<not> isDigit SOH" "\<not> isDigit (CHR ''='')" "SOH \<noteq> CHR ''-''" "SOH \<noteq> CHR ''=''"
  by (simp_all add: isDigit_def SOH_def)

lemma int_string_separators: "SOH \<notin> set (int_string i)" "CHR ''='' \<notin> set (int_string i)"
  using int_string_chars[of SOH i] int_string_chars[of "CHR ''=''" i] by auto

lemma int_string_nonempty [simp]: "int_string i \<noteq> []"
  by (simp add: int_string_def)

lemma Atoi_digits:
  assumes "list_all isDigit ds" "ds \<noteq> []" "digits_value ds < 2 ^ 63"
  shows "Atoi ds = Some (digits_value ds)"
proof -
  have "hd ds \<noteq> CHR ''-''" "hd ds \<noteq> CHR ''+''" using assms(1,2) by (cases ds; auto)+
  then show ?thesis
    using assms scan_integral_digits[of ds "[]" 0] digits_value_bounds[OF assms(1)] by (simp add: Atoi_def Let_def)
qed

lemma Atoi_int_string: "- (2 ^ 63) \<le> i \<Longrightarrow> i < 2 ^ 63 \<Longrightarrow> Atoi (int_string i) = Some i"
proof (cases "i < 0")
  case True
  assume "- (2 ^ 63) \<le> i"
  with True show ?thesis
    using scan_integral_digits[of "nat_string (nat (- i))" "[]" 0] nat_string_digits[of "nat (- i)"]
      nat_string_value[of "nat (- i)"] by (simp add: int_string_def Atoi_def Let_def)
next
  case False
  assume "i < 2 ^ 63"
  with False show ?thesis
    using Atoi_digits[OF nat_string_digits, of "nat i"] nat_string_value[of "nat i"] by (simp add: int_string_def)
qed

lemma pad3_facts:
  assumes "0 \<le> c" "c < 256"
  shows "Atoi (pad3 c) = Some c" "SOH \<notin> set (pad3 c)"
proof -
  have s: "int_string c = nat_string (nat c)" using assms(1) by (simp add: int_string_def)
  have "list_all isDigit (pad3 c)" using nat_string_digits by (auto simp: pad3_def s list_all_iff)
  moreover have "digits_value (pad3 c) = c" using assms(1) by (simp add: pad3_def s digits_value_append nat_string_value)
  moreover have "pad3 c \<noteq> []" by (simp add: pad3_def)
  ultimately show "Atoi (pad3 c) = Some c" using Atoi_digits[of "pad3 c"] assms(2) by simp
  show "SOH \<notin> set (pad3 c)" using \<open>list_all isDigit (pad3 c)\<close> not_digit(1) by (auto simp: list_all_iff)
qed

lemma checksum_bounds: "0 \<le> checksum b" "checksum b < 256"
  by (simp_all add: checksum_def)

subsection \<open>Fields on the wire\<close>

definition part_of :: "field \<Rightarrow> string" where
  "part_of f = int_string (f_Tag f) @ CHR ''='' # f_Value f"

text \<open>A field that can be sent: its value has no separator and its tag is a 64-bit number.\<close>

definition sendable :: "field \<Rightarrow> bool" where
  "sendable f \<longleftrightarrow> SOH \<notin> set (f_Value f) \<and> - (2 ^ 63) \<le> f_Tag f \<and> f_Tag f < 2 ^ 63"

lemma field_text_part: "field_text f = part_of f @ [SOH]"
  by (simp add: field_text_def part_of_def)

lemma part_no_SOH: "sendable f \<Longrightarrow> SOH \<notin> set (part_of f)"
  using int_string_separators by (simp add: sendable_def part_of_def)

lemma split_on_nonempty [simp]: "split_on d s \<noteq> []"
  by (induction d s rule: split_on.induct) (auto split: list.splits)

lemma split_on_part: "d \<notin> set p \<Longrightarrow> split_on d (p @ d # s) = p # split_on d s"
  by (induction p) (auto split: list.split)

lemma split_body: "list_all sendable fs \<Longrightarrow> split_on SOH (fields_body fs) = map part_of fs @ [[]]"
proof (induction fs)
  case Nil
  then show ?case by (simp add: fields_body_def)
next
  case (Cons f fs)
  then show ?case using split_on_part[OF part_no_SOH, of f "fields_body fs"] by (simp add: fields_body_def field_text_part)
qed

lemma decode_part_of: "sendable f \<Longrightarrow> decode_part (part_of f) m = Inr (msg_Set m (f_Tag f) (f_Value f))"
proof -
  assume s: "sendable f"
  have "\<forall>c\<in>set (int_string (f_Tag f)). c \<noteq> CHR ''=''" using int_string_separators(2)[of "f_Tag f"] by auto
  then have "takeWhile (\<lambda>c. c \<noteq> CHR ''='') (part_of f) = int_string (f_Tag f)"
    unfolding part_of_def by (subst takeWhile_append2) auto
  moreover have "int_string (f_Tag f) \<noteq> part_of f" by (simp add: part_of_def)
  moreover have "drop (length (int_string (f_Tag f)) + 1) (part_of f) = f_Value f" by (simp add: part_of_def)
  ultimately show ?thesis using s Atoi_int_string by (simp add: decode_part_def Let_def sendable_def)
qed

lemma decode_parts_of: "list_all sendable fs \<Longrightarrow>
    decode_parts (map part_of fs) m = Inr (fold (\<lambda>f m. msg_Set m (f_Tag f) (f_Value f)) fs m)"
  by (induction fs arbitrary: m) (simp_all add: decode_part_of)

text \<open>Any three or more sendable fields decode to their message if it passes the checks.\<close>

lemma Decode_fields:
  assumes "list_all sendable fs" "3 \<le> length fs"
  shows "Decode (fields_body fs) = (case check_message (message_of fs) of Some e \<Rightarrow> Inl e | None \<Rightarrow> Inr (message_of fs))"
proof -
  have "fields_body fs \<noteq> []" using assms(2) by (cases fs) (auto simp: fields_body_def field_text_def)
  then show ?thesis
    using split_body[OF assms(1)] decode_parts_of[OF assms(1), of empty_message, folded message_of_def] assms(2)
    by (simp add: Decode_def Let_def)
qed

text \<open>The fields of an encoded message, with a body length \<open>n\<close> and a checksum \<open>c\<close>.\<close>

definition wire_fields :: "int \<Rightarrow> int \<Rightarrow> field list \<Rightarrow> field list" where
  "wire_fields n c fs =
     \<lparr>f_Tag = TagBeginString, f_Value = BeginString\<rparr> # \<lparr>f_Tag = TagBodyLength, f_Value = int_string n\<rparr> #
     fs @ [\<lparr>f_Tag = TagCheckSum, f_Value = pad3 c\<rparr>]"

lemma int_string_tags: "int_string 8 = ''8''" "int_string 9 = ''9''" "int_string 10 = ''10''"
  by code_simp+

lemma wire_text: "fields_body (wire_fields n c fs) = fix_header n @ fields_body fs @ ''10='' @ pad3 c @ [SOH]"
  by (simp add: wire_fields_def fields_body_def field_text_def tag_defs int_string_tags fix_header_def)

definition body_length :: "field list \<Rightarrow> int" where
  "body_length fs = int (length (fields_body fs))"

definition wire_checksum :: "field list \<Rightarrow> int" where
  "wire_checksum fs = checksum (fix_header (body_length fs) @ fields_body fs)"

lemma Encode_fields: "Encode m = fields_body (wire_fields (body_length (m_Fields m)) (wire_checksum (m_Fields m)) (m_Fields m))"
  by (simp add: Encode_def wire_text Let_def body_length_def wire_checksum_def)

lemma wire_sendable:
  assumes "list_all sendable fs" "0 \<le> c" "c < 256"
  shows "list_all sendable (wire_fields n c fs)"
  using assms int_string_separators pad3_facts(2)[OF assms(2,3)]
  by (simp add: wire_fields_def sendable_def tag_defs BeginString_def SOH_def)

lemma check_wire:
  assumes "TagCheckSum \<notin> f_Tag ` set fs" "0 \<le> n" "n < 2 ^ 63" "0 \<le> c" "c < 256"
  shows "check_message (message_of (wire_fields n c fs)) =
    (if body_length fs \<noteq> n then Some (BodyLengthMismatch n (body_length fs))
     else if wire_checksum fs \<noteq> c then Some (CheckSumMismatch c (wire_checksum fs)) else None)"
proof -
  let ?m = "message_of (wire_fields n c fs)"
  have "filter (\<lambda>f. f_Tag f = TagCheckSum) fs = []" using assms(1) unfolding filter_empty_conv by (metis image_eqI)
  then have "values_of (wire_fields n c fs) TagCheckSum = [pad3 c]"
    "\<exists>vs. values_of (wire_fields n c fs) TagBodyLength = int_string n # vs"
    by (simp_all add: values_of_def wire_fields_def tag_defs)
  then have "msg_GetInt ?m TagBodyLength = Some n" "msg_GetInt ?m TagCheckSum = Some c"
    using pad3_facts(1)[OF assms(4,5)] Atoi_int_string[of n] assms(2,3)
    by (auto simp: msg_GetInt_def indexed_Get)
  then show ?thesis
    by (simp add: check_message_def wire_fields_def Let_def body_length_def wire_checksum_def tag_defs[symmetric])
qed

subsection \<open>Frames\<close>

lemma ReadBytes_upto: "d \<notin> set x \<Longrightarrow> ReadBytes d (x @ d # r) = Some (x @ [d], r)"
  by (induction x) auto

lemma ReadFrame_wire:
  assumes "n = body_length fs" "n \<le> 2 ^ 20" "0 \<le> c" "c < 256"
  shows "ReadFrame (fields_body (wire_fields n c fs) @ rest) = Inr (fields_body (wire_fields n c fs), rest)"
proof -
  let ?body = "fields_body fs" and ?cs = "''10='' @ pad3 c"
  have n: "0 \<le> n" "nat n = length ?body" using assms(1) by (simp_all add: body_length_def)
  have wire: "fields_body (wire_fields n c fs) @ rest =
      (''8='' @ BeginString) @ SOH # (''9='' @ int_string n) @ SOH # ?body @ ?cs @ SOH # rest"
    by (simp add: wire_text fix_header_def)
  have b: "SOH \<notin> set (''8='' @ BeginString)" by (simp add: BeginString_def SOH_def)
  have l: "SOH \<notin> set (''9='' @ int_string n)" using int_string_separators by (simp add: SOH_def)
  have c: "SOH \<notin> set ?cs" using pad3_facts(2)[OF assms(3,4)] by (simp add: SOH_def)
  have read: "ReadBytes SOH (fields_body (wire_fields n c fs) @ rest) =
      Some ((''8='' @ BeginString) @ [SOH], (''9='' @ int_string n) @ SOH # ?body @ ?cs @ SOH # rest)"
    "ReadBytes SOH ((''9='' @ int_string n) @ SOH # ?body @ ?cs @ SOH # rest) =
      Some ((''9='' @ int_string n) @ [SOH], ?body @ ?cs @ SOH # rest)"
    "ReadBytes SOH (?cs @ SOH # rest) = Some (?cs @ [SOH], rest)"
    unfolding wire by (rule ReadBytes_upto, fact b, rule ReadBytes_upto, fact l, rule ReadBytes_upto, fact c)
  have "Atoi (butlast (drop 2 ((''9='' @ int_string n) @ [SOH]))) = Some n"
    using Atoi_int_string[of n] n(1) assms(2) by (simp add: butlast_append)
  moreover have "\<not> length ((''9='' @ int_string n) @ [SOH]) < 3" "take 2 ((''9='' @ int_string n) @ [SOH]) = ''9=''"
    by (simp_all add: Suc_le_eq)
  ultimately have "ReadFrame (fields_body (wire_fields n c fs) @ rest) =
      Inr (((''8='' @ BeginString) @ [SOH]) @ ((''9='' @ int_string n) @ [SOH]) @ ?body @ (?cs @ [SOH]), rest)"
    unfolding ReadFrame_def read option.case prod.case using n assms(2) read(3)
    by (simp del: append.simps(2) append_assoc)
  then show ?thesis by (simp add: wire_text fix_header_def)
qed

lemma checksum_change: "a \<noteq> b \<Longrightarrow> checksum (p @ a # s) \<noteq> checksum (p @ b # s)"
proof
  assume "a \<noteq> b" and eq: "checksum (p @ a # s) = checksum (p @ b # s)"
  let ?v = "\<lambda>c :: char. int (of_char c)"
  have range: "0 \<le> ?v c \<and> ?v c < 256" for c 
    using mod_less_divisor[of 256 "of_char c :: nat"] by simp
  define r where "r = sum_list (map ?v p) + sum_list (map ?v s)"
  have "(r + ?v a) mod 256 = (r + ?v b) mod 256" using eq by (simp add: checksum_def r_def algebra_simps)
  then have "256 dvd ?v a - ?v b" by (simp add: mod_eq_dvd_iff)
  then obtain k where "?v a - ?v b = 256 * k" ..
  moreover have "- 256 < ?v a - ?v b" "?v a - ?v b < 256" using range[of a] range[of b] by linarith+
  ultimately have "k = 0" by linarith
  with \<open>?v a - ?v b = 256 * k\<close> have "?v a = ?v b" by simp
  with \<open>a \<noteq> b\<close> show False by simp
qed

subsection \<open>Properties of the codec\<close>

text \<open>C21: What is encoded is what is read: from a stream that starts with the encoding of a message,
  one message is read whose fields are those of the message between the derived header and trailer
  (so every application tag has the value it was given), and the rest of the stream is untouched.\<close>

theorem fix_roundtrip:
  assumes "indexed m" "list_all sendable (m_Fields m)" "TagCheckSum \<notin> f_Tag ` set (m_Fields m)"
    and "body_length (m_Fields m) \<le> 2 ^ 20"
  shows "\<exists>m'. ReadMessage (Encode m @ rest) = Inr (m', rest) \<and>
    m_Fields m' = wire_fields (body_length (m_Fields m)) (wire_checksum (m_Fields m)) (m_Fields m) \<and>
    (\<forall>t. t \<notin> {TagBeginString, TagBodyLength, TagCheckSum} \<longrightarrow> msg_Get m' t = msg_Get m t)"
proof -
  let ?fs = "m_Fields m" and ?n = "body_length (m_Fields m)" and ?c = "wire_checksum (m_Fields m)"
  have n: "0 \<le> ?n" "?n < 2 ^ 63" using assms(4) by (simp_all add: body_length_def)
  have c: "0 \<le> ?c" "?c < 256" by (simp_all add: wire_checksum_def checksum_bounds)
  have "3 \<le> length (wire_fields ?n ?c ?fs)" by (simp add: wire_fields_def)
  then have "Decode (Encode m) = Inr (message_of (wire_fields ?n ?c ?fs))"
    using Decode_fields[OF wire_sendable[OF assms(2) c]] check_wire[OF assms(3) n c] by (simp add: Encode_fields)
  then have "ReadMessage (Encode m @ rest) = Inr (message_of (wire_fields ?n ?c ?fs), rest)"
    using ReadFrame_wire[OF refl assms(4) c, of rest] by (simp add: ReadMessage_def Encode_fields)
  moreover have "msg_Get (message_of (wire_fields ?n ?c ?fs)) t = msg_Get m t"
    if "t \<notin> {TagBeginString, TagBodyLength, TagCheckSum}" for t
  proof -
    have "values_of (wire_fields ?n ?c ?fs) t = values_of ?fs t" using that by (simp add: values_of_def wire_fields_def)
    then show ?thesis by (simp add: indexed_Get assms(1))
  qed
  ultimately show ?thesis by auto
qed

theorem fix_roundtrip_witness:
  "\<exists>m'. ReadMessage (Encode (msg_Set (NewMessage ''D'') 55 ''BTC-USD'') @ ''8=F'') = Inr (m', ''8=F'') \<and>
    msg_Get m' 55 = Some ''BTC-USD''"
proof -
  let ?m = "msg_Set (NewMessage ''D'') 55 ''BTC-USD''"
  have fields: "m_Fields ?m = [\<lparr>f_Tag = 35, f_Value = ''D''\<rparr>, \<lparr>f_Tag = 55, f_Value = ''BTC-USD''\<rparr>]"
    by (simp add: NewMessage_def msg_Set_def empty_message_def tag_defs)
  have "indexed ?m" by (simp add: NewMessage_def indexed_Set indexed_empty)
  moreover have "list_all sendable (m_Fields ?m)" by (simp add: fields sendable_def SOH_def)
  moreover have "TagCheckSum \<notin> f_Tag ` set (m_Fields ?m)" by (simp add: fields tag_defs)
  moreover have "body_length (m_Fields ?m) \<le> 2 ^ 20"
    by (simp add: fields body_length_def fields_body_def field_text_def int_string_def nat_string.simps)
  ultimately obtain m' where "ReadMessage (Encode ?m @ ''8=F'') = Inr (m', ''8=F'')" "msg_Get m' 55 = msg_Get ?m 55"
    using fix_roundtrip[of ?m "''8=F''"] by (auto simp: tag_defs)
  moreover have "msg_Get ?m 55 = Some ''BTC-USD''"
    by (simp add: msg_Get_def msg_Set_def NewMessage_def empty_message_def tag_defs)
  ultimately show ?thesis by simp
qed

text \<open>C22: Corruption of a value is detected: if one byte of one value of an encoded message is replaced
  by another byte that is not the separator, decoding reports a checksum mismatch.\<close>

theorem fix_detects_corruption:
  assumes "list_all sendable (xs @ f # ys)" "TagCheckSum \<notin> f_Tag ` set (xs @ f # ys)"
    and "body_length (xs @ f # ys) < 2 ^ 63" "f_Value f = u @ a # v" "a \<noteq> b" "b \<noteq> SOH"
  shows "\<exists>declared got. Decode (fields_body (wire_fields (body_length (xs @ f # ys)) (wire_checksum (xs @ f # ys))
    (xs @ f\<lparr>f_Value := u @ b # v\<rparr> # ys))) = Inl (CheckSumMismatch declared got)"
proof -
  let ?fs = "xs @ f # ys" and ?gs = "xs @ f\<lparr>f_Value := u @ b # v\<rparr> # ys"
  let ?n = "body_length ?fs" and ?c = "wire_checksum ?fs"
  have n: "0 \<le> ?n" by (simp add: body_length_def)
  have c: "0 \<le> ?c" "?c < 256" by (simp_all add: wire_checksum_def checksum_bounds)
  have send: "list_all sendable ?gs" using assms(1,4,6) by (simp add: sendable_def)
  have len: "body_length ?gs = ?n" using assms(4) by (simp add: body_length_def fields_body_def field_text_def)
  let ?p = "fix_header ?n @ fields_body xs @ int_string (f_Tag f) @ [CHR ''=''] @ u" and ?s = "v @ [SOH] @ fields_body ys"
  have "fix_header ?n @ fields_body ?fs = ?p @ a # ?s" "fix_header ?n @ fields_body ?gs = ?p @ b # ?s"
    using assms(4) by (simp_all add: fields_body_def field_text_def)
  then have sums: "wire_checksum ?gs \<noteq> ?c" using checksum_change[OF assms(5), of ?p ?s] len by (simp only: wire_checksum_def)
  have tags: "TagCheckSum \<notin> f_Tag ` set ?gs" using assms(2) by auto
  have "3 \<le> length (wire_fields ?n ?c ?gs)" by (simp add: wire_fields_def)
  from Decode_fields[OF wire_sendable[OF send c] this] check_wire[OF tags n assms(3) c] len sums show ?thesis by auto
qed

theorem fix_detects_corruption_witness:
  "\<exists>declared got. Decode (fields_body (wire_fields (body_length [\<lparr>f_Tag = 35, f_Value = ''D''\<rparr>, \<lparr>f_Tag = 44, f_Value = ''100''\<rparr>])
      (wire_checksum [\<lparr>f_Tag = 35, f_Value = ''D''\<rparr>, \<lparr>f_Tag = 44, f_Value = ''100''\<rparr>])
      [\<lparr>f_Tag = 35, f_Value = ''D''\<rparr>, \<lparr>f_Tag = 44, f_Value = ''900''\<rparr>])) = Inl (CheckSumMismatch declared got)"
proof -
  have "body_length [\<lparr>f_Tag = 35, f_Value = ''D''\<rparr>, \<lparr>f_Tag = 44, f_Value = ''100''\<rparr>] < 2 ^ 63"
    by (simp add: body_length_def fields_body_def field_text_def int_string_def nat_string.simps)
  then show ?thesis
    using fix_detects_corruption[of "[\<lparr>f_Tag = 35, f_Value = ''D''\<rparr>]" "\<lparr>f_Tag = 44, f_Value = ''100''\<rparr>" "[]" "[]"
        "CHR ''1''" "''00''" "CHR ''9''"] by (simp add: sendable_def SOH_def tag_defs)
qed

subsection \<open>The dictionary\<close>

text \<open>A message is accepted exactly when it has the header tags, a known type with its required tags,
  and a price if it is a limit order that does not confirm a quote.\<close>

lemma fix_Validate_None: "fix_Validate d m = None \<longleftrightarrow> list_all (msg_Has m) headerRequired \<and>
    (\<exists>req. d (MsgType m) = Some req \<and> list_all (msg_Has m) req) \<and>
    (MsgType m \<in> {''D'', ''G''} \<and> msg_Get m 40 = Some ''2'' \<and> \<not> (MsgType m = ''D'' \<and> msg_Get m 692 = Some ''Y'') \<longrightarrow> msg_Has m 44)"
proof -
  have found: "list_all (msg_Has m) ts \<longleftrightarrow> find (\<lambda>t. \<not> msg_Has m t) ts = None" for ts
    by (auto simp: find_None_iff list_all_iff)
  show ?thesis
    unfolding found fix_Validate_def Let_def
    by (cases "find (\<lambda>t. \<not> msg_Has m t) headerRequired"; cases "d (MsgType m)")
      (simp_all split: option.split, blast)
qed

end
