(* ===== verification/OptionContract.thy ===== *)
theory OptionContract
  imports FloatText FixMessageProofs
begin

text \<open>
  \<^verbatim>\<open>internal/optmarket\<close>, the files \<^verbatim>\<open>contract.go\<close>, \<^verbatim>\<open>instrument.go\<close> and \<^verbatim>\<open>symbols.go\<close>: the terms of a listed option,
  its value at settlement, and its names in the forms of four venues. A parse error is its text, without the quoted input.
\<close>

subsection \<open>Terms\<close>

datatype option_kind = CallOption | PutOption

record contract_spec =
  cp_Exercise :: string
  cp_Settlement :: string
  cp_IndexRule :: string
  cp_Multiplier :: float64

definition DefaultContractSpec :: contract_spec where
  "DefaultContractSpec = \<lparr>cp_Exercise = ''european'', cp_Settlement = ''cash'', cp_IndexRule = ''point_in_time'', cp_Multiplier = float_one\<rparr>"

definition EffectiveMultiplier :: "contract_spec \<Rightarrow> float64" where
  "EffectiveMultiplier c = (if float_less float_zero (cp_Multiplier c) then cp_Multiplier c else float_one)"

record instrument =
  it_Spec :: contract_spec
  it_Coin :: string
  it_Underlying :: string
  it_Quote :: string
  it_Strike :: float64
  it_Kind :: option_kind
  it_Expiry :: int

definition expiryHourUTC :: int where "expiryHourUTC = 8"

definition NewInstrument :: "string \<Rightarrow> string \<Rightarrow> string \<Rightarrow> float64 \<Rightarrow> option_kind \<Rightarrow> int \<Rightarrow> instrument" where
  "NewInstrument coin underlying quote strike kind date =
     (let (y, m, d) = utc_date date
      in \<lparr>it_Spec = DefaultContractSpec, it_Coin = coin, it_Underlying = underlying, it_Quote = quote, it_Strike = strike,
          it_Kind = kind, it_Expiry = time_at_hour y m d expiryHourUTC\<rparr>)"

definition SettlePrice :: "instrument \<Rightarrow> float64 \<Rightarrow> float64" where
  "SettlePrice inst index =
     (let m = EffectiveMultiplier (it_Spec inst)
      in case it_Kind inst of
           CallOption \<Rightarrow> float_mul (float_max (float_sub index (it_Strike inst)) float_zero) m
         | PutOption \<Rightarrow> float_mul (float_max (float_sub (it_Strike inst) index) float_zero) m)"

record exotic =
  ex_VenueSymbol :: string
  ex_Coin :: string
  ex_Underlying :: string
  ex_Quote :: string
  ex_Strike :: float64
  ex_Kind :: option_kind
  ex_Expiry :: int
  ex_Payoff :: string
  ex_PayoffFile :: string
  ex_Vol :: float64
  ex_Model :: string

subsection \<open>Dates in names\<close>

definition two_digits :: "int \<Rightarrow> string" where
  "two_digits n = [digit_char (nat n div 10 mod 10), digit_char (nat n mod 10)]"

text \<open>\<^verbatim>\<open>Format("060102")\<close> and \<^verbatim>\<open>Format("2Jan06")\<close>.\<close>

definition format_ymd :: "int \<Rightarrow> string" where
  "format_ymd t = (let (y, m, d) = utc_date t in two_digits (max 0 y mod 100) @ two_digits m @ two_digits d)"

definition month_names :: "string list" where
  "month_names = [''Jan'', ''Feb'', ''Mar'', ''Apr'', ''May'', ''Jun'', ''Jul'', ''Aug'', ''Sep'', ''Oct'', ''Nov'', ''Dec'']"

definition format_day_month :: "int \<Rightarrow> string" where
  "format_day_month t =
     (let (y, m, d) = utc_date t in nat_string (nat d) @ month_names ! (nat m - 1) @ two_digits (max 0 y mod 100))"

text \<open>The parts of \<^verbatim>\<open>time.Parse\<close>: a year of two characters may have a sign; a month is found in any case of letters.\<close>

definition parse_year :: "string \<Rightarrow> int option" where
  "parse_year s =
     (if length s \<noteq> 2 then None
      else case Atoi s of None \<Rightarrow> None | Some y \<Rightarrow> Some (if y \<ge> 69 then y + 1900 else y + 2000))"

definition parse_two :: "string \<Rightarrow> int option" where
  "parse_two s = (if length s = 2 \<and> list_all isDigit s then Some (digits_value s) else None)"

definition date_checked :: "int \<Rightarrow> int \<Rightarrow> int \<Rightarrow> int option" where
  "date_checked y m d = (if 1 \<le> m \<and> m \<le> 12 \<and> 1 \<le> d \<and> d \<le> month_days y m then Some (time_at_hour y m d 0) else None)"

definition parse_ymd :: "string \<Rightarrow> int option" where
  "parse_ymd s =
     (if length s \<noteq> 6 then None
      else case (parse_year (take 2 s), parse_two (take 2 (drop 2 s)), parse_two (drop 4 s)) of
        (Some y, Some m, Some d) \<Rightarrow> date_checked y m d
      | _ \<Rightarrow> None)"

fun month_index :: "string list \<Rightarrow> int \<Rightarrow> string \<Rightarrow> int option" where
  "month_index [] i s = None"
| "month_index (n # ns) i s = (if ToLower n = ToLower s then Some i else month_index ns (i + 1) s)"

definition parse_day_month :: "string \<Rightarrow> int option" where
  "parse_day_month s =
     (let k = (if length s \<ge> 2 \<and> isDigit (s ! 1) then 2 else 1);
          day = take k s; rest = drop k s
      in if s = [] \<or> \<not> isDigit (hd s) \<or> length rest < 3 then None
         else case (month_index month_names 1 (take 3 rest), parse_year (drop 3 rest)) of
           (Some m, Some y) \<Rightarrow> date_checked y m (digits_value day)
         | _ \<Rightarrow> None)"

subsection \<open>Names\<close>

definition strikeText :: "float64 \<Rightarrow> string" where
  "strikeText strike = FormatFloat strike"

definition sideLetter :: "option_kind \<Rightarrow> string" where
  "sideLetter kind = (case kind of PutOption \<Rightarrow> ''P'' | CallOption \<Rightarrow> ''C'')"

definition deribitDate :: "int \<Rightarrow> string" where
  "deribitDate t = ToUpper (format_day_month t)"

text \<open>The format \<^verbatim>\<open>%s-%s-...\<close>.\<close>

fun joined :: "string list \<Rightarrow> string" where
  "joined [] = []"
| "joined [p] = p"
| "joined (p # ps) = p @ CHR ''-'' # joined ps"

definition Symbol :: "instrument \<Rightarrow> string" where
  "Symbol inst = joined [it_Coin inst, format_ymd (it_Expiry inst), strikeText (it_Strike inst), sideLetter (it_Kind inst)]"

definition DeribitName :: "instrument \<Rightarrow> string" where
  "DeribitName inst = joined [it_Coin inst, deribitDate (it_Expiry inst), strikeText (it_Strike inst), sideLetter (it_Kind inst)]"

definition BybitName :: "instrument \<Rightarrow> string" where
  "BybitName inst = DeribitName inst"

definition OKXName :: "instrument \<Rightarrow> string" where
  "OKXName inst =
     joined [it_Coin inst, ''USD'', format_ymd (it_Expiry inst), strikeText (it_Strike inst), sideLetter (it_Kind inst)]"

definition NewExoticInstrument ::
    "string \<Rightarrow> string \<Rightarrow> string \<Rightarrow> float64 \<Rightarrow> option_kind \<Rightarrow> int \<Rightarrow> string \<Rightarrow> exotic" where
  "NewExoticInstrument coin underlying quote strike kind date venueSymbol =
     (let (y, m, d) = utc_date date; expiry = time_at_hour y m d expiryHourUTC
      in \<lparr>ex_VenueSymbol = (if venueSymbol = [] then joined [coin, format_ymd expiry, strikeText strike, ''EXOT''] else venueSymbol),
          ex_Coin = coin, ex_Underlying = underlying, ex_Quote = quote, ex_Strike = strike, ex_Kind = kind, ex_Expiry = expiry,
          ex_Payoff = [], ex_PayoffFile = [], ex_Vol = float_zero, ex_Model = []\<rparr>)"

definition IsExpired :: "instrument \<Rightarrow> int \<Rightarrow> bool" where
  "IsExpired inst now \<longleftrightarrow> \<not> now < it_Expiry inst"

subsection \<open>Reading names\<close>

definition parse_side :: "string \<Rightarrow> option_kind option" where
  "parse_side s = (if ToUpper s = ''C'' then Some CallOption else if ToUpper s = ''P'' then Some PutOption else None)"

definition ParseSymbol :: "string \<Rightarrow> string \<Rightarrow> string + instrument" where
  "ParseSymbol name quote =
     (case split_on (CHR ''-'') name of
        [coin, dateStr, strikeStr, sideStr] \<Rightarrow>
          (case parse_ymd dateStr of None \<Rightarrow> Inl ''optmarket: bad expiry''
           | Some date \<Rightarrow>
          (case ParseFloat strikeStr of None \<Rightarrow> Inl ''optmarket: bad strike''
           | Some strike \<Rightarrow>
              if float_le strike float_zero then Inl ''optmarket: bad strike''
              else case parse_side sideStr of None \<Rightarrow> Inl ''optmarket: bad side''
                | Some kind \<Rightarrow> Inr (NewInstrument coin (coin @ quote) quote strike kind date)))
      | _ \<Rightarrow> Inl ''optmarket: bad option symbol'')"

text \<open>\<^verbatim>\<open>31DEC26\<close> becomes \<^verbatim>\<open>31Dec26\<close>.\<close>

definition deribitToGo :: "string \<Rightarrow> string" where
  "deribitToGo s =
     (let s = ToUpper s; i = length (takeWhile isDigit s)
      in if length s < 5 then s
         else if i = 0 \<or> i + 5 > length s then s
         else take i s @ take 1 (drop i s) @ ToLower (take 2 (drop (i + 1) s)) @ drop (i + 3) s)"

definition parseTail ::
    "string \<Rightarrow> string \<Rightarrow> string \<Rightarrow> string \<Rightarrow> bool \<Rightarrow> string + (string \<times> float64 \<times> option_kind \<times> int)" where
  "parseTail coin dateStr strikeStr sideStr deribit =
     (case (if deribit then parse_day_month (deribitToGo dateStr) else parse_ymd dateStr) of
        None \<Rightarrow> Inl ''optmarket: bad expiry''
      | Some date \<Rightarrow>
     (case ParseFloat strikeStr of None \<Rightarrow> Inl ''optmarket: bad strike''
      | Some strike \<Rightarrow>
         if float_le strike float_zero then Inl ''optmarket: bad strike''
         else case parse_side sideStr of None \<Rightarrow> Inl ''optmarket: bad side''
           | Some kind \<Rightarrow>
               let (y, m, d) = utc_date date in Inr (coin, strike, kind, time_at_hour y m d expiryHourUTC)))"

definition parseDated :: "string \<Rightarrow> bool \<Rightarrow> string + (string \<times> float64 \<times> option_kind \<times> int)" where
  "parseDated name deribit =
     (case split_on (CHR ''-'') name of
        [coin, dateStr, strikeStr, sideStr] \<Rightarrow> parseTail coin dateStr strikeStr sideStr deribit
      | _ \<Rightarrow> Inl ''optmarket: bad option name'')"

definition ParseDeribitName :: "string \<Rightarrow> string + (string \<times> float64 \<times> option_kind \<times> int)" where
  "ParseDeribitName name = parseDated name True"

definition ParseBybitName :: "string \<Rightarrow> string + (string \<times> float64 \<times> option_kind \<times> int)" where
  "ParseBybitName name = parseDated name True"

definition ParseOKXName :: "string \<Rightarrow> string + (string \<times> float64 \<times> option_kind \<times> int)" where
  "ParseOKXName name =
     (case split_on (CHR ''-'') name of
        [coin, usd, dateStr, strikeStr, sideStr] \<Rightarrow>
          if usd \<noteq> ''USD'' then Inl ''optmarket: bad OKX option''
          else parseTail coin dateStr strikeStr sideStr False
      | _ \<Rightarrow> Inl ''optmarket: bad OKX option'')"

end
