(* ===== verification/OptionMarket.thy ===== *)
theory OptionMarket
  imports OptionContract
begin

text \<open>
  \<^verbatim>\<open>internal/optmarket/market.go\<close> with \<^verbatim>\<open>pkg/options/blackscholes.go\<close> and the registry of \<^verbatim>\<open>internal/pricer\<close>: the listed
  options, their marks and their synthetic books. The transcendental functions and the square root of Go's \<^verbatim>\<open>math\<close> package are arguments
  (a \<open>math_fns\<close>); so are the pricer backends, which are other processes, the index and the clock: together they are the
  \<open>surroundings\<close> of an operation. An error is its text without the quoted input.
\<close>

subsection \<open>Black-Scholes\<close>

record math_fns =
  mf_log :: "float64 \<Rightarrow> float64"
  mf_exp :: "float64 \<Rightarrow> float64"
  mf_sqrt :: "float64 \<Rightarrow> float64"
  mf_erfc :: "float64 \<Rightarrow> float64"

record greeks =
  gr_Price :: float64
  gr_Delta :: float64
  gr_Gamma :: float64
  gr_Vega :: float64
  gr_Theta :: float64
  gr_Rho :: float64

definition float_half :: float64 where "float_half = Finite 1 (- 1)"

text \<open>The nearest numbers to the square root of two and to twice \<open>\<pi>\<close>.\<close>

definition float_sqrt2 :: float64 where "float_sqrt2 = Finite 6369051672525773 (- 52)"
definition float_2pi :: float64 where "float_2pi = Finite 7074237752028440 (- 50)"

definition normCDF :: "math_fns \<Rightarrow> float64 \<Rightarrow> float64" where
  "normCDF f x = float_mul float_half (mf_erfc f (float_div (float_neg x) float_sqrt2))"

definition normPDF :: "math_fns \<Rightarrow> float64 \<Rightarrow> float64" where
  "normPDF f x = float_div (mf_exp f (float_mul (float_mul (float_neg float_half) x) x)) (mf_sqrt f float_2pi)"

definition intrinsic_greeks :: "option_kind \<Rightarrow> float64 \<Rightarrow> float64 \<Rightarrow> greeks" where
  "intrinsic_greeks kind s k =
     \<lparr>gr_Price = (if kind = CallOption then float_max (float_sub s k) float_zero else float_max (float_sub k s) float_zero),
      gr_Delta = (if kind = CallOption \<and> float_less k s then float_one
        else if kind = PutOption \<and> float_less s k then float_neg float_one else float_zero),
      gr_Gamma = float_zero, gr_Vega = float_zero, gr_Theta = float_zero, gr_Rho = float_zero\<rparr>"

definition option_greeks ::
    "math_fns \<Rightarrow> option_kind \<Rightarrow> float64 \<Rightarrow> float64 \<Rightarrow> float64 \<Rightarrow> float64 \<Rightarrow> float64 \<Rightarrow> float64 \<Rightarrow> greeks" where
  "option_greeks f kind s k t r q vol =
     (let pos = float_less float_zero; mul = float_mul; add = float_add; sub = float_sub; quo = float_div
      in if \<not> pos t \<or> \<not> pos vol \<or> \<not> pos s \<or> \<not> pos k then intrinsic_greeks kind s k
         else
           let sqrtT = mf_sqrt f t;
               d1 = quo (add (mf_log f (quo s k)) (mul (add (sub r q) (mul (mul float_half vol) vol)) t)) (mul vol sqrtT);
               d2 = sub d1 (mul vol sqrtT);
               discR = mf_exp f (mul (float_neg r) t);
               discQ = mf_exp f (mul (float_neg q) t);
               pdf = normPDF f d1;
               spotPdf = mul (mul s discQ) pdf;
               gamma = quo (mul discQ pdf) (mul (mul s vol) sqrtT);
               vega = mul spotPdf sqrtT;
               decay = quo (float_neg (mul spotPdf vol)) (mul (float_of_int 2) sqrtT);
               days = float_of_int 365
           in (case kind of
                 CallOption \<Rightarrow>
                   (let nd1 = normCDF f d1; nd2 = normCDF f d2
                    in \<lparr>gr_Price = sub (mul (mul s discQ) nd1) (mul (mul k discR) nd2),
                        gr_Delta = mul discQ nd1, gr_Gamma = gamma, gr_Vega = vega,
                        gr_Theta = quo (add (sub decay (mul (mul (mul r k) discR) nd2)) (mul (mul (mul q s) discQ) nd1)) days,
                        gr_Rho = mul (mul (mul k t) discR) nd2\<rparr>)
               | PutOption \<Rightarrow>
                   (let nmd1 = normCDF f (float_neg d1); nmd2 = normCDF f (float_neg d2)
                    in \<lparr>gr_Price = sub (mul (mul k discR) nmd2) (mul (mul s discQ) nmd1),
                        gr_Delta = mul (float_neg discQ) nmd1, gr_Gamma = gamma, gr_Vega = vega,
                        gr_Theta = quo (sub (add decay (mul (mul (mul r k) discR) nmd2)) (mul (mul (mul q s) discQ) nmd1)) days,
                        gr_Rho = mul (mul (mul (float_neg k) t) discR) nmd2\<rparr>)))"

definition bs_Price :: "math_fns \<Rightarrow> option_kind \<Rightarrow> float64 \<Rightarrow> float64 \<Rightarrow> float64 \<Rightarrow> float64 \<Rightarrow> float64 \<Rightarrow> float64" where
  "bs_Price f kind s k t r vol = gr_Price (option_greeks f kind s k t r float_zero vol)"

definition bs_Compute :: "math_fns \<Rightarrow> option_kind \<Rightarrow> float64 \<Rightarrow> float64 \<Rightarrow> float64 \<Rightarrow> float64 \<Rightarrow> float64 \<Rightarrow> greeks" where
  "bs_Compute f kind s k t r vol = option_greeks f kind s k t r float_zero vol"

definition ComputeWithDividend ::
    "math_fns \<Rightarrow> option_kind \<Rightarrow> float64 \<Rightarrow> float64 \<Rightarrow> float64 \<Rightarrow> float64 \<Rightarrow> float64 \<Rightarrow> float64 \<Rightarrow> greeks" where
  "ComputeWithDividend f kind s k t r q vol = option_greeks f kind s k t r q vol"

subsection \<open>Pricers\<close>

text \<open>The parameters of a price that the market sets; the other ones stay as configured.\<close>

record price_params =
  pp_Symbol :: string
  pp_Spot :: float64
  pp_Vol :: float64
  pp_Rate :: float64
  pp_ExpiryYears :: float64
  pp_Strike :: float64
  pp_Side :: string
  pp_NumPaths :: int
  pp_NumSteps :: int
  pp_Seed :: int
  pp_RNG :: string
  pp_Model :: string
  pp_Script :: string
  pp_ScriptFile :: string

text \<open>A registry has the backends by lower-case name; a backend is what its \<^verbatim>\<open>Price\<close> answers.\<close>

type_synonym pricer = "price_params \<Rightarrow> string + float64"
type_synonym pricers = "string \<rightharpoonup> pricer"

definition NewPricers :: pricers where "NewPricers = Map.empty"

definition pricer_Register :: "string \<Rightarrow> pricer \<Rightarrow> pricers \<Rightarrow> pricers" where
  "pricer_Register name p r = r(ToLower name \<mapsto> p)"

definition pricer_Get :: "pricers \<Rightarrow> string \<Rightarrow> pricer option" where
  "pricer_Get r name = r (ToLower name)"

subsection \<open>Marks and books\<close>

record mark =
  mk_Symbol :: string
  mk_Price :: float64
  mk_Bid :: float64
  mk_Ask :: float64
  mk_BidIV :: float64
  mk_AskIV :: float64
  mk_MarkIV :: float64
  mk_Delta :: float64
  mk_Gamma :: float64
  mk_Vega :: float64
  mk_Theta :: float64
  mk_Rho :: float64
  mk_HighPriceLimit :: float64
  mk_LowPriceLimit :: float64
  mk_Rate :: float64
  mk_Pricer :: string
  mk_Model :: string

text \<open>A synthetic book: its time and the levels of either side, a price and a size.\<close>

record option_book =
  ok_TimeMs :: int
  ok_UpdateID :: int
  ok_Bids :: "(float64 \<times> float64) list"
  ok_Asks :: "(float64 \<times> float64) list"

record contract =
  ct_Symbol :: string
  ct_Underlying :: string
  ct_Quote :: string
  ct_Side :: string
  ct_Strike :: float64
  ct_ExpiryMs :: int
  ct_Unit :: int
  ct_PriceScale :: int
  ct_QuantityScale :: int
  ct_ExerciseStyle :: string
  ct_Settlement :: string
  ct_IndexRule :: string
  ct_Multiplier :: float64

subsection \<open>The market\<close>

text \<open>A smile gives the volatility for a strike, a forward and a tenor.\<close>

type_synonym smile = "float64 \<Rightarrow> float64 \<Rightarrow> float64 \<Rightarrow> float64"

record market_leg =
  lg_smile :: "smile option"
  lg_q :: float64
  lg_forward :: "(float64 \<Rightarrow> float64 \<Rightarrow> float64 \<Rightarrow> float64 \<Rightarrow> float64) option"

record cache_entry =
  ce_mk :: "string + mark"
  ce_at :: int

record settlement =
  st_Symbol :: string
  st_IsExotic :: bool
  st_Index :: float64
  st_PerUnit :: float64
  st_TimeMs :: int
  st_Multiplier :: float64

record opt_market =
  om_rate :: float64
  om_ivSpread :: float64
  om_bookHalf :: float64
  om_priceCap :: float64
  om_order :: "instrument list"
  om_bySymbol :: "string \<rightharpoonup> instrument"
  om_legs :: "string \<rightharpoonup> market_leg"
  om_reg :: "pricers option"
  om_pricerName :: string
  om_sharedModel :: price_params
  om_exotics :: "string \<rightharpoonup> exotic"
  om_exoticOrder :: "string list"
  om_exoticTTL :: int
  om_exoticMax :: float64
  om_exoticHalf :: float64
  om_exoticBySym :: "string \<rightharpoonup> cache_entry"
  om_settled :: "string list"
  om_settlements :: "settlement list"

record surroundings =
  su_math :: math_fns
  su_now :: int
  su_index :: "string \<Rightarrow> float64 option"

definition zero_params :: price_params where
  "zero_params = \<lparr>pp_Symbol = [], pp_Spot = float_zero, pp_Vol = float_zero, pp_Rate = float_zero, pp_ExpiryYears = float_zero,
     pp_Strike = float_zero, pp_Side = [], pp_NumPaths = 0, pp_NumSteps = 0, pp_Seed = 0, pp_RNG = [], pp_Model = [],
     pp_Script = [], pp_ScriptFile = []\<rparr>"

definition NewMarket :: "float64 \<Rightarrow> float64 \<Rightarrow> float64 \<Rightarrow> float64 \<Rightarrow> opt_market" where
  "NewMarket rate ivSpread bookHalf priceCap =
     \<lparr>om_rate = rate, om_ivSpread = ivSpread, om_bookHalf = bookHalf, om_priceCap = priceCap, om_order = [],
      om_bySymbol = Map.empty, om_legs = Map.empty, om_reg = None, om_pricerName = [], om_sharedModel = zero_params,
      om_exotics = Map.empty, om_exoticOrder = [], om_exoticTTL = 0, om_exoticMax = float_zero, om_exoticHalf = float_zero,
      om_exoticBySym = Map.empty, om_settled = [], om_settlements = []\<rparr>"

definition leg_of :: "opt_market \<Rightarrow> string \<Rightarrow> market_leg" where
  "leg_of m underlying =
     (case om_legs m underlying of None \<Rightarrow> \<lparr>lg_smile = None, lg_q = float_zero, lg_forward = None\<rparr> | Some lg \<Rightarrow> lg)"

definition SetSurface :: "string \<Rightarrow> smile option \<Rightarrow> opt_market \<Rightarrow> opt_market" where
  "SetSurface underlying smile m =
     (if smile = None then m
      else m\<lparr>om_legs := (om_legs m)(underlying \<mapsto> (leg_of m underlying)\<lparr>lg_smile := smile\<rparr>)\<rparr>)"

definition SetDividendYield :: "string \<Rightarrow> float64 \<Rightarrow> opt_market \<Rightarrow> opt_market" where
  "SetDividendYield underlying q m = m\<lparr>om_legs := (om_legs m)(underlying \<mapsto> (leg_of m underlying)\<lparr>lg_q := q\<rparr>)\<rparr>"

definition SetForward ::
    "string \<Rightarrow> (float64 \<Rightarrow> float64 \<Rightarrow> float64 \<Rightarrow> float64 \<Rightarrow> float64) option \<Rightarrow> opt_market \<Rightarrow> opt_market" where
  "SetForward underlying fn m = m\<lparr>om_legs := (om_legs m)(underlying \<mapsto> (leg_of m underlying)\<lparr>lg_forward := fn\<rparr>)\<rparr>"

text \<open>The crypto smile: a quadratic in log-moneyness with a floor; \<open>atm\<close>, \<open>skew\<close> and \<open>curve\<close> are its fields.\<close>

definition float_cent :: float64 where "float_cent = float_of_ratio 1 100"

definition VolSurface_Vol :: "math_fns \<Rightarrow> float64 \<Rightarrow> float64 \<Rightarrow> float64 \<Rightarrow> smile" where
  "VolSurface_Vol f atm skew curve strike forward expiryYears =
     (if \<not> float_less float_zero strike \<or> \<not> float_less float_zero forward then float_max atm float_cent
      else let m = mf_log f (float_div strike forward);
               v = float_add (float_add atm (float_mul skew m)) (float_mul (float_mul curve m) m)
           in if float_less v float_cent then float_cent else v)"

definition CarryForward :: "math_fns \<Rightarrow> float64 \<Rightarrow> float64 \<Rightarrow> float64 \<Rightarrow> float64 \<Rightarrow> float64" where
  "CarryForward f spot rate dividendYield years =
     float_mul spot (mf_exp f (float_mul (float_sub rate dividendYield) years))"

definition smileFor :: "math_fns \<Rightarrow> opt_market \<Rightarrow> string \<Rightarrow> smile" where
  "smileFor f m underlying =
     (case lg_smile (leg_of m underlying) of Some sm \<Rightarrow> sm | None \<Rightarrow> VolSurface_Vol f float_half float_zero float_zero)"

definition yieldFor :: "opt_market \<Rightarrow> string \<Rightarrow> float64" where
  "yieldFor m underlying = lg_q (leg_of m underlying)"

definition forwardFor :: "math_fns \<Rightarrow> opt_market \<Rightarrow> string \<Rightarrow> float64 \<Rightarrow> float64 \<Rightarrow> float64" where
  "forwardFor f m underlying spot years =
     (let q = yieldFor m underlying
      in case lg_forward (leg_of m underlying) of
           Some fwd \<Rightarrow> fwd spot (om_rate m) q years
         | None \<Rightarrow> CarryForward f spot (om_rate m) q years)"

subsection \<open>Listing\<close>

definition AddInstrument :: "instrument \<Rightarrow> opt_market \<Rightarrow> opt_market" where
  "AddInstrument inst m =
     (let name = Symbol inst
      in if om_bySymbol m name \<noteq> None then m
         else m\<lparr>om_bySymbol := (om_bySymbol m)(name \<mapsto> inst), om_order := om_order m @ [inst]\<rparr>)"

definition trim_space :: "string \<Rightarrow> string" where
  "trim_space s = rev (dropWhile is_space (rev (dropWhile is_space s)))"

definition last_token :: "string \<Rightarrow> string" where
  "last_token s = rev (takeWhile (\<lambda>c. c \<noteq> CHR ''-'') (rev s))"

definition AddExotic :: "exotic \<Rightarrow> opt_market \<Rightarrow> string option \<times> opt_market" where
  "AddExotic ex m =
     (let name = trim_space (ex_VenueSymbol ex)
      in if name = [] then (Some ''optmarket: exotic with empty venue symbol'', m)
         else if last_token name = ''C'' \<or> last_token name = ''P'' then (Some ''optmarket: exotic venue symbol parses as a vanilla side'', m)
         else if last name = CHR ''-'' then (Some ''optmarket: exotic venue symbol ends in a dash'', m)
         else if ex_Payoff ex = [] \<and> ex_PayoffFile ex = [] then (Some ''optmarket: exotic has neither payoff nor payoff_file'', m)
         else if ex_Payoff ex \<noteq> [] \<and> ex_PayoffFile ex \<noteq> [] then (Some ''optmarket: exotic sets both payoff and payoff_file'', m)
         else if float_le (ex_Strike ex) float_zero then (Some ''optmarket: exotic has a non-positive strike'', m)
         else if ex_Underlying ex = [] then (Some ''optmarket: exotic has no underlying index'', m)
         else if om_exotics m name \<noteq> None then (None, m)
         else (None, m\<lparr>om_exotics := (om_exotics m)(name \<mapsto> ex), om_exoticOrder := om_exoticOrder m @ [name]\<rparr>))"

definition ExoticSymbols :: "opt_market \<Rightarrow> string list" where
  "ExoticSymbols m = om_exoticOrder m"

definition defaultExoticTTL :: int where "defaultExoticTTL = 5000000000"

definition AttachPricer ::
    "pricers option \<Rightarrow> string \<Rightarrow> price_params \<Rightarrow> int \<Rightarrow> float64 \<Rightarrow> float64 \<Rightarrow> opt_market \<Rightarrow> string option \<times> opt_market" where
  "AttachPricer reg pricerName shared ttl maxFairValue halfSpreadFrac m =
     (case reg of None \<Rightarrow> (Some ''optmarket: AttachPricer: nil registry'', m)
      | Some r \<Rightarrow>
          if pricer_Get r pricerName = None then (Some ''optmarket: pricer not registered'', m)
          else (None, m\<lparr>om_reg := reg, om_pricerName := pricerName, om_sharedModel := shared,
                  om_exoticTTL := (if ttl \<le> 0 then defaultExoticTTL else ttl), om_exoticMax := maxFairValue,
                  om_exoticHalf := (if float_less float_zero halfSpreadFrac then halfSpreadFrac else om_exoticHalf m)\<rparr>))"

definition HasPricer :: "opt_market \<Rightarrow> bool" where
  "HasPricer m \<longleftrightarrow> om_reg m \<noteq> None"

definition IsListed :: "opt_market \<Rightarrow> string \<Rightarrow> bool" where
  "IsListed m name \<longleftrightarrow> om_bySymbol m name \<noteq> None \<or> om_exotics m name \<noteq> None"

definition ExpiryOf :: "opt_market \<Rightarrow> string \<Rightarrow> int option" where
  "ExpiryOf m name =
     (case om_bySymbol m name of Some inst \<Rightarrow> Some (it_Expiry inst)
      | None \<Rightarrow> map_option ex_Expiry (om_exotics m name))"

definition QuoteAndAsset :: "opt_market \<Rightarrow> string \<Rightarrow> (string \<times> string) option" where
  "QuoteAndAsset m name =
     (case om_bySymbol m name of Some inst \<Rightarrow> Some (it_Quote inst, ''OTC:'' @ name)
      | None \<Rightarrow> map_option (\<lambda>ex. (ex_Quote ex, ''OTC:'' @ name)) (om_exotics m name))"

definition option_Find :: "opt_market \<Rightarrow> string \<Rightarrow> float64 \<Rightarrow> option_kind \<Rightarrow> int \<Rightarrow> instrument option" where
  "option_Find m coin strike kind expiry =
     find (\<lambda>inst. it_Coin inst = coin \<and> it_Kind inst = kind \<and> float_eq (it_Strike inst) strike \<and> it_Expiry inst = expiry) (om_order m)"

text \<open>What a missing exotic reads as.\<close>

definition exotic_at :: "opt_market \<Rightarrow> string \<Rightarrow> exotic" where
  "exotic_at m name =
     (case om_exotics m name of Some ex \<Rightarrow> ex
      | None \<Rightarrow> \<lparr>ex_VenueSymbol = [], ex_Coin = [], ex_Underlying = [], ex_Quote = [], ex_Strike = float_zero, ex_Kind = CallOption,
          ex_Expiry = 0, ex_Payoff = [], ex_PayoffFile = [], ex_Vol = float_zero, ex_Model = []\<rparr>)"

definition Contracts :: "opt_market \<Rightarrow> contract list" where
  "Contracts m =
     map (\<lambda>inst. \<lparr>ct_Symbol = Symbol inst, ct_Underlying = it_Underlying inst, ct_Quote = it_Quote inst,
        ct_Side = (if it_Kind inst = PutOption then ''PUT'' else ''CALL''), ct_Strike = it_Strike inst,
        ct_ExpiryMs = unix_milli (it_Expiry inst), ct_Unit = 1, ct_PriceScale = 2, ct_QuantityScale = 2,
        ct_ExerciseStyle = cp_Exercise (it_Spec inst), ct_Settlement = cp_Settlement (it_Spec inst),
        ct_IndexRule = cp_IndexRule (it_Spec inst), ct_Multiplier = EffectiveMultiplier (it_Spec inst)\<rparr>) (om_order m) @
     map (\<lambda>name. let ex = exotic_at m name in
        \<lparr>ct_Symbol = name, ct_Underlying = ex_Underlying ex, ct_Quote = ex_Quote ex,
         ct_Side = (if ex_Kind ex = PutOption then ''PUT'' else ''CALL''), ct_Strike = ex_Strike ex,
         ct_ExpiryMs = unix_milli (ex_Expiry ex), ct_Unit = 1, ct_PriceScale = 2, ct_QuantityScale = 2,
         ct_ExerciseStyle = ''european'', ct_Settlement = ''cash'', ct_IndexRule = ''point_in_time'',
         ct_Multiplier = float_one\<rparr>) (om_exoticOrder m)"

definition market_Index :: "surroundings \<Rightarrow> string \<Rightarrow> string + (float64 \<times> int)" where
  "market_Index e underlying =
     (case su_index e underlying of
        Some px \<Rightarrow> if float_less float_zero px then Inr (px, unix_milli (su_now e)) else Inl ''optmarket: no index for underlying''
      | None \<Rightarrow> Inl ''optmarket: no index for underlying'')"

subsection \<open>Prices\<close>

text \<open>The fraction of a year of 365 days until an expiry, at least zero: the seconds between are a whole number of
  nanoseconds, divided.\<close>

definition TimeToExpiry :: "int \<Rightarrow> int \<Rightarrow> float64" where
  "TimeToExpiry expiry now =
     (let d = expiry - now;
          dt = float_add (float_of_int (d div 1000000000)) (float_div (float_of_int (d mod 1000000000)) (float_of_int 1000000000))
      in if float_le dt float_zero then float_zero else float_div dt (float_of_int 31536000))"

definition computeMark :: "surroundings \<Rightarrow> opt_market \<Rightarrow> instrument \<Rightarrow> string + (greeks \<times> float64)" where
  "computeMark e m inst =
     (case su_index e (it_Underlying inst) of
        None \<Rightarrow> Inl ''optmarket: no index for underlying''
      | Some index \<Rightarrow>
          if \<not> float_less float_zero index then Inl ''optmarket: no index for underlying''
          else let t = TimeToExpiry (it_Expiry inst) (su_now e);
                   q = yieldFor m (it_Underlying inst);
                   fwd = forwardFor (su_math e) m (it_Underlying inst) index t;
                   vol = smileFor (su_math e) m (it_Underlying inst) (it_Strike inst) fwd t
               in Inr (ComputeWithDividend (su_math e) (it_Kind inst) index (it_Strike inst) t (om_rate m) q vol, vol))"

definition markOf :: "surroundings \<Rightarrow> opt_market \<Rightarrow> instrument \<Rightarrow> string + mark" where
  "markOf e m inst =
     (case computeMark e m inst of Inl err \<Rightarrow> Inl err
      | Inr (g, vol) \<Rightarrow>
          Inr \<lparr>mk_Symbol = Symbol inst, mk_Price = gr_Price g, mk_Bid = float_zero, mk_Ask = float_zero,
            mk_BidIV = float_max (float_sub vol (om_ivSpread m)) (float_of_ratio 1 1000), mk_AskIV = float_add vol (om_ivSpread m),
            mk_MarkIV = vol, mk_Delta = gr_Delta g, mk_Gamma = gr_Gamma g, mk_Vega = gr_Vega g, mk_Theta = gr_Theta g,
            mk_Rho = gr_Rho g, mk_HighPriceLimit = float_mul (gr_Price g) (float_add float_one (om_priceCap m)),
            mk_LowPriceLimit = float_max (float_mul (gr_Price g) (float_sub float_one (om_priceCap m))) float_zero,
            mk_Rate = om_rate m, mk_Pricer = [], mk_Model = []\<rparr>)"

definition exoticHalfFrac :: "opt_market \<Rightarrow> float64" where
  "exoticHalfFrac m = (if float_less float_zero (om_exoticHalf m) then om_exoticHalf m else om_bookHalf m)"

text \<open>The parameters that either price of an exotic has in common; \<open>fwd\<close> and \<open>t\<close> are those of the fallback volatility.\<close>

definition exotic_params :: "math_fns \<Rightarrow> opt_market \<Rightarrow> exotic \<Rightarrow> string \<Rightarrow> float64 \<Rightarrow> float64 \<Rightarrow> float64 \<Rightarrow> price_params" where
  "exotic_params f m ex name spot fwd t =
     (let p = om_sharedModel m
      in p\<lparr>pp_Symbol := name, pp_Spot := spot, pp_Script := ex_Payoff ex, pp_ScriptFile := ex_PayoffFile ex,
           pp_Model := (if ex_Model ex \<noteq> [] then ex_Model ex else pp_Model p),
           pp_Vol := (if float_less float_zero (ex_Vol ex) then ex_Vol ex
             else if float_le (pp_Vol p) float_zero then smileFor f m (ex_Underlying ex) (ex_Strike ex) fwd t
             else pp_Vol p),
           pp_Strike := float_zero, pp_Side := []\<rparr>)"

definition finite_float :: "float64 \<Rightarrow> bool" where
  "finite_float x \<longleftrightarrow> (case x of Finite m b \<Rightarrow> True | _ \<Rightarrow> False)"

definition exotic_mark :: "opt_market \<Rightarrow> string \<Rightarrow> string \<Rightarrow> float64 \<Rightarrow> mark" where
  "exotic_mark m name model fair =
     (let half = exoticHalfFrac m;
          bid = float_mul fair (float_sub float_one half);
          least = float_of_ratio 1 1000000000
      in \<lparr>mk_Symbol = name, mk_Price = fair, mk_Bid = (if float_less bid least then least else bid),
          mk_Ask = float_mul fair (float_add float_one half), mk_BidIV = float_zero, mk_AskIV = float_zero, mk_MarkIV = float_zero,
          mk_Delta = float_zero, mk_Gamma = float_zero, mk_Vega = float_zero, mk_Theta = float_zero, mk_Rho = float_zero,
          mk_HighPriceLimit = float_mul fair (float_add float_one (om_priceCap m)),
          mk_LowPriceLimit = float_max (float_mul fair (float_sub float_one (om_priceCap m))) float_zero, mk_Rate = om_rate m,
          mk_Pricer = om_pricerName m, mk_Model = (if model = [] then ''bs'' else ToLower model)\<rparr>)"

text \<open>A registry that was never attached is a nil pointer, and asking it panics.\<close>

definition priceExoticNow :: "surroundings \<Rightarrow> opt_market \<Rightarrow> string \<Rightarrow> (string + mark) option" where
  "priceExoticNow e m name =
     (case om_exotics m name of None \<Rightarrow> Some (Inl ''optmarket: unknown exotic'')
      | Some ex \<Rightarrow>
     (case su_index e (ex_Underlying ex) of None \<Rightarrow> Some (Inl ''optmarket: no index for exotic'')
      | Some index \<Rightarrow>
         if \<not> float_less float_zero index then Some (Inl ''optmarket: no index for exotic'')
         else let t = TimeToExpiry (ex_Expiry ex) (su_now e) in
         if float_le t float_zero then Some (Inl ''optmarket: exotic is expired'')
         else let fwd = forwardFor (su_math e) m (ex_Underlying ex) index t;
                  p = exotic_params (su_math e) m ex name index fwd t in
         (case om_reg m of None \<Rightarrow> None
          | Some reg \<Rightarrow>
         (case pricer_Get reg (om_pricerName m) of None \<Rightarrow> Some (Inl ''optmarket: pricer not registered'')
          | Some pc \<Rightarrow>
         (case pc p of Inl err \<Rightarrow> Some (Inl (''optmarket: pricer: '' @ err))
          | Inr fair \<Rightarrow>
             if \<not> finite_float fair then Some (Inl ''optmarket: non-finite price'')
             else if \<not> float_less float_zero fair then Some (Inl ''optmarket: non-positive fair value'')
             else if float_less float_zero (om_exoticMax m) \<and> float_less (om_exoticMax m) fair
             then Some (Inl ''optmarket: fair value exceeds risk limit'')
             else Some (Inr (exotic_mark m name (pp_Model p) fair)))))))"

text \<open>The cached mark of an exotic, priced anew when it is missing or too old.\<close>

definition cached_exotic :: "surroundings \<Rightarrow> opt_market \<Rightarrow> string \<Rightarrow> ((string + mark) \<times> opt_market) option" where
  "cached_exotic e m name =
     (let price = do {
            res \<leftarrow> priceExoticNow e m name;
            Some (res, m\<lparr>om_exoticBySym := (om_exoticBySym m)(name \<mapsto> \<lparr>ce_mk = res, ce_at = su_now e\<rparr>)\<rparr>)
          }
      in case om_exoticBySym m name of
           Some ce \<Rightarrow> if su_now e - ce_at ce < om_exoticTTL m then Some (ce_mk ce, m) else price
         | None \<Rightarrow> price)"

definition market_Mark :: "surroundings \<Rightarrow> opt_market \<Rightarrow> string \<Rightarrow> ((string + mark) \<times> opt_market) option" where
  "market_Mark e m name =
     (if om_exotics m name \<noteq> None then cached_exotic e m name
      else case om_bySymbol m name of
        None \<Rightarrow> Some (Inl ''optmarket: unknown option symbol'', m)
      | Some inst \<Rightarrow> Some (markOf e m inst, m))"

fun exotic_marks :: "surroundings \<Rightarrow> string list \<Rightarrow> opt_market \<Rightarrow> (mark list \<times> opt_market) option" where
  "exotic_marks e [] m = Some ([], m)"
| "exotic_marks e (name # names) m = do {
     (res, m) \<leftarrow> cached_exotic e m name;
     (mks, m) \<leftarrow> exotic_marks e names m;
     Some ((case res of Inl err \<Rightarrow> mks | Inr mk \<Rightarrow> mk # mks), m)
   }"

definition right_of :: "'a + 'b \<Rightarrow> 'b list" where
  "right_of x = (case x of Inl a \<Rightarrow> [] | Inr b \<Rightarrow> [b])"

definition Marks :: "surroundings \<Rightarrow> opt_market \<Rightarrow> (mark list \<times> opt_market) option" where
  "Marks e m = do {
     (mks, m') \<leftarrow> exotic_marks e (om_exoticOrder m) m;
     Some (concat (map (\<lambda>inst. right_of (markOf e m inst)) (om_order m)) @ mks, m')
   }"

subsection \<open>Synthetic books\<close>

definition synthesizeBook :: "int \<Rightarrow> opt_market \<Rightarrow> float64 \<Rightarrow> int \<Rightarrow> option_book" where
  "synthesizeBook now m price levels =
     (let step = float_max (float_mul price (om_bookHalf m)) (float_of_ratio 1 10000);
          size_at = (\<lambda>i. float_mul (float_of_int (levels - i + 1)) (float_of_int 10));
          places = map int [1..<nat levels + 1];
          bid = (\<lambda>i. float_sub price (float_mul (float_of_int i) step));
          ask = (\<lambda>i. float_add price (float_mul (float_of_int i) step))
      in \<lparr>ok_TimeMs = unix_milli now, ok_UpdateID = unix_milli now,
          ok_Bids = map (\<lambda>i. (bid i, size_at i)) (filter (\<lambda>i. float_less float_zero (bid i)) places),
          ok_Asks = map (\<lambda>i. (ask i, size_at i)) places\<rparr>)"

definition option_Depth :: "surroundings \<Rightarrow> opt_market \<Rightarrow> string \<Rightarrow> int \<Rightarrow> ((string + option_book) \<times> opt_market) option" where
  "option_Depth e m name levels =
     (if om_exotics m name \<noteq> None then do {
        (res, m) \<leftarrow> cached_exotic e m name;
        Some (case res of Inl err \<Rightarrow> Inl err
          | Inr mk \<Rightarrow> Inr \<lparr>ok_TimeMs = unix_milli (su_now e), ok_UpdateID = unix_milli (su_now e),
              ok_Bids = (if float_less float_zero (mk_Bid mk) then [(mk_Bid mk, float_of_int 10)] else []),
              ok_Asks = (if float_less float_zero (mk_Ask mk) then [(mk_Ask mk, float_of_int 10)] else [])\<rparr>, m)
      }
      else case om_bySymbol m name of
        None \<Rightarrow> Some (Inl ''optmarket: unknown option symbol'', m)
      | Some inst \<Rightarrow>
          Some (case computeMark e m inst of Inl err \<Rightarrow> Inl err
            | Inr (g, vol) \<Rightarrow>
                Inr (synthesizeBook (su_now e) m (gr_Price g) (if levels < 1 then 1 else if levels > 50 then 50 else levels)), m))"

end
