(* ===== verification/OptionSettle.thy ===== *)
theory OptionSettle
  imports OptionMarket OrderBook
begin

text \<open>
  \<^verbatim>\<open>internal/optmarket/settle.go\<close>: the expiry sweep. What the sweep drives, the book and the ledger of the client, is
  an arbitrary state \<open>'s\<close> with the operations of a \<open>settler\<close>: the listing and the cancellation of resting orders
  (\<^verbatim>\<open>Matcher\<close>; a failed cancellation is logged and the sweep goes on), the position held, and the hook that settles cash. Any of them may panic.
  Logging is left out. A lock makes each claim atomic; a sweep is one operation here.
\<close>

subsection \<open>What the sweep drives\<close>

record 's settler =
  sl_OpenOrders :: "'s \<Rightarrow> string \<Rightarrow> order list"
  sl_CancelOrder :: "string \<Rightarrow> string \<Rightarrow> 's \<Rightarrow> 's option"
  sl_positions :: "string \<Rightarrow> 's \<Rightarrow> decimal \<times> 's"
  sl_onSettle :: "(settlement \<Rightarrow> decimal \<Rightarrow> 's \<Rightarrow> 's option) option"

subsection \<open>Claims\<close>

definition claim :: "string \<Rightarrow> opt_market \<Rightarrow> bool \<times> opt_market" where
  "claim name m =
     (if name \<in> set (om_settled m) then (False, m) else (True, m\<lparr>om_settled := om_settled m @ [name]\<rparr>))"

definition unclaim :: "string \<Rightarrow> opt_market \<Rightarrow> opt_market" where
  "unclaim name m = m\<lparr>om_settled := removeAll name (om_settled m)\<rparr>"

definition settledKeys :: "opt_market \<Rightarrow> string list" where
  "settledKeys m = om_settled m"

definition IsSettled :: "opt_market \<Rightarrow> string \<Rightarrow> bool" where
  "IsSettled m name \<longleftrightarrow> name \<in> set (om_settled m)"

definition Settlements :: "opt_market \<Rightarrow> settlement list" where
  "Settlements m = om_settlements m"

subsection \<open>Settling a contract\<close>

fun cancel_rests :: "'s settler \<Rightarrow> string \<Rightarrow> order list \<Rightarrow> 's \<Rightarrow> 's option" where
  "cancel_rests sl name [] s = Some s"
| "cancel_rests sl name (x # xs) s = do { s \<leftarrow> sl_CancelOrder sl name (ord_ID x) s; cancel_rests sl name xs s }"

definition cancelResting :: "'s settler \<Rightarrow> string \<Rightarrow> 's \<Rightarrow> 's option" where
  "cancelResting sl name s = cancel_rests sl name (sl_OpenOrders sl s name) s"

definition finishSettle ::
    "surroundings \<Rightarrow> 's settler \<Rightarrow> string \<Rightarrow> bool \<Rightarrow> float64 \<Rightarrow> float64 \<Rightarrow> float64 \<Rightarrow> opt_market \<times> 's \<Rightarrow>
      (settlement \<times> opt_market \<times> 's) option" where
  "finishSettle e sl name isExotic idx perUnit multiplier ms =
     (let (m, s) = ms in do {
        s \<leftarrow> cancelResting sl name s;
        let rec = \<lparr>st_Symbol = name, st_IsExotic = isExotic, st_Index = idx, st_PerUnit = perUnit,
              st_TimeMs = unix_milli (su_now e), st_Multiplier = multiplier\<rparr>;
        let m = m\<lparr>om_settlements := om_settlements m @ [rec]\<rparr>;
        s \<leftarrow> (case sl_onSettle sl of None \<Rightarrow> Some s
          | Some hook \<Rightarrow> let (held, s) = sl_positions sl name s in if Sign held > 0 then hook rec held s else Some s);
        Some (rec, m, s)
      })"

definition settleExoticPrice :: "surroundings \<Rightarrow> opt_market \<Rightarrow> string \<Rightarrow> string + float64" where
  "settleExoticPrice e m name =
     (case om_reg m of None \<Rightarrow> Inl ''no pricer attached''
      | Some reg \<Rightarrow>
     (case om_exotics m name of None \<Rightarrow> Inl ''unknown exotic''
      | Some ex \<Rightarrow>
     (case su_index e (ex_Underlying ex) of None \<Rightarrow> Inl ''no settlement index for underlying''
      | Some px \<Rightarrow>
         if float_le px float_zero then Inl ''no settlement index for underlying''
         else let p = (exotic_params (su_math e) m ex name px px float_zero)\<lparr>pp_ExpiryYears := float_zero\<rparr> in
         (case pricer_Get reg (om_pricerName m) of None \<Rightarrow> Inl ''pricer not registered''
          | Some pc \<Rightarrow>
         (case pc p of Inl err \<Rightarrow> Inl (''pricer: '' @ err)
          | Inr x \<Rightarrow>
             if \<not> finite_float x \<or> \<not> float_le float_zero x then Inl ''pricer returned a non-finite or negative terminal value''
             else Inr x)))))"

text \<open>One turn of either loop: the settlement, if the contract settles now.\<close>

definition settle_vanilla ::
    "surroundings \<Rightarrow> 's settler \<Rightarrow> instrument \<Rightarrow> opt_market \<times> 's \<Rightarrow> (settlement list \<times> opt_market \<times> 's) option" where
  "settle_vanilla e sl inst ms =
     (let (m, s) = ms; name = Symbol inst
      in if \<not> IsExpired inst (su_now e) then Some ([], m, s)
         else let (ok, m) = claim name m
              in if \<not> ok then Some ([], m, s)
                 else case su_index e (it_Underlying inst) of
                   None \<Rightarrow> Some ([], unclaim name m, s)
                 | Some idx \<Rightarrow> do {
                     (rec, ms) \<leftarrow> finishSettle e sl name False idx (SettlePrice inst idx) (EffectiveMultiplier (it_Spec inst)) (m, s);
                     Some ([rec], ms)
                   })"

definition settle_exotic ::
    "surroundings \<Rightarrow> 's settler \<Rightarrow> string \<Rightarrow> opt_market \<times> 's \<Rightarrow> (settlement list \<times> opt_market \<times> 's) option" where
  "settle_exotic e sl name ms =
     (let (m, s) = ms; ex = exotic_at m name
      in if su_now e < ex_Expiry ex then Some ([], m, s)
         else let (ok, m) = claim name m
              in if \<not> ok then Some ([], m, s)
                 else case settleExoticPrice e m name of
                   Inl err \<Rightarrow> Some ([], unclaim name m, s)
                 | Inr perUnit \<Rightarrow> do {
                     let idx = (case su_index e (ex_Underlying ex) of Some i \<Rightarrow> i | None \<Rightarrow> float_zero);
                     (rec, ms) \<leftarrow> finishSettle e sl name True idx perUnit float_one (m, s);
                     Some ([rec], ms)
                   })"

fun settle_all :: "('c \<Rightarrow> opt_market \<times> 's \<Rightarrow> (settlement list \<times> opt_market \<times> 's) option) \<Rightarrow> 'c list \<Rightarrow>
    opt_market \<times> 's \<Rightarrow> (settlement list \<times> opt_market \<times> 's) option" where
  "settle_all f [] ms = Some ([], ms)"
| "settle_all f (c # cs) ms = do { (rs, ms) \<leftarrow> f c ms; (rs', ms) \<leftarrow> settle_all f cs ms; Some (rs @ rs', ms) }"

fun drain_settled :: "'s settler \<Rightarrow> string list \<Rightarrow> 's \<Rightarrow> 's option" where
  "drain_settled sl [] s = Some s"
| "drain_settled sl (name # names) s = do { s \<leftarrow> cancelResting sl name s; drain_settled sl names s }"

definition market_Settle ::
    "surroundings \<Rightarrow> 's settler \<Rightarrow> opt_market \<times> 's \<Rightarrow> (settlement list \<times> opt_market \<times> 's) option" where
  "market_Settle e sl ms = do {
     (rs, ms) \<leftarrow> settle_all (settle_vanilla e sl) (om_order (fst ms)) ms;
     (rs', m, s) \<leftarrow> settle_all (settle_exotic e sl) (om_exoticOrder (fst ms)) ms;
     s \<leftarrow> drain_settled sl (settledKeys m) s;
     Some (rs @ rs', m, s)
   }"

end
