(* ===== verification/BinanceEdge.thy ===== *)
theory BinanceEdge
  imports BinanceRegistry Engine OptionSettle
begin

text \<open>
  \<^verbatim>\<open>internal/api/binance\<close>, the files \<^verbatim>\<open>symbols.go\<close>, \<^verbatim>\<open>errors.go\<close>, \<^verbatim>\<open>rest.go\<close> and \<^verbatim>\<open>server.go\<close>: the spot
  handlers in front of the engine. A request is its method and its parameters; the answer is the
  body that is rendered as JSON, without its constant fields, or an API error. The signature check
  is an argument, \<open>verify\<close>. A request is handled at one reading \<open>now\<close> of the clock, in milliseconds.
  The hooks of the edge are registered on the book; what the book calls while the engine is at work is
  played through them before the handler goes on. The publication of a report to the user
  streams is the list \<open>ed_reports\<close>. The artificial delays are not modelled.
\<close>

subsection \<open>Symbols\<close>

record symbol_map =
  sm_toEngine :: "string \<rightharpoonup> string"
  sm_toBinance :: "string \<rightharpoonup> string"
  sm_binanceList :: "string list"

text \<open>A pair is a Binance symbol and an engine symbol.\<close>

definition add_pair :: "string \<times> string \<Rightarrow> symbol_map \<Rightarrow> symbol_map" where
  "add_pair p m =
     (case p of (b, e) \<Rightarrow>
        if b = [] \<or> e = [] then m
        else let m = (if sm_toEngine m b = None then m\<lparr>sm_binanceList := sm_binanceList m @ [b]\<rparr> else m)
             in m\<lparr>sm_toEngine := (sm_toEngine m)(b \<mapsto> e), sm_toBinance := (sm_toBinance m)(e \<mapsto> b)\<rparr>)"

definition NewSymbolMap :: "(string \<times> string) list \<Rightarrow> symbol_map" where
  "NewSymbolMap pairs = fold add_pair pairs \<lparr>sm_toEngine = Map.empty, sm_toBinance = Map.empty, sm_binanceList = []\<rparr>"

definition ToEngine :: "symbol_map \<Rightarrow> string \<Rightarrow> string option" where
  "ToEngine m binanceSym = sm_toEngine m binanceSym"

definition ToBinance :: "symbol_map \<Rightarrow> string \<Rightarrow> string option" where
  "ToBinance m engineSym = sm_toBinance m engineSym"

definition BinanceSymbols :: "symbol_map \<Rightarrow> string list" where
  "BinanceSymbols m = sm_binanceList m"

text \<open>A missing key reads as the empty string.\<close>

definition Pairs :: "symbol_map \<Rightarrow> (string \<times> string) list" where
  "Pairs m = map (\<lambda>b. (b, case sm_toEngine m b of None \<Rightarrow> [] | Some e \<Rightarrow> e)) (sm_binanceList m)"

subsection \<open>Errors\<close>

record api_error =
  ae_Code :: int
  ae_Msg :: string
  ae_status :: int

definition HTTPStatus :: "api_error \<Rightarrow> int" where
  "HTTPStatus e = (if ae_status e = 0 then 400 else ae_status e)"

definition quoted :: "string \<Rightarrow> string" where
  "quoted s = [CHR 0x27] @ s @ [CHR 0x27]"

definition errMandatoryParam :: "string \<Rightarrow> api_error" where
  "errMandatoryParam name =
     \<lparr>ae_Code = -1102, ae_Msg = ''Mandatory parameter '' @ quoted name @ '' was not sent, was empty/null, or malformed.'', ae_status = 400\<rparr>"

definition errIllegalParam :: "string \<Rightarrow> api_error" where
  "errIllegalParam name =
     \<lparr>ae_Code = -1100, ae_Msg = ''Illegal characters found in parameter '' @ quoted name @ ''.'', ae_status = 400\<rparr>"

definition errInvalidSymbol :: api_error where
  "errInvalidSymbol = \<lparr>ae_Code = -1121, ae_Msg = ''Invalid symbol.'', ae_status = 400\<rparr>"

definition errUnknownOrder :: api_error where
  "errUnknownOrder = \<lparr>ae_Code = -2011, ae_Msg = ''Unknown order sent.'', ae_status = 400\<rparr>"

definition errInternal :: "string \<Rightarrow> api_error" where
  "errInternal msg = \<lparr>ae_Code = -1000, ae_Msg = msg, ae_status = 400\<rparr>"

definition errInsufficientBalance :: api_error where
  "errInsufficientBalance =
     \<lparr>ae_Code = -2010, ae_Msg = ''Account has insufficient balance for requested action.'', ae_status = 400\<rparr>"

definition errDuplicateOrder :: api_error where
  "errDuplicateOrder = \<lparr>ae_Code = -2010, ae_Msg = ''Duplicate order sent.'', ae_status = 400\<rparr>"

subsection \<open>State\<close>

text \<open>What \<^verbatim>\<open>emitExecutionReport\<close> publishes: the kind of the event, the record at that time, and the
  texts of the last quantity and price.\<close>

record exec_report =
  xr_ExecType :: string
  xr_Record :: order_record
  xr_EventTime :: int
  xr_LastFilledQty :: string
  xr_LastFilledPrice :: string

record edge =
  ed_engine :: engine
  ed_symbols :: symbol_map
  ed_registry :: registry
  ed_ledger :: "ledger option"
  ed_optMarket :: "opt_market option"
  ed_balances :: "(string \<times> string \<times> string) list"
  ed_reports :: "exec_report list"

definition qtyPrec :: int where "qtyPrec = 8"
definition pricePrec :: int where "pricePrec = 8"

definition isEdgeOrder :: "string \<Rightarrow> bool" where
  "isEdgeOrder oid \<longleftrightarrow> HasPrefix oid bin_prefix"

fun splitEngineSymbol :: "string \<Rightarrow> string \<times> string" where
  "splitEngineSymbol [] = ([], [])"
| "splitEngineSymbol (c # cs) =
     (if c = CHR ''-'' then ([], cs) else let (base, quote) = splitEngineSymbol cs in (c # base, quote))"

definition isOptionBookSymbol :: "string \<Rightarrow> bool" where
  "isOptionBookSymbol eng \<longleftrightarrow> length (filter (\<lambda>c. c = CHR ''-'') eng) \<ge> 3"

definition isOptionSym :: "edge \<Rightarrow> string \<Rightarrow> bool" where
  "isOptionSym s eng =
     (case ed_optMarket s of Some om \<Rightarrow> IsListed om eng | None \<Rightarrow> isOptionBookSymbol eng)"

definition optionAssets :: "edge \<Rightarrow> string \<Rightarrow> string \<times> string" where
  "optionAssets s sm =
     (case ed_optMarket s of
        Some om \<Rightarrow> (case QuoteAndAsset om sm of Some qa \<Rightarrow> qa | None \<Rightarrow> (''USDT'', ''OTC:'' @ sm))
      | None \<Rightarrow> (''USDT'', ''OTC:'' @ sm))"

subsection \<open>Reports and hooks\<close>

definition emitExecutionReport :: "int \<Rightarrow> string \<Rightarrow> string \<Rightarrow> decimal \<Rightarrow> decimal \<Rightarrow> edge \<Rightarrow> edge" where
  "emitExecutionReport now engineID execType lastFillQty lastFillPrice s =
     (case bin_getByEngine (ed_registry s) engineID of
        None \<Rightarrow> s
      | Some rec \<Rightarrow>
          let (lastQty, lastPrice) = (if execType = ''TRADE''
                then (StringPrec lastFillQty qtyPrec, StringPrec lastFillPrice pricePrec) else (''0'', ''0''))
          in s\<lparr>ed_reports := ed_reports s @ [\<lparr>xr_ExecType = execType, xr_Record = rec, xr_EventTime = now,
                xr_LastFilledQty = lastQty, xr_LastFilledPrice = lastPrice\<rparr>]\<rparr>)"

text \<open>An update of the ledger that may panic; without a ledger the caller does nothing.\<close>

definition with_ledger :: "(ledger \<Rightarrow> ledger option) \<Rightarrow> edge \<Rightarrow> edge option" where
  "with_ledger f s =
     (case ed_ledger s of None \<Rightarrow> Some s | Some l \<Rightarrow> do { l \<leftarrow> f l; Some (s\<lparr>ed_ledger := Some l\<rparr>) })"

definition settleFill :: "edge \<Rightarrow> string \<Rightarrow> bool \<Rightarrow> decimal \<Rightarrow> decimal \<Rightarrow> edge option" where
  "settleFill s engineID isBuy qty fillPrice =
     (case bin_getByEngine (ed_registry s) engineID of
        None \<Rightarrow> Some s
      | Some rec \<Rightarrow>
          let (base, quote) = splitEngineSymbol (or_EngineSymbol rec)
          in with_ledger (\<lambda>l. SettleFill l isBuy base quote qty fillPrice (or_Price rec)) s)"

definition settleOptionFill :: "edge \<Rightarrow> string \<Rightarrow> bool \<Rightarrow> decimal \<Rightarrow> decimal \<Rightarrow> edge option" where
  "settleOptionFill s engineID isBuy qty fillPrice =
     (case bin_getByEngine (ed_registry s) engineID of
        None \<Rightarrow> Some s
      | Some rec \<Rightarrow>
          let (quote, contractAsset) = optionAssets s (or_EngineSymbol rec)
          in with_ledger (\<lambda>l. SettleFill l isBuy contractAsset quote qty fillPrice (or_Price rec)) s)"

text \<open>What \<^verbatim>\<open>unlockRemainder\<close> and \<^verbatim>\<open>unlockOptionRemainder\<close> share: the assets differ.\<close>

definition unlock_remainder :: "edge \<Rightarrow> order_record \<Rightarrow> string \<Rightarrow> string \<Rightarrow> edge option" where
  "unlock_remainder s rec base quote =
     (if or_Type rec \<noteq> ''LIMIT'' then Some s
      else do {
        remaining \<leftarrow> Sub (or_OrigQty rec) (or_ExecutedQty rec);
        if Sign remaining \<le> 0 then Some s
        else if or_Side rec = ''BUY'' then do {
          amt \<leftarrow> Mul remaining (or_Price rec);
          with_ledger (\<lambda>l. Unlock l quote amt) s
        }
        else with_ledger (\<lambda>l. Unlock l base remaining) s
      })"

definition unlockRemainder :: "edge \<Rightarrow> string \<Rightarrow> edge option" where
  "unlockRemainder s engineID =
     (case bin_getByEngine (ed_registry s) engineID of
        None \<Rightarrow> Some s
      | Some rec \<Rightarrow> let (base, quote) = splitEngineSymbol (or_EngineSymbol rec) in unlock_remainder s rec base quote)"

definition unlockOptionRemainder :: "edge \<Rightarrow> string \<Rightarrow> edge option" where
  "unlockOptionRemainder s engineID =
     (case bin_getByEngine (ed_registry s) engineID of
        None \<Rightarrow> Some s
      | Some rec \<Rightarrow>
          if ed_ledger s = None then Some s
          else let (quote, contractAsset) = optionAssets s (or_EngineSymbol rec) in unlock_remainder s rec contractAsset quote)"

text \<open>The three hooks of \<^verbatim>\<open>AttachHooks\<close>, in the order they are registered.\<close>

definition registry_hook :: "int \<Rightarrow> hook_event \<Rightarrow> edge \<Rightarrow> edge option" where
  "registry_hook now ev s =
     (case ev of
        EvTrade t \<Rightarrow> do { r \<leftarrow> bin_OnTrade (Some t) now (ed_registry s); Some (s\<lparr>ed_registry := r\<rparr>) }
      | EvCancel ord \<Rightarrow> Some (s\<lparr>ed_registry := bin_OnCancel (Some ord) now (ed_registry s)\<rparr>)
      | EvTrigger ord \<Rightarrow> Some s)"

definition report_fill :: "int \<Rightarrow> trade \<Rightarrow> string \<Rightarrow> edge \<Rightarrow> edge" where
  "report_fill now t oid s =
     (if isEdgeOrder oid then emitExecutionReport now oid ''TRADE'' (tr_Volume t) (tr_Price t) s else s)"

definition stream_hook :: "int \<Rightarrow> hook_event \<Rightarrow> edge \<Rightarrow> edge option" where
  "stream_hook now ev s =
     Some (case ev of
        EvTrade t \<Rightarrow> report_fill now t (tr_SellOrderID t) (report_fill now t (tr_BuyOrderID t) s)
      | EvCancel ord \<Rightarrow>
          if isEdgeOrder (ord_ID ord) then emitExecutionReport now (ord_ID ord) ''CANCELED'' Zero Zero s else s
      | EvTrigger ord \<Rightarrow> s)"

text \<open>A record that is missing has the zero symbol, which is no option.\<close>

definition option_order :: "edge \<Rightarrow> string \<Rightarrow> bool" where
  "option_order s oid \<longleftrightarrow>
     (case bin_getByEngine (ed_registry s) oid of None \<Rightarrow> False | Some rec \<Rightarrow> isOptionSym s (or_EngineSymbol rec))"

definition settle_side :: "trade \<Rightarrow> string \<Rightarrow> edge \<Rightarrow> edge option" where
  "settle_side t oid s =
     (if \<not> isEdgeOrder oid then Some s
      else if option_order s oid then settleOptionFill s oid (oid = tr_BuyOrderID t) (tr_Volume t) (tr_Price t)
      else settleFill s oid (oid = tr_BuyOrderID t) (tr_Volume t) (tr_Price t))"

definition ledger_hook :: "hook_event \<Rightarrow> edge \<Rightarrow> edge option" where
  "ledger_hook ev s =
     (case ev of
        EvTrade t \<Rightarrow> do { s \<leftarrow> settle_side t (tr_BuyOrderID t) s; settle_side t (tr_SellOrderID t) s }
      | EvCancel ord \<Rightarrow>
          if \<not> isEdgeOrder (ord_ID ord) then Some s
          else if option_order s (ord_ID ord) then unlockOptionRemainder s (ord_ID ord)
          else unlockRemainder s (ord_ID ord)
      | EvTrigger ord \<Rightarrow> Some s)"

text \<open>The hooks have numbers 0, 1 and 2 on the book; a hook with another number belongs to somebody else.\<close>

definition AttachHooks :: "edge \<Rightarrow> edge" where
  "AttachHooks s =
     (let b = RegisterHook (RegisterHook (en_book (ed_engine s)) 0) 1;
          b = (if ed_ledger s = None then b else RegisterHook b 2)
      in s\<lparr>ed_engine := (ed_engine s)\<lparr>en_book := b\<rparr>\<rparr>)"

definition run_hook :: "int \<Rightarrow> nat \<Rightarrow> hook_event \<Rightarrow> edge \<Rightarrow> edge option" where
  "run_hook now h ev s =
     (if h = 0 then registry_hook now ev s
      else if h = 1 then stream_hook now ev s
      else if h = 2 then ledger_hook ev s
      else Some s)"

fun run_calls :: "int \<Rightarrow> (nat \<times> hook_event) list \<Rightarrow> edge \<Rightarrow> edge option" where
  "run_calls now [] s = Some s"
| "run_calls now ((h, ev) # calls) s = do { s \<leftarrow> run_hook now h ev s; run_calls now calls s }"

text \<open>The engine after a call, and the hooks that the book called meanwhile.\<close>

definition engine_ran :: "int \<Rightarrow> engine \<Rightarrow> edge \<Rightarrow> edge option" where
  "engine_ran now e s =
     run_calls now (drop (length (ob_calls (en_book (ed_engine s)))) (ob_calls (en_book e))) (s\<lparr>ed_engine := e\<rparr>)"

definition edge_PlaceLimit :: "int \<Rightarrow> order \<Rightarrow> edge \<Rightarrow> (placement \<times> edge) option" where
  "edge_PlaceLimit now ord s = do {
     (pm, ord', e) \<leftarrow> PlaceLimit (ed_engine s) ord; s \<leftarrow> engine_ran now e s; Some (pm, s) }"

definition edge_PlaceMarket :: "int \<Rightarrow> order \<Rightarrow> edge \<Rightarrow> (placement \<times> edge) option" where
  "edge_PlaceMarket now ord s = do {
     (pm, ord', e) \<leftarrow> PlaceMarket (ed_engine s) ord; s \<leftarrow> engine_ran now e s; Some (pm, s) }"

definition edge_CancelOrder :: "int \<Rightarrow> string \<Rightarrow> string \<Rightarrow> edge \<Rightarrow> ((book_error + order) \<times> edge) option" where
  "edge_CancelOrder now inst oid s =
     (let (res, e) = engine_CancelOrder (ed_engine s) inst oid in do { s \<leftarrow> engine_ran now e s; Some (res, s) })"

subsection \<open>Requests and answers\<close>

record request =
  rq_Method :: string
  rq_Query :: "string \<Rightarrow> string"
  rq_Form :: "string \<Rightarrow> string"

type_synonym verifier = "request \<Rightarrow> api_error option"

record order_response =
  os_Symbol :: string
  os_OrderID :: int
  os_ClientOrderID :: string
  os_TransactTime :: int
  os_Price :: string
  os_OrigQty :: string
  os_ExecutedQty :: string
  os_CummulativeQuoteQty :: string
  os_Status :: string
  os_TimeInForce :: string
  os_Type :: string
  os_Side :: string
  os_Fills :: "(string \<times> string) list"

record canceled_response =
  cs_Symbol :: string
  cs_OrigClientOrderID :: string
  cs_OrderID :: int
  cs_Price :: string
  cs_OrigQty :: string
  cs_ExecutedQty :: string
  cs_CummulativeQuoteQty :: string
  cs_Status :: string
  cs_TimeInForce :: string
  cs_Type :: string
  cs_Side :: string

text \<open>\<^verbatim>\<open>queryOrderResponse\<close> and \<^verbatim>\<open>openOrderResponse\<close>.\<close>

record query_response =
  qs_Symbol :: string
  qs_OrderID :: int
  qs_ClientOrderID :: string
  qs_Price :: string
  qs_OrigQty :: string
  qs_ExecutedQty :: string
  qs_CummulativeQuoteQty :: string
  qs_Status :: string
  qs_TimeInForce :: string
  qs_Type :: string
  qs_Side :: string
  qs_Time :: int
  qs_UpdateTime :: int
  qs_IsWorking :: bool

record symbol_info =
  si_Symbol :: string
  si_BaseAsset :: string
  si_QuoteAsset :: string
  si_PriceStep :: string
  si_QtyStep :: string

datatype answer =
    Pong
  | ServerTime int
  | ExchangeInfo int "symbol_info list"
  | DepthAnswer int "(string \<times> string) list" "(string \<times> string) list"
  | TickerPrice string string
  | OrderPlaced order_response
  | OrderCanceled canceled_response
  | OrderState query_response
  | OpenOrdersAnswer "query_response list"
  | Withdrawn string
  | Account int "(string \<times> string \<times> string) list"

definition parseSide :: "string \<Rightarrow> api_error + side" where
  "parseSide s =
     (if s = ''BUY'' then Inr SideBuy else if s = ''SELL'' then Inr SideSell
      else if s = [] then Inl (errMandatoryParam ''side'') else Inl (errIllegalParam ''side''))"

definition parseDecimalParam :: "string \<Rightarrow> string \<Rightarrow> api_error + decimal" where
  "parseDecimalParam s name = (case Parse s of Inl e \<Rightarrow> Inl (errIllegalParam name) | Inr d \<Rightarrow> Inr d)"

text \<open>The helper \<^verbatim>\<open>get\<close> of the signed handlers.\<close>

definition param :: "request \<Rightarrow> string \<Rightarrow> string" where
  "param rq k = (if rq_Query rq k \<noteq> [] then rq_Query rq k else rq_Form rq k)"

subsection \<open>Public handlers\<close>

definition handlePing :: "request \<Rightarrow> api_error + answer" where
  "handlePing rq = (if rq_Method rq \<noteq> ''GET'' then Inl (errIllegalParam ''method'') else Inr Pong)"

definition handleTime :: "int \<Rightarrow> request \<Rightarrow> api_error + answer" where
  "handleTime now rq = (if rq_Method rq \<noteq> ''GET'' then Inl (errIllegalParam ''method'') else Inr (ServerTime now))"

definition stepStr :: "int \<Rightarrow> string" where
  "stepStr prec = (if prec \<le> 0 then ''1'' else ''0.'' @ replicate (nat prec - 1) (CHR ''0'') @ ''1'')"

definition handleExchangeInfo :: "int \<Rightarrow> request \<Rightarrow> edge \<Rightarrow> api_error + answer" where
  "handleExchangeInfo now rq s =
     (if rq_Method rq \<noteq> ''GET'' then Inl (errIllegalParam ''method'')
      else let want = rq_Query rq ''symbol''
           in if want \<noteq> [] \<and> ToEngine (ed_symbols s) want = None then Inl errInvalidSymbol
              else Inr (ExchangeInfo now
                (map (\<lambda>(b, e). let (base, quote) = splitEngineSymbol e
                    in \<lparr>si_Symbol = b, si_BaseAsset = base, si_QuoteAsset = quote, si_PriceStep = stepStr pricePrec,
                        si_QtyStep = stepStr qtyPrec\<rparr>)
                  (filter (\<lambda>(b, e). want = [] \<or> b = want) (Pairs (ed_symbols s))))))"

definition levelsToPairs :: "level list \<Rightarrow> int \<Rightarrow> (string \<times> string) list" where
  "levelsToPairs levels limit =
     (let limit = (if limit > int (length levels) then int (length levels) else limit)
      in map (\<lambda>l. (StringPrec (lv_Price l) pricePrec, StringPrec (lv_Volume l) qtyPrec)) (take (nat limit) levels))"

text \<open>The update counter of the depth stream is an argument.\<close>

definition handleDepth :: "(string \<Rightarrow> int) \<Rightarrow> request \<Rightarrow> edge \<Rightarrow> (api_error + answer) option" where
  "handleDepth current rq s =
     (if rq_Method rq \<noteq> ''GET'' then Some (Inl (errIllegalParam ''method''))
      else let binSym = rq_Query rq ''symbol''
           in if binSym = [] then Some (Inl (errMandatoryParam ''symbol''))
              else case ToEngine (ed_symbols s) binSym of
                None \<Rightarrow> Some (Inl errInvalidSymbol)
              | Some engSym \<Rightarrow>
                  let l = rq_Query rq ''limit'';
                      limit = (if l = [] then Some 100 else case Atoi l of None \<Rightarrow> None | Some v \<Rightarrow> if v \<le> 0 then None else Some v)
                  in case limit of None \<Rightarrow> Some (Inl (errIllegalParam ''limit''))
                     | Some limit \<Rightarrow> do {
                         snap \<leftarrow> engine_Snapshot (ed_engine s) engSym;
                         Some (case snap of Inl e \<Rightarrow> Inl errInvalidSymbol
                           | Inr sn \<Rightarrow> Inr (DepthAnswer (current engSym) (levelsToPairs (sn_Bids sn) limit) (levelsToPairs (sn_Asks sn) limit)))
                       })"

definition tickerPrice :: "snapshot \<Rightarrow> decimal option" where
  "tickerPrice snap =
     (case sn_LastTrade snap of
        Some t \<Rightarrow> Some (tr_Price t)
      | None \<Rightarrow>
          let hasBid = Sign (sn_BestBid snap) > 0; hasAsk = Sign (sn_BestAsk snap) > 0
          in if hasBid \<and> hasAsk then do { x \<leftarrow> Add (sn_BestBid snap) (sn_BestAsk snap); two \<leftarrow> FromInt 2; Div x two }
             else if hasBid then Some (sn_BestBid snap)
             else if hasAsk then Some (sn_BestAsk snap)
             else Some Zero)"

definition handleTickerPrice :: "request \<Rightarrow> edge \<Rightarrow> (api_error + answer) option" where
  "handleTickerPrice rq s =
     (if rq_Method rq \<noteq> ''GET'' then Some (Inl (errIllegalParam ''method''))
      else let binSym = rq_Query rq ''symbol''
           in if binSym = [] then Some (Inl (errMandatoryParam ''symbol''))
              else case ToEngine (ed_symbols s) binSym of
                None \<Rightarrow> Some (Inl errInvalidSymbol)
              | Some engSym \<Rightarrow> do {
                  snap \<leftarrow> engine_Snapshot (ed_engine s) engSym;
                  (case snap of Inl e \<Rightarrow> Some (Inl errInvalidSymbol)
                   | Inr sn \<Rightarrow> do { px \<leftarrow> tickerPrice sn; Some (Inr (TickerPrice binSym (StringPrec px pricePrec))) })
                })"

subsection \<open>Placing an order\<close>

record place_request =
  pl_binSym :: string
  pl_engSym :: string
  pl_sideStr :: string
  pl_side :: side
  pl_typ :: string
  pl_tif :: string
  pl_price :: decimal
  pl_qty :: decimal
  pl_clientOrderID :: string

text \<open>The time in force and the price, which depend on the type.\<close>

definition parse_price :: "request \<Rightarrow> string \<Rightarrow> api_error + (string \<times> decimal)" where
  "parse_price rq typ =
     (let tif = param rq ''timeInForce''
      in if typ = ''LIMIT'' then
           (let tif = (if tif = [] then ''GTC'' else tif); priceStr = param rq ''price''
            in if priceStr = [] then Inl (errMandatoryParam ''price'')
               else case parseDecimalParam priceStr ''price'' of
                 Inl e \<Rightarrow> Inl e
               | Inr px \<Rightarrow> if Sign px \<le> 0 then Inl (errIllegalParam ''price'') else Inr (tif, px))
         else if typ = ''MARKET'' then Inr ([], Zero)
         else Inl (errIllegalParam ''type''))"

definition parse_place :: "symbol_map \<Rightarrow> request \<Rightarrow> api_error + place_request" where
  "parse_place m rq =
     (let binSym = param rq ''symbol'' in if binSym = [] then Inl (errMandatoryParam ''symbol'')
      else case ToEngine m binSym of None \<Rightarrow> Inl errInvalidSymbol
      | Some engSym \<Rightarrow>
     (case parseSide (param rq ''side'') of Inl e \<Rightarrow> Inl e
      | Inr side \<Rightarrow>
      let typ = param rq ''type'' in if typ = [] then Inl (errMandatoryParam ''type'')
      else if param rq ''quantity'' = [] then Inl (errMandatoryParam ''quantity'')
      else case parseDecimalParam (param rq ''quantity'') ''quantity'' of Inl e \<Rightarrow> Inl e
      | Inr qty \<Rightarrow>
      if Sign qty \<le> 0 then Inl (errIllegalParam ''quantity'')
      else case parse_price rq typ of Inl e \<Rightarrow> Inl e
      | Inr (tif, px) \<Rightarrow>
        Inr \<lparr>pl_binSym = binSym, pl_engSym = engSym, pl_sideStr = param rq ''side'', pl_side = side, pl_typ = typ,
             pl_tif = tif, pl_price = px, pl_qty = qty, pl_clientOrderID = param rq ''newClientOrderId''\<rparr>))"

text \<open>The reservation of a limit order: whether it succeeded, and the asset and the amount. The assets are those of the
  engine symbol, or the contract and the currency of an option.\<close>

definition reserve :: "string \<times> string \<Rightarrow> place_request \<Rightarrow> edge \<Rightarrow> ((bool \<times> string \<times> decimal) \<times> edge) option" where
  "reserve pair p s =
     (case ed_ledger s of
        None \<Rightarrow> Some ((True, [], Zero), s)
      | Some l \<Rightarrow>
          if pl_typ p \<noteq> ''LIMIT'' then Some ((True, [], Zero), s)
          else let (base, quote) = pair in do {
            (asset, amt) \<leftarrow> (if pl_side p = SideBuy then do { m \<leftarrow> Mul (pl_price p) (pl_qty p); Some (quote, m) }
                             else Some (base, pl_qty p));
            (ok, l) \<leftarrow> Lock l asset amt;
            Some ((ok, asset, amt), s\<lparr>ed_ledger := Some l\<rparr>)
          })"

definition placed_order :: "string \<Rightarrow> place_request \<Rightarrow> order_record \<Rightarrow> order" where
  "placed_order api p rec =
     \<lparr>ord_ID = or_EngineID rec, ord_Instrument = pl_engSym p, ord_Price = pl_price p, ord_Volume = pl_qty p,
      ord_Side = pl_side p, ord_IsMarket = (pl_typ p = ''MARKET''),
      ord_Metadata = [''api'' \<mapsto> api, ''clientOrderId'' \<mapsto> or_ClientOrderID rec]\<rparr>"

definition trade_fill_text :: "trade \<Rightarrow> string \<times> string" where
  "trade_fill_text t = (StringPrec (tr_Price t) pricePrec, StringPrec (tr_Volume t) qtyPrec)"

text \<open>What a missing record reads as.\<close>

definition zero_record :: order_record where
  "zero_record = \<lparr>or_OrderID = 0, or_ClientOrderID = [], or_EngineID = [], or_EngineSymbol = [], or_BinanceSymbol = [],
     or_Side = [], or_Type = [], or_TimeInForce = [], or_Price = Zero, or_OrigQty = Zero, or_ExecutedQty = Zero,
     or_CummulativeQuoteQty = Zero, or_Status = [], or_Time = 0, or_UpdateTime = 0\<rparr>"

definition snapshot_or_zero :: "registry \<Rightarrow> int \<Rightarrow> order_record" where
  "snapshot_or_zero r oid = (case bin_snapshot r oid of None \<Rightarrow> zero_record | Some rec \<Rightarrow> rec)"

definition order_placed :: "int \<Rightarrow> string \<Rightarrow> trade list \<Rightarrow> order_record \<Rightarrow> order_response" where
  "order_placed now binSym trades snap =
     \<lparr>os_Symbol = binSym, os_OrderID = or_OrderID snap, os_ClientOrderID = or_ClientOrderID snap, os_TransactTime = now,
      os_Price = StringPrec (or_Price snap) pricePrec, os_OrigQty = StringPrec (or_OrigQty snap) qtyPrec,
      os_ExecutedQty = StringPrec (or_ExecutedQty snap) qtyPrec,
      os_CummulativeQuoteQty = StringPrec (or_CummulativeQuoteQty snap) pricePrec, os_Status = or_Status snap,
      os_TimeInForce = or_TimeInForce snap, os_Type = or_Type snap, os_Side = or_Side snap,
      os_Fills = map trade_fill_text trades\<rparr>"

text \<open>
  What the spot and the option handler do with a request that is well formed; they differ in the assets, the label of the order
  and the answer, which may panic. The texts of engine errors are an argument.
\<close>

definition place_order ::
    "string \<times> string \<Rightarrow> string \<Rightarrow> (trade list \<Rightarrow> order_record \<Rightarrow> 'a option) \<Rightarrow> (engine_error \<Rightarrow> string) \<Rightarrow> int \<Rightarrow>
      place_request \<Rightarrow> edge \<Rightarrow> ((api_error + 'a) \<times> edge) option" where
  "place_order pair api answer error_msg now p s =
     (case bin_RecordUnique (ed_registry s) (pl_binSym p) (pl_engSym p) (pl_sideStr p) (pl_typ p) (pl_tif p) (pl_price p)
        (pl_qty p) (pl_clientOrderID p) now of
        (Inl e, r) \<Rightarrow> Some (Inl errDuplicateOrder, s\<lparr>ed_registry := r\<rparr>)
      | (Inr ptr, r) \<Rightarrow>
          let s = s\<lparr>ed_registry := r\<rparr>; rec = rg_heap r ! ptr in do {
            ((ok, lockAsset, lockAmt), s) \<leftarrow> reserve pair p s;
            if \<not> ok then
              Some (Inl errInsufficientBalance, s\<lparr>ed_registry := bin_Remove (ed_registry s) (or_OrderID rec)\<rparr>)
            else do {
              let s = emitExecutionReport now (or_EngineID rec) ''NEW'' Zero Zero s;
              (pm, s) \<leftarrow> (if pl_typ p = ''MARKET'' then edge_PlaceMarket now (placed_order api p rec) s
                else edge_PlaceLimit now (placed_order api p rec) s);
              (case pm_error pm of
                 Some e \<Rightarrow> do {
                   let s = s\<lparr>ed_registry := bin_Remove (ed_registry s) (or_OrderID rec)\<rparr>;
                   s \<leftarrow> with_ledger (\<lambda>l. Unlock l lockAsset lockAmt) s;
                   Some (Inl (errInternal (error_msg e)), s)
                 }
               | None \<Rightarrow> do {
                   a \<leftarrow> answer (pm_trades pm) (snapshot_or_zero (ed_registry s) (or_OrderID rec)); Some (Inr a, s) })
            }
          })"

definition place_spot ::
    "(engine_error \<Rightarrow> string) \<Rightarrow> int \<Rightarrow> place_request \<Rightarrow> edge \<Rightarrow> ((api_error + answer) \<times> edge) option" where
  "place_spot error_msg now p s =
     place_order (splitEngineSymbol (pl_engSym p)) ''binance'' (\<lambda>trades snap. Some (OrderPlaced (order_placed now (pl_binSym p) trades snap)))
       error_msg now p s"

definition handlePlaceOrder ::
    "verifier \<Rightarrow> (engine_error \<Rightarrow> string) \<Rightarrow> int \<Rightarrow> request \<Rightarrow> edge \<Rightarrow> ((api_error + answer) \<times> edge) option" where
  "handlePlaceOrder verify error_msg now rq s =
     (case verify rq of Some e \<Rightarrow> Some (Inl e, s)
      | None \<Rightarrow> (case parse_place (ed_symbols s) rq of Inl e \<Rightarrow> Some (Inl e, s) | Inr p \<Rightarrow> place_spot error_msg now p s))"

subsection \<open>Cancelling and reading orders\<close>

text \<open>The order a cancellation names.\<close>

definition named_order :: "request \<Rightarrow> registry \<Rightarrow> api_error + order_record" where
  "named_order rq r =
     (let idStr = rq_Query rq ''orderId''; coid = rq_Query rq ''origClientOrderId''
      in if idStr \<noteq> [] then
           (case Atoi idStr of None \<Rightarrow> Inl (errIllegalParam ''orderId'')
            | Some oid \<Rightarrow> (case bin_Get r oid of None \<Rightarrow> Inl errUnknownOrder | Some rec \<Rightarrow> Inr rec))
         else if coid \<noteq> [] then
           (case bin_GetByClientOrderID r coid of None \<Rightarrow> Inl errUnknownOrder | Some rec \<Rightarrow> Inr rec)
         else Inl (errMandatoryParam ''orderId''))"

definition canceledResponse :: "string \<Rightarrow> order_record \<Rightarrow> canceled_response" where
  "canceledResponse binSym rec =
     \<lparr>cs_Symbol = binSym, cs_OrigClientOrderID = or_ClientOrderID rec, cs_OrderID = or_OrderID rec,
      cs_Price = StringPrec (or_Price rec) pricePrec, cs_OrigQty = StringPrec (or_OrigQty rec) qtyPrec,
      cs_ExecutedQty = StringPrec (or_ExecutedQty rec) qtyPrec,
      cs_CummulativeQuoteQty = StringPrec (or_CummulativeQuoteQty rec) pricePrec, cs_Status = statusCanceled,
      cs_TimeInForce = or_TimeInForce rec, cs_Type = or_Type rec, cs_Side = or_Side rec\<rparr>"

definition cancel_spot :: "int \<Rightarrow> string \<Rightarrow> order_record \<Rightarrow> edge \<Rightarrow> ((api_error + answer) \<times> edge) option" where
  "cancel_spot now binSym rec s = do {
     (res, s) \<leftarrow> edge_CancelOrder now (or_EngineSymbol rec) (or_EngineID rec) s;
     Some (case res of
        Inl e \<Rightarrow>
          let cur = snapshot_or_zero (ed_registry s) (or_OrderID rec)
          in if or_Status cur = statusFilled \<or> or_Status cur = statusCanceled
             then (Inr (OrderCanceled (canceledResponse binSym cur)), s) else (Inl errUnknownOrder, s)
      | Inr x \<Rightarrow>
          let s = s\<lparr>ed_registry := bin_MarkCanceled (ed_registry s) (or_OrderID rec) now\<rparr>
          in (Inr (OrderCanceled (canceledResponse binSym (snapshot_or_zero (ed_registry s) (or_OrderID rec)))), s))
   }"

definition handleCancelOrder :: "verifier \<Rightarrow> int \<Rightarrow> request \<Rightarrow> edge \<Rightarrow> ((api_error + answer) \<times> edge) option" where
  "handleCancelOrder verify now rq s =
     (case verify rq of Some e \<Rightarrow> Some (Inl e, s)
      | None \<Rightarrow>
         let binSym = rq_Query rq ''symbol''
         in if binSym = [] then Some (Inl (errMandatoryParam ''symbol''), s)
            else if ToEngine (ed_symbols s) binSym = None then Some (Inl errInvalidSymbol, s)
            else case named_order rq (ed_registry s) of
              Inl e \<Rightarrow> Some (Inl e, s)
            | Inr rec \<Rightarrow> cancel_spot now binSym rec s)"

definition is_working :: "order_record \<Rightarrow> bool" where
  "is_working rec \<longleftrightarrow> or_Status rec = statusNew \<or> or_Status rec = statusPartiallyFilled"

definition order_state :: "order_record \<Rightarrow> bool \<Rightarrow> query_response" where
  "order_state rec working =
     \<lparr>qs_Symbol = or_BinanceSymbol rec, qs_OrderID = or_OrderID rec, qs_ClientOrderID = or_ClientOrderID rec,
      qs_Price = StringPrec (or_Price rec) pricePrec, qs_OrigQty = StringPrec (or_OrigQty rec) qtyPrec,
      qs_ExecutedQty = StringPrec (or_ExecutedQty rec) qtyPrec,
      qs_CummulativeQuoteQty = StringPrec (or_CummulativeQuoteQty rec) pricePrec, qs_Status = or_Status rec,
      qs_TimeInForce = or_TimeInForce rec, qs_Type = or_Type rec, qs_Side = or_Side rec, qs_Time = or_Time rec,
      qs_UpdateTime = or_UpdateTime rec, qs_IsWorking = working\<rparr>"

definition handleQueryOrder :: "verifier \<Rightarrow> request \<Rightarrow> edge \<Rightarrow> api_error + answer" where
  "handleQueryOrder verify rq s =
     (case verify rq of Some e \<Rightarrow> Inl e
      | None \<Rightarrow>
         let binSym = rq_Query rq ''symbol''
         in if binSym = [] then Inl (errMandatoryParam ''symbol'')
            else if ToEngine (ed_symbols s) binSym = None then Inl errInvalidSymbol
            else case named_order rq (ed_registry s) of
              Inl e \<Rightarrow> Inl e
            | Inr rec \<Rightarrow>
                let rec = snapshot_or_zero (ed_registry s) (or_OrderID rec)
                in if or_BinanceSymbol rec \<noteq> binSym then Inl errUnknownOrder
                   else Inr (OrderState (order_state rec (is_working rec))))"

definition handleOrder ::
    "verifier \<Rightarrow> (engine_error \<Rightarrow> string) \<Rightarrow> int \<Rightarrow> request \<Rightarrow> edge \<Rightarrow> ((api_error + answer) \<times> edge) option" where
  "handleOrder verify error_msg now rq s =
     (if rq_Method rq = ''POST'' then handlePlaceOrder verify error_msg now rq s
      else if rq_Method rq = ''DELETE'' then handleCancelOrder verify now rq s
      else if rq_Method rq = ''GET'' then Some (handleQueryOrder verify rq s, s)
      else Some (Inl (errIllegalParam ''method''), s))"

definition handleOpenOrders :: "verifier \<Rightarrow> request \<Rightarrow> edge \<Rightarrow> api_error + answer" where
  "handleOpenOrders verify rq s =
     (if rq_Method rq \<noteq> ''GET'' then Inl (errIllegalParam ''method'')
      else case verify rq of Some e \<Rightarrow> Inl e
      | None \<Rightarrow>
         let binSym = rq_Query rq ''symbol''
         in case (if binSym = [] then Some [] else ToEngine (ed_symbols s) binSym) of
              None \<Rightarrow> Inl errInvalidSymbol
            | Some engSym \<Rightarrow> Inr (OpenOrdersAnswer (map (\<lambda>rec. order_state rec True) (bin_OpenOrders (ed_registry s) engSym))))"

subsection \<open>Account and withdrawals\<close>

definition ledgerBalances :: "ledger \<Rightarrow> (string \<times> string \<times> string) list" where
  "ledgerBalances l =
     map (\<lambda>b. (bl_Asset b, StringPrec (bl_Free b) qtyPrec, StringPrec (bl_Locked b) qtyPrec)) (ledger_Snapshot l)"

definition handleAccount :: "verifier \<Rightarrow> int \<Rightarrow> request \<Rightarrow> edge \<Rightarrow> api_error + answer" where
  "handleAccount verify now rq s =
     (if rq_Method rq \<noteq> ''GET'' then Inl (errIllegalParam ''method'')
      else case verify rq of Some e \<Rightarrow> Inl e
      | None \<Rightarrow> Inr (Account now (case ed_ledger s of Some l \<Rightarrow> ledgerBalances l | None \<Rightarrow> ed_balances s)))"

text \<open>The function that the transfer hub provides, when withdrawals are enabled: it works on the ledger of
  the venue and fails with an insufficient balance or another error, given by its text.\<close>

datatype withdraw_failure = Insufficient | OtherFailure string

type_synonym withdraw_func = "ledger option \<Rightarrow> string \<Rightarrow> decimal \<Rightarrow> string \<Rightarrow> ((withdraw_failure + string) \<times> ledger option) option"

definition handleWithdraw ::
    "verifier \<Rightarrow> withdraw_func option \<Rightarrow> request \<Rightarrow> edge \<Rightarrow> ((api_error + answer) \<times> edge) option" where
  "handleWithdraw verify withdraw rq s =
     (if rq_Method rq \<noteq> ''POST'' then Some (Inl (errIllegalParam ''method''), s)
      else case withdraw of None \<Rightarrow> Some (Inl (errInternal ''withdrawals not enabled''), s)
      | Some wd \<Rightarrow>
     (case verify rq of Some e \<Rightarrow> Some (Inl e, s)
      | None \<Rightarrow>
         let coin = param rq ''coin''; address = param rq ''address''
         in if coin = [] then Some (Inl (errMandatoryParam ''coin''), s)
            else if address = [] then Some (Inl (errMandatoryParam ''address''), s)
            else case parseDecimalParam (param rq ''amount'') ''amount'' of Inl e \<Rightarrow> Some (Inl e, s)
            | Inr amount \<Rightarrow>
                if Sign amount \<le> 0 then Some (Inl (errIllegalParam ''amount''), s)
                else do {
                  (res, l) \<leftarrow> wd (ed_ledger s) coin amount address;
                  let s = s\<lparr>ed_ledger := l\<rparr>;
                  Some (case res of
                      Inl Insufficient \<Rightarrow> Inl errInsufficientBalance
                    | Inl (OtherFailure msg) \<Rightarrow> Inl (errInternal msg)
                    | Inr txRef \<Rightarrow> Inr (Withdrawn txRef), s)
                }))"

end
