(* ===== verification/EdgeReservations.thy ===== *)
theory EdgeReservations
  imports BinanceEdge BinanceRegistryProofs EngineProofs
begin

text \<open>
  The balances behind the working orders of the Binance edge: what an order still needs (\<open>reservation\<close>),
  what all of them need (\<open>reserved\<close>), and that a trade and a cancellation, played through the hooks of the
  edge, take out of the locked balance exactly the part of the order, so that what is locked keeps covering
  what is reserved (\<open>covered\<close>).
\<close>

subsection \<open>The store by engine identifier\<close>

lemma getByEngine_tracked:
  assumes "coherent_reg r"
  shows "bin_getByEngine r e = Some rec \<longleftrightarrow> (\<exists>oid p. tracked r oid p \<and> rec = rg_heap r ! p \<and> e = bin_EngineID oid)"
  using index_engine[OF assms, of e] tracked_own[OF assms] unfolding bin_getByEngine_def by auto blast+

lemma tracked_unique:
  assumes "coherent_reg r" "tracked r oid p" "tracked r oid' p"
  shows "oid = oid'"
  using tracked_own(2)[OF assms(1,2)] tracked_own(2)[OF assms(1,3)] by simp

lemma tracked_functional: "tracked r oid p \<Longrightarrow> tracked r oid p' \<Longrightarrow> p = p'"
  by (simp add: tracked_def)

lemma getByEngine_put:
  assumes co: "coherent_reg r" and p: "tracked r oid p" and ids: "rec_ids rec = rec_ids (rg_heap r ! p)"
  shows "bin_getByEngine (put_record r p rec) e = (if e = bin_EngineID oid then Some rec else bin_getByEngine r e)"
proof -
  note own = tracked_own[OF co p]
  have idx: "rg_byEngine r (bin_EngineID oid) = Some p" using index_engine[OF co] p own(3) by blast
  show ?thesis
  proof (cases "e = bin_EngineID oid")
    case True
    then show ?thesis using idx own(1) by (simp add: bin_getByEngine_def put_record_def)
  next
    case False
    have "p' \<noteq> p" if "rg_byEngine r e = Some p'" for p'
      using that index_engine[OF co, of e p'] own(3) False by blast
    then show ?thesis using False by (cases "rg_byEngine r e") (auto simp: bin_getByEngine_def put_record_def)
  qed
qed

lemma tracked_member: "coherent_reg r \<Longrightarrow> (oid, p) \<in> set (rg_byOrderID r) \<longleftrightarrow> tracked r oid p"
  unfolding coherent_reg_def tracked_def by simp

subsection \<open>What working orders need\<close>

definition remaining :: "order_record \<Rightarrow> int" where
  "remaining rec = toBig (or_OrigQty rec) - toBig (or_ExecutedQty rec)"

text \<open>The base and the quote of an engine symbol; an option trades its contract asset.\<close>

definition assets :: "edge \<Rightarrow> string \<Rightarrow> string \<times> string" where
  "assets s eng =
     (if isOptionSym s eng then (case optionAssets s eng of (quote, contractAsset) \<Rightarrow> (contractAsset, quote))
      else splitEngineSymbol eng)"

text \<open>What a quantity of a limit order reserves of an asset, when \<open>A\<close> gives the assets of a symbol.\<close>

definition part :: "(string \<Rightarrow> string \<times> string) \<Rightarrow> order_record \<Rightarrow> int \<Rightarrow> string \<Rightarrow> int" where
  "part A rec x a =
     (if or_Type rec = ''LIMIT''
      then (if or_Side rec = ''BUY''
            then (if a = snd (A (or_EngineSymbol rec)) then prod x (toBig (or_Price rec)) else 0)
            else (if a = fst (A (or_EngineSymbol rec)) then x else 0))
      else 0)"

definition reservation :: "(string \<Rightarrow> string \<times> string) \<Rightarrow> order_record \<Rightarrow> string \<Rightarrow> int" where
  "reservation A rec a = (if is_working rec then part A rec (remaining rec) a else 0)"

definition reserved :: "(string \<Rightarrow> string \<times> string) \<Rightarrow> registry \<Rightarrow> string \<Rightarrow> int" where
  "reserved A r a = sum_list (map (\<lambda>x. reservation A (rg_heap r ! snd x) a) (rg_byOrderID r))"

lemma sum_list_change:
  fixes f g :: "'a \<Rightarrow> int"
  assumes "distinct xs" "y \<in> set xs" "\<And>x. x \<in> set xs \<Longrightarrow> x \<noteq> y \<Longrightarrow> f x = g x"
  shows "sum_list (map f xs) = sum_list (map g xs) - g y + f y"
proof -
  have "sum f (set xs - {y}) = sum g (set xs - {y})" using assms(3) by (intro sum.cong) auto
  then show ?thesis
    using assms(1,2) sum.remove[of "set xs" y f] sum.remove[of "set xs" y g]
    by (simp add: sum_list_distinct_conv_sum_set)
qed

lemma reserved_put:
  assumes co: "coherent_reg r" and p: "tracked r oid p"
  shows "reserved A (put_record r p rec) a = reserved A r a - reservation A (rg_heap r ! p) a + reservation A rec a"
proof -
  have d: "distinct (map fst (rg_byOrderID r))" using co unfolding coherent_reg_def by blast
  have dl: "distinct (rg_byOrderID r)" using d by (simp add: distinct_map)
  have mem: "(oid, p) \<in> set (rg_byOrderID r)" using p tracked_member[OF co] by blast
  have len: "p < length (rg_heap r)" using tracked_own(1)[OF co p] .
  have own: "x = (oid, p)" if "x \<in> set (rg_byOrderID r)" "snd x = p" for x
    using that tracked_unique[OF co p, of "fst x"] tracked_member[OF co] by (metis prod.collapse)
  let ?f = "\<lambda>x. reservation A (rg_heap (put_record r p rec) ! snd x) a" and ?g = "\<lambda>x. reservation A (rg_heap r ! snd x) a"
  have "?f x = ?g x" if "x \<in> set (rg_byOrderID r)" "x \<noteq> (oid, p)" for x
  proof -
    have "snd x \<noteq> p" using own that by blast
    then show ?thesis by (simp add: put_record_def)
  qed
  from sum_list_change[OF dl mem, of ?f ?g, OF this] show ?thesis
    using len by (simp add: reserved_def put_record_def)
qed

lemma reserved_nonneg:
  assumes "coherent_reg r" "\<And>e rec. bin_getByEngine r e = Some rec \<Longrightarrow> 0 \<le> reservation A rec a"
  shows "0 \<le> reserved A r a"
proof -
  have "0 \<le> reservation A (rg_heap r ! snd x) a" if "x \<in> set (rg_byOrderID r)" for x
  proof -
    have "tracked r (fst x) (snd x)" using that tracked_member[OF assms(1), of "fst x" "snd x"] by simp
    then show ?thesis using assms(2) getByEngine_tracked[OF assms(1)] by blast
  qed
  then show ?thesis unfolding reserved_def by (intro sum_list_nonneg) auto
qed

text \<open>What the handlers record of an order.\<close>

definition sane :: "order_record \<Rightarrow> bool" where
  "sane rec \<longleftrightarrow> (or_Type rec = ''LIMIT'' \<and> 0 < toBig (or_Price rec) \<and> 0 \<le> remaining rec \<or>
     or_Type rec = ''MARKET'' \<and> or_Price rec = Zero)"

lemma prod_additive:
  assumes "0 \<le> x" "0 \<le> y" "0 \<le> p"
  shows "prod x p + prod y p \<le> prod (x + y) p"
proof -
  have k: "0 < scaleBig" by (simp add: scaleBig_num)
  have "((x * p) div scaleBig + (y * p) div scaleBig) * scaleBig \<le> x * p + y * p"
    using div_times_le[OF k, of "x * p"] div_times_le[OF k, of "y * p"] by (simp add: distrib_right)
  then have "(x * p) div scaleBig + (y * p) div scaleBig \<le> (x * p + y * p) div scaleBig"
    using k zdiv_mono1[of _ "x * p + y * p" scaleBig] by fastforce
  then show ?thesis using assms by (simp add: prod_def sdiv_nonneg scaleBig_num distrib_right)
qed

lemma part_additive: "sane rec \<Longrightarrow> 0 \<le> x \<Longrightarrow> 0 \<le> y \<Longrightarrow> part A rec x a + part A rec y a \<le> part A rec (x + y) a"
  using prod_additive[of x y "toBig (or_Price rec)"] by (auto simp: part_def sane_def)

lemma part_nonneg: "sane rec \<Longrightarrow> 0 \<le> x \<Longrightarrow> 0 \<le> part A rec x a"
  using prod_nonneg[of x "toBig (or_Price rec)"] by (auto simp: part_def sane_def)

lemma part_zero [simp]: "part A rec 0 a = 0"
  by (simp add: part_def prod_def)

lemma reservation_nonneg: "sane rec \<Longrightarrow> 0 \<le> reservation A rec a"
  using part_nonneg[of rec "remaining rec" A a] by (auto simp: reservation_def sane_def part_def)

subsection \<open>A fill in the store\<close>

text \<open>What a fill and a cancellation leave as it is.\<close>

definition same_terms :: "order_record \<Rightarrow> order_record \<Rightarrow> bool" where
  "same_terms rec rec' \<longleftrightarrow> rec_ids rec = rec_ids rec' \<and> or_EngineSymbol rec = or_EngineSymbol rec' \<and>
     or_BinanceSymbol rec = or_BinanceSymbol rec' \<and> or_Side rec = or_Side rec' \<and> or_Type rec = or_Type rec' \<and>
     or_Price rec = or_Price rec' \<and> or_OrigQty rec = or_OrigQty rec'"

lemma same_terms_refl [simp]: "same_terms rec rec"
  by (simp add: same_terms_def)

lemma part_same: "same_terms rec rec' \<Longrightarrow> part A rec = part A rec'"
  by (auto simp: same_terms_def part_def fun_eq_iff)

definition fillable :: "order_record \<Rightarrow> bool \<Rightarrow> int \<Rightarrow> bool" where
  "fillable rec isBuy x \<longleftrightarrow> or_Type rec = ''MARKET'' \<or> is_working rec \<and> x \<le> remaining rec \<and> (or_Side rec = ''BUY'' \<longleftrightarrow> isBuy)"

lemma applyFill_effect:
  assumes "bin_applyFill rec q p n = Some rec'" "0 < toBig q"
  shows "same_terms rec' rec" "remaining rec' = remaining rec - toBig q"
    "is_working rec \<Longrightarrow> is_working rec' \<longleftrightarrow> 0 < remaining rec'"
  using assms by (auto elim!: applyFill_cases
      simp: same_terms_def rec_ids_def remaining_def is_working_def le_toBig status_defs not_le split: if_splits)

lemma fill_reservation:
  assumes "bin_applyFill rec q p n = Some rec'" "0 < toBig q" "sane rec" "fillable rec isBuy (toBig q)"
  shows "sane rec' \<and> reservation A rec' a + part A rec (toBig q) a \<le> reservation A rec a"
proof (cases "or_Type rec = ''MARKET''")
  case True
  then show ?thesis using applyFill_effect[OF assms(1,2)] assms(3)
    by (auto simp: reservation_def part_def sane_def same_terms_def)
next
  case False
  note eff = applyFill_effect[OF assms(1,2)]
  have rec: "is_working rec" "toBig q \<le> remaining rec" using False assms(4) by (auto simp: fillable_def)
  have sane': "sane rec'" using False assms(3) eff(1,2) rec by (auto simp: sane_def same_terms_def)
  have "part A rec (remaining rec') a + part A rec (toBig q) a \<le> part A rec (remaining rec) a"
    using part_additive[OF assms(3), of "remaining rec'" "toBig q" A a] eff(2) rec assms(2) by simp
  moreover have "reservation A rec' a \<le> part A rec (remaining rec') a"
    using part_same[OF eff(1)] part_nonneg[OF assms(3), of "remaining rec'" A a] eff(2) rec by (simp add: reservation_def)
  ultimately show ?thesis using sane' rec(1) by (simp add: reservation_def)
qed

lemma sane_same: "same_terms rec' rec \<Longrightarrow> remaining rec' = remaining rec \<Longrightarrow> sane rec \<Longrightarrow> sane rec'"
  by (simp add: sane_def same_terms_def)

lemma getByEngine_prefix:
  assumes "coherent_reg r" "bin_getByEngine r e = Some rec"
  shows "isEdgeOrder e" "or_EngineID rec = e" "e = bin_EngineID (or_OrderID rec)"
proof -
  from assms getByEngine_tracked[OF assms(1)] obtain oid p where
    p: "tracked r oid p" "rec = rg_heap r ! p" "e = bin_EngineID oid" by blast
  with tracked_own[OF assms(1) p(1)] show "isEdgeOrder e" "or_EngineID rec = e" "e = bin_EngineID (or_OrderID rec)"
    by (simp_all add: isEdgeOrder_def)
qed

text \<open>Replacing a record by one with the same identifiers.\<close>

lemma replace_record:
  assumes co: "coherent_reg r" and e: "rg_byEngine r e = Some p" and ids: "rec_ids rec' = rec_ids (rg_heap r ! p)"
  shows "coherent_reg (put_record r p rec')" "bin_getByEngine (put_record r p rec') = (bin_getByEngine r)(e \<mapsto> rec')"
    "reserved A (put_record r p rec') a = reserved A r a - reservation A (rg_heap r ! p) a + reservation A rec' a"
proof -
  from index_engine[OF co, of e p] e obtain oid where p: "tracked r oid p" "or_EngineID (rg_heap r ! p) = e" by blast
  have "e = bin_EngineID oid" using tracked_own(3)[OF co p(1)] p(2) by simp
  then show "bin_getByEngine (put_record r p rec') = (bin_getByEngine r)(e \<mapsto> rec')"
    using getByEngine_put[OF co p(1) ids] by (simp add: fun_eq_iff)
  show "coherent_reg (put_record r p rec')" using co ids by (rule coherent_put)
  show "reserved A (put_record r p rec') a = reserved A r a - reservation A (rg_heap r ! p) a + reservation A rec' a"
    using co p(1) by (rule reserved_put)
qed

lemma getByEngine_position: "bin_getByEngine r e = Some rec \<Longrightarrow> \<exists>p. rg_byEngine r e = Some p \<and> rec = rg_heap r ! p"
  by (auto simp: bin_getByEngine_def)

lemma fillOrder_unknown: "bin_getByEngine r i = None \<Longrightarrow> bin_fillOrder t n i r = Some r' \<Longrightarrow> r' = r"
  by (auto simp: bin_fillOrder_def bin_getByEngine_def split: if_splits)

lemma fillOrder_known:
  assumes "coherent_reg r" "bin_getByEngine r i = Some rec" "bin_fillOrder t n i r = Some r'"
  obtains rec' where "bin_applyFill rec (tr_Volume t) (tr_Price t) n = Some rec'" "coherent_reg r'"
    "bin_getByEngine r' = (bin_getByEngine r)(i \<mapsto> rec')"
    "\<And>a. reserved A r' a = reserved A r a - reservation A rec a + reservation A rec' a"
proof -
  obtain p where p: "rg_byEngine r i = Some p" "rec = rg_heap r ! p" using getByEngine_position[OF assms(2)] by blast
  have "HasPrefix i bin_prefix" using getByEngine_prefix(1)[OF assms(1,2)] by (simp add: isEdgeOrder_def)
  with assms(3) p obtain rec' where rec': "bin_applyFill rec (tr_Volume t) (tr_Price t) n = Some rec'" "r' = put_record r p rec'"
    by (auto simp: bin_fillOrder_def bind_eq_Some_conv)
  have "rec_ids rec' = rec_ids (rg_heap r ! p)" using applyFill_ids[OF rec'(1)] p(2) by simp
  from replace_record[OF assms(1) p(1) this] that rec' p(2) show thesis by simp
qed

text \<open>The store after a fill of the orders in \<open>S\<close>.\<close>

definition filled :: "int \<Rightarrow> order_record \<Rightarrow> order_record \<Rightarrow> bool" where
  "filled x rec rec' \<longleftrightarrow> same_terms rec' rec \<and> remaining rec' = remaining rec - x \<and>
     (is_working rec \<longrightarrow> (is_working rec' \<longleftrightarrow> 0 < remaining rec'))"

definition filled_by :: "string set \<Rightarrow> int \<Rightarrow> registry \<Rightarrow> registry \<Rightarrow> bool" where
  "filled_by S x r r' \<longleftrightarrow> (\<forall>e. if e \<in> S then rel_option (filled x) (bin_getByEngine r e) (bin_getByEngine r' e)
     else bin_getByEngine r' e = bin_getByEngine r e)"

lemma filled_byI:
  assumes "\<And>e. e \<notin> S \<Longrightarrow> bin_getByEngine r' e = bin_getByEngine r e"
    and "\<And>e. e \<in> S \<Longrightarrow> bin_getByEngine r e = None \<Longrightarrow> bin_getByEngine r' e = None"
    and "\<And>e rec. e \<in> S \<Longrightarrow> bin_getByEngine r e = Some rec \<Longrightarrow> \<exists>rec'. bin_getByEngine r' e = Some rec' \<and> filled x rec rec'"
  shows "filled_by S x r r'"
  unfolding filled_by_def
proof
  fix e
  show "if e \<in> S then rel_option (filled x) (bin_getByEngine r e) (bin_getByEngine r' e)
     else bin_getByEngine r' e = bin_getByEngine r e"
  proof (cases "bin_getByEngine r e")
    case None
    then show ?thesis using assms(1)[of e] assms(2)[of e] by auto
  next
    case (Some rec)
    then show ?thesis using assms(1)[of e] assms(3)[of e rec] by auto
  qed
qed

lemma filled_by_other: "filled_by S x r r' \<Longrightarrow> e \<notin> S \<Longrightarrow> bin_getByEngine r' e = bin_getByEngine r e"
  unfolding filled_by_def by metis

lemma filled_by_rel: "filled_by S x r r' \<Longrightarrow> e \<in> S \<Longrightarrow> rel_option (filled x) (bin_getByEngine r e) (bin_getByEngine r' e)"
  unfolding filled_by_def by metis

lemma filled_by_Some:
  assumes "filled_by S x r r'" "bin_getByEngine r e = Some rec"
  obtains rec' where "bin_getByEngine r' e = Some rec'" "same_terms rec' rec" "e \<in> S \<Longrightarrow> filled x rec rec'"
proof (cases "e \<in> S")
  case True
  with assms(2) filled_by_rel[OF assms(1)] obtain rec' where "bin_getByEngine r' e = Some rec'" "filled x rec rec'"
    by (fastforce simp: option_rel_Some1)
  then show ?thesis using that by (simp add: filled_def)
next
  case False
  with filled_by_other[OF assms(1) False] assms(2) that show ?thesis by simp
qed

lemma filled_by_None: "filled_by S x r r' \<Longrightarrow> bin_getByEngine r' e = None \<longleftrightarrow> bin_getByEngine r e = None"
proof (cases "bin_getByEngine r e")
  case None
  moreover assume "filled_by S x r r'"
  ultimately show ?thesis using filled_by_rel[of S x r r' e] filled_by_other[of S x r r' e] by (cases "e \<in> S") auto
next
  case (Some rec)
  moreover assume "filled_by S x r r'"
  ultimately show ?thesis by (auto elim: filled_by_Some)
qed

lemma filled_by_back:
  assumes "filled_by S x r r'" "bin_getByEngine r' e = Some rec'"
  obtains rec where "bin_getByEngine r e = Some rec" "same_terms rec' rec" "e \<in> S \<Longrightarrow> filled x rec rec'"
proof (cases "bin_getByEngine r e")
  case None
  then show ?thesis using filled_by_None[OF assms(1), of e] assms(2) by simp
next
  case (Some rec)
  from assms(1) Some show ?thesis
  proof (rule filled_by_Some)
    fix rec2 assume "bin_getByEngine r' e = Some rec2" "same_terms rec2 rec" "e \<in> S \<Longrightarrow> filled x rec rec2"
    then show ?thesis using that Some assms(2) by simp
  qed
qed

lemma filled_by_empty: "filled_by S x r r" if "\<And>e. e \<in> S \<Longrightarrow> bin_getByEngine r e = None"
  by (rule filled_byI) (simp_all add: that)

lemma filled_by_Un:
  assumes "filled_by S x r r1" "filled_by T x r1 r2" "\<And>e. e \<in> S \<Longrightarrow> e \<in> T \<Longrightarrow> bin_getByEngine r e = None"
  shows "filled_by (S \<union> T) x r r2"
proof (rule filled_byI)
  fix e assume "e \<notin> S \<union> T"
  then show "bin_getByEngine r2 e = bin_getByEngine r e"
    using filled_by_other[OF assms(1), of e] filled_by_other[OF assms(2), of e] by simp
next
  fix e assume "bin_getByEngine r e = None"
  then show "bin_getByEngine r2 e = None" using filled_by_None[OF assms(1)] filled_by_None[OF assms(2)] by simp
next
  fix e rec assume e: "e \<in> S \<union> T" "bin_getByEngine r e = Some rec"
  show "\<exists>rec'. bin_getByEngine r2 e = Some rec' \<and> filled x rec rec'"
  proof (cases "e \<in> S")
    case True
    then have "bin_getByEngine r2 e = bin_getByEngine r1 e" using assms(3) e(2) filled_by_other[OF assms(2), of e] by force
    with True filled_by_Some[OF assms(1) e(2)] show ?thesis by metis
  next
    case False
    then have "bin_getByEngine r1 e = Some rec" "e \<in> T" using e filled_by_other[OF assms(1), of e] by auto
    with filled_by_Some[OF assms(2)] show ?thesis by metis
  qed
qed

definition fill_part :: "(string \<Rightarrow> string \<times> string) \<Rightarrow> registry \<Rightarrow> string \<Rightarrow> int \<Rightarrow> string \<Rightarrow> int" where
  "fill_part A r i x a = (case bin_getByEngine r i of None \<Rightarrow> 0 | Some rec \<Rightarrow> part A rec x a)"

definition sane_store :: "registry \<Rightarrow> bool" where
  "sane_store r \<longleftrightarrow> coherent_reg r \<and> (\<forall>e rec. bin_getByEngine r e = Some rec \<longrightarrow> sane rec)"

lemma sane_storeD: "sane_store r \<Longrightarrow> coherent_reg r" "sane_store r \<Longrightarrow> bin_getByEngine r e = Some rec \<Longrightarrow> sane rec"
  unfolding sane_store_def by blast+

lemma sane_storeI: "coherent_reg r \<Longrightarrow> (\<And>e rec. bin_getByEngine r e = Some rec \<Longrightarrow> sane rec) \<Longrightarrow> sane_store r"
  unfolding sane_store_def by blast

lemma sane_reserved: "sane_store r \<Longrightarrow> 0 \<le> reserved A r a"
  by (intro reserved_nonneg) (auto dest: sane_storeD reservation_nonneg)

lemma fill_part_same: "filled_by S x r r' \<Longrightarrow> fill_part A r' = fill_part A r"
proof (intro ext)
  fix i y a
  assume f: "filled_by S x r r'"
  show "fill_part A r' i y a = fill_part A r i y a"
  proof (cases "bin_getByEngine r i")
    case None
    then show ?thesis using filled_by_None[OF f, of i] by (simp add: fill_part_def)
  next
    case (Some rec)
    from filled_by_Some[OF f this] part_same obtain rec' where "bin_getByEngine r' i = Some rec'" "part A rec' = part A rec" by metis
    with Some show ?thesis by (simp add: fill_part_def)
  qed
qed

lemma fill_part_nonneg: "sane_store r \<Longrightarrow> 0 \<le> x \<Longrightarrow> 0 \<le> fill_part A r i x a"
  by (auto simp: fill_part_def split: option.splits dest: sane_storeD part_nonneg)

lemma fillOrder_step:
  assumes "sane_store r" "bin_fillOrder t n i r = Some r'" "0 < toBig (tr_Volume t)"
    and "\<And>rec. bin_getByEngine r i = Some rec \<Longrightarrow> fillable rec isBuy (toBig (tr_Volume t))"
  shows "sane_store r' \<and> filled_by {i} (toBig (tr_Volume t)) r r' \<and>
    (\<forall>a. reserved A r' a + fill_part A r i (toBig (tr_Volume t)) a \<le> reserved A r a)"
proof (cases "bin_getByEngine r i")
  case None
  then show ?thesis using fillOrder_unknown[OF None assms(2)] assms(1) by (auto simp: fill_part_def intro: filled_by_empty)
next
  case (Some rec)
  let ?x = "toBig (tr_Volume t)"
  from fillOrder_known[OF sane_storeD(1)[OF assms(1)] Some assms(2)] obtain rec' where
    rec': "bin_applyFill rec (tr_Volume t) (tr_Price t) n = Some rec'" and co: "coherent_reg r'"
    and get: "bin_getByEngine r' = (bin_getByEngine r)(i \<mapsto> rec')"
    and res: "\<And>a. reserved A r' a = reserved A r a - reservation A rec a + reservation A rec' a" by metis
  have fr: "sane rec'" "reservation A rec' a + part A rec ?x a \<le> reservation A rec a" for a
    using fill_reservation[OF rec' assms(3) sane_storeD(2)[OF assms(1) Some] assms(4)[OF Some]] by blast+
  have "sane_store r'"
  proof (rule sane_storeI[OF co])
    fix e rec2 assume "bin_getByEngine r' e = Some rec2"
    then show "sane rec2" using get fr(1) sane_storeD(2)[OF assms(1), of e] by (auto split: if_splits)
  qed
  moreover have "filled_by {i} ?x r r'"
    using applyFill_effect[OF rec' assms(3)] Some get by (intro filled_byI) (auto simp: filled_def)
  moreover have "reserved A r' a + fill_part A r i ?x a \<le> reserved A r a" for a
    using fr(2)[of a] res[of a] Some by (simp add: fill_part_def)
  ultimately show ?thesis by blast
qed

text \<open>What the two orders of a trade must be in the store.\<close>

definition trade_fits :: "registry \<Rightarrow> trade \<Rightarrow> bool" where
  "trade_fits r t \<longleftrightarrow> 0 < toBig (tr_Volume t) \<and>
     (tr_BuyOrderID t = tr_SellOrderID t \<longrightarrow> bin_getByEngine r (tr_BuyOrderID t) = None) \<and>
     (\<forall>rec. bin_getByEngine r (tr_BuyOrderID t) = Some rec \<longrightarrow> fillable rec True (toBig (tr_Volume t))) \<and>
     (\<forall>rec. bin_getByEngine r (tr_SellOrderID t) = Some rec \<longrightarrow> fillable rec False (toBig (tr_Volume t)))"

lemma trade_fitsD:
  assumes "trade_fits r t"
  shows "0 < toBig (tr_Volume t)" "tr_BuyOrderID t = tr_SellOrderID t \<Longrightarrow> bin_getByEngine r (tr_BuyOrderID t) = None"
    "bin_getByEngine r (tr_BuyOrderID t) = Some rec \<Longrightarrow> fillable rec True (toBig (tr_Volume t))"
    "bin_getByEngine r (tr_SellOrderID t) = Some rec \<Longrightarrow> fillable rec False (toBig (tr_Volume t))"
  using assms unfolding trade_fits_def by blast+

lemma OnTrade_step:
  assumes "sane_store r" "trade_fits r t" "bin_OnTrade (Some t) n r = Some r'"
  shows "sane_store r' \<and> filled_by {tr_BuyOrderID t, tr_SellOrderID t} (toBig (tr_Volume t)) r r' \<and>
    (\<forall>a. reserved A r' a + fill_part A r (tr_BuyOrderID t) (toBig (tr_Volume t)) a +
      fill_part A r (tr_SellOrderID t) (toBig (tr_Volume t)) a \<le> reserved A r a)"
proof -
  let ?x = "toBig (tr_Volume t)" and ?b = "tr_BuyOrderID t" and ?s = "tr_SellOrderID t"
  note fits = trade_fitsD[OF assms(2)]
  from assms(3) obtain r1 where r1: "bin_fillOrder t n ?b r = Some r1" and r2: "bin_fillOrder t n ?s r1 = Some r'"
    by (auto simp: bin_OnTrade_def bind_eq_Some_conv)
  from fillOrder_step[OF assms(1) r1 fits(1) fits(3)] have s1: "sane_store r1" and f1: "filled_by {?b} ?x r r1"
    and a1: "\<And>a. reserved A r1 a + fill_part A r ?b ?x a \<le> reserved A r a" by blast+
  have "fillable rec False ?x" if rec: "bin_getByEngine r1 ?s = Some rec" for rec
  proof -
    have "bin_getByEngine r1 ?s = bin_getByEngine r ?s"
      using fits(2) filled_by_other[OF f1, of ?s] filled_by_None[OF f1, of ?s] by (cases "?b = ?s") auto
    then show ?thesis using rec fits(4) by simp
  qed
  from fillOrder_step[OF s1 r2 fits(1) this] have "sane_store r'" "filled_by {?s} ?x r1 r'"
    "\<And>a. reserved A r' a + fill_part A r1 ?s ?x a \<le> reserved A r1 a" by blast+
  moreover have "filled_by ({?b} \<union> {?s}) ?x r r'"
    by (rule filled_by_Un[OF f1 calculation(2)]) (use fits(2) in auto)
  moreover have "reserved A r' a + fill_part A r ?b ?x a + fill_part A r ?s ?x a \<le> reserved A r a" for a
    using a1[of a] calculation(3)[of a] fill_part_same[OF f1] by simp
  ultimately show ?thesis by (simp add: insert_commute)
qed

subsection \<open>A trade and a cancellation in the ledger\<close>

lemma settle_locked:
  assumes "SettleFill l isBuy base quote q p r = Some l'"
  shows "lk l' = (if toBig r \<le> 0 then lk l
    else if isBuy then (lk l)(quote := lk l quote - min (prod (toBig q) (toBig r)) (lk l quote))
    else (lk l)(base := lk l base - min (toBig q) (lk l base)))"
proof -
  have "lk l' = snd (spec_settle (account_of l) isBuy base quote (toBig q) (toBig p) (toBig r))"
    using SettleFill_refines[OF assms] by (metis fst_account(2))
  then show ?thesis by (simp add: account_of_def)
qed

lemma release_locked:
  assumes "release l a x = Some l'"
  shows "lk l' = (lk l)(a := lk l a - min (toBig x) (lk l a))" "fr l' = (fr l)(a := fr l a + min (toBig x) (lk l a))"
  using release_refines[OF assms] by (simp_all add: account_of_def)

text \<open>The fill of an order takes its part out of what is locked.\<close>

lemma settle_part:
  assumes "SettleFill l isBuy (fst (A (or_EngineSymbol rec))) (snd (A (or_EngineSymbol rec)))
      q p (or_Price rec) = Some l'"
    and "sane rec" "or_Type rec = ''LIMIT'' \<Longrightarrow> or_Side rec = ''BUY'' \<longleftrightarrow> isBuy"
    and "\<And>a. part A rec (toBig q) a \<le> lk l a"
  shows "lk l' a = lk l a - part A rec (toBig q) a"
proof (cases "or_Type rec = ''LIMIT''")
  case True
  with assms(2) have "0 < toBig (or_Price rec)" by (simp add: sane_def)
  then show ?thesis using True settle_locked[OF assms(1)] assms(3)
      assms(4)[of "fst (A (or_EngineSymbol rec))"] assms(4)[of "snd (A (or_EngineSymbol rec))"]
    by (auto simp: part_def)
next
  case False
  with assms(2) have "toBig (or_Price rec) \<le> 0" by (simp add: sane_def)
  then show ?thesis using False settle_locked[OF assms(1)] by (simp add: part_def)
qed

text \<open>What the hooks and the handlers do not touch.\<close>

definition same_frame :: "edge \<Rightarrow> edge \<Rightarrow> bool" where
  "same_frame s s' \<longleftrightarrow> ed_engine s' = ed_engine s \<and> ed_symbols s' = ed_symbols s \<and> ed_optMarket s' = ed_optMarket s"

lemma same_frame_refl [simp]: "same_frame s s"
  by (simp add: same_frame_def)

lemma same_frame_trans: "same_frame s s1 \<Longrightarrow> same_frame s1 s2 \<Longrightarrow> same_frame s s2"
  by (simp add: same_frame_def)

lemma isOptionSym_frame: "ed_optMarket s' = ed_optMarket s \<Longrightarrow> isOptionSym s' = isOptionSym s"
  by (simp add: isOptionSym_def fun_eq_iff)

lemma optionAssets_frame: "ed_optMarket s' = ed_optMarket s \<Longrightarrow> optionAssets s' = optionAssets s"
  by (simp add: optionAssets_def fun_eq_iff)

lemma assets_frame: "ed_optMarket s' = ed_optMarket s \<Longrightarrow> assets s' = assets s"
  using isOptionSym_frame[of s' s] optionAssets_frame[of s' s] by (simp add: assets_def fun_eq_iff)

lemma assets_updates [simp]: "assets (s\<lparr>ed_engine := e\<rparr>) = assets s" "assets (s\<lparr>ed_registry := r\<rparr>) = assets s"
    "assets (s\<lparr>ed_ledger := l\<rparr>) = assets s"
  by (rule assets_frame; simp)+

text \<open>A fill settles in the assets of the symbol, whatever is traded.\<close>

lemma settle_side_assets:
  assumes "settle_side t i s = Some s'" "isEdgeOrder i" "bin_getByEngine (ed_registry s) i = Some rec"
  shows "with_ledger (\<lambda>l. SettleFill l (i = tr_BuyOrderID t) (fst (assets s (or_EngineSymbol rec))) (snd (assets s (or_EngineSymbol rec)))
    (tr_Volume t) (tr_Price t) (or_Price rec)) s = Some s'"
  using assms
  by (auto simp: settle_side_def option_order_def settleFill_def settleOptionFill_def assets_def split: if_splits prod.splits)

lemma settle_side_effect:
  assumes "settle_side t i s = Some s'" "ed_ledger s = Some l" "sane_store (ed_registry s)"
    and "\<And>rec. bin_getByEngine (ed_registry s) i = Some rec \<Longrightarrow>
      or_Type rec = ''LIMIT'' \<Longrightarrow> or_Side rec = ''BUY'' \<longleftrightarrow> i = tr_BuyOrderID t"
    and "\<And>a. fill_part (assets s) (ed_registry s) i (toBig (tr_Volume t)) a \<le> lk l a"
  shows "\<exists>l'. s' = s\<lparr>ed_ledger := Some l'\<rparr> \<and> (\<forall>a. lk l' a = lk l a - fill_part (assets s) (ed_registry s) i (toBig (tr_Volume t)) a)"
proof (cases "bin_getByEngine (ed_registry s) i")
  case None
  then have "s' = s" using assms(1) by (auto simp: settle_side_def settleFill_def settleOptionFill_def split: if_splits)
  then show ?thesis using None assms(2) by (intro exI[of _ l]) (simp add: fill_part_def)
next
  case (Some rec)
  have "isEdgeOrder i" using getByEngine_prefix(1)[OF sane_storeD(1)[OF assms(3)] Some] .
  from settle_side_assets[OF assms(1) this Some] assms(2) obtain l' where
    l': "SettleFill l (i = tr_BuyOrderID t) (fst (assets s (or_EngineSymbol rec))) (snd (assets s (or_EngineSymbol rec)))
      (tr_Volume t) (tr_Price t) (or_Price rec) = Some l'" "s' = s\<lparr>ed_ledger := Some l'\<rparr>"
    by (auto simp: with_ledger_def bind_eq_Some_conv)
  have "part (assets s) rec (toBig (tr_Volume t)) a \<le> lk l a" for a using assms(5)[of a] Some by (simp add: fill_part_def)
  from settle_part[OF l'(1) sane_storeD(2)[OF assms(3) Some] _ this] assms(4)[OF Some] l'(2) Some
  show ?thesis by (auto simp: fill_part_def)
qed

text \<open>The state between two calls of the book: the records make sense, and what the working orders need is locked.\<close>

definition covered :: "edge \<Rightarrow> bool" where
  "covered s \<longleftrightarrow> sane_store (ed_registry s) \<and>
     (\<exists>l. ed_ledger s = Some l \<and> (\<forall>a. reserved (assets s) (ed_registry s) a \<le> lk l a))"

lemma coveredI:
  assumes "sane_store (ed_registry s)"
    and "ed_ledger s = Some l" "\<And>a. reserved (assets s) (ed_registry s) a \<le> lk l a"
  shows "covered s"
  using assms unfolding covered_def by blast

lemma coveredE:
  assumes "covered s"
  obtains l where "sane_store (ed_registry s)" "ed_ledger s = Some l" "\<And>a. reserved (assets s) (ed_registry s) a \<le> lk l a"
  using assms unfolding covered_def by blast

lemma emit_frame [simp]:
  "ed_engine (emitExecutionReport n i k q p s) = ed_engine s" "ed_symbols (emitExecutionReport n i k q p s) = ed_symbols s"
  "ed_registry (emitExecutionReport n i k q p s) = ed_registry s" "ed_ledger (emitExecutionReport n i k q p s) = ed_ledger s"
  "ed_optMarket (emitExecutionReport n i k q p s) = ed_optMarket s"
  by (auto simp: emitExecutionReport_def split: option.split prod.split)

lemma stream_frame:
  assumes "stream_hook n ev s = Some s'"
  shows "same_frame s s'" "ed_registry s' = ed_registry s" "ed_ledger s' = ed_ledger s"
  using assms by (auto simp: stream_hook_def report_fill_def same_frame_def split: hook_event.splits)

lemma run_calls_append: "run_calls n (xs @ ys) s = do { s \<leftarrow> run_calls n xs s; run_calls n ys s }"
  by (induction xs arbitrary: s) (auto split: Option.bind_splits)

text \<open>The calls of the three hooks for an event.\<close>

abbreviation hooked :: "hook_event \<Rightarrow> (nat \<times> hook_event) list" where
  "hooked ev \<equiv> [(0, ev), (1, ev), (2, ev)]"

lemma run_hooked:
  assumes "run_calls n (hooked ev) s = Some s'"
  obtains s1 s2 where "registry_hook n ev s = Some s1" "stream_hook n ev s1 = Some s2" "ledger_hook ev s2 = Some s'"
  using assms that by (auto simp: run_hook_def bind_eq_Some_conv)

lemma trade_hooks:
  assumes "covered s" "trade_fits (ed_registry s) t" "run_calls n (hooked (EvTrade t)) s = Some s'"
  shows "covered s' \<and> same_frame s s' \<and>
    filled_by {tr_BuyOrderID t, tr_SellOrderID t} (toBig (tr_Volume t)) (ed_registry s) (ed_registry s')"
proof -
  let ?x = "toBig (tr_Volume t)" and ?b = "tr_BuyOrderID t" and ?s = "tr_SellOrderID t" and ?r = "ed_registry s"
  obtain l where c: "sane_store ?r" "ed_ledger s = Some l" "\<And>a. reserved (assets s) ?r a \<le> lk l a" by (rule coveredE[OF assms(1)]) blast
  from run_hooked[OF assms(3)] obtain s1 s2 where h: "registry_hook n (EvTrade t) s = Some s1"
    "stream_hook n (EvTrade t) s1 = Some s2" "ledger_hook (EvTrade t) s2 = Some s'" by metis
  from h(1) obtain r where r: "bin_OnTrade (Some t) n ?r = Some r" "s1 = s\<lparr>ed_registry := r\<rparr>"
    by (auto simp: registry_hook_def bind_eq_Some_conv)
  from OnTrade_step[OF c(1) assms(2) r(1)] have st: "sane_store r" "filled_by {?b, ?s} ?x ?r r"
    "\<And>a. reserved (assets s) r a + fill_part (assets s) ?r ?b ?x a + fill_part (assets s) ?r ?s ?x a \<le> reserved (assets s) ?r a" by blast+
  note f2 = stream_frame[OF h(2)]
  have s2: "ed_registry s2 = r" "ed_ledger s2 = Some l" "same_frame s s2"
    using f2 r(2) c(2) by (simp_all add: same_frame_def)
  have opt: "assets s2 = assets s" using s2(3) by (intro assets_frame) (simp add: same_frame_def)
  have part: "fill_part (assets s) r = fill_part (assets s) ?r" using fill_part_same[OF st(2)] .
  have sides: "or_Type rec = ''LIMIT'' \<longrightarrow> (or_Side rec = ''BUY'' \<longleftrightarrow> e = ?b)" if "bin_getByEngine r e = Some rec" "e = ?b \<or> e = ?s" for e rec
  proof -
    from filled_by_back[OF st(2) that(1)] obtain rec0 where rec0: "bin_getByEngine ?r e = Some rec0" "same_terms rec rec0" by metis
    note fits = trade_fitsD[OF assms(2)]
    have "fillable rec0 (e = ?b) ?x" using fits(2) fits(3,4)[of rec0] rec0(1) that(2) by (cases "e = ?b") auto
    with rec0(2) show ?thesis by (auto simp: fillable_def same_terms_def)
  qed
  have pos: "0 \<le> reserved (assets s) r a" "0 \<le> fill_part (assets s) r e ?x a" for e a
    using sane_reserved[OF st(1)] fill_part_nonneg[OF st(1), of ?x] trade_fitsD(1)[OF assms(2)] by simp_all
  from h(3) obtain s3 where s3: "settle_side t ?b s2 = Some s3" "settle_side t ?s s3 = Some s'"
    by (auto simp: ledger_hook_def bind_eq_Some_conv)
  have "fill_part (assets s) (ed_registry s2) ?b ?x a \<le> lk l a" for a
    using st(3)[of a] c(3)[of a] pos(1)[of a] pos(2)[of ?s a] part s2(1) by simp
  from settle_side_effect[OF s3(1) s2(2) _ _ this[folded opt]] st(1) sides s2(1) opt obtain l3 where
    l3: "s3 = s2\<lparr>ed_ledger := Some l3\<rparr>" "\<And>a. lk l3 a = lk l a - fill_part (assets s) r ?b ?x a" by auto
  have opt3: "assets s3 = assets s" unfolding l3(1) opt[symmetric] by (intro assets_frame) simp
  have r3: "ed_registry s3 = r" "ed_ledger s3 = Some l3" using l3(1) s2(1) by simp_all
  have "fill_part (assets s) (ed_registry s3) ?s ?x a \<le> lk l3 a" for a
    using st(3)[of a] c(3)[of a] pos(1)[of a] part l3(2)[of a] r3 by simp
  from settle_side_effect[OF s3(2) r3(2) _ _ this[folded opt3]] st(1) sides r3(1) opt3 obtain l' where
    l': "s' = s3\<lparr>ed_ledger := Some l'\<rparr>" "\<And>a. lk l' a = lk l3 a - fill_part (assets s) r ?s ?x a" by auto
  have fr: "same_frame s s'" using s2(3) l3(1) l'(1) by (simp add: same_frame_def)
  have "covered s'"
  proof (rule coveredI)
    show "sane_store (ed_registry s')" "ed_ledger s' = Some l'" using l' r3 st(1) by simp_all
    show "reserved (assets s') (ed_registry s') a \<le> lk l' a" for a
      using st(3)[of a] c(3)[of a] l'(2)[of a] l3(2)[of a] l'(1) r3(1) part assets_frame[of s' s] fr by (simp add: same_frame_def)
  qed
  then show ?thesis using fr st(2) l'(1) r3(1) by simp
qed

text \<open>The store after a cancellation of the order \<open>i\<close>.\<close>

definition withdrawn_in :: "string \<Rightarrow> registry \<Rightarrow> registry \<Rightarrow> bool" where
  "withdrawn_in i r r' \<longleftrightarrow> (\<forall>e. if e = i
     then rel_option (\<lambda>rec rec'. same_terms rec' rec \<and> remaining rec' = remaining rec \<and> \<not> is_working rec')
       (bin_getByEngine r e) (bin_getByEngine r' e)
     else bin_getByEngine r' e = bin_getByEngine r e)"

lemma withdrawn_other: "withdrawn_in i r r' \<Longrightarrow> e \<noteq> i \<Longrightarrow> bin_getByEngine r' e = bin_getByEngine r e"
  unfolding withdrawn_in_def by metis

lemma withdrawn_rel: "withdrawn_in i r r' \<Longrightarrow>
    rel_option (\<lambda>rec rec'. same_terms rec' rec \<and> remaining rec' = remaining rec \<and> \<not> is_working rec')
       (bin_getByEngine r i) (bin_getByEngine r' i)"
  unfolding withdrawn_in_def by metis

lemma withdrawn_back:
  assumes "withdrawn_in i r r'" "bin_getByEngine r' e = Some rec'"
  obtains rec where "bin_getByEngine r e = Some rec" "same_terms rec' rec" "remaining rec' = remaining rec"
    "e = i \<Longrightarrow> \<not> is_working rec'" "e \<noteq> i \<Longrightarrow> rec' = rec"
proof (cases "e = i")
  case True
  with withdrawn_rel[OF assms(1)] assms(2) that show ?thesis by (auto simp: option_rel_Some2)
next
  case False
  with withdrawn_other[OF assms(1) False] assms(2) show ?thesis by (intro that[of rec']) auto
qed

lemma withdrawn_none: "bin_getByEngine r i = None \<Longrightarrow> withdrawn_in i r r"
  by (simp add: withdrawn_in_def)

lemma cancelRecord_effect:
  "same_terms (bin_cancelRecord rec n) rec" "remaining (bin_cancelRecord rec n) = remaining rec"
  "\<not> is_working (bin_cancelRecord rec n)" "or_Type (bin_cancelRecord rec n) = or_Type rec"
  by (auto simp: bin_cancelRecord_def same_terms_def rec_ids_def remaining_def is_working_def status_defs)

lemma cancel_position:
  fixes n :: int
  assumes "sane_store r" "rg_byEngine r i = Some p"
  defines "r' \<equiv> put_record r p (bin_cancelRecord (rg_heap r ! p) n)"
  shows "sane_store r' \<and> withdrawn_in i r r' \<and> (\<forall>a. reserved A r' a = reserved A r a - reservation A (rg_heap r ! p) a) \<and>
    bin_getByEngine r' i = Some (bin_cancelRecord (rg_heap r ! p) n) \<and> bin_getByEngine r i = Some (rg_heap r ! p)"
proof -
  let ?rec = "rg_heap r ! p" and ?rec' = "bin_cancelRecord (rg_heap r ! p) n"
  have get: "bin_getByEngine r i = Some ?rec" using assms(2) by (simp add: bin_getByEngine_def)
  note rep = replace_record[OF sane_storeD(1)[OF assms(1)] assms(2) cancelRecord_ids[of ?rec n], folded r'_def]
  have sane': "sane ?rec'" using sane_same[OF cancelRecord_effect(1,2)] sane_storeD(2)[OF assms(1) get] by blast
  have "sane_store r'"
  proof (rule sane_storeI[OF rep(1)])
    fix e rec2 assume "bin_getByEngine r' e = Some rec2"
    then show "sane rec2" using rep(2) sane' sane_storeD(2)[OF assms(1), of e] by (auto split: if_splits)
  qed
  moreover have "withdrawn_in i r r'" using rep(2) get cancelRecord_effect[of ?rec n] by (simp add: withdrawn_in_def)
  moreover have "reserved A r' a = reserved A r a - reservation A ?rec a" for a
    using rep(3)[of A a] cancelRecord_effect(3)[of ?rec n] by (simp add: reservation_def)
  ultimately show ?thesis using rep(2) get by simp
qed

lemma covered_withdrawn:
  assumes "covered s" "sane_store r'" "withdrawn_in i (ed_registry s) r'" "ed_optMarket s' = ed_optMarket s"
    and "ed_registry s' = r'" "ed_ledger s' = Some l'" "\<And>a. reserved (assets s) r' a \<le> lk l' a"
  shows "covered s'"
  using assms(2,5-7) assets_frame[OF assms(4)] by (intro coveredI) simp_all

lemma MarkCanceled_covered:
  assumes "covered s" "0 \<le> oid"
  shows "covered (s\<lparr>ed_registry := bin_MarkCanceled (ed_registry s) oid n\<rparr>) \<and>
    withdrawn_in (bin_EngineID oid) (ed_registry s) (bin_MarkCanceled (ed_registry s) oid n)"
proof -
  let ?r = "ed_registry s"
  obtain l where c: "sane_store ?r" "ed_ledger s = Some l" "\<And>a. reserved (assets s) ?r a \<le> lk l a"
    by (rule coveredE[OF assms(1)]) blast
  note co = sane_storeD(1)[OF c(1)]
  show ?thesis
  proof (cases "map_of (rg_byOrderID ?r) oid")
    case None
    have "bin_getByEngine ?r (bin_EngineID oid) = None"
    proof (rule ccontr)
      assume "bin_getByEngine ?r (bin_EngineID oid) \<noteq> None"
      then obtain rec where "bin_getByEngine ?r (bin_EngineID oid) = Some rec" by blast
      then obtain oid' p where "tracked ?r oid' p" "bin_EngineID oid = bin_EngineID oid'"
        using getByEngine_tracked[OF co] by blast
      then have "tracked ?r oid p" using tracked_own(4)[OF co, of oid' p] assms(2) by (simp add: EngineID_inj)
      with None show False by (simp add: tracked_def)
    qed
    then show ?thesis using None assms(1) by (simp add: bin_MarkCanceled_def withdrawn_none)
  next
    case (Some p)
    have "rg_byEngine ?r (bin_EngineID oid) = Some p"
      using index_engine[OF co] tracked_own(3)[OF co, of oid p] Some by (auto simp: tracked_def)
    from cancel_position[OF c(1) this, of n] have st: "sane_store (bin_MarkCanceled ?r oid n)"
      "withdrawn_in (bin_EngineID oid) ?r (bin_MarkCanceled ?r oid n)"
      "\<And>a. reserved (assets s) (bin_MarkCanceled ?r oid n) a = reserved (assets s) ?r a - reservation (assets s) (rg_heap ?r ! p) a"
      "bin_getByEngine ?r (bin_EngineID oid) = Some (rg_heap ?r ! p)"
      using Some by (auto simp: bin_MarkCanceled_def)
    have "reserved (assets s) (bin_MarkCanceled ?r oid n) a \<le> lk l a" for a
      using c(3)[of a] st(3)[of a] reservation_nonneg[OF sane_storeD(2)[OF c(1) st(4)], of "assets s" a] by simp
    from covered_withdrawn[OF assms(1) st(1,2) _ _ _ this] c(2) st(2) show ?thesis by simp
  qed
qed

lemma unlock_remainder_effect:
  assumes "unlock_remainder s rec base quote = Some s'" "A (or_EngineSymbol rec) = (base, quote)"
    and "ed_ledger s = Some l" "sane rec" "\<And>a. part A rec (remaining rec) a \<le> lk l a"
  shows "\<exists>l'. s' = s\<lparr>ed_ledger := Some l'\<rparr> \<and>
    (\<forall>a. lk l' a = lk l a - part A rec (remaining rec) a \<and> fr l' a = fr l a + part A rec (remaining rec) a)"
proof (cases "or_Type rec = ''LIMIT''")
  case False
  then have "s' = s" using assms(1) by (simp add: unlock_remainder_def)
  with False assms(3) show ?thesis by (intro exI[of _ l]) (simp add: part_def)
next
  case True
  from assms(1) True obtain d where d: "Sub (or_OrigQty rec) (or_ExecutedQty rec) = Some d"
    by (auto simp: unlock_remainder_def bind_eq_Some_conv)
  have dv: "toBig d = remaining rec" using arith_values(2)[OF d] by (simp add: remaining_def)
  have "0 \<le> remaining rec" using assms(4) True by (simp add: sane_def)
  then consider "remaining rec = 0" | (rem) "0 < remaining rec" by fastforce
  then show ?thesis
  proof cases
    case 1
    then have "s' = s" using assms(1) d dv True by (simp add: unlock_remainder_def)
    with 1 assms(3) show ?thesis by (intro exI[of _ l]) simp
  next
    case rem
    show ?thesis
    proof (cases "or_Side rec = ''BUY''")
      case buy: True
      from assms(1,3) d dv rem True buy obtain amt l' where amt: "Mul d (or_Price rec) = Some amt"
        and l': "Unlock l quote amt = Some l'" "s' = s\<lparr>ed_ledger := Some l'\<rparr>"
        by (auto simp: unlock_remainder_def with_ledger_def bind_eq_Some_conv)
      have eq: "part A rec (remaining rec) = (\<lambda>a. if a = quote then toBig amt else 0)"
        using Mul_prod[OF amt] dv True buy assms(2) by (simp add: part_def fun_eq_iff)
      have "lk l' = (lk l)(quote := lk l quote - toBig amt) \<and> fr l' = (fr l)(quote := fr l quote + toBig amt)"
        using l'(1) release_locked[of l quote amt l'] assms(5)[of quote] eq part_nonneg[OF assms(4), of "remaining rec" A quote] rem
        by (auto simp: Unlock_def split: if_splits)
      then show ?thesis using l'(2) by (intro exI[of _ l']) (simp add: eq)
    next
      case sell: False
      from assms(1,3) d dv rem True sell obtain l' where
        l': "Unlock l base d = Some l'" "s' = s\<lparr>ed_ledger := Some l'\<rparr>"
        by (auto simp: unlock_remainder_def with_ledger_def bind_eq_Some_conv)
      have eq: "part A rec (remaining rec) = (\<lambda>a. if a = base then toBig d else 0)"
        using dv True sell assms(2) by (simp add: part_def fun_eq_iff)
      have "lk l' = (lk l)(base := lk l base - toBig d) \<and> fr l' = (fr l)(base := fr l base + toBig d)"
        using l'(1) release_locked[of l base d l'] assms(5)[of base] eq dv rem by (auto simp: Unlock_def split: if_splits)
      then show ?thesis using l'(2) by (intro exI[of _ l']) (simp add: eq)
    qed
  qed
qed

lemma reservation_part: "sane rec \<Longrightarrow> is_working rec \<or> or_Type rec = ''MARKET'' \<Longrightarrow> reservation A rec a = part A rec (remaining rec) a"
  by (auto simp: reservation_def part_def)

lemma cancel_hooks:
  assumes "covered s" "run_calls n (hooked (EvCancel x)) s = Some s'"
    and "\<And>rec. bin_getByEngine (ed_registry s) (ord_ID x) = Some rec \<Longrightarrow> is_working rec \<or> or_Type rec = ''MARKET''"
  shows "covered s' \<and> same_frame s s' \<and> withdrawn_in (ord_ID x) (ed_registry s) (ed_registry s') \<and>
    (bin_getByEngine (ed_registry s) (ord_ID x) = None \<longrightarrow> ed_ledger s' = ed_ledger s) \<and>
    (\<forall>rec l. bin_getByEngine (ed_registry s) (ord_ID x) = Some rec \<longrightarrow> ed_ledger s = Some l \<longrightarrow> (\<exists>l'. ed_ledger s' = Some l' \<and>
      (\<forall>a. lk l' a = lk l a - reservation (assets s) rec a \<and> fr l' a = fr l a + reservation (assets s) rec a)))"
proof -
  let ?i = "ord_ID x" and ?r = "ed_registry s"
  obtain l where c: "sane_store ?r" "ed_ledger s = Some l" "\<And>a. reserved (assets s) ?r a \<le> lk l a" by (rule coveredE[OF assms(1)]) blast
  from run_hooked[OF assms(2)] obtain s1 s2 where h: "registry_hook n (EvCancel x) s = Some s1"
    "stream_hook n (EvCancel x) s1 = Some s2" "ledger_hook (EvCancel x) s2 = Some s'" by metis
  note f2 = stream_frame[OF h(2)]
  have s1: "s1 = s\<lparr>ed_registry := bin_OnCancel (Some x) n ?r\<rparr>" using h(1) by (simp add: registry_hook_def)
  have s2: "ed_registry s2 = bin_OnCancel (Some x) n ?r" "ed_ledger s2 = Some l" "same_frame s s2"
    using f2 s1 c(2) by (simp_all add: same_frame_def)
  have opt: "isOptionSym s2 = isOptionSym s" "optionAssets s2 = optionAssets s"
    using s2(3) isOptionSym_frame[of s2 s] optionAssets_frame[of s2 s] by (simp_all add: same_frame_def)
  show ?thesis
  proof (cases "rg_byEngine ?r ?i")
    case None
    then have same: "bin_OnCancel (Some x) n ?r = ?r" by (simp add: bin_OnCancel_def)
    have none: "bin_getByEngine ?r ?i = None" using None by (simp add: bin_getByEngine_def)
    then have "s' = s2" using h(3) s2(1) same
      by (auto simp: ledger_hook_def unlockRemainder_def unlockOptionRemainder_def split: if_splits)
    then show ?thesis
      using covered_withdrawn[OF assms(1) c(1) withdrawn_none[OF none], of s2 l] s2 same c(2,3) withdrawn_none[OF none]
      by (simp add: same_frame_def none)
  next
    case (Some p)
    let ?rec = "rg_heap ?r ! p" and ?rec' = "bin_cancelRecord (rg_heap ?r ! p) n"
    note pos = cancel_position[OF c(1) Some, of n]
    have edge: "isEdgeOrder ?i" using getByEngine_prefix(1)[OF sane_storeD(1)[OF c(1)]] pos by blast
    have r': "ed_registry s2 = put_record ?r p ?rec'"
      using s2(1) Some edge by (simp add: bin_OnCancel_def isEdgeOrder_def)
    note st = pos[folded r']
    have get: "bin_getByEngine ?r ?i = Some ?rec" and get': "bin_getByEngine (ed_registry s2) ?i = Some ?rec'" using st by blast+
    note eff = cancelRecord_effect[of ?rec n]
    have san: "sane ?rec" using sane_storeD(2)[OF c(1) get] .
    have sym: "or_EngineSymbol ?rec' = or_EngineSymbol ?rec" "or_Side ?rec' = or_Side ?rec"
      "or_Type ?rec' = or_Type ?rec" "or_Price ?rec' = or_Price ?rec" using eff(1) by (simp_all add: same_terms_def)
    obtain base quote where bq: "assets s (or_EngineSymbol ?rec) = (base, quote)" by fastforce
    have un: "unlock_remainder s2 ?rec' base quote = Some s'"
      using h(3) edge get' s2(2) opt sym bq
      by (auto simp: ledger_hook_def option_order_def unlockRemainder_def unlockOptionRemainder_def assets_def split: if_splits prod.splits)
    have res: "part (assets s) ?rec' (remaining ?rec') a = reservation (assets s) ?rec a" for a
      using reservation_part[OF san assms(3)[OF get], of "assets s" a] part_same[OF eff(1)] eff(2) by simp
    have stored: "sane_store (ed_registry s2)" "withdrawn_in ?i ?r (ed_registry s2)"
      "\<And>a. reserved (assets s) (ed_registry s2) a = reserved (assets s) ?r a - reservation (assets s) ?rec a" using st by blast+
    have "part (assets s) ?rec' (remaining ?rec') a \<le> lk l a" for a
      using stored(3)[of a] sane_reserved[OF stored(1), of "assets s" a] c(3)[of a] res[of a] by linarith
    from unlock_remainder_effect[OF un _ s2(2) sane_same[OF eff(1,2) san] this] sym bq
    have "\<exists>l'. s' = s2\<lparr>ed_ledger := Some l'\<rparr> \<and> (\<forall>a. lk l' a = lk l a - reservation (assets s) ?rec a \<and> fr l' a = fr l a + reservation (assets s) ?rec a)" by (simp add: res)
    then obtain l' where l': "s' = s2\<lparr>ed_ledger := Some l'\<rparr>" "\<And>a. lk l' a = lk l a - reservation (assets s) ?rec a"
      "\<And>a. fr l' a = fr l a + reservation (assets s) ?rec a" by blast
    have "reserved (assets s) (ed_registry s2) a \<le> lk l' a" for a using stored(3)[of a] c(3)[of a] l'(2)[of a] by linarith
    then have "covered s'"
      using covered_withdrawn[OF assms(1) stored(1,2), of s' l'] l'(1) s2(3) by (simp add: same_frame_def)
    then show ?thesis using l' s2(3) stored(2) get c(2) by (simp add: same_frame_def)
  qed
qed

end
