(* ===== verification/EdgeMatching.thy ===== *)
theory EdgeMatching
  imports EdgeReservations
begin

text \<open>
  The order store of the Binance edge and the book: every live order of the edge has a record with the volume
  that is left of it, and every working record of a limit order is live (\<open>agree\<close>). One trade and a whole
  run of the matching loop, played through the hooks, keep that and the coverage of the balances.
\<close>

subsection \<open>The store and the book\<close>

text \<open>The record of a live order, and the live orders of an instrument: those at rest and the incoming one.\<close>

definition twin :: "order_record \<Rightarrow> order \<Rightarrow> bool" where
  "twin rec x \<longleftrightarrow> or_Type rec = ''LIMIT'' \<and> is_working rec \<and> remaining rec = vol x \<and>
     or_EngineSymbol rec = ord_Instrument x \<and> (or_Side rec = ''BUY'' \<longleftrightarrow> ord_Side x = SideBuy)"

abbreviation edge_ids :: "order list \<Rightarrow> string list" where
  "edge_ids L \<equiv> filter isEdgeOrder (map ord_ID L)"

definition agree :: "registry \<Rightarrow> string \<Rightarrow> order list \<Rightarrow> bool" where
  "agree r inst L \<longleftrightarrow> distinct (edge_ids L) \<and>
     (\<forall>x\<in>set L. isEdgeOrder (ord_ID x) \<longrightarrow> ord_Instrument x = inst \<and>
        (\<exists>rec. bin_getByEngine r (ord_ID x) = Some rec \<and> twin rec x)) \<and>
     (\<forall>e rec. bin_getByEngine r e = Some rec \<longrightarrow> or_Type rec = ''LIMIT'' \<longrightarrow> is_working rec \<longrightarrow>
        or_EngineSymbol rec = inst \<longrightarrow> e \<in> ord_ID ` set L)"

lemma agreeI:
  assumes "distinct (edge_ids L)"
    and "\<And>x. x \<in> set L \<Longrightarrow> isEdgeOrder (ord_ID x) \<Longrightarrow>
      ord_Instrument x = inst \<and> (\<exists>rec. bin_getByEngine r (ord_ID x) = Some rec \<and> twin rec x)"
    and "\<And>e rec. bin_getByEngine r e = Some rec \<Longrightarrow> or_Type rec = ''LIMIT'' \<Longrightarrow> is_working rec \<Longrightarrow>
      or_EngineSymbol rec = inst \<Longrightarrow> e \<in> ord_ID ` set L"
  shows "agree r inst L"
  using assms unfolding agree_def by blast

lemma agree_distinct: "agree r inst L \<Longrightarrow> distinct (edge_ids L)"
  unfolding agree_def by blast

lemma agree_twin:
  assumes "agree r inst L" "x \<in> set L" "isEdgeOrder (ord_ID x)"
  obtains rec where "ord_Instrument x = inst" "bin_getByEngine r (ord_ID x) = Some rec" "twin rec x"
  using assms unfolding agree_def by blast

lemma agree_live:
  assumes "agree r inst L" "bin_getByEngine r e = Some rec" "or_Type rec = ''LIMIT''" "is_working rec" "or_EngineSymbol rec = inst"
  obtains x where "x \<in> set L" "ord_ID x = e"
  using assms unfolding agree_def by blast

lemma agree_mset:
  assumes "mset L = mset L'"
  shows "agree r inst L = agree r inst L'"
proof -
  have "mset (edge_ids L) = mset (edge_ids L')" using assms by simp
  then have "distinct (edge_ids L) = distinct (edge_ids L')" by (rule mset_eq_imp_distinct_iff)
  moreover have "set L = set L'" using assms by (metis set_mset_mset)
  ultimately show ?thesis by (simp only: agree_def)
qed

text \<open>A fill of some of the live orders.\<close>

lemma agree_fill:
  assumes agr: "agree r inst L" and co: "coherent_reg r" and f: "filled_by S v r r'"
    and lim: "\<And>e rec. e \<in> S \<Longrightarrow> bin_getByEngine r e = Some rec \<Longrightarrow> or_Type rec = ''LIMIT'' \<Longrightarrow> is_working rec"
    and d: "distinct (edge_ids L')"
    and new: "\<And>y. y \<in> set L' \<Longrightarrow> isEdgeOrder (ord_ID y) \<Longrightarrow> \<exists>x\<in>set L. ord_ID y = ord_ID x \<and> ord_Instrument y = ord_Instrument x \<and>
      ord_Side y = ord_Side x \<and> (if ord_ID y \<in> S then 0 < vol y \<and> vol y = vol x - v else vol y = vol x)"
    and old: "\<And>x. x \<in> set L \<Longrightarrow> isEdgeOrder (ord_ID x) \<Longrightarrow> ord_ID x \<in> ord_ID ` set L' \<or> ord_ID x \<in> S \<and> vol x \<le> v"
  shows "agree r' inst L'"
proof (rule agreeI[OF d])
  fix y assume y: "y \<in> set L'" "isEdgeOrder (ord_ID y)"
  from new[OF y] obtain x where x: "x \<in> set L" "ord_ID y = ord_ID x" "ord_Instrument y = ord_Instrument x"
    "ord_Side y = ord_Side x" "if ord_ID y \<in> S then 0 < vol y \<and> vol y = vol x - v else vol y = vol x" by blast
  from agree_twin[OF agr x(1)] x(2) y(2) obtain rec where rec: "ord_Instrument x = inst"
    "bin_getByEngine r (ord_ID x) = Some rec" "twin rec x" by metis
  from filled_by_Some[OF f rec(2)] obtain rec' where rec': "bin_getByEngine r' (ord_ID x) = Some rec'"
    "same_terms rec' rec" "ord_ID x \<in> S \<Longrightarrow> filled v rec rec'" by metis
  have "twin rec' y"
  proof (cases "ord_ID x \<in> S")
    case True
    then show ?thesis using rec'(3) rec(3) x by (simp add: twin_def filled_def same_terms_def)
  next
    case False
    then have "rec' = rec" using filled_by_other[OF f False] rec(2) rec'(1) by simp
    then show ?thesis using rec(3) x False by (simp add: twin_def)
  qed
  then show "ord_Instrument y = inst \<and> (\<exists>rec. bin_getByEngine r' (ord_ID y) = Some rec \<and> twin rec y)"
    using rec(1) rec'(1) x(2,3) by simp
next
  fix e rec' assume e: "bin_getByEngine r' e = Some rec'" "or_Type rec' = ''LIMIT''" "is_working rec'" "or_EngineSymbol rec' = inst"
  from filled_by_back[OF f e(1)] obtain rec where rec: "bin_getByEngine r e = Some rec" "same_terms rec' rec"
    "e \<in> S \<Longrightarrow> filled v rec rec'" by metis
  have terms: "or_Type rec = ''LIMIT''" "or_EngineSymbol rec = inst" using rec(2) e by (simp_all add: same_terms_def)
  have work: "is_working rec"
  proof (cases "e \<in> S")
    case True
    then show ?thesis using lim rec(1) terms(1) by blast
  next
    case False
    then show ?thesis using filled_by_other[OF f False] rec(1) e(1,3) by simp
  qed
  from agree_live[OF agr rec(1) terms(1) work terms(2)] obtain x where x: "x \<in> set L" "ord_ID x = e" by blast
  have edge: "isEdgeOrder e" using getByEngine_prefix(1)[OF co rec(1)] .
  from agree_twin[OF agr x(1)] edge x(2) rec(1) have "twin rec x" by (metis option.inject)
  then have "vol x = remaining rec" by (simp add: twin_def)
  moreover have "0 < remaining rec'" if "e \<in> S" using rec(3)[OF that] work e(3) by (simp add: filled_def)
  ultimately have "\<not> (e \<in> S \<and> vol x \<le> v)" using rec(3) by (auto simp: filled_def)
  then show "e \<in> ord_ID ` set L'" using old[OF x(1)] edge x(2) by auto
qed

text \<open>Records of other instruments stay as they are.\<close>

definition untouched :: "string \<Rightarrow> registry \<Rightarrow> registry \<Rightarrow> bool" where
  "untouched inst r r' \<longleftrightarrow> (\<forall>e. bin_getByEngine r' e = bin_getByEngine r e \<or>
     (\<exists>rec rec'. bin_getByEngine r e = Some rec \<and> bin_getByEngine r' e = Some rec' \<and>
        or_EngineSymbol rec = inst \<and> or_EngineSymbol rec' = inst))"

lemma untouched_refl [simp]: "untouched inst r r"
  by (simp add: untouched_def)

lemma untouched_trans:
  assumes "untouched inst r r1" "untouched inst r1 r2"
  shows "untouched inst r r2"
  unfolding untouched_def
proof
  fix e
  show "bin_getByEngine r2 e = bin_getByEngine r e \<or> (\<exists>rec rec'. bin_getByEngine r e = Some rec \<and>
      bin_getByEngine r2 e = Some rec' \<and> or_EngineSymbol rec = inst \<and> or_EngineSymbol rec' = inst)"
    using assms[unfolded untouched_def, THEN spec[of _ e]] by (metis option.inject)
qed

lemma untouched_agree:
  assumes "untouched inst r r'" "agree r inst2 L" "inst2 \<noteq> inst"
  shows "agree r' inst2 L"
proof (rule agreeI)
  note u = assms(1)[unfolded untouched_def, rule_format]
  show "distinct (edge_ids L)" using agree_distinct[OF assms(2)] .
  fix x assume x: "x \<in> set L" "isEdgeOrder (ord_ID x)"
  from agree_twin[OF assms(2) x] obtain rec where rec: "ord_Instrument x = inst2" "bin_getByEngine r (ord_ID x) = Some rec" "twin rec x"
    by metis
  then have "bin_getByEngine r' (ord_ID x) = Some rec" using u[of "ord_ID x"] assms(3) by (auto simp: twin_def)
  then show "ord_Instrument x = inst2 \<and> (\<exists>rec. bin_getByEngine r' (ord_ID x) = Some rec \<and> twin rec x)" using rec by blast
next
  note u = assms(1)[unfolded untouched_def, rule_format]
  fix e rec assume e: "bin_getByEngine r' e = Some rec" "or_Type rec = ''LIMIT''" "is_working rec" "or_EngineSymbol rec = inst2"
  then have "bin_getByEngine r e = Some rec" using u[of e] assms(3) by auto
  from agree_live[OF assms(2) this e(2-4)] show "e \<in> ord_ID ` set L" by blast
qed

lemma filled_untouched:
  assumes "filled_by S v r r'" "\<And>e rec. e \<in> S \<Longrightarrow> bin_getByEngine r e = Some rec \<Longrightarrow> or_EngineSymbol rec = inst"
  shows "untouched inst r r'"
  unfolding untouched_def
proof
  fix e
  show "bin_getByEngine r' e = bin_getByEngine r e \<or> (\<exists>rec rec'. bin_getByEngine r e = Some rec \<and>
      bin_getByEngine r' e = Some rec' \<and> or_EngineSymbol rec = inst \<and> or_EngineSymbol rec' = inst)"
  proof (cases "bin_getByEngine r e")
    case None
    then show ?thesis using filled_by_None[OF assms(1), of e] by simp
  next
    case (Some rec)
    from filled_by_Some[OF assms(1) Some] obtain rec' where rec': "bin_getByEngine r' e = Some rec'" "same_terms rec' rec"
      by metis
    show ?thesis
    proof (cases "e \<in> S")
      case True
      then show ?thesis using Some rec' assms(2)[OF True Some] by (simp add: same_terms_def)
    next
      case False
      then show ?thesis using filled_by_other[OF assms(1) False] by simp
    qed
  qed
qed

text \<open>An order that comes in: it is live while it has volume, unless it is a market order, whose record says so.\<close>

definition live :: "order \<Rightarrow> order list" where
  "live x = (if ord_IsMarket x \<or> vol x \<le> 0 then [] else [x])"

definition taker_ok :: "registry \<Rightarrow> string \<Rightarrow> order \<Rightarrow> bool" where
  "taker_ok r inst x \<longleftrightarrow> (\<forall>rec. bin_getByEngine r (ord_ID x) = Some rec \<longrightarrow>
     or_EngineSymbol rec = inst \<and> (ord_IsMarket x \<longrightarrow> or_Type rec = ''MARKET''))"

lemma taker_filled:
  assumes "filled_by S v r r'" "taker_ok r inst x" "ord_ID y = ord_ID x" "ord_IsMarket y = ord_IsMarket x"
  shows "taker_ok r' inst y"
  unfolding taker_ok_def
proof (intro allI impI)
  fix rec' assume "bin_getByEngine r' (ord_ID y) = Some rec'"
  from filled_by_back[OF assms(1) this] obtain rec where "bin_getByEngine r (ord_ID y) = Some rec" "same_terms rec' rec" by metis
  with assms(2-4) show "or_EngineSymbol rec' = inst \<and> (ord_IsMarket y \<longrightarrow> or_Type rec' = ''MARKET'')"
    by (auto simp: taker_ok_def same_terms_def)
qed

subsection \<open>Matching keeps the store, the book and the ledger together\<close>

definition together :: "string \<Rightarrow> order list \<Rightarrow> edge \<Rightarrow> bool" where
  "together inst L s \<longleftrightarrow> covered s \<and> agree (ed_registry s) inst L"

text \<open>One trade of an incoming order with the head of the queue; \<open>M\<close> are the other live orders.\<close>

lemma live_ids: "set (live x) \<subseteq> {x}"
  by (simp add: live_def)

lemma trade_parties:
  assumes agr: "agree r inst (live inc @ x # M)" and co: "coherent_reg r" and tk: "taker_ok r inst inc"
    and v: "0 < vol inc" "v \<le> vol inc" "v \<le> vol x" and sides: "ord_Side x = SideBuy \<longleftrightarrow> ord_Side inc \<noteq> SideBuy"
  shows "ord_ID inc = ord_ID x \<Longrightarrow> bin_getByEngine r (ord_ID inc) = None"
    "bin_getByEngine r (ord_ID x) = Some rec \<Longrightarrow> fillable rec (ord_Side x = SideBuy) v \<and> or_EngineSymbol rec = inst \<and> or_Type rec = ''LIMIT''"
    "bin_getByEngine r (ord_ID inc) = Some rec \<Longrightarrow> fillable rec (ord_Side inc = SideBuy) v \<and> or_EngineSymbol rec = inst"
proof -
  have twin_fits: "fillable rec (ord_Side y = SideBuy) v \<and> or_Type rec = ''LIMIT'' \<and> or_EngineSymbol rec = inst"
    if "y \<in> set (live inc @ x # M)" "v \<le> vol y" "bin_getByEngine r (ord_ID y) = Some rec" for y rec
  proof -
    from agree_twin[OF agr that(1) getByEngine_prefix(1)[OF co that(3)]] that(3) have "ord_Instrument y = inst" "twin rec y" by auto
    with that(2) show ?thesis by (auto simp: twin_def fillable_def)
  qed
  show x: "bin_getByEngine r (ord_ID x) = Some rec \<Longrightarrow> fillable rec (ord_Side x = SideBuy) v \<and> or_EngineSymbol rec = inst \<and> or_Type rec = ''LIMIT''" for rec
    using twin_fits[of x rec] v(3) by simp
  show "bin_getByEngine r (ord_ID inc) = Some rec \<Longrightarrow> fillable rec (ord_Side inc = SideBuy) v \<and> or_EngineSymbol rec = inst"
  proof (cases "ord_IsMarket inc")
    case True
    then show "bin_getByEngine r (ord_ID inc) = Some rec \<Longrightarrow> ?thesis" using tk by (simp add: taker_ok_def fillable_def)
  next
    case False
    then show "bin_getByEngine r (ord_ID inc) = Some rec \<Longrightarrow> ?thesis" using twin_fits[of inc rec] v by (simp add: live_def)
  qed
  show "bin_getByEngine r (ord_ID inc) = None" if same: "ord_ID inc = ord_ID x"
  proof (rule ccontr)
    assume "bin_getByEngine r (ord_ID inc) \<noteq> None"
    then obtain rec where rec: "bin_getByEngine r (ord_ID inc) = Some rec" by blast
    then have "or_Type rec = ''LIMIT''" using x[of rec] same by simp
    then have "\<not> ord_IsMarket inc" using tk rec by (auto simp: taker_ok_def)
    then have "\<not> distinct (edge_ids (live inc @ x # M))"
      using v(1) same getByEngine_prefix(1)[OF co rec] by (simp add: live_def)
    then show False using agree_distinct[OF agr] by blast
  qed
qed

lemma trade_together:
  assumes tog: "together inst (live inc @ x # M) s" and tk: "taker_ok (ed_registry s) inst inc"
    and v: "0 < toBig v" "toBig v \<le> vol inc" "toBig v \<le> vol x" and sides: "ord_Side x = SideBuy \<longleftrightarrow> ord_Side inc \<noteq> SideBuy"
    and left: "toBig vi = vol inc - toBig v" "toBig vx = vol x - toBig v"
    and X: "X = (if toBig vx = 0 then [] else [x\<lparr>ord_Volume := vx\<rparr>])"
    and run: "run_calls n (hooked (EvTrade (mk_trade inc x v t))) s = Some s1"
  shows "together inst (live (inc\<lparr>ord_Volume := vi\<rparr>) @ X @ M) s1 \<and> same_frame s s1 \<and>
    taker_ok (ed_registry s1) inst (inc\<lparr>ord_Volume := vi\<rparr>) \<and> untouched inst (ed_registry s) (ed_registry s1)"
proof -
  let ?r = "ed_registry s" and ?S = "{ord_ID inc, ord_ID x}" and ?t = "mk_trade inc x v t" and ?inc = "inc\<lparr>ord_Volume := vi\<rparr>"
  from tog have cov: "covered s" and agr: "agree ?r inst (live inc @ x # M)" by (simp_all add: together_def)
  have co: "coherent_reg ?r" using cov by (meson coveredE sane_storeD(1))
  note pt = trade_parties[OF agr co tk _ v(2,3) sides]
  have pos: "0 < vol inc" using v by simp
  have ids: "{tr_BuyOrderID ?t, tr_SellOrderID ?t} = ?S" by (auto simp: mk_trade_def)
  have "trade_fits ?r ?t"
    unfolding trade_fits_def using v(1) pt[OF pos] sides by (auto simp: mk_trade_def split: if_splits)
  from trade_hooks[OF cov this run] have cov1: "covered s1" and fr: "same_frame s s1"
    and f: "filled_by ?S (toBig v) ?r (ed_registry s1)" unfolding ids by simp_all
  have "agree (ed_registry s1) inst (live ?inc @ X @ M)"
  proof (rule agree_fill[OF agr co f])
    show "is_working rec" if "e \<in> ?S" "bin_getByEngine ?r e = Some rec" "or_Type rec = ''LIMIT''" for e rec
      using that pt(2,3)[OF pos, of rec] by (auto simp: fillable_def)
    have "map ord_ID (live ?inc) = [] \<or> map ord_ID (live ?inc) = map ord_ID (live inc)"
      using pos by (simp add: live_def)
    moreover have "map ord_ID X = [] \<or> map ord_ID X = [ord_ID x]" by (simp add: X)
    ultimately show "distinct (edge_ids (live ?inc @ X @ M))"
      using agree_distinct[OF agr] unfolding map_append list.map filter_append by (elim disjE; simp split: if_splits)
    have other: "ord_ID y \<notin> ?S" if "y \<in> set M" "isEdgeOrder (ord_ID y)" for y
    proof
      assume "ord_ID y \<in> ?S"
      moreover have "ord_ID y \<noteq> ord_ID x"
      proof
        assume same: "ord_ID y = ord_ID x"
        then have "ord_ID x \<in> set (edge_ids M)" using that unfolding same[symmetric] by simp
        then show False using agree_distinct[OF agr] same that(2) by auto
      qed
      ultimately have same: "ord_ID y = ord_ID inc" by simp
      from agree_twin[OF agr _ that(2)] that(1) obtain rec where rec: "bin_getByEngine ?r (ord_ID y) = Some rec" "twin rec y" by auto
      then have "\<not> ord_IsMarket inc" using tk same by (auto simp: taker_ok_def twin_def)
      moreover have "ord_ID inc \<in> set (edge_ids M)" using that unfolding same[symmetric] by simp
      ultimately show False using agree_distinct[OF agr] that same pos by (simp add: live_def split: if_splits)
    qed
    show "\<exists>x'\<in>set (live inc @ x # M). ord_ID y = ord_ID x' \<and> ord_Instrument y = ord_Instrument x' \<and>
        ord_Side y = ord_Side x' \<and> (if ord_ID y \<in> ?S then 0 < vol y \<and> vol y = vol x' - toBig v else vol y = vol x')"
      if y: "y \<in> set (live ?inc @ X @ M)" "isEdgeOrder (ord_ID y)" for y
    proof -
      from y(1) consider (i) "y = ?inc" "\<not> ord_IsMarket inc" "0 < toBig vi" | (x) "y = x\<lparr>ord_Volume := vx\<rparr>" "toBig vx \<noteq> 0" | (m) "y \<in> set M"
        by (auto simp: live_def X split: if_splits)
      then show ?thesis
      proof cases
        case i
        then show ?thesis using left(1) pos by (intro bexI[of _ inc]) (auto simp: live_def)
      next
        case x
        then show ?thesis using left(2) v by (intro bexI[of _ x]) auto
      next
        case m
        then show ?thesis using other[OF m y(2)] by (intro bexI[of _ y]) auto
      qed
    qed
    show "ord_ID y \<in> ord_ID ` set (live ?inc @ X @ M) \<or> ord_ID y \<in> ?S \<and> vol y \<le> toBig v"
      if y: "y \<in> set (live inc @ x # M)" "isEdgeOrder (ord_ID y)" for y
      using y left v by (auto simp: live_def X split: if_splits)
  qed
  moreover have "untouched inst ?r (ed_registry s1)"
    using filled_untouched[OF f] pt(2,3)[OF pos] by blast
  ultimately show ?thesis using cov1 fr taker_filled[OF f tk, of ?inc] by (simp add: together_def)
qed

lemma match_together:
  "match_run now k inc q inc' q' ts \<Longrightarrow> together inst (live inc @ q @ M) s \<Longrightarrow> taker_ok (ed_registry s) inst inc \<Longrightarrow>
    positive q \<Longrightarrow> (\<forall>x\<in>set q. ord_Side x = SideBuy \<longleftrightarrow> ord_Side inc \<noteq> SideBuy) \<Longrightarrow>
    run_calls n (concat (map (\<lambda>t. hooked (EvTrade t)) ts)) s = Some s' \<Longrightarrow>
    together inst (live inc' @ q' @ M) s' \<and> same_frame s s' \<and> untouched inst (ed_registry s) (ed_registry s')"
proof (induction arbitrary: s rule: match_run.induct)
  case (stop inc q k)
  then show ?case by simp
next
  case (fill inc x v k rest inc' q' ts)
  from fill.prems(5) obtain s1 where s1: "run_calls n (hooked (EvTrade (mk_trade inc x (ord_Volume x) (now k)))) s = Some s1"
    "run_calls n (concat (map (\<lambda>t. hooked (EvTrade t)) ts)) s1 = Some s'"
    unfolding list.map concat.simps run_calls_append bind_eq_Some_conv by blast
  have "together inst (live (inc\<lparr>ord_Volume := v\<rparr>) @ [] @ rest @ M) s1 \<and> same_frame s s1 \<and>
      taker_ok (ed_registry s1) inst (inc\<lparr>ord_Volume := v\<rparr>) \<and> untouched inst (ed_registry s) (ed_registry s1)"
    by (rule trade_together[OF _ fill.prems(2) _ _ _ _ _ _ _ s1(1), of "rest @ M" v Zero]) (use fill in auto)
  moreover from this have "together inst (live inc' @ q' @ M) s' \<and> same_frame s1 s' \<and> untouched inst (ed_registry s1) (ed_registry s')"
    using fill.prems by (intro fill.IH[OF _ _ _ _ s1(2)]) auto
  ultimately show ?case using same_frame_trans untouched_trans by blast
next
  case (partial inc x w k rest)
  have run: "run_calls n (hooked (EvTrade (mk_trade inc x (ord_Volume inc) (now k)))) s = Some s'" using partial.prems(5) by simp
  have "together inst (live (inc\<lparr>ord_Volume := Zero\<rparr>) @ [x\<lparr>ord_Volume := w\<rparr>] @ rest @ M) s' \<and> same_frame s s' \<and>
      taker_ok (ed_registry s') inst (inc\<lparr>ord_Volume := Zero\<rparr>) \<and> untouched inst (ed_registry s) (ed_registry s')"
    by (rule trade_together[OF _ partial.prems(2) _ _ _ _ _ _ _ run, of "rest @ M" Zero w]) (use partial in auto)
  then show ?case by simp
qed

text \<open>Hooks with other numbers do nothing here.\<close>

abbreviation ours :: "(nat \<times> hook_event) list \<Rightarrow> (nat \<times> hook_event) list" where
  "ours \<equiv> filter (\<lambda>(h, ev). h < 3)"

lemma run_calls_ours: "run_calls n cs s = run_calls n (ours cs) s"
  by (induction n cs s rule: run_calls.induct) (auto simp: run_hook_def split: Option.bind_splits)

definition attached :: "order_book \<Rightarrow> bool" where
  "attached b \<longleftrightarrow> filter (\<lambda>h. h < 3) (ob_hooks b) = [0, 1, 2]"

lemma ours_event: "attached b \<Longrightarrow> ours (map (\<lambda>h. (h, ev)) (ob_hooks b)) = hooked ev"
proof -
  have "ours (map (\<lambda>h. (h, ev)) hs) = map (\<lambda>h. (h, ev)) (filter (\<lambda>h. h < 3) hs)" for hs
    by (induction hs) auto
  then show "attached b \<Longrightarrow> ?thesis" by (simp add: attached_def)
qed

lemma ours_trades: "attached b \<Longrightarrow>
    ours (concat (map (\<lambda>t. map (\<lambda>h. (h, EvTrade t)) (ob_hooks b)) ts)) = concat (map (\<lambda>t. hooked (EvTrade t)) ts)"
  using ours_event[of b] by (induction ts) auto

end
