(* ===== verification/EdgeInvariant.thy ===== *)
theory EdgeInvariant
  imports EdgeMatching
begin

text \<open>
  The Binance edge in operation: the invariant of the edge between requests (\<open>edge_inv\<close>), and that every
  request, every order and cancellation of other clients of the engine and every transfer keeps it
  (\<open>edge_step\<close>, \<open>operated_inv\<close>).
\<close>

subsection \<open>The invariant\<close>

definition edge_inv :: "edge \<Rightarrow> bool" where
  "edge_inv s \<longleftrightarrow> covered s \<and> wf_book (en_book (ed_engine s)) \<and> attached (en_book (ed_engine s)) \<and>
     (\<forall>inst. agree (ed_registry s) inst (OpenOrders (en_book (ed_engine s)) inst)) \<and>
     (\<forall>sm e. ToEngine (ed_symbols s) sm = Some e \<longrightarrow> \<not> isOptionSym s e)"

lemma edge_invI:
  assumes "covered s" "wf_book (en_book (ed_engine s))" "attached (en_book (ed_engine s))"
    and "\<And>inst. agree (ed_registry s) inst (OpenOrders (en_book (ed_engine s)) inst)"
    and "\<And>sm e. ToEngine (ed_symbols s) sm = Some e \<Longrightarrow> \<not> isOptionSym s e"
  shows "edge_inv s"
  using assms unfolding edge_inv_def by blast

lemma edge_invD:
  assumes "edge_inv s"
  shows "covered s" "wf_book (en_book (ed_engine s))" "attached (en_book (ed_engine s))"
    "agree (ed_registry s) inst (OpenOrders (en_book (ed_engine s)) inst)"
    "ToEngine (ed_symbols s) sm = Some e \<Longrightarrow> \<not> isOptionSym s e"
  using assms unfolding edge_inv_def by blast+

lemma OpenOrders_known: "ob_instruments b inst = Some ib \<Longrightarrow> OpenOrders b inst = ib_bids ib @ ib_asks ib"
  by (simp add: OpenOrders_def lookup_def)

lemma OpenOrders_other: "ob_instruments b' inst = ob_instruments b inst \<Longrightarrow> OpenOrders b' inst = OpenOrders b inst"
  by (simp add: OpenOrders_def lookup_def)

text \<open>The invariant with an order on its way to the book: \<open>L\<close> is the order while it is live.\<close>

definition edge_with :: "string \<Rightarrow> order list \<Rightarrow> edge \<Rightarrow> bool" where
  "edge_with inst L s \<longleftrightarrow> covered s \<and> wf_book (en_book (ed_engine s)) \<and> attached (en_book (ed_engine s)) \<and>
     (\<forall>inst2. agree (ed_registry s) inst2 ((if inst2 = inst then L else []) @ OpenOrders (en_book (ed_engine s)) inst2)) \<and>
     (\<forall>sm e. ToEngine (ed_symbols s) sm = Some e \<longrightarrow> \<not> isOptionSym s e)"

lemma edge_with_nil: "edge_with inst [] s \<longleftrightarrow> edge_inv s"
  by (simp add: edge_with_def edge_inv_def)

lemma edge_withD:
  assumes "edge_with inst L s"
  shows "covered s" "wf_book (en_book (ed_engine s))" "attached (en_book (ed_engine s))"
    "agree (ed_registry s) inst (L @ OpenOrders (en_book (ed_engine s)) inst)"
    "inst2 \<noteq> inst \<Longrightarrow> agree (ed_registry s) inst2 (OpenOrders (en_book (ed_engine s)) inst2)"
    "ToEngine (ed_symbols s) sm = Some e \<Longrightarrow> \<not> isOptionSym s e"
  using assms unfolding edge_with_def by (metis append_Nil)+

lemma covered_engine [simp]: "covered (s\<lparr>ed_engine := e\<rparr>) = covered s"
  by (simp add: covered_def)

lemma engine_ran_ours: "engine_ran n e s =
    run_calls n (ours (drop (length (ob_calls (en_book (ed_engine s)))) (ob_calls (en_book e)))) (s\<lparr>ed_engine := e\<rparr>)"
  by (simp add: engine_ran_def run_calls_ours[symmetric])

text \<open>The state after matching: what the engine did to the book, and what the hooks did to the edge.\<close>

lemma matched_edge:
  assumes inv: "edge_with inst (live ord) s" and inst: "inst = ord_Instrument ord"
    and tk: "taker_ok (ed_registry s) inst ord"
    and b: "b = en_book (ed_engine s)" and ib: "ob_instruments b inst = Some ib"
    and run: "match_run now k ord (opposite_queue ib (ord_Side ord)) ord' q' ts"
    and ib': "ib_bids ib' = (if ord_Side ord = SideBuy then ib_bids ib else q')"
      "ib_asks ib' = (if ord_Side ord = SideBuy then q' else ib_asks ib)"
    and fin: "\<And>r. coherent_reg r \<Longrightarrow> agree r inst (live ord' @ ib_bids ib' @ ib_asks ib') \<Longrightarrow>
        agree r inst (ib_bids ibf @ ib_asks ibf)" "wf_ib ibf"
    and b': "b' = commit b inst ibf ts" and eng: "en_book e' = b'"
    and step: "engine_ran n e' s = Some s'"
  shows "edge_inv s'"
proof -
  let ?own = "if ord_Side ord = SideBuy then ib_bids ib else ib_asks ib" and ?opp = "opposite_queue ib (ord_Side ord)"
  note D = edge_withD[OF inv]
  have wf: "wf_ib ib" using D(2) ib b by (auto simp: wf_book_def)
  have "mset (live ord @ OpenOrders b inst) = mset (live ord @ ?opp @ ?own)"
    using OpenOrders_known[OF ib] by (simp add: opposite_queue_def)
  from agree_mset[OF this] D(1,4) b have tog: "together inst (live ord @ ?opp @ ?own) (s\<lparr>ed_engine := e'\<rparr>)"
    by (simp add: together_def)
  have "drop (length (ob_calls b)) (ob_calls b') = concat (map (\<lambda>t. map (\<lambda>h. (h, EvTrade t)) (ob_hooks b)) ts)"
    by (simp add: b' commit_calls)
  then have calls: "run_calls n (concat (map (\<lambda>t. hooked (EvTrade t)) ts)) (s\<lparr>ed_engine := e'\<rparr>) = Some s'"
    using step ours_trades[of b ts] D(3) b eng by (simp add: engine_ran_ours)
  have "positive ?opp" "\<forall>x\<in>set ?opp. ord_Side x = SideBuy \<longleftrightarrow> ord_Side ord \<noteq> SideBuy"
    using wf by (auto simp: opposite_queue_def wf_ib_def wf_side_def)
  from match_together[OF run tog _ this calls] tk have m: "together inst (live ord' @ q' @ ?own) s'"
    "same_frame (s\<lparr>ed_engine := e'\<rparr>) s'" "untouched inst (ed_registry s) (ed_registry s')" by auto
  have fr: "ed_engine s' = e'" "ed_symbols s' = ed_symbols s" "ed_optMarket s' = ed_optMarket s"
    using m(2) by (simp_all add: same_frame_def)
  show ?thesis
  proof (rule edge_invI)
    show "covered s'" using m(1) by (simp add: together_def)
    show "wf_book (en_book (ed_engine s'))" using D(2) fin(2) b fr(1) eng b' by (simp add: wf_book_def)
    show "attached (en_book (ed_engine s'))" using D(3) b fr(1) eng b' by (simp add: attached_def)
    show "\<not> isOptionSym s' e" if "ToEngine (ed_symbols s') sm = Some e" for sm e
      using D(6) that fr isOptionSym_frame[of s' s] by simp
    fix inst2
    show "agree (ed_registry s') inst2 (OpenOrders (en_book (ed_engine s')) inst2)"
    proof (cases "inst2 = inst")
      case True
      have "OpenOrders b' inst = ib_bids ibf @ ib_asks ibf" by (intro OpenOrders_known) (simp add: b')
      moreover have "mset (live ord' @ ib_bids ib' @ ib_asks ib') = mset (live ord' @ q' @ ?own)" using ib' by simp
      from agree_mset[OF this] m(1) have "agree (ed_registry s') inst (live ord' @ ib_bids ib' @ ib_asks ib')"
        by (simp add: together_def)
      moreover have "coherent_reg (ed_registry s')" using m(1) by (meson together_def coveredE sane_storeD(1))
      ultimately show ?thesis using fin(1) True fr(1) eng by simp
    next
      case False
      then have "OpenOrders b' inst2 = OpenOrders b inst2" by (intro OpenOrders_other) (simp add: b')
      then show ?thesis using untouched_agree[OF m(3) D(5)[OF False] False] fr(1) eng b by simp
    qed
  qed
qed

lemma mset_enqueue: "mset (ib_bids (enqueueLocked ib x) @ ib_asks (enqueueLocked ib x)) = mset ([x] @ ib_bids ib @ ib_asks ib)"
  by (simp add: enqueueLocked_def)

lemma mset_rested: "mset (ib_bids (rested ib x) @ ib_asks (rested ib x)) = mset (live x @ ib_bids ib @ ib_asks ib)"
  using mset_enqueue[of ib x] by (auto simp: rested_def live_def)

text \<open>A quiet step of the engine: the instruments stay, and no hook has anything to do.\<close>

lemma run_trigger: "run_calls n (hooked (EvTrigger x)) s = Some s"
  by (simp add: run_hook_def registry_hook_def stream_hook_def ledger_hook_def)

lemma quiet_edge:
  assumes "edge_inv s" "ob_instruments (en_book e') = ob_instruments (en_book (ed_engine s))"
    and "ob_hooks (en_book e') = ob_hooks (en_book (ed_engine s))"
  shows "edge_inv (s\<lparr>ed_engine := e'\<rparr>)"
proof (rule edge_invI)
  note D = edge_invD[OF assms(1)]
  show "covered (s\<lparr>ed_engine := e'\<rparr>)" using D(1) by simp
  show "wf_book (en_book (ed_engine (s\<lparr>ed_engine := e'\<rparr>)))" "attached (en_book (ed_engine (s\<lparr>ed_engine := e'\<rparr>)))"
    using D(2,3) assms by (simp_all add: wf_book_def attached_def)
  show "agree (ed_registry (s\<lparr>ed_engine := e'\<rparr>)) inst (OpenOrders (en_book (ed_engine (s\<lparr>ed_engine := e'\<rparr>))) inst)" for inst
    using D(4)[of inst] OpenOrders_other[of "en_book e'" inst] assms(2) by simp
  show "ToEngine (ed_symbols (s\<lparr>ed_engine := e'\<rparr>)) sm = Some e \<Longrightarrow> \<not> isOptionSym (s\<lparr>ed_engine := e'\<rparr>) e" for sm e
    using D(5) isOptionSym_frame[of "s\<lparr>ed_engine := e'\<rparr>" s] by simp
qed

text \<open>The ways an order goes through the book.\<close>

lemma AddLimitOrder_outcome:
  assumes "wf_book b" "AddLimitOrder b ord = Some (res, ord', b')"
  obtains (unknown) "res = Inl ErrUnknownInstrument" "ob_instruments b (ord_Instrument ord) = None" "b' = b" "ord' = ord"
  | (idle) "res = Inr []" "vol ord = 0" "b' = fire b (EvTrigger ord)" "ord' = ord" "ob_instruments b (ord_Instrument ord) \<noteq> None"
  | (matched) ib ib' ts q' where "res = Inr ts" "ob_instruments b (ord_Instrument ord) = Some ib"
      "b' = commit b (ord_Instrument ord) (rested ib' ord') ts"
      "match_run (ob_now b) (ob_reads b) ord (opposite_queue ib (ord_Side ord)) ord' q' ts"
      "ib_bids ib' = (if ord_Side ord = SideBuy then ib_bids ib else q')"
      "ib_asks ib' = (if ord_Side ord = SideBuy then q' else ib_asks ib)"
      "wf_ib (rested ib' ord')" "ord_Instrument ord' = ord_Instrument ord"
proof (cases "ob_instruments b (ord_Instrument ord)")
  case None
  then show thesis using assms(2) by (intro unknown) (auto simp: AddLimitOrder_def lookup_def)
next
  case (Some ib)
  show thesis
  proof (cases "vol ord = 0")
    case True
    then show thesis using assms(2) Some by (intro idle) (auto simp: AddLimitOrder_def lookup_def IsZero_spec)
  next
    case False
    from AddLimitOrder_known[OF assms(1) Some False] obtain ib' ord2 ts q' where
      m: "AddLimitOrder b ord = Some (Inr ts, ord2, commit b (ord_Instrument ord) (rested ib' ord2) ts)"
      "match_run (ob_now b) (ob_reads b) ord (opposite_queue ib (ord_Side ord)) ord2 q' ts"
      "ib_bids ib' = (if ord_Side ord = SideBuy then ib_bids ib else q')"
      "ib_asks ib' = (if ord_Side ord = SideBuy then q' else ib_asks ib)" "wf_ib (rested ib' ord2)" by metis
    moreover have "ord_Instrument ord2 = ord_Instrument ord" using run_incoming[OF m(2)] by (metis order.simps(2) order.surjective order.update_convs(4))
    ultimately show thesis using assms(2) Some by (intro matched) auto
  qed
qed

lemma AddLimitOrder_instrument:
  assumes "wf_book b" "AddLimitOrder b ord = Some (Inr ts, ord', b')"
  shows "ord_Instrument ord' = ord_Instrument ord \<and> lookup b' (ord_Instrument ord) \<noteq> None"
  using assms by (cases rule: AddLimitOrder_outcome) (auto simp: lookup_def)

text \<open>An order through the engine: refused without a change of the book, or matched.\<close>

lemma PlaceLimit_outcome:
  assumes "wf_book (en_book e)" "PlaceLimit e ord = Some (pm, ord', e')"
  obtains (refused) "pm_error pm \<noteq> None" "en_book e' = en_book e"
  | (placed) ts where "pm_error pm = None" "pm_trades pm = ts" "AddLimitOrder (en_book e) ord = Some (Inr ts, ord', en_book e')"
  using assms(2)
proof (cases rule: PlaceLimit_cases)
  case (refused err)
  then show thesis by (intro that(1)) simp_all
next
  case (added res b)
  have log: "en_book (append_log e ev q) = en_book e" for ev q by (simp add: append_log_def)
  show thesis
  proof (cases res)
    case (Inl err)
    have "b = en_book e" using assms(1) added(2) by (cases rule: AddLimitOrder_outcome) (use Inl in auto)
    moreover have "pm_error pm \<noteq> None" using assms(2) added(1,2) Inl log by (auto simp: PlaceLimit_def Let_def)
    ultimately show thesis using added(3) by (intro that(1)) simp_all
  next
    case (Inr ts)
    have known: "Snapshot b (ord_Instrument ord') \<noteq> Some (Inl err)" for err
      using AddLimitOrder_instrument[OF assms(1) added(2)[unfolded Inr]] by (auto simp: Snapshot_def bind_eq_Some_conv)
    from assms(2) added(1,2) Inr log obtain sn where sn: "Snapshot b (ord_Instrument ord') = Some sn"
      by (auto simp: PlaceLimit_def Let_def bind_eq_Some_conv)
    then have "pm_error pm = None"
      using assms(2) added(1,2) Inr log known by (cases sn) (auto simp: PlaceLimit_def Let_def)
    then show thesis using added Inr by (intro that(2)) simp_all
  qed
qed

lemma added_edge:
  assumes inv: "edge_with inst (live ord) s" and inst: "inst = ord_Instrument ord" and tk: "taker_ok (ed_registry s) inst ord"
    and add: "AddLimitOrder (en_book (ed_engine s)) ord = Some (Inr ts, ord', en_book e')"
    and step: "engine_ran n e' s = Some s'"
  shows "edge_inv s'"
  using edge_withD(2)[OF inv] add
proof (cases rule: AddLimitOrder_outcome)
  case unknown
  then show ?thesis by simp
next
  case idle
  then have "live ord = []" by (simp add: live_def)
  then have "edge_inv s" using inv edge_with_nil by simp
  moreover have "s' = s\<lparr>ed_engine := e'\<rparr>"
    using step run_trigger[of n ord "s\<lparr>ed_engine := e'\<rparr>"] unfolding engine_ran_ours idle(3) fire_def
    by (simp add: ours_event[OF edge_withD(3)[OF inv]] del: run_calls.simps)
  ultimately show ?thesis using quiet_edge[of s e'] idle(3) by simp
next
  case (matched ib ib' ts' q')
  show ?thesis
    by (rule matched_edge[OF inv inst tk refl matched(2)[folded inst] matched(4-6) _ matched(7) refl _ step])
      (use matched(3) inst agree_mset[OF mset_rested] in simp_all)
qed

text \<open>Orders of other clients: their identifiers are not the edge's.\<close>

lemma foreign_record:
  assumes "covered s" "\<not> isEdgeOrder i"
  shows "bin_getByEngine (ed_registry s) i = None"
proof (rule ccontr)
  assume "bin_getByEngine (ed_registry s) i \<noteq> None"
  then obtain rec where "bin_getByEngine (ed_registry s) i = Some rec" by blast
  moreover have "coherent_reg (ed_registry s)" using assms(1) by (meson coveredE sane_storeD(1))
  ultimately show False using getByEngine_prefix(1) assms(2) by blast
qed

lemma agree_foreign:
  assumes "\<not> isEdgeOrder (ord_ID x)" "coherent_reg r"
  shows "agree r inst (x # L) \<longleftrightarrow> agree r inst L"
proof -
  have "e \<in> ord_ID ` set (x # L) \<longleftrightarrow> e \<in> ord_ID ` set L" if "bin_getByEngine r e = Some rec" for e rec
    using getByEngine_prefix(1)[OF assms(2) that] assms(1) by auto
  then show ?thesis using assms(1) unfolding agree_def by simp
qed

lemma foreign_with:
  assumes "edge_inv s" "\<not> isEdgeOrder (ord_ID ord)"
  shows "edge_with inst (live ord) s" "taker_ok (ed_registry s) inst ord"
proof -
  note D = edge_invD[OF assms(1)]
  have co: "coherent_reg (ed_registry s)" using D(1) by (meson coveredE sane_storeD(1))
  have "agree (ed_registry s) inst2 ((if inst2 = inst then live ord else []) @ OpenOrders (en_book (ed_engine s)) inst2)" for inst2
    using D(4)[of inst2] agree_foreign[OF assms(2) co] by (cases "inst2 = inst") (simp_all add: live_def)
  then show "edge_with inst (live ord) s" using D(1,2,3,5) unfolding edge_with_def by blast
  show "taker_ok (ed_registry s) inst ord" using foreign_record[OF D(1) assms(2)] by (simp add: taker_ok_def)
qed

lemma unchanged_edge:
  assumes "edge_inv s" "en_book e' = en_book (ed_engine s)" "engine_ran n e' s = Some s'"
  shows "edge_inv s'"
  using quiet_edge[OF assms(1), of e'] assms(2,3) by (simp add: engine_ran_def)

definition edge_ExecuteIOC :: "int \<Rightarrow> order \<Rightarrow> edge \<Rightarrow> ((engine_error + trade list) \<times> edge) option" where
  "edge_ExecuteIOC now ord s = do {
     (res, ord', e) \<leftarrow> ExecuteIOC (ed_engine s) ord; s \<leftarrow> engine_ran now e s; Some (res, s) }"

lemma foreign_limit:
  assumes "edge_inv s" "\<not> isEdgeOrder (ord_ID ord)" "edge_PlaceLimit n ord s = Some (pm, s')"
  shows "edge_inv s'"
proof -
  from assms(3) obtain ord' e' where p: "PlaceLimit (ed_engine s) ord = Some (pm, ord', e')" "engine_ran n e' s = Some s'"
    by (auto simp: edge_PlaceLimit_def bind_eq_Some_conv)
  from edge_invD(2)[OF assms(1)] p(1) show ?thesis
  proof (cases rule: PlaceLimit_outcome)
    case refused
    then show ?thesis using unchanged_edge[OF assms(1) _ p(2)] by blast
  next
    case (placed ts)
    show ?thesis using foreign_with[OF assms(1,2)] placed(3) p(2) by (intro added_edge[OF _ refl]) auto
  qed
qed

lemma foreign_market:
  assumes "edge_inv s" "\<not> isEdgeOrder (ord_ID ord)" "edge_PlaceMarket n ord s = Some (pm, s')"
  shows "edge_inv s'"
proof -
  let ?ord = "ord\<lparr>ord_IsMarket := True\<rparr>" and ?e = "append_log (ed_engine s) ''order.market'' (snapshotOrder (ord\<lparr>ord_IsMarket := True\<rparr>))"
  have log: "en_book ?e = en_book (ed_engine s)" by (simp add: append_log_def)
  from assms(3) obtain ord' e' where p: "PlaceLimit ?e ?ord = Some (pm, ord', e')" "engine_ran n e' s = Some s'"
    by (auto simp: edge_PlaceMarket_def PlaceMarket_def Let_def bind_eq_Some_conv)
  have "wf_book (en_book ?e)" using edge_invD(2)[OF assms(1)] log by simp
  from this p(1) show ?thesis
  proof (cases rule: PlaceLimit_outcome)
    case refused
    then show ?thesis using unchanged_edge[OF assms(1) _ p(2)] log by simp
  next
    case (placed ts)
    have "\<not> isEdgeOrder (ord_ID ?ord)" using assms(2) by simp
    from foreign_with[OF assms(1) this] show ?thesis using placed(3) p(2) log by (intro added_edge[OF _ refl]) auto
  qed
qed

lemma foreign_ioc:
  assumes "edge_inv s" "\<not> isEdgeOrder (ord_ID ord)" "edge_ExecuteIOC n ord s = Some (res, s')"
  shows "edge_inv s'"
proof -
  let ?b = "en_book (ed_engine s)"
  from assms(3) obtain ord' e' where p: "ExecuteIOC (ed_engine s) ord = Some (res, ord', e')" "engine_ran n e' s = Some s'"
    by (auto simp: edge_ExecuteIOC_def bind_eq_Some_conv)
  from p(1) consider (same) "en_book e' = ?b" | (ran) r2 ord2 where "ExecuteLimitIOC ?b ord = Some (r2, ord2, en_book e')"
    by (auto simp: ExecuteIOC_def append_log_def bind_eq_Some_conv split: option.splits)
  then show ?thesis
  proof cases
    case same
    then show ?thesis using unchanged_edge[OF assms(1) _ p(2)] by blast
  next
    case ran
    show ?thesis
    proof (cases "0 < vol ord \<and> ob_instruments ?b (ord_Instrument ord) \<noteq> None")
      case False
      then have "en_book e' = ?b" using ran by (auto simp: ExecuteLimitIOC_def lookup_def split: option.splits)
      then show ?thesis using unchanged_edge[OF assms(1) _ p(2)] by blast
    next
      case True
      then obtain ib where ib: "ob_instruments ?b (ord_Instrument ord) = Some ib" by blast
      from IOC_known[OF edge_invD(2)[OF assms(1)] ib] True obtain ib' ord3 ts q' where
        i: "ExecuteLimitIOC ?b ord = Some (Inr ts, ord3, commit ?b (ord_Instrument ord) ib' ts)"
        "match_run (ob_now ?b) (ob_reads ?b) ord (opposite_queue ib (ord_Side ord)) ord3 q' ts"
        "ib_bids ib' = (if ord_Side ord = SideBuy then ib_bids ib else q')"
        "ib_asks ib' = (if ord_Side ord = SideBuy then q' else ib_asks ib)" "wf_ib ib'" by metis
      note foreign = foreign_with[OF assms(1,2), of "ord_Instrument ord"]
      have same: "agree r (ord_Instrument ord) (live ord3 @ L) \<longleftrightarrow> agree r (ord_Instrument ord) L" if "coherent_reg r" for r L
      proof -
        have "ord_ID ord3 = ord_ID ord" using run_incoming[OF i(2)] by (metis order.simps(1) order.surjective order.update_convs(4))
        then show ?thesis using agree_foreign[of ord3, OF _ that] assms(2) by (simp add: live_def)
      qed
      show ?thesis
        by (rule matched_edge[OF foreign(1) refl foreign(2) refl ib i(2-4) _ i(5) refl _ p(2)])
          (use same ran i(1) in simp_all)
    qed
  qed
qed

text \<open>A cancellation, by whomever.\<close>

lemma agree_withdrawn:
  assumes "agree r inst L" "withdrawn_in i r r'" "mset L = add_mset x (mset L')" "ord_ID x = i" "coherent_reg r"
  shows "agree r' inst L'"
proof -
  have m: "mset L = mset (x # L')" using assms(3) by simp
  then have agr: "agree r inst (x # L')" using assms(1) agree_mset by blast
  have ne: "ord_ID y \<noteq> i" if "y \<in> set L'" "isEdgeOrder (ord_ID y)" for y
  proof
    assume same: "ord_ID y = i"
    have "ord_ID y \<in> set (edge_ids L')" using that by simp
    then show False using agree_distinct[OF agr] same that(2) assms(4) by simp
  qed
  show ?thesis
  proof (rule agreeI)
    show "distinct (edge_ids L')" using agree_distinct[OF agr] by (simp split: if_splits)
    fix y assume y: "y \<in> set L'" "isEdgeOrder (ord_ID y)"
    then show "ord_Instrument y = inst \<and> (\<exists>rec. bin_getByEngine r' (ord_ID y) = Some rec \<and> twin rec y)"
      using agree_twin[OF agr, of y] withdrawn_other[OF assms(2) ne[OF y]] by (metis list.set_intros(2))
  next
    fix e rec' assume e: "bin_getByEngine r' e = Some rec'" "or_Type rec' = ''LIMIT''" "is_working rec'" "or_EngineSymbol rec' = inst"
    then have "e \<noteq> i" using withdrawn_back[OF assms(2) e(1)] by metis
    then have "bin_getByEngine r e = Some rec'" using withdrawn_other[OF assms(2)] e(1) by metis
    from agree_live[OF agr this e(2-4)] obtain y where "y \<in> set (x # L')" "ord_ID y = e" by blast
    then show "e \<in> ord_ID ` set L'" using \<open>e \<noteq> i\<close> assms(4) by auto
  qed
qed

lemma withdrawn_untouched:
  assumes "withdrawn_in i r r'" "\<And>rec. bin_getByEngine r i = Some rec \<Longrightarrow> or_EngineSymbol rec = inst"
  shows "untouched inst r r'"
  unfolding untouched_def
proof
  fix e
  show "bin_getByEngine r' e = bin_getByEngine r e \<or> (\<exists>rec rec'. bin_getByEngine r e = Some rec \<and>
      bin_getByEngine r' e = Some rec' \<and> or_EngineSymbol rec = inst \<and> or_EngineSymbol rec' = inst)"
  proof (cases "e = i")
    case True
    then show ?thesis using withdrawn_rel[OF assms(1)] assms(2)
      by (cases "bin_getByEngine r i") (auto simp: option_rel_Some1 same_terms_def)
  next
    case False
    then show ?thesis using withdrawn_other[OF assms(1)] by blast
  qed
qed

lemma CancelOrder_outcome:
  assumes "CancelOrder b inst oid = (res, b')"
  obtains (missing) err where "res = Inl err" "b' = b" "oid \<notin> ord_ID ` set (OpenOrders b inst)"
  | (removed) x where "res = Inr x" "ord_ID x = oid" "x \<in> set (OpenOrders b inst)"
      "mset (OpenOrders b inst) = add_mset x (mset (OpenOrders b' inst))"
      "\<And>inst2. inst2 \<noteq> inst \<Longrightarrow> OpenOrders b' inst2 = OpenOrders b inst2"
      "ob_calls b' = ob_calls b @ map (\<lambda>h. (h, EvCancel x)) (ob_hooks b)" "ob_hooks b' = ob_hooks b"
proof (cases "lookup b inst")
  case None
  then show thesis using assms by (intro missing) (auto simp: CancelOrder_def OpenOrders_def)
next
  case (Some ib)
  show thesis
  proof (cases res)
    case (Inl err)
    then show thesis using assms CancelOrder_exact[OF Some, of oid] by (intro missing[OF Inl]) simp_all
  next
    case (Inr x)
    have "OpenOrders b' inst2 = OpenOrders b inst2" if "inst2 \<noteq> inst" for inst2
      using assms Some that
      by (intro OpenOrders_other) (auto simp: CancelOrder_def put_book_def split: option.splits prod.splits)
    moreover have "ob_hooks b' = ob_hooks b"
      using assms Some by (auto simp: CancelOrder_def put_book_def split: option.splits prod.splits)
    moreover from CancelOrder_exact[OF Some, of oid] assms Inr obtain xs ys where
      "ord_ID x = oid" "ob_calls b' = ob_calls b @ map (\<lambda>h. (h, EvCancel x)) (ob_hooks b)"
      "OpenOrders b inst = xs @ x # ys" "OpenOrders b' inst = xs @ ys" by auto
    ultimately show thesis using Inr by (intro removed) auto
  qed
qed

text \<open>The hooks hand out no order numbers.\<close>

lemma OnTrade_seq: "bin_OnTrade t n r = Some r' \<Longrightarrow> rg_seq r' = rg_seq r"
  by (auto simp: bin_OnTrade_def bin_fillOrder_def bind_eq_Some_conv split: option.splits if_splits)

lemma OnCancel_seq: "rg_seq (bin_OnCancel x n r) = rg_seq r"
  by (auto simp: bin_OnCancel_def split: option.split)

lemma with_ledger_registry: "with_ledger f s = Some s' \<Longrightarrow> ed_registry s' = ed_registry s"
  by (auto simp: with_ledger_def bind_eq_Some_conv split: option.splits)

lemma settle_side_registry: "settle_side t i s = Some s' \<Longrightarrow> ed_registry s' = ed_registry s"
  by (auto simp: settle_side_def settleFill_def settleOptionFill_def split: if_splits option.splits prod.splits
      dest: with_ledger_registry)

lemma unlock_remainder_registry: "unlock_remainder s rec base quote = Some s' \<Longrightarrow> ed_registry s' = ed_registry s"
  by (auto simp: unlock_remainder_def bind_eq_Some_conv split: if_splits dest: with_ledger_registry)

lemma ledger_hook_registry: "ledger_hook ev s = Some s' \<Longrightarrow> ed_registry s' = ed_registry s"
  by (auto simp: ledger_hook_def unlockRemainder_def unlockOptionRemainder_def bind_eq_Some_conv
      split: hook_event.splits if_splits option.splits prod.splits dest!: settle_side_registry unlock_remainder_registry)

lemma run_hook_seq: "run_hook n h ev s = Some s' \<Longrightarrow> rg_seq (ed_registry s') = rg_seq (ed_registry s)"
  by (auto simp: run_hook_def registry_hook_def bind_eq_Some_conv OnCancel_seq split: if_splits hook_event.splits
      dest: OnTrade_seq stream_frame(2) ledger_hook_registry)

lemma run_calls_seq: "run_calls n cs s = Some s' \<Longrightarrow> rg_seq (ed_registry s') = rg_seq (ed_registry s)"
  by (induction n cs s rule: run_calls.induct) (auto simp: bind_eq_Some_conv dest: run_hook_seq)

lemma engine_ran_seq: "engine_ran n e s = Some s' \<Longrightarrow> rg_seq (ed_registry s') = rg_seq (ed_registry s)"
  unfolding engine_ran_def by (drule run_calls_seq) simp

lemma cancelled_edge:
  assumes "edge_inv s" and b': "CancelOrder (en_book (ed_engine s)) inst oid = (res, b')"
    and step: "engine_ran n (e\<lparr>en_book := b'\<rparr>) s = Some s'"
  shows "(edge_inv s' \<and> rg_seq (ed_registry s') = rg_seq (ed_registry s) \<and>
    (\<forall>err. res = Inl err \<longrightarrow> ed_registry s' = ed_registry s \<and> ed_ledger s' = ed_ledger s \<and>
      oid \<notin> ord_ID ` set (OpenOrders (en_book (ed_engine s)) inst)) \<and>
    (\<forall>x. res = Inr x \<longrightarrow> oid \<in> ord_ID ` set (OpenOrders (en_book (ed_engine s)) inst) \<and> (\<forall>rec. bin_getByEngine (ed_registry s') oid = Some rec \<longrightarrow> \<not> is_working rec) \<and>
      (\<forall>rec l. bin_getByEngine (ed_registry s) oid = Some rec \<longrightarrow> ed_ledger s = Some l \<longrightarrow> is_working rec \<and> (\<exists>l'. ed_ledger s' = Some l' \<and>
        (\<forall>a. lk l' a = lk l a - reservation (assets s) rec a \<and> fr l' a = fr l a + reservation (assets s) rec a))))) \<and>
    en_book (ed_engine s') = b' \<and> ed_optMarket s' = ed_optMarket s \<and>
    (\<forall>l. ed_ledger s = Some l \<longrightarrow> (\<exists>l'. ed_ledger s' = Some l' \<and> (\<forall>a. fr l' a + lk l' a = fr l a + lk l a)))"
proof -
  let ?b = "en_book (ed_engine s)" and ?r = "ed_registry s"
  note D = edge_invD[OF assms(1)]
  from b' show ?thesis
  proof (cases rule: CancelOrder_outcome)
    case (missing err)
    then have same: "s' = s\<lparr>ed_engine := e\<lparr>en_book := b'\<rparr>\<rparr>" using step by (simp add: engine_ran_def)
    have "edge_inv s'" unfolding same by (rule quiet_edge[OF assms(1)]) (simp_all add: missing)
    then show ?thesis using missing same by simp
  next
    case (removed x)
    have "ours (drop (length (ob_calls ?b)) (ob_calls b')) = hooked (EvCancel x)"
      using removed(6) ours_event[OF D(3)] by simp
    then have run: "run_calls n (hooked (EvCancel x)) (s\<lparr>ed_engine := e\<lparr>en_book := b'\<rparr>\<rparr>) = Some s'"
      using step by (simp add: engine_ran_ours del: run_calls.simps)
    have co: "coherent_reg ?r" using D(1) by (meson coveredE sane_storeD(1))
    have tw: "or_EngineSymbol rec = inst \<and> is_working rec" if "bin_getByEngine ?r (ord_ID x) = Some rec" for rec
      using agree_twin[OF D(4) removed(3) getByEngine_prefix(1)[OF co that]] that by (auto simp: twin_def)
    from cancel_hooks[OF _ run] D(1) tw have c: "covered s'" "same_frame (s\<lparr>ed_engine := e\<lparr>en_book := b'\<rparr>\<rparr>) s'"
      "withdrawn_in (ord_ID x) ?r (ed_registry s')"
      "bin_getByEngine ?r (ord_ID x) = None \<Longrightarrow> ed_ledger s' = ed_ledger s"
      "\<And>rec l. bin_getByEngine ?r (ord_ID x) = Some rec \<Longrightarrow> ed_ledger s = Some l \<Longrightarrow> \<exists>l'. ed_ledger s' = Some l' \<and>
        (\<forall>a. lk l' a = lk l a - reservation (assets s) rec a \<and> fr l' a = fr l a + reservation (assets s) rec a)" by auto
    have fr: "en_book (ed_engine s') = b'" "ed_symbols s' = ed_symbols s" "ed_optMarket s' = ed_optMarket s"
      using c(2) by (simp_all add: same_frame_def)
    have "edge_inv s'"
    proof (rule edge_invI)
      have "sound_book False ?b" using D(2) by (simp add: sound_book_def)
      from Cancel_sound[OF this, of inst oid] b' fr(1) show "wf_book (en_book (ed_engine s'))" by (simp add: sound_book_def)
      show "attached (en_book (ed_engine s'))" using D(3) removed(7) fr(1) by (simp add: attached_def)
      show "\<not> isOptionSym s' e" if "ToEngine (ed_symbols s') sm = Some e" for sm e
        using D(5) that fr isOptionSym_frame[of s' s] by simp
      fix inst2
      show "agree (ed_registry s') inst2 (OpenOrders (en_book (ed_engine s')) inst2)"
      proof (cases "inst2 = inst")
        case True
        then show ?thesis using agree_withdrawn[OF D(4) c(3) removed(4) refl co] fr(1) by simp
      next
        case False
        then show ?thesis using untouched_agree[OF withdrawn_untouched[OF c(3)] D(4) False] tw removed(5) fr(1) by simp
      qed
    qed (rule c(1))
    moreover have "\<not> is_working rec" if "bin_getByEngine (ed_registry s') oid = Some rec" for rec
      using withdrawn_back[OF c(3) that] removed(2) by metis
    moreover have "rg_seq (ed_registry s') = rg_seq ?r" using engine_ran_seq[OF step] .
    moreover have "\<exists>l'. ed_ledger s' = Some l' \<and> (\<forall>a. fr l' a + lk l' a = fr l a + lk l a)" if l: "ed_ledger s = Some l" for l
    proof (cases "bin_getByEngine ?r (ord_ID x)")
      case None
      with c(4) l show ?thesis by simp
    next
      case (Some rec)
      from c(5)[OF this l] show ?thesis by fastforce
    qed
    ultimately show ?thesis using c(5) tw removed(1-3) fr by auto
  qed
qed

lemma edge_cancel:
  assumes "edge_inv s" "edge_CancelOrder n inst oid s = Some (res, s')"
  shows "edge_inv s' \<and> rg_seq (ed_registry s') = rg_seq (ed_registry s) \<and>
    (\<forall>err. res = Inl err \<longrightarrow> ed_registry s' = ed_registry s \<and> ed_ledger s' = ed_ledger s \<and>
      oid \<notin> ord_ID ` set (OpenOrders (en_book (ed_engine s)) inst)) \<and>
    (\<forall>x. res = Inr x \<longrightarrow> oid \<in> ord_ID ` set (OpenOrders (en_book (ed_engine s)) inst) \<and> (\<forall>rec. bin_getByEngine (ed_registry s') oid = Some rec \<longrightarrow> \<not> is_working rec) \<and>
      (\<forall>rec l. bin_getByEngine (ed_registry s) oid = Some rec \<longrightarrow> ed_ledger s = Some l \<longrightarrow> is_working rec \<and> (\<exists>l'. ed_ledger s' = Some l' \<and>
        (\<forall>a. lk l' a = lk l a - reservation (assets s) rec a \<and> fr l' a = fr l a + reservation (assets s) rec a))))"
proof -
  let ?e = "append_log (ed_engine s) ''order.cancel'' (CancelPayload oid inst)"
  obtain b' where b': "CancelOrder (en_book (ed_engine s)) inst oid = (res, b')" and step: "engine_ran n (?e\<lparr>en_book := b'\<rparr>) s = Some s'"
    using assms(2) by (cases "CancelOrder (en_book (ed_engine s)) inst oid")
      (auto simp: edge_CancelOrder_def engine_CancelOrder_def append_log_def bind_eq_Some_conv)
  show ?thesis by (rule conjunct1[OF cancelled_edge[OF assms(1) b' step]])
qed

lemma agree_idle:
  assumes "agree r inst L" "withdrawn_in i r r'" "\<And>rec. bin_getByEngine r i = Some rec \<Longrightarrow> \<not> is_working rec"
  shows "agree r' inst L"
proof (rule agreeI)
  show "distinct (edge_ids L)" using agree_distinct[OF assms(1)] .
  fix y assume y: "y \<in> set L" "isEdgeOrder (ord_ID y)"
  from agree_twin[OF assms(1) y] obtain rec where rec: "ord_Instrument y = inst" "bin_getByEngine r (ord_ID y) = Some rec" "twin rec y"
    by metis
  then have "ord_ID y \<noteq> i" using assms(3)[of rec] by (auto simp: twin_def)
  then show "ord_Instrument y = inst \<and> (\<exists>rec. bin_getByEngine r' (ord_ID y) = Some rec \<and> twin rec y)"
    using rec withdrawn_other[OF assms(2)] by metis
next
  fix e rec' assume e: "bin_getByEngine r' e = Some rec'" "or_Type rec' = ''LIMIT''" "is_working rec'" "or_EngineSymbol rec' = inst"
  then have "e \<noteq> i" using withdrawn_back[OF assms(2) e(1)] by metis
  then have "bin_getByEngine r e = Some rec'" using withdrawn_other[OF assms(2)] e(1) by metis
  from agree_live[OF assms(1) this e(2-4)] show "e \<in> ord_ID ` set L" by blast
qed

lemma mark_edge:
  assumes "edge_inv s" "0 \<le> oid" "\<And>rec. bin_getByEngine (ed_registry s) (bin_EngineID oid) = Some rec \<Longrightarrow> \<not> is_working rec"
  shows "edge_inv (s\<lparr>ed_registry := bin_MarkCanceled (ed_registry s) oid n\<rparr>)"
proof (rule edge_invI)
  let ?s = "s\<lparr>ed_registry := bin_MarkCanceled (ed_registry s) oid n\<rparr>"
  note D = edge_invD[OF assms(1)]
  note mk = MarkCanceled_covered[OF D(1) assms(2), of n]
  show "covered ?s" "wf_book (en_book (ed_engine ?s))" "attached (en_book (ed_engine ?s))" using mk D(2,3) by simp_all
  show "agree (ed_registry ?s) inst (OpenOrders (en_book (ed_engine ?s)) inst)" for inst
    using agree_idle[OF D(4) conjunct2[OF mk] assms(3)] by simp
  show "ToEngine (ed_symbols ?s) sm = Some e \<Longrightarrow> \<not> isOptionSym ?s e" for sm e
    using D(5) isOptionSym_frame[of ?s s] by simp
qed

subsection \<open>Recording and removing an order\<close>

lemma getByEngine_tracked_Some: "coherent_reg r \<Longrightarrow> tracked r oid p \<Longrightarrow> bin_getByEngine r (bin_EngineID oid) = Some (rg_heap r ! p)"
  using getByEngine_tracked by blast

lemma reserved_heap:
  assumes "\<And>x. x \<in> set (rg_byOrderID r) \<Longrightarrow> rg_heap r' ! snd x = rg_heap r ! snd x"
  shows "sum_list (map (\<lambda>x. reservation A (rg_heap r' ! snd x) a) (rg_byOrderID r)) = reserved A r a"
  using assms by (simp add: reserved_def cong: map_cong)

lemma update_new: "k \<notin> fst ` set al \<Longrightarrow> AList.update k v al = al @ [(k, v)]"
  by (induction al) auto

lemma RecordUnique_stored:
  assumes co: "coherent_reg r" and bound: "sint (rg_seq r) < 2 ^ 63 - 1"
    and rec: "bin_RecordUnique r bsym esym side typ tif px qty c t = (Inr ptr, r')"
  defines "oid \<equiv> sint (rg_seq r) + 1"
  defines "fresh \<equiv> fresh_record oid bsym esym side typ tif px qty c t"
  shows "rg_heap r' ! ptr = fresh" "coherent_reg r'" "tracked r' oid ptr"
    "bin_getByEngine r (bin_EngineID oid) = None" "bin_getByEngine r' = (bin_getByEngine r)(bin_EngineID oid \<mapsto> fresh)"
    "reserved A r' a = reserved A r a + reservation A fresh a"
proof -
  note next_co = coherent_RecordUnique[OF co bound rec]
  from rec coherent_seq[OF co] bound have fields: "ptr = length (rg_heap r)" "rg_heap r' = rg_heap r @ [fresh]"
    "rg_byOrderID r' = AList.update oid (length (rg_heap r)) (rg_byOrderID r)"
    "rg_byEngine r' = (rg_byEngine r)(bin_EngineID oid \<mapsto> length (rg_heap r))"
    by (cases rule: RecordUnique_cases; simp add: fresh_def oid_def)+
  show "rg_heap r' ! ptr = fresh" "coherent_reg r'" "tracked r' oid ptr"
    using fields next_co by (simp_all add: tracked_def map_of_update_eq)
  have len: "snd x < length (rg_heap r)" "fst x < oid" if "x \<in> set (rg_byOrderID r)" for x
  proof -
    have "tracked r (fst x) (snd x)" using that tracked_member[OF co, of "fst x" "snd x"] by simp
    from tracked_own(1,5)[OF co this] show "snd x < length (rg_heap r)" "fst x < oid" by (simp_all add: oid_def)
  qed
  have new: "oid \<notin> fst ` set (rg_byOrderID r)" using len(2) by fastforce
  show none: "bin_getByEngine r (bin_EngineID oid) = None"
  proof (rule ccontr)
    assume "bin_getByEngine r (bin_EngineID oid) \<noteq> None"
    then obtain oid' p where t: "tracked r oid' p" "bin_EngineID oid = bin_EngineID oid'"
      using getByEngine_tracked[OF co] by blast
    then have "oid = oid'" using tracked_own(4)[OF co t(1)] coherent_seq[OF co] by (simp add: EngineID_inj oid_def)
    with t(1) tracked_own(5)[OF co t(1)] show False by (simp add: oid_def)
  qed
  have pos: "p < length (rg_heap r)" if "rg_byEngine r e = Some p" for e p
    using that index_engine[OF co] tracked_own(1)[OF co] by blast
  show "bin_getByEngine r' = (bin_getByEngine r)(bin_EngineID oid \<mapsto> fresh)"
  proof
    fix e
    show "bin_getByEngine r' e = ((bin_getByEngine r)(bin_EngineID oid \<mapsto> fresh)) e"
      using fields pos[of e] by (cases "rg_byEngine r e") (auto simp: bin_getByEngine_def nth_append)
  qed
  have "sum_list (map (\<lambda>x. reservation A (rg_heap r' ! snd x) a) (rg_byOrderID r)) = reserved A r a"
    using len(1) fields(2) by (intro reserved_heap) (simp add: nth_append)
  then show "reserved A r' a = reserved A r a + reservation A fresh a"
    using fields update_new[OF new] by (simp add: reserved_def)
qed

lemma Remove_effect:
  assumes co: "coherent_reg r" and p: "tracked r oid p"
  shows "bin_getByEngine (bin_Remove r oid) = (bin_getByEngine r)(bin_EngineID oid := None)"
    "reserved A (bin_Remove r oid) a = reserved A r a - reservation A (rg_heap r ! p) a"
proof -
  have fields: "rg_heap (bin_Remove r oid) = rg_heap r" "rg_byOrderID (bin_Remove r oid) = AList.delete oid (rg_byOrderID r)"
    "rg_byEngine (bin_Remove r oid) = (rg_byEngine r)(bin_EngineID oid := None)"
    using p tracked_own(3)[OF co p] by (simp_all add: bin_Remove_def tracked_def Let_def)
  then show "bin_getByEngine (bin_Remove r oid) = (bin_getByEngine r)(bin_EngineID oid := None)"
    by (auto simp: bin_getByEngine_def fun_eq_iff)
  have d: "distinct (map fst (rg_byOrderID r))" using co unfolding coherent_reg_def by blast
  have mem: "(oid, p) \<in> set (rg_byOrderID r)" using p tracked_member[OF co] by blast
  have "sum_list (map f (AList.delete k al)) = sum_list (map f al) - f (k, v)" if "distinct (map fst al)" "(k, v) \<in> set al"
    for f :: "int \<times> nat \<Rightarrow> int" and k v al
    using that by (induction al) (auto simp: delete_id image_iff)
  from this[OF d mem] show "reserved A (bin_Remove r oid) a = reserved A r a - reservation A (rg_heap r ! p) a"
    using fields by (simp add: reserved_def)
qed

subsection \<open>Placing an order\<close>

lemma agree_cong: "bin_getByEngine r' = bin_getByEngine r \<Longrightarrow> agree r' = agree r"
  by (simp add: agree_def fun_eq_iff)

text \<open>A store that shows the same orders.\<close>

lemma edge_same_orders:
  assumes "edge_inv s" "coherent_reg (ed_registry s2)" "bin_getByEngine (ed_registry s2) = bin_getByEngine (ed_registry s)"
    and "ed_ledger s2 = Some l" "\<And>a. reserved (assets s) (ed_registry s2) a \<le> lk l a"
    and "ob_instruments (en_book (ed_engine s2)) = ob_instruments (en_book (ed_engine s))"
    and "ob_hooks (en_book (ed_engine s2)) = ob_hooks (en_book (ed_engine s))"
    and "ed_symbols s2 = ed_symbols s" "ed_optMarket s2 = ed_optMarket s"
  shows "edge_inv s2"
proof (rule edge_invI)
  note D = edge_invD[OF assms(1)]
  obtain l0 where c: "sane_store (ed_registry s)" by (rule coveredE[OF D(1)]) blast
  have opt: "isOptionSym s2 = isOptionSym s" using assms(9) by (rule isOptionSym_frame)
  show "covered s2"
    by (rule coveredI[OF sane_storeI[OF assms(2)] assms(4)])
      (use assms(3,5) assets_frame[OF assms(9)] sane_storeD(2)[OF c(1)] in auto)
  show "wf_book (en_book (ed_engine s2))" "attached (en_book (ed_engine s2))"
    using D(2,3) assms(6,7) by (simp_all add: wf_book_def attached_def)
  show "agree (ed_registry s2) inst (OpenOrders (en_book (ed_engine s2)) inst)" for inst
    using D(4)[of inst] agree_cong[OF assms(3)] OpenOrders_other[of "en_book (ed_engine s2)" inst] assms(6) by simp
  show "ToEngine (ed_symbols s2) sm = Some e \<Longrightarrow> \<not> isOptionSym s2 e" for sm e using D(5) assms(8) opt by simp
qed

definition placeable :: "place_request \<Rightarrow> bool" where
  "placeable p \<longleftrightarrow> 0 < toBig (pl_qty p) \<and> (pl_sideStr p = ''BUY'' \<longleftrightarrow> pl_side p = SideBuy) \<and>
     (pl_typ p = ''LIMIT'' \<and> 0 < toBig (pl_price p) \<or> pl_typ p = ''MARKET'' \<and> pl_price p = Zero)"

lemma parse_price_ok: "parse_price rq typ = Inr (tif, px) \<Longrightarrow> typ = ''LIMIT'' \<and> 0 < toBig px \<or> typ = ''MARKET'' \<and> px = Zero"
  by (auto simp: parse_price_def Let_def not_le split: if_splits sum.splits)

lemma parse_place_ok:
  assumes "parse_place m rq = Inr p"
  shows "placeable p \<and> (\<exists>sm. ToEngine m sm = Some (pl_engSym p))"
proof -
  from assms obtain side tif px where parts: "ToEngine m (param rq ''symbol'') = Some (pl_engSym p)"
    "parseSide (param rq ''side'') = Inr side" "0 < toBig (pl_qty p)" "parse_price rq (param rq ''type'') = Inr (tif, px)"
    "pl_sideStr p = param rq ''side''" "pl_side p = side" "pl_typ p = param rq ''type''" "pl_price p = px"
    unfolding parse_place_def Let_def by (fastforce simp: not_le split: if_splits sum.splits option.splits)
  have "pl_sideStr p = ''BUY'' \<longleftrightarrow> pl_side p = SideBuy"
    using parts(2,5,6) by (auto simp: parseSide_def split: if_splits)
  then show ?thesis using parts(1,3,7,8) parse_price_ok[OF parts(4)] by (auto simp: placeable_def)
qed

abbreviation placed_record :: "place_request \<Rightarrow> int \<Rightarrow> int \<Rightarrow> order_record" where
  "placed_record p oid t \<equiv> fresh_record oid (pl_binSym p) (pl_engSym p) (pl_sideStr p) (pl_typ p) (pl_tif p) (pl_price p)
     (pl_qty p) (pl_clientOrderID p) t"

text \<open>A record of the request that no fill has touched.\<close>

definition records :: "place_request \<Rightarrow> order_record \<Rightarrow> bool" where
  "records p rec \<longleftrightarrow> or_Type rec = pl_typ p \<and> or_Side rec = pl_sideStr p \<and> or_EngineSymbol rec = pl_engSym p \<and>
     or_Price rec = pl_price p \<and> remaining rec = toBig (pl_qty p) \<and> is_working rec"

lemma placed_records: "records p (placed_record p oid t)"
  by (simp add: records_def fresh_record_def remaining_def is_working_def status_defs)

lemma records_sane: "placeable p \<Longrightarrow> records p rec \<Longrightarrow> sane rec"
  by (auto simp: sane_def records_def placeable_def)

lemma reserve_effect:
  assumes "reserve pair p s = Some ((ok, asset, amt), s2)" "ed_ledger s = Some l" "placeable p" "records p rec" "A (pl_engSym p) = pair"
  shows "\<exists>l'. s2 = s\<lparr>ed_ledger := Some l'\<rparr> \<and>
    (\<forall>a. lk l' a = lk l a + (if ok then reservation A rec a else 0) \<and> fr l' a = fr l a - (if ok then reservation A rec a else 0)) \<and>
    (\<forall>a. reservation A rec a = (if a = asset then toBig amt else 0)) \<and> 0 \<le> toBig amt"
proof (cases "pl_typ p = ''LIMIT''")
  case False
  then have "s2 = s" "asset = []" "amt = Zero" using assms(1,2) by (simp_all add: reserve_def)
  with assms(2,4) False show ?thesis
    by (intro exI[of _ l]) (simp add: reservation_def part_def records_def)
next
  case True
  obtain base quote where bq: "pair = (base, quote)" "A (pl_engSym p) = (base, quote)" using assms(5) by (cases pair) simp
  have pos: "0 < toBig (pl_qty p)" "0 < toBig (pl_price p)" "pl_sideStr p = ''BUY'' \<longleftrightarrow> pl_side p = SideBuy"
    using assms(3) True by (auto simp: placeable_def)
  from assms(1,2) True bq obtain l' where amt: "if pl_side p = SideBuy then Mul (pl_price p) (pl_qty p) = Some amt \<and> asset = quote
      else amt = pl_qty p \<and> asset = base" and l': "Lock l asset amt = Some (ok, l')" "s2 = s\<lparr>ed_ledger := Some l'\<rparr>"
    by (auto simp: reserve_def bind_eq_Some_conv split: if_splits)
  have res: "reservation A rec a = (if a = asset then toBig amt else 0)" for a
    using amt pos bq True assms(4) Mul_prod[of "pl_price p" "pl_qty p" amt]
    by (auto simp: reservation_def part_def records_def prod_def mult.commute split: if_splits)
  have nn: "0 \<le> toBig amt"
    using amt pos Mul_prod[of "pl_price p" "pl_qty p" amt] prod_nonneg by (auto split: if_splits)
  have acc: "account_of l' = spec_lock (account_of l) asset (toBig amt)" "ok \<longleftrightarrow> toBig amt \<le> 0 \<or> toBig amt \<le> fr l asset"
    using Lock_refines[OF l'(1)] by simp_all
  have "lk l' a = lk l a + (if ok then reservation A rec a else 0) \<and> fr l' a = fr l a - (if ok then reservation A rec a else 0)" for a
    using acc nn by (auto simp: account_of_def res split: if_splits)
  then show ?thesis using l'(2) res nn by (intro exI[of _ l']) simp
qed

text \<open>The store with a new record.\<close>

lemma agree_new:
  assumes "agree r inst L" "bin_getByEngine r e = None" "bin_getByEngine r' = (bin_getByEngine r)(e \<mapsto> rec)"
    and "if ls = [] then or_Type rec = ''MARKET'' \<or> or_EngineSymbol rec \<noteq> inst
      else \<exists>x. ls = [x] \<and> ord_ID x = e \<and> isEdgeOrder e \<and> ord_Instrument x = inst \<and> twin rec x"
  shows "agree r' inst (ls @ L)"
proof (rule agreeI)
  have old: "ord_ID y \<noteq> e" if "y \<in> set L" "isEdgeOrder (ord_ID y)" for y
    using agree_twin[OF assms(1) that] assms(2) by force
  then have "e \<notin> set (edge_ids L)" by auto
  then show "distinct (edge_ids (ls @ L))" using agree_distinct[OF assms(1)] assms(4) by (auto split: if_splits)
  fix y assume y: "y \<in> set (ls @ L)" "isEdgeOrder (ord_ID y)"
  show "ord_Instrument y = inst \<and> (\<exists>rec. bin_getByEngine r' (ord_ID y) = Some rec \<and> twin rec y)"
  proof (cases "y \<in> set L")
    case True
    then show ?thesis using agree_twin[OF assms(1) True y(2)] old[OF True y(2)] assms(3) by (metis fun_upd_other)
  next
    case False
    then show ?thesis using y assms(3,4) by (auto split: if_splits)
  qed
next
  fix e2 rec2 assume e2: "bin_getByEngine r' e2 = Some rec2" "or_Type rec2 = ''LIMIT''" "is_working rec2" "or_EngineSymbol rec2 = inst"
  show "e2 \<in> ord_ID ` set (ls @ L)"
  proof (cases "e2 = e")
    case True
    then show ?thesis using e2 assms(3,4) by (auto split: if_splits)
  next
    case False
    then have "bin_getByEngine r e2 = Some rec2" using e2(1) assms(3) by simp
    from agree_live[OF assms(1) this e2(2-4)] show ?thesis by auto
  qed
qed

text \<open>The order on its way into the engine, with its record stored and its funds reserved.\<close>

lemma enter_engine:
  assumes "edge_with inst (live ord) s" "taker_ok (ed_registry s) inst ord" "ord_Instrument ord = inst"
    and "(if ord_IsMarket ord then edge_PlaceMarket n ord s else edge_PlaceLimit n ord s) = Some (pm, s')"
  obtains (refused) e' where "pm_error pm \<noteq> None" "en_book e' = en_book (ed_engine s)" "s' = s\<lparr>ed_engine := e'\<rparr>"
  | (placed) "pm_error pm = None" "edge_inv s'" "rg_seq (ed_registry s') = rg_seq (ed_registry s)"
proof -
  obtain e0 ord' e' where e: "en_book e0 = en_book (ed_engine s)" "PlaceLimit e0 ord = Some (pm, ord', e')" "engine_ran n e' s = Some s'"
  proof (cases "ord_IsMarket ord")
    case True
    then have "ord\<lparr>ord_IsMarket := True\<rparr> = ord" by simp
    with True assms(4) obtain ord' e' where
      "PlaceLimit (append_log (ed_engine s) ''order.market'' (snapshotOrder ord)) ord = Some (pm, ord', e')"
      "engine_ran n e' s = Some s'" by (auto simp: edge_PlaceMarket_def PlaceMarket_def Let_def bind_eq_Some_conv)
    then show ?thesis by (rule that[rotated]) (simp add: append_log_def)
  next
    case False
    with assms(4) obtain ord' e' where "PlaceLimit (ed_engine s) ord = Some (pm, ord', e')" "engine_ran n e' s = Some s'"
      by (auto simp: edge_PlaceLimit_def bind_eq_Some_conv)
    then show ?thesis using that by blast
  qed
  have "wf_book (en_book e0)" using edge_withD(2)[OF assms(1)] e(1) by simp
  from this e(2) show thesis
  proof (cases rule: PlaceLimit_outcome)
    case r: refused
    then show thesis using e(1,3) by (intro refused[of e']) (simp_all add: engine_ran_def)
  next
    case p: (placed ts)
    have "edge_inv s'" using assms(1-3) p(3) e(1,3) by (intro added_edge[OF _ refl]) auto
    then show thesis using placed p(1) engine_ran_seq[OF e(3)] by blast
  qed
qed

lemma stored_with:
  assumes inv: "edge_inv s" and pl: "placeable p"
    and none: "bin_getByEngine (ed_registry s) e = None" and get: "bin_getByEngine r' = (bin_getByEngine (ed_registry s))(e \<mapsto> rec)"
    and co: "coherent_reg r'" and rec: "records p rec" "or_EngineID rec = e"
    and res: "\<And>a. reserved (assets s) r' a \<le> lk l a"
    and s2: "ed_registry s2 = r'" "ed_ledger s2 = Some l" "ed_engine s2 = ed_engine s" "ed_symbols s2 = ed_symbols s" "ed_optMarket s2 = ed_optMarket s"
  shows "edge_with (pl_engSym p) (live (placed_order api p rec)) s2 \<and> taker_ok (ed_registry s2) (pl_engSym p) (placed_order api p rec)"
proof -
  let ?ord = "placed_order api p rec" and ?r = "ed_registry s"
  note D = edge_invD[OF inv]
  have opt2: "isOptionSym s2 = isOptionSym s" using s2(5) by (rule isOptionSym_frame)
  have edge: "isEdgeOrder e" using getByEngine_prefix(1)[OF co, of e rec] get by simp
  have terms: "or_EngineSymbol rec = pl_engSym p" using rec(1) by (simp add: records_def)
  obtain l0 where c: "sane_store ?r" by (rule coveredE[OF D(1)]) blast
  have "sane_store r'"
    by (rule sane_storeI[OF co]) (use get sane_storeD(2)[OF c(1)] records_sane[OF pl rec(1)] in \<open>auto split: if_splits\<close>)
  then have cov: "covered s2"
    by (rule coveredI[OF _ s2(2), unfolded s2(1)]) (use res assets_frame[OF s2(5)] in simp)
  have "agree r' inst2 ((if inst2 = pl_engSym p then live ?ord else []) @ OpenOrders (en_book (ed_engine s)) inst2)" for inst2
  proof (rule agree_new[OF D(4) none get])
    have "pl_typ p = ''LIMIT'' \<or> pl_typ p = ''MARKET''" "0 < toBig (pl_qty p)" "pl_sideStr p = ''BUY'' \<longleftrightarrow> pl_side p = SideBuy"
      using pl by (auto simp: placeable_def)
    then show "if (if inst2 = pl_engSym p then live ?ord else []) = [] then or_Type rec = ''MARKET'' \<or> or_EngineSymbol rec \<noteq> inst2
      else \<exists>x. (if inst2 = pl_engSym p then live ?ord else []) = [x] \<and> ord_ID x = e \<and> isEdgeOrder e \<and> ord_Instrument x = inst2 \<and> twin rec x"
      using rec edge by (auto simp: live_def placed_order_def twin_def records_def)
  qed
  then have "edge_with (pl_engSym p) (live ?ord) s2"
    unfolding edge_with_def using cov D(2,3,5) s2 opt2 by simp
  moreover have "taker_ok (ed_registry s2) (pl_engSym p) ?ord"
    using rec get s2(1) by (simp add: taker_ok_def placed_order_def records_def)
  ultimately show ?thesis by blast
qed

text \<open>The ways a placement goes once its record is stored.\<close>

definition finish_placement ::
    "(trade list \<Rightarrow> order_record \<Rightarrow> 'a option) \<Rightarrow> (engine_error \<Rightarrow> string) \<Rightarrow> int \<Rightarrow> string \<Rightarrow> decimal \<Rightarrow> placement \<Rightarrow> edge \<Rightarrow>
     ((api_error + 'a) \<times> edge) option" where
  "finish_placement answer em oid asset amt pm s =
     (case pm_error pm of
        Some e \<Rightarrow> do {
          s \<leftarrow> with_ledger (\<lambda>l. Unlock l asset amt) (s\<lparr>ed_registry := bin_Remove (ed_registry s) oid\<rparr>);
          Some (Inl (errInternal (em e)), s)
        }
      | None \<Rightarrow> do { a \<leftarrow> answer (pm_trades pm) (snapshot_or_zero (ed_registry s) oid); Some (Inr a, s) })"

lemma placed_order_market: "ord_IsMarket (placed_order api p rec) \<longleftrightarrow> pl_typ p = ''MARKET''"
  by (simp add: placed_order_def)

lemma place_order_eq:
  assumes "bin_RecordUnique (ed_registry s) (pl_binSym p) (pl_engSym p) (pl_sideStr p) (pl_typ p) (pl_tif p) (pl_price p)
      (pl_qty p) (pl_clientOrderID p) n = (Inr ptr, r')"
    and "rg_heap r' ! ptr = rec"
  shows "place_order pair api answer em n p s = do {
      ((ok, asset, amt), s2) \<leftarrow> reserve pair p (s\<lparr>ed_registry := r'\<rparr>);
      if \<not> ok then Some (Inl errInsufficientBalance, s2\<lparr>ed_registry := bin_Remove (ed_registry s2) (or_OrderID rec)\<rparr>)
      else do {
        (pm, s4) \<leftarrow> (if ord_IsMarket (placed_order api p rec)
          then edge_PlaceMarket n (placed_order api p rec) (emitExecutionReport n (or_EngineID rec) ''NEW'' Zero Zero s2)
          else edge_PlaceLimit n (placed_order api p rec) (emitExecutionReport n (or_EngineID rec) ''NEW'' Zero Zero s2));
        finish_placement answer em (or_OrderID rec) asset amt pm s4
      }
    }"
  unfolding place_order_def assms(1) prod.case sum.case Let_def edge.simps assms(2) placed_order_market finish_placement_def ..

lemma place_order_stored:
  assumes "place_order pair api answer em n p s = Some (res, s')"
    and "bin_RecordUnique (ed_registry s) (pl_binSym p) (pl_engSym p) (pl_sideStr p) (pl_typ p) (pl_tif p) (pl_price p)
      (pl_qty p) (pl_clientOrderID p) n = (Inr ptr, r')"
    and "rg_heap r' ! ptr = rec"
  obtains (poor) asset amt s2 where "reserve pair p (s\<lparr>ed_registry := r'\<rparr>) = Some ((False, asset, amt), s2)"
      "s' = s2\<lparr>ed_registry := bin_Remove (ed_registry s2) (or_OrderID rec)\<rparr>" "res = Inl errInsufficientBalance"
  | (funded) asset amt s2 pm s4 where "reserve pair p (s\<lparr>ed_registry := r'\<rparr>) = Some ((True, asset, amt), s2)"
      "(if ord_IsMarket (placed_order api p rec)
        then edge_PlaceMarket n (placed_order api p rec) (emitExecutionReport n (or_EngineID rec) ''NEW'' Zero Zero s2)
        else edge_PlaceLimit n (placed_order api p rec) (emitExecutionReport n (or_EngineID rec) ''NEW'' Zero Zero s2)) = Some (pm, s4)"
      "finish_placement answer em (or_OrderID rec) asset amt pm s4 = Some (res, s')"
proof -
  note eq = assms(1)[unfolded place_order_eq[OF assms(2,3)]]
  from eq obtain ok asset amt s2 where r2: "reserve pair p (s\<lparr>ed_registry := r'\<rparr>) = Some ((ok, asset, amt), s2)"
    by (cases "reserve pair p (s\<lparr>ed_registry := r'\<rparr>)") auto
  show thesis
  proof (cases ok)
    case False
    with r2 eq show thesis by (intro poor) auto
  next
    case True
    let ?s3 = "emitExecutionReport n (or_EngineID rec) ''NEW'' Zero Zero s2"
    let ?go = "if ord_IsMarket (placed_order api p rec) then edge_PlaceMarket n (placed_order api p rec) ?s3
      else edge_PlaceLimit n (placed_order api p rec) ?s3"
    have all: "do { (pm, s4) \<leftarrow> ?go; finish_placement answer em (or_OrderID rec) asset amt pm s4 } = Some (res, s')"
      using eq r2 True by simp
    then obtain pm s4 where "?go = Some (pm, s4)" by (cases ?go) auto
    with all r2 True show thesis by (intro funded) simp_all
  qed
qed

text \<open>Nothing happened that anybody could see: the orders, the book and the balances are as before.\<close>

definition unaffected :: "edge \<Rightarrow> edge \<Rightarrow> bool" where
  "unaffected s s' \<longleftrightarrow> bin_getByEngine (ed_registry s') = bin_getByEngine (ed_registry s) \<and>
     ob_instruments (en_book (ed_engine s')) = ob_instruments (en_book (ed_engine s)) \<and>
     map_option account_of (ed_ledger s') = map_option account_of (ed_ledger s)"

lemma unaffected_refl [simp]: "unaffected s s"
  by (simp add: unaffected_def)

lemma place_order_edge:
  assumes inv: "edge_inv s" and pl: "placeable p" and pair: "assets s (pl_engSym p) = pair"
    and bound: "sint (rg_seq (ed_registry s)) < 2 ^ 63 - 1" and run: "place_order pair api answer em n p s = Some (res, s')"
  shows "edge_inv s' \<and> sint (rg_seq (ed_registry s')) = sint (rg_seq (ed_registry s)) + 1 \<and>
    (\<forall>e. res = Inl e \<longrightarrow> unaffected s s')"
proof -
  let ?r = "ed_registry s" and ?A = "assets s" and ?oid = "sint (rg_seq (ed_registry s)) + 1"
  note D = edge_invD[OF inv]
  obtain l where c: "sane_store ?r" "ed_ledger s = Some l" "\<And>a. reserved ?A ?r a \<le> lk l a" by (rule coveredE[OF D(1)]) blast
  have co: "coherent_reg ?r" using sane_storeD(1)[OF c(1)] .
  obtain out r' where rec: "bin_RecordUnique ?r (pl_binSym p) (pl_engSym p) (pl_sideStr p) (pl_typ p) (pl_tif p) (pl_price p)
      (pl_qty p) (pl_clientOrderID p) n = (out, r')" by fastforce
  have next_co: "coherent_reg r'" "sint (rg_seq r') = ?oid" using coherent_RecordUnique[OF co bound rec] by blast+
  show ?thesis
  proof (cases out)
    case (Inl err)
    then have s': "s' = s\<lparr>ed_registry := r'\<rparr>" using run rec by (simp add: place_order_def)
    have same: "bin_getByEngine r' = bin_getByEngine ?r \<and> reserved ?A r' = reserved ?A ?r"
      using rec coherent_seq[OF co] bound
      by (cases rule: RecordUnique_cases) (use Inl in \<open>auto simp: bin_getByEngine_def reserved_def fun_eq_iff\<close>)
    have "edge_inv s'" by (rule edge_same_orders[OF inv, of s' l]) (use s' next_co(1) same c in simp_all)
    moreover have "unaffected s s'" using s' same c(2) by (simp add: unaffected_def)
    ultimately show ?thesis using s' next_co(2) by simp
  next
    case (Inr ptr)
    let ?s1 = "s\<lparr>ed_registry := r'\<rparr>"
    define rc where "rc = placed_record p ?oid n"
    note st = RecordUnique_stored[OF co bound rec[unfolded Inr], folded rc_def]
    have recs: "records p rc" "or_EngineID rc = bin_EngineID ?oid" "or_OrderID rc = ?oid"
      unfolding rc_def using placed_records by simp_all
    have rm: "bin_getByEngine (bin_Remove r' ?oid) = bin_getByEngine ?r" "reserved ?A (bin_Remove r' ?oid) a = reserved ?A ?r a"
      "coherent_reg (bin_Remove r' ?oid)" "rg_seq (bin_Remove r' ?oid) = rg_seq r'" for a
      using Remove_effect[OF st(2,3)] coherent_Remove[OF st(2)] st(1,4,5,6) by (auto simp: fun_upd_idem)
    have reserved_ok: "\<exists>l'. s2 = ?s1\<lparr>ed_ledger := Some l'\<rparr> \<and>
        (\<forall>a. lk l' a = lk l a + (if ok then reservation ?A rc a else 0) \<and> fr l' a = fr l a - (if ok then reservation ?A rc a else 0)) \<and>
        (\<forall>a. reservation ?A rc a = (if a = asset then toBig amt else 0)) \<and> 0 \<le> toBig amt"
      if "reserve pair p ?s1 = Some ((ok, asset, amt), s2)" for ok asset amt s2
      using reserve_effect[OF that _ pl recs(1), of l ?A] pair c(2) by simp
    from run rec[unfolded Inr] st(1) show ?thesis
    proof (cases rule: place_order_stored)
      case (poor asset amt s2)
      from reserved_ok[OF poor(1)] obtain l' where l': "s2 = ?s1\<lparr>ed_ledger := Some l'\<rparr>" "lk l' = lk l" "fr l' = fr l" by (auto simp: fun_eq_iff)
      have s': "s' = s2\<lparr>ed_registry := bin_Remove r' ?oid\<rparr>" using poor(2) l'(1) recs(3) by simp
      have "edge_inv s'" by (rule edge_same_orders[OF inv, of s' l']) (use s' l' rm c in simp_all)
      moreover have "unaffected s s'" using s' l' rm(1) c(2) by (simp add: unaffected_def account_of_def)
      ultimately show ?thesis using s' rm(4) next_co(2) by simp
    next
      case (funded asset amt s2 pm s4)
      from reserved_ok[OF funded(1)] obtain l' where l': "s2 = ?s1\<lparr>ed_ledger := Some l'\<rparr>"
        "\<And>a. lk l' a = lk l a + reservation ?A rc a" "\<And>a. reservation ?A rc a = (if a = asset then toBig amt else 0)" "0 \<le> toBig amt"
        "\<And>a. fr l' a = fr l a - reservation ?A rc a" by auto
      let ?s3 = "emitExecutionReport n (or_EngineID rc) ''NEW'' Zero Zero s2"
      have s3: "ed_registry ?s3 = r'" "ed_ledger ?s3 = Some l'" "ed_engine ?s3 = ed_engine s" "ed_symbols ?s3 = ed_symbols s"
        "ed_optMarket ?s3 = ed_optMarket s" by (simp_all add: l'(1))
      have "reserved ?A r' a \<le> lk l' a" for a using st(6)[of ?A a] c(3)[of a] l'(2)[of a] by simp
      from stored_with[OF inv pl st(4,5,2) recs(1,2) this s3]
      have with3: "edge_with (pl_engSym p) (live (placed_order api p rc)) ?s3" "taker_ok (ed_registry ?s3) (pl_engSym p) (placed_order api p rc)"
        by blast+
      have "ord_Instrument (placed_order api p rc) = pl_engSym p" by (simp add: placed_order_def)
      from with3 this funded(2) show ?thesis
      proof (cases rule: enter_engine)
        case (refused e')
        then obtain l2 where un: "Unlock l' asset amt = Some l2"
            and s': "s' = ?s3\<lparr>ed_engine := e', ed_registry := bin_Remove r' ?oid, ed_ledger := Some l2\<rparr>"
          using funded(3) recs(3) s3 by (auto simp: finish_placement_def with_ledger_def bind_eq_Some_conv)
        have "0 \<le> lk l asset" using c(3)[of asset] sane_reserved[OF c(1), of ?A asset] by simp
        then have "min (toBig amt) (lk l' asset) = toBig amt" using l'(2,3)[of asset] by simp
        then have restored: "lk l2 a = lk l a" "fr l2 a = fr l a" for a
          using un release_locked[of l' asset amt l2] l'(2-5) by (auto simp: Unlock_def split: if_splits)
        then have "edge_inv s'" by (intro edge_same_orders[OF inv, of s' l2]) (use s' refused(2) rm c s3 restored in simp_all)
        moreover have "unaffected s s'" using s' refused(2) rm(1) c(2) restored s3 by (simp add: unaffected_def account_of_def fun_eq_iff)
        ultimately show ?thesis using s' rm(4) next_co(2) by simp
      next
        case placed
        then show ?thesis using funded(3) s3(1) next_co(2) by (auto simp: finish_placement_def bind_eq_Some_conv)
      qed
    qed
  qed
qed

end
