(* ===== verification/BinanceOptions.thy ===== *)
theory BinanceOptions
  imports BinanceEdge
begin

text \<open>
  The option half of \<^verbatim>\<open>internal/api/binance\<close>: \<^verbatim>\<open>options_order.go\<close> (order entry, cancellation, the expiry sweep with its
  settlement in cash), \<^verbatim>\<open>options.go\<close> and \<^verbatim>\<open>eapi.go\<close> (market data). Orders on listed options go to the same engine as the spot
  orders; they reserve and settle in the contract's own asset. The routes exist when there is an options market. A request is
  handled at the surroundings \<open>e\<close>, the reading of the clock included. The sweep runs on an edge whose hooks are attached, so its
  \<^verbatim>\<open>bookRef\<close> is the book of the engine; its log lines are left out.
\<close>

subsection \<open>Errors\<close>

definition errPriceNotWithinBands :: api_error where
  "errPriceNotWithinBands = \<lparr>ae_Code = -4164, ae_Msg = ''Price not within specified band.'', ae_status = 400\<rparr>"

definition errContractSettled :: api_error where
  "errContractSettled = \<lparr>ae_Code = -4169, ae_Msg = ''Option expired or already settled.'', ae_status = 400\<rparr>"

subsection \<open>Texts of market data\<close>

text \<open>\<^verbatim>\<open>FormatFloat(f, 'f', 8, 64)\<close>: the nearest number of hundred-millionths, the even one of two.\<close>

definition eapiNum :: "float64 \<Rightarrow> string" where
  "eapiNum f =
     (case f of NaN \<Rightarrow> ''NaN'' | Infinite n \<Rightarrow> (if n then ''-Inf'' else ''+Inf'')
      | Finite m e \<Rightarrow>
          let p = ratio_num \<bar>m\<bar> e * 10 ^ 8; q = ratio_den e; n = p div q; r = p mod q;
              n = (if 2 * r > q \<or> 2 * r = q \<and> odd n then n + 1 else n);
              frac = nat_string (nat (n mod 10 ^ 8))
          in (if m < 0 then ''-'' else []) @ nat_string (nat (n div 10 ^ 8)) @ ''.'' @ replicate (8 - length frac) (CHR ''0'') @ frac)"

record mark_data =
  md_Symbol :: string
  md_MarkPrice :: string
  md_BidIV :: string
  md_AskIV :: string
  md_MarkIV :: string
  md_Delta :: string
  md_Theta :: string
  md_Gamma :: string
  md_Vega :: string
  md_HighPriceLimit :: string
  md_LowPriceLimit :: string
  md_RiskFreeInterest :: string

record eapi_depth =
  dp_T :: int
  dp_U :: int
  dp_Bids :: "(string \<times> string) list"
  dp_Asks :: "(string \<times> string) list"

record option_symbol_info =
  oi_Symbol :: string
  oi_Underlying :: string
  oi_QuoteAsset :: string
  oi_StrikePrice :: string
  oi_ExpiryDate :: int
  oi_Side :: string
  oi_Unit :: int
  oi_PriceScale :: int
  oi_QuantityScale :: int
  oi_ExerciseStyle :: string
  oi_Settlement :: string
  oi_IndexRule :: string
  oi_Multiplier :: float64

record exotic_mark_data =
  xm_Symbol :: string
  xm_Price :: string
  xm_Bid :: string
  xm_Ask :: string
  xm_MarkIV :: string
  xm_BidIV :: string
  xm_AskIV :: string
  xm_HighPriceLimit :: string
  xm_LowPriceLimit :: string
  xm_Pricer :: string
  xm_Model :: string
  xm_RiskFreeInterest :: string

definition ProjectMark :: "mark \<Rightarrow> mark_data" where
  "ProjectMark mk =
     \<lparr>md_Symbol = mk_Symbol mk, md_MarkPrice = eapiNum (mk_Price mk), md_BidIV = eapiNum (mk_BidIV mk),
      md_AskIV = eapiNum (mk_AskIV mk), md_MarkIV = eapiNum (mk_MarkIV mk), md_Delta = eapiNum (mk_Delta mk),
      md_Theta = eapiNum (mk_Theta mk), md_Gamma = eapiNum (mk_Gamma mk), md_Vega = eapiNum (mk_Vega mk),
      md_HighPriceLimit = eapiNum (mk_HighPriceLimit mk), md_LowPriceLimit = eapiNum (mk_LowPriceLimit mk),
      md_RiskFreeInterest = eapiNum (mk_Rate mk)\<rparr>"

definition ProjectMarks :: "mark list \<Rightarrow> mark_data list" where
  "ProjectMarks mks = map ProjectMark mks"

definition ProjectDepth :: "option_book \<Rightarrow> eapi_depth" where
  "ProjectDepth b =
     (let levels = map (\<lambda>(price, size). (eapiNum price, eapiNum size))
      in \<lparr>dp_T = ok_TimeMs b, dp_U = ok_UpdateID b, dp_Bids = levels (ok_Bids b), dp_Asks = levels (ok_Asks b)\<rparr>)"

definition ProjectExchangeInfo :: "contract list \<Rightarrow> int \<Rightarrow> int \<times> option_symbol_info list" where
  "ProjectExchangeInfo contracts serverTime =
     (serverTime, map (\<lambda>c. \<lparr>oi_Symbol = ct_Symbol c, oi_Underlying = ct_Underlying c, oi_QuoteAsset = ct_Quote c,
        oi_StrikePrice = FormatFloat (ct_Strike c), oi_ExpiryDate = ct_ExpiryMs c, oi_Side = ct_Side c, oi_Unit = ct_Unit c,
        oi_PriceScale = ct_PriceScale c, oi_QuantityScale = ct_QuantityScale c, oi_ExerciseStyle = ct_ExerciseStyle c,
        oi_Settlement = ct_Settlement c, oi_IndexRule = ct_IndexRule c, oi_Multiplier = ct_Multiplier c\<rparr>) contracts)"

definition ProjectIndex :: "float64 \<times> int \<Rightarrow> string \<times> int" where
  "ProjectIndex s = (eapiNum (fst s), snd s)"

definition projectExoticMark :: "mark \<Rightarrow> exotic_mark_data" where
  "projectExoticMark mk =
     \<lparr>xm_Symbol = mk_Symbol mk, xm_Price = eapiNum (mk_Price mk), xm_Bid = eapiNum (mk_Bid mk), xm_Ask = eapiNum (mk_Ask mk),
      xm_MarkIV = eapiNum float_zero, xm_BidIV = eapiNum float_zero, xm_AskIV = eapiNum float_zero,
      xm_HighPriceLimit = eapiNum (mk_HighPriceLimit mk), xm_LowPriceLimit = eapiNum (mk_LowPriceLimit mk),
      xm_Pricer = mk_Pricer mk, xm_Model = mk_Model mk, xm_RiskFreeInterest = eapiNum (mk_Rate mk)\<rparr>"

subsection \<open>Market data\<close>

record option_fill =
  of_Symbol :: string
  of_Price :: string
  of_Quantity :: string
  of_Side :: string

record option_status =
  ot_Symbol :: string
  ot_OrderID :: int
  ot_ClientOrderID :: string
  ot_Side :: string
  ot_Type :: string
  ot_Price :: string
  ot_Quantity :: string
  ot_ExecutedQuantity :: string
  ot_CumulativeQuoteQty :: string
  ot_AvgPrice :: string
  ot_Status :: string

datatype option_answer =
    OptionCommon answer
  | OptionExchangeInfo "int \<times> option_symbol_info list"
  | OptionMarks "mark_data list"
  | OptionExoticMarks "exotic_mark_data list"
  | OptionDepth eapi_depth
  | OptionIndex "string \<times> int"
  | OptionPlaced option_status "option_fill list"
  | OptionState option_status
  | OptionOrders "option_status list"

definition handleOptionExchangeInfo :: "surroundings \<Rightarrow> request \<Rightarrow> opt_market \<Rightarrow> api_error + option_answer" where
  "handleOptionExchangeInfo e rq om =
     (if rq_Method rq \<noteq> ''GET'' then Inl (errIllegalParam ''method'')
      else let contracts = Contracts om;
               now = (case contracts of [] \<Rightarrow> 0
                 | c # cs \<Rightarrow> (case market_Index e (ct_Underlying c) of Inl err \<Rightarrow> 0 | Inr spot \<Rightarrow> snd spot))
           in Inr (OptionExchangeInfo (ProjectExchangeInfo contracts now)))"

definition handleOptionMark ::
    "surroundings \<Rightarrow> request \<Rightarrow> opt_market \<Rightarrow> ((api_error + option_answer) \<times> opt_market) option" where
  "handleOptionMark e rq om =
     (if rq_Method rq \<noteq> ''GET'' then Some (Inl (errIllegalParam ''method''), om)
      else if rq_Query rq ''symbol'' \<noteq> [] then do {
        (res, om) \<leftarrow> market_Mark e om (rq_Query rq ''symbol'');
        Some (case res of Inl err \<Rightarrow> Inl errInvalidSymbol
          | Inr mk \<Rightarrow> if mk_Pricer mk \<noteq> [] then Inl (errIllegalParam ''symbol'') else Inr (OptionMarks [ProjectMark mk]), om)
      }
      else do {
        (mks, om) \<leftarrow> Marks e om;
        Some (Inr (OptionMarks (map ProjectMark (filter (\<lambda>mk. mk_Pricer mk = []) mks))), om)
      })"

definition handleOptionExoticMark ::
    "surroundings \<Rightarrow> request \<Rightarrow> opt_market \<Rightarrow> ((api_error + option_answer) \<times> opt_market) option" where
  "handleOptionExoticMark e rq om =
     (if rq_Method rq \<noteq> ''GET'' then Some (Inl (errIllegalParam ''method''), om)
      else if rq_Query rq ''symbol'' \<noteq> [] then do {
        (res, om) \<leftarrow> market_Mark e om (rq_Query rq ''symbol'');
        Some (case res of Inl err \<Rightarrow> Inl errInvalidSymbol
          | Inr mk \<Rightarrow> if mk_Pricer mk = [] then Inl (errIllegalParam ''symbol'')
              else Inr (OptionExoticMarks [projectExoticMark mk]), om)
      }
      else do {
        (mks, om) \<leftarrow> Marks e om;
        Some (Inr (OptionExoticMarks (map projectExoticMark (filter (\<lambda>mk. mk_Pricer mk \<noteq> []) mks))), om)
      })"

definition handleOptionDepth ::
    "surroundings \<Rightarrow> request \<Rightarrow> opt_market \<Rightarrow> ((api_error + option_answer) \<times> opt_market) option" where
  "handleOptionDepth e rq om =
     (if rq_Method rq \<noteq> ''GET'' then Some (Inl (errIllegalParam ''method''), om)
      else if rq_Query rq ''symbol'' = [] then Some (Inl (errMandatoryParam ''symbol''), om)
      else
        let v = rq_Query rq ''limit'';
            limit = (if v = [] then Some 100 else case Atoi v of None \<Rightarrow> None | Some n \<Rightarrow> if n \<le> 0 then None else Some n)
        in case limit of None \<Rightarrow> Some (Inl (errIllegalParam ''limit''), om)
           | Some limit \<Rightarrow> do {
               (res, om) \<leftarrow> option_Depth e om (rq_Query rq ''symbol'') limit;
               Some (case res of Inl err \<Rightarrow> Inl errInvalidSymbol | Inr d \<Rightarrow> Inr (OptionDepth (ProjectDepth d)), om)
             })"

definition handleOptionIndex :: "surroundings \<Rightarrow> request \<Rightarrow> api_error + option_answer" where
  "handleOptionIndex e rq =
     (if rq_Method rq \<noteq> ''GET'' then Inl (errIllegalParam ''method'')
      else if rq_Query rq ''underlying'' = [] then Inl (errMandatoryParam ''underlying'')
      else case market_Index e (rq_Query rq ''underlying'') of Inl err \<Rightarrow> Inl errInvalidSymbol
        | Inr idx \<Rightarrow> Inr (OptionIndex (ProjectIndex idx)))"

subsection \<open>Reading option orders\<close>

text \<open>The average price divides, which may overflow.\<close>

definition optionOrderView :: "order_record \<Rightarrow> option_status option" where
  "optionOrderView rec = do {
     avg \<leftarrow> (if Sign (or_ExecutedQty rec) > 0
       then do { x \<leftarrow> Div (or_CummulativeQuoteQty rec) (or_ExecutedQty rec); Some (StringPrec x pricePrec) } else Some ''0'');
     Some \<lparr>ot_Symbol = or_BinanceSymbol rec, ot_OrderID = or_OrderID rec, ot_ClientOrderID = or_ClientOrderID rec,
       ot_Side = or_Side rec, ot_Type = or_Type rec, ot_Price = StringPrec (or_Price rec) pricePrec,
       ot_Quantity = StringPrec (or_OrigQty rec) qtyPrec, ot_ExecutedQuantity = StringPrec (or_ExecutedQty rec) qtyPrec,
       ot_CumulativeQuoteQty = StringPrec (or_CummulativeQuoteQty rec) pricePrec, ot_AvgPrice = avg, ot_Status = or_Status rec\<rparr>
   }"

definition optionOrderQuery :: "string \<Rightarrow> request \<Rightarrow> registry \<Rightarrow> order_record option" where
  "optionOrderQuery name rq r =
     (let idStr = rq_Query rq ''orderId''; coid = rq_Query rq ''origClientOrderId'';
          rec = (if idStr \<noteq> [] then (case Atoi idStr of None \<Rightarrow> None | Some oid \<Rightarrow> if oid \<le> 0 then None else bin_Get r oid)
            else if coid \<noteq> [] then bin_GetByClientOrderID r coid else None)
      in case rec of None \<Rightarrow> None
         | Some rec \<Rightarrow>
             if \<not> isOptionBookSymbol (or_EngineSymbol rec) then None
             else if name \<noteq> [] \<and> or_EngineSymbol rec \<noteq> name then None
             else Some rec)"

definition option_state :: "order_record \<Rightarrow> edge \<Rightarrow> ((api_error + option_answer) \<times> edge) option" where
  "option_state rec s = do { v \<leftarrow> optionOrderView rec; Some (Inr (OptionState v), s) }"

definition optionQueryOrder :: "verifier \<Rightarrow> request \<Rightarrow> edge \<Rightarrow> ((api_error + option_answer) \<times> edge) option" where
  "optionQueryOrder verify rq s =
     (case verify rq of Some err \<Rightarrow> Some (Inl err, s)
      | None \<Rightarrow>
         let symC = rq_Query rq ''symbol''
         in if symC = [] then Some (Inl (errMandatoryParam ''symbol''), s)
            else case optionOrderQuery symC rq (ed_registry s) of None \<Rightarrow> Some (Inl errUnknownOrder, s)
            | Some rec \<Rightarrow> option_state (snapshot_or_zero (ed_registry s) (or_OrderID rec)) s)"

definition optionOpenOrders :: "verifier \<Rightarrow> request \<Rightarrow> edge \<Rightarrow> ((api_error + option_answer) \<times> edge) option" where
  "optionOpenOrders verify rq s =
     (case verify rq of Some err \<Rightarrow> Some (Inl err, s)
      | None \<Rightarrow> do {
         vs \<leftarrow> those (map optionOrderView
           (filter (\<lambda>rec. isOptionBookSymbol (or_EngineSymbol rec)) (bin_OpenOrders (ed_registry s) (rq_Query rq ''symbol''))));
         Some (Inr (OptionOrders vs), s)
       })"

definition cancel_option :: "int \<Rightarrow> order_record \<Rightarrow> edge \<Rightarrow> ((api_error + option_answer) \<times> edge) option" where
  "cancel_option now rec s = do {
     (res, s) \<leftarrow> edge_CancelOrder now (or_EngineSymbol rec) (or_EngineID rec) s;
     (case res of
        Inl err \<Rightarrow>
          let cur = snapshot_or_zero (ed_registry s) (or_OrderID rec)
          in if or_Status cur = statusFilled \<or> or_Status cur = statusCanceled then option_state cur s
             else Some (Inl errUnknownOrder, s)
      | Inr x \<Rightarrow>
          let s = s\<lparr>ed_registry := bin_MarkCanceled (ed_registry s) (or_OrderID rec) now\<rparr>
          in option_state (snapshot_or_zero (ed_registry s) (or_OrderID rec)) s)
   }"

definition optionCancelOrder :: "verifier \<Rightarrow> int \<Rightarrow> request \<Rightarrow> edge \<Rightarrow> ((api_error + option_answer) \<times> edge) option" where
  "optionCancelOrder verify now rq s =
     (case verify rq of Some err \<Rightarrow> Some (Inl err, s)
      | None \<Rightarrow>
         let symC = rq_Query rq ''symbol''
         in if symC = [] then Some (Inl (errMandatoryParam ''symbol''), s)
            else case optionOrderQuery symC rq (ed_registry s) of None \<Rightarrow> Some (Inl errUnknownOrder, s)
            | Some rec \<Rightarrow> cancel_option now rec s)"

subsection \<open>Placing an option order\<close>

definition parse_option :: "request \<Rightarrow> api_error + place_request" where
  "parse_option rq =
     (let name = param rq ''symbol''; sd = param rq ''side''
      in if sd \<noteq> ''BUY'' \<and> sd \<noteq> ''SELL'' then Inl (errIllegalParam ''side'')
      else if param rq ''type'' \<noteq> ''LIMIT'' then Inl (errIllegalParam ''type'')
      else case parseDecimalParam (param rq ''quantity'') ''quantity'' of Inl err \<Rightarrow> Inl err
      | Inr qty \<Rightarrow>
      if Sign qty \<le> 0 then Inl (errIllegalParam ''quantity'')
      else case parseDecimalParam (param rq ''price'') ''price'' of Inl err \<Rightarrow> Inl err
      | Inr px \<Rightarrow>
      if Sign px \<le> 0 then Inl (errIllegalParam ''price'')
      else Inr \<lparr>pl_binSym = name, pl_engSym = name, pl_sideStr = sd, pl_side = (if sd = ''BUY'' then SideBuy else SideSell),
        pl_typ = ''LIMIT'', pl_tif = (if param rq ''timeInForce'' = [] then ''GTC'' else param rq ''timeInForce''),
        pl_price = px, pl_qty = qty, pl_clientOrderID = param rq ''newClientOrderId''\<rparr>)"

text \<open>Whether the contract can be traded, asked before the other parameters are read.\<close>

definition tradeable :: "surroundings \<Rightarrow> opt_market \<Rightarrow> string \<Rightarrow> api_error option" where
  "tradeable e om name =
     (if \<not> IsListed om name then Some errInvalidSymbol
      else if IsSettled om name then Some errContractSettled
      else case ExpiryOf om name of None \<Rightarrow> None
        | Some exp \<Rightarrow> if su_now e \<ge> exp then Some errContractSettled else None)"

definition outside_band :: "mark \<Rightarrow> decimal \<Rightarrow> bool" where
  "outside_band mk px \<longleftrightarrow>
     (let p = Float64 px
      in float_less float_zero (mk_HighPriceLimit mk) \<and> float_less (mk_HighPriceLimit mk) p \<or>
         float_less float_zero (mk_LowPriceLimit mk) \<and> float_less p (mk_LowPriceLimit mk))"

definition optionPlaceOrder ::
    "verifier \<Rightarrow> (engine_error \<Rightarrow> string) \<Rightarrow> surroundings \<Rightarrow> request \<Rightarrow> edge \<Rightarrow> ((api_error + option_answer) \<times> edge) option" where
  "optionPlaceOrder verify error_msg e rq s =
     (case ed_optMarket s of None \<Rightarrow> Some (Inl errInvalidSymbol, s)
      | Some om \<Rightarrow>
     (case verify rq of Some err \<Rightarrow> Some (Inl err, s)
      | None \<Rightarrow>
     (case tradeable e om (param rq ''symbol'') of Some err \<Rightarrow> Some (Inl err, s)
      | None \<Rightarrow>
     (case parse_option rq of Inl err \<Rightarrow> Some (Inl err, s)
      | Inr p \<Rightarrow> do {
          (res, om) \<leftarrow> market_Mark e om (pl_engSym p);
          let s = s\<lparr>ed_optMarket := Some om\<rparr>;
          if (case res of Inl err \<Rightarrow> False | Inr mk \<Rightarrow> outside_band mk (pl_price p)) then Some (Inl errPriceNotWithinBands, s)
          else
            let (quote, contractAsset) = (case QuoteAndAsset om (pl_engSym p) of Some qa \<Rightarrow> qa | None \<Rightarrow> ([], []))
            in place_order (contractAsset, quote) ''eapi''
                 (\<lambda>trades snap. do {
                    v \<leftarrow> optionOrderView snap;
                    Some (OptionPlaced v (map (\<lambda>t. \<lparr>of_Symbol = pl_engSym p, of_Price = StringPrec (tr_Price t) pricePrec,
                      of_Quantity = StringPrec (tr_Volume t) qtyPrec, of_Side = pl_sideStr p\<rparr>) trades))
                  })
                 error_msg (unix_milli (su_now e)) p s
        }))))"

definition handleOptionOrder ::
    "verifier \<Rightarrow> (engine_error \<Rightarrow> string) \<Rightarrow> surroundings \<Rightarrow> request \<Rightarrow> edge \<Rightarrow> ((api_error + option_answer) \<times> edge) option" where
  "handleOptionOrder verify error_msg e rq s =
     (if rq_Method rq = ''POST'' then optionPlaceOrder verify error_msg e rq s
      else if rq_Method rq = ''GET'' then optionQueryOrder verify rq s
      else if rq_Method rq = ''DELETE'' then optionCancelOrder verify (unix_milli (su_now e)) rq s
      else Some (Inl (errIllegalParam ''method''), s))"

subsection \<open>The expiry sweep\<close>

definition defaultOptionPositions :: "string \<Rightarrow> edge \<Rightarrow> decimal \<times> edge" where
  "defaultOptionPositions name s =
     (case (ed_ledger s, ed_optMarket s) of
        (Some l, Some om) \<Rightarrow>
          (case QuoteAndAsset om name of None \<Rightarrow> (Zero, s)
           | Some (quote, asset) \<Rightarrow> let (b, l) = Get l asset in (bl_Free b, s\<lparr>ed_ledger := Some l\<rparr>))
      | _ \<Rightarrow> (Zero, s))"

definition settleOptionCash :: "settlement \<Rightarrow> decimal \<Rightarrow> edge \<Rightarrow> edge option" where
  "settleOptionCash rec longQty s =
     (if ed_ledger s = None \<or> IsZero longQty then Some s
      else case ed_optMarket s of None \<Rightarrow> None
      | Some om \<Rightarrow>
     (case QuoteAndAsset om (st_Symbol rec) of None \<Rightarrow> Some s
      | Some (quote, asset) \<Rightarrow> do {
          unit \<leftarrow> FromFloat (st_PerUnit rec);
          cash \<leftarrow> Mul longQty unit;
          s \<leftarrow> with_ledger (\<lambda>l. Credit l quote cash) s;
          with_ledger (\<lambda>l. Burn l asset longQty) s
        }))"

text \<open>The sweep cancels at the book, not at the engine.\<close>

definition book_cancel :: "int \<Rightarrow> string \<Rightarrow> string \<Rightarrow> edge \<Rightarrow> edge option" where
  "book_cancel now inst oid s =
     (let (res, b) = CancelOrder (en_book (ed_engine s)) inst oid in engine_ran now ((ed_engine s)\<lparr>en_book := b\<rparr>) s)"

definition edge_settler :: "surroundings \<Rightarrow> edge \<Rightarrow> edge settler" where
  "edge_settler e s0 =
     \<lparr>sl_OpenOrders = (\<lambda>s. OpenOrders (en_book (ed_engine s))), sl_CancelOrder = book_cancel (unix_milli (su_now e)),
      sl_positions = defaultOptionPositions, sl_onSettle = (if ed_ledger s0 = None then None else Some settleOptionCash)\<rparr>"

definition SettleOptions :: "surroundings \<Rightarrow> edge \<Rightarrow> (settlement list \<times> edge) option" where
  "SettleOptions e s =
     (case ed_optMarket s of None \<Rightarrow> Some ([], s)
      | Some om \<Rightarrow> do {
          (rs, om, s) \<leftarrow> market_Settle e (edge_settler e s) (om, s);
          Some (rs, s\<lparr>ed_optMarket := Some om\<rparr>)
        })"

subsection \<open>Routes\<close>

text \<open>The option routes; \<open>None\<close> inside the result is a path that is not served.\<close>

definition market_route ::
    "(opt_market \<Rightarrow> ((api_error + option_answer) \<times> opt_market) option) \<Rightarrow> edge \<Rightarrow> opt_market \<Rightarrow>
      ((api_error + option_answer) option \<times> edge) option" where
  "market_route h s om = do { (res, om) \<leftarrow> h om; Some (Some res, s\<lparr>ed_optMarket := Some om\<rparr>) }"

definition serve_options ::
    "verifier \<Rightarrow> (engine_error \<Rightarrow> string) \<Rightarrow> surroundings \<Rightarrow> string \<Rightarrow> request \<Rightarrow> edge \<Rightarrow>
      ((api_error + option_answer) option \<times> edge) option" where
  "serve_options verify error_msg e path rq s =
     (case ed_optMarket s of None \<Rightarrow> Some (None, s)
      | Some om \<Rightarrow>
          if path = ''/eapi/v1/ping'' then Some (Some (map_sum id OptionCommon (handlePing rq)), s)
          else if path = ''/eapi/v1/time'' then Some (Some (map_sum id OptionCommon (handleTime (unix_milli (su_now e)) rq)), s)
          else if path = ''/eapi/v1/exchangeInfo'' then Some (Some (handleOptionExchangeInfo e rq om), s)
          else if path = ''/eapi/v1/mark'' then market_route (handleOptionMark e rq) s om
          else if path = ''/eapi/v1/mark/exotic'' then market_route (handleOptionExoticMark e rq) s om
          else if path = ''/eapi/v1/depth'' then market_route (handleOptionDepth e rq) s om
          else if path = ''/eapi/v1/index'' then Some (Some (handleOptionIndex e rq), s)
          else if path = ''/eapi/v1/order''
          then do { (res, s) \<leftarrow> handleOptionOrder verify error_msg e rq s; Some (Some res, s) }
          else if path = ''/eapi/v1/orders'' then do { (res, s) \<leftarrow> optionOpenOrders verify rq s; Some (Some res, s) }
          else Some (None, s))"

end
