(* ===== verification/OptionSettleProofs.thy ===== *)
theory OptionSettleProofs
  imports OptionSettle "HOL-Library.Multiset" "HOL-Library.Sublist"
begin

text \<open>
  The expiry sweep: what it records (\<open>sweep_records\<close>: a specification on the market alone, whatever the settler does), that no
  contract settles twice, and, for a settler that keeps an invariant and whose cancellations take orders away, that the
  invariant is kept and that no order of a settled contract is left (the locales \<open>sweeping\<close> and \<open>clearing\<close>).
\<close>

subsection \<open>What a sweep records\<close>

definition same_listing :: "opt_market \<Rightarrow> opt_market \<Rightarrow> bool" where
  "same_listing m m' \<longleftrightarrow> om_bySymbol m' = om_bySymbol m \<and> om_exotics m' = om_exotics m"

lemma same_listing_refl [simp]: "same_listing m m"
  by (simp add: same_listing_def)

lemma same_listing_trans: "same_listing m m1 \<Longrightarrow> same_listing m1 m2 \<Longrightarrow> same_listing m m2"
  by (simp add: same_listing_def)

lemma same_listing_eqs:
  assumes "same_listing m m'"
  shows "IsListed m' = IsListed m" "QuoteAndAsset m' = QuoteAndAsset m" "ExpiryOf m' = ExpiryOf m"
  using assms by (auto simp: same_listing_def IsListed_def QuoteAndAsset_def ExpiryOf_def intro!: ext split: option.split)

lemma IsListed_assets: "IsListed m name \<longleftrightarrow> QuoteAndAsset m name \<noteq> None"
  by (simp add: IsListed_def QuoteAndAsset_def split: option.split)

text \<open>The settlement that is due for a contract, when the index or the pricer gives its value.\<close>

definition vanilla_settlement :: "surroundings \<Rightarrow> instrument \<Rightarrow> settlement option" where
  "vanilla_settlement e inst =
     (if \<not> IsExpired inst (su_now e) then None
      else map_option (\<lambda>idx. \<lparr>st_Symbol = Symbol inst, st_IsExotic = False, st_Index = idx, st_PerUnit = SettlePrice inst idx,
        st_TimeMs = unix_milli (su_now e), st_Multiplier = EffectiveMultiplier (it_Spec inst)\<rparr>) (su_index e (it_Underlying inst)))"

definition exotic_settlement :: "surroundings \<Rightarrow> opt_market \<Rightarrow> string \<Rightarrow> settlement option" where
  "exotic_settlement e m name =
     (let ex = exotic_at m name
      in if su_now e < ex_Expiry ex then None
         else case settleExoticPrice e m name of Inl err \<Rightarrow> None
         | Inr perUnit \<Rightarrow> Some \<lparr>st_Symbol = name, st_IsExotic = True,
             st_Index = (case su_index e (ex_Underlying ex) of Some i \<Rightarrow> i | None \<Rightarrow> float_zero), st_PerUnit = perUnit,
             st_TimeMs = unix_milli (su_now e), st_Multiplier = float_one\<rparr>)"

definition settle_one :: "settlement option \<Rightarrow> opt_market \<Rightarrow> opt_market" where
  "settle_one d m =
     (case d of None \<Rightarrow> m
      | Some rec \<Rightarrow> if st_Symbol rec \<in> set (om_settled m) then m
          else m\<lparr>om_settled := om_settled m @ [st_Symbol rec], om_settlements := om_settlements m @ [rec]\<rparr>)"

definition due_settlements :: "surroundings \<Rightarrow> opt_market \<Rightarrow> settlement option list" where
  "due_settlements e m = map (vanilla_settlement e) (om_order m) @ map (exotic_settlement e m) (om_exoticOrder m)"

text \<open>Nothing else of the market changes.\<close>

definition same_terms_market :: "opt_market \<Rightarrow> opt_market \<Rightarrow> bool" where
  "same_terms_market m m' \<longleftrightarrow> m'\<lparr>om_settled := om_settled m, om_settlements := om_settlements m\<rparr> = m"

lemma same_terms_market_refl [simp]: "same_terms_market m m"
  by (simp add: same_terms_market_def)

lemma same_terms_fields:
  assumes "same_terms_market m m'"
  shows "om_order m' = om_order m" "om_exoticOrder m' = om_exoticOrder m" "exotic_at m' = exotic_at m" "om_reg m' = om_reg m"
    "om_exotics m' = om_exotics m" "om_pricerName m' = om_pricerName m" "same_listing m m'" "om_sharedModel m' = om_sharedModel m"
    "om_legs m' = om_legs m" "om_rate m' = om_rate m"
  using assms by (cases m; cases m'; simp add: same_terms_market_def same_listing_def exotic_at_def fun_eq_iff)+

lemma settle_one_terms: "same_terms_market m (settle_one d m)"
  by (cases m; cases d) (simp_all add: settle_one_def same_terms_market_def)

lemma same_terms_trans: "same_terms_market m m1 \<Longrightarrow> same_terms_market m1 m2 \<Longrightarrow> same_terms_market m m2"
  by (cases m; cases m1; cases m2) (simp add: same_terms_market_def)

lemma same_terms_price:
  assumes "same_terms_market m m'"
  shows "settleExoticPrice e m' name = settleExoticPrice e m name"
proof -
  note eqs = same_terms_fields[OF assms]
  have "leg_of m' = leg_of m" by (rule ext) (simp add: leg_of_def eqs)
  then have "smileFor f m' = smileFor f m" for f by (simp add: smileFor_def fun_eq_iff)
  then have "exotic_params f m' = exotic_params f m" for f by (intro ext) (simp only: exotic_params_def eqs)
  then show ?thesis by (simp only: settleExoticPrice_def eqs)
qed

lemma same_terms_exotic:
  assumes "same_terms_market m m'"
  shows "exotic_settlement e m' = exotic_settlement e m"
  by (intro ext) (simp only: exotic_settlement_def same_terms_price[OF assms] same_terms_fields(3)[OF assms])

subsection \<open>One contract\<close>

lemma claim_unclaim: "name \<notin> set (om_settled m) \<Longrightarrow> unclaim name (m\<lparr>om_settled := om_settled m @ [name]\<rparr>) = m"
  by (cases m) (simp add: unclaim_def removeAll_append removeAll_id)

lemma finishSettle_market:
  assumes "finishSettle e sl name isExotic idx perUnit multiplier (m, s) = Some (rec, m', s')"
  shows "rec = \<lparr>st_Symbol = name, st_IsExotic = isExotic, st_Index = idx, st_PerUnit = perUnit,
      st_TimeMs = unix_milli (su_now e), st_Multiplier = multiplier\<rparr> \<and> m' = m\<lparr>om_settlements := om_settlements m @ [rec]\<rparr>"
  using assms by (auto simp: finishSettle_def bind_eq_Some_conv Let_def)

lemma settle_vanilla_turn:
  assumes "settle_vanilla e sl inst (m, s) = Some (rs, m', s')"
  shows "m' = settle_one (vanilla_settlement e inst) m \<and> om_settlements m' = om_settlements m @ rs"
proof (cases "IsExpired inst (su_now e) \<and> Symbol inst \<notin> set (om_settled m)")
  case False
  then have "m' = m \<and> rs = []" using assms by (auto simp: settle_vanilla_def claim_def Let_def split: if_splits)
  with False show ?thesis by (auto simp: settle_one_def vanilla_settlement_def split: option.split)
next
  case True
  show ?thesis
  proof (cases "su_index e (it_Underlying inst)")
    case None
    with assms True show ?thesis
      by (simp add: settle_vanilla_def claim_def claim_unclaim settle_one_def vanilla_settlement_def Let_def)
  next
    case (Some idx)
    with assms True obtain rec where "finishSettle e sl (Symbol inst) False idx (SettlePrice inst idx)
        (EffectiveMultiplier (it_Spec inst)) (m\<lparr>om_settled := om_settled m @ [Symbol inst]\<rparr>, s) = Some (rec, m', s')" "rs = [rec]"
      by (auto simp: settle_vanilla_def claim_def bind_eq_Some_conv Let_def)
    with finishSettle_market[OF this(1)] True Some show ?thesis by (simp add: settle_one_def vanilla_settlement_def)
  qed
qed

lemma settle_exotic_turn:
  assumes "settle_exotic e sl name (m, s) = Some (rs, m', s')"
  shows "m' = settle_one (exotic_settlement e m name) m \<and> om_settlements m' = om_settlements m @ rs"
proof -
  let ?c = "m\<lparr>om_settled := om_settled m @ [name]\<rparr>" and ?ex = "exotic_at m name"
  have c: "same_terms_market m ?c" by (cases m) (simp add: same_terms_market_def)
  have price: "settleExoticPrice e ?c name = settleExoticPrice e m name" by (rule same_terms_price[OF c])
  show ?thesis
  proof (cases "ex_Expiry ?ex \<le> su_now e \<and> name \<notin> set (om_settled m)")
    case False
    then have "m' = m \<and> rs = []" using assms by (auto simp: settle_exotic_def claim_def Let_def split: if_splits)
    with False show ?thesis by (auto simp: settle_one_def exotic_settlement_def Let_def split: option.split sum.split)
  next
    case True
    show ?thesis
    proof (cases "settleExoticPrice e m name")
      case (Inl err)
      with assms True price show ?thesis
        by (simp add: settle_exotic_def claim_def claim_unclaim settle_one_def exotic_settlement_def Let_def)
    next
      case (Inr perUnit)
      with assms True price obtain rec where "finishSettle e sl name True
          (case su_index e (ex_Underlying ?ex) of Some i \<Rightarrow> i | None \<Rightarrow> float_zero) perUnit float_one (?c, s) = Some (rec, m', s')"
        "rs = [rec]" by (auto simp: settle_exotic_def claim_def bind_eq_Some_conv Let_def)
      with finishSettle_market[OF this(1)] True Inr show ?thesis by (simp add: settle_one_def exotic_settlement_def Let_def)
    qed
  qed
qed

lemma settle_all_turns:
  assumes "\<And>c m s rs m' s'. same_terms_market m0 m \<Longrightarrow> f c (m, s) = Some (rs, m', s') \<Longrightarrow>
      m' = settle_one (due c) m \<and> om_settlements m' = om_settlements m @ rs"
  shows "same_terms_market m0 m \<Longrightarrow> settle_all f cs (m, s) = Some (rs, m', s') \<Longrightarrow>
    m' = fold settle_one (map due cs) m \<and> om_settlements m' = om_settlements m @ rs \<and> same_terms_market m0 m'"
proof (induction cs arbitrary: m s rs)
  case Nil
  then show ?case by simp
next
  case (Cons c cs)
  from Cons.prems(2) obtain rs1 m1 s1 rs2 where c: "f c (m, s) = Some (rs1, m1, s1)"
    "settle_all f cs (m1, s1) = Some (rs2, m', s')" "rs = rs1 @ rs2"
    by (auto simp: bind_eq_Some_conv)
  from assms[OF Cons.prems(1) c(1)] have m1: "m1 = settle_one (due c) m" "om_settlements m1 = om_settlements m @ rs1" by blast+
  have "same_terms_market m0 m1" using same_terms_trans[OF Cons.prems(1) settle_one_terms] m1(1) by simp
  from Cons.IH[OF this c(2)] have rest: "m' = fold settle_one (map due cs) m1" "om_settlements m' = om_settlements m1 @ rs2"
    "same_terms_market m0 m'" by blast+
  then show ?case by (simp add: m1(1)[symmetric] rest(1)[symmetric] m1(2) c(3))
qed

lemma sweep_market:
  assumes "market_Settle e sl (m, s) = Some (rs, m', s')"
  shows "m' = fold settle_one (due_settlements e m) m \<and> om_settlements m' = om_settlements m @ rs \<and> same_terms_market m m'"
proof -
  from assms obtain rs1 m1 s1 rs2 s2 where r: "settle_all (settle_vanilla e sl) (om_order m) (m, s) = Some (rs1, m1, s1)"
    "settle_all (settle_exotic e sl) (om_exoticOrder m1) (m1, s1) = Some (rs2, m', s2)" "rs = rs1 @ rs2"
    by (auto simp: market_Settle_def bind_eq_Some_conv)
  have v: "m1 = fold settle_one (map (vanilla_settlement e) (om_order m)) m \<and> om_settlements m1 = om_settlements m @ rs1 \<and>
      same_terms_market m m1"
    by (rule settle_all_turns[OF settle_vanilla_turn same_terms_market_refl r(1)])
  have x: "m' = fold settle_one (map (exotic_settlement e m) (om_exoticOrder m1)) m1 \<and> om_settlements m' = om_settlements m1 @ rs2 \<and>
      same_terms_market m m'"
    by (rule settle_all_turns[OF _ _ r(2)]) (use v in \<open>auto dest!: settle_exotic_turn simp: same_terms_exotic\<close>)
  have "fold settle_one (due_settlements e m) m = m'"
    using v x same_terms_fields(2)[of m m1] by (auto simp: due_settlements_def)
  then show ?thesis using v x r(3) by (metis append_assoc)
qed

text \<open>The log of settlements and the set of settled contracts.\<close>

definition log_ok :: "opt_market \<Rightarrow> bool" where
  "log_ok m \<longleftrightarrow> map st_Symbol (om_settlements m) = om_settled m \<and> distinct (om_settled m)"

lemma settle_one_log: "log_ok m \<Longrightarrow> log_ok (settle_one d m)"
  by (auto simp: log_ok_def settle_one_def split: option.split)

lemma fold_settle_log: "log_ok m \<Longrightarrow> log_ok (fold settle_one ds m)"
  by (induction ds arbitrary: m) (simp_all add: settle_one_log)

lemma fold_settle_settled: "set (om_settled (fold settle_one ds m)) = set (om_settled m) \<union> {st_Symbol rec | rec. Some rec \<in> set ds}"
proof (induction ds arbitrary: m)
  case Nil
  then show ?case by simp
next
  case (Cons d ds)
  have "set (om_settled (settle_one d m)) = set (om_settled m) \<union> {st_Symbol rec | rec. d = Some rec}"
    by (auto simp: settle_one_def split: option.split)
  then show ?case using Cons by auto
qed

subsection \<open>What a settler keeps\<close>

locale sweeping =
  fixes e :: surroundings and sl :: "'s settler" and good :: "'s \<Rightarrow> bool"
  assumes cancel_keeps: "good s \<Longrightarrow> sl_CancelOrder sl name i s = Some s' \<Longrightarrow> good s'"
    and positions_keep: "good s \<Longrightarrow> good (snd (sl_positions sl name s))"
    and hook_keeps: "sl_onSettle sl = Some hook \<Longrightarrow> good s \<Longrightarrow> hook rec held s = Some s' \<Longrightarrow> good s'"
begin

lemma cancel_rests_keeps: "good s \<Longrightarrow> cancel_rests sl name xs s = Some s' \<Longrightarrow> good s'"
  by (induction xs arbitrary: s) (auto simp: bind_eq_Some_conv dest: cancel_keeps)

lemma cancelResting_keeps: "good s \<Longrightarrow> cancelResting sl name s = Some s' \<Longrightarrow> good s'"
  unfolding cancelResting_def by (rule cancel_rests_keeps)

lemma finishSettle_keeps:
  assumes "good s" "finishSettle e sl name isExotic idx perUnit multiplier (m, s) = Some (rec, m', s')"
  shows "good s'"
proof -
  from assms(2) obtain s1 where s1: "cancelResting sl name s = Some s1"
    "(case sl_onSettle sl of None \<Rightarrow> Some s1
      | Some hook \<Rightarrow> let (held, s) = sl_positions sl name s1 in if Sign held > 0 then hook rec held s else Some s) = Some s'"
    by (auto simp: finishSettle_def bind_eq_Some_conv Let_def)
  have g: "good s1" by (rule cancelResting_keeps[OF assms(1) s1(1)])
  show ?thesis
  proof (cases "sl_onSettle sl")
    case None
    with s1(2) g show ?thesis by simp
  next
    case (Some hook)
    obtain held s2 where p: "sl_positions sl name s1 = (held, s2)" by fastforce
    then have "good s2" using positions_keep[OF g, of name] by simp
    with s1(2) Some p show ?thesis by (auto split: if_splits dest: hook_keeps)
  qed
qed

lemma settle_vanilla_keeps: "good s \<Longrightarrow> settle_vanilla e sl inst (m, s) = Some (rs, m', s') \<Longrightarrow> good s'"
  by (auto simp: settle_vanilla_def claim_def bind_eq_Some_conv Let_def split: if_splits option.splits dest: finishSettle_keeps)

lemma settle_exotic_keeps: "good s \<Longrightarrow> settle_exotic e sl name (m, s) = Some (rs, m', s') \<Longrightarrow> good s'"
  by (auto simp: settle_exotic_def claim_def bind_eq_Some_conv Let_def split: if_splits sum.splits dest: finishSettle_keeps)

lemma settle_all_keeps:
  assumes "\<And>c m s rs m' s'. good s \<Longrightarrow> f c (m, s) = Some (rs, m', s') \<Longrightarrow> good s'"
  shows "good s \<Longrightarrow> settle_all f cs (m, s) = Some (rs, m', s') \<Longrightarrow> good s'"
  by (induction cs arbitrary: m s rs) (auto simp: bind_eq_Some_conv dest: assms)

lemma drain_keeps: "good s \<Longrightarrow> drain_settled sl names s = Some s' \<Longrightarrow> good s'"
  by (induction names arbitrary: s) (auto simp: bind_eq_Some_conv dest: cancelResting_keeps)

lemma sweep_parts:
  assumes "good s" "market_Settle e sl (m, s) = Some (rs, m', s')"
  obtains s1 where "good s1" "drain_settled sl (om_settled m') s1 = Some s'"
proof -
  from assms(2) obtain rs1 m1 s1 rs2 s2 where r: "settle_all (settle_vanilla e sl) (om_order m) (m, s) = Some (rs1, m1, s1)"
    "settle_all (settle_exotic e sl) (om_exoticOrder m1) (m1, s1) = Some (rs2, m', s2)" "drain_settled sl (om_settled m') s2 = Some s'"
    by (auto simp: market_Settle_def settledKeys_def bind_eq_Some_conv)
  have g1: "good s1" by (rule settle_all_keeps[OF settle_vanilla_keeps assms(1) r(1)])
  have "good s2" by (rule settle_all_keeps[OF settle_exotic_keeps g1 r(2)])
  from this r(3) show thesis by (rule that)
qed

lemma sweep_keeps: "good s \<Longrightarrow> market_Settle e sl (m, s) = Some (rs, m', s') \<Longrightarrow> good s'"
  by (erule (1) sweep_parts) (rule drain_keeps)

end

text \<open>A settler whose cancellations take the order away, and nothing else.\<close>

locale clearing = sweeping +
  assumes cancel_takes: "good s \<Longrightarrow> sl_CancelOrder sl name i s = Some s' \<Longrightarrow> i \<in> ord_ID ` set (sl_OpenOrders sl s name) \<Longrightarrow>
      mset (map ord_ID (sl_OpenOrders sl s name)) = add_mset i (mset (map ord_ID (sl_OpenOrders sl s' name)))"
    and cancel_others: "good s \<Longrightarrow> sl_CancelOrder sl name i s = Some s' \<Longrightarrow> name' \<noteq> name \<Longrightarrow>
      sl_OpenOrders sl s' name' = sl_OpenOrders sl s name'"
begin

lemma cancel_rests_clears:
  assumes "good s" "cancel_rests sl name xs s = Some s'" "mset (map ord_ID (sl_OpenOrders sl s name)) = mset (map ord_ID xs)"
  shows "sl_OpenOrders sl s' name = []"
  using assms
proof (induction xs arbitrary: s)
  case Nil
  then show ?case by simp
next
  case (Cons x xs)
  then obtain s1 where s1: "sl_CancelOrder sl name (ord_ID x) s = Some s1" "cancel_rests sl name xs s1 = Some s'"
    by (auto simp: bind_eq_Some_conv)
  have "ord_ID x \<in># mset (map ord_ID (sl_OpenOrders sl s name))" using Cons.prems(3) by simp
  then have "ord_ID x \<in> ord_ID ` set (sl_OpenOrders sl s name)" by simp
  from cancel_takes[OF Cons.prems(1) s1(1) this] Cons.prems(3)
  have "mset (map ord_ID (sl_OpenOrders sl s1 name)) = mset (map ord_ID xs)" by simp
  with Cons.IH[OF cancel_keeps[OF Cons.prems(1) s1(1)] s1(2)] show ?case by blast
qed

lemma cancel_rests_others:
  "good s \<Longrightarrow> cancel_rests sl name xs s = Some s' \<Longrightarrow> name' \<noteq> name \<Longrightarrow> sl_OpenOrders sl s' name' = sl_OpenOrders sl s name'"
proof (induction xs arbitrary: s)
  case (Cons x xs)
  then obtain s1 where s1: "sl_CancelOrder sl name (ord_ID x) s = Some s1" "cancel_rests sl name xs s1 = Some s'"
    by (auto simp: bind_eq_Some_conv)
  with Cons.IH[OF cancel_keeps[OF Cons.prems(1) s1(1)] s1(2)] cancel_others[OF Cons.prems(1) s1(1)] Cons.prems(3)
  show ?case by simp
qed simp

lemma cancelResting_clears: "good s \<Longrightarrow> cancelResting sl name s = Some s' \<Longrightarrow> sl_OpenOrders sl s' name = []"
  unfolding cancelResting_def by (rule cancel_rests_clears) simp_all

lemma cancelResting_empty:
  assumes "good s" "cancelResting sl name s = Some s'" "sl_OpenOrders sl s name' = []"
  shows "sl_OpenOrders sl s' name' = []"
proof (cases "name' = name")
  case True
  then show ?thesis using cancelResting_clears[OF assms(1,2)] by simp
next
  case False
  then show ?thesis using cancel_rests_others[OF assms(1) assms(2)[unfolded cancelResting_def] False] assms(3) by simp
qed

lemma drain_empty:
  "good s \<Longrightarrow> drain_settled sl names s = Some s' \<Longrightarrow> sl_OpenOrders sl s name = [] \<or> name \<in> set names \<Longrightarrow> sl_OpenOrders sl s' name = []"
proof (induction names arbitrary: s)
  case (Cons k names)
  then obtain s1 where s1: "cancelResting sl k s = Some s1" "drain_settled sl names s1 = Some s'"
    by (auto simp: bind_eq_Some_conv)
  have "sl_OpenOrders sl s1 name = [] \<or> name \<in> set names"
    using Cons.prems(3) cancelResting_empty[OF Cons.prems(1) s1(1)] cancelResting_clears[OF Cons.prems(1) s1(1)] by auto
  with Cons.IH[OF cancelResting_keeps[OF Cons.prems(1) s1(1)] s1(2)] show ?case by blast
qed simp

lemma sweep_clears:
  assumes "good s" "market_Settle e sl (m, s) = Some (rs, m', s')" "name \<in> set (om_settled m')"
  shows "sl_OpenOrders sl s' name = []"
proof -
  obtain s1 where "good s1" "drain_settled sl (om_settled m') s1 = Some s'" by (rule sweep_parts[OF assms(1,2)])
  from drain_empty[OF this] assms(3) show ?thesis by blast
qed

end

end
