(* ===== verification/EdgeOperation.thy ===== *)
theory EdgeOperation
  imports EdgeInvariant BinanceOptions OptionSettleProofs
begin

text \<open>
  The Binance edge in operation: every request on the spot and the option routes, the expiry sweep, every order and cancellation
  of other clients of the engine and every transfer keeps the invariant of the edge (\<open>edge_step\<close>, \<open>operated_inv\<close>).
\<close>

subsection \<open>The edge in operation\<close>

text \<open>What happens to an edge: its own requests on the spot and the option routes, the expiry sweep, what other clients do with the engine (the other edges and the
  emulator, whose order identifiers have other prefixes), hooks of others, and transfers of funds.\<close>

datatype edge_event =
    OrderRequest int request
  | OtherLimit int order
  | OtherMarket int order
  | OtherIOC int order
  | OtherCancel int string string
  | OtherHook nat
  | Transfer ledger_op
  | OptionRequest surroundings string request
  | ExpirySweep surroundings

fun edge_step :: "verifier \<Rightarrow> (engine_error \<Rightarrow> string) \<Rightarrow> edge_event \<Rightarrow> edge \<Rightarrow> edge option" where
  "edge_step verify em (OrderRequest n rq) s = map_option snd (handleOrder verify em n rq s)"
| "edge_step verify em (OtherLimit n ord) s = map_option snd (edge_PlaceLimit n ord s)"
| "edge_step verify em (OtherMarket n ord) s = map_option snd (edge_PlaceMarket n ord s)"
| "edge_step verify em (OtherIOC n ord) s = map_option snd (edge_ExecuteIOC n ord s)"
| "edge_step verify em (OtherCancel n inst oid) s = map_option snd (edge_CancelOrder n inst oid s)"
| "edge_step verify em (OtherHook h) s =
     Some (s\<lparr>ed_engine := (ed_engine s)\<lparr>en_book := RegisterHook (en_book (ed_engine s)) h\<rparr>\<rparr>)"
| "edge_step verify em (Transfer op) s = with_ledger (ledger_step op) s"
| "edge_step verify em (OptionRequest e path rq) s = map_option snd (serve_options verify em e path rq s)"
| "edge_step verify em (ExpirySweep e) s = map_option snd (SettleOptions e s)"

fun transfer_op :: "ledger_op \<Rightarrow> bool" where
  "transfer_op (OpDebit a x) \<longleftrightarrow> True"
| "transfer_op (OpCredit a x) \<longleftrightarrow> True"
| "transfer_op (OpBurn a x) \<longleftrightarrow> True"
| "transfer_op (OpGet a) \<longleftrightarrow> True"
| "transfer_op _ \<longleftrightarrow> False"

fun event_ok :: "edge_event \<Rightarrow> bool" where
  "event_ok (OtherLimit n ord) \<longleftrightarrow> \<not> isEdgeOrder (ord_ID ord)"
| "event_ok (OtherMarket n ord) \<longleftrightarrow> \<not> isEdgeOrder (ord_ID ord)"
| "event_ok (OtherIOC n ord) \<longleftrightarrow> \<not> isEdgeOrder (ord_ID ord)"
| "event_ok (OtherHook h) \<longleftrightarrow> 3 \<le> h"
| "event_ok (Transfer op) \<longleftrightarrow> transfer_op op"
| "event_ok _ \<longleftrightarrow> True"

text \<open>The edge at its start: nothing recorded, nothing at rest, nothing locked, its hooks on the book.\<close>

definition new_edge ::
    "(nat \<Rightarrow> go_time) \<Rightarrow> string list \<Rightarrow> validator \<Rightarrow> (string \<times> string) list \<Rightarrow> (string, decimal) gomap \<Rightarrow> opt_market option \<Rightarrow> edge" where
  "new_edge now insts margin pairs initial om =
     AttachHooks \<lparr>ed_engine = engine_New (NewOrderBook now insts) margin, ed_symbols = NewSymbolMap pairs,
       ed_registry = bin_NewRegistry, ed_ledger = Some (NewLedger initial), ed_optMarket = om, ed_balances = [], ed_reports = []\<rparr>"

lemma NewLedger_locked: "lk (NewLedger initial) = (\<lambda>_. 0)"
  by (induction initial) (auto simp: NewLedger_def lk_def holding_at_def fun_eq_iff)

lemma new_edge_inv:
  assumes "\<And>sm e. ToEngine (NewSymbolMap pairs) sm = Some e \<Longrightarrow> \<not> isOptionSym (new_edge now insts margin pairs initial om) e"
  shows "edge_inv (new_edge now insts margin pairs initial om)"
proof (rule edge_invI)
  let ?s = "new_edge now insts margin pairs initial om"
  have fields: "ed_registry ?s = bin_NewRegistry" "ed_ledger ?s = Some (NewLedger initial)" "ed_symbols ?s = NewSymbolMap pairs"
    "ob_instruments (en_book (ed_engine ?s)) = ob_instruments (NewOrderBook now insts)" "ob_hooks (en_book (ed_engine ?s)) = [0, 1, 2]"
    by (simp_all add: new_edge_def AttachHooks_def engine_New_def RegisterHook_def NewOrderBook_def Let_def)
  have none: "bin_getByEngine bin_NewRegistry e = None" "reserved A bin_NewRegistry a = 0" for A e a
    by (simp_all add: bin_getByEngine_def reserved_def bin_NewRegistry_def)
  show "covered ?s"
    by (rule coveredI[OF _ fields(2), unfolded fields(1)])
      (use none in \<open>auto simp: NewLedger_locked intro!: sane_storeI coherent_reg_new\<close>)
  have "wf_book (NewOrderBook now insts)" using NewOrderBook_sound[of False now insts] by (simp add: sound_book_def)
  then show "wf_book (en_book (ed_engine ?s))" using fields(4) by (simp add: wf_book_def)
  show "attached (en_book (ed_engine ?s))" using fields(5) by (simp add: attached_def)
  show "agree (ed_registry ?s) inst (OpenOrders (en_book (ed_engine ?s)) inst)" for inst
  proof -
    have "ib = empty_book" if "ob_instruments (NewOrderBook now insts) inst = Some ib" for ib
      using that by (auto simp: NewOrderBook_def dest!: map_of_SomeD)
    then have "OpenOrders (en_book (ed_engine ?s)) inst = []"
      using fields(4) by (auto simp: OpenOrders_def lookup_def empty_book_def split: option.split)
    then show ?thesis using none fields(1) by (simp add: agree_def)
  qed
  show "ToEngine (ed_symbols ?s) sm = Some e \<Longrightarrow> \<not> isOptionSym ?s e" for sm e using assms fields(3) by simp
qed

text \<open>A record that a request finds by one of its identifiers.\<close>

definition found :: "registry \<Rightarrow> order_record \<Rightarrow> bool" where
  "found r rec \<longleftrightarrow> (\<exists>oid. bin_Get r oid = Some rec) \<or> (\<exists>c. bin_GetByClientOrderID r c = Some rec)"

lemma named_order_found: "named_order rq r = Inr rec \<Longrightarrow> found r rec"
  by (auto simp: named_order_def found_def Let_def split: if_splits option.splits)

lemma optionOrderQuery_found: "optionOrderQuery name rq r = Some rec \<Longrightarrow> found r rec"
  by (auto simp: optionOrderQuery_def found_def Let_def split: if_splits option.splits)

lemma found_own:
  assumes "coherent_reg r" "found r rec"
  shows "1 \<le> or_OrderID rec" "or_EngineID rec = bin_EngineID (or_OrderID rec)" "bin_snapshot r (or_OrderID rec) = Some rec"
    "bin_getByEngine r (or_EngineID rec) = Some rec"
proof -
  from assms(2) consider (id) oid where "bin_Get r oid = Some rec" | (client) c where "bin_GetByClientOrderID r c = Some rec"
    by (auto simp: found_def)
  then obtain oid p where p: "tracked r oid p" "rec = rg_heap r ! p"
  proof cases
    case id
    then show ?thesis using that by (auto simp: bin_Get_def tracked_def)
  next
    case client
    then show ?thesis using that index_client[OF assms(1)] by (auto simp: bin_GetByClientOrderID_def)
  qed
  note own = tracked_own[OF assms(1) p(1)]
  show "1 \<le> or_OrderID rec" "or_EngineID rec = bin_EngineID (or_OrderID rec)" "bin_snapshot r (or_OrderID rec) = Some rec"
    using own p by (simp_all add: bin_snapshot_def tracked_def)
  show "bin_getByEngine r (or_EngineID rec) = Some rec" using getByEngine_tracked[OF assms(1)] p own(3) by auto
qed

lemmas named_order_own = found_own[OF _ named_order_found]

lemma MarkCanceled_seq: "rg_seq (bin_MarkCanceled r oid n) = rg_seq r"
  by (auto simp: bin_MarkCanceled_def split: option.split)

text \<open>Either cancellation is one at the engine, followed by a mark in the store when it succeeded.\<close>

definition marked_cancel :: "int \<Rightarrow> order_record \<Rightarrow> edge \<Rightarrow> edge \<Rightarrow> bool" where
  "marked_cancel n rec s s' \<longleftrightarrow> (\<exists>res s1. edge_CancelOrder n (or_EngineSymbol rec) (or_EngineID rec) s = Some (res, s1) \<and>
     s' = (case res of Inl err \<Rightarrow> s1 | Inr x \<Rightarrow> s1\<lparr>ed_registry := bin_MarkCanceled (ed_registry s1) (or_OrderID rec) n\<rparr>))"

lemma cancel_spot_marked:
  assumes "cancel_spot n binSym rec s = Some (out, s')"
  shows "marked_cancel n rec s s'"
proof -
  from assms obtain res s1 where c: "edge_CancelOrder n (or_EngineSymbol rec) (or_EngineID rec) s = Some (res, s1)"
    by (auto simp: cancel_spot_def bind_eq_Some_conv)
  then show ?thesis using assms by (cases res) (auto simp: marked_cancel_def cancel_spot_def Let_def split: if_splits)
qed

lemma cancel_option_marked:
  assumes "cancel_option n rec s = Some (out, s')"
  shows "marked_cancel n rec s s'"
proof -
  from assms obtain res s1 where c: "edge_CancelOrder n (or_EngineSymbol rec) (or_EngineID rec) s = Some (res, s1)"
    by (auto simp: cancel_option_def bind_eq_Some_conv)
  then show ?thesis using assms
    by (cases res) (auto simp: marked_cancel_def cancel_option_def option_state_def bind_eq_Some_conv Let_def split: if_splits)
qed

lemma marked_edge:
  assumes "edge_inv s" "marked_cancel n rec s s'" "1 \<le> or_OrderID rec" "or_EngineID rec = bin_EngineID (or_OrderID rec)"
  shows "edge_inv s' \<and> rg_seq (ed_registry s') = rg_seq (ed_registry s)"
proof -
  from assms(2) obtain res s1 where c: "edge_CancelOrder n (or_EngineSymbol rec) (or_EngineID rec) s = Some (res, s1)"
    "s' = (case res of Inl err \<Rightarrow> s1 | Inr x \<Rightarrow> s1\<lparr>ed_registry := bin_MarkCanceled (ed_registry s1) (or_OrderID rec) n\<rparr>)"
    unfolding marked_cancel_def by blast
  show ?thesis
    using edge_cancel[OF assms(1) c(1)] mark_edge[of s1 "or_OrderID rec" n] assms(3,4) c(2) MarkCanceled_seq by (cases res) simp_all
qed

lemma handleOrder_cases:
  assumes "handleOrder verify em n rq s = Some (out, s')"
  obtains (same) "s' = s"
  | (place) p where "parse_place (ed_symbols s) rq = Inr p" "place_spot em n p s = Some (out, s')"
  | (cancel) rec where "named_order rq (ed_registry s) = Inr rec" "marked_cancel n rec s s'"
  using assms cancel_spot_marked
  by (auto simp: handleOrder_def handlePlaceOrder_def handleCancelOrder_def Let_def split: if_splits option.splits sum.splits)

lemma handleOrder_edge:
  assumes "edge_inv s" "sint (rg_seq (ed_registry s)) < 2 ^ 63 - 1" "handleOrder verify em n rq s = Some (out, s')"
  shows "edge_inv s' \<and> sint (rg_seq (ed_registry s')) \<le> sint (rg_seq (ed_registry s)) + 1"
proof -
  have co: "coherent_reg (ed_registry s)" using edge_invD(1)[OF assms(1)] by (meson coveredE sane_storeD(1))
  from assms(3) show ?thesis
  proof (cases rule: handleOrder_cases)
    case same
    then show ?thesis using assms(1) by simp
  next
    case (place p)
    from parse_place_ok[OF place(1)] edge_invD(5)[OF assms(1)] have "placeable p" "\<not> isOptionSym s (pl_engSym p)" by blast+
    then show ?thesis using place_order_edge[OF assms(1) _ _ assms(2) place(2)[unfolded place_spot_def]] by (simp add: assets_def)
  next
    case (cancel rec)
    from marked_edge[OF assms(1) cancel(2) named_order_own(1,2)[OF co cancel(1)]] show ?thesis by simp
  qed
qed

lemma transfer_locked:
  assumes "transfer_op op" "ledger_step op l = Some l'"
  shows "lk l' = lk l"
proof -
  have "lk l' = snd (spec_step op (account_of l))" using step_refines[OF assms(2)] by (metis fst_account(2))
  then show ?thesis using assms(1) by (cases op) (auto simp: account_of_def)
qed

subsection \<open>Requests about options\<close>

text \<open>A market that lists the same contracts.\<close>

lemma relist_edge:
  assumes "edge_inv s" "ed_optMarket s = Some om" "same_listing om om'"
  shows "edge_inv (s\<lparr>ed_optMarket := Some om'\<rparr>)"
proof -
  let ?s = "s\<lparr>ed_optMarket := Some om'\<rparr>"
  note D = edge_invD[OF assms(1)] and eqs = same_listing_eqs[OF assms(3)]
  have opt: "isOptionSym ?s = isOptionSym s" "optionAssets ?s = optionAssets s"
    using assms(2) eqs by (simp_all add: isOptionSym_def optionAssets_def fun_eq_iff)
  then have "assets ?s = assets s" by (simp add: assets_def fun_eq_iff)
  then have "covered ?s" using D(1) by (simp add: covered_def)
  then show ?thesis by (rule edge_invI) (use D(2-5) opt(1) in simp_all)
qed

text \<open>What may happen to a market in operation: the listing stays, and the settlements are added to.\<close>

definition grows :: "opt_market \<Rightarrow> opt_market \<Rightarrow> bool" where
  "grows m m' \<longleftrightarrow> same_listing m m' \<and> (log_ok m \<longrightarrow> log_ok m') \<and> prefix (om_settlements m) (om_settlements m')"

lemma grows_refl [simp]: "grows m m"
  by (simp add: grows_def)

lemma grows_trans: "grows m m1 \<Longrightarrow> grows m1 m2 \<Longrightarrow> grows m m2"
  by (auto simp: grows_def intro: same_listing_trans prefix_order.trans)

lemma grows_listing: "grows m m' \<Longrightarrow> same_listing m m'"
  by (simp add: grows_def)

lemma cached_exotic_grows: "cached_exotic e m name = Some (res, m') \<Longrightarrow> grows m m'"
  by (auto simp: cached_exotic_def grows_def same_listing_def log_ok_def bind_eq_Some_conv Let_def split: option.splits if_splits)

lemma market_Mark_grows: "market_Mark e m name = Some (res, m') \<Longrightarrow> grows m m'"
  by (auto simp: market_Mark_def split: if_splits option.splits dest: cached_exotic_grows)

lemma exotic_marks_grows: "exotic_marks e names m = Some (mks, m') \<Longrightarrow> grows m m'"
  by (induction names arbitrary: m mks) (auto simp: bind_eq_Some_conv dest!: cached_exotic_grows intro: grows_trans)

lemma Marks_grows: "Marks e m = Some (mks, m') \<Longrightarrow> grows m m'"
  by (auto simp: Marks_def bind_eq_Some_conv dest: exotic_marks_grows)

lemma option_Depth_grows: "option_Depth e m name n = Some (res, m') \<Longrightarrow> grows m m'"
  by (auto simp: option_Depth_def bind_eq_Some_conv split: if_splits option.splits dest: cached_exotic_grows)

lemma sweep_grows: "market_Settle e sl (m, s) = Some (rs, m', s') \<Longrightarrow> grows m m'"
  using sweep_market[of e sl m s rs m' s'] same_terms_fields(7)[of m m'] fold_settle_log[of m "due_settlements e m"]
  by (auto simp: grows_def)

lemma parse_option_ok: "parse_option rq = Inr p \<Longrightarrow> placeable p \<and> pl_engSym p = param rq ''symbol''"
  by (auto simp: parse_option_def placeable_def Let_def not_le split: if_splits sum.splits)

lemma unaffected_relisted: "unaffected (s\<lparr>ed_optMarket := m\<rparr>) s' \<longleftrightarrow> unaffected s s'"
  by (simp add: unaffected_def)

lemma optionPlaceOrder_cases:
  assumes run: "optionPlaceOrder verify em e rq s = Some (res, s')"
  obtains (early) "s' = s"
  | (band) om mk om' where "ed_optMarket s = Some om" "market_Mark e om (param rq ''symbol'') = Some (mk, om')"
      "s' = s\<lparr>ed_optMarket := Some om'\<rparr>" "res = Inl errPriceNotWithinBands"
  | (place) om mk om' p qa answer where "ed_optMarket s = Some om" "IsListed om (pl_engSym p)" "parse_option rq = Inr p"
      "market_Mark e om (pl_engSym p) = Some (mk, om')" "QuoteAndAsset om' (pl_engSym p) = Some qa"
      "place_order (snd qa, fst qa) ''eapi'' answer em (unix_milli (su_now e)) p (s\<lparr>ed_optMarket := Some om'\<rparr>) = Some (res, s')"
proof (cases "ed_optMarket s")
  case None
  then show thesis using run early by (simp add: optionPlaceOrder_def)
next
  case (Some om)
  show thesis
  proof (cases "verify rq = None \<and> tradeable e om (param rq ''symbol'') = None \<and> (\<exists>p. parse_option rq = Inr p)")
    case False
    then show thesis using run Some early by (auto simp: optionPlaceOrder_def split: option.splits sum.splits)
  next
    case True
    then obtain p where p: "verify rq = None" "tradeable e om (param rq ''symbol'') = None" "parse_option rq = Inr p" by blast
    have name: "pl_engSym p = param rq ''symbol''" using parse_option_ok[OF p(3)] by simp
    have listed: "IsListed om (pl_engSym p)" using p(2) name by (simp add: tradeable_def split: if_splits)
    from run Some p obtain mk om' where mk: "market_Mark e om (pl_engSym p) = Some (mk, om')"
      by (auto simp: optionPlaceOrder_def bind_eq_Some_conv)
    have "IsListed om' (pl_engSym p)" using listed same_listing_eqs(1)[OF grows_listing[OF market_Mark_grows[OF mk]]] by simp
    then obtain qa where qa: "QuoteAndAsset om' (pl_engSym p) = Some qa" unfolding IsListed_assets by blast
    show thesis
    proof (cases "case mk of Inl err \<Rightarrow> False | Inr mk \<Rightarrow> outside_band mk (pl_price p)")
      case True
      with run Some p mk name show thesis by (intro band[of om mk om']) (simp_all add: optionPlaceOrder_def)
    next
      case False
      with run Some p mk qa show thesis
        by (intro place[OF Some listed p(3) mk qa]) (simp add: optionPlaceOrder_def split: prod.splits)
    qed
  qed
qed

lemma optionPlaceOrder_edge:
  assumes inv: "edge_inv s" and bound: "sint (rg_seq (ed_registry s)) < 2 ^ 63 - 1"
    and run: "optionPlaceOrder verify em e rq s = Some (res, s')"
  shows "edge_inv s' \<and> sint (rg_seq (ed_registry s')) \<le> sint (rg_seq (ed_registry s)) + 1 \<and>
    (\<forall>err. res = Inl err \<longrightarrow> unaffected s s')"
  using run
proof (cases rule: optionPlaceOrder_cases)
  case early
  then show ?thesis using inv by simp
next
  case (band om mk om')
  then show ?thesis using relist_edge[OF inv band(1) grows_listing[OF market_Mark_grows[OF band(2)]]] by (simp add: unaffected_def)
next
  case (place om mk om' p qa answer)
  let ?s = "s\<lparr>ed_optMarket := Some om'\<rparr>"
  have list: "same_listing om om'" by (rule grows_listing[OF market_Mark_grows[OF place(4)]])
  have "edge_inv ?s" by (rule relist_edge[OF inv place(1) list])
  moreover have "assets ?s (pl_engSym p) = (snd qa, fst qa)"
    using place(2,5) same_listing_eqs(1)[OF list] by (cases qa) (simp add: assets_def isOptionSym_def optionAssets_def)
  ultimately show ?thesis
    using place_order_edge[OF _ _ _ _ place(6)] parse_option_ok[OF place(3)] bound by (simp add: unaffected_relisted)
qed

lemma market_route_edge:
  assumes "edge_inv s" "ed_optMarket s = Some om" "market_route h s om = Some (res, s')"
    and "\<And>out om'. h om = Some (out, om') \<Longrightarrow> grows om om'"
  shows "edge_inv s' \<and> ed_registry s' = ed_registry s"
  using assms(3) relist_edge[OF assms(1,2) grows_listing[OF assms(4)]] by (auto simp: market_route_def bind_eq_Some_conv)

lemma handler_grows:
  "handleOptionMark e rq om = Some (out, om') \<Longrightarrow> grows om om'"
  "handleOptionExoticMark e rq om = Some (out, om') \<Longrightarrow> grows om om'"
  "handleOptionDepth e rq om = Some (out, om') \<Longrightarrow> grows om om'"
  by (auto simp: handleOptionMark_def handleOptionExoticMark_def handleOptionDepth_def bind_eq_Some_conv Let_def
      split: if_splits option.splits dest: market_Mark_grows Marks_grows option_Depth_grows)

lemma serve_options_cases:
  assumes "serve_options verify em e path rq s = Some (out, s')"
  obtains (same) "s' = s"
  | (data) om h res where "ed_optMarket s = Some om" "market_route h s om = Some (res, s')"
      "\<And>out om'. h om = Some (out, om') \<Longrightarrow> grows om om'"
  | (place) res where "optionPlaceOrder verify em e rq s = Some (res, s')"
  | (cancel) name rec where "optionOrderQuery name rq (ed_registry s) = Some rec"
      "marked_cancel (unix_milli (su_now e)) rec s s'"
  using assms handler_grows cancel_option_marked
  by (auto simp: serve_options_def handleOptionOrder_def optionQueryOrder_def optionCancelOrder_def optionOpenOrders_def option_state_def
      bind_eq_Some_conv Let_def split: option.splits if_splits)

lemma serve_options_edge:
  assumes "edge_inv s" "sint (rg_seq (ed_registry s)) < 2 ^ 63 - 1" "serve_options verify em e path rq s = Some (out, s')"
  shows "edge_inv s' \<and> sint (rg_seq (ed_registry s')) \<le> sint (rg_seq (ed_registry s)) + 1"
proof -
  have co: "coherent_reg (ed_registry s)" using edge_invD(1)[OF assms(1)] by (meson coveredE sane_storeD(1))
  from assms(3) show ?thesis
  proof (cases rule: serve_options_cases)
    case same
    then show ?thesis using assms(1) by simp
  next
    case (data om h res)
    from market_route_edge[OF assms(1) data] show ?thesis by simp
  next
    case (place res)
    from optionPlaceOrder_edge[OF assms(1,2) place] show ?thesis by simp
  next
    case (cancel name rec)
    from marked_edge[OF assms(1) cancel(2) found_own(1,2)[OF co optionOrderQuery_found[OF cancel(1)]]] show ?thesis by simp
  qed
qed

subsection \<open>The expiry sweep\<close>

text \<open>What a sweep keeps of the edge; the market that it updates is put back when it is over.\<close>

definition kept :: "64 word \<Rightarrow> opt_market option \<Rightarrow> edge \<Rightarrow> bool" where
  "kept q om s \<longleftrightarrow> edge_inv s \<and> rg_seq (ed_registry s) = q \<and> ed_optMarket s = om"

lemma ledger_edge:
  assumes "edge_inv s" "ed_ledger s = Some l" "lk l' = lk l"
  shows "edge_inv (s\<lparr>ed_ledger := Some l'\<rparr>)"
proof -
  obtain l0 where "coherent_reg (ed_registry s)" "ed_ledger s = Some l0" "\<And>a. reserved (assets s) (ed_registry s) a \<le> lk l0 a"
    using edge_invD(1)[OF assms(1)] by (meson coveredE sane_storeD(1))
  then show ?thesis by (intro edge_same_orders[OF assms(1), of _ l']) (use assms(2,3) in simp_all)
qed

lemma transfer_kept:
  assumes "kept q om s" "transfer_op op" "with_ledger (ledger_step op) s = Some s'"
  shows "kept q om s'"
  using assms ledger_edge[of s] transfer_locked[OF assms(2)]
  by (auto simp: kept_def with_ledger_def bind_eq_Some_conv split: option.splits)

lemma book_cancel_outcome:
  assumes "kept q om s" "book_cancel n name i s = Some s'"
  obtains res b where "CancelOrder (en_book (ed_engine s)) name i = (res, b)" "en_book (ed_engine s') = b" "kept q om s'"
    "\<And>l. ed_ledger s = Some l \<Longrightarrow> \<exists>l'. ed_ledger s' = Some l' \<and> (\<forall>a. fr l' a + lk l' a = fr l a + lk l a)"
proof -
  obtain res b where c: "CancelOrder (en_book (ed_engine s)) name i = (res, b)" by fastforce
  have inv: "edge_inv s" using assms(1) by (simp add: kept_def)
  from cancelled_edge[OF inv c, of n "ed_engine s" s'] assms(2) c
  have k: "edge_inv s'" "rg_seq (ed_registry s') = rg_seq (ed_registry s)" "en_book (ed_engine s') = b"
    "ed_optMarket s' = ed_optMarket s"
    "\<forall>l. ed_ledger s = Some l \<longrightarrow> (\<exists>l'. ed_ledger s' = Some l' \<and> (\<forall>a. fr l' a + lk l' a = fr l a + lk l a))"
    by (simp_all add: book_cancel_def)
  then show thesis using assms(1) by (intro that[OF c]) (simp_all add: kept_def)
qed

lemma positions_kept: "kept q om s \<Longrightarrow> kept q om (snd (defaultOptionPositions name s))"
proof -
  assume k: "kept q om s"
  have "kept q om (s\<lparr>ed_ledger := Some (snd (Get l a))\<rparr>)" if "ed_ledger s = Some l" for l a
    by (rule transfer_kept[OF k, of "OpGet a"]) (simp_all add: with_ledger_def that)
  then show ?thesis using k by (auto simp: defaultOptionPositions_def split: option.splits prod.splits) (metis snd_conv)
qed

lemma ledger_step_lambda: "ledger_step (OpCredit a x) = (\<lambda>l. Credit l a x)" "ledger_step (OpBurn a x) = (\<lambda>l. Burn l a x)"
  by (simp_all add: fun_eq_iff)

lemma cash_kept:
  assumes "kept q om s" "settleOptionCash rec held s = Some s'"
  shows "kept q om s'"
proof (cases "ed_ledger s = None \<or> IsZero held \<or> (\<exists>m. ed_optMarket s = Some m \<and> QuoteAndAsset m (st_Symbol rec) = None)")
  case True
  then show ?thesis using assms by (auto simp: settleOptionCash_def split: option.splits)
next
  case False
  with assms(2) obtain quote asset cash s1 where "with_ledger (ledger_step (OpCredit quote cash)) s = Some s1"
    "with_ledger (ledger_step (OpBurn asset held)) s1 = Some s'"
    unfolding ledger_step_lambda by (auto simp: settleOptionCash_def bind_eq_Some_conv split: option.splits)
  then show ?thesis using transfer_kept[OF assms(1), of "OpCredit quote cash"] transfer_kept[of q om s1 "OpBurn asset held"] by simp
qed

interpretation es: clearing e "edge_settler e s0" "kept q om" for e s0 q om
proof unfold_locales
  fix s s' :: edge and name name' i :: string
  assume k: "kept q om s" and c: "sl_CancelOrder (edge_settler e s0) name i s = Some s'"
  then have "book_cancel (unix_milli (su_now e)) name i s = Some s'" by (simp add: edge_settler_def)
  then obtain res b where b: "CancelOrder (en_book (ed_engine s)) name i = (res, b)" "en_book (ed_engine s') = b" "kept q om s'"
    by (rule book_cancel_outcome[OF k])
  show "kept q om s'" by (rule b(3))
  from b(1) show "mset (map ord_ID (sl_OpenOrders (edge_settler e s0) s name)) =
      add_mset i (mset (map ord_ID (sl_OpenOrders (edge_settler e s0) s' name)))"
    if "i \<in> ord_ID ` set (sl_OpenOrders (edge_settler e s0) s name)"
    by (cases rule: CancelOrder_outcome) (use that b(2) in \<open>auto simp: edge_settler_def\<close>)
  from b(1) show "sl_OpenOrders (edge_settler e s0) s' name' = sl_OpenOrders (edge_settler e s0) s name'" if "name' \<noteq> name"
    by (cases rule: CancelOrder_outcome) (use that b(2) in \<open>auto simp: edge_settler_def\<close>)
next
  show "kept q om (snd (sl_positions (edge_settler e s0) name s))" if "kept q om s" for s name
    using positions_kept[OF that] by (simp add: edge_settler_def)
  show "kept q om s'" if "sl_onSettle (edge_settler e s0) = Some hook" "kept q om s" "hook rec held s = Some s'" for hook s rec held s'
    using that cash_kept by (auto simp: edge_settler_def split: if_splits)
qed

lemma SettleOptions_edge:
  assumes "edge_inv s" "SettleOptions e s = Some (rs, s')"
  shows "edge_inv s' \<and> rg_seq (ed_registry s') = rg_seq (ed_registry s)"
proof (cases "ed_optMarket s")
  case None
  then show ?thesis using assms by (simp add: SettleOptions_def)
next
  case (Some om)
  with assms(2) obtain om' s1 where sw: "market_Settle e (edge_settler e s) (om, s) = Some (rs, om', s1)"
    "s' = s1\<lparr>ed_optMarket := Some om'\<rparr>" by (auto simp: SettleOptions_def bind_eq_Some_conv)
  have "kept (rg_seq (ed_registry s)) (Some om) s1"
    by (rule es.sweep_keeps[OF _ sw(1)]) (simp add: kept_def assms(1) Some)
  moreover have "same_listing om om'" by (rule grows_listing[OF sweep_grows[OF sw(1)]])
  ultimately show ?thesis using relist_edge[of s1 om om'] sw(2) by (simp add: kept_def)
qed

subsection \<open>The market of an edge\<close>

definition market_grows :: "edge \<Rightarrow> edge \<Rightarrow> bool" where
  "market_grows s s' \<longleftrightarrow> rel_option grows (ed_optMarket s) (ed_optMarket s')"

lemma market_grows_same: "ed_optMarket s' = ed_optMarket s \<Longrightarrow> market_grows s s'"
  by (cases "ed_optMarket s") (simp_all add: market_grows_def)

lemma with_ledger_market: "with_ledger f s = Some s' \<Longrightarrow> ed_optMarket s' = ed_optMarket s"
  by (auto simp: with_ledger_def bind_eq_Some_conv split: option.splits)

lemma settle_side_market: "settle_side t i s = Some s' \<Longrightarrow> ed_optMarket s' = ed_optMarket s"
  by (auto simp: settle_side_def settleFill_def settleOptionFill_def split: if_splits option.splits prod.splits
      dest: with_ledger_market)

lemma unlock_remainder_market: "unlock_remainder s rec base quote = Some s' \<Longrightarrow> ed_optMarket s' = ed_optMarket s"
  by (auto simp: unlock_remainder_def bind_eq_Some_conv split: if_splits dest: with_ledger_market)

lemma ledger_hook_market: "ledger_hook ev s = Some s' \<Longrightarrow> ed_optMarket s' = ed_optMarket s"
  by (auto simp: ledger_hook_def unlockRemainder_def unlockOptionRemainder_def bind_eq_Some_conv
      split: hook_event.splits if_splits option.splits prod.splits dest!: settle_side_market unlock_remainder_market)

lemma run_hook_market: "run_hook n h ev s = Some s' \<Longrightarrow> ed_optMarket s' = ed_optMarket s"
  by (auto simp: run_hook_def registry_hook_def bind_eq_Some_conv same_frame_def split: if_splits hook_event.splits
      dest: stream_frame(1) ledger_hook_market)

lemma engine_ran_market: "engine_ran n e s = Some s' \<Longrightarrow> ed_optMarket s' = ed_optMarket s"
proof -
  have "run_calls n cs s = Some s' \<Longrightarrow> ed_optMarket s' = ed_optMarket s" for cs s
    by (induction n cs s rule: run_calls.induct) (auto simp: bind_eq_Some_conv dest: run_hook_market)
  then show "engine_ran n e s = Some s' \<Longrightarrow> ed_optMarket s' = ed_optMarket s" by (fastforce simp: engine_ran_def)
qed

lemma emit_market: "ed_optMarket (emitExecutionReport n i k q p s) = ed_optMarket s"
  using emit_frame[of n i k q p s] by simp

lemma edge_PlaceLimit_market: "edge_PlaceLimit n x s = Some (pm, s') \<Longrightarrow> ed_optMarket s' = ed_optMarket s"
  by (auto simp: edge_PlaceLimit_def bind_eq_Some_conv dest: engine_ran_market)

lemma edge_PlaceMarket_market: "edge_PlaceMarket n x s = Some (pm, s') \<Longrightarrow> ed_optMarket s' = ed_optMarket s"
  by (auto simp: edge_PlaceMarket_def bind_eq_Some_conv dest: engine_ran_market)

lemma edge_CancelOrder_market: "edge_CancelOrder n inst oid s = Some (res, s') \<Longrightarrow> ed_optMarket s' = ed_optMarket s"
  by (auto simp: edge_CancelOrder_def bind_eq_Some_conv split: prod.splits dest: engine_ran_market)

lemma reserve_market: "reserve pair p s = Some (out, s') \<Longrightarrow> ed_optMarket s' = ed_optMarket s"
  by (auto simp: reserve_def bind_eq_Some_conv split: option.splits if_splits prod.splits)

lemma place_order_market:
  assumes "place_order pair api answer em n p s = Some (res, s')"
  shows "ed_optMarket s' = ed_optMarket s"
proof -
  obtain out r' where rec: "bin_RecordUnique (ed_registry s) (pl_binSym p) (pl_engSym p) (pl_sideStr p) (pl_typ p) (pl_tif p) (pl_price p)
      (pl_qty p) (pl_clientOrderID p) n = (out, r')" by fastforce
  show ?thesis
  proof (cases out)
    case (Inl err)
    then show ?thesis using assms rec by (auto simp: place_order_def)
  next
    case (Inr ptr)
    from assms rec[unfolded Inr] refl show ?thesis
    proof (cases rule: place_order_stored)
      case (poor asset amt s2)
      then show ?thesis using reserve_market[OF poor(1)] by simp
    next
      case (funded asset amt s2 pm s4)
      have "ed_optMarket s4 = ed_optMarket s2"
        using funded(2) emit_market by (metis edge_PlaceLimit_market edge_PlaceMarket_market)
      moreover have "ed_optMarket s' = ed_optMarket s4"
        using funded(3) by (auto simp: finish_placement_def bind_eq_Some_conv split: option.splits dest: with_ledger_market)
      ultimately show ?thesis using reserve_market[OF funded(1)] by simp
    qed
  qed
qed

lemma marked_market: "marked_cancel n rec s s' \<Longrightarrow> ed_optMarket s' = ed_optMarket s"
  unfolding marked_cancel_def by (elim exE conjE, drule edge_CancelOrder_market) (simp split: sum.split)

lemma handleOrder_market: "handleOrder verify em n rq s = Some (out, s') \<Longrightarrow> ed_optMarket s' = ed_optMarket s"
  by (erule handleOrder_cases) (simp, auto simp: place_spot_def dest: place_order_market marked_market)

lemma optionPlaceOrder_market:
  assumes "optionPlaceOrder verify em e rq s = Some (out, s')"
  shows "market_grows s s'"
  using assms
proof (cases rule: optionPlaceOrder_cases)
  case early
  then show ?thesis by (simp add: market_grows_same)
next
  case (band om mk om')
  then show ?thesis using market_Mark_grows by (simp add: market_grows_def)
next
  case (place om mk om' p qa answer)
  then show ?thesis using market_Mark_grows[OF place(4)] place_order_market[OF place(6)] by (simp add: market_grows_def)
qed

lemma serve_options_market:
  assumes "serve_options verify em e path rq s = Some (out, s')"
  shows "market_grows s s'"
  using assms
proof (cases rule: serve_options_cases)
  case same
  then show ?thesis by (simp add: market_grows_same)
next
  case data
  then show ?thesis by (auto simp: market_route_def market_grows_def bind_eq_Some_conv)
next
  case place
  then show ?thesis by (rule optionPlaceOrder_market)
next
  case cancel
  then show ?thesis by (intro market_grows_same) (rule marked_market)
qed

lemma SettleOptions_market: "SettleOptions e s = Some (rs, s') \<Longrightarrow> market_grows s s'"
  by (auto simp: SettleOptions_def market_grows_def bind_eq_Some_conv split: option.splits dest: sweep_grows)

lemma edge_step_market:
  assumes "edge_step verify em ev s = Some s'"
  shows "market_grows s s'"
proof (cases "(\<exists>e path rq. ev = OptionRequest e path rq) \<or> (\<exists>e. ev = ExpirySweep e)")
  case True
  then show ?thesis using assms by (auto intro: serve_options_market SettleOptions_market)
next
  case False
  have "ed_optMarket s' = ed_optMarket s"
    using assms False by (cases ev) (auto simp: edge_ExecuteIOC_def bind_eq_Some_conv
      dest: handleOrder_market edge_PlaceLimit_market edge_PlaceMarket_market edge_CancelOrder_market with_ledger_market engine_ran_market)
  then show ?thesis by (rule market_grows_same)
qed

lemma market_grows_trans: "market_grows s s1 \<Longrightarrow> market_grows s1 s2 \<Longrightarrow> market_grows s s2"
  by (auto simp: market_grows_def option_rel_Some1 elim!: option.rel_cases intro: grows_trans)

lemma edge_run_market: "run_ops (edge_step verify em) evs s = Some s' \<Longrightarrow> market_grows s s'"
  by (induction evs arbitrary: s) (auto simp: bind_eq_Some_conv market_grows_same intro: market_grows_trans edge_step_market)

subsection \<open>Every step\<close>

lemma edge_step_inv:
  assumes "edge_inv s" "sint (rg_seq (ed_registry s)) < 2 ^ 63 - 1" "event_ok ev" "edge_step verify em ev s = Some s'"
  shows "edge_inv s' \<and> sint (rg_seq (ed_registry s')) \<le> sint (rg_seq (ed_registry s)) + 1"
proof (cases ev)
  case (OrderRequest n rq)
  then show ?thesis using handleOrder_edge[OF assms(1,2)] assms(4) by auto
next
  case (OtherLimit n ord)
  with assms(3,4) obtain pm where ran: "\<not> isEdgeOrder (ord_ID ord)" "edge_PlaceLimit n ord s = Some (pm, s')" by auto
  then have "rg_seq (ed_registry s') = rg_seq (ed_registry s)"
    by (auto simp: edge_PlaceLimit_def bind_eq_Some_conv dest: engine_ran_seq)
  with foreign_limit[OF assms(1) ran] show ?thesis by simp
next
  case (OtherMarket n ord)
  with assms(3,4) obtain pm where ran: "\<not> isEdgeOrder (ord_ID ord)" "edge_PlaceMarket n ord s = Some (pm, s')" by auto
  then have "rg_seq (ed_registry s') = rg_seq (ed_registry s)"
    by (auto simp: edge_PlaceMarket_def bind_eq_Some_conv dest: engine_ran_seq)
  with foreign_market[OF assms(1) ran] show ?thesis by simp
next
  case (OtherIOC n ord)
  with assms(3,4) obtain res where ran: "\<not> isEdgeOrder (ord_ID ord)" "edge_ExecuteIOC n ord s = Some (res, s')" by auto
  then have "rg_seq (ed_registry s') = rg_seq (ed_registry s)"
    by (auto simp: edge_ExecuteIOC_def bind_eq_Some_conv dest: engine_ran_seq)
  with foreign_ioc[OF assms(1) ran] show ?thesis by simp
next
  case (OtherCancel n inst oid)
  with assms(4) obtain res where "edge_CancelOrder n inst oid s = Some (res, s')" by auto
  from edge_cancel[OF assms(1) this] show ?thesis by simp
next
  case (OtherHook h)
  note D = edge_invD[OF assms(1)]
  let ?e = "(ed_engine s)\<lparr>en_book := RegisterHook (en_book (ed_engine s)) h\<rparr>"
  have s': "s' = s\<lparr>ed_engine := ?e\<rparr>" using OtherHook assms(4) by simp
  have "edge_inv s'"
  proof (rule edge_invI)
    show "covered s'" using D(1) s' by simp
    show "wf_book (en_book (ed_engine s'))" "attached (en_book (ed_engine s'))"
      using D(2,3) assms(3) OtherHook s' by (simp_all add: wf_book_def attached_def RegisterHook_def)
    show "agree (ed_registry s') inst (OpenOrders (en_book (ed_engine s')) inst)" for inst
      using D(4)[of inst] s' by (simp add: OpenOrders_def lookup_def RegisterHook_def)
    show "ToEngine (ed_symbols s') sm = Some e \<Longrightarrow> \<not> isOptionSym s' e" for sm e
      using D(5) s' isOptionSym_frame[of s' s] by simp
  qed
  then show ?thesis using s' by simp
next
  case (Transfer op)
  obtain l where c: "coherent_reg (ed_registry s)" "ed_ledger s = Some l" "\<And>a. reserved (assets s) (ed_registry s) a \<le> lk l a"
    using edge_invD(1)[OF assms(1)] by (meson coveredE sane_storeD(1))
  with Transfer assms(4) obtain l' where l': "ledger_step op l = Some l'" "s' = s\<lparr>ed_ledger := Some l'\<rparr>"
    by (auto simp: with_ledger_def bind_eq_Some_conv)
  have "lk l' = lk l" using transfer_locked[OF _ l'(1)] assms(3) Transfer by simp
  then have "edge_inv s'" by (intro edge_same_orders[OF assms(1), of s' l']) (use l'(2) c in simp_all)
  then show ?thesis using l'(2) by simp
next
  case (OptionRequest e path rq)
  then show ?thesis using serve_options_edge[OF assms(1,2)] assms(4) by auto
next
  case (ExpirySweep e)
  then show ?thesis using SettleOptions_edge[OF assms(1)] assms(4) by auto
qed

lemma edge_run_inv:
  "edge_inv s \<Longrightarrow> sint (rg_seq (ed_registry s)) + int (length evs) < 2 ^ 63 \<Longrightarrow> list_all event_ok evs \<Longrightarrow>
    run_ops (edge_step verify em) evs s = Some s' \<Longrightarrow>
    edge_inv s' \<and> sint (rg_seq (ed_registry s')) \<le> sint (rg_seq (ed_registry s)) + int (length evs)"
proof (induction evs arbitrary: s)
  case Nil
  then show ?case by simp
next
  case (Cons ev evs)
  then obtain s1 where s1: "edge_step verify em ev s = Some s1" "run_ops (edge_step verify em) evs s1 = Some s'"
    by (auto simp: bind_eq_Some_conv)
  have "edge_inv s1 \<and> sint (rg_seq (ed_registry s1)) \<le> sint (rg_seq (ed_registry s)) + 1"
    using Cons.prems by (intro edge_step_inv[OF _ _ _ s1(1)]) auto
  then show ?case using Cons.prems Cons.IH[OF _ _ _ s1(2)] by auto
qed

lemma NewSymbolMap_pairs: "ToEngine (NewSymbolMap pairs) sm = Some e \<Longrightarrow> (sm, e) \<in> set pairs"
proof -
  have "ToEngine (fold add_pair pairs m) sm = Some e \<Longrightarrow> (sm, e) \<in> set pairs \<or> ToEngine m sm = Some e" for m
  proof (induction pairs arbitrary: m)
    case (Cons q pairs)
    have "ToEngine (add_pair q m) sm = Some e \<Longrightarrow> (sm, e) = q \<or> ToEngine m sm = Some e"
      by (cases q) (auto simp: ToEngine_def add_pair_def Let_def split: if_splits)
    then show ?case using Cons.IH[of "add_pair q m"] Cons.prems by auto
  qed simp
  then show "ToEngine (NewSymbolMap pairs) sm = Some e \<Longrightarrow> (sm, e) \<in> set pairs"
    by (fastforce simp: NewSymbolMap_def ToEngine_def)
qed

text \<open>An edge that has been in operation.\<close>

definition operated ::
    "verifier \<Rightarrow> (engine_error \<Rightarrow> string) \<Rightarrow> edge \<Rightarrow> edge_event list \<Rightarrow> edge \<Rightarrow> bool" where
  "operated verify em s0 evs s \<longleftrightarrow> (\<exists>now insts margin pairs initial om. s0 = new_edge now insts margin pairs initial om \<and>
     (\<forall>(sm, e)\<in>set pairs. \<not> isOptionSym s0 e) \<and> (\<forall>m. om = Some m \<longrightarrow> om_settled m = [] \<and> om_settlements m = [])) \<and>
     list_all event_ok evs \<and> int (length evs) < 2 ^ 63 \<and> run_ops (edge_step verify em) evs s0 = Some s"

lemma operated_sound:
  assumes "operated verify em s0 evs s"
  shows "edge_inv s \<and> sint (rg_seq (ed_registry s)) \<le> int (length evs)"
proof -
  from assms obtain now insts margin pairs initial om where s0: "s0 = new_edge now insts margin pairs initial om"
    "\<forall>(sm, e)\<in>set pairs. \<not> isOptionSym s0 e" and run: "list_all event_ok evs" "int (length evs) < 2 ^ 63"
    "run_ops (edge_step verify em) evs s0 = Some s" unfolding operated_def by blast
  have "edge_inv s0" unfolding s0(1)
    by (rule new_edge_inv) (use s0 NewSymbolMap_pairs in blast)
  moreover have "rg_seq (ed_registry s0) = 0" by (simp add: s0(1) new_edge_def AttachHooks_def bin_NewRegistry_def Let_def)
  ultimately show ?thesis using edge_run_inv[OF _ _ run(1,3)] run(2) by simp
qed

lemmas operated_inv = operated_sound[THEN conjunct1]

lemmas operated_seq = operated_sound[THEN conjunct2]

lemma operated_log:
  assumes "operated verify em s0 evs s" "ed_optMarket s = Some m"
  shows "log_ok m"
proof -
  from assms(1) obtain now insts margin pairs initial om where s0: "s0 = new_edge now insts margin pairs initial om"
    "\<And>m. om = Some m \<Longrightarrow> om_settled m = [] \<and> om_settlements m = []" and run: "run_ops (edge_step verify em) evs s0 = Some s"
    unfolding operated_def by blast
  have "ed_optMarket s0 = om" by (simp add: s0(1) new_edge_def AttachHooks_def Let_def)
  with edge_run_market[OF run] assms(2) s0(2) show ?thesis by (cases om) (auto simp: market_grows_def grows_def log_ok_def)
qed

end
