(* ===== verification/BinanceEdgeProofs.thy ===== *)
theory BinanceEdgeProofs
  imports EdgeOperation
begin

text \<open>
  The properties of the Binance edge in operation: what is locked covers the working orders, the order store
  and the book agree, a refused placement leaves no trace, a cancellation gives back exactly what was
  reserved, and what becomes of a market order that the book cannot fill.
\<close>

subsection \<open>A concrete edge\<close>

text \<open>A number as a client writes it.\<close>

definition full_text :: "decimal \<Rightarrow> string" where
  "full_text d = StringPrec d (int ScaleDigits)"

lemma full_text [simp]: "full_text d \<noteq> []" "Parse (full_text d) = Inr d"
proof -
  show p: "Parse (full_text d) = Inr d" by (simp add: full_text_def Parse_full)
  show "full_text d \<noteq> []" using p by (auto simp: Parse_def)
qed

text \<open>A request for five units, at a price of one if it is a limit order.\<close>

definition ex_request :: "string \<Rightarrow> request" where
  "ex_request kind = \<lparr>rq_Method = ''POST'', rq_Query = (\<lambda>_. [])(''symbol'' := ''BTCUSDT'', ''side'' := ''BUY'', ''type'' := kind,
    ''quantity'' := full_text (Decimal 0 5), ''price'' := full_text unit_price), rq_Form = (\<lambda>_. [])\<rparr>"

definition ex_placing :: "string \<Rightarrow> place_request" where
  "ex_placing kind = \<lparr>pl_binSym = ''BTCUSDT'', pl_engSym = ''BTC-USD'', pl_sideStr = ''BUY'', pl_side = SideBuy, pl_typ = kind,
     pl_tif = (if kind = ''LIMIT'' then ''GTC'' else []), pl_price = (if kind = ''LIMIT'' then unit_price else Zero),
     pl_qty = Decimal 0 5, pl_clientOrderID = []\<rparr>"

definition ex_edge :: "(string, decimal) gomap \<Rightarrow> edge" where
  "ex_edge initial = new_edge int [''BTC-USD''] (\<lambda>_ _. Some None) [(''BTCUSDT'', ''BTC-USD'')] initial None"

definition ex_market :: order_book where
  "ex_market = \<lparr>ob_instruments = [''BTC-USD'' \<mapsto> empty_book], ob_hooks = [0, 1, 2], ob_now = int, ob_reads = 0, ob_calls = []\<rparr>"

lemma ex_edge_eq: "ex_edge initial = \<lparr>ed_engine = engine_New ex_market (\<lambda>_ _. Some None),
    ed_symbols = NewSymbolMap [(''BTCUSDT'', ''BTC-USD'')], ed_registry = bin_NewRegistry,
    ed_ledger = Some (NewLedger initial), ed_optMarket = None, ed_balances = [], ed_reports = []\<rparr>"
  by (simp add: ex_edge_def new_edge_def AttachHooks_def engine_New_def ex_market_def NewOrderBook_def RegisterHook_def Let_def)

lemma Sign_values: "Sign (Decimal 0 5) = 1" "Sign unit_price = 1"
  by (simp_all add: Sign_spec ex_values scaleBig_num)

lemma ex_parsed: "kind = ''LIMIT'' \<or> kind = ''MARKET'' \<Longrightarrow>
    parse_place (NewSymbolMap [(''BTCUSDT'', ''BTC-USD'')]) (ex_request kind) = Inr (ex_placing kind)"
  by (elim disjE) (simp_all add: parse_place_def ex_request_def Let_def param_def NewSymbolMap_def add_pair_def ToEngine_def
      parseSide_def parseDecimalParam_def parse_price_def Sign_values ex_placing_def)

lemma ex_started: "operated (\<lambda>_. None) em (ex_edge initial) [] (ex_edge initial)"
proof -
  have "\<not> isOptionSym (ex_edge initial) ''BTC-USD''"
    by (simp add: isOptionSym_def ex_edge_eq isOptionBookSymbol_def)
  then have "\<forall>(sm, e)\<in>set [(''BTCUSDT'', ''BTC-USD'')]. \<not> isOptionSym (ex_edge initial) e" by simp
  then show ?thesis unfolding operated_def using ex_edge_def[of initial]
    by (intro conjI exI[of _ int] exI[of _ "[''BTC-USD'']"] exI[of _ "\<lambda>_ _. Some None"]
        exI[of _ "[(''BTCUSDT'', ''BTC-USD'')]"] exI[of _ initial] exI[of _ None]) simp_all
qed

text \<open>Its first record.\<close>

definition ex_record :: "string \<Rightarrow> order_record" where
  "ex_record kind = placed_record (ex_placing kind) 1 0"

definition ex_stored :: "string \<Rightarrow> registry" where
  "ex_stored kind = \<lparr>rg_heap = [ex_record kind], rg_seq = 1, rg_byOrderID = [(1, 0)], rg_byEngine = [bin_EngineID 1 \<mapsto> 0],
     rg_byClient = [''x-emu-'' @ int_string 1 \<mapsto> 0]\<rparr>"

lemma ex_recorded: "bin_RecordUnique (ed_registry (ex_edge initial)) (pl_binSym (ex_placing kind)) (pl_engSym (ex_placing kind))
    (pl_sideStr (ex_placing kind)) (pl_typ (ex_placing kind)) (pl_tif (ex_placing kind)) (pl_price (ex_placing kind))
    (pl_qty (ex_placing kind)) (pl_clientOrderID (ex_placing kind)) 0 = (Inr 0, ex_stored kind)"
  by (simp add: bin_RecordUnique_def bin_record_def bin_nextID_def bin_NewRegistry_def Let_def ex_stored_def ex_record_def
      fresh_record_def client_or_own_def ex_placing_def ex_edge_eq)

lemma ex_stored_heap: "rg_heap (ex_stored kind) ! 0 = ex_record kind"
  by (simp add: ex_stored_def)

lemma ex_handle: "kind = ''LIMIT'' \<or> kind = ''MARKET'' \<Longrightarrow>
    handleOrder (\<lambda>_. None) em 0 (ex_request kind) (ex_edge initial) = place_spot em 0 (ex_placing kind) (ex_edge initial)"
  using ex_parsed[of kind] by (simp add: handleOrder_def handlePlaceOrder_def ex_edge_eq) (simp add: ex_request_def)

lemma ex_engine: "pl_engSym (ex_placing kind) = ''BTC-USD''"
  by (simp add: ex_placing_def)

lemmas ex_place_eq = place_order_eq[OF ex_recorded ex_stored_heap]

definition ex_order :: "string \<Rightarrow> order" where
  "ex_order kind = placed_order ''binance'' (ex_placing kind) (ex_record kind)"

definition ex_ib_after :: "string \<Rightarrow> instrument_book" where
  "ex_ib_after kind = empty_book\<lparr>ib_bids := (if kind = ''LIMIT'' then [ex_order kind] else [])\<rparr>"

definition ex_after :: "string \<Rightarrow> order_book" where
  "ex_after kind = \<lparr>ob_instruments = [''BTC-USD'' \<mapsto> ex_ib_after kind], ob_hooks = [0, 1, 2], ob_now = int, ob_reads = 0, ob_calls = []\<rparr>"

lemma ex_terms: "ord_Instrument (ex_order kind) = ''BTC-USD''" "ord_Volume (ex_order kind) = Decimal 0 5"
  "ord_Side (ex_order kind) = SideBuy" "ord_IsMarket (ex_order kind) = (kind = ''MARKET'')" "ord_ID (ex_order kind) = bin_EngineID 1"
  "ord_Price (ex_order ''LIMIT'') = unit_price"
  by (simp_all add: ex_order_def placed_order_def ex_placing_def ex_record_def fresh_record_def)

lemma ex_add_order: "kind = ''LIMIT'' \<or> kind = ''MARKET'' \<Longrightarrow>
    AddLimitOrder ex_market (ex_order kind) = Some (Inr [], ex_order kind, ex_after kind)"
  by (elim disjE) (simp_all add: ex_market_def book_eval empty_book_def ex_terms ex_after_def ex_ib_after_def)

lemma ex_PlaceLimit:
  assumes "kind = ''LIMIT'' \<or> kind = ''MARKET''" "en_book e0 = ex_market" "en_margin e0 = (\<lambda>_ _. Some None)"
  shows "\<exists>pm e. PlaceLimit e0 (ex_order kind) = Some (pm, ex_order kind, e) \<and> pm_error pm = None \<and> pm_trades pm = [] \<and>
    en_book e = ex_after kind"
proof -
  have "aggregateLevels (ib_asks (ex_ib_after kind)) False = Some []" by (simp add: aggregateLevels_def ex_ib_after_def empty_book_def)
  moreover have "\<exists>ls. aggregateLevels (ib_bids (ex_ib_after kind)) True = Some ls" using assms(1)
    by (elim disjE) (simp_all add: aggregateLevels_def ex_ib_after_def empty_book_def ex_terms Add_def Add64_def Zero_def Let_def)
  ultimately obtain sn where "Snapshot (ex_after kind) ''BTC-USD'' = Some (Inr sn)"
    by (auto simp: Snapshot_def lookup_def ex_after_def)
  then show ?thesis using assms(2,3) ex_add_order[OF assms(1)] by (simp add: PlaceLimit_def append_log_def ex_terms Let_def)
qed

text \<open>An order that is funded, or needs no funds, comes through.\<close>

lemma ex_entered:
  assumes "kind = ''LIMIT'' \<or> kind = ''MARKET''"
    and "reserve (splitEngineSymbol ''BTC-USD'') (ex_placing kind) ((ex_edge initial)\<lparr>ed_registry := ex_stored kind\<rparr>) =
      Some ((True, asset, amt), (ex_edge initial)\<lparr>ed_registry := ex_stored kind, ed_ledger := l\<rparr>)"
  shows "\<exists>out s. handleOrder (\<lambda>_. None) em 0 (ex_request kind) (ex_edge initial) = Some (Inr out, s) \<and>
    ed_registry s = ex_stored kind \<and> ed_ledger s = l \<and> en_book (ed_engine s) = ex_after kind \<and>
    ed_symbols s = NewSymbolMap [(''BTCUSDT'', ''BTC-USD'')]"
proof -
  let ?s3 = "emitExecutionReport 0 (or_EngineID (ex_record kind)) ''NEW'' Zero Zero
      ((ex_edge initial)\<lparr>ed_registry := ex_stored kind, ed_ledger := l\<rparr>)"
  let ?e0 = "if kind = ''MARKET'' then append_log (ed_engine ?s3) ''order.market'' (snapshotOrder (ex_order kind)) else ed_engine ?s3"
  have "en_book ?e0 = ex_market" "en_margin ?e0 = (\<lambda>_ _. Some None)" by (simp_all add: append_log_def ex_edge_eq engine_New_def)
  from ex_PlaceLimit[OF assms(1) this] obtain pm e where
    e: "PlaceLimit ?e0 (ex_order kind) = Some (pm, ex_order kind, e)" "pm_error pm = None" "en_book e = ex_after kind" by blast
  have quiet: "ob_calls (ex_after kind) = []" by (simp add: ex_after_def)
  have mk: "(ex_order ''MARKET'')\<lparr>ord_IsMarket := True\<rparr> = ex_order ''MARKET''"
    by (simp add: ex_order_def placed_order_def ex_placing_def)
  have "(if ord_IsMarket (ex_order kind) then edge_PlaceMarket 0 (ex_order kind) ?s3 else edge_PlaceLimit 0 (ex_order kind) ?s3) =
      Some (pm, ?s3\<lparr>ed_engine := e\<rparr>)"
    using e quiet by (cases "kind = ''MARKET''")
      (simp_all add: mk ex_terms edge_PlaceMarket_def edge_PlaceLimit_def PlaceMarket_def Let_def engine_ran_def)
  then have "place_spot em 0 (ex_placing kind) (ex_edge initial) = Some (Inr (OrderPlaced (order_placed 0 (pl_binSym (ex_placing kind))
      (pm_trades pm) (snapshot_or_zero (ex_stored kind) (or_OrderID (ex_record kind))))), ?s3\<lparr>ed_engine := e\<rparr>)"
    unfolding place_spot_def ex_place_eq ex_order_def[symmetric] using assms(2) e(2) by (simp add: finish_placement_def ex_engine split del: if_split)
  then show ?thesis unfolding ex_handle[OF assms(1)] using e(3) by (simp add: ex_edge_eq)
qed

definition ex_locked :: ledger where
  "ex_locked = [(''USD'', \<lparr>h_free = Decimal 0 995, h_locked = Decimal 0 5\<rparr>)]"

lemma ex_limit: "\<exists>out s. handleOrder (\<lambda>_. None) em 0 (ex_request ''LIMIT'') (ex_edge [(''USD'', Decimal 0 1000)]) = Some (Inr out, s) \<and>
    ed_registry s = ex_stored ''LIMIT'' \<and> ed_ledger s = Some ex_locked \<and> en_book (ed_engine s) = ex_after ''LIMIT'' \<and>
    ed_symbols s = NewSymbolMap [(''BTCUSDT'', ''BTC-USD'')]"
proof (rule ex_entered)
  have "Lock (NewLedger [(''USD'', Decimal 0 1000)]) ''USD'' (Decimal 0 5) = Some (True, ex_locked)"
    by (simp add: Lock_def NewLedger_def touch_def holding_at_def set_free_def set_locked_def ex_locked_def Let_def Sign_values
        less_toBig toBig_eq Sub_def Sub64_def Add_def Add64_def Zero_def)
  moreover have "Mul unit_price (Decimal 0 5) = Some (Decimal 0 5)" using ex_mul by (simp add: Mul_spec mult.commute)
  ultimately show "reserve (splitEngineSymbol ''BTC-USD'') (ex_placing ''LIMIT'') ((ex_edge [(''USD'', Decimal 0 1000)])\<lparr>ed_registry := ex_stored ''LIMIT''\<rparr>) =
      Some ((True, ''USD'', Decimal 0 5), (ex_edge [(''USD'', Decimal 0 1000)])\<lparr>ed_registry := ex_stored ''LIMIT'', ed_ledger := Some ex_locked\<rparr>)"
    by (simp add: reserve_def ex_placing_def ex_edge_eq)
qed simp

lemma ex_market_order: "\<exists>out s. handleOrder (\<lambda>_. None) em 0 (ex_request ''MARKET'') (ex_edge []) = Some (Inr out, s) \<and>
    ed_registry s = ex_stored ''MARKET'' \<and> ed_ledger s = Some [] \<and> en_book (ed_engine s) = ex_after ''MARKET'' \<and>
    ed_symbols s = NewSymbolMap [(''BTCUSDT'', ''BTC-USD'')]"
  by (rule ex_entered[of _ _ "[]" Zero]) (simp_all add: reserve_def ex_edge_eq NewLedger_def, simp add: ex_placing_def)

lemma ex_poor: "\<exists>s. handlePlaceOrder (\<lambda>_. None) em 0 (ex_request ''LIMIT'') (ex_edge []) = Some (Inl errInsufficientBalance, s)"
proof -
  have "Lock [] ''USD'' (Decimal 0 5) = Some (False, touch [] ''USD'')"
    by (simp add: Lock_def touch_def holding_at_def Let_def Sign_values less_toBig toBig_eq Zero_def)
  moreover have "Mul unit_price (Decimal 0 5) = Some (Decimal 0 5)" using ex_mul by (simp add: Mul_spec mult.commute)
  ultimately have "place_spot em 0 (ex_placing ''LIMIT'') (ex_edge []) = Some (Inl errInsufficientBalance,
      (ex_edge [])\<lparr>ed_ledger := Some (touch [] ''USD''), ed_registry := bin_Remove (ex_stored ''LIMIT'') (or_OrderID (ex_record ''LIMIT''))\<rparr>)"
    unfolding place_spot_def ex_place_eq by (simp add: reserve_def ex_placing_def ex_edge_eq NewLedger_def)
  then show ?thesis using ex_parsed[of "''LIMIT''"] by (simp add: handlePlaceOrder_def ex_edge_eq)
qed

lemma ex_ran: "handleOrder (\<lambda>_. None) em 0 (ex_request kind) (ex_edge initial) = Some (out, s) \<Longrightarrow>
    operated (\<lambda>_. None) em (ex_edge initial) [OrderRequest 0 (ex_request kind)] s"
  using ex_started[of em initial] by (simp add: operated_def)

lemma ex_resting: "OpenOrders (ex_after kind) ''BTC-USD'' = (if kind = ''LIMIT'' then [ex_order kind] else [])"
  by (simp add: OpenOrders_def lookup_def ex_after_def ex_ib_after_def empty_book_def)

lemma ex_got: "bin_Get (ex_stored kind) 1 = Some (ex_record kind)" "bin_getByEngine (ex_stored kind) (bin_EngineID 1) = Some (ex_record kind)"
  by (simp_all add: bin_Get_def bin_getByEngine_def ex_stored_def)

lemma ex_record_terms: "or_Type (ex_record kind) = kind" "is_working (ex_record kind)" "or_OrderID (ex_record kind) = 1"
  "or_EngineSymbol (ex_record kind) = ''BTC-USD''" "or_EngineID (ex_record kind) = bin_EngineID 1"
  by (simp_all add: ex_record_def fresh_record_def ex_placing_def is_working_def status_defs)

subsection \<open>Properties of the edge\<close>







text \<open>A cancellation that reaches the order.\<close>

lemma handleCancel_named:
  assumes "verify rq = None" "rq_Query rq ''symbol'' \<noteq> []" "ToEngine (ed_symbols s) (rq_Query rq ''symbol'') = Some eng"
    and "named_order rq (ed_registry s) = Inr rec"
  shows "handleCancelOrder verify n rq s = cancel_spot n (rq_Query rq ''symbol'') rec s"
  using assms by (simp add: handleCancelOrder_def Let_def)

text \<open>An order without a working record is not at rest.\<close>

lemma idle_not_resting:
  assumes "edge_inv s" "isEdgeOrder e" "\<And>rec. bin_getByEngine (ed_registry s) e = Some rec \<Longrightarrow> \<not> twin rec x \<or> ord_ID x \<noteq> e"
    and "x \<in> set (OpenOrders (en_book (ed_engine s)) inst)"
  shows "ord_ID x \<noteq> e"
proof
  assume same: "ord_ID x = e"
  with assms(2) have "isEdgeOrder (ord_ID x)" by simp
  then obtain rec where "bin_getByEngine (ed_registry s) (ord_ID x) = Some rec" "twin rec x"
    by (rule agree_twin[OF edge_invD(4)[OF assms(1)] assms(4)])
  then show False using assms(3) same by blast
qed


definition ex_cancel :: request where
  "ex_cancel = \<lparr>rq_Method = ''DELETE'', rq_Query = (\<lambda>_. [])(''symbol'' := ''BTCUSDT'', ''orderId'' := ''1''), rq_Form = (\<lambda>_. [])\<rparr>"

lemma ex_symbol: "rq_Query ex_cancel ''symbol'' = ''BTCUSDT''"
  by (simp add: ex_cancel_def)

lemma ex_mapped: "ToEngine (NewSymbolMap [(''BTCUSDT'', ''BTC-USD'')]) ''BTCUSDT'' = Some ''BTC-USD''"
  by (simp add: NewSymbolMap_def add_pair_def ToEngine_def)

lemma ex_named: "named_order ex_cancel (ex_stored kind) = Inr (ex_record kind)"
proof -
  have "Atoi ''1'' = Some 1" by (simp add: Atoi_def isDigit_def digit_value_def Let_def)
  then show ?thesis using ex_got(1) by (simp add: named_order_def ex_cancel_def Let_def)
qed

lemma ex_unlock: "\<exists>l. Unlock ex_locked ''USD'' (Decimal 0 5) = Some l"
  by (simp add: Unlock_def Sign_values release_def ex_locked_def touch_def holding_at_def set_free_def set_locked_def Let_def
      less_toBig toBig_eq Sub_def Sub64_def Add_def Add64_def)

lemma ex_cancel_hooks:
  assumes "ed_registry s = ex_stored ''LIMIT''" "ed_ledger s = Some ex_locked" "\<not> isOptionSym s ''BTC-USD''"
  shows "\<exists>s'. run_calls 0 (hooked (EvCancel (ex_order ''LIMIT''))) s = Some s'"
proof -
  let ?o = "ex_order ''LIMIT''" and ?rec = "bin_cancelRecord (ex_record ''LIMIT'') 0"
  let ?r = "bin_OnCancel (Some ?o) 0 (ed_registry s)"
  have pre: "HasPrefix (bin_EngineID 1) bin_prefix" by (simp add: bin_EngineID_def)
  have get: "bin_getByEngine ?r (bin_EngineID 1) = Some ?rec"
    using pre by (simp add: assms(1) bin_OnCancel_def ex_terms ex_stored_def put_record_def bin_getByEngine_def)
  obtain s2 where s2: "stream_hook 0 (EvCancel ?o) (s\<lparr>ed_registry := ?r\<rparr>) = Some s2" by (simp add: stream_hook_def)
  then have fr: "ed_registry s2 = ?r" "ed_ledger s2 = Some ex_locked" "ed_optMarket s2 = ed_optMarket s"
    using assms(2) by (auto simp: stream_hook_def emitExecutionReport_def Let_def split: if_splits option.splits)
  have terms: "or_EngineSymbol ?rec = ''BTC-USD''" "or_Type ?rec = ''LIMIT''" "or_OrigQty ?rec = Decimal 0 5" "or_ExecutedQty ?rec = Zero"
    "or_Side ?rec = ''BUY''" "or_Price ?rec = unit_price"
    by (simp_all add: bin_cancelRecord_def ex_record_def fresh_record_def ex_placing_def)
  have "\<not> option_order s2 (bin_EngineID 1)"
    using assms(3) get fr terms(1) isOptionSym_frame[of s2 s] by (simp add: option_order_def)
  moreover have "Sub (Decimal 0 5) Zero = Some (Decimal 0 5)" by (simp add: Sub_def Sub64_def Zero_def)
  ultimately have "\<exists>s'. ledger_hook (EvCancel ?o) s2 = Some s'"
    using get fr pre terms ex_unlock ex_mul
    by (auto simp: ledger_hook_def isEdgeOrder_def ex_terms unlockRemainder_def unlock_remainder_def Sign_values with_ledger_def)
  then show ?thesis using s2 by (auto simp: run_hook_def registry_hook_def)
qed

lemma ex_cancelled:
  assumes "ed_registry s = ex_stored ''LIMIT''" "ed_ledger s = Some ex_locked" "en_book (ed_engine s) = ex_after ''LIMIT''"
    "ed_symbols s = NewSymbolMap [(''BTCUSDT'', ''BTC-USD'')]"
    "\<not> isOptionSym s ''BTC-USD''"
  shows "\<exists>out s'. handleCancelOrder (\<lambda>_. None) 0 ex_cancel s = Some (out, s')"
proof -
  let ?o = "ex_order ''LIMIT''" and ?e = "append_log (ed_engine s) ''order.cancel'' (CancelPayload (bin_EngineID 1) ''BTC-USD'')"
  obtain b where b: "CancelOrder (ex_after ''LIMIT'') ''BTC-USD'' (bin_EngineID 1) = (Inr ?o, b)"
    "ob_calls b = [(0, EvCancel ?o), (1, EvCancel ?o), (2, EvCancel ?o)]"
    by (simp add: CancelOrder_def lookup_def ex_after_def ex_ib_after_def empty_book_def ex_terms put_book_def fire_def)
  let ?s = "s\<lparr>ed_engine := ?e\<lparr>en_book := b\<rparr>\<rparr>"
  have "\<exists>s'. run_calls 0 [(0, EvCancel ?o), (1, EvCancel ?o), (2, EvCancel ?o)] ?s = Some s'"
    using ex_cancel_hooks[of ?s] assms isOptionSym_frame[of ?s s] by (simp del: run_calls.simps)
  moreover have "edge_CancelOrder 0 ''BTC-USD'' (bin_EngineID 1) s =
      do { s \<leftarrow> run_calls 0 [(0, EvCancel ?o), (1, EvCancel ?o), (2, EvCancel ?o)] ?s; Some (Inr ?o, s) }"
    using b assms(3) by (simp add: edge_CancelOrder_def engine_CancelOrder_def append_log_def engine_ran_def ex_after_def del: run_calls.simps)
  ultimately have "\<exists>out s'. cancel_spot 0 ''BTCUSDT'' (ex_record ''LIMIT'') s = Some (out, s')"
    by (auto simp: cancel_spot_def ex_record_terms simp del: run_calls.simps)
  moreover have "handleCancelOrder (\<lambda>_. None) 0 ex_cancel s = cancel_spot 0 (rq_Query ex_cancel ''symbol'') (ex_record ''LIMIT'') s"
    by (rule handleCancel_named[of _ _ _ "''BTC-USD''"]) (use assms ex_named in \<open>simp_all add: ex_symbol ex_mapped\<close>)
  ultimately show ?thesis by (simp add: ex_symbol)
qed


text \<open>A market order that the book does not fill stays open for ever: its record is never at rest in the book, and
  while it is working a cancellation is refused as unknown, without a change of the orders or the balances.\<close>

theorem market_remainder_stuck:
  assumes "operated verify em s0 evs s" "bin_getByEngine (ed_registry s) (or_EngineID rec) = Some rec" "or_Type rec = ''MARKET''"
  shows "or_EngineID rec \<notin> ord_ID ` set (OpenOrders (en_book (ed_engine s)) inst) \<and>
    (is_working rec \<longrightarrow> verify rq = None \<longrightarrow> rq_Query rq ''symbol'' \<noteq> [] \<longrightarrow>
       ToEngine (ed_symbols s) (rq_Query rq ''symbol'') = Some eng \<longrightarrow> named_order rq (ed_registry s) = Inr rec \<longrightarrow>
     (\<exists>s'. handleCancelOrder verify n rq s = Some (Inl errUnknownOrder, s') \<and> ed_registry s' = ed_registry s \<and>
       ed_ledger s' = ed_ledger s))"
proof -
  note inv = operated_inv[OF assms(1)]
  have co: "coherent_reg (ed_registry s)" using edge_invD(1)[OF inv] by (meson coveredE sane_storeD(1))
  have away: "or_EngineID rec \<notin> ord_ID ` set (OpenOrders (en_book (ed_engine s)) inst)" for inst
    using idle_not_resting[OF inv getByEngine_prefix(1)[OF co assms(2)]] assms(2,3) by (force simp: twin_def)
  have "\<exists>s'. handleCancelOrder verify n rq s = Some (Inl errUnknownOrder, s') \<and> ed_registry s' = ed_registry s \<and>
       ed_ledger s' = ed_ledger s"
    if w: "is_working rec" and ok: "verify rq = None" "rq_Query rq ''symbol'' \<noteq> []"
      "ToEngine (ed_symbols s) (rq_Query rq ''symbol'') = Some eng" "named_order rq (ed_registry s) = Inr rec"
  proof -
    let ?e = "append_log (ed_engine s) ''order.cancel'' (CancelPayload (or_EngineID rec) (or_EngineSymbol rec))"
    obtain res b where b: "CancelOrder (en_book (ed_engine s)) (or_EngineSymbol rec) (or_EngineID rec) = (res, b)" by fastforce
    then obtain err where err: "res = Inl err" "b = en_book (ed_engine s)"
      by (cases rule: CancelOrder_outcome) (use away in force)+
    let ?s = "s\<lparr>ed_engine := ?e\<lparr>en_book := b\<rparr>\<rparr>"
    have "edge_CancelOrder n (or_EngineSymbol rec) (or_EngineID rec) s = Some (Inl err, ?s)"
      using b err by (simp add: edge_CancelOrder_def engine_CancelOrder_def append_log_def engine_ran_def)
    moreover have "snapshot_or_zero (ed_registry s) (or_OrderID rec) = rec"
      using named_order_own(3)[OF co ok(4)] by (simp add: snapshot_or_zero_def)
    ultimately have "cancel_spot n (rq_Query rq ''symbol'') rec s = Some (Inl errUnknownOrder, ?s)"
      using w by (auto simp: cancel_spot_def is_working_def status_defs)
    then show ?thesis using handleCancel_named[where verify = verify and rq = rq and s = s and n = n, OF ok] by simp
  qed
  then show ?thesis using away by blast
qed

theorem market_remainder_stuck_witness:
  "\<exists>s s'. handleOrder (\<lambda>_. None) (\<lambda>_. []) 0 (ex_request ''MARKET'') (ex_edge []) = Some s \<and>
    handleCancelOrder (\<lambda>_. None) 0 ex_cancel (snd s) = Some (Inl errUnknownOrder, s') \<and> ed_registry s' = ex_stored ''MARKET''"
proof -
  obtain out s where s: "handleOrder (\<lambda>_. None) (\<lambda>_. []) 0 (ex_request ''MARKET'') (ex_edge []) = Some (Inr out, s)"
    "ed_registry s = ex_stored ''MARKET''" "ed_symbols s = NewSymbolMap [(''BTCUSDT'', ''BTC-USD'')]" using ex_market_order by blast
  have "bin_getByEngine (ed_registry s) (or_EngineID (ex_record ''MARKET'')) = Some (ex_record ''MARKET'')"
    by (simp add: s ex_got ex_record_terms)
  from market_remainder_stuck[OF ex_ran[OF s(1)] this ex_record_terms(1), where rq = ex_cancel and eng = "''BTC-USD''" and n = 0]
  obtain s' where "handleCancelOrder (\<lambda>_. None) 0 ex_cancel s = Some (Inl errUnknownOrder, s')" "ed_registry s' = ed_registry s"
    by (auto simp: s ex_record_terms ex_named ex_symbol ex_mapped)
  then show ?thesis using s by (intro exI[of _ "(Inr out, s)"] exI[of _ s']) simp
qed



end
