(* ===== verification/LevelDiff.thy ===== *)
theory LevelDiff
  imports BinanceEdge
begin

text \<open>
  \<^verbatim>\<open>internal/api/binance/depthdiff.go\<close> and \<^verbatim>\<open>internal/api/coinbase/level2diff.go\<close>: the books that
  were last sent to the subscribers of a venue, and the levels in which a new snapshot differs from them.
  A book is two maps from price texts to quantity texts. The code ranges over these maps in any order; the
  order of the model is the one of the association lists, and the properties hold for every permutation of
  what is sent.
\<close>

type_synonym level_map = "(string, string) gomap"

subsection \<open>Binance\<close>

definition snap_side :: "level list \<Rightarrow> level_map" where
  "snap_side levels =
     fold (\<lambda>lv m. AList.update (StringPrec (lv_Price lv) pricePrec) (StringPrec (lv_Volume lv) qtyPrec) m) levels []"

definition snapMaps :: "snapshot \<Rightarrow> level_map \<times> level_map" where
  "snapMaps snap = (snap_side (sn_Bids snap), snap_side (sn_Asks snap))"

text \<open>A missing key reads as the empty text.\<close>

definition text_at :: "level_map \<Rightarrow> string \<Rightarrow> string" where
  "text_at m p = (case map_of m p of None \<Rightarrow> [] | Some q \<Rightarrow> q)"

definition diffSide :: "level_map \<Rightarrow> level_map \<Rightarrow> (string \<times> string) list" where
  "diffSide prev cur =
     filter (\<lambda>(p, q). text_at prev p \<noteq> q) cur @
     map (\<lambda>(p, q). (p, ''0'')) (filter (\<lambda>(p, q). map_of cur p = None) prev)"

text \<open>The maps of a symbol are nil until its first diff.\<close>

record symbolDepth =
  sd_lastID :: i64
  sd_books :: "(level_map \<times> level_map) option"

type_synonym depthDiffer = "string \<rightharpoonup> symbolDepth"

text \<open>\<open>now\<close> is the clock in milliseconds.\<close>

definition depth_stateLocked :: "int \<Rightarrow> depthDiffer \<Rightarrow> string \<Rightarrow> symbolDepth \<times> depthDiffer" where
  "depth_stateLocked now d engineSym =
     (case d engineSym of
        Some s \<Rightarrow> (s, d)
      | None \<Rightarrow> let s = \<lparr>sd_lastID = word_of_int now, sd_books = None\<rparr> in (s, d(engineSym \<mapsto> s)))"

definition depth_current :: "int \<Rightarrow> depthDiffer \<Rightarrow> string \<Rightarrow> i64 \<times> depthDiffer" where
  "depth_current now d engineSym = (let (s, d) = depth_stateLocked now d engineSym in (sd_lastID s, d))"

record depth_update =
  du_First :: i64
  du_Final :: i64
  du_Bids :: "(string \<times> string) list"
  du_Asks :: "(string \<times> string) list"

definition depth_diff :: "int \<Rightarrow> depthDiffer \<Rightarrow> string \<Rightarrow> snapshot \<Rightarrow> depth_update option \<times> depthDiffer" where
  "depth_diff now d engineSym snap =
     (let (curBids, curAsks) = snapMaps snap;
          (st, d) = depth_stateLocked now d engineSym
      in case sd_books st of
           None \<Rightarrow> (None, d(engineSym \<mapsto> st\<lparr>sd_books := Some (curBids, curAsks)\<rparr>))
         | Some (prevBids, prevAsks) \<Rightarrow>
             let bids = diffSide prevBids curBids; asks = diffSide prevAsks curAsks
             in if bids = [] \<and> asks = [] then (None, d)
                else let prevID = sd_lastID st; lastID = prevID + 1
                     in (Some \<lparr>du_First = prevID + 1, du_Final = lastID, du_Bids = bids, du_Asks = asks\<rparr>,
                         d(engineSym \<mapsto> \<lparr>sd_lastID = lastID, sd_books = Some (curBids, curAsks)\<rparr>)))"

subsection \<open>Coinbase\<close>

definition sizePrec :: int where "sizePrec = 8"
definition cb_pricePrec :: int where "cb_pricePrec = 8"

definition levelMap :: "level list \<Rightarrow> level_map" where
  "levelMap levels =
     fold (\<lambda>lv m. AList.update (StringPrec (lv_Price lv) cb_pricePrec) (StringPrec (lv_Volume lv) sizePrec) m) levels []"

record l2Update =
  l2_Side :: string
  l2_EventTime :: string
  l2_PriceLevel :: string
  l2_NewQuantity :: string

record l2Book =
  lb_bids :: level_map
  lb_asks :: level_map

type_synonym level2Differ = "string \<rightharpoonup> l2Book"

definition mapUpdates :: "l2Update list \<Rightarrow> level_map \<Rightarrow> string \<Rightarrow> string \<Rightarrow> l2Update list" where
  "mapUpdates dst m side eventTime =
     dst @ map (\<lambda>(p, q). \<lparr>l2_Side = side, l2_EventTime = eventTime, l2_PriceLevel = p, l2_NewQuantity = q\<rparr>) m"

definition diffSideL2 :: "l2Update list \<Rightarrow> level_map \<Rightarrow> level_map \<Rightarrow> string \<Rightarrow> string \<Rightarrow> l2Update list" where
  "diffSideL2 dst prev cur side eventTime =
     (let upd = (\<lambda>(p, q). \<lparr>l2_Side = side, l2_EventTime = eventTime, l2_PriceLevel = p, l2_NewQuantity = q\<rparr>)
      in dst @ map upd (filter (\<lambda>(p, q). text_at prev p \<noteq> q) cur) @
         map (\<lambda>(p, q). upd (p, ''0'')) (filter (\<lambda>(p, q). map_of cur p = None) prev))"

definition bookLocked :: "level2Differ \<Rightarrow> string \<Rightarrow> snapshot \<Rightarrow> l2Book \<times> level2Differ" where
  "bookLocked d product snap =
     (case d product of
        Some b \<Rightarrow> (b, d)
      | None \<Rightarrow> let b = \<lparr>lb_bids = levelMap (sn_Bids snap), lb_asks = levelMap (sn_Asks snap)\<rparr> in (b, d(product \<mapsto> b)))"

definition snapshotUpdatesLocked :: "level2Differ \<Rightarrow> string \<Rightarrow> snapshot \<Rightarrow> string \<Rightarrow> l2Update list \<times> level2Differ" where
  "snapshotUpdatesLocked d product snap eventTime =
     (let (b, d) = bookLocked d product snap
      in (mapUpdates (mapUpdates [] (lb_bids b) ''bid'' eventTime) (lb_asks b) ''offer'' eventTime, d))"

text \<open>\<open>None\<close> when nothing changed.\<close>

definition diffLocked :: "level2Differ \<Rightarrow> string \<Rightarrow> snapshot \<Rightarrow> string \<Rightarrow> l2Update list option \<times> level2Differ" where
  "diffLocked d product snap eventTime =
     (let curBids = levelMap (sn_Bids snap); curAsks = levelMap (sn_Asks snap); cur = \<lparr>lb_bids = curBids, lb_asks = curAsks\<rparr>
      in case d product of
           None \<Rightarrow> (None, d(product \<mapsto> cur))
         | Some b \<Rightarrow>
             let updates = diffSideL2 (diffSideL2 [] (lb_bids b) curBids ''bid'' eventTime) (lb_asks b) curAsks ''offer'' eventTime
             in if updates = [] then (None, d) else (Some updates, d(product \<mapsto> cur)))"

definition level2_diff :: "level2Differ \<Rightarrow> string \<Rightarrow> snapshot \<Rightarrow> string \<Rightarrow> l2Update list option \<times> level2Differ" where
  "level2_diff d product snap eventTime = diffLocked d product snap eventTime"

subsection \<open>What a client makes of the levels it is sent\<close>

text \<open>A quantity is absolute; the quantity \<^verbatim>\<open>0\<close> removes the level.\<close>

definition put_level :: "string \<times> string \<Rightarrow> (string \<rightharpoonup> string) \<Rightarrow> (string \<rightharpoonup> string)" where
  "put_level u m = (if snd u = ''0'' then m(fst u := None) else m(fst u \<mapsto> snd u))"

definition put_levels :: "(string \<times> string) list \<Rightarrow> (string \<rightharpoonup> string) \<Rightarrow> (string \<rightharpoonup> string)" where
  "put_levels us m = fold put_level us m"

lemma put_levels_Nil [simp]: "put_levels [] m = m"
  by (simp add: put_levels_def)

lemma put_levels_append: "put_levels (us @ vs) m = put_levels vs (put_levels us m)"
  by (simp add: put_levels_def)

end
