(* ===== verification/CoinbaseStreams.thy ===== *)
theory CoinbaseStreams
  imports LevelDiff CoinbaseRegistry
begin

text \<open>
  \<^verbatim>\<open>internal/api/coinbase/broadcaster.go\<close> and \<^verbatim>\<open>ws.go\<close>: the WebSocket side of the Coinbase edge.
  A connection is a position in \<open>sv_conns\<close>; its record holds the buffered channel, the flag of the
  closed channel, the sequence number, and, to make them observable, the frames that the write pump has put
  on the socket. A set of connections is a list. A frame is what is rendered as JSON; messages are decoded
  already. \<open>ts\<close> is the time text of the moment. Pings and socket deadlines are left out; that a socket fails
  or a client goes away is an operation of its own.
\<close>

subsection \<open>Frames\<close>

record mtTrade =
  mt_TradeID :: string
  mt_ProductID :: string
  mt_Price :: string
  mt_Size :: string
  mt_Side :: string
  mt_Time :: string

record userOrder =
  uo_OrderID :: string
  uo_ClientOrderID :: string
  uo_ProductID :: string
  uo_Side :: string
  uo_OrderType :: string
  uo_Status :: string
  uo_CumulativeQuantity :: string
  uo_AvgPrice :: string
  uo_TotalFees :: string

text \<open>An \<^verbatim>\<open>l2Event\<close> has its type, its product and its updates.\<close>

datatype cb_event =
    SubscriptionsEvent string "string list"
  | L2Event string string "l2Update list"
  | MTEvent string "mtTrade list"
  | UserEvent string "userOrder list"

text \<open>Channel, time, sequence number and event; or channel, message and time.\<close>

datatype cb_frame = Envelope string string u64 cb_event | ErrorFrame string string string

definition chanLevel2 :: string where "chanLevel2 = ''level2''"
definition chanMarketTrades :: string where "chanMarketTrades = ''market_trades''"
definition chanUser :: string where "chanUser = ''user''"
definition chanSubscriptions :: string where "chanSubscriptions = ''subscriptions''"

lemmas channel_defs = chanLevel2_def chanMarketTrades_def chanUser_def chanSubscriptions_def

subsection \<open>Connections\<close>

definition sendBuffer :: nat where "sendBuffer = 256"

record wsConn =
  wc_out :: "cb_frame list"
  wc_closed :: bool
  wc_seq :: u64
  wc_sent :: "cb_frame list"

definition newWSConn :: wsConn where
  "newWSConn = \<lparr>wc_out = [], wc_closed = False, wc_seq = 0, wc_sent = []\<rparr>"

definition nextSeq :: "wsConn \<Rightarrow> u64 \<times> wsConn" where
  "nextSeq c = (wc_seq c + 1, c\<lparr>wc_seq := wc_seq c + 1\<rparr>)"

definition conn_trySend :: "cb_frame \<Rightarrow> wsConn \<Rightarrow> bool \<times> wsConn" where
  "conn_trySend b c =
     (if wc_closed c then (False, c)
      else if length (wc_out c) < sendBuffer then (True, c\<lparr>wc_out := wc_out c @ [b]\<rparr>)
      else (False, c))"

definition conn_close :: "wsConn \<Rightarrow> wsConn" where
  "conn_close c = c\<lparr>wc_closed := True\<rparr>"

text \<open>A turn of the write pump that finds a frame: it may still write after the close, when both are ready.\<close>

definition writePump :: "wsConn \<Rightarrow> wsConn" where
  "writePump c = (case wc_out c of [] \<Rightarrow> c | b # bs \<Rightarrow> c\<lparr>wc_out := bs, wc_sent := wc_sent c @ [b]\<rparr>)"

subsection \<open>The hub\<close>

record broadcaster =
  bc_market :: "(string, (string, nat list) gomap) gomap"
  bc_user :: "nat list"

definition NewBroadcaster :: broadcaster where
  "NewBroadcaster = \<lparr>bc_market = [(chanLevel2, []), (chanMarketTrades, [])], bc_user = []\<rparr>"

definition add_conn :: "nat \<Rightarrow> nat list \<Rightarrow> nat list" where
  "add_conn c cs = (if c \<in> set cs then cs else cs @ [c])"

definition entry :: "('k, 'v list) gomap \<Rightarrow> 'k \<Rightarrow> 'v list" where
  "entry m k = (case map_of m k of None \<Rightarrow> [] | Some vs \<Rightarrow> vs)"

definition subscribeMarket :: "nat \<Rightarrow> string \<Rightarrow> string \<Rightarrow> broadcaster \<Rightarrow> broadcaster" where
  "subscribeMarket c channel product b =
     (let byProduct = entry (bc_market b) channel
      in b\<lparr>bc_market := AList.update channel
            (AList.update product (add_conn c (entry byProduct product)) byProduct) (bc_market b)\<rparr>)"

definition unsubscribeMarket :: "nat \<Rightarrow> string \<Rightarrow> string \<Rightarrow> broadcaster \<Rightarrow> broadcaster" where
  "unsubscribeMarket c channel product b =
     (case map_of (bc_market b) channel of None \<Rightarrow> b
      | Some byProduct \<Rightarrow> (case map_of byProduct product of None \<Rightarrow> b
        | Some cs \<Rightarrow>
            let cs = removeAll c cs
            in b\<lparr>bc_market := AList.update channel
                  (if cs = [] then AList.delete product byProduct else AList.update product cs byProduct) (bc_market b)\<rparr>))"

definition subscribeUser :: "nat \<Rightarrow> broadcaster \<Rightarrow> broadcaster" where
  "subscribeUser c b = b\<lparr>bc_user := add_conn c (bc_user b)\<rparr>"

definition unsubscribeUser :: "nat \<Rightarrow> broadcaster \<Rightarrow> broadcaster" where
  "unsubscribeUser c b = b\<lparr>bc_user := removeAll c (bc_user b)\<rparr>"

definition remove_conn :: "nat \<Rightarrow> broadcaster \<Rightarrow> broadcaster" where
  "remove_conn c b =
     b\<lparr>bc_market := map (\<lambda>(ch, byProduct). (ch, filter (\<lambda>(p, cs). cs \<noteq> []) (map (\<lambda>(p, cs). (p, removeAll c cs)) byProduct))) (bc_market b),
       bc_user := removeAll c (bc_user b)\<rparr>"

definition market_conns :: "broadcaster \<Rightarrow> string \<Rightarrow> string \<Rightarrow> nat list" where
  "market_conns b channel product = entry (entry (bc_market b) channel) product"

definition hasMarketSubscribers :: "broadcaster \<Rightarrow> string \<Rightarrow> string \<Rightarrow> bool" where
  "hasMarketSubscribers b channel product \<longleftrightarrow> market_conns b channel product \<noteq> []"

definition hasUserSubscribers :: "broadcaster \<Rightarrow> bool" where
  "hasUserSubscribers b \<longleftrightarrow> bc_user b \<noteq> []"

definition marketProducts :: "broadcaster \<Rightarrow> string \<Rightarrow> string list" where
  "marketProducts b channel = map fst (entry (bc_market b) channel)"

subsection \<open>The server\<close>

record cb_streams =
  sv_products :: "string list"
  sv_apiKey :: string
  sv_feeRate :: decimal
  sv_tradeSeq :: i64
  sv_broadcaster :: broadcaster
  sv_differ :: level2Differ
  sv_conns :: "wsConn list"

definition NewProducts :: "string list \<Rightarrow> string list" where
  "NewProducts ids = fold (\<lambda>i ps. if i = [] \<or> i \<in> set ps then ps else ps @ [i]) ids []"

definition Resolve :: "cb_streams \<Rightarrow> string \<Rightarrow> string option" where
  "Resolve s product = (if product \<in> set (sv_products s) then Some product else None)"

definition upd_conn :: "nat \<Rightarrow> (wsConn \<Rightarrow> wsConn) \<Rightarrow> cb_streams \<Rightarrow> cb_streams" where
  "upd_conn c f s = s\<lparr>sv_conns := (sv_conns s)[c := f (sv_conns s ! c)]\<rparr>"

definition trySend :: "nat \<Rightarrow> cb_frame \<Rightarrow> cb_streams \<Rightarrow> bool \<times> cb_streams" where
  "trySend c b s = (let (ok, x) = conn_trySend b (sv_conns s ! c) in (ok, upd_conn c (\<lambda>_. x) s))"

definition frame :: "string \<Rightarrow> string \<Rightarrow> cb_event \<Rightarrow> nat \<Rightarrow> cb_streams \<Rightarrow> cb_frame \<times> cb_streams" where
  "frame ts channel ev c s =
     (let (n, x) = nextSeq (sv_conns s ! c) in (Envelope channel ts n ev, upd_conn c (\<lambda>_. x) s))"

definition trySendErr :: "string \<Rightarrow> string \<Rightarrow> string \<Rightarrow> nat \<Rightarrow> cb_streams \<Rightarrow> cb_streams" where
  "trySendErr ts channel msg c s = snd (trySend c (ErrorFrame channel msg ts) s)"

definition sendAck :: "string \<Rightarrow> nat \<Rightarrow> string \<Rightarrow> string list \<Rightarrow> cb_streams \<Rightarrow> cb_streams" where
  "sendAck ts c channel products s =
     (let (b, s) = frame ts chanSubscriptions (SubscriptionsEvent channel products) c s in snd (trySend c b s))"

text \<open>The loop of a publication: the connections that did not take their frame.\<close>

fun publish_each :: "(nat \<Rightarrow> cb_streams \<Rightarrow> cb_frame \<times> cb_streams) \<Rightarrow> nat list \<Rightarrow> cb_streams \<Rightarrow> nat list \<times> cb_streams" where
  "publish_each frameFn [] s = ([], s)"
| "publish_each frameFn (c # cs) s =
     (let (b, s) = frameFn c s; (ok, s) = trySend c b s; (dead, s) = publish_each frameFn cs s
      in (if ok then dead else c # dead, s))"

definition dropAll :: "nat list \<Rightarrow> cb_streams \<Rightarrow> cb_streams" where
  "dropAll dead s = fold (\<lambda>c. upd_conn c conn_close) dead s"

definition publishMarket ::
    "string \<Rightarrow> string \<Rightarrow> (nat \<Rightarrow> cb_streams \<Rightarrow> cb_frame \<times> cb_streams) \<Rightarrow> cb_streams \<Rightarrow> cb_streams" where
  "publishMarket channel product frameFn s =
     (let (dead, s) = publish_each frameFn (market_conns (sv_broadcaster s) channel product) s in dropAll dead s)"

definition publishUser :: "(nat \<Rightarrow> cb_streams \<Rightarrow> cb_frame \<times> cb_streams) \<Rightarrow> cb_streams \<Rightarrow> cb_streams" where
  "publishUser frameFn s = (let (dead, s) = publish_each frameFn (bc_user (sv_broadcaster s)) s in dropAll dead s)"

definition upd_hub :: "(broadcaster \<Rightarrow> broadcaster) \<Rightarrow> cb_streams \<Rightarrow> cb_streams" where
  "upd_hub f s = s\<lparr>sv_broadcaster := f (sv_broadcaster s)\<rparr>"

subsection \<open>Level2\<close>

definition l2_frame :: "string \<Rightarrow> string \<Rightarrow> string \<Rightarrow> l2Update list \<Rightarrow> nat \<Rightarrow> cb_streams \<Rightarrow> cb_frame \<times> cb_streams" where
  "l2_frame ts kind product updates = frame ts ''l2_data'' (L2Event kind product updates)"

definition broadcastLevel2 :: "engine \<Rightarrow> string \<Rightarrow> string \<Rightarrow> cb_streams \<Rightarrow> cb_streams option" where
  "broadcastLevel2 e ts product s =
     (case Resolve s product of None \<Rightarrow> Some s
      | Some engSym \<Rightarrow> do {
          snap \<leftarrow> engine_Snapshot e engSym;
          Some (case snap of Inl _ \<Rightarrow> s
            | Inr snap \<Rightarrow>
                let (updates, d) = diffLocked (sv_differ s) product snap ts; s = s\<lparr>sv_differ := d\<rparr>
                in case updates of None \<Rightarrow> s
                   | Some us \<Rightarrow> publishMarket chanLevel2 product (l2_frame ts ''update'' product us) s)
        })"

fun push_products :: "engine \<Rightarrow> string \<Rightarrow> string list \<Rightarrow> cb_streams \<Rightarrow> cb_streams option" where
  "push_products e ts [] s = Some s"
| "push_products e ts (p # ps) s = do { s \<leftarrow> broadcastLevel2 e ts p s; push_products e ts ps s }"

definition pushLevel2Tick :: "engine \<Rightarrow> string \<Rightarrow> cb_streams \<Rightarrow> cb_streams option" where
  "pushLevel2Tick e ts s = push_products e ts (marketProducts (sv_broadcaster s) chanLevel2) s"

definition subscribeLevel2 :: "engine \<Rightarrow> string \<Rightarrow> nat \<Rightarrow> string \<Rightarrow> cb_streams \<Rightarrow> cb_streams option" where
  "subscribeLevel2 e ts c product s =
     (case Resolve s product of None \<Rightarrow> Some s
      | Some engSym \<Rightarrow> do {
          snap \<leftarrow> engine_Snapshot e engSym;
          Some (case snap of Inl _ \<Rightarrow> s
            | Inr snap \<Rightarrow>
                let (updates, d) = snapshotUpdatesLocked (sv_differ s) product snap ts; s = s\<lparr>sv_differ := d\<rparr>;
                    (b, s) = l2_frame ts ''snapshot'' product updates c s; (ok, s) = trySend c b s
                in upd_hub (subscribeMarket c chanLevel2 product) s)
        })"

subsection \<open>Messages of a client\<close>

record subscribeMsg =
  sb_Type :: string
  sb_Channel :: string
  sb_ProductIDs :: "string list"
  sb_APIKey :: string
  sb_JWT :: string
  sb_Token :: string

text \<open>The verifier of JWTs is an argument: whether one is configured, and whether the token is valid.\<close>

definition authWS :: "(string \<Rightarrow> bool \<times> bool) \<Rightarrow> subscribeMsg \<Rightarrow> cb_streams \<Rightarrow> bool" where
  "authWS verifyJWT msg s =
     (if sb_JWT msg \<noteq> [] \<and> fst (verifyJWT (sb_JWT msg)) then snd (verifyJWT (sb_JWT msg))
      else sv_apiKey s = [] \<or>
        (\<exists>got\<in>set [sb_APIKey msg, sb_JWT msg, sb_Token msg]. got \<noteq> [] \<and> got = sv_apiKey s))"

text \<open>The loop over the products of a message: the accepted ones.\<close>

fun market_products :: "string \<Rightarrow> nat \<Rightarrow> string \<Rightarrow> bool \<Rightarrow> string list \<Rightarrow> cb_streams \<Rightarrow> string list \<times> cb_streams" where
  "market_products ts c channel sub [] s = ([], s)"
| "market_products ts c channel sub (p # ps) s =
     (if Resolve s p = None then market_products ts c channel sub ps (trySendErr ts channel (''unknown product_id: '' @ p) c s)
      else let s = (if \<not> sub then upd_hub (unsubscribeMarket c channel p) s
                    else if channel \<noteq> chanLevel2 then upd_hub (subscribeMarket c channel p) s else s);
               (ps, s) = market_products ts c channel sub ps s
           in (p # ps, s))"

fun subscribe_each :: "engine \<Rightarrow> string \<Rightarrow> nat \<Rightarrow> string list \<Rightarrow> cb_streams \<Rightarrow> cb_streams option" where
  "subscribe_each e ts c [] s = Some s"
| "subscribe_each e ts c (p # ps) s = do { s \<leftarrow> subscribeLevel2 e ts c p s; subscribe_each e ts c ps s }"

definition handleMarketSub :: "engine \<Rightarrow> string \<Rightarrow> nat \<Rightarrow> subscribeMsg \<Rightarrow> bool \<Rightarrow> cb_streams \<Rightarrow> cb_streams option" where
  "handleMarketSub e ts c msg sub s =
     (if sb_ProductIDs msg = [] then Some (trySendErr ts (sb_Channel msg) ''product_ids is required'' c s)
      else let (accepted, s) = market_products ts c (sb_Channel msg) sub (sb_ProductIDs msg) s
           in if accepted = [] then Some s
              else let s = sendAck ts c (sb_Channel msg) accepted s
                   in if sub \<and> sb_Channel msg = chanLevel2 then subscribe_each e ts c accepted s else Some s)"

definition handleUserSub :: "(string \<Rightarrow> bool \<times> bool) \<Rightarrow> string \<Rightarrow> nat \<Rightarrow> subscribeMsg \<Rightarrow> bool \<Rightarrow> cb_streams \<Rightarrow> cb_streams" where
  "handleUserSub verifyJWT ts c msg sub s =
     (if \<not> sub then sendAck ts c chanUser [] (upd_hub (unsubscribeUser c) s)
      else if \<not> authWS verifyJWT msg s then trySendErr ts chanUser ''user channel requires authentication'' c s
      else sendAck ts c chanUser [] (upd_hub (subscribeUser c) s))"

definition handleSubscribe ::
    "(string \<Rightarrow> bool \<times> bool) \<Rightarrow> engine \<Rightarrow> string \<Rightarrow> nat \<Rightarrow> subscribeMsg \<Rightarrow> cb_streams \<Rightarrow> cb_streams option" where
  "handleSubscribe verifyJWT e ts c msg s =
     (let sub = (sb_Type msg = ''subscribe''); unsub = (sb_Type msg = ''unsubscribe'')
      in if \<not> sub \<and> \<not> unsub then Some (trySendErr ts (sb_Channel msg) (''unknown message type: '' @ sb_Type msg) c s)
         else if sb_Channel msg = chanLevel2 \<or> sb_Channel msg = chanMarketTrades then handleMarketSub e ts c msg sub s
         else if sb_Channel msg = chanUser then Some (handleUserSub verifyJWT ts c msg sub s)
         else Some (trySendErr ts (sb_Channel msg) (''unknown channel: '' @ sb_Channel msg) c s))"

text \<open>A message, or one that is not JSON.\<close>

definition readPump ::
    "(string \<Rightarrow> bool \<times> bool) \<Rightarrow> engine \<Rightarrow> string \<Rightarrow> nat \<Rightarrow> subscribeMsg option \<Rightarrow> cb_streams \<Rightarrow> cb_streams option" where
  "readPump verifyJWT e ts c data s =
     (if wc_closed (sv_conns s ! c) then Some s
      else case data of None \<Rightarrow> Some (trySendErr ts [] ''invalid message JSON'' c s)
           | Some msg \<Rightarrow> handleSubscribe verifyJWT e ts c msg s)"

text \<open>A new connection, and the end of one.\<close>

definition handleWS :: "cb_streams \<Rightarrow> cb_streams" where
  "handleWS s = s\<lparr>sv_conns := sv_conns s @ [newWSConn]\<rparr>"

definition runConn_end :: "nat \<Rightarrow> cb_streams \<Rightarrow> cb_streams" where
  "runConn_end c s = upd_hub (remove_conn c) (upd_conn c conn_close s)"

subsection \<open>Trades and orders\<close>

definition nextTradeID :: "cb_streams \<Rightarrow> string \<times> cb_streams" where
  "nextTradeID s = (int_string (sint (sv_tradeSeq s + 1)), s\<lparr>sv_tradeSeq := sv_tradeSeq s + 1\<rparr>)"

text \<open>\<open>tr_time\<close> is the text of the time of the trade, or of the moment if it has none.\<close>

definition emitMarketTrade :: "string \<Rightarrow> string \<Rightarrow> string \<Rightarrow> trade \<Rightarrow> cb_streams \<Rightarrow> cb_streams" where
  "emitMarketTrade ts tr_time product t s =
     (if \<not> hasMarketSubscribers (sv_broadcaster s) chanMarketTrades product then s
      else let (i, s) = nextTradeID s;
               tr = \<lparr>mt_TradeID = i, mt_ProductID = product, mt_Price = StringPrec (tr_Price t) cb_pricePrec,
                 mt_Size = StringPrec (tr_Volume t) sizePrec,
                 mt_Side = (if tr_TakerSide t = SideSell then ''SELL'' else ''BUY''), mt_Time = tr_time\<rparr>
           in publishMarket chanMarketTrades product (frame ts chanMarketTrades (MTEvent ''update'' [tr])) s)"

text \<open>\<open>MustParse("0.006")\<close>.\<close>

definition defaultFeeRate :: decimal where
  "defaultFeeRate = Decimal 0 6000000000000000"

definition effFeeRate :: "cb_streams \<Rightarrow> decimal" where
  "effFeeRate s = (if Sign (sv_feeRate s) > 0 then sv_feeRate s else defaultFeeRate)"

definition orderFees :: "cb_record \<Rightarrow> decimal \<Rightarrow> (string \<times> string) option" where
  "orderFees rec rate = do {
     fee \<leftarrow> Mul (cr_FilledValue rec) rate;
     after \<leftarrow> (if cr_Side rec = ''SELL'' then Sub (cr_FilledValue rec) fee else Add (cr_FilledValue rec) fee);
     Some (StringPrec fee cb_pricePrec, StringPrec after cb_pricePrec)
   }"

definition emitUser :: "string \<Rightarrow> cb_record \<Rightarrow> cb_streams \<Rightarrow> cb_streams option" where
  "emitUser ts rec s = do {
     (totalFees, _) \<leftarrow> orderFees rec (effFeeRate s);
     avg \<leftarrow> avgFilledPrice rec;
     let uo = \<lparr>uo_OrderID = cr_OrderID rec, uo_ClientOrderID = cr_ClientOrderID rec, uo_ProductID = cr_ProductID rec,
       uo_Side = cr_Side rec, uo_OrderType = cr_OrderType rec, uo_Status = cr_Status rec,
       uo_CumulativeQuantity = StringPrec (cr_FilledSize rec) sizePrec, uo_AvgPrice = StringPrec avg cb_pricePrec,
       uo_TotalFees = totalFees\<rparr>;
     Some (publishUser (frame ts chanUser (UserEvent ''update'' [uo])) s)
   }"

definition user_for_order :: "string \<Rightarrow> cb_registry \<Rightarrow> string \<Rightarrow> cb_streams \<Rightarrow> cb_streams option" where
  "user_for_order ts r oid s = (case cb_getByEngine r oid of None \<Rightarrow> Some s | Some rec \<Rightarrow> emitUser ts rec s)"

definition emitUserForTrade :: "string \<Rightarrow> cb_registry \<Rightarrow> trade \<Rightarrow> cb_streams \<Rightarrow> cb_streams option" where
  "emitUserForTrade ts r t s =
     (if \<not> hasUserSubscribers (sv_broadcaster s) then Some s
      else do { s \<leftarrow> user_for_order ts r (tr_BuyOrderID t) s; user_for_order ts r (tr_SellOrderID t) s })"

definition cb_onBookTrade :: "string \<Rightarrow> string \<Rightarrow> cb_registry \<Rightarrow> trade \<Rightarrow> cb_streams \<Rightarrow> cb_streams option" where
  "cb_onBookTrade ts tr_time r t s = emitUserForTrade ts r t (emitMarketTrade ts tr_time (tr_Instrument t) t s)"

definition onBookCancel :: "string \<Rightarrow> cb_registry \<Rightarrow> order \<Rightarrow> cb_streams \<Rightarrow> cb_streams option" where
  "onBookCancel ts r ord s =
     (if \<not> hasUserSubscribers (sv_broadcaster s) then Some s else user_for_order ts r (ord_ID ord) s)"

definition EmitUserByOrderID :: "string \<Rightarrow> cb_registry \<Rightarrow> string \<Rightarrow> cb_streams \<Rightarrow> cb_streams option" where
  "EmitUserByOrderID ts r orderID s =
     (if \<not> hasUserSubscribers (sv_broadcaster s) then Some s
      else case cb_snapshot r orderID of None \<Rightarrow> Some s | Some rec \<Rightarrow> emitUser ts rec s)"

end
