(* ===== verification/CoinbaseEdge.thy ===== *)
theory CoinbaseEdge
  imports CoinbaseStreams
begin

text \<open>
  \<^verbatim>\<open>internal/api/coinbase/rest.go\<close>, \<^verbatim>\<open>server.go\<close> and \<^verbatim>\<open>errors.go\<close>: the REST handlers of the
  Coinbase edge over its order store, its ledger, the engine and the streams, and the hooks it puts on the
  book. A body is decoded JSON, \<open>None\<close> when it is malformed; the signature check is an argument that gives its error, or
  none. The latency knobs, which only delay an answer or a frame, are left out.
\<close>

subsection \<open>Errors\<close>

record cb_error =
  ce_Err :: string
  ce_Details :: string
  ce_Msg :: string
  ce_status :: int

definition cb_HTTPStatus :: "cb_error \<Rightarrow> int" where
  "cb_HTTPStatus e = (if ce_status e = 0 then 400 else ce_status e)"

definition errInvalidArgument :: "string \<Rightarrow> cb_error" where
  "errInvalidArgument msg = \<lparr>ce_Err = ''INVALID_ARGUMENT'', ce_Details = [], ce_Msg = msg, ce_status = 400\<rparr>"

definition errInvalidProduct :: "string \<Rightarrow> cb_error" where
  "errInvalidProduct productID =
     \<lparr>ce_Err = ''INVALID_PRODUCT_ID'', ce_Details = [], ce_Msg = ''Unknown product_id: '' @ productID, ce_status = 400\<rparr>"

definition errInvalidSide :: "string \<Rightarrow> cb_error" where
  "errInvalidSide msg = \<lparr>ce_Err = ''INVALID_SIDE'', ce_Details = [], ce_Msg = msg, ce_status = 400\<rparr>"

definition errOrderNotFound :: "string \<Rightarrow> cb_error" where
  "errOrderNotFound oid = \<lparr>ce_Err = ''UNKNOWN_ORDER'', ce_Details = [], ce_Msg = ''order not found: '' @ oid, ce_status = 404\<rparr>"

definition errUnknownCancel :: string where "errUnknownCancel = ''UNKNOWN_CANCEL_ORDER''"

subsection \<open>State\<close>

record account_entry =
  ac_UUID :: string
  ac_Name :: string
  ac_Currency :: string
  ac_AvailableBalance :: string
  ac_Hold :: string
  ac_Active :: bool
  ac_Type :: string

record cb_edge =
  cs_engine :: engine
  cs_registry :: cb_registry
  cs_ledger :: "ledger option"
  cs_accounts :: "account_entry list"
  cs_streams :: cb_streams

text \<open>The moment of a request: its time in milliseconds, its text, the text of a time in milliseconds, and the one that
  a trade is published with.\<close>

record moment =
  mo_ms :: int
  mo_text :: string
  mo_format :: "int \<Rightarrow> string"
  mo_trade :: "go_time \<Rightarrow> string"

text \<open>An update of the ledger that may panic; without a ledger the caller does nothing.\<close>

definition cb_with_ledger :: "(ledger \<Rightarrow> ledger option) \<Rightarrow> cb_edge \<Rightarrow> cb_edge option" where
  "cb_with_ledger f s =
     (case cs_ledger s of None \<Rightarrow> Some s | Some l \<Rightarrow> do { l \<leftarrow> f l; Some (s\<lparr>cs_ledger := Some l\<rparr>) })"

definition with_streams :: "(cb_streams \<Rightarrow> cb_streams option) \<Rightarrow> cb_edge \<Rightarrow> cb_edge option" where
  "with_streams f s = do { x \<leftarrow> f (cs_streams s); Some (s\<lparr>cs_streams := x\<rparr>) }"

fun splitProduct :: "string \<Rightarrow> string \<times> string" where
  "splitProduct [] = ([], [])"
| "splitProduct (c # cs) =
     (if c = CHR ''-'' then ([], cs) else let (base, quote) = splitProduct cs in (c # base, quote))"

subsection \<open>Hooks\<close>

definition cb_unlockRemainder :: "cb_edge \<Rightarrow> string \<Rightarrow> cb_edge option" where
  "cb_unlockRemainder s engineID =
     (case cb_getByEngine (cs_registry s) engineID of
        None \<Rightarrow> Some s
      | Some rec \<Rightarrow>
          if cr_OrderType rec \<noteq> ''LIMIT'' then Some s
          else do {
            remaining \<leftarrow> Sub (cr_OrigSize rec) (cr_FilledSize rec);
            if Sign remaining \<le> 0 then Some s
            else let (base, quote) = splitProduct (cr_ProductID rec)
                 in if cr_Side rec = ''BUY'' then do {
                      amt \<leftarrow> Mul remaining (cr_Price rec);
                      cb_with_ledger (\<lambda>l. Unlock l quote amt) s
                    }
                    else cb_with_ledger (\<lambda>l. Unlock l base remaining) s
          })"

definition cb_registry_hook :: "moment \<Rightarrow> hook_event \<Rightarrow> cb_edge \<Rightarrow> cb_edge option" where
  "cb_registry_hook m ev s =
     (case ev of
        EvTrade t \<Rightarrow> do { r \<leftarrow> cb_OnTrade (Some t) (mo_ms m) (cs_registry s); Some (s\<lparr>cs_registry := r\<rparr>) }
      | EvCancel ord \<Rightarrow> Some (s\<lparr>cs_registry := cb_OnCancel (Some ord) (mo_ms m) (cs_registry s)\<rparr>)
      | EvTrigger ord \<Rightarrow> Some s)"

definition cb_stream_hook :: "moment \<Rightarrow> hook_event \<Rightarrow> cb_edge \<Rightarrow> cb_edge option" where
  "cb_stream_hook m ev s =
     (case ev of
        EvTrade t \<Rightarrow> with_streams (cb_onBookTrade (mo_text m) (mo_trade m (tr_ExecutedAt t)) (cs_registry s) t) s
      | EvCancel ord \<Rightarrow> with_streams (onBookCancel (mo_text m) (cs_registry s) ord) s
      | EvTrigger ord \<Rightarrow> Some s)"

definition cb_settle_side :: "trade \<Rightarrow> string \<Rightarrow> cb_edge \<Rightarrow> cb_edge option" where
  "cb_settle_side t oid s =
     (case cb_getByEngine (cs_registry s) oid of
        None \<Rightarrow> Some s
      | Some rec \<Rightarrow>
          let (base, quote) = splitProduct (cr_ProductID rec)
          in cb_with_ledger (\<lambda>l. SettleFill l (oid = tr_BuyOrderID t) base quote (tr_Volume t) (tr_Price t) (cr_Price rec)) s)"

definition cb_ledger_hook :: "hook_event \<Rightarrow> cb_edge \<Rightarrow> cb_edge option" where
  "cb_ledger_hook ev s =
     (case ev of
        EvTrade t \<Rightarrow> do { s \<leftarrow> cb_settle_side t (tr_BuyOrderID t) s; cb_settle_side t (tr_SellOrderID t) s }
      | EvCancel ord \<Rightarrow> cb_unlockRemainder s (ord_ID ord)
      | EvTrigger ord \<Rightarrow> Some s)"

text \<open>The hooks have numbers 0, 1 and 2 on the book; a hook with another number belongs to somebody else.\<close>

definition cb_AttachHooks :: "cb_edge \<Rightarrow> cb_edge" where
  "cb_AttachHooks s =
     (let b = RegisterHook (RegisterHook (en_book (cs_engine s)) 0) 1;
          b = (if cs_ledger s = None then b else RegisterHook b 2)
      in s\<lparr>cs_engine := (cs_engine s)\<lparr>en_book := b\<rparr>\<rparr>)"

definition cb_run_hook :: "moment \<Rightarrow> nat \<Rightarrow> hook_event \<Rightarrow> cb_edge \<Rightarrow> cb_edge option" where
  "cb_run_hook m h ev s =
     (if h = 0 then cb_registry_hook m ev s
      else if h = 1 then cb_stream_hook m ev s
      else if h = 2 then cb_ledger_hook ev s
      else Some s)"

fun cb_run_calls :: "moment \<Rightarrow> (nat \<times> hook_event) list \<Rightarrow> cb_edge \<Rightarrow> cb_edge option" where
  "cb_run_calls m [] s = Some s"
| "cb_run_calls m ((h, ev) # calls) s = do { s \<leftarrow> cb_run_hook m h ev s; cb_run_calls m calls s }"

text \<open>The engine after a call, and the hooks that the book called meanwhile.\<close>

definition cb_engine_ran :: "moment \<Rightarrow> engine \<Rightarrow> cb_edge \<Rightarrow> cb_edge option" where
  "cb_engine_ran m e s =
     cb_run_calls m (drop (length (ob_calls (en_book (cs_engine s)))) (ob_calls (en_book e))) (s\<lparr>cs_engine := e\<rparr>)"

definition cb_PlaceLimit :: "moment \<Rightarrow> order \<Rightarrow> cb_edge \<Rightarrow> (placement \<times> cb_edge) option" where
  "cb_PlaceLimit m ord s = do {
     (pm, ord', e) \<leftarrow> PlaceLimit (cs_engine s) ord; s \<leftarrow> cb_engine_ran m e s; Some (pm, s) }"

definition cb_PlaceMarket :: "moment \<Rightarrow> order \<Rightarrow> cb_edge \<Rightarrow> (placement \<times> cb_edge) option" where
  "cb_PlaceMarket m ord s = do {
     (pm, ord', e) \<leftarrow> PlaceMarket (cs_engine s) ord; s \<leftarrow> cb_engine_ran m e s; Some (pm, s) }"

definition cb_CancelOrder :: "moment \<Rightarrow> string \<Rightarrow> string \<Rightarrow> cb_edge \<Rightarrow> ((book_error + order) \<times> cb_edge) option" where
  "cb_CancelOrder m inst oid s =
     (let (res, e) = engine_CancelOrder (cs_engine s) inst oid in do { s \<leftarrow> cb_engine_ran m e s; Some (res, s) })"

subsection \<open>Requests and answers\<close>

record cb_request =
  cq_Method :: string
  cq_Path :: string
  cq_Query :: "string \<Rightarrow> string"

type_synonym cb_verifier = "cb_request \<Rightarrow> cb_error option"

record limitGTCConfig =
  lg_BaseSize :: string
  lg_LimitPrice :: string
  lg_PostOnly :: bool

record marketIOCConfig =
  mi_BaseSize :: string

record orderConfiguration =
  oc_LimitLimitGTC :: "limitGTCConfig option"
  oc_MarketIOC :: "marketIOCConfig option"

record createOrderRequest =
  co_ClientOrderID :: string
  co_ProductID :: string
  co_Side :: string
  co_OrderConfiguration :: orderConfiguration

record productResponse =
  pd_ProductID :: string
  pd_Price :: string
  pd_Status :: string
  pd_TradingDisabled :: bool
  pd_QuoteCur :: string
  pd_BaseCur :: string
  pd_BaseIncrement :: string
  pd_QuoteIncrement :: string
  pd_PriceIncrement :: string
  pd_BaseMinSize :: string
  pd_QuoteMinSize :: string

record orderView =
  ow_OrderID :: string
  ow_ClientOrderID :: string
  ow_ProductID :: string
  ow_Side :: string
  ow_Status :: string
  ow_OrderConfiguration :: orderConfiguration
  ow_FilledSize :: string
  ow_AverageFilledPrice :: string
  ow_FilledValue :: string
  ow_Fee :: string
  ow_TotalFees :: string
  ow_TotalValueAfterFees :: string
  ow_SizeInclusiveOfFees :: bool
  ow_CompletionPercentage :: string
  ow_CreatedTime :: string

text \<open>The outcome of one cancellation: whether it succeeded, why not, and the order.\<close>

record cancelResult =
  cn_Success :: bool
  cn_FailureReason :: string
  cn_OrderID :: string

datatype cb_answer =
    TimeAnswer string int int
  | ProductBook string "(string \<times> string) list" "(string \<times> string) list" string
  | ProductsAnswer "productResponse list"
  | ProductAnswer productResponse
  | OrderCreated string string string string orderConfiguration
  | OrderRejected string string string
  | CancelResults "cancelResult list"
  | HistoricalBatch "orderView list"
  | SingleOrder orderView
  | AccountsAnswer "account_entry list"
  | WithdrawalID string

definition cb_parseSide :: "string \<Rightarrow> cb_error + side" where
  "cb_parseSide s =
     (if s = ''BUY'' then Inr SideBuy else if s = ''SELL'' then Inr SideSell
      else if s = [] then Inl (errInvalidSide ''side is required'') else Inl (errInvalidSide (''invalid side: '' @ s)))"

definition parseDecimalField :: "string \<Rightarrow> string \<Rightarrow> cb_error + decimal" where
  "parseDecimalField s name =
     (if s = [] then Inl (errInvalidArgument (name @ '' is required''))
      else case Parse s of Inl e \<Rightarrow> Inl (errInvalidArgument (''invalid '' @ name @ '': '' @ s)) | Inr d \<Rightarrow> Inr d)"

subsection \<open>Public handlers\<close>

definition get_only :: "cb_request \<Rightarrow> (cb_error + cb_answer) option \<Rightarrow> (cb_error + cb_answer) option" where
  "get_only rq answer = (if cq_Method rq \<noteq> ''GET'' then Some (Inl (errInvalidArgument ''method not allowed'')) else answer)"

definition cb_handleTime :: "moment \<Rightarrow> cb_request \<Rightarrow> (cb_error + cb_answer) option" where
  "cb_handleTime m rq = get_only rq (Some (Inr (TimeAnswer (mo_text m) (mo_ms m div 1000) (mo_ms m))))"

definition levelsToEntries :: "level list \<Rightarrow> int \<Rightarrow> (string \<times> string) list" where
  "levelsToEntries levels limit =
     (let n = (if limit > 0 \<and> limit < int (length levels) then nat limit else length levels)
      in map (\<lambda>l. (StringPrec (lv_Price l) cb_pricePrec, StringPrec (lv_Volume l) sizePrec)) (take n levels))"

definition handleProductBook :: "moment \<Rightarrow> cb_request \<Rightarrow> cb_edge \<Rightarrow> (cb_error + cb_answer) option" where
  "handleProductBook m rq s = get_only rq
     (let productID = cq_Query rq ''product_id''
      in if productID = [] then Some (Inl (errInvalidArgument ''product_id is required''))
         else case Resolve (cs_streams s) productID of
           None \<Rightarrow> Some (Inl (errInvalidProduct productID))
         | Some engSym \<Rightarrow>
             let l = cq_Query rq ''limit'';
                 limit = (if l = [] then Some 0 else case Atoi l of None \<Rightarrow> None | Some v \<Rightarrow> if v < 0 then None else Some v)
             in case limit of None \<Rightarrow> Some (Inl (errInvalidArgument ''invalid limit''))
                | Some limit \<Rightarrow> do {
                    snap \<leftarrow> engine_Snapshot (cs_engine s) engSym;
                    Some (case snap of Inl e \<Rightarrow> Inl (errInvalidProduct productID)
                      | Inr sn \<Rightarrow> Inr (ProductBook productID (levelsToEntries (sn_Bids sn) limit) (levelsToEntries (sn_Asks sn) limit)
                          (mo_text m)))
                  })"

definition cb_stepStr :: "int \<Rightarrow> string" where
  "cb_stepStr prec = (if prec \<le> 0 then ''1'' else ''0.'' @ replicate (nat prec - 1) (CHR ''0'') @ ''1'')"

definition newProductResponse :: "string \<Rightarrow> string \<Rightarrow> productResponse" where
  "newProductResponse productID px =
     (let (base, quote) = splitProduct productID
      in \<lparr>pd_ProductID = productID, pd_Price = px, pd_Status = ''online'', pd_TradingDisabled = False,
          pd_QuoteCur = quote, pd_BaseCur = base, pd_BaseIncrement = cb_stepStr sizePrec,
          pd_QuoteIncrement = cb_stepStr cb_pricePrec, pd_PriceIncrement = cb_stepStr cb_pricePrec,
          pd_BaseMinSize = cb_stepStr sizePrec, pd_QuoteMinSize = ''0''\<rparr>)"

definition cb_tickerPrice :: "snapshot \<Rightarrow> decimal option" where
  "cb_tickerPrice snap =
     (case sn_LastTrade snap of
        Some t \<Rightarrow> Some (tr_Price t)
      | None \<Rightarrow>
          let hasBid = Sign (sn_BestBid snap) > 0; hasAsk = Sign (sn_BestAsk snap) > 0
          in if hasBid \<and> hasAsk then do { x \<leftarrow> Add (sn_BestBid snap) (sn_BestAsk snap); two \<leftarrow> FromInt 2; Div x two }
             else if hasBid then Some (sn_BestBid snap)
             else if hasAsk then Some (sn_BestAsk snap)
             else Some Zero)"

text \<open>The price of a listed product: \<open>0\<close> when there is no snapshot.\<close>

definition product_entry :: "cb_edge \<Rightarrow> string \<Rightarrow> productResponse option" where
  "product_entry s engSym = do {
     snap \<leftarrow> engine_Snapshot (cs_engine s) engSym;
     px \<leftarrow> (case snap of Inl e \<Rightarrow> Some ''0'' | Inr sn \<Rightarrow> do { x \<leftarrow> cb_tickerPrice sn; Some (StringPrec x cb_pricePrec) });
     Some (newProductResponse engSym px)
   }"

fun product_entries :: "cb_edge \<Rightarrow> string list \<Rightarrow> productResponse list option" where
  "product_entries s [] = Some []"
| "product_entries s (i # is) =
     (if Resolve (cs_streams s) i = None then product_entries s is
      else do { p \<leftarrow> product_entry s i; ps \<leftarrow> product_entries s is; Some (p # ps) })"

definition handleProducts :: "cb_request \<Rightarrow> cb_edge \<Rightarrow> (cb_error + cb_answer) option" where
  "handleProducts rq s = get_only rq (do {
     ps \<leftarrow> product_entries s (sv_products (cs_streams s));
     Some (Inr (ProductsAnswer ps))
   })"

definition TrimPrefix :: "string \<Rightarrow> string \<Rightarrow> string" where
  "TrimPrefix s pre = (if HasPrefix s pre then drop (length pre) s else s)"

definition handleProduct :: "cb_request \<Rightarrow> cb_edge \<Rightarrow> (cb_error + cb_answer) option" where
  "handleProduct rq s = get_only rq
     (let productID = TrimPrefix (TrimPrefix (cq_Path rq) ''/api/v3/brokerage/market/products/'') ''/api/v3/brokerage/products/''
      in if productID = [] \<or> CHR ''/'' \<in> set productID then Some (Inl (errInvalidArgument ''product_id is required''))
         else case Resolve (cs_streams s) productID of
           None \<Rightarrow> Some (Inl (errInvalidProduct productID))
         | Some engSym \<Rightarrow> do {
             snap \<leftarrow> engine_Snapshot (cs_engine s) engSym;
             (case snap of Inl e \<Rightarrow> Some (Inl (errInvalidProduct productID))
              | Inr sn \<Rightarrow> do {
                  px \<leftarrow> cb_tickerPrice sn;
                  Some (Inr (ProductAnswer (newProductResponse productID (StringPrec px cb_pricePrec))))
                })
           })"

subsection \<open>Creating an order\<close>

record create_order =
  cp_ProductID :: string
  cp_engSym :: string
  cp_Side :: string
  cp_side :: side
  cp_orderType :: string
  cp_isMarket :: bool
  cp_postOnly :: bool
  cp_price :: decimal
  cp_size :: decimal
  cp_ClientOrderID :: string
  cp_config :: orderConfiguration

text \<open>The order type, the post-only flag, the price and the size of a configuration.\<close>

definition parse_config :: "orderConfiguration \<Rightarrow> cb_error + (string \<times> bool \<times> decimal \<times> decimal)" where
  "parse_config cfg =
     (case (oc_LimitLimitGTC cfg, oc_MarketIOC cfg) of
        (Some l, None) \<Rightarrow>
          (case parseDecimalField (lg_BaseSize l) ''base_size'' of Inl e \<Rightarrow> Inl e
           | Inr sz \<Rightarrow> (case parseDecimalField (lg_LimitPrice l) ''limit_price'' of Inl e \<Rightarrow> Inl e
           | Inr px \<Rightarrow>
               if Sign px \<le> 0 then Inl (errInvalidArgument ''limit_price must be positive'')
               else Inr (''LIMIT'', lg_PostOnly l, px, sz)))
      | (None, Some mk) \<Rightarrow>
          (case parseDecimalField (mi_BaseSize mk) ''base_size'' of Inl e \<Rightarrow> Inl e
           | Inr sz \<Rightarrow> Inr (''MARKET'', False, Zero, sz))
      | _ \<Rightarrow> Inl (errInvalidArgument
          ''order_configuration must set exactly one of limit_limit_gtc or market_market_ioc''))"

definition parse_create :: "cb_streams \<Rightarrow> createOrderRequest \<Rightarrow> cb_error + create_order" where
  "parse_create streams req =
     (case Resolve streams (co_ProductID req) of None \<Rightarrow> Inl (errInvalidProduct (co_ProductID req))
      | Some engSym \<Rightarrow> (case cb_parseSide (co_Side req) of Inl e \<Rightarrow> Inl e
      | Inr side \<Rightarrow> (case parse_config (co_OrderConfiguration req) of Inl e \<Rightarrow> Inl e
      | Inr (orderType, postOnly, px, sz) \<Rightarrow>
          if Sign sz \<le> 0 then Inl (errInvalidArgument ''base_size must be positive'')
          else Inr \<lparr>cp_ProductID = co_ProductID req, cp_engSym = engSym, cp_Side = co_Side req, cp_side = side,
            cp_orderType = orderType, cp_isMarket = (orderType = ''MARKET''), cp_postOnly = postOnly, cp_price = px,
            cp_size = sz, cp_ClientOrderID = co_ClientOrderID req, cp_config = co_OrderConfiguration req\<rparr>)))"

definition cb_reserve :: "create_order \<Rightarrow> cb_edge \<Rightarrow> ((bool \<times> string \<times> decimal) \<times> cb_edge) option" where
  "cb_reserve p s =
     (case cs_ledger s of
        None \<Rightarrow> Some ((True, [], Zero), s)
      | Some l \<Rightarrow>
          if cp_isMarket p then Some ((True, [], Zero), s)
          else let (base, quote) = splitProduct (cp_ProductID p) in do {
            (asset, amt) \<leftarrow> (if cp_side p = SideBuy then do { x \<leftarrow> Mul (cp_price p) (cp_size p); Some (quote, x) }
                             else Some (base, cp_size p));
            (ok, l) \<leftarrow> Lock l asset amt;
            Some ((ok, asset, amt), s\<lparr>cs_ledger := Some l\<rparr>)
          })"

definition cb_order :: "create_order \<Rightarrow> cb_record \<Rightarrow> order" where
  "cb_order p rec =
     \<lparr>ord_ID = cr_EngineID rec, ord_Instrument = cp_engSym p, ord_Price = cp_price p, ord_Volume = cp_size p,
      ord_Side = cp_side p, ord_IsMarket = cp_isMarket p,
      ord_Metadata = [''api'' \<mapsto> ''coinbase'', ''clientOrderId'' \<mapsto> cr_ClientOrderID rec]\<rparr>"

text \<open>The texts of engine errors are an argument.\<close>

definition create_placed ::
    "(engine_error \<Rightarrow> string) \<Rightarrow> moment \<Rightarrow> create_order \<Rightarrow> cb_edge \<Rightarrow> ((cb_error + cb_answer) \<times> cb_edge) option" where
  "create_placed error_msg m p s = do {
     ((ok, lockAsset, lockAmt), s) \<leftarrow> cb_reserve p s;
     if \<not> ok then
       Some (Inr (OrderRejected ''INSUFFICIENT_FUND'' ''Insufficient balance for order'' ''INSUFFICIENT_FUND''), s)
     else
       let (ptr, r) = cb_Record (cs_registry s) (cp_ProductID p) (cp_Side p) (cp_orderType p) (cp_postOnly p) (cp_price p)
             (cp_size p) (cp_ClientOrderID p) (mo_ms m);
           s = s\<lparr>cs_registry := r\<rparr>; rec = cg_heap r ! ptr
       in do {
         (pm, s) \<leftarrow> (if cp_isMarket p then cb_PlaceMarket m (cb_order p rec) s else cb_PlaceLimit m (cb_order p rec) s);
         (case pm_error pm of
            Some e \<Rightarrow> do {
              let s = s\<lparr>cs_registry := cb_Remove (cs_registry s) (cr_OrderID rec)\<rparr>;
              s \<leftarrow> cb_with_ledger (\<lambda>l. Unlock l lockAsset lockAmt) s;
              Some (Inr (OrderRejected ''INTERNAL'' (error_msg e) ''UNKNOWN_FAILURE_REASON''), s)
            }
          | None \<Rightarrow> do {
              s \<leftarrow> with_streams (EmitUserByOrderID (mo_text m) (cs_registry s) (cr_OrderID rec)) s;
              Some (Inr (OrderCreated (cr_OrderID rec) (cp_ProductID p) (cp_Side p) (cr_ClientOrderID rec) (cp_config p)), s)
            })
       }
   }"

definition post_signed ::
    "cb_verifier \<Rightarrow> cb_request \<Rightarrow> 'b option \<Rightarrow> string \<Rightarrow> ('b \<Rightarrow> cb_edge \<Rightarrow> ((cb_error + cb_answer) \<times> cb_edge) option) \<Rightarrow>
     cb_edge \<Rightarrow> ((cb_error + cb_answer) \<times> cb_edge) option" where
  "post_signed verify rq body malformed h s =
     (if cq_Method rq \<noteq> ''POST'' then Some (Inl (errInvalidArgument ''method not allowed''), s)
      else case verify rq of Some e \<Rightarrow> Some (Inl e, s)
      | None \<Rightarrow> (case body of None \<Rightarrow> Some (Inl (errInvalidArgument malformed), s) | Some b \<Rightarrow> h b s))"

definition handleCreateOrder ::
    "cb_verifier \<Rightarrow> (engine_error \<Rightarrow> string) \<Rightarrow> moment \<Rightarrow> cb_request \<Rightarrow> createOrderRequest option \<Rightarrow> cb_edge \<Rightarrow>
     ((cb_error + cb_answer) \<times> cb_edge) option" where
  "handleCreateOrder verify error_msg m rq body s =
     post_signed verify rq body ''malformed JSON body''
       (\<lambda>req s. case parse_create (cs_streams s) req of Inl e \<Rightarrow> Some (Inl e, s) | Inr p \<Rightarrow> create_placed error_msg m p s) s"

subsection \<open>Cancelling\<close>

text \<open>The status that a second read of an order finds; of a missing one it is empty.\<close>

definition cb_status :: "cb_registry \<Rightarrow> string \<Rightarrow> string" where
  "cb_status r oid = (case cb_snapshot r oid of None \<Rightarrow> [] | Some rec \<Rightarrow> cr_Status rec)"

definition not_cancelled :: "string \<Rightarrow> string \<Rightarrow> cancelResult" where
  "not_cancelled oid reason = \<lparr>cn_Success = False, cn_FailureReason = reason, cn_OrderID = oid\<rparr>"

definition cancelOne :: "moment \<Rightarrow> string \<Rightarrow> cb_edge \<Rightarrow> (cancelResult \<times> cb_edge) option" where
  "cancelOne m oid s =
     (case cb_Get (cs_registry s) oid of
        None \<Rightarrow> Some (not_cancelled oid errUnknownCancel, s)
      | Some rec \<Rightarrow>
          let cur = cb_status (cs_registry s) oid
          in if cur = statusCancelled then Some (not_cancelled oid ''DUPLICATE_CANCEL_REQUEST'', s)
             else if cur = cb_statusFilled then Some (not_cancelled oid ''INVALID_CANCEL_REQUEST'', s)
             else do {
               (res, s) \<leftarrow> cb_CancelOrder m (cr_ProductID rec) (cr_EngineID rec) s;
               Some (case res of
                   Inl e \<Rightarrow> (not_cancelled oid (if cb_status (cs_registry s) oid = cb_statusFilled then ''INVALID_CANCEL_REQUEST''
                       else errUnknownCancel), s)
                 | Inr ord \<Rightarrow> (\<lparr>cn_Success = True, cn_FailureReason = [], cn_OrderID = oid\<rparr>,
                     s\<lparr>cs_registry := cb_MarkCancelled (cs_registry s) oid (mo_ms m)\<rparr>))
             })"

fun cancel_each :: "moment \<Rightarrow> string list \<Rightarrow> cb_edge \<Rightarrow> (cancelResult list \<times> cb_edge) option" where
  "cancel_each m [] s = Some ([], s)"
| "cancel_each m (i # is) s = do { (x, s) \<leftarrow> cancelOne m i s; (xs, s) \<leftarrow> cancel_each m is s; Some (x # xs, s) }"

definition handleBatchCancel ::
    "cb_verifier \<Rightarrow> moment \<Rightarrow> cb_request \<Rightarrow> string list option \<Rightarrow> cb_edge \<Rightarrow> ((cb_error + cb_answer) \<times> cb_edge) option" where
  "handleBatchCancel verify m rq body s =
     post_signed verify rq body ''malformed JSON body''
       (\<lambda>ids s. do { (xs, s) \<leftarrow> cancel_each m ids s; Some (Inr (CancelResults xs), s) }) s"

subsection \<open>Reading orders\<close>

definition toOrderViewRate :: "moment \<Rightarrow> cb_record \<Rightarrow> decimal \<Rightarrow> orderView option" where
  "toOrderViewRate m rec rate =
     (let cfg = (if cr_OrderType rec = ''MARKET''
            then \<lparr>oc_LimitLimitGTC = None, oc_MarketIOC = Some \<lparr>mi_BaseSize = StringPrec (cr_OrigSize rec) sizePrec\<rparr>\<rparr>
            else \<lparr>oc_LimitLimitGTC = Some \<lparr>lg_BaseSize = StringPrec (cr_OrigSize rec) sizePrec,
                    lg_LimitPrice = StringPrec (cr_Price rec) cb_pricePrec, lg_PostOnly = cr_PostOnly rec\<rparr>, oc_MarketIOC = None\<rparr>)
      in do {
        (totalFees, totalAfter) \<leftarrow> orderFees rec rate;
        avg \<leftarrow> avgFilledPrice rec;
        completion \<leftarrow> completionPercent rec;
        Some \<lparr>ow_OrderID = cr_OrderID rec, ow_ClientOrderID = cr_ClientOrderID rec, ow_ProductID = cr_ProductID rec,
          ow_Side = cr_Side rec, ow_Status = cr_Status rec, ow_OrderConfiguration = cfg,
          ow_FilledSize = StringPrec (cr_FilledSize rec) sizePrec, ow_AverageFilledPrice = StringPrec avg cb_pricePrec,
          ow_FilledValue = StringPrec (cr_FilledValue rec) cb_pricePrec, ow_Fee = totalFees, ow_TotalFees = totalFees,
          ow_TotalValueAfterFees = totalAfter, ow_SizeInclusiveOfFees = False,
          ow_CompletionPercentage = StringPrec completion 2, ow_CreatedTime = mo_format m (cr_CreatedMs rec)\<rparr>
      })"

definition toOrderView :: "moment \<Rightarrow> cb_edge \<Rightarrow> cb_record \<Rightarrow> orderView option" where
  "toOrderView m s rec = toOrderViewRate m rec (effFeeRate (cs_streams s))"

fun order_views :: "moment \<Rightarrow> cb_edge \<Rightarrow> cb_record list \<Rightarrow> orderView list option" where
  "order_views m s [] = Some []"
| "order_views m s (r # rs) = do { v \<leftarrow> toOrderView m s r; vs \<leftarrow> order_views m s rs; Some (v # vs) }"

definition get_signed :: "cb_verifier \<Rightarrow> cb_request \<Rightarrow> (cb_error + cb_answer) option \<Rightarrow> (cb_error + cb_answer) option" where
  "get_signed verify rq answer = get_only rq (case verify rq of Some e \<Rightarrow> Some (Inl e) | None \<Rightarrow> answer)"

definition handleHistoricalBatch :: "cb_verifier \<Rightarrow> moment \<Rightarrow> cb_request \<Rightarrow> cb_edge \<Rightarrow> (cb_error + cb_answer) option" where
  "handleHistoricalBatch verify m rq s = get_signed verify rq
     (let productID = cq_Query rq ''product_id'';
          list = (\<lambda>engSym. do {
            vs \<leftarrow> order_views m s (OrdersByStatus (cs_registry s) engSym (cq_Query rq ''order_status''));
            Some (Inr (HistoricalBatch vs)) })
      in if productID = [] then list []
         else case Resolve (cs_streams s) productID of None \<Rightarrow> Some (Inl (errInvalidProduct productID)) | Some e \<Rightarrow> list e)"

definition handleHistoricalOrder :: "cb_verifier \<Rightarrow> moment \<Rightarrow> cb_request \<Rightarrow> cb_edge \<Rightarrow> (cb_error + cb_answer) option" where
  "handleHistoricalOrder verify m rq s = get_signed verify rq
     (let oid = TrimPrefix (cq_Path rq) ''/api/v3/brokerage/orders/historical/''
      in if oid = [] \<or> CHR ''/'' \<in> set oid then Some (Inl (errInvalidArgument ''order_id is required''))
         else case cb_snapshot (cs_registry s) oid of
           None \<Rightarrow> Some (Inl (errOrderNotFound oid))
         | Some rec \<Rightarrow> do { v \<leftarrow> toOrderView m s rec; Some (Inr (SingleOrder v)) })"

subsection \<open>Accounts and withdrawals\<close>

definition ledgerAccounts :: "ledger \<Rightarrow> account_entry list" where
  "ledgerAccounts l =
     map (\<lambda>b. \<lparr>ac_UUID = ''acct-'' @ bl_Asset b, ac_Name = bl_Asset b @ '' Wallet'', ac_Currency = bl_Asset b,
       ac_AvailableBalance = StringPrec (bl_Free b) sizePrec, ac_Hold = StringPrec (bl_Locked b) sizePrec,
       ac_Active = True, ac_Type = ''ACCOUNT_TYPE_CRYPTO''\<rparr>) (ledger_Snapshot l)"

definition handleAccounts :: "cb_verifier \<Rightarrow> cb_request \<Rightarrow> cb_edge \<Rightarrow> (cb_error + cb_answer) option" where
  "handleAccounts verify rq s = get_signed verify rq
     (Some (Inr (AccountsAnswer (case cs_ledger s of Some l \<Rightarrow> ledgerAccounts l | None \<Rightarrow> cs_accounts s))))"

record withdrawRequest =
  wr_Currency :: string
  wr_Amount :: string
  wr_Address :: string

text \<open>The function that the transfer hub provides, when withdrawals are enabled: it works on the ledger of the venue and
  gives the reference of the payment, or the text of an error.\<close>

type_synonym cb_withdraw = "ledger option \<Rightarrow> string \<Rightarrow> decimal \<Rightarrow> string \<Rightarrow> ((string + string) \<times> ledger option) option"

definition cb_handleWithdraw ::
    "cb_verifier \<Rightarrow> cb_withdraw option \<Rightarrow> cb_request \<Rightarrow> withdrawRequest option \<Rightarrow> cb_edge \<Rightarrow>
     ((cb_error + cb_answer) \<times> cb_edge) option" where
  "cb_handleWithdraw verify withdraw rq body s =
     (case withdraw of
        None \<Rightarrow> Some (Inl (errInvalidArgument (if cq_Method rq \<noteq> ''POST'' then ''method not allowed'' else ''withdrawals not enabled'')), s)
      | Some wd \<Rightarrow> post_signed verify rq body ''invalid body''
          (\<lambda>req s.
             if wr_Currency req = [] \<or> wr_Address req = [] then
               Some (Inl (errInvalidArgument ''currency and address are required''), s)
             else case Parse (wr_Amount req) of Inl e \<Rightarrow> Some (Inl (errInvalidArgument ''invalid amount''), s)
             | Inr amount \<Rightarrow>
                 if Sign amount \<le> 0 then Some (Inl (errInvalidArgument ''invalid amount''), s)
                 else do {
                   (res, l) \<leftarrow> wd (cs_ledger s) (wr_Currency req) amount (wr_Address req);
                   Some (case res of Inl msg \<Rightarrow> Inl (errInvalidArgument msg) | Inr ref \<Rightarrow> Inr (WithdrawalID ref),
                     s\<lparr>cs_ledger := l\<rparr>)
                 }) s)"

end
