(* ===== verification/CoinbaseRegistryProofs.thy ===== *)
theory CoinbaseRegistryProofs
  imports CoinbaseRegistry
begin

text \<open>
  The Coinbase order store: its order and engine indexes agree after any operations, its records
  account for the trades of their orders by the locale \<open>fill_store\<close>, and an average price
  lies between the prices of the fills.
\<close>

subsection \<open>The record\<close>

lemma cb_applyFill_cases:
  assumes "cb_applyFill rec q p t = Some rec'"
  obtains (idle) "\<not> 0 < toBig q" "rec' = rec"
  | (fill) x y where "0 < toBig q" "toBig x = toBig (cr_FilledSize rec) + toBig q"
      "toBig y = toBig (cr_FilledValue rec) + prod (toBig q) (toBig p)"
      "rec' = rec\<lparr>cr_FilledSize := x, cr_FilledValue := y, cr_UpdatedMs := t,
        cr_Status := if cr_Status rec \<noteq> statusCancelled \<and> cr_OrigSize rec \<le> x then cb_statusFilled else cr_Status rec\<rparr>"
proof (cases "0 < toBig q")
  case False
  then have "rec' = rec" using assms by (simp add: cb_applyFill_def Sign_le_0)
  then show ?thesis by (rule idle[OF False])
next
  case True
  with assms obtain x v y where x: "Add (cr_FilledSize rec) q = Some x" and v: "Mul q p = Some v"
    and y: "Add (cr_FilledValue rec) v = Some y"
    by (auto simp: cb_applyFill_def Sign_le_0 bind_eq_Some_conv)
  have "rec' = rec\<lparr>cr_FilledSize := x, cr_FilledValue := y, cr_UpdatedMs := t,
      cr_Status := if cr_Status rec \<noteq> statusCancelled \<and> cr_OrigSize rec \<le> x then cb_statusFilled else cr_Status rec\<rparr>"
    using x v y True assms by (cases rec) (auto simp: cb_applyFill_def Sign_le_0 Let_def)
  then show ?thesis
    by (rule fill[OF True dec.add_value[OF x] dec.add_value[OF y, unfolded Mul_prod[OF v]]])
qed

interpretation cb_fill: fill_record cb_applyFill cb_cancelRecord "\<lambda>r. toBig (cr_FilledSize r)"
  "\<lambda>r. toBig (cr_FilledValue r)" "\<lambda>r. toBig (cr_OrigSize r)" "\<lambda>r. cr_Status r = cb_statusFilled"
  "\<lambda>r. cr_Status r = statusCancelled"
  by unfold_locales
    ((erule cb_applyFill_cases, simp, simp add: le_toBig cb_status_defs split: if_split_asm)
      | simp add: cb_cancelRecord_def cb_status_defs)+

definition cb_ids :: "cb_record \<Rightarrow> string \<times> string \<times> string" where
  "cb_ids rec = (cr_OrderID rec, cr_EngineID rec, cr_ClientOrderID rec)"

lemma cb_applyFill_ids: "cb_applyFill rec q p t = Some rec' \<Longrightarrow> cb_ids rec' = cb_ids rec"
  by (auto elim!: cb_applyFill_cases simp: cb_ids_def)

lemma cb_cancelRecord_ids: "cb_ids (cb_cancelRecord rec t) = cb_ids rec"
  by (simp add: cb_ids_def cb_cancelRecord_def)

subsection \<open>Coherence of the indexes\<close>

text \<open>Every tracked order has a sequence number of its own, from which both its identifiers are
  built, and the engine index leads to the tracked orders only.\<close>

definition cb_tracked :: "cb_registry \<Rightarrow> int \<Rightarrow> nat \<Rightarrow> bool" where
  "cb_tracked r n p \<longleftrightarrow> 1 \<le> n \<and> n \<le> sint (cg_seq r) \<and> map_of (cg_byOrderID r) (cb_orderID n) = Some p"

definition cb_coherent :: "cb_registry \<Rightarrow> bool" where
  "cb_coherent r \<longleftrightarrow> distinct (map fst (cg_byOrderID r)) \<and> 0 \<le> sint (cg_seq r) \<and>
     (\<forall>oid p. map_of (cg_byOrderID r) oid = Some p \<longrightarrow> (\<exists>n. oid = cb_orderID n \<and> cb_tracked r n p)) \<and>
     (\<forall>n p. cb_tracked r n p \<longrightarrow> p < length (cg_heap r) \<and> cr_OrderID (cg_heap r ! p) = cb_orderID n \<and>
        cr_EngineID (cg_heap r ! p) = cb_EngineID n) \<and>
     (\<forall>e p. cg_byEngine r e = Some p \<longleftrightarrow> (\<exists>n. cb_tracked r n p \<and> e = cb_EngineID n))"

lemma cb_coherentD:
  assumes "cb_coherent r"
  shows "distinct (map fst (cg_byOrderID r))" "0 \<le> sint (cg_seq r)"
    "map_of (cg_byOrderID r) oid = Some p \<Longrightarrow> \<exists>n. oid = cb_orderID n \<and> cb_tracked r n p"
    "cb_tracked r n p \<Longrightarrow> p < length (cg_heap r) \<and> cr_OrderID (cg_heap r ! p) = cb_orderID n \<and>
        cr_EngineID (cg_heap r ! p) = cb_EngineID n"
    "cg_byEngine r e = Some p \<longleftrightarrow> (\<exists>n. cb_tracked r n p \<and> e = cb_EngineID n)"
  using assms unfolding cb_coherent_def by blast+

lemma cb_coherent_new: "cb_coherent cb_NewRegistry"
  by (simp add: cb_coherent_def cb_NewRegistry_def cb_tracked_def)

lemma cb_id_inj: "1 \<le> m \<Longrightarrow> 1 \<le> n \<Longrightarrow> cb_orderID m = cb_orderID n \<longleftrightarrow> m = n"
  "1 \<le> m \<Longrightarrow> 1 \<le> n \<Longrightarrow> cb_EngineID m = cb_EngineID n \<longleftrightarrow> m = n"
  by (simp_all add: cb_orderID_def cb_EngineID_def int_string_inj)

lemma cb_tracked_own: "cb_tracked r n p \<Longrightarrow> 1 \<le> n" by (simp add: cb_tracked_def)

lemma cb_engine_unique: "cb_tracked r m p \<Longrightarrow> cb_tracked r' n q \<Longrightarrow> cb_EngineID m = cb_EngineID n \<Longrightarrow> m = n"
  using cb_id_inj(2)[of m n] by (simp add: cb_tracked_def)

lemma cb_put_simps [simp]: "cg_byOrderID (cb_put r p rec) = cg_byOrderID r" "cg_seq (cb_put r p rec) = cg_seq r"
  "cg_byEngine (cb_put r p rec) = cg_byEngine r" "length (cg_heap (cb_put r p rec)) = length (cg_heap r)"
  "cb_tracked (cb_put r p rec) = cb_tracked r"
  by (simp_all add: cb_put_def cb_tracked_def[abs_def])

lemma cb_put_ids: "cb_ids rec = cb_ids (cg_heap r ! p) \<Longrightarrow> cb_ids (cg_heap (cb_put r p rec) ! q) = cb_ids (cg_heap r ! q)"
  by (cases "p < length (cg_heap r)") (auto simp: cb_put_def nth_list_update list_update_beyond)

lemma cb_coherent_put:
  assumes "cb_coherent r" "cb_ids rec = cb_ids (cg_heap r ! p)"
  shows "cb_coherent (cb_put r p rec)"
  using assms(1) cb_put_ids[OF assms(2)] by (simp add: cb_coherent_def cb_ids_def)

lemma cb_coherent_fillOrder: "cb_coherent r \<Longrightarrow> cb_fillOrder t n i r = Some r' \<Longrightarrow> cb_coherent r' \<and> cg_seq r' = cg_seq r"
  by (auto simp: cb_fillOrder_def bind_eq_Some_conv split: if_splits option.splits intro!: cb_coherent_put dest: cb_applyFill_ids)

lemma cb_coherent_OnTrade:
  assumes "cb_coherent r" "cb_OnTrade t n r = Some r'"
  shows "cb_coherent r' \<and> cg_seq r' = cg_seq r"
proof (cases t)
  case None
  then show ?thesis using assms by (simp add: cb_OnTrade_def)
next
  case (Some tr)
  with assms(2) obtain r1 where "cb_fillOrder tr n (tr_BuyOrderID tr) r = Some r1"
    "cb_fillOrder tr n (tr_SellOrderID tr) r1 = Some r'" by (auto simp: cb_OnTrade_def bind_eq_Some_conv)
  with cb_coherent_fillOrder assms(1) show ?thesis by metis
qed

lemma cb_coherent_OnCancel: "cb_coherent r \<Longrightarrow> cb_coherent (cb_OnCancel x n r) \<and> cg_seq (cb_OnCancel x n r) = cg_seq r"
  by (auto simp: cb_OnCancel_def cb_cancelRecord_ids split: option.split intro!: cb_coherent_put)

lemma cb_coherent_MarkCancelled:
  "cb_coherent r \<Longrightarrow> cb_coherent (cb_MarkCancelled r x n) \<and> cg_seq (cb_MarkCancelled r x n) = cg_seq r"
  by (auto simp: cb_MarkCancelled_def cb_cancelRecord_ids split: option.split intro!: cb_coherent_put)

lemma cb_coherent_Remove:
  assumes co: "cb_coherent r"
  shows "cb_coherent (cb_Remove r oid) \<and> cg_seq (cb_Remove r oid) = cg_seq r"
proof (cases "map_of (cg_byOrderID r) oid")
  case None
  with assms show ?thesis by (simp add: cb_Remove_def)
next
  case (Some p)
  let ?r = "cb_Remove r oid"
  obtain m where m: "oid = cb_orderID m" "cb_tracked r m p" using cb_coherentD(3)[OF co Some] by blast
  have fields: "cg_heap ?r = cg_heap r" "cg_seq ?r = cg_seq r" "cg_byOrderID ?r = AList.delete oid (cg_byOrderID r)"
    "cg_byEngine ?r = (cg_byEngine r)(cb_EngineID m := None)"
    using Some cb_coherentD(4)[OF co m(2)] by (simp_all add: cb_Remove_def Let_def)
  have tr: "cb_tracked ?r n q \<longleftrightarrow> n \<noteq> m \<and> cb_tracked r n q" for n q
    using cb_id_inj(1)[of n m] cb_tracked_own[OF m(2)]
    unfolding cb_tracked_def fields map_of_delete_eq by (auto simp: m(1))
  have eng: "cg_byEngine ?r e = Some q \<longleftrightarrow> (\<exists>n. cb_tracked ?r n q \<and> e = cb_EngineID n)" for e q
  proof (cases "e = cb_EngineID m")
    case True
    then have "\<not> (\<exists>n. cb_tracked ?r n q \<and> e = cb_EngineID n)"
      using cb_engine_unique[OF m(2)] tr by metis
    then show ?thesis using True by (simp add: fields(4))
  next
    case False
    then show ?thesis using cb_coherentD(5)[OF co, of e q] tr unfolding fields(4) by auto
  qed
  have own: "\<forall>n q. cb_tracked ?r n q \<longrightarrow> q < length (cg_heap r) \<and> cr_OrderID (cg_heap r ! q) = cb_orderID n \<and>
      cr_EngineID (cg_heap r ! q) = cb_EngineID n" using tr cb_coherentD(4)[OF co] by blast
  have ids: "\<forall>i q. map_of (cg_byOrderID ?r) i = Some q \<longrightarrow> (\<exists>n. i = cb_orderID n \<and> cb_tracked ?r n q)"
    using cb_coherentD(3)[OF co] unfolding fields map_of_delete_eq tr by (auto simp: m(1))
  have rest: "distinct (map fst (cg_byOrderID ?r))" "0 \<le> sint (cg_seq r)"
    using cb_coherentD(1,2)[OF co] by (simp_all add: fields distinct_delete)
  show ?thesis unfolding cb_coherent_def fields(1,2) by (intro conjI rest ids own refl) (intro allI eng)
qed

lemma cb_coherent_Record:
  assumes co: "cb_coherent r" and room: "sint (cg_seq r) < 2 ^ 63 - 1"
    and rec: "cb_Record r product sd kind po px sz c t = (k, r')"
  shows "cb_coherent r' \<and> sint (cg_seq r') = sint (cg_seq r) + 1 \<and>
    (\<exists>x. cb_Get r' (cb_orderID (sint (cg_seq r'))) = Some x \<and> cr_Status x = statusOpen \<and> cr_FilledSize x = Zero \<and>
      cr_FilledValue x = Zero \<and> cr_OrigSize x = sz)"
proof -
  let ?n = "sint (cg_seq r) + 1" and ?k = "length (cg_heap r)"
  have seq: "sint (cg_seq r + 1) = ?n" using next_seq cb_coherentD(2)[OF co] room by blast
  define x where "x = \<lparr>cr_OrderID = cb_orderID ?n,
    cr_ClientOrderID = (if c = [] then ''emu-client-'' @ int_string ?n else c), cr_EngineID = cb_EngineID ?n,
    cr_ProductID = product, cr_Side = sd, cr_OrderType = kind, cr_PostOnly = po, cr_Price = px, cr_OrigSize = sz,
    cr_FilledSize = Zero, cr_FilledValue = Zero, cr_Status = statusOpen, cr_CreatedMs = t, cr_UpdatedMs = t\<rparr>"
  have x: "cr_OrderID x = cb_orderID ?n" "cr_EngineID x = cb_EngineID ?n" "cr_Status x = statusOpen"
    "cr_FilledSize x = Zero" "cr_FilledValue x = Zero" "cr_OrigSize x = sz" by (simp_all add: x_def)
  have fields: "cg_heap r' = cg_heap r @ [x]" "sint (cg_seq r') = ?n" "k = ?k"
    "cg_byOrderID r' = AList.update (cb_orderID ?n) ?k (cg_byOrderID r)"
    "cg_byEngine r' = (cg_byEngine r)(cb_EngineID ?n \<mapsto> ?k)"
    using rec by (auto simp: cb_Record_def cb_nextID_def Let_def seq x_def)
  have fresh: "map_of (cg_byOrderID r) (cb_orderID ?n) = None"
  proof (rule ccontr)
    assume "\<not> ?thesis"
    then obtain p where "map_of (cg_byOrderID r) (cb_orderID ?n) = Some p" by blast
    from cb_coherentD(3)[OF co this] obtain n where "cb_orderID ?n = cb_orderID n" "cb_tracked r n p" by blast
    then show False using cb_id_inj(1)[of ?n n] cb_coherentD(2)[OF co] by (auto simp: cb_tracked_def)
  qed
  have tr: "cb_tracked r' n q \<longleftrightarrow> (if n = ?n then q = ?k else cb_tracked r n q)" for n q
    using cb_id_inj(1)[of n ?n] cb_coherentD(2)[OF co]
    by (auto simp: cb_tracked_def fields map_of_update_eq fresh)
  have old: "q < ?k" "cg_heap r' ! q = cg_heap r ! q" if "cb_tracked r n q" for n q
    using cb_coherentD(4)[OF co that] by (simp_all add: fields nth_append)
  have new: "cg_heap r' ! ?k = x" by (simp add: fields)
  have eng: "cg_byEngine r' e = Some q \<longleftrightarrow> (\<exists>n. cb_tracked r' n q \<and> e = cb_EngineID n)" for e q
  proof (cases "e = cb_EngineID ?n")
    case True
    have last: "cb_tracked r' ?n ?k" using tr[of ?n ?k] by simp
    have "(\<exists>n. cb_tracked r' n q \<and> e = cb_EngineID n) \<longleftrightarrow> q = ?k"
    proof
      assume "\<exists>n. cb_tracked r' n q \<and> e = cb_EngineID n"
      then obtain n where n: "cb_tracked r' n q" "e = cb_EngineID n" by blast
      then have "n = ?n" using cb_engine_unique[OF last n(1)] True by simp
      then show "q = ?k" using n(1) tr by simp
    next
      assume "q = ?k"
      then show "\<exists>n. cb_tracked r' n q \<and> e = cb_EngineID n" using last True by blast
    qed
    then show ?thesis using True by (auto simp: fields(5))
  next
    case False
    have "\<not> cb_tracked r ?n q" by (simp add: cb_tracked_def)
    then have "(\<exists>n. cb_tracked r' n q \<and> e = cb_EngineID n) \<longleftrightarrow> (\<exists>n. cb_tracked r n q \<and> e = cb_EngineID n)"
      using tr False by metis
    then show ?thesis using cb_coherentD(5)[OF co, of e q] False by (simp add: fields(5))
  qed
  have own: "\<forall>n q. cb_tracked r' n q \<longrightarrow> q < length (cg_heap r') \<and> cr_OrderID (cg_heap r' ! q) = cb_orderID n \<and>
      cr_EngineID (cg_heap r' ! q) = cb_EngineID n"
    using tr old new x(1,2) cb_coherentD(4)[OF co] by (auto simp: fields(1) less_Suc_eq)
  have ids: "\<forall>i q. map_of (cg_byOrderID r') i = Some q \<longrightarrow> (\<exists>n. i = cb_orderID n \<and> cb_tracked r' n q)"
  proof (intro allI impI)
    fix i q assume iq: "map_of (cg_byOrderID r') i = Some q"
    show "\<exists>n. i = cb_orderID n \<and> cb_tracked r' n q"
    proof (cases "i = cb_orderID ?n")
      case True
      then show ?thesis using iq tr by (auto simp: fields(4) map_of_update_eq)
    next
      case False
      then have "map_of (cg_byOrderID r) i = Some q" using iq by (simp add: fields(4) map_of_update_eq)
      from cb_coherentD(3)[OF co this] show ?thesis using tr False by metis
    qed
  qed
  have rest: "distinct (map fst (cg_byOrderID r'))" "0 \<le> sint (cg_seq r')"
    using cb_coherentD(1,2)[OF co] by (simp_all add: fields distinct_update)
  have "cb_coherent r'" unfolding cb_coherent_def by (intro conjI rest ids own) (intro allI eng)
  moreover have "cb_Get r' (cb_orderID (sint (cg_seq r'))) = Some x"
    by (simp add: cb_Get_def fields map_of_update_eq)
  ultimately show ?thesis using fields(2) x by auto
qed

subsection \<open>Trades\<close>

lemma cb_EngineID_prefix [simp]: "HasPrefix (cb_EngineID n) cb_prefix"
  by (simp add: cb_EngineID_def)

lemma cb_fillOrder_record:
  assumes "cb_coherent r" "cb_tracked r n p" "cb_fillOrder t now i r = Some r'"
  shows "cb_coherent r'" "cb_tracked r' n p"
    "cb_fill.fill_all (cg_heap r ! p) (if i = cb_EngineID n then [((tr_Volume t, tr_Price t), now)] else []) =
      Some (cg_heap r' ! p)"
proof -
  show "cb_coherent r'" using cb_coherent_fillOrder assms(1,3) by blast
  show "cb_tracked r' n p" using assms(2,3) by (auto simp: cb_fillOrder_def bind_eq_Some_conv split: if_splits option.splits)
  have p: "p < length (cg_heap r)" "cg_byEngine r (cb_EngineID n) = Some p"
    using cb_coherentD(4)[OF assms(1,2)] cb_coherentD(5)[OF assms(1)] assms(2) by auto
  have "q \<noteq> p" if "cg_byEngine r i = Some q" "i \<noteq> cb_EngineID n" for q
  proof
    assume "q = p"
    with that(1) obtain n' where "cb_tracked r n' p" "i = cb_EngineID n'" using cb_coherentD(5)[OF assms(1)] by blast
    with cb_coherentD(4)[OF assms(1), of n' p] cb_coherentD(4)[OF assms(1,2)] that(2) show False by simp
  qed
  then show "cb_fill.fill_all (cg_heap r ! p) (if i = cb_EngineID n then [((tr_Volume t, tr_Price t), now)] else []) =
      Some (cg_heap r' ! p)"
    using assms(3) p
    by (auto simp: cb_fillOrder_def cb_put_def bind_eq_Some_conv nth_list_update split: if_splits option.splits)
qed

lemma cb_OnTrade_record:
  assumes "cb_coherent r" "cb_tracked r n p" "cb_OnTrade (Some t) now r = Some r'"
  shows "cb_tracked r' n p \<and>
    cb_fill.fill_all (cg_heap r ! p) (map (\<lambda>f. (f, now)) (trade_fills (cb_EngineID n) t)) = Some (cg_heap r' ! p)"
proof -
  from assms(3) obtain r1 where r1: "cb_fillOrder t now (tr_BuyOrderID t) r = Some r1"
    and r2: "cb_fillOrder t now (tr_SellOrderID t) r1 = Some r'" by (auto simp: cb_OnTrade_def bind_eq_Some_conv)
  note f1 = cb_fillOrder_record[OF assms(1,2) r1] note f2 = cb_fillOrder_record[OF f1(1,2) r2]
  have "map (\<lambda>f. (f, now)) (trade_fills (cb_EngineID n) t) =
      (if tr_BuyOrderID t = cb_EngineID n then [((tr_Volume t, tr_Price t), now)] else []) @
      (if tr_SellOrderID t = cb_EngineID n then [((tr_Volume t, tr_Price t), now)] else [])"
    by (simp add: trade_fills_def)
  then show ?thesis using f1 f2 cb_fill.fill_all_append by simp
qed

text \<open>The record of the order with a sequence number.\<close>

definition cb_look :: "int \<Rightarrow> cb_registry \<Rightarrow> cb_record option" where
  "cb_look n r = (if 1 \<le> n then cb_Get r (cb_orderID n) else None)"

lemma cb_look_tracked: "cb_coherent r \<Longrightarrow> cb_look n r = Some x \<longleftrightarrow> (\<exists>p. cb_tracked r n p \<and> cg_heap r ! p = x)"
  using cb_coherentD(3)[of r "cb_orderID n"] cb_id_inj(1)[of n]
  by (auto simp: cb_look_def cb_Get_def cb_tracked_def)

interpretation cb_store: fill_store cb_applyFill cb_cancelRecord "\<lambda>r. toBig (cr_FilledSize r)"
  "\<lambda>r. toBig (cr_FilledValue r)" "\<lambda>r. toBig (cr_OrigSize r)" "\<lambda>r. cr_Status r = cb_statusFilled"
  "\<lambda>r. cr_Status r = statusCancelled" cb_coherent cb_look "\<lambda>t n. cb_OnTrade (Some t) n" cb_EngineID
proof unfold_locales
  show "cb_coherent r'" if "cb_coherent r" "cb_OnTrade (Some t) n r = Some r'" for r t n r'
    using cb_coherent_OnTrade that by blast
  show "\<exists>x'. cb_look k r' = Some x' \<and> cb_fill.fill_all x (map (\<lambda>f. (f, n)) (trade_fills (cb_EngineID k) t)) = Some x'"
    if "cb_coherent r" "cb_look k r = Some x" "cb_OnTrade (Some t) n r = Some r'" for r k x t n r'
    using that cb_OnTrade_record[OF that(1) _ that(3)] cb_coherent_OnTrade[OF that(1,3)] by (auto simp: cb_look_tracked)
qed

interpretation cb_by_id: comparator cb_before cr_OrderID
  by unfold_locales (simp add: cb_before_def)

subsection \<open>Runs\<close>

datatype cb_op =
    CbRecord string string string bool decimal decimal string int
  | CbTrade "trade option" int
  | CbCancel "order option" int
  | CbMark string int
  | CbRemove string

fun cb_step :: "cb_op \<Rightarrow> cb_registry \<Rightarrow> cb_registry option" where
  "cb_step (CbRecord product sd kind po px sz c t) r = Some (snd (cb_Record r product sd kind po px sz c t))"
| "cb_step (CbTrade tr t) r = cb_OnTrade tr t r"
| "cb_step (CbCancel x t) r = Some (cb_OnCancel x t r)"
| "cb_step (CbMark oid t) r = Some (cb_MarkCancelled r oid t)"
| "cb_step (CbRemove oid) r = Some (cb_Remove r oid)"

lemma cb_step_coherent:
  assumes "cb_coherent r" "sint (cg_seq r) < 2 ^ 63 - 1" "cb_step x r = Some r'"
  shows "cb_coherent r' \<and> sint (cg_seq r') \<le> sint (cg_seq r) + 1"
proof (cases x)
  case (CbRecord product sd kind po px sz c t)
  then have "r' = snd (cb_Record r product sd kind po px sz c t)" using assms(3) by simp
  then show ?thesis using cb_coherent_Record[OF assms(1,2) prod.collapse[symmetric]] by (metis order_refl)
next
  case (CbTrade tr t)
  then show ?thesis using assms(3) cb_coherent_OnTrade[OF assms(1)] by force
next
  case (CbCancel y t)
  then show ?thesis using assms(3) cb_coherent_OnCancel[OF assms(1)] by force
next
  case (CbMark oid t)
  then show ?thesis using assms(3) cb_coherent_MarkCancelled[OF assms(1)] by force
next
  case (CbRemove oid)
  then show ?thesis using assms(3) cb_coherent_Remove[OF assms(1)] by force
qed

lemma cb_run_coherent:
  "cb_coherent r \<Longrightarrow> sint (cg_seq r) + int (length ops) < 2 ^ 63 \<Longrightarrow> run_ops cb_step ops r = Some r' \<Longrightarrow>
    cb_coherent r' \<and> sint (cg_seq r') \<le> sint (cg_seq r) + int (length ops)"
proof (induction ops arbitrary: r)
  case Nil
  then show ?case by simp
next
  case (Cons x ops)
  then obtain r1 where r1: "cb_step x r = Some r1" "run_ops cb_step ops r1 = Some r'"
    by (auto simp: bind_eq_Some_conv)
  have "sint (cg_seq r) < 2 ^ 63 - 1" using Cons.prems(2) by simp
  from cb_step_coherent[OF Cons.prems(1) this r1(1)] Cons.prems(2) Cons.IH[OF _ _ r1(2)] show ?case by simp
qed

subsection \<open>Properties of the order store\<close>

text \<open>An order of the Coinbase edge is accounted for from its placement: after any operations, a new
  order starts open and empty; over any trades that follow, its record, found by either identifier,
  has filled exactly what the trades with its engine identifier filled, at their value, and is
  FILLED exactly when that reaches its size.\<close>

theorem coinbase_order_accounted:
  assumes "run_ops cb_step ops cb_NewRegistry = Some r" "int (length ops) < 2 ^ 63 - 1" "0 < toBig sz"
    and "cb_Record r product sd kind po px sz c t = (k, r1)"
    and "run_ops (\<lambda>(t, n). cb_OnTrade (Some t) n) ts r1 = Some r2"
    and "n = sint (cg_seq r1)" "fs = all_fills (cb_EngineID n) ts"
  shows "\<exists>x. cb_Get r2 (cb_orderID n) = Some x \<and> cb_getByEngine r2 (cb_EngineID n) = Some x \<and>
    toBig (cr_FilledSize x) = fills_qty fs \<and> toBig (cr_FilledValue x) = fills_quote fs \<and>
    (cr_Status x = cb_statusFilled \<longleftrightarrow> toBig sz \<le> fills_qty fs)"
proof -
  have "sint (cg_seq cb_NewRegistry) + int (length ops) < 2 ^ 63" using assms(2) by (simp add: cb_NewRegistry_def)
  from cb_run_coherent[OF cb_coherent_new this assms(1)] have co: "cb_coherent r"
    and room: "sint (cg_seq r) < 2 ^ 63 - 1" using assms(2) by (simp_all add: cb_NewRegistry_def)
  from cb_coherent_Record[OF co room assms(4)] obtain x where co1: "cb_coherent r1" and seq: "n = sint (cg_seq r) + 1"
    and x: "cb_Get r1 (cb_orderID n) = Some x" "cr_Status x = statusOpen" "cr_FilledSize x = Zero"
      "cr_FilledValue x = Zero" "cr_OrigSize x = sz" using assms(6) by auto
  have pos: "1 \<le> n" using seq cb_coherentD(2)[OF co] by simp
  then have look: "cb_look n r1 = Some x" using x(1) by (simp add: cb_look_def)
  from cb_store.trades_accounted[OF co1 look assms(5)] x(2-5) assms(3) obtain y where y: "cb_look n r2 = Some y"
    "toBig (cr_FilledSize y) = fills_qty fs" "toBig (cr_FilledValue y) = fills_quote fs"
    "cr_Status y = cb_statusFilled \<longleftrightarrow> toBig sz \<le> fills_qty fs"
    by (auto simp: assms(7) cb_status_defs toBig_Zero)
  have co2: "cb_coherent r2" using cb_store.on_trades_inv[OF co1 assms(5)] .
  obtain p where "cb_tracked r2 n p" "cg_heap r2 ! p = y" using y(1) cb_look_tracked[OF co2] by blast
  then have "cb_getByEngine r2 (cb_EngineID n) = Some y"
    using cb_coherentD(5)[OF co2, of "cb_EngineID n" p] by (auto simp: cb_getByEngine_def)
  then show ?thesis using y pos by (auto simp: cb_look_def)
qed

definition ex_cb_trade :: trade where
  "ex_cb_trade = \<lparr>tr_BuyOrderID = ''synth:1'', tr_SellOrderID = cb_EngineID 1, tr_Instrument = ''BTC-USD'',
     tr_Price = Decimal 0 100, tr_Volume = Decimal 0 7, tr_TakerSide = SideBuy, tr_ExecutedAt = 0\<rparr>"

theorem coinbase_order_accounted_witness:
  "\<exists>r1 r2 x. cb_Record cb_NewRegistry ''BTC-USD'' ''SELL'' ''LIMIT'' True (Decimal 0 100) (Decimal 0 9) [] 1 = (0, r1) \<and>
    run_ops (\<lambda>(t, n). cb_OnTrade (Some t) n) [(ex_cb_trade, 2)] r1 = Some r2 \<and>
    cb_Get r2 (cb_orderID 1) = Some x \<and> toBig (cr_FilledSize x) = 7 \<and> cr_Status x \<noteq> cb_statusFilled"
proof -
  obtain r1 where r1: "cb_Record cb_NewRegistry ''BTC-USD'' ''SELL'' ''LIMIT'' True (Decimal 0 100) (Decimal 0 9) [] 1 = (0, r1)"
    by (simp add: cb_Record_def cb_nextID_def cb_NewRegistry_def Let_def)
  have seq: "sint (cg_seq r1) = 1" using r1 by (auto simp: cb_Record_def cb_nextID_def cb_NewRegistry_def Let_def)
  have "HasPrefix ''synth:1'' cb_prefix = False" by (simp add: HasPrefix_def cb_prefix_def)
  then obtain r2 where r2: "run_ops (\<lambda>(t, n). cb_OnTrade (Some t) n) [(ex_cb_trade, 2)] r1 = Some r2"
    using r1 by (auto simp: cb_Record_def cb_nextID_def cb_NewRegistry_def Let_def cb_OnTrade_def ex_cb_trade_def
        cb_fillOrder_def cb_applyFill_def Sign_def Add_def Add64_def Zero_def Mul_spec fromBigChecked_def toBig_eq
        scaleBig_num sdiv_nonneg maxPos_num minNeg_num)
  have "toBig (Decimal 0 9) = 9" by (simp add: toBig_eq)
  with coinbase_order_accounted[of "[]", OF _ _ _ r1 r2 seq[symmetric] refl] show ?thesis
    using r1 r2 by (auto simp: ex_cb_trade_def trade_fills_def cb_EngineID_def cb_prefix_def toBig_eq)
qed

text \<open>The list by status is exact: in the order of their identifiers, each tracked order of the
  product and status once.\<close>

lemma OrdersByStatus_exact:
  assumes "cb_coherent r"
  shows "sorted (map cr_OrderID (OrdersByStatus r product status)) \<and> distinct (map cr_OrderID (OrdersByStatus r product status)) \<and>
    set (OrdersByStatus r product status) = {x. \<exists>oid. cb_Get r oid = Some x \<and> cb_listed product status x}"
proof -
  have d: "distinct (map fst (cg_byOrderID r))" using cb_coherentD(1)[OF assms] .
  let ?recs = "map (\<lambda>(_, p). cg_heap r ! p) (cg_byOrderID r)"
  have "cr_OrderID (cg_heap r ! p) = oid" if "(oid, p) \<in> set (cg_byOrderID r)" for oid p
    using cb_coherentD(3,4)[OF assms] map_of_is_SomeI[OF d that] by blast
  then have "map cr_OrderID ?recs = map fst (cg_byOrderID r)" by auto
  then have "distinct (map cr_OrderID (filter (cb_listed product status) ?recs))" using d by (metis distinct_map_filter)
  moreover have "mset (map cr_OrderID (OrdersByStatus r product status)) =
      mset (map cr_OrderID (filter (cb_listed product status) ?recs))" by (simp add: OrdersByStatus_def)
  ultimately have "distinct (map cr_OrderID (OrdersByStatus r product status))" using mset_eq_imp_distinct_iff by blast
  moreover have "sorted (map cr_OrderID (OrdersByStatus r product status))"
    unfolding OrdersByStatus_def by (rule cb_by_id.sorted_slice)
  moreover have "set (OrdersByStatus r product status) = {x. \<exists>oid. cb_Get r oid = Some x \<and> cb_listed product status x}"
    using d by (force simp: OrdersByStatus_def cb_Get_def)
  ultimately show ?thesis by blast
qed

end
