(* ===== verification/LevelDiffProofs.thy ===== *)
theory LevelDiffProofs
  imports LevelDiff FillLifecycle
begin

text \<open>
  What a client gets from the levels it is sent: the levels in which two books differ turn the one into the
  other, in any order and also when some of them were known already. So a Coinbase subscriber, whose first book
  is the one the differ keeps, always holds that book; a Binance client, whose first book is a snapshot of its
  own, holds the book of the differ exactly where a diff mentioned the price or the two agreed at the start.
\<close>

subsection \<open>Level maps\<close>

text \<open>No level of a proper map has the text of a removal, or no text.\<close>

definition proper :: "level_map \<Rightarrow> bool" where
  "proper m \<longleftrightarrow> distinct (map fst m) \<and> (\<forall>p q. map_of m p = Some q \<longrightarrow> q \<noteq> [] \<and> q \<noteq> ''0'')"

lemma properD: "proper m \<Longrightarrow> distinct (map fst m)" "proper m \<Longrightarrow> map_of m p = Some q \<Longrightarrow> q \<noteq> [] \<and> q \<noteq> ''0''"
  unfolding proper_def by blast+

lemma proper_Nil [simp]: "proper []"
  by (simp add: proper_def)

lemma StringPrec_long: "0 < prec \<Longrightarrow> StringPrec d prec \<noteq> [] \<and> StringPrec d prec \<noteq> ''0''"
  by (auto simp: StringPrec_def Let_def append_eq_Cons_conv ScaleDigits_def split: if_splits)

lemma proper_update: "proper m \<Longrightarrow> q \<noteq> [] \<Longrightarrow> q \<noteq> ''0'' \<Longrightarrow> proper (AList.update p q m)"
  by (auto simp: proper_def distinct_update update_conv' split: if_splits)

lemma proper_fold: "(\<And>lv. f lv \<noteq> [] \<and> f lv \<noteq> ''0'') \<Longrightarrow> proper m \<Longrightarrow> proper (fold (\<lambda>lv m. AList.update (g lv) (f lv) m) ls m)"
  by (induction ls arbitrary: m) (simp_all add: proper_update)

lemma proper_snap: "proper (snap_side ls)" "proper (levelMap ls)"
  using StringPrec_long[of qtyPrec] StringPrec_long[of sizePrec]
  by (auto simp: snap_side_def levelMap_def qtyPrec_def sizePrec_def intro!: proper_fold)

lemma text_at_iff: "proper m \<Longrightarrow> q \<noteq> [] \<Longrightarrow> text_at m p = q \<longleftrightarrow> map_of m p = Some q"
  by (auto simp: text_at_def split: option.split)

lemma map_of_member: "proper m \<Longrightarrow> (p, q) \<in> set m \<longleftrightarrow> map_of m p = Some q"
  using properD(1)[of m] by (simp add: map_of_eq_Some_iff)

subsection \<open>The levels in which two books differ\<close>

lemma diffSide_member:
  assumes "proper prev" "proper cur"
  shows "(p, q) \<in> set (diffSide prev cur) \<longleftrightarrow>
    (map_of cur p = Some q \<and> map_of prev p \<noteq> Some q) \<or> (map_of cur p = None \<and> map_of prev p \<noteq> None \<and> q = ''0'')"
proof -
  have "(p, q) \<in> set (filter (\<lambda>(p, q). text_at prev p \<noteq> q) cur) \<longleftrightarrow> map_of cur p = Some q \<and> map_of prev p \<noteq> Some q"
    using properD(2)[OF assms(2), of p q] text_at_iff[OF assms(1), of q p] map_of_member[OF assms(2), of p q] by auto
  moreover have "(p, q) \<in> set (map (\<lambda>(p, q). (p, ''0'')) (filter (\<lambda>(p, q). map_of cur p = None) prev)) \<longleftrightarrow>
      q = ''0'' \<and> map_of cur p = None \<and> (\<exists>r. (p, r) \<in> set prev)" by (auto simp: image_iff)
  moreover have "(\<exists>r. (p, r) \<in> set prev) \<longleftrightarrow> map_of prev p \<noteq> None" using map_of_member[OF assms(1), of p] by auto
  ultimately show ?thesis unfolding diffSide_def set_append Un_iff by blast
qed

lemma diffSide_prices:
  assumes "proper prev" "proper cur"
  shows "p \<in> fst ` set (diffSide prev cur) \<longleftrightarrow> map_of prev p \<noteq> map_of cur p"
proof -
  have "p \<in> fst ` set (diffSide prev cur) \<longleftrightarrow> (\<exists>q. (p, q) \<in> set (diffSide prev cur))" by force
  then show ?thesis unfolding diffSide_member[OF assms] by (cases "map_of cur p") auto
qed

lemma diffSide_Nil:
  assumes "proper prev" "proper cur"
  shows "diffSide prev cur = [] \<longleftrightarrow> map_of prev = map_of cur"
proof -
  have "diffSide prev cur = [] \<longleftrightarrow> (\<forall>p. p \<notin> fst ` set (diffSide prev cur))" by auto
  then show ?thesis using diffSide_prices[OF assms] by auto
qed

lemma diffSide_distinct:
  assumes "proper prev" "proper cur"
  shows "distinct (map fst (diffSide prev cur))"
proof -
  let ?new = "filter (\<lambda>(p, q). text_at prev p \<noteq> q) cur" and ?old = "filter (\<lambda>(p, q). map_of cur p = None) prev"
  have keys: "map fst (map (\<lambda>(p, q). (p, ''0'')) m) = map fst m" for m :: level_map by (induction m) auto
  have apart: "fst ` set ?new \<inter> fst ` set ?old = {}"
  proof -
    have "map_of cur p \<noteq> None" if "p \<in> fst ` set ?new" for p
      using that by (auto simp: map_of_eq_None_iff)
    moreover have "map_of cur p = None" if "p \<in> fst ` set ?old" for p using that by auto
    ultimately show ?thesis by blast
  qed
  have "distinct (map fst ?new)" "distinct (map fst ?old)"
    using properD(1)[OF assms(1)] properD(1)[OF assms(2)] by (simp_all add: distinct_map_filter)
  with apart show ?thesis unfolding diffSide_def map_append keys distinct_append set_map by simp
qed

text \<open>The effect of levels with distinct prices does not depend on their order.\<close>

definition level_value :: "string \<Rightarrow> string option" where
  "level_value q = (if q = ''0'' then None else Some q)"

lemma put_levels_at:
  "distinct (map fst us) \<Longrightarrow> put_levels us m p = (case map_of us p of None \<Rightarrow> m p | Some q \<Rightarrow> level_value q)"
proof (induction us arbitrary: m)
  case Nil
  then show ?case by simp
next
  case (Cons u us)
  then have "map_of us (fst u) = None" by (simp add: map_of_eq_None_iff)
  moreover have "put_levels (u # us) m p = put_levels us (put_level u m) p" by (simp add: put_levels_def)
  ultimately show ?case using Cons
    by (cases u) (auto simp: put_level_def level_value_def split: option.split)
qed

lemma put_diff:
  assumes "proper prev" "proper cur" "mset us = mset (diffSide prev cur)"
  shows "put_levels us m p = (if map_of prev p = map_of cur p then m p else map_of cur p)"
proof -
  have same: "set us = set (diffSide prev cur)" using assms(3) by (rule mset_eq_setD)
  have "mset (map fst us) = mset (map fst (diffSide prev cur))" using assms(3) by simp
  then have d: "distinct (map fst us)" using diffSide_distinct[OF assms(1,2)] by (metis mset_eq_imp_distinct_iff)
  show ?thesis
  proof (cases "map_of us p")
    case None
    then have "p \<notin> fst ` set (diffSide prev cur)" using same by (metis map_of_eq_None_iff)
    then show ?thesis using None put_levels_at[OF d] diffSide_prices[OF assms(1,2)] by simp
  next
    case (Some q)
    then have m: "(p, q) \<in> set (diffSide prev cur)" using same by (metis map_of_SomeD)
    then have "map_of prev p \<noteq> map_of cur p" "level_value q = map_of cur p"
      using properD(2)[OF assms(2), of p q] by (auto simp: diffSide_member[OF assms(1,2)] level_value_def)
    then show ?thesis using Some put_levels_at[OF d] by simp
  qed
qed

subsection \<open>The depth stream of Binance\<close>

inductive depth_reached :: "depthDiffer \<Rightarrow> bool" where
  new: "depth_reached Map.empty"
| current: "depth_reached d \<Longrightarrow> depth_reached (snd (depth_current now d sm))"
| diff: "depth_reached d \<Longrightarrow> depth_reached (snd (depth_diff now d sm snap))"

lemma stateLocked_eq:
  "depth_stateLocked now d sm = (st, d') \<Longrightarrow> d' = d(sm \<mapsto> st) \<and> (d sm = Some st \<or> d sm = None \<and> sd_books st = None)"
  by (auto simp: depth_stateLocked_def Let_def split: option.splits)

lemma snapMaps_proper: "snapMaps snap = (b, a) \<Longrightarrow> proper b \<and> proper a"
  by (auto simp: snapMaps_def proper_snap)

lemma reached_proper:
  "depth_reached d \<Longrightarrow> d sm = Some st \<Longrightarrow> sd_books st = Some (b, a) \<Longrightarrow> proper b \<and> proper a"
proof (induction arbitrary: sm st b a rule: depth_reached.induct)
  case new
  then show ?case by simp
next
  case (current d now sm2)
  obtain st2 d2 where s: "depth_stateLocked now d sm2 = (st2, d2)" by fastforce
  have "d sm = Some st"
    using stateLocked_eq[OF s] current.prems s by (auto simp: depth_current_def split: if_splits)
  then show ?case using current by blast
next
  case (diff d now sm2 snap)
  obtain st2 d2 where s: "depth_stateLocked now d sm2 = (st2, d2)" by fastforce
  obtain cb ca where c: "snapMaps snap = (cb, ca)" by fastforce
  have "d sm = Some st \<or> (b, a) = (cb, ca)"
    using stateLocked_eq[OF s] diff.prems s c by (auto simp: depth_diff_def Let_def split: if_splits option.splits prod.splits)
  then show ?case using diff snapMaps_proper[OF c] by blast
qed

text \<open>Pushes of one symbol, at the times and of the snapshots given.\<close>

fun depth_ticks :: "string \<Rightarrow> (int \<times> snapshot) list \<Rightarrow> depthDiffer \<Rightarrow> depth_update list \<times> depthDiffer" where
  "depth_ticks sm [] d = ([], d)"
| "depth_ticks sm ((now, snap) # ts) d =
     (let (u, d) = depth_diff now d sm snap; (us, d) = depth_ticks sm ts d
      in (case u of None \<Rightarrow> us | Some u \<Rightarrow> u # us, d))"

text \<open>A client that knows a book as of update \<open>L\<close>.\<close>

definition depth_client ::
    "int \<Rightarrow> depth_update list \<Rightarrow> (string \<rightharpoonup> string) \<times> (string \<rightharpoonup> string) \<Rightarrow> (string \<rightharpoonup> string) \<times> (string \<rightharpoonup> string)" where
  "depth_client L us book =
     fold (\<lambda>u (b, a). (put_levels (du_Bids u) b, put_levels (du_Asks u) a)) (filter (\<lambda>u. L < sint (du_Final u)) us) book"

text \<open>What is sent, in any order of the levels.\<close>

definition same_update :: "depth_update \<Rightarrow> depth_update \<Rightarrow> bool" where
  "same_update u v \<longleftrightarrow> du_First u = du_First v \<and> du_Final u = du_Final v \<and>
     mset (du_Bids u) = mset (du_Bids v) \<and> mset (du_Asks u) = mset (du_Asks v)"

text \<open>The prices that updates mention.\<close>

definition bid_prices :: "depth_update list \<Rightarrow> string set" where
  "bid_prices us = (\<Union>u\<in>set us. fst ` set (du_Bids u))"

definition ask_prices :: "depth_update list \<Rightarrow> string set" where
  "ask_prices us = (\<Union>u\<in>set us. fst ` set (du_Asks u))"

lemma depth_diff_seeded:
  assumes "d sm = Some st" "sd_books st = Some (pb, pa)" "proper pb" "proper pa" "snapMaps snap = (cb, ca)"
  obtains (quiet) "depth_diff now d sm snap = (None, d)" "map_of pb = map_of cb" "map_of pa = map_of ca"
  | (changed) u where "depth_diff now d sm snap = (Some u, d(sm \<mapsto> \<lparr>sd_lastID = sd_lastID st + 1, sd_books = Some (cb, ca)\<rparr>))"
      "du_Final u = sd_lastID st + 1" "du_Bids u = diffSide pb cb" "du_Asks u = diffSide pa ca"
proof (cases "diffSide pb cb = [] \<and> diffSide pa ca = []")
  case True
  then have "map_of pb = map_of cb" "map_of pa = map_of ca"
    using diffSide_Nil snapMaps_proper[OF assms(5)] assms(3,4) by blast+
  then show thesis using True assms by (intro quiet) (simp_all add: depth_diff_def depth_stateLocked_def Let_def)
next
  case False
  then show thesis using assms
    by (intro changed[of "\<lparr>du_First = sd_lastID st + 1, du_Final = sd_lastID st + 1, du_Bids = diffSide pb cb, du_Asks = diffSide pa ca\<rparr>"])
      (auto simp: depth_diff_def depth_stateLocked_def Let_def)
qed

text \<open>The books of the snapshots pushed after a given one.\<close>

abbreviation pushed_bids :: "level_map \<Rightarrow> (int \<times> snapshot) list \<Rightarrow> level_map" where
  "pushed_bids pb ts \<equiv> last (pb # map (\<lambda>t. fst (snapMaps (snd t))) ts)"

abbreviation pushed_asks :: "level_map \<Rightarrow> (int \<times> snapshot) list \<Rightarrow> level_map" where
  "pushed_asks pa ts \<equiv> last (pa # map (\<lambda>t. snd (snapMaps (snd t))) ts)"

text \<open>After the pushes a client has the book of the differ at the prices that were mentioned, and its own elsewhere,
  where the book of the differ has not changed.\<close>

lemma ticks_view:
  assumes "d sm = Some st" "sd_books st = Some (pb, pa)" "proper pb" "proper pa"
    "0 \<le> L" "L \<le> sint (sd_lastID st)" "sint (sd_lastID st) + int (length ts) < 2 ^ 63"
    "depth_ticks sm ts d = (us, d')" "list_all2 same_update vs us"
  shows "\<exists>st' cb ca. d' sm = Some st' \<and> sd_books st' = Some (cb, ca) \<and> proper cb \<and> proper ca \<and>
    map_of cb = map_of (pushed_bids pb ts) \<and> map_of ca = map_of (pushed_asks pa ts) \<and>
    (\<forall>p. fst (depth_client L vs (b, a)) p = (if p \<in> bid_prices us then map_of cb p else b p)) \<and>
    (\<forall>p. snd (depth_client L vs (b, a)) p = (if p \<in> ask_prices us then map_of ca p else a p)) \<and>
    (\<forall>p. p \<notin> bid_prices us \<longrightarrow> map_of cb p = map_of pb p) \<and> (\<forall>p. p \<notin> ask_prices us \<longrightarrow> map_of ca p = map_of pa p)"
  using assms
proof (induction ts arbitrary: d st pb pa us vs b a)
  case Nil
  then show ?case by (auto simp: depth_client_def bid_prices_def ask_prices_def)
next
  case (Cons t ts)
  obtain now snap where t: "t = (now, snap)" by fastforce
  obtain cb ca where c: "snapMaps snap = (cb, ca)" by fastforce
  note pr = snapMaps_proper[OF c]
  from Cons.prems(1-4) c show ?case
  proof (cases rule: depth_diff_seeded[of d sm st pb pa snap cb ca now])
    case quiet
    then have same: "depth_ticks sm ts d = (us, d')" using Cons.prems(8) t by (auto simp: Let_def split: prod.splits)
    have "map_of (pushed_bids pb (t # ts)) = map_of (pushed_bids pb ts)" "map_of (pushed_asks pa (t # ts)) = map_of (pushed_asks pa ts)"
      using quiet(2,3) t c by simp_all
    then show ?thesis using Cons.IH[OF Cons.prems(1-6) _ same Cons.prems(9)] Cons.prems(7) by simp
  next
    case (changed u)
    let ?st = "\<lparr>sd_lastID = sd_lastID st + 1, sd_books = Some (cb, ca)\<rparr>"
    obtain us1 where us: "depth_ticks sm ts (d(sm \<mapsto> ?st)) = (us1, d')" "us = u # us1"
      using Cons.prems(8) t changed(1) by (auto simp: Let_def split: prod.splits)
    from Cons.prems(9) us(2) obtain v vs1 where vs: "vs = v # vs1" "same_update v u" "list_all2 same_update vs1 us1"
      by (auto simp: list_all2_Cons2)
    have next_id: "sint (sd_lastID st + 1) = sint (sd_lastID st) + 1"
      using Cons.prems(5-7) by (intro next_seq) auto
    let ?b = "put_levels (du_Bids v) b" and ?a = "put_levels (du_Asks v) a"
    from Cons.IH[of "d(sm \<mapsto> ?st)" ?st cb ca us1 vs1 ?b ?a, OF _ _ _ _ _ _ _ us(1) vs(3)] pr next_id Cons.prems(5-7)
    obtain st' fb fa where f: "d' sm = Some st'" "sd_books st' = Some (fb, fa)" "proper fb" "proper fa"
      "map_of fb = map_of (pushed_bids cb ts)" "map_of fa = map_of (pushed_asks ca ts)"
      "\<And>p. fst (depth_client L vs1 (?b, ?a)) p = (if p \<in> bid_prices us1 then map_of fb p else ?b p)"
      "\<And>p. snd (depth_client L vs1 (?b, ?a)) p = (if p \<in> ask_prices us1 then map_of fa p else ?a p)"
      "\<And>p. p \<notin> bid_prices us1 \<Longrightarrow> map_of fb p = map_of cb p" "\<And>p. p \<notin> ask_prices us1 \<Longrightarrow> map_of fa p = map_of ca p"
      by auto
    have client: "depth_client L vs (b, a) = depth_client L vs1 (?b, ?a)"
      using vs(1,2) changed(2) next_id Cons.prems(6) by (simp add: depth_client_def same_update_def)
    have put: "?b p = (if p \<in> fst ` set (du_Bids u) then map_of cb p else b p)"
      "?a p = (if p \<in> fst ` set (du_Asks u) then map_of ca p else a p)" for p
      using put_diff[of pb cb "du_Bids v" b p] put_diff[of pa ca "du_Asks v" a p] vs(2) changed(3,4) pr Cons.prems(3,4)
      by (auto simp: same_update_def diffSide_prices)
    have prices: "p \<in> bid_prices us \<longleftrightarrow> p \<in> fst ` set (du_Bids u) \<or> p \<in> bid_prices us1"
      "p \<in> ask_prices us \<longleftrightarrow> p \<in> fst ` set (du_Asks u) \<or> p \<in> ask_prices us1" for p
      by (auto simp: bid_prices_def ask_prices_def us(2))
    have kept: "p \<notin> fst ` set (du_Bids u) \<Longrightarrow> map_of cb p = map_of pb p" "p \<notin> fst ` set (du_Asks u) \<Longrightarrow> map_of ca p = map_of pa p" for p
      using diffSide_prices[of pb cb p] diffSide_prices[of pa ca p] changed(3,4) pr Cons.prems(3,4) by auto
    have "map_of fb = map_of (pushed_bids pb (t # ts))" "map_of fa = map_of (pushed_asks pa (t # ts))"
      using f(5,6) t c by simp_all
    then show ?thesis unfolding client prices using f(1-4,7-10) put kept by (intro exI[of _ st'] exI[of _ fb] exI[of _ fa]) auto
  qed
qed

text \<open>The first book of the differ: the one it has, or the one of the first push, which sends nothing.\<close>

definition depth_base :: "symbolDepth \<Rightarrow> (int \<times> snapshot) list \<Rightarrow> level_map \<times> level_map" where
  "depth_base st ts = (case sd_books st of Some bk \<Rightarrow> bk | None \<Rightarrow> snapMaps (snd (hd ts)))"

text \<open>C27: A client that starts from a depth snapshot of its own and applies the updates numbered after it, in whatever
  order the levels of an update come, holds the book of the last push if and only if its snapshot agreed with the
  first book of the differ at every price that no update mentioned.\<close>

theorem depth_client_in_sync:
  assumes "depth_reached d" "d sm = Some st" "ts \<noteq> []" "depth_ticks sm ts d = (us, d')" "list_all2 same_update vs us"
    "0 \<le> L" "L \<le> sint (sd_lastID st)" "sint (sd_lastID st) + int (length ts) < 2 ^ 63"
  shows "(fst (depth_client L vs (b, a)) = map_of (fst (snapMaps (snd (last ts)))) \<longleftrightarrow>
      (\<forall>p. p \<notin> bid_prices us \<longrightarrow> b p = map_of (fst (depth_base st ts)) p)) \<and>
    (snd (depth_client L vs (b, a)) = map_of (snd (snapMaps (snd (last ts)))) \<longleftrightarrow>
      (\<forall>p. p \<notin> ask_prices us \<longrightarrow> a p = map_of (snd (depth_base st ts)) p))"
proof -
  obtain pb pa where base: "depth_base st ts = (pb, pa)" by fastforce
  from assms(3) have last: "last (pb # map (\<lambda>t. fst (snapMaps (snd t))) ts) = fst (snapMaps (snd (last ts)))"
    "last (pa # map (\<lambda>t. snd (snapMaps (snd t))) ts) = snd (snapMaps (snd (last ts)))" by (simp_all add: last_map)
  obtain cb ca where v: "map_of cb = map_of (fst (snapMaps (snd (last ts))))" "map_of ca = map_of (snd (snapMaps (snd (last ts))))"
    "\<And>p. fst (depth_client L vs (b, a)) p = (if p \<in> bid_prices us then map_of cb p else b p)"
    "\<And>p. snd (depth_client L vs (b, a)) p = (if p \<in> ask_prices us then map_of ca p else a p)"
    "\<And>p. p \<notin> bid_prices us \<Longrightarrow> map_of cb p = map_of pb p" "\<And>p. p \<notin> ask_prices us \<Longrightarrow> map_of ca p = map_of pa p"
  proof (cases "sd_books st")
    case (Some bk)
    then have bk: "sd_books st = Some (pb, pa)" using base by (simp add: depth_base_def)
    with reached_proper[OF assms(1,2) bk] ticks_view[OF assms(2) bk _ _ assms(6-8) assms(4,5), of b a] last
    show thesis by (auto intro!: that)
  next
    case None
    obtain now snap rest where ts: "ts = (now, snap) # rest" using assms(3) by (metis list.exhaust surj_pair)
    let ?st = "st\<lparr>sd_books := Some (pb, pa)\<rparr>"
    have snap: "snapMaps snap = (pb, pa)" using base None ts by (simp add: depth_base_def)
    then have "depth_ticks sm rest (d(sm \<mapsto> ?st)) = (us, d')"
      using assms(2,4) None ts by (auto simp: depth_diff_def depth_stateLocked_def Let_def split: prod.splits)
    from ticks_view[OF _ _ _ _ assms(6) _ _ this assms(5), of ?st pb pa b a] snapMaps_proper[OF snap] assms(7,8) ts snap last
    show thesis by (auto intro!: that)
  qed
  show ?thesis unfolding fun_eq_iff base using v by auto
qed

text \<open>A client whose snapshot, numbered 1000, has a bid that is gone at the first push, and an ask that comes with the
  second one.\<close>

definition ex_depth :: depthDiffer where
  "ex_depth = snd (depth_current 1000 Map.empty ''BTC-USD'')"

definition ex_pushed :: "level list \<Rightarrow> snapshot" where
  "ex_pushed asks = \<lparr>sn_Instrument = ''BTC-USD'', sn_Bids = [], sn_Asks = asks, sn_LastTrade = None,
     sn_BestBid = Zero, sn_BestAsk = Zero\<rparr>"

definition ex_level :: level where
  "ex_level = \<lparr>lv_Price = Decimal 0 100, lv_Volume = Decimal 0 5\<rparr>"

theorem depth_client_in_sync_witness:
  "\<exists>us d. depth_ticks ''BTC-USD'' [(1001, ex_pushed []), (1002, ex_pushed [ex_level])] ex_depth = (us, d) \<and>
    fst (depth_client 1000 us ([''99.00'' \<mapsto> ''1''], Map.empty)) \<noteq> map_of (fst (snapMaps (ex_pushed [ex_level]))) \<and>
    snd (depth_client 1000 us ([''99.00'' \<mapsto> ''1''], Map.empty)) = map_of (snd (snapMaps (ex_pushed [ex_level])))"
proof -
  let ?sm = "''BTC-USD''" and ?st = "\<lparr>sd_lastID = word_of_int 1000, sd_books = None\<rparr>"
  let ?ts = "[(1001, ex_pushed []), (1002, ex_pushed [ex_level])]"
  let ?ask = "(StringPrec (Decimal 0 100) pricePrec, StringPrec (Decimal 0 5) qtyPrec)"
  let ?us = "[\<lparr>du_First = 1001, du_Final = 1001, du_Bids = [], du_Asks = [?ask]\<rparr>]"
  have d: "ex_depth = [?sm \<mapsto> ?st]" by (simp add: ex_depth_def depth_current_def depth_stateLocked_def Let_def)
  have reached: "depth_reached ex_depth" unfolding ex_depth_def by (intro depth_reached.intros)
  have snaps: "snapMaps (ex_pushed []) = ([], [])" "snapMaps (ex_pushed [ex_level]) = ([], [?ask])"
    by (simp_all add: snapMaps_def snap_side_def ex_pushed_def ex_level_def)
  have "snd ?ask \<noteq> []" using StringPrec_long[of qtyPrec] by (simp add: qtyPrec_def)
  then obtain d' where run: "depth_ticks ?sm ?ts ex_depth = (?us, d')"
    by (simp add: depth_diff_def depth_stateLocked_def d snaps diffSide_def text_at_def)
  have upd: "list_all2 same_update ?us ?us" by (simp add: same_update_def)
  have at: "ex_depth ?sm = Some ?st" "?ts \<noteq> []" unfolding d by simp_all
  have bounds: "(0::int) \<le> 1000" "1000 \<le> sint (sd_lastID ?st)" "sint (sd_lastID ?st) + int (length ?ts) < 2 ^ 63"
    by simp_all
  have "\<not> (\<forall>p. p \<notin> bid_prices ?us \<longrightarrow> [''99.00'' \<mapsto> ''1''] p = map_of (fst (depth_base ?st ?ts)) p)"
    "\<forall>p. p \<notin> ask_prices ?us \<longrightarrow> Map.empty p = map_of (snd (depth_base ?st ?ts)) p"
    by (auto simp: bid_prices_def depth_base_def snaps)
  with depth_client_in_sync[OF reached at run upd bounds, of "[''99.00'' \<mapsto> ''1'']" Map.empty]
  have "fst (depth_client 1000 ?us ([''99.00'' \<mapsto> ''1''], Map.empty)) \<noteq> map_of (fst (snapMaps (ex_pushed [ex_level])))"
    "snd (depth_client 1000 ?us ([''99.00'' \<mapsto> ''1''], Map.empty)) = map_of (snd (snapMaps (ex_pushed [ex_level])))"
    by (simp_all only: list.sel last.simps snd_conv list.simps if_True if_False refl simp_thms)
  with run show ?thesis by blast
qed

end
