(* ===== verification/CoinbaseStreamsProofs.thy ===== *)
theory CoinbaseStreamsProofs
  imports CoinbaseStreams LevelDiffProofs Matching
begin

text \<open>
  The level2 channel of the Coinbase edge as a machine of many connections: whatever they do and in whatever
  order, every subscriber that is connected has been sent exactly the book that the differ keeps, which after
  a push is the book of the engine.
\<close>

subsection \<open>The hub\<close>

lemma entry_update: "entry (AList.update k v m) k' = (if k' = k then v else entry m k')"
  by (simp add: entry_def update_conv')

lemma market_conns_subscribe:
  "market_conns (subscribeMarket c ch p b) ch' p' =
     (if ch' = ch \<and> p' = p then add_conn c (market_conns b ch p) else market_conns b ch' p')"
  by (simp add: market_conns_def subscribeMarket_def Let_def entry_update)

lemma entry_delete: "entry (AList.delete k m) k' = (if k' = k then [] else entry m k')"
  by (simp add: entry_def delete_conv')

lemma market_conns_unsubscribe:
  "market_conns (unsubscribeMarket c ch p b) ch' p' =
     (if ch' = ch \<and> p' = p then removeAll c (market_conns b ch p) else market_conns b ch' p')"
proof (cases "map_of (bc_market b) ch")
  case None
  then show ?thesis by (simp add: unsubscribeMarket_def market_conns_def entry_def)
next
  case (Some byP)
  then have e: "entry (bc_market b) ch = byP" by (simp add: entry_def)
  show ?thesis
  proof (cases "map_of byP p")
    case None
    then have "market_conns b ch p = []" by (simp add: market_conns_def e) (simp add: entry_def)
    then show ?thesis using Some None by (simp add: unsubscribeMarket_def)
  next
    case (Some cs)
    then have "entry byP p = cs" by (simp add: entry_def)
    then show ?thesis using Some \<open>map_of (bc_market b) ch = Some byP\<close> e
      by (auto simp: unsubscribeMarket_def market_conns_def Let_def entry_update entry_delete)
  qed
qed

text \<open>The keys of both levels are distinct.\<close>

definition hub_ok :: "broadcaster \<Rightarrow> bool" where
  "hub_ok b \<longleftrightarrow> distinct (map fst (bc_market b)) \<and> (\<forall>x\<in>set (bc_market b). distinct (map fst (snd x)))"

lemma hub_okI:
  "distinct (map fst (bc_market b)) \<Longrightarrow> (\<And>x. x \<in> set (bc_market b) \<Longrightarrow> distinct (map fst (snd x))) \<Longrightarrow> hub_ok b"
  by (simp add: hub_ok_def)

lemma hub_okD:
  "hub_ok b \<Longrightarrow> distinct (map fst (bc_market b))" "hub_ok b \<Longrightarrow> x \<in> set (bc_market b) \<Longrightarrow> distinct (map fst (snd x))"
  by (simp_all add: hub_ok_def)

lemma hub_ok_entry: "hub_ok b \<Longrightarrow> distinct (map fst (entry (bc_market b) ch))"
  by (auto simp: entry_def split: option.split dest!: map_of_SomeD hub_okD(2))

lemma set_update_cases: "x \<in> set (AList.update k v al) \<Longrightarrow> x = (k, v) \<or> x \<in> set al"
  by (induction al) (auto split: if_splits)

lemma hub_ok_put:
  assumes "hub_ok b" "distinct (map fst v)"
  shows "hub_ok (b\<lparr>bc_market := AList.update ch v (bc_market b)\<rparr>)"
proof (rule hub_okI)
  show "distinct (map fst (bc_market (b\<lparr>bc_market := AList.update ch v (bc_market b)\<rparr>)))"
    using hub_okD(1)[OF assms(1)] by (simp add: distinct_update)
  fix x assume "x \<in> set (bc_market (b\<lparr>bc_market := AList.update ch v (bc_market b)\<rparr>))"
  then have "x = (ch, v) \<or> x \<in> set (bc_market b)" by (simp add: set_update_cases)
  then show "distinct (map fst (snd x))" using assms hub_okD(2)[OF assms(1), of x] by auto
qed

lemma hub_ok_subscribe: "hub_ok b \<Longrightarrow> hub_ok (subscribeMarket c ch p b)"
  by (simp add: subscribeMarket_def Let_def hub_ok_put distinct_update hub_ok_entry)

lemma hub_ok_unsubscribe: "hub_ok b \<Longrightarrow> hub_ok (unsubscribeMarket c ch p b)"
  using hub_ok_entry[of b ch]
  by (auto simp: unsubscribeMarket_def Let_def entry_def hub_ok_put distinct_update distinct_delete split: option.splits)

lemma map_fst_pair: "map fst (map (\<lambda>(k, v). (k, f v)) m) = map fst m"
  by (induction m) auto

lemma hub_ok_remove:
  assumes "hub_ok b"
  shows "hub_ok (remove_conn c b)"
proof (rule hub_okI)
  let ?f = "\<lambda>byP. filter (\<lambda>(p, cs). cs \<noteq> []) (map (\<lambda>(p, cs). (p, removeAll c cs)) byP)"
  have eq: "bc_market (remove_conn c b) = map (\<lambda>(ch, m). (ch, ?f m)) (bc_market b)" by (simp add: remove_conn_def)
  show "distinct (map fst (bc_market (remove_conn c b)))" unfolding eq map_fst_pair using hub_okD(1)[OF assms] .
  fix x assume "x \<in> set (bc_market (remove_conn c b))"
  then obtain ch m where x: "(ch, m) \<in> set (bc_market b)" "x = (ch, ?f m)" unfolding eq by auto
  have "distinct (map fst (?f m))"
    by (rule distinct_map_filter, unfold map_fst_pair) (use hub_okD(2)[OF assms x(1)] in simp)
  then show "distinct (map fst (snd x))" using x(2) by simp
qed

lemma map_of_map_pair: "map_of (map (\<lambda>(k, v). (k, f v)) m) k = map_option f (map_of m k)"
  by (induction m) auto

lemma map_of_filter_value:
  "distinct (map fst m) \<Longrightarrow> map_of (filter (\<lambda>(k, v). P v) m) k = (case map_of m k of Some v \<Rightarrow> if P v then Some v else None | None \<Rightarrow> None)"
  by (induction m) (auto split: option.splits simp: map_of_eq_None_iff image_iff)

lemma market_conns_remove:
  assumes "hub_ok b"
  shows "market_conns (remove_conn c b) ch p = removeAll c (market_conns b ch p)"
proof (cases "map_of (bc_market b) ch")
  case None
  then show ?thesis by (simp add: market_conns_def remove_conn_def entry_def map_of_map_pair)
next
  case (Some m)
  let ?m = "map (\<lambda>(p, cs). (p, removeAll c cs)) m"
  have "map fst ?m = map fst m" by (rule map_fst_pair)
  then have d: "distinct (map fst ?m)" using hub_ok_entry[OF assms, of ch] Some by (simp add: entry_def del: map_map)
  have "market_conns (remove_conn c b) ch p = entry (filter (\<lambda>(p, cs). cs \<noteq> []) ?m) p"
    using Some by (simp add: market_conns_def remove_conn_def entry_def[of _ ch] map_of_map_pair)
  then show ?thesis using Some by (auto simp: market_conns_def entry_def map_of_filter_value[OF d] map_of_map_pair split: option.splits)
qed

subsection \<open>What a connection is sent\<close>

text \<open>The frames of a connection: those on the socket and those in the buffer.\<close>

definition frames_of :: "wsConn \<Rightarrow> cb_frame list" where
  "frames_of x = wc_sent x @ wc_out x"

definition l2_levels :: "string \<Rightarrow> l2Update list \<Rightarrow> (string \<times> string) list" where
  "l2_levels side us = map (\<lambda>u. (l2_PriceLevel u, l2_NewQuantity u)) (filter (\<lambda>u. l2_Side u = side) us)"

text \<open>What a client makes of a frame and of all frames: its bids and asks of a product. A snapshot starts afresh.\<close>

fun see_frame :: "string \<Rightarrow> cb_frame \<Rightarrow> (string \<rightharpoonup> string) \<times> (string \<rightharpoonup> string) \<Rightarrow> (string \<rightharpoonup> string) \<times> (string \<rightharpoonup> string)" where
  "see_frame p (Envelope ch ts n (L2Event kind product us)) ba =
     (if product \<noteq> p then ba
      else let (b, a) = (if kind = ''snapshot'' then (Map.empty, Map.empty) else ba)
           in (put_levels (l2_levels ''bid'' us) b, put_levels (l2_levels ''offer'' us) a))"
| "see_frame p _ ba = ba"

definition level2_view :: "string \<Rightarrow> cb_frame list \<Rightarrow> (string \<rightharpoonup> string) \<times> (string \<rightharpoonup> string)" where
  "level2_view p fs = fold (see_frame p) fs (Map.empty, Map.empty)"

lemma view_snoc: "level2_view p (fs @ [f]) = see_frame p f (level2_view p fs)"
  by (simp add: level2_view_def)

text \<open>A frame that says nothing of a product.\<close>

fun silent :: "string \<Rightarrow> cb_frame \<Rightarrow> bool" where
  "silent p (Envelope ch ts n (L2Event kind product us)) \<longleftrightarrow> product \<noteq> p"
| "silent p _ \<longleftrightarrow> True"

lemma silent_frame: "silent p f \<Longrightarrow> see_frame p f ba = ba"
  by (induction p f rule: silent.induct) auto

lemma l2_levels_map:
  "l2_levels side (map (\<lambda>(p, q). \<lparr>l2_Side = side', l2_EventTime = ts, l2_PriceLevel = p, l2_NewQuantity = q\<rparr>) m) =
     (if side' = side then m else [])"
  by (induction m) (auto simp: l2_levels_def)

lemma l2_levels_append: "l2_levels side (us @ vs) = l2_levels side us @ l2_levels side vs"
  by (simp add: l2_levels_def)

lemma diffSideL2_eq:
  "diffSideL2 dst prev cur side ts =
     dst @ map (\<lambda>(p, q). \<lparr>l2_Side = side, l2_EventTime = ts, l2_PriceLevel = p, l2_NewQuantity = q\<rparr>) (diffSide prev cur)"
  by (simp add: diffSideL2_def diffSide_def Let_def split_beta)

lemma l2_levels_diff:
  "l2_levels ''bid'' (diffSideL2 (diffSideL2 [] pb cb ''bid'' ts) pa ca ''offer'' ts) = diffSide pb cb"
  "l2_levels ''offer'' (diffSideL2 (diffSideL2 [] pb cb ''bid'' ts) pa ca ''offer'' ts) = diffSide pa ca"
  by (simp_all add: diffSideL2_eq l2_levels_append l2_levels_map)

lemma l2_levels_snapshot:
  "l2_levels ''bid'' (mapUpdates (mapUpdates [] mb ''bid'' ts) ma ''offer'' ts) = mb"
  "l2_levels ''offer'' (mapUpdates (mapUpdates [] mb ''bid'' ts) ma ''offer'' ts) = ma"
  by (simp_all add: mapUpdates_def l2_levels_append l2_levels_map)

lemma put_whole: "proper m \<Longrightarrow> put_levels m Map.empty = map_of m"
proof
  fix p assume pr: "proper m"
  show "put_levels m Map.empty p = map_of m p"
    using properD(2)[OF pr, of p] put_levels_at[OF properD(1)[OF pr]] by (auto simp: level_value_def split: option.split)
qed

lemma put_changes: "proper prev \<Longrightarrow> proper cur \<Longrightarrow> put_levels (diffSide prev cur) (map_of prev) = map_of cur"
  by (auto simp: fun_eq_iff put_diff[OF _ _ refl])

subsection \<open>A publication\<close>

definition conn :: "cb_streams \<Rightarrow> nat \<Rightarrow> wsConn" where
  "conn s c = sv_conns s ! c"

lemma conn_upd: "c < length (sv_conns s) \<Longrightarrow> conn (upd_conn c f s) i = (if i = c then f (conn s c) else conn s i)"
  by (simp add: conn_def upd_conn_def)

lemma upd_conn_frame [simp]:
  "sv_products (upd_conn c f s) = sv_products s" "sv_broadcaster (upd_conn c f s) = sv_broadcaster s"
  "sv_differ (upd_conn c f s) = sv_differ s" "length (sv_conns (upd_conn c f s)) = length (sv_conns s)"
  by (simp_all add: upd_conn_def)

text \<open>What happens to a connection: nothing that its client sees, or one more frame.\<close>

definition quiet :: "wsConn \<Rightarrow> wsConn \<Rightarrow> bool" where
  "quiet x x' \<longleftrightarrow> frames_of x' = frames_of x \<and> (wc_closed x \<longrightarrow> wc_closed x') \<and> length (wc_out x') \<le> length (wc_out x)"

definition got :: "cb_frame \<Rightarrow> wsConn \<Rightarrow> wsConn \<Rightarrow> bool" where
  "got f x x' \<longleftrightarrow> \<not> wc_closed x \<and> \<not> wc_closed x' \<and> frames_of x' = frames_of x @ [f] \<and> length (wc_out x') \<le> sendBuffer"

lemma quiet_refl [simp]: "quiet x x"
  by (simp add: quiet_def)

lemma conn_trySend_cases:
  assumes "conn_trySend f x = (ok, x')"
  shows "(ok \<longrightarrow> got f x x') \<and> (\<not> ok \<longrightarrow> x' = x)"
  using assms by (auto simp: conn_trySend_def got_def frames_of_def split: if_splits)

lemma framed_send:
  assumes "frame ts ch ev c s = (f, s1)" "trySend c f s1 = (ok, s2)" "c < length (sv_conns s)"
  shows "f = Envelope ch ts (wc_seq (conn s c) + 1) ev \<and> (\<forall>i. i \<noteq> c \<longrightarrow> conn s2 i = conn s i) \<and>
    (if ok then got f (conn s c) (conn s2 c) else quiet (conn s c) (conn s2 c)) \<and>
    sv_products s2 = sv_products s \<and> sv_broadcaster s2 = sv_broadcaster s \<and> sv_differ s2 = sv_differ s \<and>
    length (sv_conns s2) = length (sv_conns s)"
proof -
  let ?x = "snd (nextSeq (conn s c))"
  have f: "f = Envelope ch ts (wc_seq (conn s c) + 1) ev" "s1 = upd_conn c (\<lambda>_. ?x) s"
    using assms(1) by (auto simp: frame_def nextSeq_def conn_def)
  have x: "conn s1 c = ?x" using f(2) conn_upd[OF assms(3)] by simp
  obtain ok' x' where t: "conn_trySend f ?x = (ok', x')" by fastforce
  then have s2: "ok' = ok" "s2 = upd_conn c (\<lambda>_. x') s1" using assms(2) x by (auto simp: trySend_def conn_def)
  have len: "c < length (sv_conns s1)" using assms(3) f(2) by simp
  have "conn s2 i = (if i = c then x' else conn s i)" for i
    using s2(2) conn_upd[OF len] f(2) conn_upd[OF assms(3)] by simp
  moreover have "quiet (conn s c) ?x" "got f ?x x' \<Longrightarrow> got f (conn s c) x'"
    by (simp_all add: quiet_def got_def frames_of_def nextSeq_def)
  ultimately show ?thesis using conn_trySend_cases[OF t] s2 f by auto
qed

text \<open>Everything but the connections is the same.\<close>

definition same_server :: "cb_streams \<Rightarrow> cb_streams \<Rightarrow> bool" where
  "same_server s s' \<longleftrightarrow> sv_products s' = sv_products s \<and> sv_broadcaster s' = sv_broadcaster s \<and>
     sv_differ s' = sv_differ s \<and> length (sv_conns s') = length (sv_conns s)"

lemma same_server_trans: "same_server s s1 \<Longrightarrow> same_server s1 s2 \<Longrightarrow> same_server s s2"
  by (simp add: same_server_def)

text \<open>An event on a channel for some connections: each of them gets its frame or is closed, the others are as before.\<close>

definition fanned :: "string \<Rightarrow> string \<Rightarrow> cb_event \<Rightarrow> nat list \<Rightarrow> nat set \<Rightarrow> cb_streams \<Rightarrow> cb_streams \<Rightarrow> bool" where
  "fanned ts ch ev cs dead s s' \<longleftrightarrow> same_server s s' \<and> dead \<subseteq> set cs \<and>
     (\<forall>i. if i \<in> set cs - dead then got (Envelope ch ts (wc_seq (conn s i) + 1) ev) (conn s i) (conn s' i)
          else quiet (conn s i) (conn s' i) \<and> (i \<notin> set cs \<longrightarrow> conn s' i = conn s i))"

lemma publish_each_fanned:
  assumes "distinct cs" "\<forall>c\<in>set cs. c < length (sv_conns s)" "publish_each (frame ts ch ev) cs s = (dead, s')"
  shows "fanned ts ch ev cs (set dead) s s'"
  using assms
proof (induction cs arbitrary: s dead s')
  case Nil
  then show ?case by (simp add: fanned_def same_server_def)
next
  case (Cons c cs)
  obtain f s1 where f: "frame ts ch ev c s = (f, s1)" by fastforce
  obtain ok s2 where t: "trySend c f s1 = (ok, s2)" by fastforce
  obtain dead2 where d: "publish_each (frame ts ch ev) cs s2 = (dead2, s')" "dead = (if ok then dead2 else c # dead2)"
    using Cons.prems(3) f t by (auto split: prod.splits)
  note one = framed_send[OF f t] Cons.prems(2)
  then have sent: "f = Envelope ch ts (wc_seq (conn s c) + 1) ev" "\<And>i. i \<noteq> c \<Longrightarrow> conn s2 i = conn s i"
    "if ok then got f (conn s c) (conn s2 c) else quiet (conn s c) (conn s2 c)" "same_server s s2"
    by (auto simp: same_server_def split: if_splits)
  have "fanned ts ch ev cs (set dead2) s2 s'"
    using Cons.prems(1,2) sent(4) by (intro Cons.IH[OF _ _ d(1)]) (simp_all add: same_server_def)
  then have rest: "same_server s2 s'" "set dead2 \<subseteq> set cs"
    "\<And>i. if i \<in> set cs - set dead2 then got (Envelope ch ts (wc_seq (conn s2 i) + 1) ev) (conn s2 i) (conn s' i)
      else quiet (conn s2 i) (conn s' i) \<and> (i \<notin> set cs \<longrightarrow> conn s' i = conn s2 i)"
    unfolding fanned_def by blast+
  have "conn s' c = conn s2 c" using rest(3)[of c] Cons.prems(1) by simp
  then have "if ok then got f (conn s c) (conn s' c) else quiet (conn s c) (conn s' c)"
    using sent(3) by simp
  then have "if i \<in> set (c # cs) - set dead then got (Envelope ch ts (wc_seq (conn s i) + 1) ev) (conn s i) (conn s' i)
      else quiet (conn s i) (conn s' i) \<and> (i \<notin> set (c # cs) \<longrightarrow> conn s' i = conn s i)" for i
    using rest(3)[of i] sent(1,2) d(2) Cons.prems(1) rest(2) by (cases "i = c") (auto split: if_splits)
  then show ?case using same_server_trans[OF sent(4) rest(1)] rest(2) d(2) unfolding fanned_def by auto
qed

lemma dropAll_effect:
  "\<forall>c\<in>set dead. c < length (sv_conns s) \<Longrightarrow> same_server s (dropAll dead s) \<and>
    (\<forall>i. conn (dropAll dead s) i = (if i \<in> set dead then conn_close (conn s i) else conn s i))"
proof (induction dead arbitrary: s)
  case Nil
  then show ?case by (simp add: dropAll_def same_server_def)
next
  case (Cons c dead)
  let ?s = "upd_conn c conn_close s"
  have "\<forall>c\<in>set dead. c < length (sv_conns ?s)" using Cons.prems by simp
  from Cons.IH[OF this] show ?case using Cons.prems conn_upd[of c s conn_close]
    by (auto simp: dropAll_def same_server_def conn_close_def)
qed

text \<open>A publication: whoever does not get the frame is closed.\<close>

definition told :: "string \<Rightarrow> string \<Rightarrow> cb_event \<Rightarrow> nat list \<Rightarrow> cb_streams \<Rightarrow> cb_streams \<Rightarrow> bool" where
  "told ts ch ev cs s s' \<longleftrightarrow> same_server s s' \<and>
     (\<forall>i. (\<exists>n. i \<in> set cs \<and> got (Envelope ch ts n ev) (conn s i) (conn s' i)) \<or>
          (quiet (conn s i) (conn s' i) \<and> (i \<in> set cs \<longrightarrow> wc_closed (conn s' i))))"

lemma fanned_told:
  assumes "fanned ts ch ev cs (set dead) s s1" "\<forall>c\<in>set cs. c < length (sv_conns s)"
  shows "told ts ch ev cs s (dropAll dead s1)"
proof -
  have "\<forall>c\<in>set dead. c < length (sv_conns s1)" using assms unfolding fanned_def same_server_def by auto
  from dropAll_effect[OF this] have d: "same_server s1 (dropAll dead s1)"
    "\<And>i. conn (dropAll dead s1) i = (if i \<in> set dead then conn_close (conn s1 i) else conn s1 i)" by blast+
  have f: "same_server s s1" "set dead \<subseteq> set cs"
    "\<And>i. if i \<in> set cs - set dead then got (Envelope ch ts (wc_seq (conn s i) + 1) ev) (conn s i) (conn s1 i)
      else quiet (conn s i) (conn s1 i) \<and> (i \<notin> set cs \<longrightarrow> conn s1 i = conn s i)"
    using assms(1) unfolding fanned_def by blast+
  have "quiet x y \<Longrightarrow> quiet x (conn_close y) \<and> wc_closed (conn_close y)" for x y
    by (simp add: quiet_def conn_close_def frames_of_def)
  then have "(\<exists>n. i \<in> set cs \<and> got (Envelope ch ts n ev) (conn s i) (conn (dropAll dead s1) i)) \<or>
      (quiet (conn s i) (conn (dropAll dead s1) i) \<and> (i \<in> set cs \<longrightarrow> wc_closed (conn (dropAll dead s1) i)))" for i
    using f(2) f(3)[of i] d(2)[of i] by (auto split: if_splits)
  then show ?thesis using same_server_trans[OF f(1) d(1)] unfolding told_def by blast
qed

lemma publishMarket_told:
  assumes "distinct (market_conns (sv_broadcaster s) channel product)"
    "\<forall>c\<in>set (market_conns (sv_broadcaster s) channel product). c < length (sv_conns s)"
  shows "told ts ch ev (market_conns (sv_broadcaster s) channel product) s (publishMarket channel product (frame ts ch ev) s)"
  using fanned_told[OF publish_each_fanned[OF assms]] assms(2) by (simp add: publishMarket_def split: prod.split)

lemma publishUser_told:
  assumes "distinct (bc_user (sv_broadcaster s))" "\<forall>c\<in>set (bc_user (sv_broadcaster s)). c < length (sv_conns s)"
  shows "told ts ch ev (bc_user (sv_broadcaster s)) s (publishUser (frame ts ch ev) s)"
  using fanned_told[OF publish_each_fanned[OF assms]] assms(2) by (simp add: publishUser_def split: prod.split)

subsection \<open>The invariant\<close>

definition in_sync :: "cb_streams \<Rightarrow> nat \<Rightarrow> string \<Rightarrow> bool" where
  "in_sync s c p \<longleftrightarrow> (\<exists>b. sv_differ s p = Some b \<and>
     level2_view p (frames_of (conn s c)) = (map_of (lb_bids b), map_of (lb_asks b)))"

definition watches :: "cb_streams \<Rightarrow> nat \<Rightarrow> string \<Rightarrow> bool" where
  "watches s c p \<longleftrightarrow> c \<in> set (market_conns (sv_broadcaster s) chanLevel2 p) \<and> \<not> wc_closed (conn s c)"

text \<open>The lists of the hub are sets of connections.\<close>

definition hub_lists :: "broadcaster \<Rightarrow> nat \<Rightarrow> bool" where
  "hub_lists b n \<longleftrightarrow> (\<forall>ch p. distinct (market_conns b ch p) \<and> set (market_conns b ch p) \<subseteq> {..<n}) \<and>
     distinct (bc_user b) \<and> set (bc_user b) \<subseteq> {..<n}"

definition streams_inv :: "cb_streams \<Rightarrow> bool" where
  "streams_inv s \<longleftrightarrow> hub_ok (sv_broadcaster s) \<and> hub_lists (sv_broadcaster s) (length (sv_conns s)) \<and>
     (\<forall>p b. sv_differ s p = Some b \<longrightarrow> proper (lb_bids b) \<and> proper (lb_asks b)) \<and>
     (\<forall>c<length (sv_conns s). length (wc_out (conn s c)) \<le> sendBuffer) \<and>
     (\<forall>c p. watches s c p \<longrightarrow> in_sync s c p)"

lemma streams_invI:
  assumes "hub_ok (sv_broadcaster s)" "hub_lists (sv_broadcaster s) (length (sv_conns s))"
    and "\<And>p b. sv_differ s p = Some b \<Longrightarrow> proper (lb_bids b) \<and> proper (lb_asks b)"
    and "\<And>c. c < length (sv_conns s) \<Longrightarrow> length (wc_out (conn s c)) \<le> sendBuffer"
    and "\<And>c p. watches s c p \<Longrightarrow> in_sync s c p"
  shows "streams_inv s"
  using assms unfolding streams_inv_def by blast

lemma streams_invD:
  assumes "streams_inv s"
  shows "hub_ok (sv_broadcaster s)" "hub_lists (sv_broadcaster s) (length (sv_conns s))"
    "sv_differ s p = Some b \<Longrightarrow> proper (lb_bids b) \<and> proper (lb_asks b)"
    "c < length (sv_conns s) \<Longrightarrow> length (wc_out (conn s c)) \<le> sendBuffer"
    "watches s c p \<Longrightarrow> in_sync s c p"
  using assms unfolding streams_inv_def by blast+

lemma hub_listsD:
  assumes "hub_lists b n"
  shows "distinct (market_conns b ch p)" "c \<in> set (market_conns b ch p) \<Longrightarrow> c < n" "distinct (bc_user b)" "c \<in> set (bc_user b) \<Longrightarrow> c < n"
  using assms unfolding hub_lists_def by blast+

text \<open>A connection that learns nothing new of a product.\<close>

definition heard :: "string \<Rightarrow> wsConn \<Rightarrow> wsConn \<Rightarrow> bool" where
  "heard p x x' \<longleftrightarrow> quiet x x' \<or> (\<exists>f. silent p f \<and> got f x x')"

lemma heard_view: "heard p x x' \<Longrightarrow> level2_view p (frames_of x') = level2_view p (frames_of x) \<and> (wc_closed x \<longrightarrow> wc_closed x')"
  by (auto simp: heard_def quiet_def got_def view_snoc silent_frame)

lemma heard_refl [simp]: "heard p x x"
  by (simp add: heard_def)

lemma bounded_out: "quiet x x' \<or> got f x x' \<Longrightarrow> length (wc_out x) \<le> sendBuffer \<Longrightarrow> length (wc_out x') \<le> sendBuffer"
  by (auto simp: quiet_def got_def)

lemma in_sync_heard: "in_sync s c p \<Longrightarrow> heard p (conn s c) (conn s' c) \<Longrightarrow> sv_differ s' p = sv_differ s p \<Longrightarrow> in_sync s' c p"
  using heard_view by (simp add: in_sync_def)

text \<open>A step that tells nobody anything of a book.\<close>

lemma streams_keep:
  assumes inv: "streams_inv s" and hub: "hub_ok (sv_broadcaster s')" "hub_lists (sv_broadcaster s') (length (sv_conns s'))"
    and differ: "sv_differ s' = sv_differ s" and grow: "length (sv_conns s) \<le> length (sv_conns s')"
    and old: "\<And>i. i < length (sv_conns s) \<Longrightarrow> quiet (conn s i) (conn s' i) \<or> (\<exists>f. (\<forall>p. silent p f) \<and> got f (conn s i) (conn s' i))"
    and new: "\<And>i. length (sv_conns s) \<le> i \<Longrightarrow> i < length (sv_conns s') \<Longrightarrow> wc_out (conn s' i) = []"
    and subs: "\<And>c p. c \<in> set (market_conns (sv_broadcaster s') chanLevel2 p) \<Longrightarrow> c \<in> set (market_conns (sv_broadcaster s) chanLevel2 p)"
  shows "streams_inv s'"
proof (rule streams_invI[OF hub])
  show "sv_differ s' p = Some b \<Longrightarrow> proper (lb_bids b) \<and> proper (lb_asks b)" for p b
    using streams_invD(3)[OF inv] differ by simp
  show "length (wc_out (conn s' c)) \<le> sendBuffer" if "c < length (sv_conns s')" for c
  proof (cases "c < length (sv_conns s)")
    case True
    then show ?thesis using bounded_out[OF _ streams_invD(4)[OF inv True]] old by blast
  next
    case False
    then show ?thesis using new[of c] that by simp
  qed
  show "in_sync s' c p" if w: "watches s' c p" for c p
  proof -
    have c: "c \<in> set (market_conns (sv_broadcaster s) chanLevel2 p)" using w subs by (simp add: watches_def)
    then have "c < length (sv_conns s)" using hub_listsD(2)[OF streams_invD(2)[OF inv]] by blast
    then have h: "heard p (conn s c) (conn s' c)" using old by (auto simp: heard_def)
    then have "watches s c p" using w c heard_view by (simp add: watches_def) blast
    from in_sync_heard[OF streams_invD(5)[OF inv this] h] show ?thesis using differ by simp
  qed
qed

text \<open>The same for steps that leave the hub alone.\<close>

lemma same_server_keep:
  assumes "streams_inv s" "same_server s s'"
    and "\<And>i. i < length (sv_conns s) \<Longrightarrow> quiet (conn s i) (conn s' i) \<or> (\<exists>f. (\<forall>p. silent p f) \<and> got f (conn s i) (conn s' i))"
  shows "streams_inv s'"
  using assms streams_invD(1,2)[OF assms(1)] by (intro streams_keep[OF assms(1)]) (auto simp: same_server_def)

lemma told_keep:
  assumes "streams_inv s" "told ts ch ev cs s s'" "\<And>n p. silent p (Envelope ch ts n ev)"
  shows "streams_inv s'"
  using assms(2,3) unfolding told_def by (intro same_server_keep[OF assms(1)]) blast+

lemma sent_keep:
  assumes "streams_inv s" "c < length (sv_conns s)" "trySend c f s = (ok, s')" "\<And>p. silent p f"
  shows "streams_inv s'"
proof -
  obtain ok' x where t: "conn_trySend f (conn s c) = (ok', x)" by fastforce
  then have s': "s' = upd_conn c (\<lambda>_. x) s" using assms(3) by (auto simp: trySend_def conn_def)
  have "quiet (conn s i) (conn s' i) \<or> (\<exists>f. (\<forall>p. silent p f) \<and> got f (conn s i) (conn s' i))" for i
    using conn_trySend_cases[OF t] conn_upd[OF assms(2)] assms(4) s' by (cases ok') auto
  then show ?thesis using s' by (intro same_server_keep[OF assms(1)]) (simp_all add: same_server_def)
qed

lemma framed_keep:
  assumes "streams_inv s" "c < length (sv_conns s)" "frame ts ch ev c s = (f, s1)" "trySend c f s1 = (ok, s2)"
    and "\<And>n p. silent p (Envelope ch ts n ev)"
  shows "streams_inv s2"
proof -
  note k = framed_send[OF assms(3,4,2)]
  have "quiet (conn s i) (conn s2 i) \<or> (\<exists>f. (\<forall>p. silent p f) \<and> got f (conn s i) (conn s2 i))" for i
    using k assms(5) by (cases "i = c"; cases ok; simp; blast)
  then show ?thesis using k by (intro same_server_keep[OF assms(1)]) (simp_all add: same_server_def)
qed

lemma hub_keep:
  assumes "streams_inv s" "hub_ok (f (sv_broadcaster s))" "hub_lists (f (sv_broadcaster s)) (length (sv_conns s))"
    and "\<And>c p. c \<in> set (market_conns (f (sv_broadcaster s)) chanLevel2 p) \<Longrightarrow> c \<in> set (market_conns (sv_broadcaster s) chanLevel2 p)"
  shows "streams_inv (upd_hub f s)"
  using assms by (intro streams_keep[OF assms(1)]) (simp_all add: upd_hub_def conn_def)

lemma add_conn_set: "set (add_conn c cs) = insert c (set cs)" "distinct (add_conn c cs) = distinct cs"
  by (auto simp: add_conn_def)

lemma user_lists [simp]: "bc_user (subscribeMarket c ch p b) = bc_user b"
  "bc_user (unsubscribeMarket c ch p b) = bc_user b" "bc_user (remove_conn c b) = removeAll c (bc_user b)"
  by (simp_all add: subscribeMarket_def unsubscribeMarket_def remove_conn_def Let_def split: option.split)

lemma hub_lists_subscribe: "hub_lists b n \<Longrightarrow> c < n \<Longrightarrow> hub_lists (subscribeMarket c ch p b) n"
  by (auto simp: hub_lists_def market_conns_subscribe add_conn_set)

lemma hub_lists_unsubscribe: "hub_lists b n \<Longrightarrow> hub_lists (unsubscribeMarket c ch p b) n"
  by (auto simp: hub_lists_def market_conns_unsubscribe distinct_removeAll)

lemma hub_lists_remove: "hub_ok b \<Longrightarrow> hub_lists b n \<Longrightarrow> hub_lists (remove_conn c b) n"
  by (auto simp: hub_lists_def market_conns_remove distinct_removeAll)

lemma market_conns_user: "market_conns (subscribeUser c b) = market_conns b" "market_conns (unsubscribeUser c b) = market_conns b"
  by (simp_all add: market_conns_def fun_eq_iff subscribeUser_def unsubscribeUser_def)

lemma hub_user:
  "hub_ok b \<Longrightarrow> hub_ok (subscribeUser c b) \<and> hub_ok (unsubscribeUser c b)"
  "hub_lists b n \<Longrightarrow> c < n \<Longrightarrow> hub_lists (subscribeUser c b) n" "hub_lists b n \<Longrightarrow> hub_lists (unsubscribeUser c b) n"
  by (auto simp: hub_ok_def hub_lists_def market_conns_user) (auto simp: subscribeUser_def unsubscribeUser_def add_conn_set distinct_removeAll)

subsection \<open>The two steps that tell of a book\<close>

lemma proper_levelMap: "proper (levelMap ls)"
  by (rule proper_snap)

lemma got_view:
  assumes "got (Envelope ch ts n (L2Event kind p us)) x x'"
    and "if kind = ''snapshot'' then True else level2_view p (frames_of x) = (b, a)"
  shows "level2_view p (frames_of x') = (let (b, a) = (if kind = ''snapshot'' then (Map.empty, Map.empty) else (b, a))
    in (put_levels (l2_levels ''bid'' us) b, put_levels (l2_levels ''offer'' us) a))"
  using assms by (auto simp: got_def view_snoc)

lemma push_keep:
  assumes inv: "streams_inv s" and run: "broadcastLevel2 e ts p s = Some s'"
  shows "streams_inv s' \<and> (\<forall>snap. Resolve s p = Some p \<longrightarrow> engine_Snapshot e p = Some (Inr snap) \<longrightarrow>
    (\<exists>b. sv_differ s' p = Some b \<and> map_of (lb_bids b) = map_of (levelMap (sn_Bids snap)) \<and> map_of (lb_asks b) = map_of (levelMap (sn_Asks snap))))"
proof (cases "Resolve s p = Some p \<and> (\<exists>snap. engine_Snapshot e p = Some (Inr snap))")
  case False
  then have "s' = s" using run
    by (auto simp: broadcastLevel2_def Resolve_def bind_eq_Some_conv split: if_splits sum.splits) (metis sum.exhaust)
  then show ?thesis using inv False by auto
next
  case True
  then obtain snap where snap: "engine_Snapshot e p = Some (Inr snap)" by blast
  let ?cb = "levelMap (sn_Bids snap)" and ?ca = "levelMap (sn_Asks snap)"
  let ?cur = "\<lparr>lb_bids = ?cb, lb_asks = ?ca\<rparr>"
  show ?thesis
  proof (cases "sv_differ s p")
    case None
    then have s': "s' = s\<lparr>sv_differ := (sv_differ s)(p \<mapsto> ?cur)\<rparr>"
      using run True snap by (auto simp: broadcastLevel2_def diffLocked_def Let_def)
    have "streams_inv s'"
    proof (rule streams_invI)
      show "in_sync s' c q" if "watches s' c q" for c q
      proof -
        have "watches s c q" using that s' by (simp add: watches_def conn_def)
        then have "in_sync s c q" using streams_invD(5)[OF inv] by blast
        then show ?thesis using None s' by (auto simp: in_sync_def conn_def)
      qed
    qed (use streams_invD(1-4)[OF inv] s' in \<open>auto simp: conn_def proper_levelMap split: if_splits\<close>)
    then show ?thesis using s' snap by simp
  next
    case (Some b)
    let ?us = "diffSideL2 (diffSideL2 [] (lb_bids b) ?cb ''bid'' ts) (lb_asks b) ?ca ''offer'' ts"
    note pr = streams_invD(3)[OF inv Some]
    show ?thesis
    proof (cases "?us = []")
      case True
      then have "diffSide (lb_bids b) ?cb = []" "diffSide (lb_asks b) ?ca = []"
        by (simp_all add: diffSideL2_eq)
      then have "map_of (lb_bids b) = map_of ?cb" "map_of (lb_asks b) = map_of ?ca"
        using diffSide_Nil[OF _ proper_levelMap] pr by blast+
      moreover have "s' = s" using run \<open>Resolve s p = Some p \<and> _\<close> snap Some True
        by (auto simp: broadcastLevel2_def diffLocked_def Let_def)
      ultimately show ?thesis using inv Some snap by auto
    next
      case False
      let ?s1 = "s\<lparr>sv_differ := (sv_differ s)(p \<mapsto> ?cur)\<rparr>" and ?cs = "market_conns (sv_broadcaster s) chanLevel2 p"
      have "s' = publishMarket chanLevel2 p (frame ts ''l2_data'' (L2Event ''update'' p ?us)) ?s1"
        using run True snap Some False by (auto simp: broadcastLevel2_def diffLocked_def Let_def l2_frame_def)
      moreover have "distinct ?cs" "\<forall>c\<in>set ?cs. c < length (sv_conns s)" using hub_listsD(1,2)[OF streams_invD(2)[OF inv]] by blast+
      ultimately have t: "told ts ''l2_data'' (L2Event ''update'' p ?us) ?cs ?s1 s'"
        using publishMarket_told[of ?s1 chanLevel2 p ts "''l2_data''" "L2Event ''update'' p ?us"] by simp
      then have sv: "same_server ?s1 s'" by (simp add: told_def)
      have each: "(\<exists>n. c \<in> set ?cs \<and> got (Envelope ''l2_data'' ts n (L2Event ''update'' p ?us)) (conn s c) (conn s' c)) \<or>
          (quiet (conn s c) (conn s' c) \<and> (c \<in> set ?cs \<longrightarrow> wc_closed (conn s' c)))" for c
        using t by (simp add: told_def conn_def)
      have "streams_inv s'"
      proof (rule streams_invI)
        show "hub_ok (sv_broadcaster s')" "hub_lists (sv_broadcaster s') (length (sv_conns s'))"
          using streams_invD(1,2)[OF inv] sv by (simp_all add: same_server_def)
        show "sv_differ s' q = Some d \<Longrightarrow> proper (lb_bids d) \<and> proper (lb_asks d)" for q d
          using streams_invD(3)[OF inv] sv by (auto simp: same_server_def proper_levelMap split: if_splits)
        show "length (wc_out (conn s' c)) \<le> sendBuffer" if "c < length (sv_conns s')" for c
          using bounded_out[OF _ streams_invD(4)[OF inv, of c]] each[of c] that sv by (auto simp: same_server_def)
        show "in_sync s' c q" if w: "watches s' c q" for c q
        proof (cases "q = p")
          case True
          then obtain n where g: "got (Envelope ''l2_data'' ts n (L2Event ''update'' p ?us)) (conn s c) (conn s' c)" "c \<in> set ?cs"
            using w each[of c] sv by (auto simp: watches_def same_server_def)
          then have "watches s c p" by (simp add: watches_def got_def)
          from streams_invD(5)[OF inv this] Some have "level2_view p (frames_of (conn s c)) = (map_of (lb_bids b), map_of (lb_asks b))"
            by (simp add: in_sync_def)
          then have "level2_view p (frames_of (conn s' c)) = (map_of ?cb, map_of ?ca)"
            using got_view[OF g(1)] pr by (simp add: l2_levels_diff put_changes proper_levelMap)
          then show ?thesis using True sv by (simp add: in_sync_def same_server_def)
        next
          case False
          then have h: "heard q (conn s c) (conn s' c)" using each[of c] by (auto simp: heard_def)
          then have "watches s c q" using w heard_view sv by (auto simp: watches_def same_server_def)
          from in_sync_heard[OF streams_invD(5)[OF inv this] h] show ?thesis using False sv by (simp add: same_server_def)
        qed
      qed
      then show ?thesis using sv snap by (simp add: same_server_def)
    qed
  qed
qed

lemma subscribe_keep:
  assumes inv: "streams_inv s" and c: "c < length (sv_conns s)" and room: "length (wc_out (conn s c)) < sendBuffer"
    and run: "subscribeLevel2 e ts c p s = Some s'"
  shows "streams_inv s'"
proof (cases "Resolve s p = Some p \<and> (\<exists>snap. engine_Snapshot e p = Some (Inr snap))")
  case False
  then have "s' = s" using run
    by (auto simp: subscribeLevel2_def Resolve_def bind_eq_Some_conv split: if_splits sum.splits) (metis sum.exhaust)
  then show ?thesis using inv by simp
next
  case True
  then obtain snap where snap: "engine_Snapshot e p = Some (Inr snap)" by blast
  obtain b d where bk: "bookLocked (sv_differ s) p snap = (b, d)" by fastforce
  let ?us = "mapUpdates (mapUpdates [] (lb_bids b) ''bid'' ts) (lb_asks b) ''offer'' ts" and ?s1 = "s\<lparr>sv_differ := d\<rparr>"
  let ?ev = "L2Event ''snapshot'' p ?us"
  have d: "d = (sv_differ s)(p \<mapsto> b)" "sv_differ s p = Some b \<or> sv_differ s p = None"
    using bk by (auto simp: bookLocked_def Let_def split: option.splits)
  have pr: "proper (lb_bids b) \<and> proper (lb_asks b)"
    using bk streams_invD(3)[OF inv] by (auto simp: bookLocked_def Let_def proper_levelMap split: option.splits)
  obtain f s2 where f: "frame ts ''l2_data'' ?ev c ?s1 = (f, s2)" by fastforce
  obtain ok s3 where t: "trySend c f s2 = (ok, s3)" by fastforce
  have s': "s' = upd_hub (subscribeMarket c chanLevel2 p) s3"
    using run True snap bk f t by (auto simp: subscribeLevel2_def snapshotUpdatesLocked_def Let_def l2_frame_def)
  have k: "f = Envelope ''l2_data'' ts (wc_seq (conn s c) + 1) ?ev" "\<And>i. i \<noteq> c \<Longrightarrow> conn s3 i = conn s i"
    "if ok then got f (conn s c) (conn s3 c) else quiet (conn s c) (conn s3 c)" "sv_broadcaster s3 = sv_broadcaster s"
    "sv_differ s3 = d" "length (sv_conns s3) = length (sv_conns s)"
    using framed_send[OF f t] c by (auto simp: conn_def split: if_splits)
  have full: "ok \<or> wc_closed (conn s3 c)"
  proof -
    have x: "conn s2 c = snd (nextSeq (conn s c))" using f conn_upd[of c s] c
      by (auto simp: frame_def nextSeq_def conn_def upd_conn_def)
    obtain ok' x' where tr: "conn_trySend f (conn s2 c) = (ok', x')" by fastforce
    then have "ok' = ok" "s3 = upd_conn c (\<lambda>_. x') s2" using t by (auto simp: trySend_def conn_def)
    moreover have "length (sv_conns s2) = length (sv_conns s)" using f by (auto simp: frame_def nextSeq_def)
    moreover have "wc_closed (conn s2 c) = wc_closed (conn s c)" "wc_out (conn s2 c) = wc_out (conn s c)"
      using x by (simp_all add: nextSeq_def)
    ultimately show ?thesis using tr room c conn_upd[of c s2 "\<lambda>_. x'"]
      by (auto simp: conn_trySend_def split: if_splits)
  qed
  have con: "conn s' i = conn s3 i" for i using s' by (simp add: upd_hub_def conn_def)
  have frm: "sv_broadcaster s' = subscribeMarket c chanLevel2 p (sv_broadcaster s)" "sv_differ s' = d"
    "length (sv_conns s') = length (sv_conns s)" using s' k(4-6) by (simp_all add: upd_hub_def)
  show ?thesis
  proof (rule streams_invI)
    show "hub_ok (sv_broadcaster s')" "hub_lists (sv_broadcaster s') (length (sv_conns s'))"
      using streams_invD(1,2)[OF inv] frm c by (simp_all add: hub_ok_subscribe hub_lists_subscribe)
    show "sv_differ s' q = Some y \<Longrightarrow> proper (lb_bids y) \<and> proper (lb_asks y)" for q y
      using streams_invD(3)[OF inv] frm(2) d(1) pr by (auto split: if_splits)
    show "length (wc_out (conn s' i)) \<le> sendBuffer" if "i < length (sv_conns s')" for i
      using bounded_out[OF _ streams_invD(4)[OF inv, of i]] k(2)[of i] k(3) that frm(3) con by (cases "i = c") (auto split: if_splits)
    show "in_sync s' i q" if w: "watches s' i q" for i q
    proof (cases "i = c \<and> q = p")
      case True
      then have "got f (conn s c) (conn s' c)" using full k(3) w con by (auto simp: watches_def split: if_splits)
      then have "level2_view p (frames_of (conn s' c)) = (map_of (lb_bids b), map_of (lb_asks b))"
        using got_view pr unfolding k(1) by (fastforce simp: l2_levels_snapshot put_whole)
      then show ?thesis using True frm(2) d(1) by (simp add: in_sync_def)
    next
      case False
      then have sub: "i \<in> set (market_conns (sv_broadcaster s) chanLevel2 q)"
        using w frm(1) by (auto simp: watches_def market_conns_subscribe add_conn_set split: if_splits)
      have h: "heard q (conn s i) (conn s' i)"
        using False k(1,2) k(3) con by (cases "i = c") (auto simp: heard_def split: if_splits)
      then have "watches s i q" using w sub heard_view by (auto simp: watches_def)
      then have syn: "in_sync s i q" using streams_invD(5)[OF inv] by blast
      then have "sv_differ s' q = sv_differ s q" using frm(2) d by (auto simp: in_sync_def)
      with in_sync_heard[OF syn h] show ?thesis .
    qed
  qed
qed

subsection \<open>The machine\<close>

definition cb_new :: "string list \<Rightarrow> string \<Rightarrow> decimal \<Rightarrow> cb_streams" where
  "cb_new ids key rate = \<lparr>sv_products = NewProducts ids, sv_apiKey = key, sv_feeRate = rate, sv_tradeSeq = 0,
     sv_broadcaster = NewBroadcaster, sv_differ = Map.empty, sv_conns = []\<rparr>"

text \<open>Each rule is a critical section, or one turn of a pump, at any time and of any connection. A subscription to
  level2 finds room for its snapshot in the buffer.\<close>

inductive cb_step :: "cb_streams \<Rightarrow> cb_streams \<Rightarrow> bool" where
  connect: "cb_step s (handleWS s)"
| answer: "c < length (sv_conns s) \<Longrightarrow> cb_step s (trySendErr ts ch msg c s)"
| ack: "c < length (sv_conns s) \<Longrightarrow> cb_step s (sendAck ts c ch ps s)"
| watch: "c < length (sv_conns s) \<Longrightarrow> ch \<noteq> chanLevel2 \<Longrightarrow> cb_step s (upd_hub (subscribeMarket c ch p) s)"
| unwatch: "c < length (sv_conns s) \<Longrightarrow> cb_step s (upd_hub (unsubscribeMarket c ch p) s)"
| user: "c < length (sv_conns s) \<Longrightarrow> cb_step s (upd_hub (subscribeUser c) s)"
| not_user: "c < length (sv_conns s) \<Longrightarrow> cb_step s (upd_hub (unsubscribeUser c) s)"
| level2: "c < length (sv_conns s) \<Longrightarrow> length (wc_out (conn s c)) < sendBuffer \<Longrightarrow>
    subscribeLevel2 e ts c p s = Some s' \<Longrightarrow> cb_step s s'"
| push: "broadcastLevel2 e ts p s = Some s' \<Longrightarrow> cb_step s s'"
| trade: "cb_step s (emitMarketTrade ts tr_time p t s)"
| order: "emitUser ts rec s = Some s' \<Longrightarrow> cb_step s s'"
| deliver: "c < length (sv_conns s) \<Longrightarrow> cb_step s (upd_conn c writePump s)"
| fail: "c < length (sv_conns s) \<Longrightarrow> cb_step s (upd_conn c conn_close s)"
| leave: "c < length (sv_conns s) \<Longrightarrow> cb_step s (runConn_end c s)"

abbreviation cb_run :: "cb_streams \<Rightarrow> cb_streams \<Rightarrow> bool" where
  "cb_run \<equiv> cb_step\<^sup>*\<^sup>*"

lemma new_inv: "streams_inv (cb_new ids key rate)"
  by (auto simp: streams_inv_def cb_new_def NewBroadcaster_def hub_ok_def hub_lists_def watches_def market_conns_def entry_def
      channel_defs split: if_splits)

lemma upd_conn_quiet:
  assumes "streams_inv s" "c < length (sv_conns s)" "\<And>x. quiet x (f x)"
  shows "streams_inv (upd_conn c f s)"
  using assms conn_upd[OF assms(2), of f] by (intro same_server_keep[OF assms(1)]) (simp_all add: same_server_def)

lemma writePump_quiet: "quiet x (writePump x)"
  by (simp add: quiet_def writePump_def frames_of_def split: list.split)

lemma conn_close_quiet: "quiet x (conn_close x)"
  by (simp add: quiet_def conn_close_def frames_of_def)

lemma step_inv: "cb_step s s' \<Longrightarrow> streams_inv s \<Longrightarrow> streams_inv s'"
proof (induction rule: cb_step.induct)
  case (connect s)
  note D = streams_invD[OF connect]
  have "conn (handleWS s) i = (if i = length (sv_conns s) then newWSConn else conn s i)" if "i \<le> length (sv_conns s)" for i
    using that by (auto simp: handleWS_def conn_def nth_append)
  moreover have "hub_lists (sv_broadcaster s) (Suc (length (sv_conns s)))" using D(2) by (fastforce simp: hub_lists_def)
  ultimately show ?case using D(1)
    by (intro streams_keep[OF connect]) (auto simp: handleWS_def newWSConn_def)
next
  case (answer c s ts ch msg)
  then show ?case using sent_keep[OF answer(2,1)] by (cases "trySend c (ErrorFrame ch msg ts) s") (simp add: trySendErr_def)
next
  case (ack c s ts ch ps)
  obtain f s1 where f: "frame ts chanSubscriptions (SubscriptionsEvent ch ps) c s = (f, s1)" by fastforce
  obtain ok s2 where t: "trySend c f s1 = (ok, s2)" by fastforce
  show ?case using framed_keep[OF ack(2,1) f t] f t by (simp add: sendAck_def)
next
  case (watch c s ch p)
  then show ?case using streams_invD(1,2)[OF watch(3)]
    by (intro hub_keep) (auto simp: hub_ok_subscribe hub_lists_subscribe market_conns_subscribe split: if_splits)
next
  case (unwatch c s ch p)
  then show ?case using streams_invD(1,2)[OF unwatch(2)]
    by (intro hub_keep) (auto simp: hub_ok_unsubscribe hub_lists_unsubscribe market_conns_unsubscribe split: if_splits)
next
  case (user c s)
  then show ?case using streams_invD(1,2)[OF user(2)] hub_user by (intro hub_keep) (auto simp: market_conns_user)
next
  case (not_user c s)
  then show ?case using streams_invD(1,2)[OF not_user(2)] hub_user by (intro hub_keep) (auto simp: market_conns_user)
next
  case (level2 c s e ts p s')
  then show ?case using subscribe_keep by blast
next
  case (push e ts p s s')
  then show ?case using push_keep by blast
next
  case (trade s ts tr_time p t)
  let ?s = "snd (nextTradeID s)"
  have inv: "streams_inv ?s" using trade
    by (intro same_server_keep[OF trade]) (simp_all add: nextTradeID_def same_server_def conn_def)
  have "told ts chanMarketTrades ev (market_conns (sv_broadcaster ?s) chanMarketTrades p) ?s
      (publishMarket chanMarketTrades p (frame ts chanMarketTrades ev) ?s)" for ev
    using publishMarket_told hub_listsD(1,2)[OF streams_invD(2)[OF inv]] by blast
  from told_keep[OF inv this] show ?case using trade by (simp add: emitMarketTrade_def nextTradeID_def Let_def)
next
  case (order ts rec s s')
  have "told ts chanUser ev (bc_user (sv_broadcaster s)) s (publishUser (frame ts chanUser ev) s)" for ev
    using publishUser_told hub_listsD(3,4)[OF streams_invD(2)[OF order(2)]] by blast
  from told_keep[OF order(2) this] show ?case using order(1) by (auto simp: emitUser_def Let_def bind_eq_Some_conv split: prod.splits)
next
  case (deliver c s)
  then show ?case using upd_conn_quiet writePump_quiet by blast
next
  case (fail c s)
  then show ?case using upd_conn_quiet conn_close_quiet by blast
next
  case (leave c s)
  have inv: "streams_inv (upd_conn c conn_close s)" using upd_conn_quiet[OF leave(2,1)] conn_close_quiet by blast
  note D = streams_invD(1,2)[OF inv]
  show ?case unfolding runConn_end_def using D
    by (intro hub_keep[OF inv]) (auto simp: hub_ok_remove hub_lists_remove market_conns_remove)
qed

lemma cb_run_inv: "cb_run s s' \<Longrightarrow> streams_inv s \<Longrightarrow> streams_inv s'"
  by (induction rule: rtranclp_induct) (auto intro: step_inv)

subsection \<open>The handlers are made of these steps\<close>

lemma pushLevel2Tick_run: "pushLevel2Tick e ts s = Some s' \<Longrightarrow> cb_run s s'"
proof -
  have "push_products e ts ps s = Some s' \<Longrightarrow> cb_run s s'" for ps s
    by (induction ps arbitrary: s) (auto simp: bind_eq_Some_conv dest: push intro: converse_rtranclp_into_rtranclp)
  then show "pushLevel2Tick e ts s = Some s' \<Longrightarrow> cb_run s s'" by (simp add: pushLevel2Tick_def)
qed

lemma user_for_order_run: "user_for_order ts r i s = Some s' \<Longrightarrow> cb_run s s'"
  by (auto simp: user_for_order_def split: option.splits dest: order)

lemma onBookTrade_run: "cb_onBookTrade ts tr_time r t s = Some s' \<Longrightarrow> cb_run s s'"
proof -
  let ?s1 = "emitMarketTrade ts tr_time (tr_Instrument t) t s"
  have "cb_run s ?s1" by (blast intro: trade)
  moreover assume "cb_onBookTrade ts tr_time r t s = Some s'"
  then have "cb_run ?s1 s'"
    by (auto simp: cb_onBookTrade_def emitUserForTrade_def bind_eq_Some_conv split: if_splits dest!: user_for_order_run)
  ultimately show ?thesis by simp
qed

lemma onBookCancel_run: "onBookCancel ts r ord s = Some s' \<Longrightarrow> cb_run s s'"
  by (auto simp: onBookCancel_def split: if_splits dest: user_for_order_run)

lemma EmitUser_run: "EmitUserByOrderID ts r i s = Some s' \<Longrightarrow> cb_run s s'"
  by (auto simp: EmitUserByOrderID_def split: if_splits option.splits dest: order)

text \<open>A frame for a connection takes one place of its buffer at most.\<close>

lemma trySend_room:
  assumes "c < length (sv_conns s)" "trySend c f s = (ok, s')"
  shows "length (wc_out (conn s' c)) \<le> length (wc_out (conn s c)) + 1 \<and> length (sv_conns s') = length (sv_conns s) \<and>
    sv_products s' = sv_products s"
proof -
  obtain ok' x where t: "conn_trySend f (conn s c) = (ok', x)" by fastforce
  then have "s' = upd_conn c (\<lambda>_. x) s" using assms(2) by (auto simp: trySend_def conn_def)
  then show ?thesis using t conn_upd[OF assms(1)] by (auto simp: conn_trySend_def split: if_splits)
qed

lemma trySendErr_room:
  "c < length (sv_conns s) \<Longrightarrow> length (wc_out (conn (trySendErr ts ch msg c s) c)) \<le> length (wc_out (conn s c)) + 1 \<and>
    length (sv_conns (trySendErr ts ch msg c s)) = length (sv_conns s)"
  using trySend_room by (cases "trySend c (ErrorFrame ch msg ts) s") (simp add: trySendErr_def)

lemma framed_room:
  assumes "c < length (sv_conns s)" "frame ts ch ev c s = (f, s1)" "trySend c f s1 = (ok, s2)"
  shows "length (wc_out (conn s2 c)) \<le> length (wc_out (conn s c)) + 1 \<and> length (sv_conns s2) = length (sv_conns s)"
proof -
  have "s1 = upd_conn c (\<lambda>_. snd (nextSeq (conn s c))) s" using assms(2) by (auto simp: frame_def nextSeq_def conn_def)
  then have "length (wc_out (conn s1 c)) = length (wc_out (conn s c))" "length (sv_conns s1) = length (sv_conns s)"
    using conn_upd[OF assms(1)] by (simp_all add: nextSeq_def)
  then show ?thesis using trySend_room[OF _ assms(3)] assms(1) by simp
qed

lemma sendAck_room:
  assumes "c < length (sv_conns s)"
  shows "length (wc_out (conn (sendAck ts c ch ps s) c)) \<le> length (wc_out (conn s c)) + 1 \<and>
    length (sv_conns (sendAck ts c ch ps s)) = length (sv_conns s)"
proof -
  obtain f s1 where f: "frame ts chanSubscriptions (SubscriptionsEvent ch ps) c s = (f, s1)" by fastforce
  obtain ok s2 where t: "trySend c f s1 = (ok, s2)" by fastforce
  show ?thesis using framed_room[OF assms f t] f t by (simp add: sendAck_def)
qed

lemma subscribeLevel2_cases:
  assumes "subscribeLevel2 e ts c p s = Some s'"
  obtains (same) "s' = s"
  | (sent) d us f s1 ok s2 where "frame ts ''l2_data'' (L2Event ''snapshot'' p us) c (s\<lparr>sv_differ := d\<rparr>) = (f, s1)"
      "trySend c f s1 = (ok, s2)" "s' = upd_hub (subscribeMarket c chanLevel2 p) s2"
proof (cases "Resolve s p")
  case None
  then show thesis using assms by (intro same) (simp add: subscribeLevel2_def)
next
  case (Some q)
  then obtain y where y: "engine_Snapshot e q = Some y" using assms by (auto simp: subscribeLevel2_def bind_eq_Some_conv)
  show thesis
  proof (cases y)
    case (Inl err)
    then show thesis using assms Some y by (intro same) (simp add: subscribeLevel2_def)
  next
    case (Inr snap)
    obtain us d where u: "snapshotUpdatesLocked (sv_differ s) p snap ts = (us, d)" by fastforce
    obtain f s1 where f: "frame ts ''l2_data'' (L2Event ''snapshot'' p us) c (s\<lparr>sv_differ := d\<rparr>) = (f, s1)" by fastforce
    obtain ok s2 where t: "trySend c f s1 = (ok, s2)" by fastforce
    show thesis using assms Some y Inr u f t by (intro sent[OF f t]) (simp add: subscribeLevel2_def Let_def l2_frame_def)
  qed
qed

lemma subscribeLevel2_room:
  assumes "c < length (sv_conns s)" "subscribeLevel2 e ts c p s = Some s'"
  shows "length (wc_out (conn s' c)) \<le> length (wc_out (conn s c)) + 1 \<and> length (sv_conns s') = length (sv_conns s)"
  using assms(2)
proof (cases rule: subscribeLevel2_cases)
  case (sent d us f s1 ok s2)
  then show ?thesis using framed_room[OF _ sent(1,2)] assms(1) by (simp add: conn_def upd_hub_def)
qed simp

lemma subscribe_each_run:
  "c < length (sv_conns s) \<Longrightarrow> length (wc_out (conn s c)) + length ps \<le> sendBuffer \<Longrightarrow>
    subscribe_each e ts c ps s = Some s' \<Longrightarrow> cb_run s s'"
proof (induction ps arbitrary: s)
  case Nil
  then show ?case by simp
next
  case (Cons p ps)
  then obtain s1 where s1: "subscribeLevel2 e ts c p s = Some s1" "subscribe_each e ts c ps s1 = Some s'"
    by (auto simp: bind_eq_Some_conv)
  have "cb_step s s1" using Cons.prems(1,2) s1(1) by (intro level2) auto
  moreover have "cb_run s1 s'"
    using Cons.IH[OF _ _ s1(2)] subscribeLevel2_room[OF Cons.prems(1) s1(1)] Cons.prems by simp
  ultimately show ?case by (rule converse_rtranclp_into_rtranclp)
qed

lemma market_products_run:
  "c < length (sv_conns s) \<Longrightarrow> market_products ts c ch sub ps s = (acc, s') \<Longrightarrow>
    cb_run s s' \<and> length (sv_conns s') = length (sv_conns s) \<and>
    length (wc_out (conn s' c)) + length acc \<le> length (wc_out (conn s c)) + length ps"
proof (induction ps arbitrary: s acc)
  case Nil
  then show ?case by simp
next
  case (Cons p ps)
  show ?case
  proof (cases "Resolve s p")
    case None
    let ?s1 = "trySendErr ts ch (''unknown product_id: '' @ p) c s"
    note room = trySendErr_room[OF Cons.prems(1), of ts ch "''unknown product_id: '' @ p"]
    have "market_products ts c ch sub ps ?s1 = (acc, s')" using Cons.prems(2) None by simp
    then have "cb_run ?s1 s' \<and> length (sv_conns s') = length (sv_conns ?s1) \<and>
        length (wc_out (conn s' c)) + length acc \<le> length (wc_out (conn ?s1 c)) + length ps"
      using room Cons.prems(1) by (intro Cons.IH) simp_all
    moreover have "cb_run s s'" if "cb_run ?s1 s'"
      by (rule converse_rtranclp_into_rtranclp[OF answer[OF Cons.prems(1)] that])
    ultimately show ?thesis using room by simp
  next
    case (Some q)
    let ?s1 = "if \<not> sub then upd_hub (unsubscribeMarket c ch p) s else if ch \<noteq> chanLevel2 then upd_hub (subscribeMarket c ch p) s else s"
    obtain acc1 where acc: "market_products ts c ch sub ps ?s1 = (acc1, s')" "acc = p # acc1"
      using Cons.prems(2) Some by (auto simp: Let_def split: prod.splits)
    have same: "sv_conns ?s1 = sv_conns s" by (simp add: upd_hub_def)
    have "cb_run s ?s1" using watch[OF Cons.prems(1)] unwatch[OF Cons.prems(1)] by (cases sub; cases "ch = chanLevel2") auto
    moreover have "cb_run ?s1 s' \<and> length (sv_conns s') = length (sv_conns ?s1) \<and>
        length (wc_out (conn s' c)) + length acc1 \<le> length (wc_out (conn ?s1 c)) + length ps"
      by (rule Cons.IH[OF _ acc(1)]) (simp add: same Cons.prems(1))
    ultimately show ?thesis using acc(2) same by (auto simp: conn_def)
  qed
qed

text \<open>A message is answered by steps, if a level2 subscription finds room for the answers.\<close>

lemma readPump_run:
  assumes "c < length (sv_conns s)" "readPump verifyJWT e ts c data s = Some s'"
    and "\<And>msg. data = Some msg \<Longrightarrow> sb_Channel msg = chanLevel2 \<Longrightarrow> sb_Type msg = ''subscribe'' \<Longrightarrow>
      length (wc_out (conn s c)) + length (sb_ProductIDs msg) < sendBuffer"
  shows "cb_run s s'"
proof -
  have err: "cb_run s (trySendErr ts ch m c s)" for ch m using answer[OF assms(1)] by blast
  have handled: "cb_run s s'" if m: "data = Some msg" "handleSubscribe verifyJWT e ts c msg s = Some s'" for msg
  proof -
    consider (err) ch t where "s' = trySendErr ts ch t c s"
      | (market) sub where "handleMarketSub e ts c msg sub s = Some s'" "sub \<longleftrightarrow> sb_Type msg = ''subscribe''"
      | (user) sub where "s' = handleUserSub verifyJWT ts c msg sub s"
      using m(2) by (auto simp: handleSubscribe_def Let_def split: if_splits)
    then show ?thesis
    proof cases
      case err
      then show ?thesis using answer[OF assms(1)] by blast
    next
      case market
      obtain acc s1 where p: "market_products ts c (sb_Channel msg) sub (sb_ProductIDs msg) s = (acc, s1)" by fastforce
      note k = market_products_run[OF assms(1) p]
      let ?s2 = "sendAck ts c (sb_Channel msg) acc s1"
      have "cb_run s1 ?s2" using ack[of c s1] k assms(1) by auto
      with k have r2: "cb_run s ?s2" by auto
      have room: "length (wc_out (conn ?s2 c)) \<le> length (wc_out (conn s1 c)) + 1" "length (sv_conns ?s2) = length (sv_conns s)"
        using sendAck_room[of c s1] k assms(1) by auto
      consider "s' = trySendErr ts (sb_Channel msg) ''product_ids is required'' c s" | "s' = s1" | "s' = ?s2"
        | "sub" "sb_Channel msg = chanLevel2" "subscribe_each e ts c acc ?s2 = Some s'"
        using market(1) p by (auto simp: handleMarketSub_def Let_def split: if_splits)
      then show ?thesis
      proof cases
        case 4
        have "cb_run ?s2 s'"
          using subscribe_each_run[OF _ _ 4(3)] room k assms(1) assms(3)[OF m(1) 4(2)] 4(1) market(2) by simp
        with r2 show ?thesis by simp
      qed (use answer[OF assms(1)] k r2 in auto)
    next
      case user
      have a: "cb_run (upd_hub f s) (sendAck ts c chanUser [] (upd_hub f s))" for f
        using ack[of c "upd_hub f s"] assms(1) by (auto simp: upd_hub_def)
      show ?thesis
        using user a[of "unsubscribeUser c"] a[of "subscribeUser c"] not_user[OF assms(1)] cb_step.user[OF assms(1)] answer[OF assms(1)]
        by (auto simp: handleUserSub_def intro: converse_rtranclp_into_rtranclp split: if_splits)
    qed
  qed
  show ?thesis using assms(2) err handled by (auto simp: readPump_def split: if_splits option.splits)
qed

subsection \<open>The properties\<close>


text \<open>One client of one product: it subscribes while the book is empty, and an ask comes to rest before the push.\<close>

definition ex_engine :: "order_book \<Rightarrow> engine" where
  "ex_engine b = engine_New b (\<lambda>_ _. Some None)"

definition ex_joined :: cb_streams where
  "ex_joined = handleWS (cb_new [''BTC-USD''] [] Zero)"

definition ex_snap :: snapshot where
  "ex_snap = \<lparr>sn_Instrument = ''BTC-USD'', sn_Bids = [], sn_Asks = [\<lparr>lv_Price = Decimal 0 100, lv_Volume = Decimal 0 5\<rparr>],
     sn_LastTrade = None, sn_BestBid = Zero, sn_BestAsk = Decimal 0 100\<rparr>"

lemma ex_engine_empty:
  "engine_Snapshot (ex_engine (NewOrderBook int [''BTC-USD''])) ''BTC-USD'' =
     Some (Inr (ex_snap\<lparr>sn_Asks := [], sn_BestAsk := Zero\<rparr>))"
  by (simp add: engine_Snapshot_def ex_engine_def engine_New_def NewOrderBook_def Snapshot_def lookup_def aggregateLevels_def
      empty_book_def ex_snap_def)

lemma ex_engine_ask: "engine_Snapshot (ex_engine ex_book) ''BTC-USD'' = Some (Inr ex_snap)"
  by (simp add: engine_Snapshot_def ex_engine_def engine_New_def ex_snapshot ex_snap_def)

lemma market_conns_none: "market_conns NewBroadcaster chanLevel2 p = []"
  by (simp add: market_conns_def entry_def NewBroadcaster_def channel_defs)


text \<open>A client whose buffer is full when it subscribes is registered without its snapshot: the frame is lost, its
  sequence number is used up, and the connection stays open.\<close>

lemma level2_snapshot_lost:
  assumes "c < length (sv_conns s)" "\<not> wc_closed (conn s c)" "sendBuffer \<le> length (wc_out (conn s c))"
    "Resolve s p = Some p" "engine_Snapshot e p = Some (Inr snap)" "subscribeLevel2 e ts c p s = Some s'"
  shows "watches s' c p \<and> frames_of (conn s' c) = frames_of (conn s c) \<and> wc_seq (conn s' c) = wc_seq (conn s c) + 1"
proof -
  obtain us d where u: "snapshotUpdatesLocked (sv_differ s) p snap ts = (us, d)" by fastforce
  let ?s1 = "s\<lparr>sv_differ := d\<rparr>"
  let ?x = "snd (nextSeq (conn s c))"
  have s2: "frame ts ''l2_data'' (L2Event ''snapshot'' p us) c ?s1 =
      (Envelope ''l2_data'' ts (wc_seq (conn s c) + 1) (L2Event ''snapshot'' p us), upd_conn c (\<lambda>_. ?x) ?s1)"
    by (simp add: frame_def nextSeq_def conn_def)
  have at: "conn (upd_conn c (\<lambda>_. ?x) ?s1) c = ?x" using conn_upd[of c ?s1] assms(1) by simp
  have "trySend c f (upd_conn c (\<lambda>_. ?x) ?s1) = (False, upd_conn c (\<lambda>_. ?x) (upd_conn c (\<lambda>_. ?x) ?s1))" for f
    using at assms(2,3) by (simp add: trySend_def conn_def[symmetric] conn_trySend_def nextSeq_def)
  then have "s' = upd_hub (subscribeMarket c chanLevel2 p) (upd_conn c (\<lambda>_. ?x) (upd_conn c (\<lambda>_. ?x) ?s1))"
    using assms(4-6) u s2 by (simp add: subscribeLevel2_def Let_def l2_frame_def)
  moreover have "conn (upd_conn c (\<lambda>_. ?x) (upd_conn c (\<lambda>_. ?x) ?s1)) c = ?x"
    using conn_upd[of c "upd_conn c (\<lambda>_. ?x) ?s1"] assms(1) by simp
  ultimately have "conn s' c = ?x" "sv_broadcaster s' = subscribeMarket c chanLevel2 p (sv_broadcaster s)"
    by (simp_all add: upd_hub_def conn_def)
  then show ?thesis using assms(2)
    by (simp add: watches_def market_conns_subscribe add_conn_set frames_of_def nextSeq_def)
qed

end
