(* ===== verification/CoinbaseEdgeProofs.thy ===== *)
theory CoinbaseEdgeProofs
  imports CoinbaseEdge CoinbaseRegistryProofs CoinbaseStreamsProofs BinanceEdgeProofs
begin

text \<open>
  The Coinbase edge in operation: whatever its clients and everybody else on the engine do, a creation that is
  not answered with an order leaves no trace, and a cancellation succeeds exactly for an order at rest,
  which it takes out of the book once and whose reservation it gives back.
\<close>

subsection \<open>The hooks\<close>

text \<open>What the hooks keep: the order store is coherent, and nothing less than zero is locked.\<close>

definition cb_sound :: "cb_edge \<Rightarrow> bool" where
  "cb_sound s \<longleftrightarrow> cb_coherent (cs_registry s) \<and> (\<exists>l. cs_ledger s = Some l \<and> (\<forall>a. 0 \<le> lk l a))"

lemma cb_soundE:
  assumes "cb_sound s"
  obtains l where "cb_coherent (cs_registry s)" "cs_ledger s = Some l" "\<And>a. 0 \<le> lk l a"
  using assms unfolding cb_sound_def by blast

lemma cb_soundI: "cb_coherent (cs_registry s) \<Longrightarrow> cs_ledger s = Some l \<Longrightarrow> (\<And>a. 0 \<le> lk l a) \<Longrightarrow> cb_sound s"
  unfolding cb_sound_def by blast

text \<open>Once cancelled, an order stays cancelled.\<close>

definition stay_cancelled :: "cb_registry \<Rightarrow> cb_registry \<Rightarrow> bool" where
  "stay_cancelled r r' \<longleftrightarrow> (\<forall>oid. cb_status r oid = statusCancelled \<longrightarrow> cb_status r' oid = statusCancelled)"

lemma stay_cancelledD: "stay_cancelled r r' \<Longrightarrow> cb_status r oid = statusCancelled \<Longrightarrow> cb_status r' oid = statusCancelled"
  unfolding stay_cancelled_def by blast

lemma stay_refl [simp]: "stay_cancelled r r"
  by (simp add: stay_cancelled_def)

lemma stay_trans: "stay_cancelled r r1 \<Longrightarrow> stay_cancelled r1 r2 \<Longrightarrow> stay_cancelled r r2"
  unfolding stay_cancelled_def by blast

lemma stay_put:
  assumes "cr_Status (cg_heap r ! p) = statusCancelled \<Longrightarrow> cr_Status rec = statusCancelled"
  shows "stay_cancelled r (cb_put r p rec)"
  using assms
  by (cases "p < length (cg_heap r)")
    (auto simp: stay_cancelled_def cb_status_def cb_snapshot_def cb_put_def nth_list_update list_update_beyond
      split: option.splits)

lemma applyFill_cancelled:
  "cb_applyFill rec q p n = Some rec' \<Longrightarrow> cr_Status rec = statusCancelled \<Longrightarrow> cr_Status rec' = statusCancelled"
  by (auto simp: cb_applyFill_def bind_eq_Some_conv Let_def split: if_splits)

lemma stay_fillOrder: "cb_fillOrder t n i r = Some r' \<Longrightarrow> stay_cancelled r r'"
  by (auto simp: cb_fillOrder_def bind_eq_Some_conv split: if_splits option.splits intro!: stay_put dest: applyFill_cancelled)

lemma cancelRecord_cancelled: "cr_Status rec = statusCancelled \<Longrightarrow> cr_Status (cb_cancelRecord rec n) = statusCancelled"
  by (simp add: cb_cancelRecord_def)

lemma stay_steps:
  "cb_OnTrade (Some t) n r = Some r' \<Longrightarrow> stay_cancelled r r'"
  "stay_cancelled r (cb_OnCancel x n r)" "stay_cancelled r (cb_MarkCancelled r oid n)"
  by (auto simp: cb_OnTrade_def cb_OnCancel_def cb_MarkCancelled_def bind_eq_Some_conv cancelRecord_cancelled
      split: option.split intro: stay_trans stay_fillOrder stay_put)

text \<open>What a hook may do.\<close>

definition hook_keeps :: "cb_edge \<Rightarrow> cb_edge \<Rightarrow> bool" where
  "hook_keeps s s' \<longleftrightarrow> cb_sound s' \<and> cs_engine s' = cs_engine s \<and> cg_seq (cs_registry s') = cg_seq (cs_registry s) \<and>
     stay_cancelled (cs_registry s) (cs_registry s')"

lemma hook_keeps_refl: "cb_sound s \<Longrightarrow> hook_keeps s s"
  by (simp add: hook_keeps_def)

lemma hook_keeps_trans: "hook_keeps s s1 \<Longrightarrow> hook_keeps s1 s2 \<Longrightarrow> hook_keeps s s2"
  by (auto simp: hook_keeps_def intro: stay_trans)

lemma with_ledger_keeps:
  assumes "cb_sound s" "cb_with_ledger f s = Some s'" "\<And>l l' a. f l = Some l' \<Longrightarrow> (\<And>b. 0 \<le> lk l b) \<Longrightarrow> 0 \<le> lk l' a"
  shows "hook_keeps s s'"
  using assms(1)
proof (rule cb_soundE)
  fix l
  assume l: "cb_coherent (cs_registry s)" "cs_ledger s = Some l" "\<And>a. 0 \<le> lk l a"
  then obtain l' where l': "f l = Some l'" "s' = s\<lparr>cs_ledger := Some l'\<rparr>"
    using assms(2) by (auto simp: cb_with_ledger_def bind_eq_Some_conv)
  have "cb_sound s'" using l l' assms(3) by (intro cb_soundI[of _ l']) simp_all
  then show ?thesis using l'(2) by (simp add: hook_keeps_def)
qed

lemma settle_keeps_locked: "SettleFill l isBuy base quote q p r = Some l' \<Longrightarrow> (\<And>b. 0 \<le> lk l b) \<Longrightarrow> 0 \<le> lk l' a"
  using settle_locked[of l isBuy base quote q p r l'] by (auto split: if_splits)

lemma unlock_keeps_locked: "Unlock l b x = Some l' \<Longrightarrow> (\<And>b. 0 \<le> lk l b) \<Longrightarrow> 0 \<le> lk l' a"
  using release_locked(1)[of l b x l'] by (auto simp: Unlock_def split: if_splits)

lemma settle_side_keeps: "cb_sound s \<Longrightarrow> cb_settle_side t oid s = Some s' \<Longrightarrow> hook_keeps s s'"
  by (auto simp: cb_settle_side_def hook_keeps_refl split: option.splits prod.splits
      intro: with_ledger_keeps settle_keeps_locked)

lemma unlock_keeps: "cb_sound s \<Longrightarrow> cb_unlockRemainder s oid = Some s' \<Longrightarrow> hook_keeps s s'"
  by (auto simp: cb_unlockRemainder_def hook_keeps_refl bind_eq_Some_conv split: option.splits prod.splits if_splits
      intro: with_ledger_keeps unlock_keeps_locked)

lemma run_hook_keeps:
  assumes "cb_sound s" "cb_run_hook m h ev s = Some s'"
  shows "hook_keeps s s'"
  using assms(1)
proof (rule cb_soundE)
  fix l
  assume l: "cb_coherent (cs_registry s)" "cs_ledger s = Some l" "\<And>a. 0 \<le> lk l a"
  have reg: "cb_registry_hook m ev s = Some s' \<Longrightarrow> ?thesis"
    using l cb_coherent_OnTrade[OF l(1)] cb_coherent_OnCancel[OF l(1)] stay_steps
    by (auto simp: cb_registry_hook_def hook_keeps_def bind_eq_Some_conv split: hook_event.splits intro!: cb_soundI[of _ l])
  have str: "cb_stream_hook m ev s = Some s' \<Longrightarrow> ?thesis"
    using l by (auto simp: cb_stream_hook_def with_streams_def hook_keeps_def bind_eq_Some_conv
        split: hook_event.splits intro!: cb_soundI[of _ l])
  have led: "cb_ledger_hook ev s = Some s' \<Longrightarrow> ?thesis"
    using assms(1) settle_side_keeps unlock_keeps hook_keeps_trans
    by (auto simp: cb_ledger_hook_def bind_eq_Some_conv hook_keeps_refl split: hook_event.splits)
      (metis hook_keeps_def)
  show ?thesis using assms(2) reg str led hook_keeps_refl[OF assms(1)] by (auto simp: cb_run_hook_def split: if_splits)
qed

lemma run_calls_keep: "cb_sound s \<Longrightarrow> cb_run_calls m cs s = Some s' \<Longrightarrow> hook_keeps s s'"
proof (induction m cs s rule: cb_run_calls.induct)
  case (1 m s)
  then show ?case by (simp add: hook_keeps_refl)
next
  case (2 m h ev cs s)
  then obtain s1 where s1: "cb_run_hook m h ev s = Some s1" "cb_run_calls m cs s1 = Some s'"
    by (auto simp: bind_eq_Some_conv)
  have "hook_keeps s s1" by (rule run_hook_keeps[OF 2(2) s1(1)])
  with 2(1)[OF s1(1) _ s1(2)] show ?case by (meson hook_keeps_def hook_keeps_trans)
qed

subsection \<open>The invariant of an edge in operation\<close>

definition coinbase_inv :: "cb_edge \<Rightarrow> bool" where
  "coinbase_inv s \<longleftrightarrow> cb_sound s \<and> wf_book (en_book (cs_engine s)) \<and> attached (en_book (cs_engine s))"

lemma coinbase_invD:
  assumes "coinbase_inv s"
  shows "cb_sound s" "wf_book (en_book (cs_engine s))" "attached (en_book (cs_engine s))"
  using assms by (simp_all add: coinbase_inv_def)

text \<open>A step of the engine on a sound book.\<close>

lemma engine_ran_keeps:
  assumes "cb_sound s" "cb_engine_ran m e s = Some s'"
  shows "cb_sound s' \<and> cs_engine s' = e \<and> cg_seq (cs_registry s') = cg_seq (cs_registry s) \<and>
    stay_cancelled (cs_registry s) (cs_registry s')"
proof -
  have "cb_sound (s\<lparr>cs_engine := e\<rparr>)" using assms(1) by (simp add: cb_sound_def)
  from run_calls_keep[OF this] assms(2) show ?thesis by (auto simp: cb_engine_ran_def hook_keeps_def)
qed

lemma fire_hooks [simp]: "ob_hooks (fire b ev) = ob_hooks b"
  by (simp add: fire_def)

lemma commit_hooks [simp]: "ob_hooks (commit b inst ib ts) = ob_hooks b"
proof -
  have "ob_hooks (fold (\<lambda>t b. fire b (EvTrade t)) ts b') = ob_hooks b'" for b'
    by (induction ts arbitrary: b') (simp_all add: fire_def)
  then show ?thesis by (simp add: commit_def put_book_def)
qed

lemma AddLimitOrder_keeps:
  assumes "wf_book b" "AddLimitOrder b ord = Some (res, ord', b')"
  shows "wf_book b' \<and> ob_hooks b' = ob_hooks b"
proof
  show "wf_book b'" using AddLimitOrder_sound[of False b ord] assms by (auto simp: sound_book_def)
  show "ob_hooks b' = ob_hooks b" using assms by (cases rule: AddLimitOrder_outcome) auto
qed

lemma PlaceLimit_keeps:
  assumes "wf_book (en_book e)" "PlaceLimit e ord = Some (pm, ord', e')"
  shows "wf_book (en_book e') \<and> ob_hooks (en_book e') = ob_hooks (en_book e)"
  using assms
proof (cases rule: PlaceLimit_outcome)
  case refused
  then show ?thesis using assms(1) by simp
next
  case (placed ts)
  then show ?thesis using AddLimitOrder_keeps[OF assms(1)] by blast
qed

lemma CancelOrder_keeps:
  assumes "wf_book b" "CancelOrder b inst oid = (res, b')"
  shows "wf_book b' \<and> ob_hooks b' = ob_hooks b"
proof
  show "wf_book b'" using Cancel_sound[of False b inst oid] assms by (simp add: sound_book_def)
  show "ob_hooks b' = ob_hooks b" using assms(2) by (cases rule: CancelOrder_outcome) auto
qed

lemma IOC_keeps:
  assumes "wf_book b" "ExecuteLimitIOC b ord = Some (res, ord', b')"
  shows "wf_book b' \<and> ob_hooks b' = ob_hooks b"
proof (cases "0 < vol ord \<and> ob_instruments b (ord_Instrument ord) \<noteq> None")
  case False
  then have "b' = b" using assms(2) by (auto simp: ExecuteLimitIOC_def lookup_def split: option.splits)
  then show ?thesis using assms(1) by simp
next
  case True
  then obtain ib where ib: "ob_instruments b (ord_Instrument ord) = Some ib" by blast
  have "wf_book b'" using IOC_sound[of False b ord] assms by (auto simp: sound_book_def)
  moreover obtain ib' ord2 ts where "ExecuteLimitIOC b ord = Some (Inr ts, ord2, commit b (ord_Instrument ord) ib' ts)"
    by (rule IOC_known[OF assms(1) ib]) (use True in auto)
  ultimately show ?thesis using assms(2) by simp
qed

lemma attached_hooks: "ob_hooks b' = ob_hooks b \<Longrightarrow> attached b' = attached b"
  by (simp add: attached_def)

lemma ran_inv:
  assumes "coinbase_inv s" "cb_engine_ran m e s = Some s'" "wf_book (en_book e)" "ob_hooks (en_book e) = ob_hooks (en_book (cs_engine s))"
  shows "coinbase_inv s' \<and> cg_seq (cs_registry s') = cg_seq (cs_registry s) \<and> stay_cancelled (cs_registry s) (cs_registry s')"
  using engine_ran_keeps[OF coinbase_invD(1)[OF assms(1)] assms(2)] assms(3,4) coinbase_invD(3)[OF assms(1)] attached_hooks[of "en_book e"]
  by (auto simp: coinbase_inv_def)

lemma limit_inv:
  assumes "coinbase_inv s" "cb_PlaceLimit m ord s = Some (pm, s')"
  shows "coinbase_inv s' \<and> cg_seq (cs_registry s') = cg_seq (cs_registry s)"
proof -
  from assms(2) obtain ord' e where p: "PlaceLimit (cs_engine s) ord = Some (pm, ord', e)" "cb_engine_ran m e s = Some s'"
    by (auto simp: cb_PlaceLimit_def bind_eq_Some_conv)
  show ?thesis using ran_inv[OF assms(1) p(2)] PlaceLimit_keeps[OF coinbase_invD(2)[OF assms(1)] p(1)] by simp
qed

lemma market_inv:
  assumes "coinbase_inv s" "cb_PlaceMarket m ord s = Some (pm, s')"
  shows "coinbase_inv s' \<and> cg_seq (cs_registry s') = cg_seq (cs_registry s)"
proof -
  let ?e = "append_log (cs_engine s) ''order.market'' (snapshotOrder (ord\<lparr>ord_IsMarket := True\<rparr>))"
  from assms(2) obtain ord' e where p: "PlaceLimit ?e (ord\<lparr>ord_IsMarket := True\<rparr>) = Some (pm, ord', e)" "cb_engine_ran m e s = Some s'"
    by (auto simp: cb_PlaceMarket_def PlaceMarket_def Let_def bind_eq_Some_conv)
  have log: "en_book ?e = en_book (cs_engine s)" by (simp add: append_log_def)
  then have "wf_book (en_book ?e)" using coinbase_invD(2)[OF assms(1)] by simp
  from PlaceLimit_keeps[OF this p(1)] log show ?thesis using ran_inv[OF assms(1) p(2)] by simp
qed

definition cb_ExecuteIOC :: "moment \<Rightarrow> order \<Rightarrow> cb_edge \<Rightarrow> ((engine_error + trade list) \<times> cb_edge) option" where
  "cb_ExecuteIOC m ord s = do {
     (res, ord', e) \<leftarrow> ExecuteIOC (cs_engine s) ord; s \<leftarrow> cb_engine_ran m e s; Some (res, s) }"

lemma ioc_inv:
  assumes "coinbase_inv s" "cb_ExecuteIOC m ord s = Some (res, s')"
  shows "coinbase_inv s' \<and> cg_seq (cs_registry s') = cg_seq (cs_registry s)"
proof -
  let ?b = "en_book (cs_engine s)"
  from assms(2) obtain ord' e where p: "ExecuteIOC (cs_engine s) ord = Some (res, ord', e)" "cb_engine_ran m e s = Some s'"
    by (auto simp: cb_ExecuteIOC_def bind_eq_Some_conv)
  from p(1) consider "en_book e = ?b" | r2 ord2 where "ExecuteLimitIOC ?b ord = Some (r2, ord2, en_book e)"
    by (auto simp: ExecuteIOC_def append_log_def bind_eq_Some_conv split: option.splits)
  then have "wf_book (en_book e) \<and> ob_hooks (en_book e) = ob_hooks ?b"
    using coinbase_invD(2)[OF assms(1)] IOC_keeps by cases auto
  then show ?thesis using ran_inv[OF assms(1) p(2)] by simp
qed

lemma cancel_inv:
  assumes "coinbase_inv s" "cb_CancelOrder m inst oid s = Some (res, s')"
  shows "coinbase_inv s' \<and> cg_seq (cs_registry s') = cg_seq (cs_registry s) \<and> stay_cancelled (cs_registry s) (cs_registry s')"
proof -
  obtain b where b: "CancelOrder (en_book (cs_engine s)) inst oid = (res, b)"
    "cb_engine_ran m ((append_log (cs_engine s) ''order.cancel'' (CancelPayload oid inst))\<lparr>en_book := b\<rparr>) s = Some s'"
    using assms(2) by (auto simp: cb_CancelOrder_def engine_CancelOrder_def Let_def append_log_def bind_eq_Some_conv split: prod.splits)
  show ?thesis using ran_inv[OF assms(1) b(2)] CancelOrder_keeps[OF coinbase_invD(2)[OF assms(1)] b(1)] by simp
qed

lemma mark_inv:
  assumes "coinbase_inv s"
  shows "coinbase_inv (s\<lparr>cs_registry := cb_MarkCancelled (cs_registry s) oid n\<rparr>)"
  using assms cb_coherent_MarkCancelled by (auto simp: coinbase_inv_def cb_sound_def)

lemma cancelOne_inv:
  assumes "coinbase_inv s" "cancelOne m oid s = Some (res, s')"
  shows "coinbase_inv s' \<and> cg_seq (cs_registry s') = cg_seq (cs_registry s) \<and> stay_cancelled (cs_registry s) (cs_registry s')"
proof -
  from assms(2) consider "s' = s"
    | (asked) inst eid r s1 where "cb_CancelOrder m inst eid s = Some (r, s1)"
        "s' = s1 \<or> s' = s1\<lparr>cs_registry := cb_MarkCancelled (cs_registry s1) oid (mo_ms m)\<rparr>"
    by (auto simp: cancelOne_def Let_def bind_eq_Some_conv split: option.splits if_splits sum.splits)
  then show ?thesis
  proof cases
    case asked
    from cancel_inv[OF assms(1) asked(1)] asked(2) mark_inv[of s1 oid "mo_ms m"] stay_steps(3)[of "cs_registry s1" oid "mo_ms m"]
      cb_coherent_MarkCancelled[of "cs_registry s1" oid "mo_ms m"]
    show ?thesis by (auto simp: coinbase_inv_def cb_sound_def intro: stay_trans)
  qed (use assms(1) in simp)
qed

lemma cancel_each_inv:
  "coinbase_inv s \<Longrightarrow> cancel_each m ids s = Some (xs, s') \<Longrightarrow>
    coinbase_inv s' \<and> cg_seq (cs_registry s') = cg_seq (cs_registry s)"
proof (induction ids arbitrary: s xs)
  case Nil
  then show ?case by simp
next
  case (Cons i ids)
  then obtain x s1 ys where "cancelOne m i s = Some (x, s1)" "cancel_each m ids s1 = Some (ys, s')"
    by (auto simp: bind_eq_Some_conv)
  with cancelOne_inv[OF Cons.prems(1)] Cons.IH show ?case by metis
qed

subsection \<open>Placing\<close>

text \<open>A new record, and what its removal leaves.\<close>

lemma cb_Record_effect:
  assumes co: "cb_coherent r" and room: "sint (cg_seq r) < 2 ^ 63 - 1" and rec: "cb_Record r product sd kind po px sz c t = (k, r')"
  shows "cb_coherent r'" "sint (cg_seq r') = sint (cg_seq r) + 1" "cr_EngineID (cg_heap r' ! k) = cb_EngineID (sint (cg_seq r'))"
    "cr_OrderID (cg_heap r' ! k) = cb_orderID (sint (cg_seq r'))"
    "cb_getByEngine (cb_Remove r' (cr_OrderID (cg_heap r' ! k))) = cb_getByEngine r"
    "cb_Get (cb_Remove r' (cr_OrderID (cg_heap r' ! k))) = cb_Get r"
proof -
  note new = cb_coherent_Record[OF co room rec]
  show "cb_coherent r'" "sint (cg_seq r') = sint (cg_seq r) + 1" using new by blast+
  define n where "n = sint (cg_seq r')"
  have n: "n = sint (cg_seq r) + 1" "1 \<le> n" using new cb_coherentD(2)[OF co] by (simp_all add: n_def)
  have seq: "sint (cg_seq r + 1) = n" using next_seq[OF cb_coherentD(2)[OF co] room] n by simp
  obtain x where x: "cg_heap r' = cg_heap r @ [x]" "cr_OrderID x = cb_orderID n" "cr_EngineID x = cb_EngineID n" "k = length (cg_heap r)"
    "cg_byOrderID r' = AList.update (cb_orderID n) k (cg_byOrderID r)" "cg_byEngine r' = (cg_byEngine r)(cb_EngineID n \<mapsto> k)"
    using rec by (auto simp: cb_Record_def cb_nextID_def Let_def seq)
  then show ids: "cr_EngineID (cg_heap r' ! k) = cb_EngineID (sint (cg_seq r'))" "cr_OrderID (cg_heap r' ! k) = cb_orderID (sint (cg_seq r'))"
    by (simp_all add: n_def)
  have fresh: "map_of (cg_byOrderID r) (cb_orderID n) = None" "cg_byEngine r (cb_EngineID n) = None"
  proof -
    have none: "\<not> cb_tracked r n p" for p using n by (simp add: cb_tracked_def)
    have "\<not> cb_tracked r n' p" if "cb_orderID n = cb_orderID n' \<or> cb_EngineID n = cb_EngineID n'" for n' p
      using none[of p] that cb_id_inj[OF n(2), of n'] by (cases "1 \<le> n'") (auto simp: cb_tracked_def)
    then show "map_of (cg_byOrderID r) (cb_orderID n) = None" "cg_byEngine r (cb_EngineID n) = None"
      using cb_coherentD(3)[OF co] cb_coherentD(5)[OF co] by (meson not_None_eq)+
  qed
  have del: "cb_Remove r' (cb_orderID n) = r'\<lparr>cg_byOrderID := AList.delete (cb_orderID n) (cg_byOrderID r'),
      cg_byEngine := cg_byEngine r, cg_byClient := (cg_byClient r')(cr_ClientOrderID x := None)\<rparr>"
    using x fresh by (simp add: cb_Remove_def map_of_update_eq Let_def fun_upd_idem)
  have old: "(\<forall>e p. cg_byEngine r e = Some p \<longrightarrow> p < k) \<and> (\<forall>i p. map_of (cg_byOrderID r) i = Some p \<longrightarrow> p < k)"
    using cb_coherentD(3-5)[OF co] x(4) by metis
  have own: "cr_OrderID (cg_heap r' ! k) = cb_orderID n" using ids(2) n_def by simp
  show "cb_getByEngine (cb_Remove r' (cr_OrderID (cg_heap r' ! k))) = cb_getByEngine r"
    unfolding own del using old x(1)
    by (auto simp: cb_getByEngine_def fun_eq_iff nth_append x(4) split: option.splits intro!: map_option_cong)
  show "cb_Get (cb_Remove r' (cr_OrderID (cg_heap r' ! k))) = cb_Get r"
  proof
    fix i
    show "cb_Get (cb_Remove r' (cr_OrderID (cg_heap r' ! k))) i = cb_Get r i"
      unfolding own del using old x(1,5) fresh(1)
      by (auto simp: cb_Get_def map_of_delete_eq map_of_update_eq nth_append x(4) intro!: map_option_cong)
  qed
qed

text \<open>What is reserved.\<close>

definition well_priced :: "create_order \<Rightarrow> bool" where
  "well_priced p \<longleftrightarrow> 0 < toBig (cp_size p) \<and> (\<not> cp_isMarket p \<longrightarrow> 0 < toBig (cp_price p))"

lemma parse_create_priced: "parse_create streams req = Inr p \<Longrightarrow> well_priced p"
  by (auto simp: parse_create_def parse_config_def well_priced_def Sign_spec sgn_int_simps
      split: option.splits sum.splits if_splits prod.splits)

lemma cb_reserve_effect:
  assumes "cb_reserve p s = Some ((ok, asset, amt), s2)" "cs_ledger s = Some l" "well_priced p"
  shows "\<exists>l'. s2 = s\<lparr>cs_ledger := Some l'\<rparr> \<and> 0 \<le> toBig amt \<and>
    (\<forall>a. lk l' a = lk l a + (if ok \<and> a = asset then toBig amt else 0)) \<and>
    (\<forall>a. fr l' a = fr l a - (if ok \<and> a = asset then toBig amt else 0))"
proof (cases "cp_isMarket p")
  case True
  then show ?thesis using assms(1,2) by (intro exI[of _ l]) (auto simp: cb_reserve_def toBig_Zero)
next
  case False
  obtain base quote where bq: "splitProduct (cp_ProductID p) = (base, quote)" by fastforce
  from assms(1,2) False bq obtain l' where amt: "if cp_side p = SideBuy then Mul (cp_price p) (cp_size p) = Some amt \<and> asset = quote
      else amt = cp_size p \<and> asset = base" and l': "Lock l asset amt = Some (ok, l')" "s2 = s\<lparr>cs_ledger := Some l'\<rparr>"
    by (auto simp: cb_reserve_def bind_eq_Some_conv split: if_splits)
  have nn: "0 \<le> toBig amt"
    using amt assms(3) False Mul_prod[of "cp_price p" "cp_size p" amt] prod_nonneg by (auto simp: well_priced_def split: if_splits)
  have acc: "account_of l' = spec_lock (account_of l) asset (toBig amt)" "ok \<longleftrightarrow> toBig amt \<le> 0 \<or> toBig amt \<le> fr l asset"
    using Lock_refines[OF l'(1)] by simp_all
  have "lk l' a = lk l a + (if ok \<and> a = asset then toBig amt else 0) \<and> fr l' a = fr l a - (if ok \<and> a = asset then toBig amt else 0)" for a
    using acc nn by (auto simp: account_of_def split: if_splits)
  then show ?thesis using l'(2) nn by (intro exI[of _ l']) simp
qed

text \<open>A refused order changes nothing but the log.\<close>

lemma entered:
  assumes "coinbase_inv s" "(if mk then cb_PlaceMarket m ord s else cb_PlaceLimit m ord s) = Some (pm, s')"
  shows "coinbase_inv s' \<and> cg_seq (cs_registry s') = cg_seq (cs_registry s) \<and>
    (pm_error pm \<noteq> None \<longrightarrow> (\<exists>e. s' = s\<lparr>cs_engine := e\<rparr> \<and> en_book e = en_book (cs_engine s)))"
proof -
  have "\<exists>e. s' = s\<lparr>cs_engine := e\<rparr> \<and> en_book e = en_book (cs_engine s)" if err: "pm_error pm \<noteq> None"
  proof -
    let ?e = "append_log (cs_engine s) ''order.market'' (snapshotOrder (ord\<lparr>ord_IsMarket := True\<rparr>))"
    from assms(2) obtain e0 x ord' e where p: "PlaceLimit e0 x = Some (pm, ord', e)" "cb_engine_ran m e s = Some s'"
      "en_book e0 = en_book (cs_engine s)"
      by (auto simp: cb_PlaceMarket_def cb_PlaceLimit_def PlaceMarket_def Let_def append_log_def bind_eq_Some_conv split: if_splits)
    have "wf_book (en_book e0)" using coinbase_invD(2)[OF assms(1)] p(3) by simp
    from this p(1) have "en_book e = en_book e0" by (cases rule: PlaceLimit_outcome) (use err in simp_all)
    with p(2,3) show ?thesis by (intro exI[of _ e]) (simp add: cb_engine_ran_def)
  qed
  moreover have "coinbase_inv s' \<and> cg_seq (cs_registry s') = cg_seq (cs_registry s)"
    using assms limit_inv market_inv by (metis (full_types))
  ultimately show ?thesis by blast
qed

text \<open>Nothing happened that anybody could see.\<close>

definition no_trace :: "cb_edge \<Rightarrow> cb_edge \<Rightarrow> bool" where
  "no_trace s s' \<longleftrightarrow> cb_Get (cs_registry s') = cb_Get (cs_registry s) \<and>
     cb_getByEngine (cs_registry s') = cb_getByEngine (cs_registry s) \<and>
     ob_instruments (en_book (cs_engine s')) = ob_instruments (en_book (cs_engine s)) \<and>
     map_option account_of (cs_ledger s') = map_option account_of (cs_ledger s)"

fun is_created :: "cb_error + cb_answer \<Rightarrow> bool" where
  "is_created (Inr (OrderCreated oid product side client config)) \<longleftrightarrow> True"
| "is_created _ \<longleftrightarrow> False"

lemma create_placed_effect:
  assumes inv: "coinbase_inv s" and priced: "well_priced p" and room: "sint (cg_seq (cs_registry s)) < 2 ^ 63 - 1"
    and run: "create_placed em m p s = Some (res, s')"
  shows "coinbase_inv s' \<and> sint (cg_seq (cs_registry s')) \<le> sint (cg_seq (cs_registry s)) + 1 \<and>
    (is_created res \<or> no_trace s s')"
proof -
  obtain l where l: "cb_coherent (cs_registry s)" "cs_ledger s = Some l" "\<And>a. 0 \<le> lk l a"
    by (rule cb_soundE[OF coinbase_invD(1)[OF inv]]) blast
  obtain ok asset amt s1 where r: "cb_reserve p s = Some ((ok, asset, amt), s1)"
    using run by (auto simp: create_placed_def bind_eq_Some_conv)
  from cb_reserve_effect[OF r l(2) priced] obtain l' where l': "s1 = s\<lparr>cs_ledger := Some l'\<rparr>" "0 \<le> toBig amt"
    "\<And>a. lk l' a = lk l a + (if ok \<and> a = asset then toBig amt else 0)"
    "\<And>a. fr l' a = fr l a - (if ok \<and> a = asset then toBig amt else 0)" by blast
  have locked: "0 \<le> lk l' a" for a using l(3)[of a] l'(2,3) by simp
  have inv1: "coinbase_inv (s1\<lparr>cs_registry := r'\<rparr>)" if "cb_coherent r'" for r'
    using inv that locked by (auto simp: coinbase_inv_def l'(1) intro!: cb_soundI[of _ l'])
  show ?thesis
  proof (cases ok)
    case False
    then have "s' = s1" using run r by (simp add: create_placed_def)
    moreover have "account_of l' = account_of l" using False l'(3,4) by (simp add: account_of_def fun_eq_iff)
    ultimately show ?thesis using inv1[OF l(1)] l(2) l'(1) by (simp add: no_trace_def)
  next
    case True
    obtain k r' where rec: "cb_Record (cs_registry s1) (cp_ProductID p) (cp_Side p) (cp_orderType p) (cp_postOnly p) (cp_price p)
        (cp_size p) (cp_ClientOrderID p) (mo_ms m) = (k, r')" by fastforce
    have same: "cs_registry s1 = cs_registry s" using l'(1) by simp
    note new = cb_Record_effect[OF l(1) room rec[unfolded same]]
    let ?s2 = "s1\<lparr>cs_registry := r'\<rparr>" and ?rc = "cg_heap r' ! k"
    from run r rec True obtain pm s3 where ran: "(if cp_isMarket p then cb_PlaceMarket m (cb_order p ?rc) ?s2
        else cb_PlaceLimit m (cb_order p ?rc) ?s2) = Some (pm, s3)"
      and fin: "(case pm_error pm of
            Some e \<Rightarrow> do {
              let s = s3\<lparr>cs_registry := cb_Remove (cs_registry s3) (cr_OrderID ?rc)\<rparr>;
              s \<leftarrow> cb_with_ledger (\<lambda>l. Unlock l asset amt) s;
              Some (Inr (OrderRejected ''INTERNAL'' (em e) ''UNKNOWN_FAILURE_REASON''), s)
            }
          | None \<Rightarrow> do {
              s \<leftarrow> with_streams (EmitUserByOrderID (mo_text m) (cs_registry s3) (cr_OrderID ?rc)) s3;
              Some (Inr (OrderCreated (cr_OrderID ?rc) (cp_ProductID p) (cp_Side p) (cr_ClientOrderID ?rc) (cp_config p)), s)
            }) = Some (res, s')"
      by (auto simp: create_placed_def Let_def bind_eq_Some_conv split del: if_split)
    note ent = entered[OF inv1[OF new(1)] ran]
    show ?thesis
    proof (cases "pm_error pm")
      case None
      then have "is_created res" "coinbase_inv s'" "cs_registry s' = cs_registry s3"
        using fin ent by (auto simp: with_streams_def bind_eq_Some_conv coinbase_inv_def cb_sound_def)
      then show ?thesis using ent new(2) by simp
    next
      case (Some e)
      then obtain eng where eng: "s3 = ?s2\<lparr>cs_engine := eng\<rparr>" "en_book eng = en_book (cs_engine s)" using ent l'(1) by auto
      from fin Some eng(1) l'(1) obtain l2 where un: "Unlock l' asset amt = Some l2"
        and s': "s' = s\<lparr>cs_ledger := Some l2, cs_engine := eng, cs_registry := cb_Remove r' (cr_OrderID ?rc)\<rparr>"
        by (auto simp: Let_def cb_with_ledger_def bind_eq_Some_conv)
      have "min (toBig amt) (lk l' asset) = toBig amt" using l'(3)[of asset] l(3)[of asset] True by simp
      then have restored: "lk l2 a = lk l a" "fr l2 a = fr l a" for a
        using un release_locked[of l' asset amt l2] l'(2-4) True by (auto simp: Unlock_def Sign_le_0 split: if_splits)
      have co: "cb_coherent (cb_Remove r' (cr_OrderID ?rc))" "cg_seq (cb_Remove r' (cr_OrderID ?rc)) = cg_seq r'"
        using cb_coherent_Remove[OF new(1)] by blast+
      have "coinbase_inv s'" using inv co(1) restored l(3) eng(2) s'
        by (auto simp: coinbase_inv_def intro!: cb_soundI[of _ l2])
      moreover have "no_trace s s'" using s' new(5,6) restored l(2) eng(2) by (simp add: no_trace_def account_of_def fun_eq_iff)
      ultimately show ?thesis using s' co(2) new(2) by simp
    qed
  qed
qed

subsection \<open>The edge in operation\<close>

text \<open>What happens to an edge: requests, orders and cancellations of other clients of the engine (whatever their
  identifiers), hooks of others, whatever happens on the sockets, and transfers of funds.\<close>

datatype coinbase_event =
    CreateRequest moment cb_request "createOrderRequest option"
  | CancelRequest moment cb_request "string list option"
  | EngineLimit moment order
  | EngineMarket moment order
  | EngineIOC moment order
  | EngineCancel moment string string
  | ForeignHook nat
  | Sockets cb_streams
  | Funds ledger_op

fun coinbase_step :: "cb_verifier \<Rightarrow> (engine_error \<Rightarrow> string) \<Rightarrow> coinbase_event \<Rightarrow> cb_edge \<Rightarrow> cb_edge option" where
  "coinbase_step verify em (CreateRequest m rq body) s = map_option snd (handleCreateOrder verify em m rq body s)"
| "coinbase_step verify em (CancelRequest m rq body) s = map_option snd (handleBatchCancel verify m rq body s)"
| "coinbase_step verify em (EngineLimit m ord) s = map_option snd (cb_PlaceLimit m ord s)"
| "coinbase_step verify em (EngineMarket m ord) s = map_option snd (cb_PlaceMarket m ord s)"
| "coinbase_step verify em (EngineIOC m ord) s = map_option snd (cb_ExecuteIOC m ord s)"
| "coinbase_step verify em (EngineCancel m inst oid) s = map_option snd (cb_CancelOrder m inst oid s)"
| "coinbase_step verify em (ForeignHook h) s =
     Some (if h < 3 then s else s\<lparr>cs_engine := (cs_engine s)\<lparr>en_book := RegisterHook (en_book (cs_engine s)) h\<rparr>\<rparr>)"
| "coinbase_step verify em (Sockets st) s = Some (s\<lparr>cs_streams := st\<rparr>)"
| "coinbase_step verify em (Funds op) s = (if transfer_op op then cb_with_ledger (ledger_step op) s else Some s)"

text \<open>The edge at its start: nothing recorded, nothing at rest, nothing locked, its hooks on the book.\<close>

definition new_coinbase ::
    "(nat \<Rightarrow> go_time) \<Rightarrow> string list \<Rightarrow> validator \<Rightarrow> (string, decimal) gomap \<Rightarrow> cb_streams \<Rightarrow> cb_edge" where
  "new_coinbase clock products margin initial streams = cb_AttachHooks
     \<lparr>cs_engine = engine_New (NewOrderBook clock products) margin, cs_registry = cb_NewRegistry,
      cs_ledger = Some (NewLedger initial), cs_accounts = [], cs_streams = streams\<rparr>"

definition coinbase_ran ::
    "cb_verifier \<Rightarrow> (engine_error \<Rightarrow> string) \<Rightarrow> coinbase_event list \<Rightarrow> cb_edge \<Rightarrow> bool" where
  "coinbase_ran verify em evs s \<longleftrightarrow> (\<exists>clock products margin initial streams.
     run_ops (coinbase_step verify em) evs (new_coinbase clock products margin initial streams) = Some s)"

lemma post_signed_cases:
  assumes "post_signed verify rq body malformed h s = Some (res, s')"
  obtains "s' = s" "\<exists>e. res = Inl e" | b where "body = Some b" "h b s = Some (res, s')"
  using assms by (auto simp: post_signed_def split: if_splits option.splits)

lemma handleCreate_effect:
  assumes "coinbase_inv s" "sint (cg_seq (cs_registry s)) < 2 ^ 63 - 1" "handleCreateOrder verify em m rq body s = Some (res, s')"
  shows "coinbase_inv s' \<and> sint (cg_seq (cs_registry s')) \<le> sint (cg_seq (cs_registry s)) + 1 \<and> (is_created res \<or> no_trace s s')"
  using assms(3)[unfolded handleCreateOrder_def]
proof (cases rule: post_signed_cases)
  case 1
  then show ?thesis using assms(1) by (simp add: no_trace_def)
next
  case (2 b)
  show ?thesis
  proof (cases "parse_create (cs_streams s) b")
    case (Inl e)
    then show ?thesis using 2(2) assms(1) by (simp add: no_trace_def)
  next
    case (Inr p)
    then show ?thesis using 2(2) create_placed_effect[OF assms(1) parse_create_priced[OF Inr] assms(2)] by simp
  qed
qed

lemma coinbase_step_inv:
  assumes "coinbase_inv s" "sint (cg_seq (cs_registry s)) < 2 ^ 63 - 1" "coinbase_step verify em ev s = Some s'"
  shows "coinbase_inv s' \<and> sint (cg_seq (cs_registry s')) \<le> sint (cg_seq (cs_registry s)) + 1"
proof (cases ev)
  case (CreateRequest m rq body)
  then show ?thesis using handleCreate_effect[OF assms(1,2)] assms(3) by force
next
  case (CancelRequest m rq body)
  then obtain res where "handleBatchCancel verify m rq body s = Some (res, s')" using assms(3) by auto
  then show ?thesis unfolding handleBatchCancel_def
    by (cases rule: post_signed_cases) (use assms(1) in \<open>auto simp: bind_eq_Some_conv dest: cancel_each_inv\<close>)
next
  case (Funds op)
  obtain l where l: "cb_coherent (cs_registry s)" "cs_ledger s = Some l" "\<And>a. 0 \<le> lk l a"
    by (rule cb_soundE[OF coinbase_invD(1)[OF assms(1)]]) blast
  show ?thesis
  proof (cases "transfer_op op")
    case True
    then obtain l' where l': "ledger_step op l = Some l'" "s' = s\<lparr>cs_ledger := Some l'\<rparr>"
      using Funds assms(3) l(2) by (auto simp: cb_with_ledger_def bind_eq_Some_conv)
    then show ?thesis using assms(1) l transfer_locked[OF True l'(1)]
      by (auto simp: coinbase_inv_def intro!: cb_soundI[of _ l'])
  qed (use Funds assms in simp)
next
  case (EngineLimit m ord)
  then show ?thesis using limit_inv[OF assms(1)] assms(3) by auto
next
  case (EngineMarket m ord)
  then show ?thesis using market_inv[OF assms(1)] assms(3) by auto
next
  case (EngineIOC m ord)
  then show ?thesis using ioc_inv[OF assms(1)] assms(3) by auto
next
  case (EngineCancel m inst oid)
  then show ?thesis using cancel_inv[OF assms(1)] assms(3) by auto
next
  case (ForeignHook h)
  then show ?thesis using assms(1,3)
    by (auto simp: coinbase_inv_def cb_sound_def attached_def RegisterHook_def wf_book_def split: if_splits)
next
  case (Sockets st)
  then show ?thesis using assms(1,3) by (auto simp: coinbase_inv_def cb_sound_def)
qed

lemma coinbase_run_inv:
  "coinbase_inv s \<Longrightarrow> sint (cg_seq (cs_registry s)) + int (length evs) < 2 ^ 63 \<Longrightarrow>
    run_ops (coinbase_step verify em) evs s = Some s' \<Longrightarrow>
    coinbase_inv s' \<and> sint (cg_seq (cs_registry s')) \<le> sint (cg_seq (cs_registry s)) + int (length evs)"
proof (induction evs arbitrary: s)
  case Nil
  then show ?case by simp
next
  case (Cons ev evs)
  then obtain s1 where s1: "coinbase_step verify em ev s = Some s1" "run_ops (coinbase_step verify em) evs s1 = Some s'"
    by (auto simp: bind_eq_Some_conv)
  have "sint (cg_seq (cs_registry s)) < 2 ^ 63 - 1" using Cons.prems(2) by simp
  from coinbase_step_inv[OF Cons.prems(1) this s1(1)] Cons.prems(2) Cons.IH[OF _ _ s1(2)] show ?case by simp
qed

lemma coinbase_sound:
  assumes "coinbase_ran verify em evs s" "int (length evs) < 2 ^ 63 - 1"
  shows "coinbase_inv s \<and> sint (cg_seq (cs_registry s)) < 2 ^ 63 - 1"
proof -
  obtain clock products margin initial streams where
    run: "run_ops (coinbase_step verify em) evs (new_coinbase clock products margin initial streams) = Some s"
    using assms(1) unfolding coinbase_ran_def by blast
  let ?s0 = "new_coinbase clock products margin initial streams"
  have "sound_book False (NewOrderBook clock products)" by (rule NewOrderBook_sound)
  then have "wf_book (en_book (cs_engine ?s0))"
    by (simp add: new_coinbase_def cb_AttachHooks_def engine_New_def Let_def RegisterHook_def sound_book_def wf_book_def)
  moreover have "attached (en_book (cs_engine ?s0))"
    by (simp add: new_coinbase_def cb_AttachHooks_def engine_New_def Let_def RegisterHook_def NewOrderBook_def attached_def)
  moreover have "cb_sound ?s0"
    by (rule cb_soundI[of _ "NewLedger initial"])
      (simp_all add: new_coinbase_def cb_AttachHooks_def Let_def cb_coherent_new NewLedger_locked)
  ultimately have "coinbase_inv ?s0" by (simp add: coinbase_inv_def)
  moreover have "sint (cg_seq (cs_registry ?s0)) = 0"
    by (simp add: new_coinbase_def cb_AttachHooks_def Let_def cb_NewRegistry_def)
  ultimately show ?thesis using coinbase_run_inv[of ?s0 evs verify em s] run assms(2) by simp
qed

subsection \<open>A cancellation\<close>

lemma cb_run_calls_ours: "cb_run_calls m cs s = cb_run_calls m (ours cs) s"
  by (induction m cs s rule: cb_run_calls.induct) (auto simp: cb_run_hook_def split: Option.bind_splits)

lemma cb_run_hooked:
  assumes "cb_run_calls m (hooked ev) s = Some s'"
  obtains s1 s2 where "cb_registry_hook m ev s = Some s1" "cb_stream_hook m ev s1 = Some s2" "cb_ledger_hook ev s2 = Some s'"
  using assms that by (auto simp: cb_run_hook_def bind_eq_Some_conv)

text \<open>An order the store knows, by either identifier.\<close>

lemma got_position:
  assumes "cb_coherent r" "cb_Get r oid = Some rec"
  obtains p n where "map_of (cg_byOrderID r) oid = Some p" "rec = cg_heap r ! p" "p < length (cg_heap r)"
    "cg_byEngine r (cr_EngineID rec) = Some p" "cr_EngineID rec = cb_EngineID n"
proof -
  from assms(2) obtain p where p: "map_of (cg_byOrderID r) oid = Some p" "rec = cg_heap r ! p" by (auto simp: cb_Get_def)
  from cb_coherentD(3)[OF assms(1) p(1)] obtain n where n: "cb_tracked r n p" by blast
  from cb_coherentD(4)[OF assms(1) n] cb_coherentD(5)[OF assms(1), of "cb_EngineID n" p] n p that show thesis by auto
qed

lemma cb_status_Get: "cb_Get r oid = Some rec \<Longrightarrow> cb_status r oid = cr_Status rec"
  by (auto simp: cb_status_def cb_snapshot_def cb_Get_def)

lemma cancelled_record:
  assumes "cb_coherent r" "cb_Get r oid = Some rec" "ord_ID x = cr_EngineID rec"
  shows "cb_getByEngine (cb_OnCancel (Some x) n r) (cr_EngineID rec) = Some (cb_cancelRecord rec n)"
    "cb_Get (cb_OnCancel (Some x) n r) oid = Some (cb_cancelRecord rec n)"
    "cb_Get (cb_MarkCancelled r oid n) oid = Some (cb_cancelRecord rec n)"
proof -
  obtain p k where p: "map_of (cg_byOrderID r) oid = Some p" "rec = cg_heap r ! p" "p < length (cg_heap r)"
    "cg_byEngine r (cr_EngineID rec) = Some p" "cr_EngineID rec = cb_EngineID k" by (rule got_position[OF assms(1,2)])
  have "cb_OnCancel (Some x) n r = cb_put r p (cb_cancelRecord rec n)" "cb_MarkCancelled r oid n = cb_put r p (cb_cancelRecord rec n)"
    using p assms(3) by (simp_all add: cb_OnCancel_def cb_MarkCancelled_def)
  then show "cb_getByEngine (cb_OnCancel (Some x) n r) (cr_EngineID rec) = Some (cb_cancelRecord rec n)"
    "cb_Get (cb_OnCancel (Some x) n r) oid = Some (cb_cancelRecord rec n)"
    "cb_Get (cb_MarkCancelled r oid n) oid = Some (cb_cancelRecord rec n)"
    using p by (simp_all add: cb_getByEngine_def cb_Get_def cb_put_def)
qed

text \<open>What a cancelled order gives back: its unfilled part, at its price if it buys.\<close>

definition give_back :: "cb_record \<Rightarrow> account \<Rightarrow> account" where
  "give_back rec acc =
     (let rest = toBig (cr_OrigSize rec) - toBig (cr_FilledSize rec); (base, quote) = splitProduct (cr_ProductID rec);
          (asset, amt) = (if cr_Side rec = ''BUY'' then (quote, prod rest (toBig (cr_Price rec))) else (base, rest))
      in if cr_OrderType rec \<noteq> ''LIMIT'' \<or> rest \<le> 0 \<or> amt \<le> 0 then acc else spec_release acc asset amt)"

lemma give_back_cancelled: "give_back (cb_cancelRecord rec n) = give_back rec"
  by (rule ext) (auto simp: give_back_def cb_cancelRecord_def Let_def split: prod.split)

lemma unlock_refines: "Unlock l a x = Some l' \<Longrightarrow> account_of l' = (if toBig x \<le> 0 then account_of l else spec_release (account_of l) a (toBig x))"
  using release_refines[of l a x l'] by (auto simp: Unlock_def Sign_le_0 split: if_splits)

lemma cb_unlock_effect:
  assumes "cb_getByEngine (cs_registry s) e = Some rec" "cs_ledger s = Some l" "cb_unlockRemainder s e = Some s'"
  shows "\<exists>l'. s' = s\<lparr>cs_ledger := Some l'\<rparr> \<and> account_of l' = give_back rec (account_of l)"
proof (cases "cr_OrderType rec = ''LIMIT''")
  case False
  then show ?thesis using assms by (intro exI[of _ l]) (auto simp: cb_unlockRemainder_def give_back_def Let_def split: prod.split)
next
  case True
  obtain base quote where bq: "splitProduct (cr_ProductID rec) = (base, quote)" by fastforce
  from assms(1,3) True obtain d where d: "Sub (cr_OrigSize rec) (cr_FilledSize rec) = Some d"
    by (auto simp: cb_unlockRemainder_def bind_eq_Some_conv)
  then have rest: "toBig d = toBig (cr_OrigSize rec) - toBig (cr_FilledSize rec)" by (simp add: Sub_spec fromBigChecked_Some)
  show ?thesis
  proof (cases "toBig d \<le> 0")
    case True
    then show ?thesis using assms d \<open>cr_OrderType rec = ''LIMIT''\<close> rest
      by (intro exI[of _ l]) (auto simp: cb_unlockRemainder_def give_back_def Let_def Sign_le_0 split: prod.split)
  next
    case pos: False
    with assms d True bq obtain asset amt l' where un: "Unlock l asset amt = Some l'" "s' = s\<lparr>cs_ledger := Some l'\<rparr>"
      and amt: "if cr_Side rec = ''BUY'' then asset = quote \<and> Mul d (cr_Price rec) = Some amt else asset = base \<and> amt = d"
      by (auto simp: cb_unlockRemainder_def Sign_le_0 cb_with_ledger_def bind_eq_Some_conv split: if_splits)
    have "toBig amt = (if cr_Side rec = ''BUY'' then prod (toBig d) (toBig (cr_Price rec)) else toBig d)"
      using amt Mul_prod[of d "cr_Price rec" amt] by (auto split: if_splits)
    then show ?thesis using unlock_refines[OF un(1)] un(2) amt bq pos True rest
      by (intro exI[of _ l']) (auto simp: give_back_def Let_def split: if_splits)
  qed
qed

text \<open>The hooks for the cancellation of an order the store knows.\<close>

lemma cb_cancel_hooks:
  assumes "cb_coherent (cs_registry s)" "cb_Get (cs_registry s) oid = Some rec" "ord_ID x = cr_EngineID rec" "cs_ledger s = Some l"
    "cb_run_calls m (hooked (EvCancel x)) s = Some s'"
  shows "cs_engine s' = cs_engine s \<and> cs_registry s' = cb_OnCancel (Some x) (mo_ms m) (cs_registry s) \<and>
    (\<exists>l'. cs_ledger s' = Some l' \<and> account_of l' = give_back rec (account_of l))"
proof -
  from assms(5) obtain s1 s2 where s1: "cb_registry_hook m (EvCancel x) s = Some s1" "cb_stream_hook m (EvCancel x) s1 = Some s2"
    and s': "cb_unlockRemainder s2 (cr_EngineID rec) = Some s'"
    by (rule cb_run_hooked) (simp add: cb_ledger_hook_def assms(3))
  from s1 have fr: "cs_registry s2 = cb_OnCancel (Some x) (mo_ms m) (cs_registry s)" "cs_ledger s2 = Some l" "cs_engine s2 = cs_engine s"
    using assms(4) by (auto simp: cb_registry_hook_def cb_stream_hook_def with_streams_def bind_eq_Some_conv)
  have "cb_getByEngine (cs_registry s2) (cr_EngineID rec) = Some (cb_cancelRecord rec (mo_ms m))"
    using cancelled_record(1)[OF assms(1-3)] fr(1) by simp
  from cb_unlock_effect[OF this fr(2) s'] fr show ?thesis by (auto simp: give_back_cancelled)
qed

lemma cb_CancelOrder_effect:
  assumes inv: "coinbase_inv s" and rec: "cb_Get (cs_registry s) oid = Some rec" and l: "cs_ledger s = Some l"
    and run: "cb_CancelOrder m (cr_ProductID rec) (cr_EngineID rec) s = Some (res, s')"
  obtains (missing) err e where "res = Inl err" "s' = s\<lparr>cs_engine := e\<rparr>" "en_book e = en_book (cs_engine s)"
      "cr_EngineID rec \<notin> ord_ID ` set (OpenOrders (en_book (cs_engine s)) (cr_ProductID rec))"
  | (removed) x l' where "res = Inr x" "ord_ID x = cr_EngineID rec"
      "mset (OpenOrders (en_book (cs_engine s)) (cr_ProductID rec)) = add_mset x (mset (OpenOrders (en_book (cs_engine s')) (cr_ProductID rec)))"
      "cs_registry s' = cb_OnCancel (Some x) (mo_ms m) (cs_registry s)" "cs_ledger s' = Some l'"
      "account_of l' = give_back rec (account_of l)"
proof -
  let ?b = "en_book (cs_engine s)" and ?inst = "cr_ProductID rec" and ?id = "cr_EngineID rec"
  let ?e = "append_log (cs_engine s) ''order.cancel'' (CancelPayload ?id ?inst)"
  obtain b where b: "CancelOrder ?b ?inst ?id = (res, b)" "cb_engine_ran m (?e\<lparr>en_book := b\<rparr>) s = Some s'"
    using run by (auto simp: cb_CancelOrder_def engine_CancelOrder_def Let_def append_log_def bind_eq_Some_conv split: prod.splits)
  have co: "cb_coherent (cs_registry s)" using coinbase_invD(1)[OF inv] by (simp add: cb_sound_def)
  from b(1) show thesis
  proof (cases rule: CancelOrder_outcome)
    case (missing err)
    then have "s' = s\<lparr>cs_engine := ?e\<lparr>en_book := ?b\<rparr>\<rparr>" using b(2) by (simp add: cb_engine_ran_def)
    with missing show thesis by (intro that(1)[of err "?e\<lparr>en_book := ?b\<rparr>"]) simp_all
  next
    case (removed x)
    have "drop (length (ob_calls ?b)) (ob_calls b) = map (\<lambda>h. (h, EvCancel x)) (ob_hooks ?b)" using removed(6) by simp
    then have "cb_run_calls m (hooked (EvCancel x)) (s\<lparr>cs_engine := ?e\<lparr>en_book := b\<rparr>\<rparr>) = Some s'"
      using b(2) ours_event[OF coinbase_invD(3)[OF inv], of "EvCancel x"]
      by (simp add: cb_engine_ran_def cb_run_calls_ours[of m "map _ _"] del: cb_run_calls.simps)
    from cb_cancel_hooks[of "s\<lparr>cs_engine := ?e\<lparr>en_book := b\<rparr>\<rparr>" oid rec x l, OF _ _ removed(2) _ this] co rec l
    obtain l' where "en_book (cs_engine s') = b" "cs_registry s' = cb_OnCancel (Some x) (mo_ms m) (cs_registry s)"
      "cs_ledger s' = Some l'" "account_of l' = give_back rec (account_of l)" by auto
    with removed show thesis by (intro that(2)[of x l']) simp_all
  qed
qed

subsection \<open>Properties\<close>

text \<open>C31: Whatever happened to a Coinbase edge, a request to create an order that is not answered with an order, be it by
  an error or by a rejection, leaves the recorded orders, the book and the balances as they were.\<close>

theorem coinbase_refusal_leaves_no_trace:
  assumes "coinbase_ran verify em evs s" "int (length evs) < 2 ^ 63 - 1"
    "handleCreateOrder verify em m rq body s = Some (res, s')" "\<not> is_created res"
  shows "cb_Get (cs_registry s') = cb_Get (cs_registry s) \<and>
    cb_getByEngine (cs_registry s') = cb_getByEngine (cs_registry s) \<and>
    ob_instruments (en_book (cs_engine s')) = ob_instruments (en_book (cs_engine s)) \<and>
    map_option account_of (cs_ledger s') = map_option account_of (cs_ledger s)"
proof -
  from coinbase_sound[OF assms(1,2)] have "coinbase_inv s" "sint (cg_seq (cs_registry s)) < 2 ^ 63 - 1" by blast+
  from handleCreate_effect[OF this assms(3)] assms(4) show ?thesis by (simp add: no_trace_def)
qed

text \<open>C30: A cancellation of a recorded order succeeds exactly when the order is still open and rests in the book; then it
  is taken out of the book once, its record is CANCELLED, and its unfilled part is unlocked. Otherwise the records,
  the book and the balances are as before.\<close>

theorem coinbase_cancel_exact:
  assumes "coinbase_ran verify em evs s" "int (length evs) < 2 ^ 63 - 1" "cb_Get (cs_registry s) oid = Some rec"
    "cancelOne m oid s = Some (res, s')"
  shows "(cn_Success res \<longleftrightarrow> cr_Status rec \<notin> {statusCancelled, cb_statusFilled} \<and>
      cr_EngineID rec \<in> ord_ID ` set (OpenOrders (en_book (cs_engine s)) (cr_ProductID rec))) \<and>
    (if cn_Success res then cb_status (cs_registry s') oid = statusCancelled \<and>
        map_option account_of (cs_ledger s') = map_option (give_back rec \<circ> account_of) (cs_ledger s) \<and>
        (\<exists>x. ord_ID x = cr_EngineID rec \<and> mset (OpenOrders (en_book (cs_engine s)) (cr_ProductID rec)) =
          add_mset x (mset (OpenOrders (en_book (cs_engine s')) (cr_ProductID rec))))
      else cs_registry s' = cs_registry s \<and> cs_ledger s' = cs_ledger s \<and> en_book (cs_engine s') = en_book (cs_engine s))"
proof -
  from coinbase_sound[OF assms(1,2)] have inv: "coinbase_inv s" by blast
  obtain l where l: "cb_coherent (cs_registry s)" "cs_ledger s = Some l" by (rule cb_soundE[OF coinbase_invD(1)[OF inv]]) blast
  note status = cb_status_Get[OF assms(3)]
  show ?thesis
  proof (cases "cr_Status rec \<in> {statusCancelled, cb_statusFilled}")
    case True
    then show ?thesis using assms(3,4) status by (auto simp: cancelOne_def not_cancelled_def cb_status_defs)
  next
    case False
    with assms(3,4) status obtain out s1 where c: "cb_CancelOrder m (cr_ProductID rec) (cr_EngineID rec) s = Some (out, s1)"
      and fin: "(case out of Inl e \<Rightarrow> (not_cancelled oid (if cb_status (cs_registry s1) oid = cb_statusFilled
            then ''INVALID_CANCEL_REQUEST'' else errUnknownCancel), s1)
        | Inr ord \<Rightarrow> (\<lparr>cn_Success = True, cn_FailureReason = [], cn_OrderID = oid\<rparr>,
            s1\<lparr>cs_registry := cb_MarkCancelled (cs_registry s1) oid (mo_ms m)\<rparr>)) = (res, s')"
      by (auto simp: cancelOne_def Let_def bind_eq_Some_conv)
    from inv assms(3) l(2) c show ?thesis
    proof (cases rule: cb_CancelOrder_effect)
      case (missing err e)
      then show ?thesis using fin by (auto simp: not_cancelled_def)
    next
      case (removed x l')
      have reg: "cb_coherent (cs_registry s1)" "cb_Get (cs_registry s1) oid = Some (cb_cancelRecord rec (mo_ms m))"
        using removed(4) cb_coherent_OnCancel[OF l(1)] cancelled_record(2)[OF l(1) assms(3) removed(2)] by simp_all
      have "ord_ID x = cr_EngineID (cb_cancelRecord rec (mo_ms m))" using removed(2) by (simp add: cb_cancelRecord_def)
      from cb_status_Get[OF cancelled_record(3)[OF reg this]]
      have "cb_status (cb_MarkCancelled (cs_registry s1) oid (mo_ms m)) oid = statusCancelled"
        using False by (simp add: cb_cancelRecord_def cb_status_defs)
      moreover have "x \<in> set (OpenOrders (en_book (cs_engine s)) (cr_ProductID rec))"
        using removed(3) by (metis insert_iff set_mset_add_mset_insert set_mset_mset)
      ultimately show ?thesis using fin removed l(2) False by force
    qed
  qed
qed

lemma cancelled_duplicate: "cb_status (cs_registry s) oid = statusCancelled \<Longrightarrow>
    cancelOne m oid s = Some (not_cancelled oid ''DUPLICATE_CANCEL_REQUEST'', s)"
  by (auto simp: cb_status_def cb_snapshot_def cancelOne_def cb_Get_def cb_status_defs split: option.splits)

lemma each_duplicate:
  "coinbase_inv s \<Longrightarrow> cb_status (cs_registry s) oid = statusCancelled \<Longrightarrow> cancel_each m ids s = Some (xs, s') \<Longrightarrow>
    j < length ids \<Longrightarrow> ids ! j = oid \<Longrightarrow> xs ! j = not_cancelled oid ''DUPLICATE_CANCEL_REQUEST''"
proof (induction ids arbitrary: s xs j)
  case Nil
  then show ?case by simp
next
  case (Cons i ids)
  then obtain x s1 ys where c: "cancelOne m i s = Some (x, s1)" "cancel_each m ids s1 = Some (ys, s')" "xs = x # ys"
    by (auto simp: bind_eq_Some_conv)
  from cancelOne_inv[OF Cons.prems(1) c(1)] have "coinbase_inv s1" "cb_status (cs_registry s1) oid = statusCancelled"
    using Cons.prems(2) stay_cancelledD by blast+
  from Cons.IH[OF this c(2)] Cons.prems c cancelled_duplicate show ?case by (cases j) auto
qed

lemma cancelOne_success:
  assumes "coinbase_inv s" "cancelOne m oid s = Some (res, s')"
  shows "cn_OrderID res = oid \<and> (cn_Success res \<longrightarrow> cb_status (cs_registry s') oid = statusCancelled)"
proof (cases "cn_Success res")
  case False
  then show ?thesis using assms(2)
    by (auto simp: cancelOne_def not_cancelled_def Let_def bind_eq_Some_conv split: option.splits if_splits sum.splits)
next
  case True
  obtain l where l: "cb_coherent (cs_registry s)" "cs_ledger s = Some l" by (rule cb_soundE[OF coinbase_invD(1)[OF assms(1)]]) blast
  from assms(2) True obtain rec x s1 where rec: "cb_Get (cs_registry s) oid = Some rec"
    and c: "cb_CancelOrder m (cr_ProductID rec) (cr_EngineID rec) s = Some (Inr x, s1)" "cr_Status rec \<noteq> cb_statusFilled"
    and s': "s' = s1\<lparr>cs_registry := cb_MarkCancelled (cs_registry s1) oid (mo_ms m)\<rparr>" "cn_OrderID res = oid"
    by (auto simp: cancelOne_def not_cancelled_def Let_def bind_eq_Some_conv cb_status_Get split: option.splits if_splits sum.splits)
  from assms(1) rec l(2) c(1) show ?thesis
  proof (cases rule: cb_CancelOrder_effect)
    case (removed y l')
    have reg: "cb_coherent (cs_registry s1)" "cb_Get (cs_registry s1) oid = Some (cb_cancelRecord rec (mo_ms m))"
      using removed(4) cb_coherent_OnCancel[OF l(1)] cancelled_record(2)[OF l(1) rec removed(2)] by simp_all
    have "ord_ID y = cr_EngineID (cb_cancelRecord rec (mo_ms m))" using removed(2) by (simp add: cb_cancelRecord_def)
    from cb_status_Get[OF cancelled_record(3)[OF reg this]] s' c(2) show ?thesis by (simp add: cb_cancelRecord_def cb_status_defs)
  qed simp
qed

text \<open>A batch cancellation answers every identifier in order, and no order is cancelled twice: once an identifier has
  succeeded, every later one that is equal is answered as a duplicate.\<close>

theorem coinbase_batch_cancels_once:
  assumes "coinbase_ran verify em evs s" "int (length evs) < 2 ^ 63 - 1"
    "handleBatchCancel verify m rq (Some ids) s = Some (Inr (CancelResults xs), s')"
  shows "map cn_OrderID xs = ids \<and> (\<forall>i j. i < j \<and> j < length ids \<and> ids ! i = ids ! j \<and> cn_Success (xs ! i) \<longrightarrow>
    xs ! j = not_cancelled (ids ! j) ''DUPLICATE_CANCEL_REQUEST'')"
proof -
  have each: "coinbase_inv s \<Longrightarrow> cancel_each m ids s = Some (xs, s') \<Longrightarrow> map cn_OrderID xs = ids \<and>
    (\<forall>i j. i < j \<and> j < length ids \<and> ids ! i = ids ! j \<and> cn_Success (xs ! i) \<longrightarrow>
      xs ! j = not_cancelled (ids ! j) ''DUPLICATE_CANCEL_REQUEST'')" for s ids xs
  proof (induction ids arbitrary: s xs)
    case Nil
    then show ?case by simp
  next
    case (Cons k ids)
    then obtain x s1 ys where c: "cancelOne m k s = Some (x, s1)" "cancel_each m ids s1 = Some (ys, s')" "xs = x # ys"
      by (auto simp: bind_eq_Some_conv)
    note inv = conjunct1[OF cancelOne_inv[OF Cons.prems(1) c(1)]] and one = cancelOne_success[OF Cons.prems(1) c(1)]
    from Cons.IH[OF inv c(2)] have ih: "map cn_OrderID ys = ids" "\<And>i j. i < j \<Longrightarrow> j < length ids \<Longrightarrow> ids ! i = ids ! j \<Longrightarrow>
        cn_Success (ys ! i) \<Longrightarrow> ys ! j = not_cancelled (ids ! j) ''DUPLICATE_CANCEL_REQUEST''" by blast+
    have "xs ! j = not_cancelled ((k # ids) ! j) ''DUPLICATE_CANCEL_REQUEST''"
      if ij: "i < j" "j < length (k # ids)" "(k # ids) ! i = (k # ids) ! j" "cn_Success (xs ! i)" for i j
    proof -
      obtain j' where j: "j = Suc j'" using ij(1) by (cases j) auto
      show ?thesis
      proof (cases i)
        case 0
        then have "cb_status (cs_registry s1) k = statusCancelled" "ids ! j' = k" using ij one c(3) j by auto
        from each_duplicate[OF inv this(1) c(2) _ this(2)] show ?thesis using ij j c(3) by (simp add: \<open>ids ! j' = k\<close>)
      next
        case (Suc i')
        then show ?thesis using ih(2)[of i' j'] ij j c(3) by simp
      qed
    qed
    then show ?case using ih(1) one c(3) by auto
  qed
  have "coinbase_inv s" using coinbase_sound[OF assms(1,2)] by blast
  moreover have "cancel_each m ids s = Some (xs, s')"
    using assms(3) by (auto simp: handleBatchCancel_def post_signed_def bind_eq_Some_conv split: if_splits option.splits)
  ultimately show ?thesis by (rule each)
qed

subsection \<open>One order\<close>

text \<open>A client with a thousand units of dollars bids for five units at a price of one, and cancels.\<close>

definition exc_moment :: moment where
  "exc_moment = \<lparr>mo_ms = 0, mo_text = [], mo_format = (\<lambda>_. []), mo_trade = (\<lambda>_. [])\<rparr>"

definition exc_post :: cb_request where
  "exc_post = \<lparr>cq_Method = ''POST'', cq_Path = [], cq_Query = (\<lambda>_. [])\<rparr>"

definition exc_config :: orderConfiguration where
  "exc_config = \<lparr>oc_LimitLimitGTC = Some \<lparr>lg_BaseSize = full_text (Decimal 0 5), lg_LimitPrice = full_text unit_price,
     lg_PostOnly = False\<rparr>, oc_MarketIOC = None\<rparr>"

definition exc_request :: createOrderRequest where
  "exc_request = \<lparr>co_ClientOrderID = [], co_ProductID = ''BTC-USD'', co_Side = ''BUY'', co_OrderConfiguration = exc_config\<rparr>"

definition exc_create :: create_order where
  "exc_create = \<lparr>cp_ProductID = ''BTC-USD'', cp_engSym = ''BTC-USD'', cp_Side = ''BUY'', cp_side = SideBuy, cp_orderType = ''LIMIT'',
     cp_isMarket = False, cp_postOnly = False, cp_price = unit_price, cp_size = Decimal 0 5, cp_ClientOrderID = [],
     cp_config = exc_config\<rparr>"

definition exc_edge :: "(string, decimal) gomap \<Rightarrow> cb_edge" where
  "exc_edge initial = new_coinbase int [''BTC-USD''] (\<lambda>_ _. Some None) initial (cb_new [''BTC-USD''] [] Zero)"

lemma exc_edge_eq: "exc_edge initial = \<lparr>cs_engine = engine_New ex_market (\<lambda>_ _. Some None), cs_registry = cb_NewRegistry,
    cs_ledger = Some (NewLedger initial), cs_accounts = [], cs_streams = cb_new [''BTC-USD''] [] Zero\<rparr>"
  by (simp add: exc_edge_def new_coinbase_def cb_AttachHooks_def engine_New_def ex_market_def NewOrderBook_def RegisterHook_def Let_def)

lemma exc_started: "coinbase_ran verify em [] (exc_edge initial)"
  unfolding coinbase_ran_def exc_edge_def by (intro exI) simp

lemma exc_parsed: "parse_create (cb_new [''BTC-USD''] [] Zero) exc_request = Inr exc_create"
  by (simp add: parse_create_def exc_request_def Resolve_def cb_new_def NewProducts_def cb_parseSide_def exc_config_def
      parse_config_def parseDecimalField_def Sign_values exc_create_def toBig_eq)

lemma exc_handle: "handleCreateOrder (\<lambda>_. None) em exc_moment exc_post (Some exc_request) (exc_edge initial) =
    create_placed em exc_moment exc_create (exc_edge initial)"
  by (simp add: handleCreateOrder_def post_signed_def exc_post_def exc_edge_eq exc_parsed)

lemma exc_mul: "Mul unit_price (Decimal 0 5) = Some (Decimal 0 5)"
  using ex_mul by (simp add: Mul_spec mult.commute)

theorem coinbase_refusal_leaves_no_trace_witness:
  "\<exists>res s. handleCreateOrder (\<lambda>_. None) (\<lambda>_. []) exc_moment exc_post (Some exc_request) (exc_edge []) = Some (res, s) \<and>
    \<not> is_created res \<and> cb_Get (cs_registry s) = Map.empty"
proof -
  have "Lock [] ''USD'' (Decimal 0 5) = Some (False, touch [] ''USD'')"
    by (simp add: Lock_def touch_def holding_at_def Let_def Sign_values less_toBig toBig_eq Zero_def)
  then obtain res s where ran: "create_placed (\<lambda>_. []) exc_moment exc_create (exc_edge []) = Some (res, s)" "\<not> is_created res"
    using exc_mul by (simp add: create_placed_def cb_reserve_def exc_create_def exc_edge_eq NewLedger_def)
  have "cb_Get (cs_registry (exc_edge [])) = Map.empty"
    by (simp add: exc_edge_eq cb_NewRegistry_def cb_Get_def fun_eq_iff)
  with coinbase_refusal_leaves_no_trace[OF exc_started _ ran[folded exc_handle]] ran show ?thesis
    unfolding exc_handle by auto
qed

definition exc_record :: cb_record where
  "exc_record = \<lparr>cr_OrderID = cb_orderID 1, cr_ClientOrderID = ''emu-client-'' @ int_string 1, cr_EngineID = cb_EngineID 1, cr_ProductID = ''BTC-USD'',
     cr_Side = ''BUY'', cr_OrderType = ''LIMIT'', cr_PostOnly = False, cr_Price = unit_price, cr_OrigSize = Decimal 0 5,
     cr_FilledSize = Zero, cr_FilledValue = Zero, cr_Status = statusOpen, cr_CreatedMs = 0, cr_UpdatedMs = 0\<rparr>"

definition exc_stored :: cb_registry where
  "exc_stored = \<lparr>cg_heap = [exc_record], cg_seq = 1, cg_byOrderID = [(cb_orderID 1, 0)], cg_byEngine = [cb_EngineID 1 \<mapsto> 0],
     cg_byClient = [''emu-client-'' @ int_string 1 \<mapsto> 0]\<rparr>"

definition exc_order :: order where
  "exc_order = cb_order exc_create exc_record"

definition exc_after :: order_book where
  "exc_after = \<lparr>ob_instruments = [''BTC-USD'' \<mapsto> empty_book\<lparr>ib_bids := [exc_order]\<rparr>], ob_hooks = [0, 1, 2], ob_now = int, ob_reads = 0,
     ob_calls = []\<rparr>"

lemma exc_terms: "ord_Instrument exc_order = ''BTC-USD''" "ord_Volume exc_order = Decimal 0 5" "ord_Side exc_order = SideBuy"
  "ord_IsMarket exc_order = False" "ord_ID exc_order = cb_EngineID 1" "ord_Price exc_order = unit_price"
  by (simp_all add: exc_order_def cb_order_def exc_create_def exc_record_def)

lemma exc_added: "AddLimitOrder ex_market exc_order = Some (Inr [], exc_order, exc_after)"
  by (simp add: ex_market_def book_eval empty_book_def exc_terms exc_after_def)

lemma exc_recorded: "cb_Record cb_NewRegistry (cp_ProductID exc_create) (cp_Side exc_create) (cp_orderType exc_create) (cp_postOnly exc_create)
    (cp_price exc_create) (cp_size exc_create) (cp_ClientOrderID exc_create) (mo_ms exc_moment) = (0, exc_stored)"
  by (simp add: cb_Record_def cb_nextID_def cb_NewRegistry_def exc_create_def exc_moment_def exc_stored_def exc_record_def Let_def)

lemma exc_placed: "\<exists>res s. create_placed em exc_moment exc_create (exc_edge [(''USD'', Decimal 0 1000)]) = Some (res, s) \<and>
    cs_registry s = exc_stored \<and> cs_ledger s = Some ex_locked \<and> en_book (cs_engine s) = exc_after \<and>
    cs_streams s = cb_new [''BTC-USD''] [] Zero"
proof -
  let ?s = "exc_edge [(''USD'', Decimal 0 1000)]"
  have "Lock (NewLedger [(''USD'', Decimal 0 1000)]) ''USD'' (Decimal 0 5) = Some (True, ex_locked)"
    by (simp add: Lock_def NewLedger_def touch_def holding_at_def set_free_def set_locked_def ex_locked_def Let_def Sign_values
        less_toBig toBig_eq Sub_def Sub64_def Add_def Add64_def Zero_def)
  then have res: "cb_reserve exc_create ?s = Some ((True, ''USD'', Decimal 0 5), ?s\<lparr>cs_ledger := Some ex_locked\<rparr>)"
    using exc_mul by (simp add: cb_reserve_def exc_create_def exc_edge_eq)
  let ?s2 = "?s\<lparr>cs_ledger := Some ex_locked, cs_registry := exc_stored\<rparr>"
  have "Add Zero (ord_Volume exc_order) = Some (Decimal 0 5)" by (simp add: exc_terms Add_def Add64_def Zero_def Let_def)
  then obtain sn where "Snapshot exc_after ''BTC-USD'' = Some (Inr sn)"
    by (auto simp: Snapshot_def lookup_def exc_after_def empty_book_def aggregateLevels_def)
  then obtain pm e where e: "PlaceLimit (engine_New ex_market (\<lambda>_ _. Some None)) exc_order = Some (pm, exc_order, e)" "pm_error pm = None"
    "en_book e = exc_after"
    using exc_added by (simp add: PlaceLimit_def append_log_def engine_New_def exc_terms Let_def)
  have "cb_PlaceLimit exc_moment exc_order ?s2 = Some (pm, ?s2\<lparr>cs_engine := e\<rparr>)"
    using e by (simp add: cb_PlaceLimit_def cb_engine_ran_def exc_edge_eq engine_New_def exc_after_def)
  moreover have "cg_heap exc_stored ! 0 = exc_record" "cs_registry ?s = cb_NewRegistry" "\<not> cp_isMarket exc_create"
    by (simp_all add: exc_stored_def exc_edge_eq exc_create_def)
  ultimately have "create_placed em exc_moment exc_create ?s =
      do { s \<leftarrow> with_streams (EmitUserByOrderID [] exc_stored (cr_OrderID exc_record)) (?s2\<lparr>cs_engine := e\<rparr>);
           Some (Inr (OrderCreated (cr_OrderID exc_record) (cp_ProductID exc_create) (cp_Side exc_create)
             (cr_ClientOrderID exc_record) (cp_config exc_create)), s) }"
    using res exc_recorded e(2) unfolding create_placed_def
    by (simp add: exc_order_def[symmetric] exc_moment_def)
  moreover have "with_streams (EmitUserByOrderID [] exc_stored (cr_OrderID exc_record)) (?s2\<lparr>cs_engine := e\<rparr>) = Some (?s2\<lparr>cs_engine := e\<rparr>)"
    by (simp add: with_streams_def EmitUserByOrderID_def hasUserSubscribers_def exc_edge_eq cb_new_def NewBroadcaster_def)
  ultimately show ?thesis using e(3) by (simp add: exc_edge_eq)
qed

lemma exc_got: "cb_Get exc_stored (cb_orderID 1) = Some exc_record" "cb_status exc_stored (cb_orderID 1) = statusOpen"
  by (simp_all add: cb_Get_def cb_status_def cb_snapshot_def exc_stored_def exc_record_def)

lemma exc_cancel_hooks:
  assumes "cs_registry s = exc_stored" "cs_ledger s = Some ex_locked" "cs_streams s = cb_new [''BTC-USD''] [] Zero"
  shows "\<exists>s'. cb_run_calls exc_moment (hooked (EvCancel exc_order)) s = Some s'"
proof -
  let ?r = "cb_OnCancel (Some exc_order) 0 exc_stored" and ?rec = "cb_cancelRecord exc_record 0"
  have get: "cb_getByEngine ?r (cb_EngineID 1) = Some ?rec"
    by (simp add: cb_OnCancel_def exc_terms exc_stored_def cb_put_def cb_getByEngine_def)
  have s1: "cb_registry_hook exc_moment (EvCancel exc_order) s = Some (s\<lparr>cs_registry := ?r\<rparr>)"
    by (simp add: cb_registry_hook_def assms(1) exc_moment_def)
  have s2: "cb_stream_hook exc_moment (EvCancel exc_order) (s\<lparr>cs_registry := ?r\<rparr>) = Some (s\<lparr>cs_registry := ?r\<rparr>)"
    using assms(3) by (simp add: cb_stream_hook_def with_streams_def onBookCancel_def hasUserSubscribers_def cb_new_def NewBroadcaster_def)
  have terms: "cr_ProductID ?rec = ''BTC-USD''" "cr_OrderType ?rec = ''LIMIT''" "cr_OrigSize ?rec = Decimal 0 5" "cr_FilledSize ?rec = Zero"
    "cr_Side ?rec = ''BUY''" "cr_Price ?rec = unit_price"
    by (simp_all add: cb_cancelRecord_def exc_record_def)
  have "Sub (Decimal 0 5) Zero = Some (Decimal 0 5)" by (simp add: Sub_def Sub64_def Zero_def)
  then have "\<exists>s'. cb_ledger_hook (EvCancel exc_order) (s\<lparr>cs_registry := ?r\<rparr>) = Some s'"
    using get terms ex_unlock ex_mul assms(2)
    by (auto simp: cb_ledger_hook_def exc_terms cb_unlockRemainder_def Sign_values cb_with_ledger_def)
  then show ?thesis using s1 s2 by (auto simp: cb_run_hook_def)
qed

lemma exc_cancelled:
  assumes "cs_registry s = exc_stored" "cs_ledger s = Some ex_locked" "en_book (cs_engine s) = exc_after"
    "cs_streams s = cb_new [''BTC-USD''] [] Zero"
  shows "\<exists>s'. cancelOne exc_moment (cb_orderID 1) s = Some (\<lparr>cn_Success = True, cn_FailureReason = [], cn_OrderID = cb_orderID 1\<rparr>, s')"
proof -
  let ?e = "append_log (cs_engine s) ''order.cancel'' (CancelPayload (cb_EngineID 1) ''BTC-USD'')"
  obtain b where b: "CancelOrder exc_after ''BTC-USD'' (cb_EngineID 1) = (Inr exc_order, b)" "ob_calls b = hooked (EvCancel exc_order)"
    by (simp add: CancelOrder_def lookup_def exc_after_def empty_book_def exc_terms put_book_def fire_def)
  have "\<exists>s'. cb_run_calls exc_moment (hooked (EvCancel exc_order)) (s\<lparr>cs_engine := ?e\<lparr>en_book := b\<rparr>\<rparr>) = Some s'"
    using exc_cancel_hooks[of "s\<lparr>cs_engine := ?e\<lparr>en_book := b\<rparr>\<rparr>"] assms by (simp del: cb_run_calls.simps)
  moreover have "cb_CancelOrder exc_moment ''BTC-USD'' (cb_EngineID 1) s =
      do { s \<leftarrow> cb_run_calls exc_moment (hooked (EvCancel exc_order)) (s\<lparr>cs_engine := ?e\<lparr>en_book := b\<rparr>\<rparr>); Some (Inr exc_order, s) }"
    using b assms(3) by (simp add: cb_CancelOrder_def engine_CancelOrder_def append_log_def cb_engine_ran_def exc_after_def del: cb_run_calls.simps)
  moreover have "cr_ProductID exc_record = ''BTC-USD''" "cr_EngineID exc_record = cb_EngineID 1" by (simp_all add: exc_record_def)
  ultimately show ?thesis using exc_got assms(1)
    by (auto simp: cancelOne_def cb_status_defs simp del: cb_run_calls.simps)
qed

lemma exc_created: "\<exists>s. coinbase_ran (\<lambda>_. None) em [CreateRequest exc_moment exc_post (Some exc_request)] s \<and> cs_registry s = exc_stored \<and>
    cs_ledger s = Some ex_locked \<and> en_book (cs_engine s) = exc_after \<and> cs_streams s = cb_new [''BTC-USD''] [] Zero"
proof -
  obtain res s where s: "create_placed em exc_moment exc_create (exc_edge [(''USD'', Decimal 0 1000)]) = Some (res, s)"
    "cs_registry s = exc_stored" "cs_ledger s = Some ex_locked" "en_book (cs_engine s) = exc_after"
    "cs_streams s = cb_new [''BTC-USD''] [] Zero" using exc_placed by blast
  have "run_ops (coinbase_step (\<lambda>_. None) em) [CreateRequest exc_moment exc_post (Some exc_request)] (exc_edge [(''USD'', Decimal 0 1000)]) = Some s"
    using s(1) by (simp add: exc_handle)
  then have "coinbase_ran (\<lambda>_. None) em [CreateRequest exc_moment exc_post (Some exc_request)] s"
    unfolding coinbase_ran_def exc_edge_def by blast
  then show ?thesis using s by blast
qed

theorem coinbase_cancel_exact_witness:
  "\<exists>s s' l. coinbase_ran (\<lambda>_. None) (\<lambda>_. []) [CreateRequest exc_moment exc_post (Some exc_request)] s \<and>
    cancelOne exc_moment (cb_orderID 1) s = Some (\<lparr>cn_Success = True, cn_FailureReason = [], cn_OrderID = cb_orderID 1\<rparr>, s') \<and>
    cs_ledger s' = Some l \<and> fr l ''USD'' = 1000 \<and> lk l ''USD'' = 0"
proof -
  obtain s where s: "coinbase_ran (\<lambda>_. None) (\<lambda>_. []) [CreateRequest exc_moment exc_post (Some exc_request)] s"
    "cs_registry s = exc_stored" "cs_ledger s = Some ex_locked" "en_book (cs_engine s) = exc_after" "cs_streams s = cb_new [''BTC-USD''] [] Zero"
    using exc_created by blast
  obtain s' where c: "cancelOne exc_moment (cb_orderID 1) s = Some (\<lparr>cn_Success = True, cn_FailureReason = [], cn_OrderID = cb_orderID 1\<rparr>, s')"
    using exc_cancelled[OF s(2-5)] by blast
  have "cb_Get (cs_registry s) (cb_orderID 1) = Some exc_record" using exc_got(1) s(2) by simp
  from coinbase_cancel_exact[OF s(1) _ this c] s(3) obtain l where l: "cs_ledger s' = Some l" "account_of l = give_back exc_record (account_of ex_locked)"
    by auto
  have "fr ex_locked ''USD'' = 995" "lk ex_locked ''USD'' = 5" by (simp_all add: fr_def lk_def ex_locked_def holding_at_def toBig_eq)
  moreover have "give_back exc_record (account_of ex_locked) = spec_release (account_of ex_locked) ''USD'' 5"
    using ex_prod by (simp add: give_back_def exc_record_def toBig_Zero ex_values Let_def)
  ultimately have "fr l ''USD'' = 1000 \<and> lk l ''USD'' = 0" using l(2) by (simp add: account_of_def)
  then show ?thesis using s(1) c l(1) by blast
qed

theorem coinbase_batch_cancels_once_witness:
  "\<exists>s s' xs. handleBatchCancel (\<lambda>_. None) exc_moment exc_post (Some [cb_orderID 1, cb_orderID 1]) s = Some (Inr (CancelResults xs), s') \<and>
    cn_Success (xs ! 0) \<and> xs ! 1 = not_cancelled (cb_orderID 1) ''DUPLICATE_CANCEL_REQUEST''"
proof -
  obtain s where s: "coinbase_ran (\<lambda>_. None) (\<lambda>_. []) [CreateRequest exc_moment exc_post (Some exc_request)] s"
    "cs_registry s = exc_stored" "cs_ledger s = Some ex_locked" "en_book (cs_engine s) = exc_after" "cs_streams s = cb_new [''BTC-USD''] [] Zero"
    using exc_created by blast
  obtain s' where c: "cancelOne exc_moment (cb_orderID 1) s = Some (\<lparr>cn_Success = True, cn_FailureReason = [], cn_OrderID = cb_orderID 1\<rparr>, s')"
    using exc_cancelled[OF s(2-5)] by blast
  have "coinbase_inv s" using coinbase_sound[OF s(1)] by simp
  from cancelled_duplicate[OF conjunct2[OF cancelOne_success[OF this c], rule_format]]
  have "cancelOne exc_moment (cb_orderID 1) s' = Some (not_cancelled (cb_orderID 1) ''DUPLICATE_CANCEL_REQUEST'', s')" by simp
  with c obtain xs where b: "handleBatchCancel (\<lambda>_. None) exc_moment exc_post (Some [cb_orderID 1, cb_orderID 1]) s = Some (Inr (CancelResults xs), s')"
    "cn_Success (xs ! 0)" by (simp add: handleBatchCancel_def post_signed_def exc_post_def)
  have "int (length [CreateRequest exc_moment exc_post (Some exc_request)]) < 2 ^ 63 - 1" by simp
  from conjunct2[OF coinbase_batch_cancels_once[OF s(1) this b(1)], rule_format, of 0 1] b(2)
  have "xs ! 1 = not_cancelled (cb_orderID 1) ''DUPLICATE_CANCEL_REQUEST''" by simp
  with b show ?thesis by blast
qed

end
