(* ===== verification/FixSession.thy ===== *)
theory FixSession
  imports FixMessageProofs "HOL-Library.Signed_Division"
begin

text \<open>
  \<^verbatim>\<open>internal/api/fix/session.go\<close>: the acceptor side of a FIX session. The connection is the rest of
  its input and the messages written to it, which are the bytes enqueued so far, since the writer
  goroutine sends them in order. The application is an argument: on an event it answers with
  the messages it sends and its next state. The \<open>i\<close>-th message is stamped by \<open>clock i\<close>.
  Sequence numbers are 64-bit integers that wrap. A message without fields makes the header
  insertion panic.
\<close>

subsection \<open>State\<close>

definition wrap64 :: "int \<Rightarrow> int" where
  "wrap64 i = sint (word_of_int i :: i64)"

definition MsgLogon :: string where "MsgLogon = ''A''"
definition MsgHeartbeat :: string where "MsgHeartbeat = ''0''"
definition MsgTestRequest :: string where "MsgTestRequest = ''1''"
definition MsgResendRequest :: string where "MsgResendRequest = ''2''"
definition MsgReject :: string where "MsgReject = ''3''"
definition MsgSequenceReset :: string where "MsgSequenceReset = ''4''"
definition MsgLogout :: string where "MsgLogout = ''5''"
definition MsgNewOrderSingle :: string where "MsgNewOrderSingle = ''D''"
definition MsgOrderCancelReq :: string where "MsgOrderCancelReq = ''F''"
definition MsgOrderCancelRepl :: string where "MsgOrderCancelRepl = ''G''"
definition MsgMarketDataReq :: string where "MsgMarketDataReq = ''V''"
definition MsgQuoteRequest :: string where "MsgQuoteRequest = ''z''"

lemmas msg_types = MsgLogon_def MsgHeartbeat_def MsgTestRequest_def MsgResendRequest_def MsgReject_def
  MsgSequenceReset_def MsgLogout_def MsgNewOrderSingle_def MsgOrderCancelReq_def MsgOrderCancelRepl_def
  MsgMarketDataReq_def MsgQuoteRequest_def

record session =
  ss_senderCompID :: string
  ss_targetCompID :: string
  ss_outSeq :: int
  ss_inSeq :: int
  ss_loggedOn :: bool
  ss_heartBtMs :: int
  ss_out :: "string list"

datatype app_event = OnLogon | OnLogout | OnNewOrderSingle message | OnOrderCancelRequest message
  | OnOrderCancelReplace message | OnMarketDataRequest message | OnQuoteRequest message

type_synonym 'a application = "session \<Rightarrow> 'a \<Rightarrow> app_event \<Rightarrow> message list \<times> 'a"
type_synonym clock = "nat \<Rightarrow> string"

datatype session_error = NotLogon string | BadLogon validate_error | ReadFailed fix_error | DecodeFailed fix_error

definition NewSession :: "string \<Rightarrow> session" where
  "NewSession sender = \<lparr>ss_senderCompID = sender, ss_targetCompID = [], ss_outSeq = 1, ss_inSeq = 1,
     ss_loggedOn = False, ss_heartBtMs = 0, ss_out = []\<rparr>"

subsection \<open>Sending\<close>

definition session_header :: "clock \<Rightarrow> session \<Rightarrow> field list" where
  "session_header clock s =
     [\<lparr>f_Tag = 49, f_Value = ss_senderCompID s\<rparr>, \<lparr>f_Tag = 56, f_Value = ss_targetCompID s\<rparr>,
      \<lparr>f_Tag = 34, f_Value = int_string (ss_outSeq s)\<rparr>, \<lparr>f_Tag = 52, f_Value = clock (length (ss_out s))\<rparr>]"

definition add_tag :: "field \<Rightarrow> (int \<rightharpoonup> string list) \<Rightarrow> int \<rightharpoonup> string list" where
  "add_tag f t = t(f_Tag f \<mapsto> (case t (f_Tag f) of None \<Rightarrow> [] | Some vs \<Rightarrow> vs) @ [f_Value f])"

definition enqueueLockedMsg :: "clock \<Rightarrow> message \<Rightarrow> session \<Rightarrow> session option" where
  "enqueueLockedMsg clock m s =
     (case m_Fields m of [] \<Rightarrow> None
      | f # fs \<Rightarrow>
          let hdr = session_header clock s;
              m = \<lparr>m_Fields = f # hdr @ fs, m_byTag = fold add_tag hdr (m_byTag m)\<rparr>
          in Some (s\<lparr>ss_outSeq := wrap64 (ss_outSeq s + 1), ss_out := ss_out s @ [Encode m]\<rparr>))"

definition session_Send :: "clock \<Rightarrow> message \<Rightarrow> session \<Rightarrow> session option" where
  "session_Send clock m s = enqueueLockedMsg clock m s"

fun send_all :: "clock \<Rightarrow> message list \<Rightarrow> session \<Rightarrow> session option" where
  "send_all clock [] s = Some s"
| "send_all clock (m # ms) s = do { s \<leftarrow> session_Send clock m s; send_all clock ms s }"

text \<open>A callback of the application and the messages it sends.\<close>

definition tell :: "clock \<Rightarrow> 'a application \<Rightarrow> app_event \<Rightarrow> session \<times> 'a \<Rightarrow> (session \<times> 'a) option" where
  "tell clock app ev = (\<lambda>(s, a). let (ms, a) = app s a ev in do { s \<leftarrow> send_all clock ms s; Some (s, a) })"

definition sendHeartbeat :: "clock \<Rightarrow> message option \<Rightarrow> session \<Rightarrow> session option" where
  "sendHeartbeat clock testReq s =
     (let hb = NewMessage MsgHeartbeat;
          hb = (case testReq of None \<Rightarrow> hb
                | Some t \<Rightarrow> (case msg_Get t 112 of None \<Rightarrow> hb | Some i \<Rightarrow> msg_Set hb 112 i))
      in session_Send clock hb s)"

definition sendResendRequest :: "clock \<Rightarrow> int \<Rightarrow> session \<Rightarrow> session option" where
  "sendResendRequest clock from_seq s =
     session_Send clock (msg_SetInt (msg_SetInt (NewMessage MsgResendRequest) 7 from_seq) 16 0) s"

definition sendSequenceReset :: "clock \<Rightarrow> session \<Rightarrow> session option" where
  "sendSequenceReset clock s =
     enqueueLockedMsg clock
       (msg_SetInt (msg_Set (NewMessage MsgSequenceReset) 123 ''Y'') 36 (wrap64 (ss_outSeq s + 1))) s"

definition sendLogout :: "clock \<Rightarrow> string \<Rightarrow> session \<Rightarrow> session option" where
  "sendLogout clock reason s =
     (let lo = NewMessage MsgLogout
      in session_Send clock (if reason = [] then lo else msg_Set lo 58 reason) s)"

text \<open>The tag and text of the validation error are arguments.\<close>

definition sendReject :: "clock \<Rightarrow> int \<Rightarrow> int \<Rightarrow> string \<Rightarrow> session \<Rightarrow> session option" where
  "sendReject clock refSeq tag msg s =
     (let rj = msg_SetInt (NewMessage MsgReject) 45 refSeq;
          rj = (if tag \<noteq> 0 then msg_SetInt rj 371 tag else rj)
      in session_Send clock (msg_Set rj 58 msg) s)"

subsection \<open>Receiving\<close>

definition int_or_zero :: "int option \<Rightarrow> int" where
  "int_or_zero x = (case x of None \<Rightarrow> 0 | Some i \<Rightarrow> i)"

definition onLogon ::
    "clock \<Rightarrow> 'a application \<Rightarrow> (string \<rightharpoonup> int list) \<Rightarrow> message \<Rightarrow> session \<times> 'a \<Rightarrow>
     ((bool \<times> session_error option) \<times> session \<times> 'a) option" where
  "onLogon clock app d m = (\<lambda>(s, a).
     (case fix_Validate d m of
        Some ve \<Rightarrow> Some ((True, Some (BadLogon ve)), s, a)
      | None \<Rightarrow>
          let s = s\<lparr>ss_targetCompID := (case msg_Get m 49 of None \<Rightarrow> [] | Some v \<Rightarrow> v)\<rparr>;
              s = (case msg_GetInt m 108 of None \<Rightarrow> s | Some hb \<Rightarrow> s\<lparr>ss_heartBtMs := wrap64 (hb * 1000)\<rparr>);
              s = s\<lparr>ss_inSeq := wrap64 (int_or_zero (msg_GetInt m 34) + 1), ss_loggedOn := True\<rparr>;
              ack = msg_SetInt (msg_SetInt (NewMessage MsgLogon) 98 0) 108 (ss_heartBtMs s sdiv 1000)
          in do { s \<leftarrow> session_Send clock ack s; (s, a) \<leftarrow> tell clock app OnLogon (s, a); Some ((False, None), s, a) }))"

definition dispatch :: "message \<Rightarrow> app_event option" where
  "dispatch m =
     (let mt = MsgType m
      in if mt = MsgNewOrderSingle then Some (OnNewOrderSingle m)
         else if mt = MsgOrderCancelReq then Some (OnOrderCancelRequest m)
         else if mt = MsgOrderCancelRepl then Some (OnOrderCancelReplace m)
         else if mt = MsgMarketDataReq then Some (OnMarketDataRequest m)
         else if mt = MsgQuoteRequest then Some (OnQuoteRequest m)
         else None)"

text \<open>What follows an in-order message of an established session.\<close>

definition handle_in_order ::
    "clock \<Rightarrow> 'a application \<Rightarrow> (string \<rightharpoonup> int list) \<Rightarrow> message \<Rightarrow> int \<Rightarrow> session \<times> 'a \<Rightarrow> (bool \<times> session \<times> 'a) option" where
  "handle_in_order clock app d m sq = (\<lambda>(s, a).
     let mt = MsgType m
     in if mt = MsgHeartbeat then Some (False, s, a)
        else if mt = MsgTestRequest then do { s \<leftarrow> sendHeartbeat clock (Some m) s; Some (False, s, a) }
        else if mt = MsgResendRequest then do { s \<leftarrow> sendSequenceReset clock s; Some (False, s, a) }
        else if mt = MsgLogout then do {
          s \<leftarrow> sendLogout clock ''responding to logout'' s;
          (s, a) \<leftarrow> tell clock app OnLogout (s, a);
          Some (True, s, a)
        }
        else case dispatch m of
          Some ev \<Rightarrow> (case fix_Validate d m of
              Some ve \<Rightarrow> do { s \<leftarrow> sendReject clock sq (error_tag ve) (error_text ve) s; Some (False, s, a) }
            | None \<Rightarrow> do { (s, a) \<leftarrow> tell clock app ev (s, a); Some (False, s, a) })
        | None \<Rightarrow> do { s \<leftarrow> sendReject clock sq TagMsgType (''unsupported MsgType '' @ mt) s; Some (False, s, a) })"

definition handle ::
    "clock \<Rightarrow> 'a application \<Rightarrow> (string \<rightharpoonup> int list) \<Rightarrow> message \<Rightarrow> session \<times> 'a \<Rightarrow>
     ((bool \<times> session_error option) \<times> session \<times> 'a) option" where
  "handle clock app d m = (\<lambda>(s, a).
     let mt = MsgType m
     in if \<not> ss_loggedOn s then
          (if mt \<noteq> MsgLogon then Some ((True, Some (NotLogon mt)), s, a) else onLogon clock app d m (s, a))
        else let sq = int_or_zero (msg_GetInt m 34)
             in if mt = MsgSequenceReset then
                  Some ((False, None), (case msg_GetInt m 36 of
                     Some nsn \<Rightarrow> if nsn \<ge> ss_inSeq s then s\<lparr>ss_inSeq := nsn\<rparr> else s | None \<Rightarrow> s), a)
                else if sq > ss_inSeq s then do {
                  s \<leftarrow> sendResendRequest clock (ss_inSeq s) s;
                  Some ((False, None), s, a)
                }
                else if sq < ss_inSeq s then Some ((False, None), s, a)
                else do {
                  (stop, s, a) \<leftarrow> handle_in_order clock app d m sq (s\<lparr>ss_inSeq := wrap64 (ss_inSeq s + 1)\<rparr>, a);
                  Some ((stop, None), s, a)
                })"

subsection \<open>The loop of \<^verbatim>\<open>Run\<close>\<close>

lemma ReadBytes_shrinks: "ReadBytes d r = Some (x, rest) \<Longrightarrow> length rest < length r"
  by (induction r arbitrary: x) (auto split: if_splits option.splits)

lemma ReadFrame_shrinks:
  assumes "ReadFrame r = Inr (raw, rest)"
  shows "length rest < length r"
proof -
  from assms obtain b r1 l r2 n c where "ReadBytes SOH r = Some (b, r1)" "ReadBytes SOH r1 = Some (l, r2)"
    "ReadBytes SOH (drop n r2) = Some (c, rest)"
    unfolding ReadFrame_def by (auto split: option.splits if_splits)
  then show ?thesis by (auto dest!: ReadBytes_shrinks)
qed

function session_Run ::
    "clock \<Rightarrow> 'a application \<Rightarrow> (string \<rightharpoonup> int list) \<Rightarrow> string \<Rightarrow> session \<times> 'a \<Rightarrow>
     (session_error option \<times> session \<times> 'a) option" where
  "session_Run clock app d inp sa =
     (case ReadFrame inp of
        Inl e \<Rightarrow> do {
          sa \<leftarrow> (if ss_loggedOn (fst sa) then tell clock app OnLogout sa else Some sa);
          Some (if e = EOF then None else Some (ReadFailed e), sa)
        }
      | Inr (raw, rest) \<Rightarrow>
         (case Decode raw of
            Inl e \<Rightarrow> Some (Some (DecodeFailed e), sa)
          | Inr m \<Rightarrow> do {
              ((stop, err), sa) \<leftarrow> handle clock app d m sa;
              if err \<noteq> None \<or> stop then Some (err, sa) else session_Run clock app d rest sa
            }))"
  by pat_completeness auto
termination
  by (relation "measure (\<lambda>(_, _, _, inp, _). length inp)") (auto dest: ReadFrame_shrinks)

declare session_Run.simps [simp del]

end
