(* ===== verification/FixServer.thy ===== *)
theory FixServer
  imports FixSession Engine
begin

text \<open>
  \<^verbatim>\<open>internal/api/fix/server.go\<close> and \<^verbatim>\<open>quote.go\<close>: the application behind the FIX sessions, which
  owns orders, fills, market data and quotes. A session is a number; order records are shared between the
  sessions and the engine index, so they are positions in \<open>fx_heap\<close>. What is sent is the list \<open>fx_sent\<close> of messages
  with their sessions. The maps are locked for every operation. The quoter, if one is set, is an argument of
  the requests, together with the time, its text, and the texts of the errors of the engine.
\<close>

subsection \<open>State\<close>

record ord_rec =
  fo_sess :: nat
  fo_clOrdID :: string
  fo_orderID :: string
  fo_engineID :: string
  fo_fixSymbol :: string
  fo_engineSym :: string
  fo_side :: string
  fo_ordType :: string
  fo_price :: string
  fo_orderQty :: decimal
  fo_cumQty :: decimal
  fo_avgNum :: decimal
  fo_done :: bool

record sess_state =
  fs_byClOrdID :: "(string, nat) gomap"
  fs_subs :: "(string, string) gomap"

text \<open>Times are nanoseconds.\<close>

record quote_rec =
  qr_sess :: nat
  qr_fixSym :: string
  qr_engineSym :: string
  qr_side :: string
  qr_qty :: decimal
  qr_bid :: decimal
  qr_offer :: decimal
  qr_expiresAt :: int
  qr_taken :: bool

record fix_server =
  fx_engine :: engine
  fx_resolve :: "string \<rightharpoonup> string"
  fx_depth :: int
  fx_heap :: "ord_rec list"
  fx_sessions :: "(nat, sess_state) gomap"
  fx_byEngine :: "string \<rightharpoonup> nat"
  fx_orderSeq :: i64
  fx_execSeq :: i64
  fx_quotes :: "(string, quote_rec) gomap"
  fx_quoteSeq :: i64
  fx_quoteTTL :: int
  fx_sent :: "(nat \<times> message) list"

text \<open>A dealer: the bid and the offer for an instrument and a quantity, or an error, and whether an instrument is
  traded by quotes only.\<close>

record quoter =
  qt_Quote :: "string \<Rightarrow> decimal \<Rightarrow> string + decimal \<times> decimal"
  qt_IsExotic :: "string \<Rightarrow> bool"

record fix_env =
  fe_now :: int
  fe_time :: string
  fe_quoter :: "quoter option"
  fe_error :: "engine_error \<Rightarrow> string"
  fe_book_error :: "book_error \<Rightarrow> string"

definition fix_prefix :: string where "fix_prefix = ''fix:''"
definition maxQuotes :: nat where "maxQuotes = 4096"
definition defaultQuoteTTL :: int where "defaultQuoteTTL = 300000000000"

definition NewServer :: "engine \<Rightarrow> (string \<rightharpoonup> string) \<Rightarrow> fix_server" where
  "NewServer e resolve = \<lparr>fx_engine = e, fx_resolve = resolve, fx_depth = 20, fx_heap = [], fx_sessions = [],
     fx_byEngine = Map.empty, fx_orderSeq = 0, fx_execSeq = 0, fx_quotes = [], fx_quoteSeq = 0,
     fx_quoteTTL = defaultQuoteTTL, fx_sent = []\<rparr>"

definition SetQuoteTTL :: "int \<Rightarrow> fix_server \<Rightarrow> fix_server" where
  "SetQuoteTTL d s = (if d > 0 then s\<lparr>fx_quoteTTL := d\<rparr> else s)"

text \<open>A side of the order book, unless the text is none.\<close>

definition fixSideToEngine :: "string \<Rightarrow> side option" where
  "fixSideToEngine sd = (if sd = ''1'' then Some SideBuy else if sd = ''2'' then Some SideSell else None)"

definition engSideFor :: "string \<Rightarrow> side" where
  "engSideFor sd = (case fixSideToEngine sd of None \<Rightarrow> SideBuy | Some e \<Rightarrow> e)"

text \<open>A tag that is missing reads as the empty text.\<close>

definition tag_of :: "message \<Rightarrow> int \<Rightarrow> string" where
  "tag_of m tag = (case msg_Get m tag of None \<Rightarrow> [] | Some v \<Rightarrow> v)"

definition built :: "string \<Rightarrow> (int \<times> string) list \<Rightarrow> message" where
  "built mt fs = fold (\<lambda>(t, v) m. msg_Set m t v) fs (NewMessage mt)"

definition send_to :: "nat \<Rightarrow> message \<Rightarrow> fix_server \<Rightarrow> fix_server" where
  "send_to sess m s = s\<lparr>fx_sent := fx_sent s @ [(sess, m)]\<rparr>"

definition put_order :: "nat \<Rightarrow> (ord_rec \<Rightarrow> ord_rec) \<Rightarrow> fix_server \<Rightarrow> fix_server" where
  "put_order p f s = s\<lparr>fx_heap := (fx_heap s)[p := f (fx_heap s ! p)]\<rparr>"

definition drop_engine :: "string \<Rightarrow> fix_server \<Rightarrow> fix_server" where
  "drop_engine engineID s = s\<lparr>fx_byEngine := (fx_byEngine s)(engineID := None)\<rparr>"

subsection \<open>Execution reports\<close>

definition MsgExecutionReport :: string where "MsgExecutionReport = ''8''"

definition nextExec :: "fix_server \<Rightarrow> string \<times> fix_server" where
  "nextExec s = (int_string (sint (fx_execSeq s + 1)), s\<lparr>fx_execSeq := fx_execSeq s + 1\<rparr>)"

definition leaves_qty :: "ord_rec \<Rightarrow> string \<Rightarrow> decimal \<Rightarrow> decimal option" where
  "leaves_qty rec execType cumQty =
     (if execType \<in> {''4'', ''8'', ''5''} then Some Zero
      else do { d \<leftarrow> Sub (fo_orderQty rec) cumQty; Some (if Sign d < 0 then Zero else d) })"

definition baseExecReport ::
    "string \<Rightarrow> ord_rec \<Rightarrow> string \<Rightarrow> string \<Rightarrow> decimal \<Rightarrow> decimal \<Rightarrow> fix_server \<Rightarrow> (message \<times> fix_server) option" where
  "baseExecReport time rec execType ordStatus cumQty avgNum s = do {
     leaves \<leftarrow> leaves_qty rec execType cumQty;
     avg \<leftarrow> (if Sign cumQty > 0 then Div avgNum cumQty else Some Zero);
     let (execID, s) = nextExec s;
     Some (built MsgExecutionReport
       ([(37, fo_orderID rec), (11, fo_clOrdID rec), (17, execID), (150, execType), (39, ordStatus), (55, fo_fixSymbol rec),
         (54, fo_side rec), (38, String (fo_orderQty rec)), (40, fo_ordType rec)] @
        (if fo_ordType rec = ''2'' \<and> fo_price rec \<noteq> [] then [(44, fo_price rec)] else []) @
        [(151, String leaves), (14, String cumQty), (6, String avg), (60, time)]), s)
   }"

definition sendExecReport ::
    "string \<Rightarrow> ord_rec \<Rightarrow> string \<Rightarrow> string \<Rightarrow> decimal \<Rightarrow> decimal \<Rightarrow> decimal \<Rightarrow> decimal \<Rightarrow> string \<Rightarrow> fix_server \<Rightarrow> fix_server option" where
  "sendExecReport time rec execType ordStatus cumQty avgNum lastQty lastPx txt s = do {
     (rep, s) \<leftarrow> baseExecReport time rec execType ordStatus cumQty avgNum s;
     let rep = (if execType = ''F'' then msg_Set (msg_Set rep 32 (String lastQty)) 31 (String lastPx) else rep);
     let rep = (if txt \<noteq> [] then msg_Set rep 58 txt else rep);
     Some (send_to (fo_sess rec) rep s)
   }"

definition fix_reject ::
    "string \<Rightarrow> nat \<Rightarrow> string \<Rightarrow> string \<Rightarrow> string \<Rightarrow> string \<Rightarrow> string \<Rightarrow> fix_server \<Rightarrow> fix_server" where
  "fix_reject time sess clOrdID orderID fixSym sd txt s =
     (let (execID, s) = nextExec s
      in send_to sess (built MsgExecutionReport
           [(37, orderID), (11, clOrdID), (17, execID), (150, ''8''), (39, ''8''), (55, fixSym), (54, sd), (58, txt), (60, time)]) s)"

text \<open>A record is backed out of the indexes before it is rejected.\<close>

definition forget_client :: "nat \<Rightarrow> string \<Rightarrow> fix_server \<Rightarrow> fix_server" where
  "forget_client sess clOrdID s =
     (case map_of (fx_sessions s) sess of None \<Rightarrow> s
      | Some st \<Rightarrow> s\<lparr>fx_sessions := AList.update sess (st\<lparr>fs_byClOrdID := AList.delete clOrdID (fs_byClOrdID st)\<rparr>) (fx_sessions s)\<rparr>)"

definition finishReject :: "string \<Rightarrow> nat \<Rightarrow> string \<Rightarrow> fix_server \<Rightarrow> fix_server option" where
  "finishReject time p txt s =
     (let s = put_order p (\<lambda>r. r\<lparr>fo_done := True\<rparr>) s; rec = fx_heap s ! p;
          s = forget_client (fo_sess rec) (fo_clOrdID rec) (drop_engine (fo_engineID rec) s)
      in sendExecReport time rec ''8'' ''8'' Zero Zero Zero Zero txt s)"

definition fix_cancelReject :: "nat \<Rightarrow> string \<Rightarrow> string \<Rightarrow> string \<Rightarrow> string \<Rightarrow> fix_server \<Rightarrow> fix_server" where
  "fix_cancelReject sess clOrdID orig fixSym txt s =
     send_to sess (built ''9'' [(11, clOrdID), (41, orig), (39, ''8''), (434, int_string 1), (58, txt)]) s"

subsection \<open>Fills\<close>

definition onFill :: "string \<Rightarrow> string \<Rightarrow> trade \<Rightarrow> fix_server \<Rightarrow> fix_server option" where
  "onFill time engineID t s =
     (case fx_byEngine s engineID of None \<Rightarrow> Some s
      | Some p \<Rightarrow> do {
          let rec = fx_heap s ! p;
          cum \<leftarrow> Add (fo_cumQty rec) (tr_Volume t);
          x \<leftarrow> Mul (tr_Volume t) (tr_Price t);
          avgNum \<leftarrow> Add (fo_avgNum rec) x;
          rest \<leftarrow> Sub (fo_orderQty rec) cum;
          let filled = (Sign rest \<le> 0);
          let s = put_order p (\<lambda>r. r\<lparr>fo_cumQty := cum, fo_avgNum := avgNum, fo_done := fo_done r \<or> filled\<rparr>) s;
          let s = (if filled then drop_engine engineID s else s);
          sendExecReport time (fx_heap s ! p) ''F'' (if filled then ''2'' else ''1'') cum avgNum (tr_Volume t) (tr_Price t) [] s
        })"

text \<open>The subscriptions of an instrument: session, request and symbol.\<close>

definition fix_targets :: "fix_server \<Rightarrow> string \<Rightarrow> (nat \<times> string \<times> string) list" where
  "fix_targets s inst =
     concat (map (\<lambda>(sess, st). map (\<lambda>(fixSym, reqID). (sess, reqID, fixSym))
       (filter (\<lambda>(fixSym, reqID). fx_resolve s fixSym = Some inst) (fs_subs st))) (fx_sessions s))"

definition trade_refresh :: "trade \<Rightarrow> string \<Rightarrow> string \<Rightarrow> message" where
  "trade_refresh t reqID fixSym =
     built ''X'' [(262, reqID), (268, int_string 1), (279, ''0''), (269, ''2''), (55, fixSym), (270, String (tr_Price t)), (271, String (tr_Volume t))]"

definition fanoutTrade :: "trade \<Rightarrow> fix_server \<Rightarrow> fix_server" where
  "fanoutTrade t s =
     fold (\<lambda>(sess, reqID, fixSym). send_to sess (trade_refresh t reqID fixSym)) (fix_targets s (tr_Instrument t)) s"

text \<open>The hook has number 0 on the book; a hook with another number belongs to somebody else.\<close>

definition fix_hook :: "string \<Rightarrow> hook_event \<Rightarrow> fix_server \<Rightarrow> fix_server option" where
  "fix_hook time ev s =
     (case ev of
        EvTrade t \<Rightarrow> do {
          s \<leftarrow> onFill time (tr_BuyOrderID t) t s;
          s \<leftarrow> onFill time (tr_SellOrderID t) t s;
          Some (fanoutTrade t s)
        }
      | _ \<Rightarrow> Some s)"

definition fix_AttachHooks :: "fix_server \<Rightarrow> fix_server" where
  "fix_AttachHooks s = s\<lparr>fx_engine := (fx_engine s)\<lparr>en_book := RegisterHook (en_book (fx_engine s)) 0\<rparr>\<rparr>"

fun fix_calls :: "string \<Rightarrow> (nat \<times> hook_event) list \<Rightarrow> fix_server \<Rightarrow> fix_server option" where
  "fix_calls time [] s = Some s"
| "fix_calls time ((h, ev) # calls) s = do {
     s \<leftarrow> (if h = 0 then fix_hook time ev s else Some s);
     fix_calls time calls s
   }"

text \<open>The engine after a call, and the hooks that the book called meanwhile.\<close>

definition fix_ran :: "string \<Rightarrow> engine \<Rightarrow> fix_server \<Rightarrow> fix_server option" where
  "fix_ran time e s =
     fix_calls time (drop (length (ob_calls (en_book (fx_engine s)))) (ob_calls (en_book e))) (s\<lparr>fx_engine := e\<rparr>)"

definition fix_PlaceLimit :: "string \<Rightarrow> order \<Rightarrow> fix_server \<Rightarrow> (placement \<times> fix_server) option" where
  "fix_PlaceLimit time ord s = do {
     (pm, ord', e) \<leftarrow> PlaceLimit (fx_engine s) ord; s \<leftarrow> fix_ran time e s; Some (pm, s) }"

definition fix_PlaceMarket :: "string \<Rightarrow> order \<Rightarrow> fix_server \<Rightarrow> (placement \<times> fix_server) option" where
  "fix_PlaceMarket time ord s = do {
     (pm, ord', e) \<leftarrow> PlaceMarket (fx_engine s) ord; s \<leftarrow> fix_ran time e s; Some (pm, s) }"

definition fix_CancelOrder :: "string \<Rightarrow> string \<Rightarrow> string \<Rightarrow> fix_server \<Rightarrow> ((book_error + order) \<times> fix_server) option" where
  "fix_CancelOrder time inst oid s =
     (let (res, e) = engine_CancelOrder (fx_engine s) inst oid in do { s \<leftarrow> fix_ran time e s; Some (res, s) })"

subsection \<open>Quotes\<close>

definition fmtFloat :: "decimal \<Rightarrow> string" where "fmtFloat d = String d"

definition pruneLocked :: "int \<Rightarrow> fix_server \<Rightarrow> fix_server" where
  "pruneLocked now s = s\<lparr>fx_quotes := filter (\<lambda>(i, q). \<not> (qr_taken q \<or> now > qr_expiresAt q)) (fx_quotes s)\<rparr>"

definition confirm_text :: string where
  "confirm_text = ''confirm: NewOrderSingle with QuotedOrderFlag=Y (692) and OrderID (37) = QuoteID (117)''"

definition quote_msg ::
    "string \<Rightarrow> string \<Rightarrow> string \<Rightarrow> string \<Rightarrow> string \<Rightarrow> string \<Rightarrow> string \<Rightarrow> decimal \<Rightarrow> decimal \<Rightarrow> message" where
  "quote_msg time quoteID quoteReqID clOrdID fixSym sd qtyStr bid offer =
     built ''S'' ([(117, quoteID)] @
       (if quoteReqID \<noteq> [] then [(131, quoteReqID)] else []) @
       (if clOrdID \<noteq> [] then [(11, clOrdID)] else []) @
       [(55, fixSym), (54, sd), (38, qtyStr), (132, fmtFloat bid), (133, fmtFloat offer), (134, qtyStr), (135, qtyStr), (60, time)] @
       (if clOrdID = [] then [(58, confirm_text)] else []))"

definition fix_quote ::
    "fix_env \<Rightarrow> nat \<Rightarrow> string \<Rightarrow> string \<Rightarrow> string \<Rightarrow> string \<Rightarrow> string \<Rightarrow> string \<Rightarrow> decimal \<Rightarrow> fix_server \<Rightarrow> fix_server" where
  "fix_quote env sess quoteReqID clOrdID fixSym engSym sd qtyStr qty s =
     (let refuse = (\<lambda>txt s. fix_reject (fe_time env) sess clOrdID [] fixSym sd txt s)
      in case fe_quoter env of
        None \<Rightarrow> refuse ''no quoter configured'' s
      | Some q \<Rightarrow>
         (case qt_Quote q engSym qty of
            Inl err \<Rightarrow> refuse (''quote failed: '' @ err) s
          | Inr (bid, offer) \<Rightarrow>
              if Sign bid \<le> 0 \<or> Sign offer \<le> 0 \<or> Gt bid offer
              then refuse (''bad quote bid='' @ String bid @ '' offer='' @ String offer) s
              else let quoteID = int_string (sint (fx_quoteSeq s + 1));
                       rec = \<lparr>qr_sess = sess, qr_fixSym = fixSym, qr_engineSym = engSym, qr_side = sd, qr_qty = qty,
                         qr_bid = bid, qr_offer = offer, qr_expiresAt = fe_now env + fx_quoteTTL s, qr_taken = False\<rparr>;
                       s = pruneLocked (fe_now env) (s\<lparr>fx_quoteSeq := fx_quoteSeq s + 1\<rparr>)
                   in if length (fx_quotes s) \<ge> maxQuotes then refuse ''quote table full'' s
                      else send_to sess (quote_msg (fe_time env) quoteID quoteReqID clOrdID fixSym sd qtyStr bid offer)
                             (s\<lparr>fx_quotes := AList.update quoteID rec (fx_quotes s)\<rparr>)))"

subsection \<open>Placing an order\<close>

definition duplicate_client :: "nat \<Rightarrow> string \<Rightarrow> fix_server \<Rightarrow> bool" where
  "duplicate_client sess clOrdID s =
     (case map_of (fx_sessions s) sess of None \<Rightarrow> False | Some st \<Rightarrow> map_of (fs_byClOrdID st) clOrdID \<noteq> None)"

text \<open>The record of a new order with the next number, in the indexes; the answer has its position.\<close>

definition register_order ::
    "nat \<Rightarrow> string \<Rightarrow> string \<Rightarrow> string \<Rightarrow> string \<Rightarrow> string \<Rightarrow> string \<Rightarrow> decimal \<Rightarrow> fix_server \<Rightarrow> nat \<times> fix_server" where
  "register_order sess clOrdID fixSym engSym sd ordType px qty s =
     (let orderID = int_string (sint (fx_orderSeq s + 1)); p = length (fx_heap s);
          rec = \<lparr>fo_sess = sess, fo_clOrdID = clOrdID, fo_orderID = orderID, fo_engineID = fix_prefix @ orderID,
            fo_fixSymbol = fixSym, fo_engineSym = engSym, fo_side = sd, fo_ordType = ordType, fo_price = px,
            fo_orderQty = qty, fo_cumQty = Zero, fo_avgNum = Zero, fo_done = False\<rparr>
      in (p, s\<lparr>fx_orderSeq := fx_orderSeq s + 1, fx_heap := fx_heap s @ [rec],
            fx_sessions := (case map_of (fx_sessions s) sess of None \<Rightarrow> fx_sessions s
              | Some st \<Rightarrow> AList.update sess (st\<lparr>fs_byClOrdID := AList.update clOrdID p (fs_byClOrdID st)\<rparr>) (fx_sessions s)),
            fx_byEngine := (fx_byEngine s)(fix_prefix @ orderID \<mapsto> p)\<rparr>))"

definition fix_order :: "ord_rec \<Rightarrow> side \<Rightarrow> decimal \<Rightarrow> bool \<Rightarrow> (string \<times> string) list \<Rightarrow> order" where
  "fix_order rec sd px market meta =
     \<lparr>ord_ID = fo_engineID rec, ord_Instrument = fo_engineSym rec, ord_Price = px, ord_Volume = fo_orderQty rec,
      ord_Side = sd, ord_IsMarket = market,
      ord_Metadata = map_of ([(''fix'', ''1''), (''clOrdID'', fo_clOrdID rec)] @ meta)\<rparr>"

text \<open>The answer of the engine: an error takes the record back.\<close>

definition fix_placed :: "fix_env \<Rightarrow> nat \<Rightarrow> placement \<times> fix_server \<Rightarrow> fix_server option" where
  "fix_placed env p = (\<lambda>(pm, s).
     (case pm_error pm of None \<Rightarrow> Some s
      | Some e \<Rightarrow> finishReject (fe_time env) p (''engine rejected: '' @ fe_error env e) s))"

definition new_report :: "fix_env \<Rightarrow> nat \<Rightarrow> fix_server \<Rightarrow> fix_server option" where
  "new_report env p s = sendExecReport (fe_time env) (fx_heap s ! p) ''0'' ''0'' Zero Zero Zero Zero [] s"

definition place_new ::
    "fix_env \<Rightarrow> nat \<Rightarrow> string \<Rightarrow> string \<Rightarrow> string \<Rightarrow> string \<Rightarrow> side \<Rightarrow> string \<Rightarrow> string \<Rightarrow> decimal \<Rightarrow> fix_server \<Rightarrow> fix_server option" where
  "place_new env sess clOrdID fixSym engSym sd engSide ordType pxStr qty s =
     (if duplicate_client sess clOrdID s
      then Some (fix_reject (fe_time env) sess clOrdID [] fixSym sd (''duplicate ClOrdID '' @ clOrdID) s)
      else let (p, s) = register_order sess clOrdID fixSym engSym sd ordType pxStr qty s; rec = fx_heap s ! p
           in do {
             s \<leftarrow> new_report env p s;
             if ordType = ''1'' then do {
               res \<leftarrow> fix_PlaceMarket (fe_time env) (fix_order rec engSide Zero True []) s;
               fix_placed env p res
             }
             else case Parse pxStr of
               Inl e \<Rightarrow> finishReject (fe_time env) p (''bad Price '' @ pxStr) s
             | Inr px \<Rightarrow> do {
                 res \<leftarrow> fix_PlaceLimit (fe_time env) (fix_order rec engSide px False []) s;
                 fix_placed env p res
               }
           })"

text \<open>The quote that an order takes, or why it cannot; an expired quote is dropped, a good one is marked as taken.\<close>

definition take_quote ::
    "fix_env \<Rightarrow> nat \<Rightarrow> string \<Rightarrow> string \<Rightarrow> string \<Rightarrow> fix_server \<Rightarrow> (string + decimal) \<times> fix_server" where
  "take_quote env sess quoteID fixSym sd s =
     (case map_of (fx_quotes s) quoteID of
        None \<Rightarrow> (Inl (''unknown quote '' @ quoteID), s)
      | Some rec \<Rightarrow>
          if sess \<noteq> qr_sess rec then (Inl (''quote '' @ quoteID @ '' belongs to another session''), s)
          else if fe_now env > qr_expiresAt rec
          then (Inl (''quote '' @ quoteID @ '' expired''), s\<lparr>fx_quotes := AList.delete quoteID (fx_quotes s)\<rparr>)
          else if qr_taken rec then (Inl (''quote '' @ quoteID @ '' already executed''), s)
          else if qr_fixSym rec \<noteq> fixSym then (Inl (''quote '' @ quoteID @ '' is for '' @ qr_fixSym rec), s)
          else (Inr (if sd = ''1'' then qr_offer rec else qr_bid rec),
                s\<lparr>fx_quotes := AList.update quoteID (rec\<lparr>qr_taken := True\<rparr>) (fx_quotes s)\<rparr>))"

definition executeQuoted ::
    "fix_env \<Rightarrow> nat \<Rightarrow> message \<Rightarrow> string \<Rightarrow> string \<Rightarrow> string \<Rightarrow> string \<Rightarrow> decimal \<Rightarrow> fix_server \<Rightarrow> fix_server option" where
  "executeQuoted env sess m clOrdID fixSym engSym sd qty s =
     (let quoteID = tag_of m 37; refuse = (\<lambda>txt s. Some (fix_reject (fe_time env) sess clOrdID [] fixSym sd txt s));
          (taken, s) = take_quote env sess quoteID fixSym sd s
      in case taken of
        Inl txt \<Rightarrow> refuse txt s
      | Inr px \<Rightarrow>
          if duplicate_client sess clOrdID s then refuse (''duplicate ClOrdID '' @ clOrdID) s
          else let (p, s) = register_order sess clOrdID fixSym engSym sd ''2'' (fmtFloat px) qty s; rec = fx_heap s ! p
               in do {
                 s \<leftarrow> new_report env p s;
                 res \<leftarrow> fix_PlaceLimit (fe_time env) (fix_order rec (engSideFor sd) px False [(''quoted'', quoteID)]) s;
                 fix_placed env p res
               })"

subsection \<open>Requests\<close>

definition fix_OnLogon :: "nat \<Rightarrow> fix_server \<Rightarrow> fix_server" where
  "fix_OnLogon sess s =
     s\<lparr>fx_sessions := AList.update sess \<lparr>fs_byClOrdID = [], fs_subs = []\<rparr> (fx_sessions s)\<rparr>"

definition fix_OnLogout :: "nat \<Rightarrow> fix_server \<Rightarrow> fix_server" where
  "fix_OnLogout sess s =
     (case map_of (fx_sessions s) sess of None \<Rightarrow> s
      | Some st \<Rightarrow>
          (fold (\<lambda>(c, p) s. drop_engine (fo_engineID (fx_heap s ! p)) s) (fs_byClOrdID st) s)
            \<lparr>fx_sessions := AList.delete sess (fx_sessions s)\<rparr>)"

text \<open>A quantity that is a number and positive.\<close>

definition good_qty :: "string \<Rightarrow> decimal option" where
  "good_qty t = (case Parse t of Inl e \<Rightarrow> None | Inr q \<Rightarrow> if Sign q \<le> 0 then None else Some q)"

definition fix_OnNewOrderSingle :: "fix_env \<Rightarrow> nat \<Rightarrow> message \<Rightarrow> fix_server \<Rightarrow> fix_server option" where
  "fix_OnNewOrderSingle env sess m s =
     (let clOrdID = tag_of m 11; fixSym = tag_of m 55; sd = tag_of m 54; ordType = tag_of m 40; qtyStr = tag_of m 38;
          pxStr = tag_of m 44; refuse = (\<lambda>txt. Some (fix_reject (fe_time env) sess clOrdID [] fixSym sd txt s))
      in case fx_resolve s fixSym of
        None \<Rightarrow> refuse (''unknown symbol '' @ fixSym)
      | Some engSym \<Rightarrow>
         (case fixSideToEngine sd of
            None \<Rightarrow> refuse (''bad Side '' @ sd)
          | Some engSide \<Rightarrow>
             (case good_qty qtyStr of
                None \<Rightarrow> refuse (''bad OrderQty '' @ qtyStr)
              | Some qty \<Rightarrow>
                  if tag_of m 692 = ''Y'' then executeQuoted env sess m clOrdID fixSym engSym sd qty s
                  else if (case fe_quoter env of None \<Rightarrow> False | Some q \<Rightarrow> qt_IsExotic q engSym)
                  then Some (fix_quote env sess [] clOrdID fixSym engSym sd qtyStr qty s)
                  else place_new env sess clOrdID fixSym engSym sd engSide ordType pxStr qty s)))"

definition quoteReject :: "nat \<Rightarrow> string \<Rightarrow> string \<Rightarrow> string \<Rightarrow> fix_server \<Rightarrow> fix_server" where
  "quoteReject sess reqID fixSym txt s =
     send_to sess (built ''j'' ([(372, MsgQuoteRequest), (55, fixSym)] @
       (if reqID \<noteq> [] then [(131, reqID)] else []) @ [(58, txt)])) s"

definition fix_OnQuoteRequest :: "fix_env \<Rightarrow> nat \<Rightarrow> message \<Rightarrow> fix_server \<Rightarrow> fix_server" where
  "fix_OnQuoteRequest env sess m s =
     (let reqID = tag_of m 131; fixSym = tag_of m 55; sd = tag_of m 54; qtyStr = tag_of m 38;
          refuse = (\<lambda>txt. quoteReject sess reqID fixSym txt s)
      in if fe_quoter env = None then refuse ''quote flow not enabled''
         else case fx_resolve s fixSym of
           None \<Rightarrow> refuse (''unknown symbol '' @ fixSym)
         | Some engSym \<Rightarrow>
             if fixSideToEngine sd = None then refuse (''bad Side '' @ sd)
             else case good_qty qtyStr of
               None \<Rightarrow> refuse (''bad OrderQty '' @ qtyStr)
             | Some qty \<Rightarrow> fix_quote env sess reqID [] fixSym engSym sd qtyStr qty s)"

text \<open>The order of a session that a cancel or a replace names and that is not done.\<close>

definition open_order :: "nat \<Rightarrow> string \<Rightarrow> fix_server \<Rightarrow> nat option" where
  "open_order sess orig s =
     (case map_of (fx_sessions s) sess of None \<Rightarrow> None
      | Some st \<Rightarrow> (case map_of (fs_byClOrdID st) orig of None \<Rightarrow> None
          | Some p \<Rightarrow> if fo_done (fx_heap s ! p) then None else Some p))"

text \<open>The cancellation in the engine, with the refusal sent when there is nothing to cancel.\<close>

definition cancel_named :: "fix_env \<Rightarrow> nat \<Rightarrow> message \<Rightarrow> fix_server \<Rightarrow> (nat option \<times> fix_server) option" where
  "cancel_named env sess m s =
     (let clOrdID = tag_of m 11; orig = tag_of m 41; fixSym = tag_of m 55
      in case open_order sess orig s of
        None \<Rightarrow> Some (None, fix_cancelReject sess clOrdID orig fixSym ''unknown or completed order'' s)
      | Some p \<Rightarrow> do {
          let rec = fx_heap s ! p;
          (res, s) \<leftarrow> fix_CancelOrder (fe_time env) (fo_engineSym rec) (fo_engineID rec) s;
          Some (case res of
            Inl err \<Rightarrow> (None, fix_cancelReject sess clOrdID orig fixSym (''engine: '' @ fe_book_error env err) s)
          | Inr ord \<Rightarrow> (Some p, drop_engine (fo_engineID rec) (put_order p (\<lambda>r. r\<lparr>fo_done := True\<rparr>) s)))
        })"

definition fix_OnOrderCancelRequest :: "fix_env \<Rightarrow> nat \<Rightarrow> message \<Rightarrow> fix_server \<Rightarrow> fix_server option" where
  "fix_OnOrderCancelRequest env sess m s = do {
     (found, s) \<leftarrow> cancel_named env sess m s;
     (case found of None \<Rightarrow> Some s
      | Some p \<Rightarrow> do {
          let rec = fx_heap s ! p;
          (rep, s) \<leftarrow> baseExecReport (fe_time env) rec ''4'' ''4'' (fo_cumQty rec) (fo_avgNum rec) s;
          Some (send_to sess (msg_Set (msg_Set rep 11 (tag_of m 11)) 41 (tag_of m 41)) s)
        })
   }"

definition fix_OnOrderCancelReplace :: "fix_env \<Rightarrow> nat \<Rightarrow> message \<Rightarrow> fix_server \<Rightarrow> fix_server option" where
  "fix_OnOrderCancelReplace env sess m s = do {
     (found, s) \<leftarrow> cancel_named env sess m s;
     (if found = None then Some s else fix_OnNewOrderSingle env sess m s)
   }"

definition fix_level :: "string \<Rightarrow> level \<Rightarrow> (int \<times> string) list" where
  "fix_level kind lv = [(269, kind), (270, String (lv_Price lv)), (271, String (lv_Volume lv))]"

definition snapshotMsg :: "string \<Rightarrow> string \<Rightarrow> snapshot \<Rightarrow> int \<Rightarrow> message" where
  "snapshotMsg reqID fixSym snap depth =
     (let bids = take (nat depth) (sn_Bids snap); asks = take (nat depth) (sn_Asks snap)
      in built ''W'' ([(262, reqID), (55, fixSym), (268, int_string (int (length bids) + int (length asks)))] @
           concat (map (fix_level ''0'') bids) @ concat (map (fix_level ''1'') asks)))"

definition mdReject :: "nat \<Rightarrow> string \<Rightarrow> string \<Rightarrow> fix_server \<Rightarrow> fix_server" where
  "mdReject sess reqID txt s = send_to sess (built ''Y'' [(262, reqID), (58, txt)]) s"

definition subscribe_market :: "nat \<Rightarrow> string \<Rightarrow> string \<Rightarrow> fix_server \<Rightarrow> fix_server" where
  "subscribe_market sess fixSym reqID s =
     (case map_of (fx_sessions s) sess of None \<Rightarrow> s
      | Some st \<Rightarrow> s\<lparr>fx_sessions := AList.update sess (st\<lparr>fs_subs := AList.update fixSym reqID (fs_subs st)\<rparr>) (fx_sessions s)\<rparr>)"

fun md_symbols :: "nat \<Rightarrow> string \<Rightarrow> bool \<Rightarrow> int \<Rightarrow> string list \<Rightarrow> fix_server \<Rightarrow> fix_server option" where
  "md_symbols sess reqID updates depth [] s = Some s"
| "md_symbols sess reqID updates depth (fixSym # symbols) s =
     (case fx_resolve s fixSym of
        None \<Rightarrow> md_symbols sess reqID updates depth symbols (mdReject sess reqID (''unknown symbol '' @ fixSym) s)
      | Some engSym \<Rightarrow> do {
          snap \<leftarrow> engine_Snapshot (fx_engine s) engSym;
          (case snap of
             Inl e \<Rightarrow> md_symbols sess reqID updates depth symbols (mdReject sess reqID (''no book for '' @ fixSym) s)
           | Inr sn \<Rightarrow>
               let s = send_to sess (snapshotMsg reqID fixSym sn depth) s
               in md_symbols sess reqID updates depth symbols (if updates then subscribe_market sess fixSym reqID s else s))
        })"

definition fix_OnMarketDataRequest :: "nat \<Rightarrow> message \<Rightarrow> fix_server \<Rightarrow> fix_server option" where
  "fix_OnMarketDataRequest sess m s =
     (let depth = (case msg_GetInt m 264 of None \<Rightarrow> fx_depth s | Some d \<Rightarrow> if d > 0 then d else fx_depth s)
      in md_symbols sess (tag_of m 262) (tag_of m 263 = ''1'') depth
           (map f_Value (filter (\<lambda>f. f_Tag f = 55) (m_Fields m))) s)"

text \<open>The callbacks of a session.\<close>

definition fix_event :: "fix_env \<Rightarrow> nat \<Rightarrow> app_event \<Rightarrow> fix_server \<Rightarrow> fix_server option" where
  "fix_event env sess ev s =
     (case ev of
        OnLogon \<Rightarrow> Some (fix_OnLogon sess s)
      | OnLogout \<Rightarrow> Some (fix_OnLogout sess s)
      | OnNewOrderSingle m \<Rightarrow> fix_OnNewOrderSingle env sess m s
      | OnOrderCancelRequest m \<Rightarrow> fix_OnOrderCancelRequest env sess m s
      | OnOrderCancelReplace m \<Rightarrow> fix_OnOrderCancelReplace env sess m s
      | OnMarketDataRequest m \<Rightarrow> fix_OnMarketDataRequest sess m s
      | OnQuoteRequest m \<Rightarrow> Some (fix_OnQuoteRequest env sess m s))"

end
