(* ===== verification/FixServerProofs.thy ===== *)
theory FixServerProofs
  imports FixServer FillLifecycle Matching
begin

text \<open>
  The FIX application: the execution reports it sends are numbered without gaps, every request is answered, and
  an order at a quoted price rests on a quote that its session was sent, once.
\<close>

subsection \<open>Messages\<close>

lemma msg_Get_Set: "msg_Get (msg_Set m t v) t' = (case msg_Get m t' of Some x \<Rightarrow> Some x | None \<Rightarrow> if t' = t then Some v else None)"
  by (auto simp: msg_Get_def msg_Set_def split: option.splits list.splits)

lemma msg_Get_fold:
  "msg_Get (fold (\<lambda>(t, v) m. msg_Set m t v) fs m) t = (case msg_Get m t of Some x \<Rightarrow> Some x | None \<Rightarrow> map_of fs t)"
  by (induction fs arbitrary: m) (auto simp: msg_Get_Set split: option.splits)

lemma msg_Get_built: "msg_Get (built mt fs) t = (if t = 35 then Some mt else map_of fs t)"
  by (simp add: built_def msg_Get_fold NewMessage_def msg_Get_Set TagMsgType_def empty_message_def)
     (simp add: msg_Get_def)

lemma MsgType_built [simp]: "MsgType (built mt fs) = mt"
  by (simp add: MsgType_def msg_Get_built TagMsgType_def)

lemma tag_of_built: "t \<noteq> 35 \<Longrightarrow> tag_of (built mt fs) t = (case map_of fs t of None \<Rightarrow> [] | Some v \<Rightarrow> v)"
  by (simp add: tag_of_def msg_Get_built)

lemma MsgType_Set [simp]: "MsgType m \<noteq> [] \<Longrightarrow> MsgType (msg_Set m t v) = MsgType m"
  by (auto simp: MsgType_def msg_Get_Set split: option.splits)

lemma tag_of_Set: "tag_of m t' \<noteq> [] \<or> t \<noteq> t' \<Longrightarrow> tag_of (msg_Set m t v) t' = tag_of m t'"
  by (auto simp: tag_of_def msg_Get_Set split: option.splits)

subsection \<open>Numbering\<close>

definition exec_ids :: "(nat \<times> message) list \<Rightarrow> string list" where
  "exec_ids ms = map (\<lambda>(s, m). tag_of m 17) (filter (\<lambda>(s, m). MsgType m = MsgExecutionReport) ms)"

lemma exec_ids_simps [simp]:
  "exec_ids [] = []" "exec_ids (xs @ ys) = exec_ids xs @ exec_ids ys"
  "exec_ids ((s, m) # ms) = (if MsgType m = MsgExecutionReport then [tag_of m 17] else []) @ exec_ids ms"
  by (simp_all add: exec_ids_def)

text \<open>The \<open>n\<close> numbers that follow \<open>w\<close>.\<close>

definition next_ids :: "i64 \<Rightarrow> nat \<Rightarrow> string list" where
  "next_ids w n = map (\<lambda>k. int_string (sint (w + of_nat (Suc k)))) [0..<n]"

lemma next_ids_simps [simp]: "next_ids w 0 = []" "next_ids w (Suc 0) = [int_string (sint (w + 1))]" "length (next_ids w n) = n"
  by (simp_all add: next_ids_def)

lemma next_ids_add: "next_ids w (m + n) = next_ids w m @ next_ids (w + of_nat m) n"
proof -
  have "[0..<m + n] = [0..<m] @ map (\<lambda>i. i + m) [0..<n]"
    using upt_add_eq_append[of 0 m n] map_add_upt[of m n] by (simp add: add.commute[of n m])
  moreover have "w + of_nat (Suc (k + m)) = w + of_nat m + of_nat (Suc k)" for k by (simp add: algebra_simps)
  ultimately show ?thesis by (simp only: next_ids_def map_append list.map_comp comp_def)
qed

text \<open>What every operation does to what is sent, and leaves of the quotes.\<close>

definition speaks :: "fix_server \<Rightarrow> fix_server \<Rightarrow> bool" where
  "speaks s s' \<longleftrightarrow> (\<exists>ms. fx_sent s' = fx_sent s @ ms \<and> exec_ids ms = next_ids (fx_execSeq s) (length (exec_ids ms)) \<and>
     fx_execSeq s' = fx_execSeq s + of_nat (length (exec_ids ms)))"

definition quotes_same :: "fix_server \<Rightarrow> fix_server \<Rightarrow> bool" where
  "quotes_same s s' \<longleftrightarrow> fx_quotes s' = fx_quotes s \<and> fx_quoteSeq s' = fx_quoteSeq s"

text \<open>The part of an order that never changes.\<close>

definition fixed_part :: "ord_rec \<Rightarrow> ord_rec" where
  "fixed_part r = r\<lparr>fo_cumQty := Zero, fo_avgNum := Zero, fo_done := False\<rparr>"

definition keeps_orders :: "fix_server \<Rightarrow> fix_server \<Rightarrow> bool" where
  "keeps_orders s s' \<longleftrightarrow> length (fx_heap s) \<le> length (fx_heap s') \<and>
     (\<forall>p < length (fx_heap s). fixed_part (fx_heap s' ! p) = fixed_part (fx_heap s ! p))"

text \<open>Nothing happens to the quotes; for the second, no order is added either.\<close>

definition calm :: "fix_server \<Rightarrow> fix_server \<Rightarrow> bool" where
  "calm s s' \<longleftrightarrow> speaks s s' \<and> quotes_same s s' \<and> keeps_orders s s'"

definition quiet :: "fix_server \<Rightarrow> fix_server \<Rightarrow> bool" where
  "quiet s s' \<longleftrightarrow> calm s s' \<and> length (fx_heap s') = length (fx_heap s)"

lemma speaks_trans: "speaks s s' \<Longrightarrow> speaks s' s'' \<Longrightarrow> speaks s s''"
  unfolding speaks_def
proof (elim exE conjE)
  fix ms ms'
  assume a: "fx_sent s' = fx_sent s @ ms" "exec_ids ms = next_ids (fx_execSeq s) (length (exec_ids ms))"
    "fx_execSeq s' = fx_execSeq s + word_of_nat (length (exec_ids ms))"
    "fx_sent s'' = fx_sent s' @ ms'" "exec_ids ms' = next_ids (fx_execSeq s') (length (exec_ids ms'))"
    "fx_execSeq s'' = fx_execSeq s' + word_of_nat (length (exec_ids ms'))"
  then have "exec_ids (ms @ ms') = next_ids (fx_execSeq s) (length (exec_ids (ms @ ms')))"
    by (simp add: next_ids_add)
  with a show "\<exists>ms. fx_sent s'' = fx_sent s @ ms \<and> exec_ids ms = next_ids (fx_execSeq s) (length (exec_ids ms)) \<and>
      fx_execSeq s'' = fx_execSeq s + word_of_nat (length (exec_ids ms))"
    by (intro exI[of _ "ms @ ms'"]) (simp add: add.assoc)
qed

lemma keeps_orders_trans: "keeps_orders s s' \<Longrightarrow> keeps_orders s' s'' \<Longrightarrow> keeps_orders s s''"
  by (auto simp: keeps_orders_def)

lemma keeps_ordersI: "fx_heap s' = fx_heap s @ rs \<Longrightarrow> keeps_orders s s'"
  by (auto simp: keeps_orders_def nth_append)

lemma calm_trans: "calm s s' \<Longrightarrow> calm s' s'' \<Longrightarrow> calm s s''"
  unfolding calm_def quotes_same_def by (auto intro: speaks_trans keeps_orders_trans)

lemma quiet_trans: "quiet s s' \<Longrightarrow> quiet s' s'' \<Longrightarrow> quiet s s''"
  unfolding quiet_def by (auto intro: calm_trans)

lemma quiet_calm: "quiet s s' \<Longrightarrow> calm s s'"
  by (simp add: quiet_def)

lemma speaksI:
  "fx_sent s' = fx_sent s \<Longrightarrow> fx_execSeq s' = fx_execSeq s \<Longrightarrow> speaks s s'"
  by (auto simp: speaks_def intro!: exI[of _ "[]"])

lemma quiet_same:
  "fx_sent s' = fx_sent s \<Longrightarrow> fx_execSeq s' = fx_execSeq s \<Longrightarrow> fx_quotes s' = fx_quotes s \<Longrightarrow> fx_quoteSeq s' = fx_quoteSeq s \<Longrightarrow>
   fx_heap s' = fx_heap s \<Longrightarrow> quiet s s'"
  by (simp add: quiet_def calm_def quotes_same_def speaksI keeps_ordersI)

lemma fx_quiet_refl [simp]: "quiet s s"
  by (simp add: quiet_same)

lemma quiet_put: "(\<And>r. fixed_part (f r) = fixed_part r) \<Longrightarrow> quiet s (put_order p f s)"
  by (simp add: quiet_def calm_def quotes_same_def speaksI keeps_orders_def put_order_def)
     (metis nth_list_update_eq nth_list_update_neq)

lemma quiet_put_done [simp]: "quiet s (put_order p (\<lambda>r. r\<lparr>fo_done := True\<rparr>) s)"
  by (rule quiet_put) (simp add: fixed_part_def)

lemma quiet_drop [simp]: "quiet s (drop_engine e s)"
  by (rule quiet_same) (simp_all add: drop_engine_def)

lemma quiet_forget [simp]: "quiet s (forget_client sess c s)"
  by (rule quiet_same) (simp_all add: forget_client_def split: option.splits)

text \<open>A message that is no execution report.\<close>

lemma quiet_send: "MsgType m \<noteq> MsgExecutionReport \<Longrightarrow> quiet s (send_to sess m s)"
  unfolding quiet_def calm_def quotes_same_def speaks_def keeps_orders_def by (auto simp: send_to_def intro!: exI[of _ "[(sess, m)]"])

lemma quiet_report:
  assumes "MsgType m = MsgExecutionReport" "tag_of m 17 = fst (nextExec s)"
  shows "quiet s (send_to sess m (snd (nextExec s)))"
  using assms unfolding quiet_def calm_def quotes_same_def speaks_def keeps_orders_def
  by (auto simp: send_to_def nextExec_def intro!: exI[of _ "[(sess, m)]"])

lemma fst_nextExec [simp]: "fst (nextExec s) \<noteq> []"
  by (simp add: nextExec_def)

lemma quiet_reject [simp]: "quiet s (fix_reject time sess c oid fixSym sd txt s)"
  unfolding fix_reject_def split_beta Let_def by (rule quiet_report) (simp_all add: tag_of_built)

lemma baseExecReport_shape:
  assumes "baseExecReport time rec et os cum avg s = Some (rep, s')"
  shows "MsgType rep = MsgExecutionReport \<and> tag_of rep 17 = fst (nextExec s) \<and> s' = snd (nextExec s)"
  using assms by (auto simp: baseExecReport_def bind_eq_Some_conv tag_of_built nextExec_def split: if_splits)

lemma MsgExecutionReport_nonempty [simp]: "MsgExecutionReport \<noteq> []"
  by (simp add: MsgExecutionReport_def)

lemma quiet_sendExecReport: "sendExecReport time rec et os cum avg lq lp txt s = Some s' \<Longrightarrow> quiet s s'"
  by (auto simp: sendExecReport_def bind_eq_Some_conv Let_def split: prod.splits if_splits dest!: baseExecReport_shape
      intro!: quiet_report simp: tag_of_Set)

lemma quiet_finishReject:
  assumes "finishReject time p txt s = Some s'"
  shows "quiet s s'"
proof -
  from assms have "quiet (forget_client (fo_sess (fx_heap (put_order p (\<lambda>r. r\<lparr>fo_done := True\<rparr>) s) ! p))
      (fo_clOrdID (fx_heap (put_order p (\<lambda>r. r\<lparr>fo_done := True\<rparr>) s) ! p))
      (drop_engine (fo_engineID (fx_heap (put_order p (\<lambda>r. r\<lparr>fo_done := True\<rparr>) s) ! p)) (put_order p (\<lambda>r. r\<lparr>fo_done := True\<rparr>) s))) s'"
    unfolding finishReject_def Let_def by (rule quiet_sendExecReport)
  then show ?thesis by (rule quiet_trans[OF quiet_trans[OF quiet_trans[OF quiet_put_done quiet_drop] quiet_forget]])
qed

lemma quiet_cancelReject [simp]: "quiet s (fix_cancelReject sess c orig fixSym txt s)"
  unfolding fix_cancelReject_def by (rule quiet_send) (simp add: MsgExecutionReport_def)

lemma quiet_onFill:
  assumes "onFill time e t s = Some s'"
  shows "quiet s s'"
proof (cases "fx_byEngine s e")
  case None
  with assms show ?thesis by (simp add: onFill_def)
next
  case (Some p)
  let ?f = "\<lambda>cum avg filled r. r\<lparr>fo_cumQty := cum, fo_avgNum := avg, fo_done := fo_done r \<or> filled\<rparr>"
  from assms Some obtain cum x avg rest where
    "(let filled = Sign rest \<le> 0; s1 = put_order p (?f cum avg filled) s; s2 = (if filled then drop_engine e s1 else s1)
      in sendExecReport time (fx_heap s2 ! p) ''F'' (if filled then ''2'' else ''1'') cum avg (tr_Volume t) (tr_Price t) [] s2) = Some s'"
    by (auto simp: onFill_def bind_eq_Some_conv Let_def)
  moreover define s1 where "s1 = put_order p (?f cum avg (Sign rest \<le> 0)) s"
  ultimately have "quiet (if Sign rest \<le> 0 then drop_engine e s1 else s1) s'"
    unfolding Let_def by (simp only: quiet_sendExecReport)
  moreover have "quiet s1 (if Sign rest \<le> 0 then drop_engine e s1 else s1)" by simp
  moreover have "quiet s s1" unfolding s1_def by (rule quiet_put) (simp add: fixed_part_def)
  ultimately show ?thesis by (blast intro: quiet_trans)
qed

lemma quiet_fold: "(\<And>x s. quiet s (f x s)) \<Longrightarrow> quiet s (fold f xs s)"
  by (induction xs arbitrary: s) (auto intro: quiet_trans)

lemma quiet_fanout [simp]: "quiet s (fanoutTrade t s)"
  unfolding fanoutTrade_def
  by (rule quiet_fold) (auto simp: trade_refresh_def MsgExecutionReport_def intro: quiet_send)

lemma quiet_calls: "fix_calls time calls s = Some s' \<Longrightarrow> quiet s s'"
proof (induction time calls s rule: fix_calls.induct)
  case (2 time h ev calls s)
  then obtain s1 where s1: "(if h = 0 then fix_hook time ev s else Some s) = Some s1" "fix_calls time calls s1 = Some s'"
    by (auto simp: bind_eq_Some_conv)
  then have "quiet s s1"
    by (auto simp: fix_hook_def bind_eq_Some_conv split: if_splits hook_event.splits
        intro: quiet_trans[OF quiet_trans[OF quiet_onFill quiet_onFill]])
  with 2 s1 show ?case by (meson quiet_trans)
qed simp

lemma quiet_ran: "fix_ran time e s = Some s' \<Longrightarrow> quiet s s'"
proof -
  assume "fix_ran time e s = Some s'"
  then have "quiet (s\<lparr>fx_engine := e\<rparr>) s'" unfolding fix_ran_def by (rule quiet_calls)
  moreover have "quiet s (s\<lparr>fx_engine := e\<rparr>)" by (rule quiet_same) simp_all
  ultimately show ?thesis by (rule quiet_trans[rotated])
qed

lemma quiet_PlaceLimit: "fix_PlaceLimit time ord s = Some (pm, s') \<Longrightarrow> quiet s s'"
  by (auto simp: fix_PlaceLimit_def bind_eq_Some_conv intro: quiet_ran)

lemma quiet_PlaceMarket: "fix_PlaceMarket time ord s = Some (pm, s') \<Longrightarrow> quiet s s'"
  by (auto simp: fix_PlaceMarket_def bind_eq_Some_conv intro: quiet_ran)

lemma quiet_Cancel: "fix_CancelOrder time inst oid s = Some (res, s') \<Longrightarrow> quiet s s'"
  by (auto simp: fix_CancelOrder_def bind_eq_Some_conv split: prod.splits intro: quiet_ran)

lemma quiet_placed: "fix_placed env p (pm, s) = Some s' \<Longrightarrow> quiet s s'"
  by (auto simp: fix_placed_def split: option.splits intro: quiet_finishReject)

lemma calm_register: "register_order sess c fixSym engSym sd ot px qty s = (p, s') \<Longrightarrow> calm s s'"
  by (auto simp: register_order_def Let_def calm_def quotes_same_def speaksI keeps_orders_def nth_append)

lemma quiet_new_report: "new_report env p s = Some s' \<Longrightarrow> quiet s s'"
  unfolding new_report_def by (rule quiet_sendExecReport)

lemma place_new_cases:
  assumes "place_new env sess c fixSym engSym sd es ot px qty s = Some s'"
  obtains (duplicate) "duplicate_client sess c s"
      "s' = fix_reject (fe_time env) sess c [] fixSym sd (''duplicate ClOrdID '' @ c) s"
  | (registered) p s1 s2 where "\<not> duplicate_client sess c s"
      "register_order sess c fixSym engSym sd ot px qty s = (p, s1)" "new_report env p s1 = Some s2" "quiet s2 s'"
proof (cases "duplicate_client sess c s")
  case True
  with assms duplicate show ?thesis by (simp add: place_new_def)
next
  case False
  obtain p s1 where s1: "register_order sess c fixSym engSym sd ot px qty s = (p, s1)" by fastforce
  with False assms obtain s2 where s2: "new_report env p s1 = Some s2" by (auto simp: place_new_def Let_def bind_eq_Some_conv)
  have "quiet s2 s'"
  proof (cases "ot = ''1''")
    case True
    with False assms s1 s2 obtain pm s3 where "fix_PlaceMarket (fe_time env) (fix_order (fx_heap s1 ! p) es Zero True []) s2 = Some (pm, s3)"
      "fix_placed env p (pm, s3) = Some s'" by (auto simp: place_new_def Let_def bind_eq_Some_conv)
    then show ?thesis by (rule quiet_trans[OF quiet_PlaceMarket quiet_placed])
  next
    case lim: False
    show ?thesis
    proof (cases "Parse px")
      case (Inl e)
      with False lim assms s1 s2 show ?thesis by (auto simp: place_new_def Let_def intro: quiet_finishReject)
    next
      case (Inr v)
      with False lim assms s1 s2 obtain pm s3 where "fix_PlaceLimit (fe_time env) (fix_order (fx_heap s1 ! p) es v False []) s2 = Some (pm, s3)"
        "fix_placed env p (pm, s3) = Some s'" by (auto simp: place_new_def Let_def bind_eq_Some_conv)
      then show ?thesis by (rule quiet_trans[OF quiet_PlaceLimit quiet_placed])
    qed
  qed
  with False s1 s2 show ?thesis by (rule registered)
qed

lemma calm_place_new:
  assumes "place_new env sess c fixSym engSym sd es ot px qty s = Some s'"
  shows "calm s s'"
  using assms
proof (cases rule: place_new_cases)
  case registered
  then show ?thesis using calm_trans[OF calm_trans[OF calm_register quiet_calm[OF quiet_new_report]] quiet_calm] by blast
qed (simp add: quiet_calm)

lemma quiet_cancelled: "quiet s s' \<Longrightarrow> quiet s (drop_engine e (put_order p (\<lambda>r. r\<lparr>fo_done := True\<rparr>) s'))"
  by (rule quiet_trans[OF quiet_trans[OF _ quiet_put_done] quiet_drop])

lemma quiet_cancel_named:
  assumes "cancel_named env sess m s = Some (found, s')"
  shows "quiet s s'"
proof (cases "open_order sess (tag_of m 41) s")
  case None
  with assms show ?thesis by (auto simp: cancel_named_def)
next
  case (Some p)
  with assms obtain res s1 where s1:
    "fix_CancelOrder (fe_time env) (fo_engineSym (fx_heap s ! p)) (fo_engineID (fx_heap s ! p)) s = Some (res, s1)"
    by (auto simp: cancel_named_def Let_def bind_eq_Some_conv)
  with quiet_Cancel[OF s1] assms Some show ?thesis
    by (cases res) (auto simp: cancel_named_def Let_def intro: quiet_cancelled quiet_trans[OF _ quiet_cancelReject])
qed

lemma quiet_OnOrderCancelRequest:
  assumes "fix_OnOrderCancelRequest env sess m s = Some s'"
  shows "quiet s s'"
proof -
  from assms obtain found s1 where s1: "cancel_named env sess m s = Some (found, s1)"
    "(case found of None \<Rightarrow> Some s1 | Some p \<Rightarrow> do {
        (rep, s) \<leftarrow> baseExecReport (fe_time env) (fx_heap s1 ! p) ''4'' ''4'' (fo_cumQty (fx_heap s1 ! p)) (fo_avgNum (fx_heap s1 ! p)) s1;
        Some (send_to sess (msg_Set (msg_Set rep 11 (tag_of m 11)) 41 (tag_of m 41)) s) }) = Some s'"
    unfolding fix_OnOrderCancelRequest_def Let_def by (auto simp: bind_eq_Some_conv[of "cancel_named env sess m s"])
  then have "quiet s1 s'"
    by (auto split: option.splits simp: bind_eq_Some_conv tag_of_Set dest!: baseExecReport_shape intro!: quiet_report)
  with quiet_cancel_named[OF s1(1)] show ?thesis by (rule quiet_trans)
qed

lemma quiet_mdReject [simp]: "quiet s (mdReject sess r reason s)"
  unfolding mdReject_def by (rule quiet_send) (simp add: MsgExecutionReport_def)

lemma quiet_snapshotMsg [simp]: "quiet s (send_to sess (snapshotMsg r x sn d) s)"
  by (rule quiet_send) (simp add: snapshotMsg_def Let_def MsgExecutionReport_def)

lemma quiet_subscribe [simp]: "quiet s (subscribe_market sess x r s)"
  by (rule quiet_same) (auto simp: subscribe_market_def split: option.splits)

lemma quiet_md: "md_symbols sess r u d xs s = Some s' \<Longrightarrow> quiet s s'"
proof (induction xs arbitrary: s)
  case (Cons x xs)
  have after: "quiet s s1 \<Longrightarrow> md_symbols sess r u d xs s1 = Some s' \<Longrightarrow> quiet s s'" for s1
    using Cons.IH quiet_trans by blast
  show ?case
  proof (cases "fx_resolve s x")
    case None
    with Cons.prems show ?thesis by (auto intro: after[OF quiet_mdReject])
  next
    case (Some e)
    with Cons.prems obtain snap where snap: "engine_Snapshot (fx_engine s) e = Some snap" by (auto simp: bind_eq_Some_conv)
    show ?thesis
    proof (cases snap)
      case (Inl err)
      with Cons.prems Some snap show ?thesis by (auto intro: after[OF quiet_mdReject])
    next
      case (Inr sn)
      with Cons.prems Some snap show ?thesis
        by (auto simp: Let_def split: if_splits
            intro: after[OF quiet_snapshotMsg] after[OF quiet_trans[OF quiet_snapshotMsg quiet_subscribe]])
    qed
  qed
qed simp

subsection \<open>Events\<close>

text \<open>An event that may change the quotes.\<close>

definition steady :: "fix_server \<Rightarrow> fix_server \<Rightarrow> bool" where
  "steady s s' \<longleftrightarrow> speaks s s' \<and> keeps_orders s s'"

lemma steady_trans: "steady s s' \<Longrightarrow> steady s' s'' \<Longrightarrow> steady s s''"
  by (auto simp: steady_def intro: speaks_trans keeps_orders_trans)

lemma calm_steady: "calm s s' \<Longrightarrow> steady s s'"
  by (simp add: calm_def steady_def)

lemmas quiet_steady = calm_steady[OF quiet_calm]

lemma steady_same: "fx_sent s' = fx_sent s \<Longrightarrow> fx_execSeq s' = fx_execSeq s \<Longrightarrow> fx_heap s' = fx_heap s \<Longrightarrow> steady s s'"
  by (simp add: steady_def speaksI keeps_ordersI[of _ _ "[]"])

definition issued_id :: "fix_server \<Rightarrow> string" where
  "issued_id s = int_string (sint (fx_quoteSeq s + 1))"

definition counted :: "int \<Rightarrow> fix_server \<Rightarrow> fix_server" where
  "counted now s = pruneLocked now (s\<lparr>fx_quoteSeq := fx_quoteSeq s + 1\<rparr>)"

lemma fix_quote_cases:
  obtains (refused) t where "fix_quote env sess rq c fixSym engSym sd qt qty s = fix_reject (fe_time env) sess c [] fixSym sd t s"
  | (full) t where "fix_quote env sess rq c fixSym engSym sd qt qty s =
      fix_reject (fe_time env) sess c [] fixSym sd t (counted (fe_now env) s)"
  | (quoted) bid offer where "fix_quote env sess rq c fixSym engSym sd qt qty s =
      send_to sess (quote_msg (fe_time env) (issued_id s) rq c fixSym sd qt bid offer)
        ((counted (fe_now env) s)\<lparr>fx_quotes := AList.update (issued_id s)
          \<lparr>qr_sess = sess, qr_fixSym = fixSym, qr_engineSym = engSym, qr_side = sd, qr_qty = qty,
             qr_bid = bid, qr_offer = offer, qr_expiresAt = fe_now env + fx_quoteTTL s, qr_taken = False\<rparr>
          (fx_quotes (counted (fe_now env) s))\<rparr>)"
proof (cases "fe_quoter env")
  case None
  then show thesis by (intro refused[of "''no quoter configured''"]) (simp add: fix_quote_def)
next
  case (Some q)
  show thesis
  proof (cases "qt_Quote q engSym qty")
    case (Inl err)
    with Some show thesis by (intro refused[of "''quote failed: '' @ err"]) (simp add: fix_quote_def)
  next
    case (Inr bo)
    obtain bid offer where bo: "bo = (bid, offer)" by fastforce
    show thesis
    proof (cases "Sign bid \<le> 0 \<or> Sign offer \<le> 0 \<or> Gt bid offer")
      case True
      with Some Inr bo show thesis
        by (intro refused[of "''bad quote bid='' @ String bid @ '' offer='' @ String offer"])
           (simp only: fix_quote_def Let_def option.case sum.case prod.case if_True)
    next
      case False
      note good = Some Inr bo this
      show thesis
      proof (cases "length (fx_quotes (counted (fe_now env) s)) \<ge> maxQuotes")
        case True
        with good show thesis
          by (intro full[of "''quote table full''"]) (simp only: fix_quote_def Let_def option.case sum.case prod.case if_True if_False counted_def[symmetric])
      next
        case False
        with good show thesis
          by (intro quoted[of bid offer]) (simp only: fix_quote_def Let_def option.case sum.case prod.case if_True if_False counted_def[symmetric] issued_id_def)
      qed
    qed
  qed
qed

lemma MsgType_quote [simp]: "MsgType (quote_msg time i rq c fixSym sd qt bid offer) = ''S''"
  by (simp add: quote_msg_def)

lemma steady_quote: "steady s (fix_quote env sess rq c fixSym engSym sd qt qty s)"
proof -
  have c: "steady s (counted (fe_now env) s)" "steady s ((counted (fe_now env) s)\<lparr>fx_quotes := q\<rparr>)" for q
    by (auto intro!: steady_same simp: counted_def pruneLocked_def)
  show ?thesis
  proof (cases rule: fix_quote_cases[of env sess rq c fixSym engSym sd qt qty s])
    case quoted
    then show ?thesis
      using steady_trans[OF c(2) quiet_steady[OF quiet_send]] by (simp add: MsgExecutionReport_def)
  qed (use c steady_trans[OF c(1)] in \<open>simp_all add: quiet_steady\<close>)
qed

lemma steady_take: "take_quote env sess q fixSym sd s = (res, s') \<Longrightarrow> steady s s'"
  by (rule steady_same) (auto simp: take_quote_def split: option.splits if_splits)

lemma executeQuoted_cases:
  assumes "executeQuoted env sess m c fixSym engSym sd qty s = Some s'"
  obtains (refused) res s1 t where "take_quote env sess (tag_of m 37) fixSym sd s = (res, s1)"
    "s' = fix_reject (fe_time env) sess c [] fixSym sd t s1"
  | (placed) px s1 p s2 s3 pm s4 where "take_quote env sess (tag_of m 37) fixSym sd s = (Inr px, s1)"
    "register_order sess c fixSym engSym sd ''2'' (fmtFloat px) qty s1 = (p, s2)" "new_report env p s2 = Some s3"
    "fix_PlaceLimit (fe_time env) (fix_order (fx_heap s2 ! p) (engSideFor sd) px False [(''quoted'', tag_of m 37)]) s3 = Some (pm, s4)"
    "fix_placed env p (pm, s4) = Some s'"
  using assms unfolding executeQuoted_def Let_def
  by (cases "take_quote env sess (tag_of m 37) fixSym sd s"; cases "fst (take_quote env sess (tag_of m 37) fixSym sd s)")
     (auto simp: bind_eq_Some_conv split: if_splits prod.splits)

lemma calm_executeQuoted:
  assumes "executeQuoted env sess m c fixSym engSym sd qty s = Some s'"
    "take_quote env sess (tag_of m 37) fixSym sd s = (res, s1)"
  shows "calm s1 s'"
  using assms(1)
proof (cases rule: executeQuoted_cases)
  case refused
  with assms show ?thesis by (simp add: quiet_calm)
next
  case (placed px s1' p s2 s3 pm s4)
  with assms(2) have "calm s1 s2" by (simp add: calm_register)
  with placed(3-5) show ?thesis
    by (meson calm_trans quiet_calm quiet_new_report quiet_PlaceLimit quiet_placed)
qed

lemma OnNewOrderSingle_cases:
  assumes "fix_OnNewOrderSingle env sess m s = Some s'"
  obtains (refused) t where "s' = fix_reject (fe_time env) sess (tag_of m 11) [] (tag_of m 55) (tag_of m 54) t s"
  | (confirmed) engSym qty where "tag_of m 692 = ''Y''" "fx_resolve s (tag_of m 55) = Some engSym"
      "executeQuoted env sess m (tag_of m 11) (tag_of m 55) engSym (tag_of m 54) qty s = Some s'"
  | (quoted) engSym qty where "tag_of m 692 \<noteq> ''Y''"
      "s' = fix_quote env sess [] (tag_of m 11) (tag_of m 55) engSym (tag_of m 54) (tag_of m 38) qty s"
  | (fresh) engSym es qty where "tag_of m 692 \<noteq> ''Y''"
      "place_new env sess (tag_of m 11) (tag_of m 55) engSym (tag_of m 54) es (tag_of m 40) (tag_of m 44) qty s = Some s'"
  using assms unfolding fix_OnNewOrderSingle_def Let_def
  by (auto split: option.splits if_splits)

lemma steady_OnNewOrderSingle:
  assumes "fix_OnNewOrderSingle env sess m s = Some s'"
  shows "steady s s'"
  using assms
proof (cases rule: OnNewOrderSingle_cases)
  case (confirmed engSym qty)
  obtain res s1 where "take_quote env sess (tag_of m 37) (tag_of m 55) (tag_of m 54) s = (res, s1)" by fastforce
  with confirmed show ?thesis by (meson steady_trans steady_take calm_steady calm_executeQuoted)
qed (auto intro: quiet_steady calm_steady calm_place_new steady_quote)

lemma steady_OnOrderCancelReplace:
  assumes "fix_OnOrderCancelReplace env sess m s = Some s'"
  shows "steady s s'"
proof -
  from assms obtain found s1 where s1: "cancel_named env sess m s = Some (found, s1)"
    "s' = s1 \<or> fix_OnNewOrderSingle env sess m s1 = Some s'"
    by (auto simp: fix_OnOrderCancelReplace_def bind_eq_Some_conv split: if_splits)
  then show ?thesis by (meson quiet_cancel_named quiet_steady steady_OnNewOrderSingle steady_trans)
qed

lemma quiet_logout [simp]: "quiet s (fix_OnLogout sess s)"
proof (cases "map_of (fx_sessions s) sess")
  case None
  then show ?thesis by (simp add: fix_OnLogout_def)
next
  case (Some st)
  let ?t = "fold (\<lambda>(c, p) s. drop_engine (fo_engineID (fx_heap s ! p)) s) (fs_byClOrdID st) s"
  have "quiet s ?t" by (rule quiet_fold) auto
  moreover have "quiet ?t (?t\<lparr>fx_sessions := AList.delete sess (fx_sessions s)\<rparr>)"
    by (rule quiet_same) simp_all
  ultimately show ?thesis using Some by (auto simp: fix_OnLogout_def intro: quiet_trans)
qed

lemma quiet_quoteReject [simp]: "quiet s (quoteReject sess r fixSym t s)"
  unfolding quoteReject_def by (rule quiet_send) (simp add: MsgExecutionReport_def)

lemma OnQuoteRequest_cases:
  "(\<exists>t. fix_OnQuoteRequest env sess m s = quoteReject sess (tag_of m 131) (tag_of m 55) t s) \<or>
   (\<exists>engSym qty. fix_OnQuoteRequest env sess m s =
      fix_quote env sess (tag_of m 131) [] (tag_of m 55) engSym (tag_of m 54) (tag_of m 38) qty s)"
  unfolding fix_OnQuoteRequest_def Let_def by (auto split: option.split)

lemma steady_OnQuoteRequest: "steady s (fix_OnQuoteRequest env sess m s)"
  using OnQuoteRequest_cases[of env sess m s] by (auto simp: quiet_steady steady_quote)

lemma steady_event:
  assumes "fix_event env sess ev s = Some s'"
  shows "steady s s'"
proof (cases ev)
  case OnLogon
  with assms show ?thesis by (auto simp: fix_event_def fix_OnLogon_def intro: steady_same)
next
  case (OnMarketDataRequest m)
  with assms show ?thesis by (auto simp: fix_event_def fix_OnMarketDataRequest_def Let_def intro: quiet_steady quiet_md)
qed (use assms in \<open>auto simp: fix_event_def intro: quiet_steady steady_OnNewOrderSingle steady_OnOrderCancelReplace
    steady_OnQuoteRequest quiet_OnOrderCancelRequest\<close>)

text \<open>A report of a cancellation that gets a second client id still reads with the one of the cancelled order.\<close>

lemma cancel_report_client:
  assumes "baseExecReport time rec et os cum avg s = Some (rep, s')"
  shows "msg_Get (msg_Set (msg_Set rep 11 c) 41 orig) 11 = Some (fo_clOrdID rec)"
  using assms by (auto simp: baseExecReport_def bind_eq_Some_conv msg_Get_Set msg_Get_built nextExec_def split: if_splits)

subsection \<open>Runs\<close>

type_synonym fix_step = "fix_env \<times> nat \<times> app_event"

fun fix_run :: "fix_step list \<Rightarrow> fix_server \<Rightarrow> fix_server option" where
  "fix_run [] s = Some s"
| "fix_run ((env, sess, ev) # es) s = do { s \<leftarrow> fix_event env sess ev s; fix_run es s }"

lemma steady_run: "fix_run es s = Some s' \<Longrightarrow> steady s s'"
proof (induction es arbitrary: s)
  case Nil
  then show ?case by (simp add: quiet_steady)
next
  case (Cons e es)
  obtain env sess ev where "e = (env, sess, ev)" by (cases e)
  with Cons show ?case by (auto simp: bind_eq_Some_conv intro: steady_trans[OF steady_event])
qed

text \<open>The execution reports that a server sends over any run are numbered one after the other from 1: no number is
  skipped or used twice, whatever requests are refused on the way.
\<close>

theorem reports_numbered:
  assumes "fix_run es (NewServer e resolve) = Some s"
  shows "exec_ids (fx_sent s) =
    map (\<lambda>k. int_string (sint (of_nat (Suc k) :: i64))) [0..<length (exec_ids (fx_sent s))]"
proof -
  from steady_run[OF assms] obtain ms where "fx_sent s = ms" "exec_ids ms = next_ids 0 (length (exec_ids ms))"
    by (auto simp: steady_def speaks_def NewServer_def)
  then show ?thesis by (simp add: next_ids_def)
qed

subsection \<open>Quotes\<close>

text \<open>Every quote that is kept was sent to its session.\<close>

definition quote_sent :: "(nat \<times> message) list \<Rightarrow> string \<Rightarrow> quote_rec \<Rightarrow> bool" where
  "quote_sent ms i rec \<longleftrightarrow> (\<exists>qm. (qr_sess rec, qm) \<in> set ms \<and> MsgType qm = ''S'' \<and> tag_of qm 117 = i \<and>
     tag_of qm 55 = qr_fixSym rec \<and> tag_of qm 132 = String (qr_bid rec) \<and> tag_of qm 133 = String (qr_offer rec))"

definition quotes_sent :: "fix_server \<Rightarrow> bool" where
  "quotes_sent s \<longleftrightarrow> (\<forall>(i, rec) \<in> set (fx_quotes s). quote_sent (fx_sent s) i rec)"

lemma quote_sent_mono: "quote_sent ms i rec \<Longrightarrow> quote_sent (ms @ ms') i rec"
  by (auto simp: quote_sent_def)

lemma steady_sent: "steady s s' \<Longrightarrow> \<exists>ms. fx_sent s' = fx_sent s @ ms"
  by (auto simp: steady_def speaks_def)

lemma quotes_sent_steady: "quotes_sent s \<Longrightarrow> steady s s' \<Longrightarrow> set (fx_quotes s') \<subseteq> set (fx_quotes s) \<Longrightarrow> quotes_sent s'"
  by (fastforce simp: quotes_sent_def dest!: steady_sent intro: quote_sent_mono)

lemma quotes_sent_calm: "quotes_sent s \<Longrightarrow> calm s s' \<Longrightarrow> quotes_sent s'"
  by (rule quotes_sent_steady[OF _ calm_steady]) (auto simp: calm_def quotes_same_def)

lemmas quotes_sent_quiet = quotes_sent_calm[OF _ quiet_calm]

lemma set_update_subset: "set (AList.update k v al) \<subseteq> insert (k, v) (set al)"
  by (induction al) auto

lemma set_delete_subset: "set (AList.delete k al) \<subseteq> set al"
  by (auto simp: AList.delete_eq)

lemma quote_msg_tags:
  "tag_of (quote_msg time i rq c fixSym sd qt bid offer) 117 = i" "tag_of (quote_msg time i rq c fixSym sd qt bid offer) 55 = fixSym"
  "tag_of (quote_msg time i rq c fixSym sd qt bid offer) 132 = String bid" "tag_of (quote_msg time i rq c fixSym sd qt bid offer) 133 = String offer"
  "tag_of (quote_msg time i rq c fixSym sd qt bid offer) 11 = c"
  by (simp_all add: quote_msg_def tag_of_built fmtFloat_def)

lemma counted_fields [simp]:
  "fx_sent (counted now s) = fx_sent s" "fx_heap (counted now s) = fx_heap s" "fx_quoteSeq (counted now s) = fx_quoteSeq s + 1"
  "fx_sessions (counted now s) = fx_sessions s"
  by (simp_all add: counted_def pruneLocked_def)

lemma counted_quotes: "set (fx_quotes (counted now s)) \<subseteq> set (fx_quotes s)"
  by (auto simp: counted_def pruneLocked_def)

lemma quotes_sentI:
  assumes "quotes_sent s" "quote_sent (fx_sent s') q r" "fx_sent s' = fx_sent s @ ms" "set (fx_quotes s') \<subseteq> insert (q, r) (set (fx_quotes s))"
  shows "quotes_sent s'"
proof -
  have "quote_sent (fx_sent s') i rec" if "(i, rec) \<in> set (fx_quotes s')" for i rec
  proof -
    from that assms(4) have "(i, rec) = (q, r) \<or> (i, rec) \<in> set (fx_quotes s)" by blast
    with assms(1-3) show ?thesis by (auto simp: quotes_sent_def intro: quote_sent_mono)
  qed
  then show ?thesis by (auto simp: quotes_sent_def)
qed

lemma quotes_sent_quote:
  assumes "quotes_sent s"
  shows "quotes_sent (fix_quote env sess rq c fixSym engSym sd qt qty s)"
proof -
  have keep: "quotes_sent (counted (fe_now env) s)"
    using quotes_sent_steady[OF assms _ counted_quotes] by (simp add: steady_same counted_def pruneLocked_def)
  show ?thesis
  proof (cases rule: fix_quote_cases[of env sess rq c fixSym engSym sd qt qty s])
    case refused
    then show ?thesis using assms quotes_sent_quiet[OF _ quiet_reject] by simp
  next
    case full
    then show ?thesis using keep quotes_sent_quiet[OF _ quiet_reject] by simp
  next
    case (quoted bid offer)
    have "set (AList.update k v (fx_quotes (counted (fe_now env) s))) \<subseteq> insert (k, v) (set (fx_quotes s))" for k v
      using set_update_subset counted_quotes by fast
    moreover define r where "r = \<lparr>qr_sess = sess, qr_fixSym = fixSym, qr_engineSym = engSym, qr_side = sd, qr_qty = qty,
        qr_bid = bid, qr_offer = offer, qr_expiresAt = fe_now env + fx_quoteTTL s, qr_taken = False\<rparr>"
    moreover have "quote_sent (fx_sent s @ [(sess, quote_msg (fe_time env) (issued_id s) rq c fixSym sd qt bid offer)]) (issued_id s) r"
      by (auto simp: quote_sent_def quote_msg_tags r_def)
    ultimately show ?thesis unfolding quoted r_def[symmetric]
      by (intro quotes_sentI[OF assms, of _ "issued_id s" r]) (simp_all add: send_to_def)
  qed
qed

lemma quotes_sent_take:
  assumes "quotes_sent s" "take_quote env sess q fixSym sd s = (res, s')"
  shows "quotes_sent s'"
proof (cases "map_of (fx_quotes s) q")
  case None
  with assms show ?thesis by (simp add: take_quote_def)
next
  case (Some rec)
  then have "quote_sent (fx_sent s) q rec" using assms(1) by (auto simp: quotes_sent_def dest!: map_of_SomeD)
  then have "quote_sent (fx_sent s) q (rec\<lparr>qr_taken := True\<rparr>)" by (simp add: quote_sent_def)
  then have keep: "quotes_sent (s\<lparr>fx_quotes := al\<rparr>)"
    if "set al \<subseteq> insert (q, rec\<lparr>qr_taken := True\<rparr>) (set (fx_quotes s))" for al
    using that by (intro quotes_sentI[OF assms(1), of _ q "rec\<lparr>qr_taken := True\<rparr>" "[]"]) simp_all
  show ?thesis
    using assms Some set_delete_subset[of q "fx_quotes s"]
    by (auto simp: take_quote_def intro!: keep set_update_subset split: if_splits)
qed

lemma quotes_sent_new:
  assumes "quotes_sent s" "fix_OnNewOrderSingle env sess m s = Some s'"
  shows "quotes_sent s'"
  using assms(2)
proof (cases rule: OnNewOrderSingle_cases)
  case (confirmed engSym qty)
  obtain res s1 where "take_quote env sess (tag_of m 37) (tag_of m 55) (tag_of m 54) s = (res, s1)" by fastforce
  with confirmed assms(1) show ?thesis by (meson quotes_sent_take quotes_sent_calm calm_executeQuoted)
qed (use assms(1) in \<open>auto intro: quotes_sent_calm calm_place_new quotes_sent_quote quotes_sent_quiet[OF _ quiet_reject]\<close>)

lemma OnOrderCancelReplace_cases:
  assumes "fix_OnOrderCancelReplace env sess m s = Some s'"
  obtains (refused) "cancel_named env sess m s = Some (None, s')"
  | (replaced) p s1 where "cancel_named env sess m s = Some (Some p, s1)" "fix_OnNewOrderSingle env sess m s1 = Some s'"
proof -
  from assms obtain found s1 where "cancel_named env sess m s = Some (found, s1)"
    "(if found = None then Some s1 else fix_OnNewOrderSingle env sess m s1) = Some s'"
    by (auto simp: fix_OnOrderCancelReplace_def bind_eq_Some_conv)
  then show thesis by (cases found) (auto intro: refused replaced)
qed

lemma quotes_sent_event:
  assumes "quotes_sent s" "fix_event env sess ev s = Some s'"
  shows "quotes_sent s'"
proof (cases ev)
  case OnLogon
  with assms show ?thesis by (auto simp: fix_event_def fix_OnLogon_def quotes_sent_def)
next
  case OnLogout
  with assms show ?thesis by (auto simp: fix_event_def intro: quotes_sent_quiet)
next
  case (OnNewOrderSingle m)
  with assms show ?thesis by (auto simp: fix_event_def intro: quotes_sent_new)
next
  case (OnOrderCancelRequest m)
  with assms show ?thesis by (auto simp: fix_event_def intro: quotes_sent_quiet quiet_OnOrderCancelRequest)
next
  case (OnOrderCancelReplace m)
  with assms have "fix_OnOrderCancelReplace env sess m s = Some s'" by (simp add: fix_event_def)
  then show ?thesis
    by (cases rule: OnOrderCancelReplace_cases) (use assms(1) in \<open>auto intro: quotes_sent_quiet quotes_sent_new quiet_cancel_named\<close>)
next
  case (OnMarketDataRequest m)
  with assms show ?thesis
    by (auto simp: fix_event_def fix_OnMarketDataRequest_def Let_def intro: quotes_sent_quiet quiet_md)
next
  case (OnQuoteRequest m)
  with assms OnQuoteRequest_cases[of env sess m s] show ?thesis
    by (auto simp: fix_event_def intro: quotes_sent_quote quotes_sent_quiet)
qed

lemma quotes_sent_run: "quotes_sent s \<Longrightarrow> fix_run es s = Some s' \<Longrightarrow> quotes_sent s'"
proof (induction es arbitrary: s)
  case (Cons e es)
  obtain env sess ev where "e = (env, sess, ev)" by (cases e)
  with Cons show ?case by (auto simp: bind_eq_Some_conv intro: quotes_sent_event)
qed simp

subsection \<open>What a quote is good for\<close>

lemma fixed_part_eqD: "fixed_part r = fixed_part r' \<Longrightarrow> fo_sess r = fo_sess r' \<and> fo_clOrdID r = fo_clOrdID r' \<and>
    fo_ordType r = fo_ordType r' \<and> fo_price r = fo_price r'"
  by (cases r; cases r') (simp add: fixed_part_def)

lemma calm_order:
  "calm s s' \<Longrightarrow> p < length (fx_heap s) \<Longrightarrow> fixed_part (fx_heap s' ! p) = fixed_part (fx_heap s ! p)"
  by (simp add: calm_def keeps_orders_def)

lemma take_quote_heap: "take_quote env sess q fixSym sd s = (res, s') \<Longrightarrow> fx_heap s' = fx_heap s"
  by (auto simp: take_quote_def split: option.splits if_splits)

lemma take_quote_good:
  assumes "take_quote env sess q fixSym sd s = (Inr px, s')"
  obtains rec where "map_of (fx_quotes s) q = Some rec" "qr_sess rec = sess" "fe_now env \<le> qr_expiresAt rec" "\<not> qr_taken rec"
    "qr_fixSym rec = fixSym" "px = (if sd = ''1'' then qr_offer rec else qr_bid rec)"
    "s' = s\<lparr>fx_quotes := AList.update q (rec\<lparr>qr_taken := True\<rparr>) (fx_quotes s)\<rparr>"
  using assms by (auto simp: take_quote_def split: option.splits if_splits)

lemma reject_heap [simp]: "fx_heap (fix_reject time sess c oid fixSym sd t s) = fx_heap s"
  by (simp add: fix_reject_def nextExec_def send_to_def)

lemma register_order_at:
  assumes "register_order sess c fixSym engSym sd ot px qty s = (p, s')"
  shows "p = length (fx_heap s)" "length (fx_heap s') = Suc (length (fx_heap s))" "fo_ordType (fx_heap s' ! p) = ot"
    "fo_price (fx_heap s' ! p) = px" "fo_sess (fx_heap s' ! p) = sess" "fo_clOrdID (fx_heap s' ! p) = c"
  using assms by (auto simp: register_order_def Let_def)

lemma confirmed_order:
  assumes "executeQuoted env sess m c fixSym engSym sd qty s = Some s'" "length (fx_heap s) < length (fx_heap s')"
  obtains px s1 where "take_quote env sess (tag_of m 37) fixSym sd s = (Inr px, s1)"
    "fo_ordType (fx_heap s' ! length (fx_heap s)) = ''2''" "fo_price (fx_heap s' ! length (fx_heap s)) = String px"
  using assms(1)
proof (cases rule: executeQuoted_cases)
  case refused
  with assms(2) show ?thesis by (simp add: take_quote_heap)
next
  case (placed px s1 p s2 s3 pm s4)
  note reg = register_order_at[OF placed(2)] and heap = take_quote_heap[OF placed(1)]
  have "calm s2 s'" using placed(3-5) by (meson calm_trans quiet_calm quiet_new_report quiet_PlaceLimit quiet_placed)
  from calm_order[OF this, of p] have "fixed_part (fx_heap s' ! p) = fixed_part (fx_heap s2 ! p)" by (simp add: reg(1,2))
  with reg heap have "fo_ordType (fx_heap s' ! length (fx_heap s)) = ''2''" "fo_price (fx_heap s' ! length (fx_heap s)) = String px"
    by (auto dest!: fixed_part_eqD simp: fmtFloat_def)
  with placed(1) show ?thesis by (rule that)
qed


subsection \<open>A quote is taken once\<close>

definition qid :: "nat \<Rightarrow> string" where
  "qid k = int_string (sint (of_nat k :: i64))"

lemma qid_inj: "j < 2 ^ 63 \<Longrightarrow> k < 2 ^ 63 \<Longrightarrow> qid j = qid k \<longleftrightarrow> j = k"
  by (simp add: qid_def int_string_inj signed_of_nat signed_take_bit_int_eq_self)

definition known_quote :: "nat \<Rightarrow> string \<Rightarrow> bool" where
  "known_quote n i \<longleftrightarrow> (\<exists>k. 0 < k \<and> k \<le> n \<and> i = qid k)"

definition quotes_ok :: "nat \<Rightarrow> string set \<Rightarrow> fix_server \<Rightarrow> bool" where
  "quotes_ok n D s \<longleftrightarrow> distinct (map fst (fx_quotes s)) \<and> fx_quoteSeq s = of_nat n \<and> (\<forall>i \<in> D. known_quote n i) \<and>
     (\<forall>i rec. map_of (fx_quotes s) i = Some rec \<longrightarrow> known_quote n i \<and> (i \<in> D \<longrightarrow> qr_taken rec))"

lemma known_quote_Suc: "known_quote n i \<Longrightarrow> known_quote (Suc n) i"
  unfolding known_quote_def using le_SucI by blast

lemma known_quote_fresh: "Suc n < 2 ^ 63 \<Longrightarrow> \<not> known_quote n (qid (Suc n))"
  by (auto simp: known_quote_def qid_inj)

lemma quotes_ok_calm: "quotes_ok n D s \<Longrightarrow> calm s s' \<Longrightarrow> quotes_ok n D s'"
  by (simp add: quotes_ok_def calm_def quotes_same_def)

lemmas quotes_ok_quiet = quotes_ok_calm[OF _ quiet_calm]

lemma quotes_ok_less: "quotes_ok n D s \<Longrightarrow> D' \<subseteq> D \<Longrightarrow> quotes_ok n D' s"
  by (auto simp: quotes_ok_def)

lemma map_of_filterD: "distinct (map fst al) \<Longrightarrow> map_of (filter P al) k = Some v \<Longrightarrow> map_of al k = Some v"
  by (auto dest!: map_of_SomeD)

lemma quotes_ok_counted: "quotes_ok n D s \<Longrightarrow> quotes_ok (Suc n) D (counted now s)"
  unfolding quotes_ok_def counted_def pruneLocked_def
  by (auto simp: distinct_map_filter intro: known_quote_Suc dest: map_of_filterD)

lemma quotes_ok_issue:
  assumes "quotes_ok n D s" "Suc n < 2 ^ 63" "\<not> qr_taken rec"
  shows "quotes_ok (Suc n) D ((counted now s)\<lparr>fx_quotes := AList.update (issued_id s) rec (fx_quotes (counted now s))\<rparr>)"
proof -
  have i: "issued_id s = qid (Suc n)" using assms(1) by (simp add: issued_id_def qid_def quotes_ok_def add.commute)
  then have "issued_id s \<notin> D" using assms(1) known_quote_fresh[OF assms(2)] by (auto simp: quotes_ok_def)
  moreover have "known_quote (Suc n) (issued_id s)" unfolding i known_quote_def by blast
  ultimately show ?thesis
    using quotes_ok_counted[OF assms(1), of now] by (auto simp: quotes_ok_def distinct_update map_of_update_eq)
qed

lemma quotes_ok_quote:
  assumes "quotes_ok n D s" "Suc n < 2 ^ 63"
  shows "\<exists>n'. n' \<le> Suc n \<and> quotes_ok n' D (fix_quote env sess rq c fixSym engSym sd qt qty s)"
proof (cases rule: fix_quote_cases[of env sess rq c fixSym engSym sd qt qty s])
  case refused
  then show ?thesis using quotes_ok_quiet[OF assms(1) quiet_reject] by (metis le_SucI order_refl)
next
  case full
  then show ?thesis using quotes_ok_quiet[OF quotes_ok_counted[OF assms(1)] quiet_reject] by auto
next
  case quoted
  then show ?thesis using quotes_ok_quiet[OF quotes_ok_issue[OF assms] quiet_send] by (fastforce simp: MsgExecutionReport_def)
qed

lemma quotes_ok_take:
  assumes "quotes_ok n D s" "take_quote env sess q fixSym sd s = (res, s')"
  shows "quotes_ok n D s'" "res = Inr px \<Longrightarrow> q \<notin> D \<and> quotes_ok n (insert q D) s'"
  using assms
  by (auto simp: take_quote_def quotes_ok_def distinct_update distinct_delete map_of_update_eq map_of_delete_eq
      split: option.splits if_splits)

lemma quotes_ok_new:
  assumes "quotes_ok n D s" "Suc n < 2 ^ 63" "fix_OnNewOrderSingle env sess m s = Some s'"
  shows "\<exists>n'. n' \<le> Suc n \<and> quotes_ok n' D s' \<and> (tag_of m 692 = ''Y'' \<and> length (fx_heap s) < length (fx_heap s') \<longrightarrow>
    tag_of m 37 \<notin> D \<and> quotes_ok n' (insert (tag_of m 37) D) s')"
  using assms(3)
proof (cases rule: OnNewOrderSingle_cases)
  case (confirmed engSym qty)
  obtain res s1 where take: "take_quote env sess (tag_of m 37) (tag_of m 55) (tag_of m 54) s = (res, s1)" by fastforce
  note calm = calm_executeQuoted[OF confirmed(3) take]
  have "tag_of m 37 \<notin> D \<and> quotes_ok n (insert (tag_of m 37) D) s'" if grows: "length (fx_heap s) < length (fx_heap s')"
  proof -
    from confirmed_order[OF confirmed(3) grows] take obtain px where "res = Inr px" by (metis prod.inject)
    from quotes_ok_take(2)[OF assms(1) take this] calm show ?thesis by (auto intro: quotes_ok_calm)
  qed
  moreover have "quotes_ok n D s'" using quotes_ok_calm[OF quotes_ok_take(1)[OF assms(1) take] calm] .
  ultimately show ?thesis by (intro exI[of _ n]) auto
next
  case refused
  then show ?thesis using quotes_ok_quiet[OF assms(1) quiet_reject] by (intro exI[of _ n]) auto
next
  case (quoted engSym qty)
  with quotes_ok_quote[OF assms(1,2)] show ?thesis by simp
next
  case fresh
  then show ?thesis using quotes_ok_calm[OF assms(1) calm_place_new] by (intro exI[of _ n]) auto
qed

text \<open>The quote that a request confirms.\<close>

fun confirmation :: "app_event \<Rightarrow> string list" where
  "confirmation (OnNewOrderSingle m) = (if tag_of m 692 = ''Y'' then [tag_of m 37] else [])"
| "confirmation (OnOrderCancelReplace m) = (if tag_of m 692 = ''Y'' then [tag_of m 37] else [])"
| "confirmation ev = []"

definition step_quotes :: "app_event \<Rightarrow> fix_server \<Rightarrow> fix_server \<Rightarrow> string list" where
  "step_quotes ev s s' = (if length (fx_heap s) < length (fx_heap s') then confirmation ev else [])"

text \<open>The quotes whose confirmations put an order on the book in a run, in their order.\<close>

fun executed_quotes :: "fix_step list \<Rightarrow> fix_server \<Rightarrow> string list option" where
  "executed_quotes [] s = Some []"
| "executed_quotes ((env, sess, ev) # es) s = do {
     s' \<leftarrow> fix_event env sess ev s;
     qs \<leftarrow> executed_quotes es s';
     Some (step_quotes ev s s' @ qs)
   }"

lemma quotes_ok_event:
  assumes "quotes_ok n D s" "Suc n < 2 ^ 63" "fix_event env sess ev s = Some s'"
  shows "\<exists>n'. n' \<le> Suc n \<and> quotes_ok n' (D \<union> set (step_quotes ev s s')) s' \<and> set (step_quotes ev s s') \<inter> D = {} \<and>
    distinct (step_quotes ev s s')"
proof (cases ev)
  case OnLogon
  with assms show ?thesis
    by (intro exI[of _ n]) (auto simp: fix_event_def fix_OnLogon_def quotes_ok_def step_quotes_def)
next
  case OnLogout
  with assms show ?thesis
    using quotes_ok_quiet[OF assms(1) quiet_logout] by (intro exI[of _ n]) (auto simp: fix_event_def step_quotes_def)
next
  case (OnNewOrderSingle m)
  with assms(3) quotes_ok_new[OF assms(1,2), of env sess m s'] show ?thesis
    by (auto simp: fix_event_def step_quotes_def)
next
  case (OnOrderCancelRequest m)
  with assms show ?thesis
    using quotes_ok_quiet[OF assms(1) quiet_OnOrderCancelRequest] by (intro exI[of _ n]) (auto simp: fix_event_def step_quotes_def)
next
  case (OnOrderCancelReplace m)
  with assms(3) have "fix_OnOrderCancelReplace env sess m s = Some s'" by (simp add: fix_event_def)
  then show ?thesis
  proof (cases rule: OnOrderCancelReplace_cases)
    case refused
    from quiet_cancel_named[OF this] have "quotes_ok n D s'" "length (fx_heap s') = length (fx_heap s)"
      using assms(1) by (auto intro: quotes_ok_quiet simp: quiet_def)
    then show ?thesis by (intro exI[of _ n]) (simp add: step_quotes_def)
  next
    case (replaced p s1)
    from quiet_cancel_named[OF this(1)] have "quotes_ok n D s1" "length (fx_heap s1) = length (fx_heap s)"
      using assms(1) by (auto intro: quotes_ok_quiet simp: quiet_def)
    with quotes_ok_new[OF _ assms(2) replaced(2)] OnOrderCancelReplace show ?thesis
      by (auto simp: step_quotes_def)
  qed
next
  case (OnMarketDataRequest m)
  with assms(3) have "quiet s s'" by (auto simp: fix_event_def fix_OnMarketDataRequest_def Let_def intro: quiet_md)
  with OnMarketDataRequest assms(1) show ?thesis
    by (intro exI[of _ n]) (auto simp: step_quotes_def intro: quotes_ok_quiet)
next
  case (OnQuoteRequest m)
  with assms(3) have "s' = fix_OnQuoteRequest env sess m s" by (simp add: fix_event_def)
  with OnQuoteRequest_cases[of env sess m s] quotes_ok_quote[OF assms(1,2)] quotes_ok_quiet[OF assms(1) quiet_quoteReject]
  have "\<exists>n'. n' \<le> Suc n \<and> quotes_ok n' D s'" by (metis le_SucI order_refl)
  with OnQuoteRequest show ?thesis by (auto simp: step_quotes_def)
qed

lemma executed_quotes_fresh:
  "quotes_ok n D s \<Longrightarrow> n + length es < 2 ^ 63 \<Longrightarrow> executed_quotes es s = Some qs \<Longrightarrow> distinct qs \<and> set qs \<inter> D = {}"
proof (induction es arbitrary: n D s qs)
  case (Cons e es)
  obtain env sess ev where e: "e = (env, sess, ev)" by (cases e)
  with Cons.prems(3) obtain s1 qs1 where s1: "fix_event env sess ev s = Some s1" "executed_quotes es s1 = Some qs1"
    "qs = step_quotes ev s s1 @ qs1" by (auto simp: bind_eq_Some_conv)
  have "Suc n < 2 ^ 63" using Cons.prems(2) by simp
  from quotes_ok_event[OF Cons.prems(1) this s1(1)] obtain n' where n': "n' \<le> Suc n"
    "quotes_ok n' (D \<union> set (step_quotes ev s s1)) s1" "set (step_quotes ev s s1) \<inter> D = {}" "distinct (step_quotes ev s s1)" by blast
  have "n' + length es < 2 ^ 63" using Cons.prems(2) n'(1) by simp
  from Cons.IH[OF n'(2) this s1(2)] n'(3,4) s1(3) show ?case by auto
qed simp

text \<open>C32: Over any run of the server a quote is executed at most once: no two confirmations of the same quote, by whatever sessions and
  with whatever client ids, ever put an order on the book.
\<close>

theorem quote_executed_once:
  assumes "executed_quotes es (NewServer e resolve) = Some qs" "length es < 2 ^ 63"
  shows "distinct qs"
proof -
  have "quotes_ok 0 {} (NewServer e resolve)" by (simp add: quotes_ok_def NewServer_def)
  with executed_quotes_fresh[of 0 "{}" _ es] assms show ?thesis by auto
qed

subsection \<open>Answers\<close>

lemma new_report_sent:
  assumes "new_report env p s = Some s'"
  obtains rep where "fx_sent s' = fx_sent s @ [(fo_sess (fx_heap s ! p), rep)]" "MsgType rep = MsgExecutionReport"
    "tag_of rep 11 = fo_clOrdID (fx_heap s ! p)" "tag_of rep 150 = ''0''"
  using assms by (auto simp: new_report_def sendExecReport_def baseExecReport_def bind_eq_Some_conv nextExec_def send_to_def tag_of_built
      split: if_splits)

definition untouched :: "fix_server \<Rightarrow> fix_server \<Rightarrow> bool" where
  "untouched s s' \<longleftrightarrow> fx_engine s' = fx_engine s \<and> fx_heap s' = fx_heap s \<and> fx_sessions s' = fx_sessions s \<and>
     fx_byEngine s' = fx_byEngine s \<and> fx_orderSeq s' = fx_orderSeq s"

definition answered :: "nat \<Rightarrow> string \<Rightarrow> fix_server \<Rightarrow> fix_server \<Rightarrow> bool" where
  "answered sess c s s' \<longleftrightarrow> (\<exists>a ms. fx_sent s' = fx_sent s @ (sess, a) # ms \<and> tag_of a 11 = c \<and>
     (MsgType a = ''S'' \<and> untouched s s' \<or> MsgType a = MsgExecutionReport \<and>
        (tag_of a 150 = ''0'' \<or> tag_of a 150 = ''8'' \<and> ms = [] \<and> untouched s s')))"

lemma answered_reject: "fx_sent s1 = fx_sent s \<Longrightarrow> untouched s s1 \<Longrightarrow> answered sess c s (fix_reject time sess c oid fixSym sd t s1)"
  by (simp add: answered_def fix_reject_def nextExec_def send_to_def tag_of_built untouched_def)

lemma answered_new:
  assumes "register_order sess c fixSym engSym sd ot px qty s = (p, s1)" "new_report env p s1 = Some s2" "steady s2 s'" "fx_sent s = fx_sent s0"
  shows "answered sess c s0 s'"
proof -
  obtain rep where "fx_sent s2 = fx_sent s1 @ [(sess, rep)]" "MsgType rep = MsgExecutionReport" "tag_of rep 11 = c" "tag_of rep 150 = ''0''"
    using new_report_sent[OF assms(2)] register_order_at[OF assms(1)] by metis
  moreover have "fx_sent s1 = fx_sent s" using assms(1) by (auto simp: register_order_def Let_def)
  moreover obtain ms where "fx_sent s' = fx_sent s2 @ ms" using steady_sent[OF assms(3)] by blast
  ultimately show ?thesis using assms(4) unfolding answered_def by (intro exI[of _ rep] exI[of _ ms]) simp
qed

lemma counted_untouched: "untouched s (counted now s)"
  by (simp add: untouched_def counted_def pruneLocked_def)

lemma answered_quote: "answered sess c s (fix_quote env sess rq c fixSym engSym sd qt qty s)"
proof (cases rule: fix_quote_cases[of env sess rq c fixSym engSym sd qt qty s])
  case quoted
  then show ?thesis
    by (simp add: answered_def send_to_def quote_msg_tags untouched_def counted_def pruneLocked_def)
qed (simp_all add: answered_reject counted_untouched, simp add: answered_reject untouched_def)


subsection \<open>An example\<close>

text \<open>A session asks for a quote and confirms it.\<close>

definition exf_two :: decimal where "exf_two = Decimal 0 2000000000000000000"
definition exf_engine :: engine where
  "exf_engine = engine_New (RegisterHook (NewOrderBook int [''X'']) 0) (\<lambda>b ord. Some None)"
definition exf_server :: fix_server where "exf_server = NewServer exf_engine [''X'' \<mapsto> ''X'']"
definition exf_quoter :: quoter where
  "exf_quoter = \<lparr>qt_Quote = (\<lambda>i q. Inr (exf_two, exf_two)), qt_IsExotic = (\<lambda>i. False)\<rparr>"
definition exf_env :: fix_env where
  "exf_env = \<lparr>fe_now = 0, fe_time = ''t'', fe_quoter = Some exf_quoter, fe_error = (\<lambda>e. []), fe_book_error = (\<lambda>e. [])\<rparr>"
definition exf_request :: message where
  "exf_request = built ''z'' [(131, ''r''), (55, ''X''), (54, ''1''), (38, ''2'')]"
definition exf_confirm :: message where
  "exf_confirm = built ''D'' [(11, ''a''), (37, int_string 1), (55, ''X''), (54, ''1''), (38, ''2''), (40, ''2''), (692, ''Y'')]"
definition exf_session :: sess_state where "exf_session = \<lparr>fs_byClOrdID = [], fs_subs = []\<rparr>"

definition exf_quoted :: fix_server where
  "exf_quoted = exf_server\<lparr>fx_sessions := [(0, exf_session)], fx_quoteSeq := 1,
     fx_quotes := [(int_string 1, \<lparr>qr_sess = 0, qr_fixSym = ''X'', qr_engineSym = ''X'', qr_side = ''1'', qr_qty = exf_two, qr_bid = exf_two,
       qr_offer = exf_two, qr_expiresAt = defaultQuoteTTL, qr_taken = False\<rparr>)],
     fx_sent := [(0, quote_msg ''t'' (int_string 1) ''r'' [] ''X'' ''1'' ''2'' exf_two exf_two)]\<rparr>"

lemma exf_qty: "good_qty ''2'' = Some exf_two"
  by (simp add: good_qty_def exf_two_def Parse_def parse_magnitude_def isDigit_def digit_value_def parse_fraction_def fromBigChecked_def
      toBig_eq scaleBig_num maxPos_num minNeg_num)

lemma exf_tags [simp]:
  "tag_of exf_request 131 = ''r''" "tag_of exf_request 55 = ''X''" "tag_of exf_request 54 = ''1''" "tag_of exf_request 38 = ''2''"
  "tag_of exf_confirm 11 = ''a''" "tag_of exf_confirm 37 = int_string 1" "tag_of exf_confirm 55 = ''X''" "tag_of exf_confirm 54 = ''1''"
  "tag_of exf_confirm 38 = ''2''" "tag_of exf_confirm 40 = ''2''" "tag_of exf_confirm 44 = []" "tag_of exf_confirm 692 = ''Y''"
  by (simp_all add: exf_request_def exf_confirm_def tag_of_built)

lemma exf_side: "fixSideToEngine ''1'' = Some SideBuy"
  by (simp add: fixSideToEngine_def)

lemma exf_start: "fix_run [(exf_env, 0, OnLogon), (exf_env, 0, OnQuoteRequest exf_request)] exf_server = Some exf_quoted"
proof -
  have "Sign exf_two > 0" by (simp add: exf_two_def toBig_eq)
  then show ?thesis
  by (simp add: fix_event_def fix_OnLogon_def fix_OnQuoteRequest_def exf_env_def exf_quoter_def exf_server_def NewServer_def exf_side
      exf_qty fix_quote_def Let_def Gt_def pruneLocked_def maxQuotes_def send_to_def exf_quoted_def exf_session_def Cmp_def)
qed

definition exf_record :: ord_rec where
  "exf_record = \<lparr>fo_sess = 0, fo_clOrdID = ''a'', fo_orderID = int_string 1, fo_engineID = fix_prefix @ int_string 1, fo_fixSymbol = ''X'',
     fo_engineSym = ''X'', fo_side = ''1'', fo_ordType = ''2'', fo_price = String exf_two, fo_orderQty = exf_two, fo_cumQty = Zero,
     fo_avgNum = Zero, fo_done = False\<rparr>"

lemma exf_confirmed: "\<exists>s'. fix_OnNewOrderSingle exf_env 0 exf_confirm exf_quoted = Some s' \<and> length (fx_heap s') = 1 \<and>
    exec_ids (fx_sent s') = [int_string 1]"
proof -
  let ?ord = "fix_order exf_record SideBuy exf_two False [(''quoted'', int_string 1)]"
  have book: "AddLimitOrder (RegisterHook (NewOrderBook int [''X'']) 0) ?ord = Some (Inr [], ?ord,
      (RegisterHook (NewOrderBook int [''X'']) 0)\<lparr>ob_instruments := [''X'' \<mapsto> empty_book\<lparr>ib_bids := [?ord]\<rparr>]\<rparr>)"
    by (simp add: book_eval NewOrderBook_def RegisterHook_def fix_order_def exf_record_def empty_book_def exf_two_def)
  let ?b = "(RegisterHook (NewOrderBook int [''X'']) 0)\<lparr>ob_instruments := [''X'' \<mapsto> empty_book\<lparr>ib_bids := [?ord]\<rparr>]\<rparr>"
  have "Add Zero exf_two = Some exf_two" by (simp add: Add_def Add64_def Zero_def exf_two_def)
  then obtain sn where snap: "Snapshot ?b ''X'' = Some (Inr sn)"
    by (auto simp: Snapshot_def lookup_def empty_book_def aggregateLevels_def fix_order_def exf_record_def)
  obtain s1 where s1: "take_quote exf_env 0 (int_string 1) ''X'' ''1'' exf_quoted = (Inr exf_two, s1)"
    "fx_heap s1 = []" "fx_orderSeq s1 = 0" "fx_engine s1 = exf_engine" "fx_sessions s1 = [(0, exf_session)]"
    "fx_execSeq s1 = 0" "exec_ids (fx_sent s1) = []"
    by (simp add: take_quote_def exf_quoted_def exf_env_def defaultQuoteTTL_def exf_server_def NewServer_def MsgExecutionReport_def)
  obtain s2 where s2: "register_order 0 ''a'' ''X'' ''X'' ''1'' ''2'' (fmtFloat exf_two) exf_two s1 = (0, s2)"
    "fx_heap s2 = [exf_record]" "fx_engine s2 = exf_engine" "fx_execSeq s2 = 0" "exec_ids (fx_sent s2) = []"
    by (simp add: register_order_def Let_def s1 exf_record_def fmtFloat_def)
  have "Sub exf_two Zero = Some exf_two" by (simp add: Sub_def Sub64_def Zero_def exf_two_def)
  then obtain s3 where s3: "new_report exf_env 0 s2 = Some s3" "fx_engine s3 = exf_engine" "fx_heap s3 = [exf_record]"
    "exec_ids (fx_sent s3) = [int_string 1]"
    by (simp add: new_report_def sendExecReport_def baseExecReport_def leaves_qty_def s2 exf_record_def nextExec_def send_to_def tag_of_built)
  have fresh: "\<not> duplicate_client 0 ''a'' s1"
    by (simp add: duplicate_client_def s1 exf_session_def)
  have "ord_Instrument ?ord = ''X''" by (simp add: fix_order_def exf_record_def)
  with book snap obtain pm s4 where s4: "fix_PlaceLimit ''t'' ?ord s3 = Some (pm, s4)" "pm_error pm = None" "fx_heap s4 = [exf_record]"
    "fx_sent s4 = fx_sent s3"
    by (simp add: fix_PlaceLimit_def PlaceLimit_def s3 exf_engine_def engine_New_def append_log_def fix_ran_def Let_def
        RegisterHook_def NewOrderBook_def)
  have env: "fe_time exf_env = ''t''" "fx_resolve exf_quoted = [''X'' \<mapsto> ''X'']"
    by (simp_all add: exf_env_def exf_quoted_def exf_server_def NewServer_def)
  have "executeQuoted exf_env 0 exf_confirm ''a'' ''X'' ''X'' ''1'' exf_two exf_quoted = Some s4"
    by (simp add: executeQuoted_def s1(1) fresh s2 s3 s4 fix_placed_def engSideFor_def exf_side env)
  then show ?thesis
    by (simp add: fix_OnNewOrderSingle_def exf_qty exf_side s3 s4 env)
qed

definition exf_steps :: "fix_step list" where
  "exf_steps = [(exf_env, 0, OnLogon), (exf_env, 0, OnQuoteRequest exf_request), (exf_env, 0, OnNewOrderSingle exf_confirm)]"

lemma exf_quoted_run: "fix_run [(exf_env, 0, OnLogon), (exf_env, 0, OnQuoteRequest exf_request)] (NewServer exf_engine [''X'' \<mapsto> ''X'']) = Some exf_quoted"
  using exf_start by (simp add: exf_server_def)

lemma exf_heap: "fx_heap exf_quoted = []"
  by (simp add: exf_quoted_def exf_server_def NewServer_def)

theorem reports_numbered_witness:
  "\<exists>s. fix_run exf_steps (NewServer exf_engine [''X'' \<mapsto> ''X'']) = Some s \<and> exec_ids (fx_sent s) = [int_string 1] \<and>
     exec_ids (fx_sent s) = map (\<lambda>k. int_string (sint (of_nat (Suc k) :: i64))) [0..<length (exec_ids (fx_sent s))]"
proof -
  obtain s' where s': "fix_OnNewOrderSingle exf_env 0 exf_confirm exf_quoted = Some s'" "exec_ids (fx_sent s') = [int_string 1]"
    using exf_confirmed by blast
  with exf_quoted_run have "fix_run exf_steps (NewServer exf_engine [''X'' \<mapsto> ''X'']) = Some s'"
    by (auto simp: exf_steps_def fix_event_def bind_eq_Some_conv)
  with s'(2) reports_numbered[OF this] show ?thesis by blast
qed


theorem quote_executed_once_witness: "executed_quotes exf_steps (NewServer exf_engine [''X'' \<mapsto> ''X'']) = Some [int_string 1] \<and> distinct [int_string 1]"
proof -
  obtain s' where s': "fix_OnNewOrderSingle exf_env 0 exf_confirm exf_quoted = Some s'" "length (fx_heap s') = 1"
    using exf_confirmed by blast
  with exf_quoted_run have "executed_quotes exf_steps (NewServer exf_engine [''X'' \<mapsto> ''X'']) = Some [int_string 1]"
    by (auto simp: exf_steps_def fix_event_def bind_eq_Some_conv step_quotes_def exf_heap)
  with quote_executed_once[OF this] show ?thesis by (simp add: exf_steps_def)
qed


end
