(* ===== verification/FixSessionProofs.thy ===== *)
theory FixSessionProofs
  imports FixSession
begin

text \<open>
  The session protocol. Messages go out numbered one by one whatever is received; the loop
  returns on every input; and the application sees each sequence number at most once, in order,
  between one logon and the end, and only messages that the dictionary accepts. The second group
  goes through the decoded messages of a stream, on which the loop is a recursion on a list.
\<close>

subsection \<open>Numbering of what is sent\<close>

text \<open>The \<open>i\<close>-th message on the wire carries sequence number \<open>i + 1\<close> as its fourth field, behind the
  identity of the acceptor, and the \<open>i\<close>-th time stamp.\<close>

definition numbered :: "clock \<Rightarrow> string \<Rightarrow> nat \<Rightarrow> string \<Rightarrow> bool" where
  "numbered clock sender i w \<longleftrightarrow> (\<exists>m f t fs. w = Encode m \<and> m_Fields m =
     [f, \<lparr>f_Tag = 49, f_Value = sender\<rparr>, \<lparr>f_Tag = 56, f_Value = t\<rparr>, \<lparr>f_Tag = 34, f_Value = int_string (int i + 1)\<rparr>,
      \<lparr>f_Tag = 52, f_Value = clock i\<rparr>] @ fs)"

definition numbering :: "clock \<Rightarrow> session \<Rightarrow> bool" where
  "numbering clock s \<longleftrightarrow> ss_outSeq s = wrap64 (int (length (ss_out s)) + 1) \<and>
     (int (length (ss_out s)) < 2 ^ 63 \<longrightarrow> (\<forall>i<length (ss_out s). numbered clock (ss_senderCompID s) i (ss_out s ! i)))"

lemma wrap64_id: "- (2 ^ 63) \<le> i \<Longrightarrow> i < 2 ^ 63 \<Longrightarrow> wrap64 i = i"
  by (simp add: wrap64_def sint_sbintrunc' signed_take_bit_int_eq_self)

lemma wrap64_add: "wrap64 (wrap64 i + j) = wrap64 (i + j)"
  by (simp add: wrap64_def)

text \<open>What sending may change: the queue grows, and the number with it.\<close>

definition sends_only :: "session \<Rightarrow> session \<Rightarrow> bool" where
  "sends_only s s' \<longleftrightarrow> (\<exists>ws. s' = s\<lparr>ss_outSeq := ss_outSeq s', ss_out := ss_out s @ ws\<rparr>)"

lemma sends_only_refl [simp, intro]: "sends_only s s"
  unfolding sends_only_def by (rule exI[of _ "[]"]) simp

lemma sends_only_trans: "sends_only s s' \<Longrightarrow> sends_only s' s'' \<Longrightarrow> sends_only s s''"
  unfolding sends_only_def by (metis (no_types, lifting) append.assoc session.surjective session.update_convs(3) session.update_convs(7)
      session.select_convs(7))

lemma sends_only_fields:
  assumes "sends_only s s'"
  shows "ss_inSeq s' = ss_inSeq s" "ss_loggedOn s' = ss_loggedOn s" "ss_senderCompID s' = ss_senderCompID s"
    "ss_targetCompID s' = ss_targetCompID s" "ss_heartBtMs s' = ss_heartBtMs s"
  using assms unfolding sends_only_def by (metis session.ext_inject session.surjective session.update_convs(3,7))+

lemma enqueue_numbering:
  assumes "numbering clock s" "enqueueLockedMsg clock m s = Some s'"
  shows "numbering clock s' \<and> sends_only s s'"
proof -
  obtain f fs where f: "m_Fields m = f # fs" using assms(2) by (cases "m_Fields m") (auto simp: enqueueLockedMsg_def)
  let ?m = "\<lparr>m_Fields = f # session_header clock s @ fs, m_byTag = fold add_tag (session_header clock s) (m_byTag m)\<rparr>"
  have s': "s' = s\<lparr>ss_outSeq := wrap64 (ss_outSeq s + 1), ss_out := ss_out s @ [Encode ?m]\<rparr>"
    using assms(2) f by (simp add: enqueueLockedMsg_def Let_def)
  have out: "ss_outSeq s = wrap64 (int (length (ss_out s)) + 1)"
    and old: "int (length (ss_out s)) < 2 ^ 63 \<Longrightarrow> i < length (ss_out s) \<Longrightarrow> numbered clock (ss_senderCompID s) i (ss_out s ! i)" for i
    using assms(1) unfolding numbering_def by blast+
  have "numbered clock (ss_senderCompID s) (length (ss_out s)) (Encode ?m)" if "int (length (ss_out s)) + 1 < 2 ^ 63"
    unfolding numbered_def using that out wrap64_id[of "int (length (ss_out s)) + 1"]
    by (intro exI[of _ ?m]) (simp add: session_header_def)
  with old have "\<forall>i<length (ss_out s'). numbered clock (ss_senderCompID s') i (ss_out s' ! i)"
    if "int (length (ss_out s')) < 2 ^ 63" using that by (auto simp: s' nth_append less_Suc_eq)
  moreover have "ss_outSeq s' = wrap64 (int (length (ss_out s')) + 1)" 
    using wrap64_add[of "int (length (ss_out s)) + 1" 1] by (simp add: s' out)
  moreover have "sends_only s s'" unfolding sends_only_def by (rule exI[of _ "[Encode ?m]"]) (simp add: s')
  ultimately show ?thesis unfolding numbering_def by blast
qed

lemma send_numbering: "numbering clock s \<Longrightarrow> session_Send clock m s = Some s' \<Longrightarrow> numbering clock s' \<and> sends_only s s'"
  unfolding session_Send_def by (rule enqueue_numbering)

lemma send_all_numbering: "numbering clock s \<Longrightarrow> send_all clock ms s = Some s' \<Longrightarrow> numbering clock s' \<and> sends_only s s'"
proof (induction ms arbitrary: s)
  case Nil
  then show ?case by simp
next
  case (Cons m ms)
  then obtain s1 where s1: "session_Send clock m s = Some s1" "send_all clock ms s1 = Some s'"
    by (auto simp: bind_eq_Some_conv)
  from send_numbering[OF Cons.prems(1) s1(1)] Cons.IH[OF _ s1(2)] sends_only_trans show ?case by blast
qed

lemma tell_numbering:
  "numbering clock s \<Longrightarrow> tell clock app ev (s, a) = Some (s', a') \<Longrightarrow> numbering clock s' \<and> sends_only s s' \<and> a' = snd (app s a ev)"
  by (cases "app s a ev") (auto simp: tell_def bind_eq_Some_conv dest: send_all_numbering)

lemma admin_numbering:
  assumes "numbering clock s"
  shows "sendHeartbeat clock t s = Some s' \<Longrightarrow> numbering clock s' \<and> sends_only s s'"
    "sendResendRequest clock i s = Some s' \<Longrightarrow> numbering clock s' \<and> sends_only s s'"
    "sendSequenceReset clock s = Some s' \<Longrightarrow> numbering clock s' \<and> sends_only s s'"
    "sendLogout clock r s = Some s' \<Longrightarrow> numbering clock s' \<and> sends_only s s'"
    "sendReject clock i j txt s = Some s' \<Longrightarrow> numbering clock s' \<and> sends_only s s'"
  unfolding sendHeartbeat_def sendResendRequest_def sendSequenceReset_def sendLogout_def sendReject_def Let_def
  by (erule send_numbering[OF assms] enqueue_numbering[OF assms])+

lemma numbering_other [simp]: "numbering clock (s\<lparr>ss_inSeq := i\<rparr>) = numbering clock s"
  "numbering clock (s\<lparr>ss_loggedOn := b\<rparr>) = numbering clock s" "numbering clock (s\<lparr>ss_targetCompID := t\<rparr>) = numbering clock s"
  "numbering clock (s\<lparr>ss_heartBtMs := h\<rparr>) = numbering clock s"
  by (simp_all add: numbering_def)

subsection \<open>One message\<close>

definition seq_of :: "message \<Rightarrow> int" where
  "seq_of m = int_or_zero (msg_GetInt m 34)"

text \<open>An in-order message: an administrative answer, the end of the session, or a valid business
  message that the application sees.\<close>

lemma in_order_cases:
  assumes n: "numbering clock s" and h: "handle_in_order clock app d m sq (s, a) = Some (stop, s', a')"
  obtains (quiet) "numbering clock s'" "sends_only s s'" "\<not> stop" "a' = a"
  | (logout) s1 where "numbering clock s'" "sends_only s s'" "stop" "a' = snd (app s1 a OnLogout)"
  | (business) ev where "numbering clock s'" "sends_only s s'" "\<not> stop" "dispatch m = Some ev" "fix_Validate d m = None"
      "a' = snd (app s a ev)"
proof (cases "MsgType m \<in> {MsgHeartbeat, MsgTestRequest, MsgResendRequest, MsgLogout}")
  case True
  then consider "MsgType m = MsgHeartbeat" | "MsgType m = MsgTestRequest" | "MsgType m = MsgResendRequest"
    | "MsgType m = MsgLogout" by blast
  then show ?thesis
  proof cases
    case 1
    then show ?thesis using quiet n h by (simp add: handle_in_order_def)
  next
    case 2
    then have "sendHeartbeat clock (Some m) s = Some s'" "\<not> stop" "a' = a"
      using h by (auto simp: handle_in_order_def msg_types bind_eq_Some_conv)
    then show ?thesis using quiet admin_numbering(1)[OF n] by blast
  next
    case 3
    then have "sendSequenceReset clock s = Some s'" "\<not> stop" "a' = a"
      using h by (auto simp: handle_in_order_def msg_types bind_eq_Some_conv)
    then show ?thesis using quiet admin_numbering(3)[OF n] by blast
  next
    case 4
    then obtain s1 where s1: "sendLogout clock ''responding to logout'' s = Some s1" and st: "stop"
      and t: "tell clock app OnLogout (s1, a) = Some (s', a')"
      using h by (auto simp: handle_in_order_def msg_types bind_eq_Some_conv)
    from admin_numbering(4)[OF n s1] tell_numbering[OF _ t] sends_only_trans logout st show ?thesis by blast
  qed
next
  case False
  show ?thesis
  proof (cases "dispatch m")
    case None
    then have "sendReject clock sq TagMsgType (''unsupported MsgType '' @ MsgType m) s = Some s'" "\<not> stop" "a' = a"
      using False h by (auto simp: handle_in_order_def Let_def bind_eq_Some_conv)
    then show ?thesis using quiet admin_numbering(5)[OF n] by blast
  next
    case (Some ev)
    show ?thesis
    proof (cases "fix_Validate d m")
      case None
      then have t: "tell clock app ev (s, a) = Some (s', a')" and st: "\<not> stop"
        using False Some h by (auto simp: handle_in_order_def Let_def bind_eq_Some_conv)
      from tell_numbering[OF n t] show ?thesis using business[OF _ _ st Some None] by blast
    next
      case (Some ve)
      then have "sendReject clock sq (error_tag ve) (error_text ve) s = Some s'" "\<not> stop" "a' = a"
        using False \<open>dispatch m = Some ev\<close> h by (auto simp: handle_in_order_def Let_def bind_eq_Some_conv)
      then show ?thesis using quiet admin_numbering(5)[OF n] by blast
    qed
  qed
qed

text \<open>Any message: what it does to the expected number and what the application sees.\<close>

lemma handle_cases:
  assumes n: "numbering clock s" and h: "handle clock app d m (s, a) = Some ((stop, err), s', a')"
  obtains (refused) "\<not> ss_loggedOn s" "s' = s" "a' = a" "stop" "err \<noteq> None"
  | (logon) s1 where "\<not> ss_loggedOn s" "ss_loggedOn s'" "\<not> stop" "err = None" "a' = snd (app s1 a OnLogon)"
      "numbering clock s'" "ss_senderCompID s' = ss_senderCompID s" "ss_inSeq s' = wrap64 (seq_of m + 1)"
  | (quiet) "ss_loggedOn s" "ss_loggedOn s'" "\<not> stop" "err = None" "a' = a" "numbering clock s'"
      "ss_senderCompID s' = ss_senderCompID s"
      "ss_inSeq s' = ss_inSeq s \<or> ss_inSeq s' = wrap64 (ss_inSeq s + 1) \<and> seq_of m = ss_inSeq s \<or>
       ss_inSeq s \<le> ss_inSeq s' \<and> msg_GetInt m 36 = Some (ss_inSeq s')"
  | (logout) s1 where "ss_loggedOn s" "stop" "err = None" "a' = snd (app s1 a OnLogout)" "numbering clock s'"
      "ss_senderCompID s' = ss_senderCompID s"
  | (business) s1 ev where "ss_loggedOn s" "ss_loggedOn s'" "\<not> stop" "err = None" "seq_of m = ss_inSeq s"
      "ss_inSeq s' = wrap64 (ss_inSeq s + 1)" "dispatch m = Some ev" "fix_Validate d m = None"
      "a' = snd (app s1 a ev)" "numbering clock s'" "ss_senderCompID s' = ss_senderCompID s"
proof (cases "ss_loggedOn s")
  case False
  show ?thesis
  proof (cases "MsgType m = MsgLogon \<and> fix_Validate d m = None")
    case True
    define s0 where "s0 = (let s = s\<lparr>ss_targetCompID := (case msg_Get m 49 of None \<Rightarrow> [] | Some v \<Rightarrow> v)\<rparr>;
        s = (case msg_GetInt m 108 of None \<Rightarrow> s | Some hb \<Rightarrow> s\<lparr>ss_heartBtMs := wrap64 (hb * 1000)\<rparr>)
      in s\<lparr>ss_inSeq := wrap64 (int_or_zero (msg_GetInt m 34) + 1), ss_loggedOn := True\<rparr>)"
    have s0: "numbering clock s0" "ss_loggedOn s0" "ss_inSeq s0 = wrap64 (seq_of m + 1)" "ss_senderCompID s0 = ss_senderCompID s"
      using n by (simp_all add: s0_def Let_def seq_of_def split: option.split)
    obtain s1 where s1: "session_Send clock (msg_SetInt (msg_SetInt (NewMessage MsgLogon) 98 0) 108 (ss_heartBtMs s0 sdiv 1000)) s0 = Some s1"
      and t: "tell clock app OnLogon (s1, a) = Some (s', a')" and st: "\<not> stop" "err = None"
      using h True False by (auto simp: handle_def onLogon_def Let_def bind_eq_Some_conv s0_def)
    note sent = send_numbering[OF s0(1) s1] note told = tell_numbering[OF conjunct1[OF sent] t]
    have only: "sends_only s0 s'" using sent told sends_only_trans by blast
    from sends_only_fields[OF only] s0 told show ?thesis by (intro logon[OF False]) (auto simp: st)
  next
    case bad: False
    then have "s' = s" "a' = a" "stop" "err \<noteq> None"
      using h False by (auto simp: handle_def onLogon_def Let_def split: if_splits option.splits)
    then show ?thesis using refused False by blast
  qed
next
  case True
  consider (reset) "MsgType m = MsgSequenceReset" | (gap) "MsgType m \<noteq> MsgSequenceReset" "seq_of m > ss_inSeq s"
    | (stale) "MsgType m \<noteq> MsgSequenceReset" "seq_of m < ss_inSeq s"
    | (next_one) "MsgType m \<noteq> MsgSequenceReset" "seq_of m = ss_inSeq s" by linarith
  then show ?thesis
  proof cases
    case reset
    then have "\<not> stop" "err = None" "a' = a" "s' = (case msg_GetInt m 36 of
        Some nsn \<Rightarrow> if nsn \<ge> ss_inSeq s then s\<lparr>ss_inSeq := nsn\<rparr> else s | None \<Rightarrow> s)"
      using True h by (simp_all add: handle_def)
    then show ?thesis using n True by (intro quiet) (auto split: option.splits if_splits)
  next
    case gap
    then have st: "\<not> stop" "err = None" "a' = a" and r: "sendResendRequest clock (ss_inSeq s) s = Some s'"
      using True h by (auto simp: handle_def Let_def seq_of_def[symmetric] bind_eq_Some_conv)
    note sent = admin_numbering(2)[OF n r]
    from sends_only_fields[OF conjunct2[OF sent]] sent st True show ?thesis by (intro quiet) auto
  next
    case stale
    then have "\<not> stop" "err = None" "a' = a" "s' = s"
      using True h by (auto simp: handle_def Let_def seq_of_def[symmetric])
    then show ?thesis using n True by (intro quiet) auto
  next
    case next_one
    let ?s = "s\<lparr>ss_inSeq := wrap64 (ss_inSeq s + 1)\<rparr>"
    have e: "err = None" and o: "handle_in_order clock app d m (seq_of m) (?s, a) = Some (stop, s', a')"
      using next_one True h by (auto simp: handle_def Let_def seq_of_def[symmetric] bind_eq_Some_conv)
    have "numbering clock ?s" using n by simp
    from this o show ?thesis
    proof (cases rule: in_order_cases)
      case quiet
      then show ?thesis using that(3) sends_only_fields[OF quiet(2)] True e next_one(2) by simp
    next
      case (logout s1)
      then show ?thesis using that(4) sends_only_fields[OF logout(2)] True e by simp
    next
      case (business ev)
      then show ?thesis using that(5) sends_only_fields[OF business(2)] True e next_one(2) by simp
    qed
  qed
qed

subsection \<open>Streams\<close>

text \<open>The messages of a stream up to its end or its first error; the loop is a recursion on them.\<close>

function incoming :: "string \<Rightarrow> message list" where
  "incoming inp = (case ReadFrame inp of Inl e \<Rightarrow> []
     | Inr (raw, rest) \<Rightarrow> (case Decode raw of Inl e \<Rightarrow> [] | Inr m \<Rightarrow> m # incoming rest))"
  by pat_completeness auto
termination by (relation "measure length") (auto dest: ReadFrame_shrinks)

declare incoming.simps [simp del]

text \<open>An invariant that every message keeps, and that the farewell keeps, holds when the loop returns;
  \<open>P\<close> is what it says while the session lives and \<open>Q\<close> what remains when it ends.\<close>

lemma session_Run_invariant:
  assumes step: "\<And>m sa stop err sa'. m \<in> set (incoming inp) \<Longrightarrow> P sa \<Longrightarrow>
      handle clock app d m sa = Some ((stop, err), sa') \<Longrightarrow> if err \<noteq> None \<or> stop then Q sa' else P sa'"
    and bye: "\<And>sa sa'. P sa \<Longrightarrow> ss_loggedOn (fst sa) \<Longrightarrow> tell clock app OnLogout sa = Some sa' \<Longrightarrow> Q sa'"
    and drop: "\<And>sa. P sa \<Longrightarrow> Q sa"
  shows "session_Run clock app d inp sa = Some (err, sa') \<Longrightarrow> P sa \<Longrightarrow> Q sa'"
  using step
proof (induction inp arbitrary: sa rule: incoming.induct)
  case (1 inp)
  show ?case
  proof (cases "ReadFrame inp")
    case (Inl e)
    show ?thesis
    proof (cases "ss_loggedOn (fst sa)")
      case True
      with Inl "1.prems"(1) have "tell clock app OnLogout sa = Some sa'"
        by (auto simp: session_Run.simps[of _ _ _ inp] bind_eq_Some_conv)
      then show ?thesis using bye[OF "1.prems"(2) True] by blast
    next
      case False
      with Inl "1.prems"(1,2) drop show ?thesis by (simp add: session_Run.simps[of _ _ _ inp])
    qed
  next
    case (Inr x)
    obtain raw rest where x: "x = (raw, rest)" by fastforce
    show ?thesis
    proof (cases "Decode raw")
      case (Inl e)
      then show ?thesis using "1.prems"(1,2) drop Inr x by (simp add: session_Run.simps[of _ _ _ inp])
    next
      case (Inr m)
      note frame = \<open>ReadFrame inp = Inr x\<close>[unfolded x]
      have ms: "incoming inp = m # incoming rest" using frame Inr by (subst incoming.simps) simp
      from "1.prems"(1) frame Inr obtain stop err1 sa1 where h: "handle clock app d m sa = Some ((stop, err1), sa1)"
        and next1: "(if err1 \<noteq> None \<or> stop then Some (err1, sa1) else session_Run clock app d rest sa1) = Some (err, sa')"
        by (auto simp: session_Run.simps[of _ _ _ inp] bind_eq_Some_conv)
      have after: "if err1 \<noteq> None \<or> stop then Q sa1 else P sa1" using "1.prems"(3)[OF _ "1.prems"(2) h] by (simp add: ms)
      show ?thesis
      proof (cases "err1 \<noteq> None \<or> stop")
        case True
        with next1 after show ?thesis by simp
      next
        case False
        with next1 after have more: "session_Run clock app d rest sa1 = Some (err, sa')" "P sa1" by auto
        have m_in: "m' \<in> set (incoming inp)" if "m' \<in> set (incoming rest)" for m' using that by (simp add: ms)
        show ?thesis by (rule "1.IH"[OF frame refl Inr more]) (erule "1.prems"(3)[OF m_in])
      qed
    qed
  qed
qed

lemma NewSession_numbering: "numbering clock (NewSession sender)"
  by (simp add: numbering_def NewSession_def wrap64_id)

text \<open>An application that records its events; its answers are arbitrary.\<close>

definition recorder :: "(session \<Rightarrow> app_event list \<Rightarrow> app_event \<Rightarrow> message list) \<Rightarrow> app_event list application" where
  "recorder replies = (\<lambda>s evs ev. (replies s evs ev, evs @ [ev]))"

subsection \<open>A concrete session\<close>

definition ex_fields :: "field list" where
  "ex_fields = map (\<lambda>(t, v). \<lparr>f_Tag = t, f_Value = v\<rparr>)
     [(35, ''A''), (49, ''CLIENT''), (56, ''EX''), (34, ''1''), (52, ''T''), (98, ''0''), (108, ''30'')]"

definition ex_stream :: string where
  "ex_stream = fields_body (wire_fields (body_length ex_fields) (wire_checksum ex_fields) ex_fields)"

definition ex_logon :: message where
  "ex_logon = message_of (wire_fields (body_length ex_fields) (wire_checksum ex_fields) ex_fields)"

lemma ex_wire: "ReadFrame ex_stream = Inr (ex_stream, [])" "Decode ex_stream = Inr ex_logon"
proof -
  have c: "0 \<le> wire_checksum ex_fields" "wire_checksum ex_fields < 256" by (simp_all add: wire_checksum_def checksum_bounds)
  have n: "0 \<le> body_length ex_fields" "body_length ex_fields \<le> 2 ^ 20"
    by (simp_all add: body_length_def ex_fields_def fields_body_def field_text_def int_string_def nat_string.simps)
  have send: "list_all sendable ex_fields" by (simp add: ex_fields_def sendable_def SOH_def)
  have tags: "TagCheckSum \<notin> f_Tag ` set ex_fields" by (simp add: ex_fields_def tag_defs)
  show "ReadFrame ex_stream = Inr (ex_stream, [])"
    using ReadFrame_wire[OF refl n(2) c, of "[]"] by (simp add: ex_stream_def)
  have "3 \<le> length (wire_fields (body_length ex_fields) (wire_checksum ex_fields) ex_fields)" by (simp add: wire_fields_def)
  then show "Decode ex_stream = Inr ex_logon"
    using Decode_fields[OF wire_sendable[OF send c]] check_wire[OF tags n(1) _ c] n(2)
    by (simp add: ex_stream_def ex_logon_def)
qed

lemma ex_logon_Get: "msg_Get ex_logon t = (case values_of ex_fields t of [] \<Rightarrow> None | v # _ \<Rightarrow> Some v)"
  if "t \<notin> {TagBeginString, TagBodyLength, TagCheckSum}"
  using that by (simp add: ex_logon_def indexed_Get values_of_def wire_fields_def)

lemma ex_logon_values: "MsgType ex_logon = MsgLogon" "msg_Get ex_logon 49 = Some ''CLIENT''" "msg_GetInt ex_logon 108 = Some 30"
  "msg_GetInt ex_logon 34 = Some 1" "fix_Validate NewDictionary ex_logon = None" "seq_of ex_logon = 1"
proof -
  have kind: "MsgType ex_logon = ''A''" by (simp add: MsgType_def ex_logon_Get ex_fields_def values_of_def tag_defs)
  have has: "msg_Has ex_logon t \<longleftrightarrow> t \<in> {8, 9, 35, 49, 56, 34, 52, 98, 108, 10}" for t
    unfolding ex_logon_def by (subst indexed_Has) (auto simp: wire_fields_def ex_fields_def tag_defs)
  have valid: "fix_Validate NewDictionary ex_logon = None"
    unfolding fix_Validate_None kind by (simp add: headerRequired_def NewDictionary_def has)
  have num: "msg_GetInt ex_logon 34 = Some 1" "msg_GetInt ex_logon 108 = Some 30"
    by (simp_all add: msg_GetInt_def ex_logon_Get ex_fields_def values_of_def tag_defs Atoi_def isDigit_def digit_value_def)
  have get: "msg_Get ex_logon 49 = Some ''CLIENT''" by (simp add: ex_logon_Get ex_fields_def values_of_def tag_defs)
  show "MsgType ex_logon = MsgLogon" "msg_Get ex_logon 49 = Some ''CLIENT''" "msg_GetInt ex_logon 108 = Some 30"
    "msg_GetInt ex_logon 34 = Some 1" "fix_Validate NewDictionary ex_logon = None" "seq_of ex_logon = 1"
    using kind valid num get by (simp_all add: seq_of_def int_or_zero_def msg_types)
qed


lemma ex_incoming: "incoming ex_stream = [ex_logon]"
proof -
  have "incoming [] = []" by (subst incoming.simps) (simp add: ReadFrame_def)
  then show ?thesis by (subst incoming.simps) (simp add: ex_wire)
qed

text \<open>A logon and the end of the stream.\<close>

lemma ex_run: "\<exists>s. session_Run (\<lambda>_. ''T'') (recorder (\<lambda>_ _ _. [])) NewDictionary ex_stream (NewSession ''EX'', []) =
    Some (None, s, [OnLogon, OnLogout]) \<and> length (ss_out s) = 1"
proof -
  let ?app = "recorder (\<lambda>_ _ _. [])"
  obtain s where h: "handle (\<lambda>_. ''T'') ?app NewDictionary ex_logon (NewSession ''EX'', []) = Some ((False, None), s, [OnLogon])"
    and s: "length (ss_out s) = 1" "ss_loggedOn s"
    by (simp add: handle_def NewSession_def ex_logon_values onLogon_def Let_def tell_def recorder_def session_Send_def
        enqueueLockedMsg_def NewMessage_def msg_Set_def msg_SetInt_def empty_message_def int_or_zero_def)
  have "session_Run (\<lambda>_. ''T'') ?app NewDictionary [] (s, [OnLogon]) = Some (None, s, [OnLogon, OnLogout])"
    by (subst session_Run.simps) (simp add: ReadFrame_def tell_def recorder_def s(2))
  then have "session_Run (\<lambda>_. ''T'') ?app NewDictionary ex_stream (NewSession ''EX'', []) = Some (None, s, [OnLogon, OnLogout])"
    by (subst session_Run.simps) (simp add: ex_wire h)
  with s(1) show ?thesis by blast
qed

subsection \<open>Properties of the session\<close>

text \<open>C24: What a session writes is numbered: whatever it receives and whatever the application sends, the
  \<open>i\<close>-th message on the wire carries sequence number \<open>i + 1\<close>, with no gap and no repetition.\<close>

theorem session_numbers_output:
  assumes "session_Run clock app d inp (NewSession sender, a) = Some (err, s', a')"
    and "int (length (ss_out s')) < 2 ^ 63" "i < length (ss_out s')"
  shows "numbered clock sender i (ss_out s' ! i)"
proof -
  let ?P = "\<lambda>(s, a). numbering clock s \<and> ss_senderCompID s = sender"
  have "?P (s', a')"
  proof (rule session_Run_invariant[OF _ _ _ assms(1), where P = ?P])
    fix m sa stop err sa'
    assume P: "?P sa" and h: "handle clock app d m sa = Some ((stop, err), sa')"
    obtain s a s' a' where sa: "sa = (s, a)" "sa' = (s', a')" by fastforce
    from P have n: "numbering clock s" and sn: "ss_senderCompID s = sender" by (simp_all add: sa)
    from n h[unfolded sa] have "?P sa'" by (cases rule: handle_cases) (use n sn in \<open>simp_all add: sa\<close>)
    then show "if err \<noteq> None \<or> stop then ?P sa' else ?P sa'" by simp
  next
    fix sa sa' assume P: "?P sa" and t: "tell clock app OnLogout sa = Some sa'"
    obtain s a s' a' where sa: "sa = (s, a)" "sa' = (s', a')" by fastforce
    from P have n: "numbering clock s" and sn: "ss_senderCompID s = sender" by (simp_all add: sa)
    from tell_numbering[OF n t[unfolded sa]] have "numbering clock s'" "sends_only s s'" by blast+
    with sends_only_fields(3) sn show "?P sa'" by (auto simp: sa)
  next
    show "?P (NewSession sender, a)" using NewSession_numbering by (simp add: NewSession_def)
  qed
  then show ?thesis using assms(2,3) unfolding numbering_def by auto
qed

fun business :: "app_event \<Rightarrow> message option" where
  "business OnLogon = None"
| "business OnLogout = None"
| "business (OnNewOrderSingle m) = Some m"
| "business (OnOrderCancelRequest m) = Some m"
| "business (OnOrderCancelReplace m) = Some m"
| "business (OnMarketDataRequest m) = Some m"
| "business (OnQuoteRequest m) = Some m"

lemma dispatch_business: "dispatch m = Some ev \<Longrightarrow> business ev = Some m"
  by (auto simp: dispatch_def Let_def split: if_splits)

definition seen :: "app_event list \<Rightarrow> message list" where
  "seen evs = List.map_filter business evs"

lemma seen_simps [simp]: "seen [] = []" "seen (evs @ [ev]) = seen evs @ (case business ev of None \<Rightarrow> [] | Some m \<Rightarrow> [m])"
  "seen (ev # evs) = (case business ev of None \<Rightarrow> [] | Some m \<Rightarrow> [m]) @ seen evs"
  by (simp_all add: seen_def map_filter_def split: option.split)

text \<open>The order in which an application sees events: a logon, then business messages, then possibly a
  logout; business messages are valid, come from the stream, and their numbers increase.\<close>

definition orderly :: "(string \<rightharpoonup> int list) \<Rightarrow> message list \<Rightarrow> app_event list \<Rightarrow> bool" where
  "orderly d ms evs \<longleftrightarrow> evs = [] \<or> (\<exists>mid. (evs = OnLogon # mid \<or> evs = OnLogon # mid @ [OnLogout]) \<and>
     list_all (\<lambda>ev. business ev \<noteq> None) mid \<and> set (seen mid) \<subseteq> set ms \<and>
     (\<forall>m\<in>set (seen mid). fix_Validate d m = None) \<and> sorted_wrt (\<lambda>m m'. seq_of m < seq_of m') (seen mid))"

theorem session_numbers_output_witness:
  "\<exists>s w. session_Run (\<lambda>_. ''T'') (recorder (\<lambda>_ _ _. [])) NewDictionary ex_stream (NewSession ''EX'', []) =
    Some (None, s, [OnLogon, OnLogout]) \<and> ss_out s = [w] \<and> numbered (\<lambda>_. ''T'') ''EX'' 0 w"
proof -
  obtain s where s: "session_Run (\<lambda>_. ''T'') (recorder (\<lambda>_ _ _. [])) NewDictionary ex_stream (NewSession ''EX'', []) =
    Some (None, s, [OnLogon, OnLogout])" "length (ss_out s) = 1" using ex_run by blast
  from session_numbers_output[OF s(1), of 0] s(2) have "numbered (\<lambda>_. ''T'') ''EX'' 0 (ss_out s ! 0)" by simp
  with s show ?thesis by (auto simp: length_Suc_conv)
qed

lemma seq_of_bounds: "- (2 ^ 63) \<le> seq_of m"
  by (auto simp: seq_of_def int_or_zero_def msg_GetInt_def Atoi_def Let_def split: option.splits if_splits)

text \<open>What holds while the session lives.\<close>

definition in_session :: "(string \<rightharpoonup> int list) \<Rightarrow> message list \<Rightarrow> session \<Rightarrow> app_event list \<Rightarrow> bool" where
  "in_session d ms s evs \<longleftrightarrow> (if ss_loggedOn s
     then \<exists>mid. evs = OnLogon # mid \<and> list_all (\<lambda>ev. business ev \<noteq> None) mid \<and> set (seen mid) \<subseteq> set ms \<and>
       (\<forall>m\<in>set (seen mid). fix_Validate d m = None \<and> seq_of m < ss_inSeq s) \<and>
       sorted_wrt (\<lambda>m m'. seq_of m < seq_of m') (seen mid)
     else evs = [])"

lemma in_session_orderly: "in_session d ms s evs \<Longrightarrow> orderly d ms evs"
  unfolding in_session_def orderly_def by (auto split: if_splits)

lemma in_session_logout: "in_session d ms s evs \<Longrightarrow> ss_loggedOn s \<Longrightarrow> orderly d ms (evs @ [OnLogout])"
  unfolding in_session_def orderly_def by (auto split: if_splits)

lemma in_session_later: "in_session d ms s evs \<Longrightarrow> ss_loggedOn s \<Longrightarrow> ss_loggedOn s' \<Longrightarrow> ss_inSeq s \<le> ss_inSeq s' \<Longrightarrow> in_session d ms s' evs"
  unfolding in_session_def by fastforce

lemma in_session_business:
  assumes "in_session d ms s evs" "ss_loggedOn s" "ss_loggedOn s'" "seq_of m = ss_inSeq s" "ss_inSeq s' = ss_inSeq s + 1"
    and "business ev = Some m" "fix_Validate d m = None" "m \<in> set ms"
  shows "in_session d ms s' (evs @ [ev])"
proof -
  obtain mid where mid: "evs = OnLogon # mid" "list_all (\<lambda>ev. business ev \<noteq> None) mid" "set (seen mid) \<subseteq> set ms"
    "\<forall>m\<in>set (seen mid). fix_Validate d m = None \<and> seq_of m < ss_inSeq s" "sorted_wrt (\<lambda>m m'. seq_of m < seq_of m') (seen mid)"
    using assms(1,2) unfolding in_session_def by auto
  have "\<forall>x\<in>set (seen (mid @ [ev])). fix_Validate d x = None \<and> seq_of x < ss_inSeq s'"
    using mid(4) assms(4-7) by (auto simp: less_le_trans)
  moreover have "sorted_wrt (\<lambda>m m'. seq_of m < seq_of m') (seen (mid @ [ev]))"
    using mid(4,5) assms(4,6) by (simp add: sorted_wrt_append)
  moreover have "list_all (\<lambda>ev. business ev \<noteq> None) (mid @ [ev])" using mid(2) assms(6) by simp
  moreover have "set (seen (mid @ [ev])) \<subseteq> set ms" using mid(3) assms(6,8) by simp
  moreover have "evs @ [ev] = OnLogon # (mid @ [ev])" by (simp add: mid(1))
  ultimately show ?thesis unfolding in_session_def using assms(3) by (simp only: if_True) blast
qed

text \<open>C25: The application sees an orderly session: whatever the peer sends (with sequence numbers that leave
  room for one more), it is told of one logon first, of a logout at most once and last, and in
  between of business messages that came from the stream, satisfy the dictionary, and have strictly
  increasing sequence numbers, so no message is dispatched twice or out of order.\<close>

theorem session_is_orderly:
  assumes "session_Run clock (recorder replies) d inp (NewSession sender, []) = Some (err, s', evs)"
    and "\<forall>m\<in>set (incoming inp). seq_of m < 2 ^ 63 - 1"
  shows "orderly d (incoming inp) evs"
proof -
  let ?P = "\<lambda>(s, evs). numbering clock s \<and> in_session d (incoming inp) s evs" and ?Q = "\<lambda>(s, evs). orderly d (incoming inp) evs"
  have "?Q (s', evs)"
  proof (rule session_Run_invariant[OF _ _ _ assms(1), where P = ?P])
    fix m sa stop err sa'
    assume m: "m \<in> set (incoming inp)" and P: "?P sa" and h: "handle clock (recorder replies) d m sa = Some ((stop, err), sa')"
    obtain s a s' a' where sa: "sa = (s, a)" "sa' = (s', a')" by fastforce
    from P have n: "numbering clock s" and i: "in_session d (incoming inp) s a" by (simp_all add: sa)
    from m assms(2) have room: "wrap64 (seq_of m + 1) = seq_of m + 1" using seq_of_bounds[of m] by (simp add: wrap64_id)
    from n h[unfolded sa] show "if err \<noteq> None \<or> stop then ?Q sa' else ?P sa'"
    proof (cases rule: handle_cases)
      case refused
      then show ?thesis using in_session_orderly[OF i] by (simp add: sa)
    next
      case logon
      then have "a = []" using i by (simp add: in_session_def)
      then show ?thesis using logon by (simp add: sa recorder_def in_session_def)
    next
      case quiet
      then have "ss_inSeq s \<le> ss_inSeq s'" using room by auto
      from in_session_later[OF i quiet(1,2) this] quiet show ?thesis by (simp add: sa)
    next
      case logout
      then show ?thesis using in_session_logout[OF i] by (simp add: sa recorder_def)
    next
      case (business s1 ev)
      then have "ss_inSeq s' = ss_inSeq s + 1" using room by simp
      from in_session_business[OF i business(1,2,5) this dispatch_business[OF business(7)] business(8) m] business
      show ?thesis by (simp add: sa recorder_def)
    qed
  next
    fix sa sa' assume P: "?P sa" and lo: "ss_loggedOn (fst sa)" and t: "tell clock (recorder replies) OnLogout sa = Some sa'"
    obtain s a s' a' where sa: "sa = (s, a)" "sa' = (s', a')" by fastforce
    from P have n: "numbering clock s" and i: "in_session d (incoming inp) s a" by (simp_all add: sa)
    from tell_numbering[OF n t[unfolded sa]] in_session_logout[OF i] lo show "?Q sa'" by (simp add: sa recorder_def)
  next
    show "?Q sa" if "?P sa" for sa using that by (cases sa) (auto intro: in_session_orderly)
  next
    have "in_session d (incoming inp) (NewSession sender) []" by (simp add: in_session_def NewSession_def)
    then show "?P (NewSession sender, [])" using NewSession_numbering by simp
  qed
  then show ?thesis by simp
qed

theorem session_is_orderly_witness:
  "orderly NewDictionary [ex_logon] [OnLogon, OnLogout]"
proof -
  obtain s where s: "session_Run (\<lambda>_. ''T'') (recorder (\<lambda>_ _ _. [])) NewDictionary ex_stream (NewSession ''EX'', []) =
    Some (None, s, [OnLogon, OnLogout])" using ex_run by blast
  from session_is_orderly[OF s] show ?thesis by (simp add: ex_incoming ex_logon_values)
qed

text \<open>Nothing panics when no message without fields is sent.\<close>

lemma send_None: "session_Send clock m s = None \<longleftrightarrow> m_Fields m = []"
  by (simp add: session_Send_def enqueueLockedMsg_def Let_def split: list.split)

lemma built_fields [simp]: "m_Fields (NewMessage t) \<noteq> []" "m_Fields (msg_Set m i v) \<noteq> []" "m_Fields (msg_SetInt m i j) \<noteq> []"
  by (simp_all add: NewMessage_def msg_Set_def msg_SetInt_def)

lemma admin_total: "sendHeartbeat clock t s \<noteq> None" "sendResendRequest clock i s \<noteq> None" "sendSequenceReset clock s \<noteq> None"
  "sendLogout clock r s \<noteq> None" "sendReject clock i j txt s \<noteq> None"
  unfolding sendHeartbeat_def sendResendRequest_def sendSequenceReset_def sendLogout_def sendReject_def Let_def
    session_Send_def[symmetric] send_None by (simp_all split: option.split)

lemma send_all_total: "\<forall>m\<in>set ms. m_Fields m \<noteq> [] \<Longrightarrow> send_all clock ms s \<noteq> None"
proof (induction ms arbitrary: s)
  case (Cons m ms)
  then have "session_Send clock m s \<noteq> None" by (simp add: send_None)
  then obtain s1 where "session_Send clock m s = Some s1" by blast
  with Cons show ?case by simp
qed simp

definition sends_fields :: "'a application \<Rightarrow> bool" where
  "sends_fields app \<longleftrightarrow> (\<forall>s a ev. list_all (\<lambda>m. m_Fields m \<noteq> []) (fst (app s a ev)))"

lemma tell_total: "sends_fields app \<Longrightarrow> tell clock app ev sa \<noteq> None"
proof -
  assume "sends_fields app"
  obtain s a where sa: "sa = (s, a)" by fastforce
  obtain ms a' where ms: "app s a ev = (ms, a')" by fastforce
  have "\<forall>m\<in>set ms. m_Fields m \<noteq> []" using \<open>sends_fields app\<close> ms unfolding sends_fields_def list_all_iff by (metis fst_conv)
  from send_all_total[OF this, of clock s] show ?thesis by (auto simp: tell_def sa ms)
qed

lemma in_order_total: "sends_fields app \<Longrightarrow> handle_in_order clock app d m sq sa \<noteq> None"
  using admin_total tell_total[of app clock]
  by (cases sa) (auto simp del: not_None_eq simp: handle_in_order_def Let_def bind_eq_None_conv split: option.split prod.split)

lemma onLogon_total: "sends_fields app \<Longrightarrow> onLogon clock app d m sa \<noteq> None"
  using tell_total[of app clock]
  by (cases sa) (auto simp del: not_None_eq simp: onLogon_def Let_def bind_eq_None_conv send_None split: option.split prod.split)

lemma handle_total: "sends_fields app \<Longrightarrow> handle clock app d m sa \<noteq> None"
  using in_order_total[of app clock d m] onLogon_total[of app clock d m] admin_total
  by (cases sa) (auto simp del: not_None_eq simp: handle_def Let_def bind_eq_None_conv split: option.split prod.split)



subsection \<open>What the comments say otherwise\<close>

text \<open>The expected number is said never to rewind; after a reset to the greatest number, the message
  with that number makes it wrap to the least, and old numbers are accepted again.\<close>

lemma greatest_number_rewinds:
  assumes "ss_loggedOn s" "ss_inSeq s = 2 ^ 63 - 1" "MsgType m = MsgHeartbeat" "seq_of m = 2 ^ 63 - 1"
  shows "handle clock app d m (s, a) = Some ((False, None), s\<lparr>ss_inSeq := - (2 ^ 63)\<rparr>, a)"
proof -
  have "wrap64 (2 ^ 63) = - (2 ^ 63)" by (simp add: wrap64_def int_word_sint)
  then show ?thesis using assms by (simp add: handle_def handle_in_order_def seq_of_def[symmetric] msg_types Let_def)
qed

end
