(* ===== verification/Seeder.thy ===== *)
theory Seeder
  imports Reference Engine Float64 FillLifecycle
begin

text \<open>
  \<^verbatim>\<open>internal/emulator/seeder.go\<close>: the seeder mirrors a reference book into the matching engine by one
  resting synthetic order per level. The engine is an interface, so its state and its two
  operations are arguments (\<^verbatim>\<open>*engine.Engine\<close> is the instance \<open>engine_matcher\<close>). While an order is
  placed the book calls the trade hook, which the program wires to \<^verbatim>\<open>OnTrade\<close>: the trades of a
  placement reach the buffer of fills before it returns. The plans of a pass are visited in the
  random order of a Go map, the argument \<open>shuffle\<close>. The loop of \<^verbatim>\<open>Run\<close> is a sequence of passes.
\<close>

subsection \<open>State\<close>

definition MetadataKey :: string where "MetadataKey = ''synthetic''"
definition MetadataValue :: string where "MetadataValue = ''true''"

text \<open>\<^verbatim>\<open>MustParse("0.000000001")\<close>.\<close>

definition convergeEps :: decimal where
  "convergeEps = Decimal 0 1000000000"

record 'm matcher =
  mt_PlaceLimit :: "'m \<Rightarrow> order \<Rightarrow> (placement \<times> 'm) option"
  mt_CancelOrder :: "'m \<Rightarrow> string \<Rightarrow> string \<Rightarrow> (book_error + order) \<times> 'm"

definition engine_matcher :: "engine matcher" where
  "engine_matcher = \<lparr>mt_PlaceLimit = (\<lambda>e ord. do { (pm, _, e) \<leftarrow> PlaceLimit e ord; Some (pm, e) }),
     mt_CancelOrder = engine_CancelOrder\<rparr>"

record synthOrder =
  so_id :: string
  so_side :: side
  so_price :: decimal
  so_volume :: decimal

record seeder =
  sd_ref :: ref_book
  sd_Instrument :: string
  sd_DepthLevels :: int
  sd_placed :: "(string, synthOrder) gomap"
  sd_nonce :: u64
  sd_fills :: "(string, decimal) gomap"

record seed_stats =
  st_Placed :: int
  st_Resized :: int
  st_Cancelled :: int
  st_Trades :: int
  st_Skipped :: bool

datatype seed_error = CancelFailed string book_error | PlaceFailed string engine_error

definition NewSeeder :: "ref_book \<Rightarrow> string \<Rightarrow> int \<Rightarrow> seeder" where
  "NewSeeder ref instrument depth =
     \<lparr>sd_ref = ref, sd_Instrument = instrument, sd_DepthLevels = depth, sd_placed = [], sd_nonce = 0, sd_fills = []\<rparr>"

subsection \<open>Identifiers\<close>

fun side_string :: "side \<Rightarrow> string" where
  "side_string SideBuy = ''buy''"
| "side_string SideSell = ''sell''"
| "side_string (SideOther s) = s"

definition priceKey :: "side \<Rightarrow> decimal \<Rightarrow> string" where
  "priceKey sd px = side_string sd @ '':'' @ StringPrec px 18"

definition idPrefix :: "seeder \<Rightarrow> string" where
  "idPrefix s = ''synth:'' @ sd_Instrument s @ '':''"

definition nextIDLocked :: "seeder \<Rightarrow> side \<Rightarrow> decimal \<Rightarrow> string \<times> seeder" where
  "nextIDLocked s sd px =
     (let n = sd_nonce s + 1; s = s\<lparr>sd_nonce := n\<rparr>
      in (idPrefix s @ priceKey sd px @ ''#'' @ nat_string (unat n), s))"

definition seeder_OrderID :: "seeder \<Rightarrow> side \<Rightarrow> decimal \<Rightarrow> string option" where
  "seeder_OrderID s sd px = map_option so_id (map_of (sd_placed s) (priceKey sd px))"

subsection \<open>Fills\<close>

definition buffer_fill :: "seeder \<Rightarrow> string \<Rightarrow> decimal \<Rightarrow> seeder option" where
  "buffer_fill s oid v =
     (if \<not> HasPrefix oid (idPrefix s) then Some s
      else do {
        x \<leftarrow> Add (case map_of (sd_fills s) oid of None \<Rightarrow> Zero | Some f \<Rightarrow> f) v;
        Some (s\<lparr>sd_fills := AList.update oid x (sd_fills s)\<rparr>)
      })"

definition seeder_OnTrade :: "trade option \<Rightarrow> seeder \<Rightarrow> seeder option" where
  "seeder_OnTrade t s =
     (case t of None \<Rightarrow> Some s
      | Some t \<Rightarrow>
          if tr_Instrument t \<noteq> sd_Instrument s then Some s
          else do { s \<leftarrow> buffer_fill s (tr_BuyOrderID t) (tr_Volume t); buffer_fill s (tr_SellOrderID t) (tr_Volume t) })"

fun hook_trades :: "trade list \<Rightarrow> seeder \<Rightarrow> seeder option" where
  "hook_trades [] s = Some s"
| "hook_trades (t # ts) s = do { s \<leftarrow> seeder_OnTrade (Some t) s; hook_trades ts s }"

text \<open>One turn of the loop of \<^verbatim>\<open>foldFillsLocked\<close>; \<open>byID\<close> is the index built before the loop.\<close>

definition fold_fill ::
    "(string \<rightharpoonup> string) \<Rightarrow> string \<times> decimal \<Rightarrow> (string, synthOrder) gomap \<Rightarrow> (string, synthOrder) gomap option" where
  "fold_fill byID f placed =
     (case f of (oid, v) \<Rightarrow>
       (case byID oid of None \<Rightarrow> Some placed
        | Some k \<Rightarrow>
            let cur = (case map_of placed k of Some so \<Rightarrow> so
                       | None \<Rightarrow> \<lparr>so_id = [], so_side = SideOther [], so_price = Zero, so_volume = Zero\<rparr>)
            in do {
              w \<leftarrow> Sub (so_volume cur) v;
              Some (if Sign w \<le> 0 then AList.delete k placed else AList.update k (cur\<lparr>so_volume := w\<rparr>) placed)
            }))"

fun fold_fills ::
    "(string \<rightharpoonup> string) \<Rightarrow> (string \<times> decimal) list \<Rightarrow> (string, synthOrder) gomap \<Rightarrow> (string, synthOrder) gomap option" where
  "fold_fills byID [] placed = Some placed"
| "fold_fills byID (f # fs) placed = do { placed \<leftarrow> fold_fill byID f placed; fold_fills byID fs placed }"

definition index_ids :: "(string, synthOrder) gomap \<Rightarrow> string \<rightharpoonup> string" where
  "index_ids placed = fold (\<lambda>(k, so) byID. byID(so_id so \<mapsto> k)) placed Map.empty"

definition foldFillsLocked :: "seeder \<Rightarrow> seeder option" where
  "foldFillsLocked s =
     (let fills = sd_fills s; s = s\<lparr>sd_fills := []\<rparr>
      in if fills = [] then Some s
         else do { placed \<leftarrow> fold_fills (index_ids (sd_placed s)) fills (sd_placed s); Some (s\<lparr>sd_placed := placed\<rparr>) })"

subsection \<open>Plans\<close>

record seed_plan =
  pn_key :: string
  pn_side :: side
  pn_price :: decimal
  pn_target :: decimal
  pn_existed :: bool
  pn_curID :: string

text \<open>The three maps keyed by level, as one: quantity, side and price.\<close>

definition ref_levels :: "rlevel list \<Rightarrow> rlevel list \<Rightarrow> (string, decimal \<times> side \<times> decimal) gomap" where
  "ref_levels bids asks =
     fold (\<lambda>l. AList.update (priceKey SideSell (rl_Price l)) (rl_Quantity l, SideSell, rl_Price l)) asks
       (fold (\<lambda>l. AList.update (priceKey SideBuy (rl_Price l)) (rl_Quantity l, SideBuy, rl_Price l)) bids [])"

definition target_of :: "float64 \<Rightarrow> decimal \<Rightarrow> decimal \<Rightarrow> decimal option" where
  "target_of alpha c quantity =
     (if float_less alpha float_one
      then do { d \<leftarrow> Sub quantity c; x \<leftarrow> MulFloat d alpha; Add c x }
      else Some quantity)"

definition ref_plan ::
    "float64 \<Rightarrow> (string, synthOrder) gomap \<Rightarrow> string \<times> decimal \<times> side \<times> decimal \<Rightarrow> seed_plan option" where
  "ref_plan alpha placed x =
     (case x of (k, quantity, sd, px) \<Rightarrow>
        let cur = map_of placed k in do {
          t \<leftarrow> target_of alpha (case cur of None \<Rightarrow> Zero | Some so \<Rightarrow> so_volume so) quantity;
          Some \<lparr>pn_key = k, pn_side = sd, pn_price = px, pn_target = t, pn_existed = (cur \<noteq> None),
            pn_curID = (case cur of None \<Rightarrow> [] | Some so \<Rightarrow> so_id so)\<rparr>
        })"

fun ref_plans ::
    "float64 \<Rightarrow> (string, synthOrder) gomap \<Rightarrow> (string \<times> decimal \<times> side \<times> decimal) list \<Rightarrow> seed_plan list option" where
  "ref_plans alpha placed [] = Some []"
| "ref_plans alpha placed (x # xs) = do { p \<leftarrow> ref_plan alpha placed x; ps \<leftarrow> ref_plans alpha placed xs; Some (p # ps) }"

definition stale_plans :: "(string, decimal \<times> side \<times> decimal) gomap \<Rightarrow> (string, synthOrder) gomap \<Rightarrow> seed_plan list" where
  "stale_plans refVol placed =
     map (\<lambda>(k, cur). \<lparr>pn_key = k, pn_side = so_side cur, pn_price = so_price cur, pn_target = Zero, pn_existed = True,
        pn_curID = so_id cur\<rparr>)
       (filter (\<lambda>(k, cur). map_of refVol k = None) placed)"

subsection \<open>Passes\<close>

text \<open>One turn of the first pass: what is left to place grows by the plan, unless it is in place or drained.
  An error stops the pass.\<close>

definition in_place :: "(string, synthOrder) gomap \<Rightarrow> seed_plan \<Rightarrow> bool option" where
  "in_place placed p =
     (if pn_existed p then do {
        d \<leftarrow> Sub (pn_target p) (case map_of placed (pn_key p) of None \<Rightarrow> Zero | Some so \<Rightarrow> so_volume so);
        a \<leftarrow> Abs d;
        Some (Lte a convergeEps)
      } else Some False)"

definition cancel_plan ::
    "'m matcher \<Rightarrow> seed_plan \<Rightarrow> 'm \<times> seeder \<times> seed_stats \<times> seed_plan list \<Rightarrow>
     (seed_error option \<times> 'm \<times> seeder \<times> seed_stats \<times> seed_plan list) option" where
  "cancel_plan mt p = (\<lambda>(m, s, st, todo). do {
     keep \<leftarrow> in_place (sd_placed s) p;
     Some (if keep then (None, m, s, st, todo)
       else let (res, m) = (if pn_existed p then mt_CancelOrder mt m (sd_Instrument s) (pn_curID p) else (Inl ErrOrderNotFound, m))
         in case res of
              Inl ErrUnknownInstrument \<Rightarrow> (Some (CancelFailed (pn_curID p) ErrUnknownInstrument), m, s, st, todo)
            | _ \<Rightarrow>
               let s = (if pn_existed p then s\<lparr>sd_placed := AList.delete (pn_key p) (sd_placed s)\<rparr> else s)
               in if Sign (pn_target p) \<le> 0
                  then (None, m, s, (if pn_existed p then st\<lparr>st_Cancelled := st_Cancelled st + 1\<rparr> else st), todo)
                  else (None, m, s, st, todo @ [p]))
   })"

fun cancel_pass ::
    "'m matcher \<Rightarrow> seed_plan list \<Rightarrow> 'm \<times> seeder \<times> seed_stats \<times> seed_plan list \<Rightarrow>
     (seed_error option \<times> 'm \<times> seeder \<times> seed_stats \<times> seed_plan list) option" where
  "cancel_pass mt [] x = Some (None, x)"
| "cancel_pass mt (p # ps) x = do {
     (err, x) \<leftarrow> cancel_plan mt p x;
     (case err of Some e \<Rightarrow> Some (Some e, x) | None \<Rightarrow> cancel_pass mt ps x)
   }"

definition synthetic_order :: "seeder \<Rightarrow> string \<Rightarrow> seed_plan \<Rightarrow> order" where
  "synthetic_order s oid p =
     \<lparr>ord_ID = oid, ord_Instrument = sd_Instrument s, ord_Price = pn_price p, ord_Volume = pn_target p,
      ord_Side = pn_side p, ord_IsMarket = False, ord_Metadata = [MetadataKey \<mapsto> MetadataValue]\<rparr>"

definition place_plan ::
    "'m matcher \<Rightarrow> seed_plan \<Rightarrow> 'm \<times> seeder \<times> seed_stats \<Rightarrow> (seed_error option \<times> 'm \<times> seeder \<times> seed_stats) option" where
  "place_plan mt p = (\<lambda>(m, s, st).
     let (oid, s) = nextIDLocked s (pn_side p) (pn_price p)
     in do {
       (pm, m) \<leftarrow> mt_PlaceLimit mt m (synthetic_order s oid p);
       s \<leftarrow> hook_trades (pm_trades pm) s;
       Some (case pm_error pm of
           Some e \<Rightarrow> (Some (PlaceFailed oid e), m, s, st)
         | None \<Rightarrow>
            let st = st\<lparr>st_Trades := st_Trades st + int (length (pm_trades pm))\<rparr>;
                so = \<lparr>so_id = oid, so_side = pn_side p, so_price = pn_price p, so_volume = pn_target p\<rparr>;
                s = s\<lparr>sd_placed := AList.update (pn_key p) so (sd_placed s)\<rparr>
            in (None, m, s, if pn_existed p then st\<lparr>st_Resized := st_Resized st + 1\<rparr> else st\<lparr>st_Placed := st_Placed st + 1\<rparr>))
     })"

fun place_pass ::
    "'m matcher \<Rightarrow> seed_plan list \<Rightarrow> 'm \<times> seeder \<times> seed_stats \<Rightarrow> (seed_error option \<times> 'm \<times> seeder \<times> seed_stats) option" where
  "place_pass mt [] x = Some (None, x)"
| "place_pass mt (p # ps) x = do {
     (err, x) \<leftarrow> place_plan mt p x;
     (case err of Some e \<Rightarrow> Some (Some e, x) | None \<Rightarrow> place_pass mt ps x)
   }"

definition plan_before :: "seed_plan \<Rightarrow> seed_plan \<Rightarrow> bool" where
  "plan_before x y \<longleftrightarrow> pn_key x < pn_key y"

definition no_stats :: seed_stats where
  "no_stats = \<lparr>st_Placed = 0, st_Resized = 0, st_Cancelled = 0, st_Trades = 0, st_Skipped = False\<rparr>"

definition Converge ::
    "'m matcher \<Rightarrow> (seed_plan list \<Rightarrow> seed_plan list) \<Rightarrow> 'm \<Rightarrow> seeder \<Rightarrow> float64 \<Rightarrow>
     ((seed_error option \<times> seed_stats) \<times> 'm \<times> seeder) option" where
  "Converge mt shuffle m s alpha =
     (let alpha = float_max float_zero (float_min float_one alpha);
          (crossed, r) = (if Initialized (sd_ref s) then Crossed (sd_ref s) else (True, sd_ref s));
          s = s\<lparr>sd_ref := r\<rparr>
      in if crossed then Some ((None, no_stats\<lparr>st_Skipped := True\<rparr>), m, s)
         else do {
           s \<leftarrow> foldFillsLocked s;
           let ((bids, asks), r) = Depth (sd_ref s) (sd_DepthLevels s);
           let s = s\<lparr>sd_ref := r\<rparr>;
           let refVol = ref_levels bids asks;
           plans \<leftarrow> ref_plans alpha (sd_placed s) refVol;
           (err, m, s, st, todo) \<leftarrow> cancel_pass mt (shuffle (plans @ stale_plans refVol (sd_placed s))) (m, s, no_stats, []);
           (case err of
              Some e \<Rightarrow> Some ((Some e, st), m, s)
            | None \<Rightarrow> do {
                (err, m, s, st) \<leftarrow> place_pass mt (slice_stable plan_before todo) (m, s, st);
                Some ((err, st), m, s)
              })
         })"

definition Reconcile ::
    "'m matcher \<Rightarrow> (seed_plan list \<Rightarrow> seed_plan list) \<Rightarrow> 'm \<Rightarrow> seeder \<Rightarrow>
     ((seed_error option \<times> seed_stats) \<times> 'm \<times> seeder) option" where
  "Reconcile mt shuffle m s = Converge mt shuffle m s float_one"

definition SyntheticCount :: "seeder \<Rightarrow> int" where
  "SyntheticCount s = int (length (sd_placed s))"

text \<open>The loop of \<^verbatim>\<open>Clear\<close>.\<close>

fun clear_orders ::
    "'m matcher \<Rightarrow> (string \<times> synthOrder) list \<Rightarrow> 'm \<times> seeder \<Rightarrow> seed_error option \<times> 'm \<times> seeder" where
  "clear_orders mt [] x = (None, x)"
| "clear_orders mt ((k, cur) # os) (m, s) =
     (case mt_CancelOrder mt m (sd_Instrument s) (so_id cur) of
        (Inl ErrUnknownInstrument, m) \<Rightarrow> (Some (CancelFailed (so_id cur) ErrUnknownInstrument), m, s)
      | (_, m) \<Rightarrow> clear_orders mt os (m, s\<lparr>sd_placed := AList.delete k (sd_placed s)\<rparr>))"

definition seeder_Clear :: "'m matcher \<Rightarrow> 'm \<Rightarrow> seeder \<Rightarrow> seed_error option \<times> 'm \<times> seeder" where
  "seeder_Clear mt m s = clear_orders mt (sd_placed s) (m, s)"

end
