(* ===== verification/SeederProofs.thy ===== *)
theory SeederProofs
  imports Seeder ReferenceProofs EngineProofs
begin

text \<open>
  The seeder: a reconcile pass that reports no error leaves exactly the levels of the reference
  tracked, each within the tolerance of its quantity, whatever the engine does and in whatever
  order the plans are visited.
\<close>

subsection \<open>Keys of levels\<close>

definition two_sides :: "side \<Rightarrow> bool" where
  "two_sides sd \<longleftrightarrow> sd = SideBuy \<or> sd = SideSell"

lemma priceKey_inj:
  assumes "two_sides sd" "two_sides sd'"
  shows "priceKey sd px = priceKey sd' px' \<longleftrightarrow> sd = sd' \<and> px = px'"
proof
  assume eq: "priceKey sd px = priceKey sd' px'"
  then have sd: "sd = sd'" using assms by (auto simp: priceKey_def two_sides_def)
  with eq have "StringPrec px 18 = StringPrec px' 18" by (simp add: priceKey_def)
  moreover have "Parse (StringPrec d 18) = Inr d" for d using Parse_full[of d] by (simp add: ScaleDigits_def)
  ultimately have "px = px'" by (metis sum.inject(2))
  with sd show "sd = sd' \<and> px = px'" by blast
qed simp

definition wf_placed :: "(string, synthOrder) gomap \<Rightarrow> bool" where
  "wf_placed placed \<longleftrightarrow> distinct (map fst placed) \<and>
     (\<forall>k so. map_of placed k = Some so \<longrightarrow> two_sides (so_side so) \<and> k = priceKey (so_side so) (so_price so))"

lemma wf_placed_Nil [simp]: "wf_placed []"
  by (simp add: wf_placed_def)

lemma wf_placed_update: "wf_placed placed \<Longrightarrow> two_sides (so_side so) \<Longrightarrow> k = priceKey (so_side so) (so_price so) \<Longrightarrow>
    wf_placed (AList.update k so placed)"
  by (auto simp: wf_placed_def distinct_update map_of_update_eq)

lemma wf_placed_delete: "wf_placed placed \<Longrightarrow> wf_placed (AList.delete k placed)"
  by (auto simp: wf_placed_def distinct_delete map_of_delete_eq split: if_splits)

subsection \<open>Folding fills\<close>

text \<open>The fills that are still to be folded belong to the orders that are still tracked.\<close>

definition owned :: "(string \<rightharpoonup> string) \<Rightarrow> (string \<times> decimal) list \<Rightarrow> (string, synthOrder) gomap \<Rightarrow> bool" where
  "owned byID fs placed \<longleftrightarrow> distinct (map fst fs) \<and>
     (\<forall>i k. i \<in> fst ` set fs \<longrightarrow> byID i = Some k \<longrightarrow> (\<exists>so. map_of placed k = Some so \<and> so_id so = i))"

lemma ownedI: "distinct (map fst fs) \<Longrightarrow>
    (\<And>i k. i \<in> fst ` set fs \<Longrightarrow> byID i = Some k \<Longrightarrow> \<exists>so. map_of placed k = Some so \<and> so_id so = i) \<Longrightarrow> owned byID fs placed"
  unfolding owned_def by blast

lemma ownedE: "owned byID fs placed \<Longrightarrow> i \<in> fst ` set fs \<Longrightarrow> byID i = Some k \<Longrightarrow>
    \<exists>so. map_of placed k = Some so \<and> so_id so = i"
  unfolding owned_def by blast

lemma owned_distinct: "owned byID fs placed \<Longrightarrow> distinct (map fst fs)"
  unfolding owned_def by blast

lemma owned_tail: "owned byID (f # fs) placed \<Longrightarrow> owned byID fs placed"
  unfolding owned_def by simp

lemma fold_fill_keeps:
  assumes "fold_fill byID f placed = Some placed'" "wf_placed placed" "owned byID (f # fs) placed"
  shows "wf_placed placed' \<and> owned byID fs placed'"
proof -
  obtain i v where f: "f = (i, v)" by force
  show ?thesis
  proof (cases "byID i")
    case None
    with assms(1) f have "placed' = placed" by (simp add: fold_fill_def)
    with assms(2,3) show ?thesis using owned_tail by blast
  next
    case (Some k)
    with ownedE[OF assms(3), of i k] f obtain so where so: "map_of placed k = Some so" "so_id so = i"
      by auto
    with assms(1) f Some obtain w where
      p': "placed' = (if Sign w \<le> 0 then AList.delete k placed else AList.update k (so\<lparr>so_volume := w\<rparr>) placed)"
      by (auto simp: fold_fill_def bind_eq_Some_conv)
    have "two_sides (so_side so) \<and> k = priceKey (so_side so) (so_price so)"
      using assms(2) so(1) unfolding wf_placed_def by blast
    then have "wf_placed placed'"
      unfolding p' using assms(2) by (simp add: wf_placed_delete wf_placed_update)
    moreover have keep: "\<exists>so. map_of placed' k' = Some so \<and> so_id so = j"
      if j: "j \<in> fst ` set fs" and k': "byID j = Some k'" for j k'
    proof -
      from j owned_distinct[OF assms(3)] f have "j \<noteq> i" by auto
      moreover obtain so' where so': "map_of placed k' = Some so'" "so_id so' = j"
        using ownedE[OF assms(3) _ k'] j by auto
      ultimately have "k' \<noteq> k" using so by auto
      with so'(1) have "map_of placed' k' = Some so'" by (simp add: p' map_of_delete_eq map_of_update_eq)
      with so'(2) show ?thesis by blast
    qed
    moreover have "owned byID fs placed'"
      by (rule ownedI) (use owned_distinct[OF assms(3)] keep in simp_all)
    ultimately show ?thesis by simp
  qed
qed

lemma fold_fills_wf: "fold_fills byID fs placed = Some placed' \<Longrightarrow> wf_placed placed \<Longrightarrow> owned byID fs placed \<Longrightarrow>
    wf_placed placed'"
proof (induction fs arbitrary: placed)
  case (Cons f fs)
  then obtain p1 where "fold_fill byID f placed = Some p1" "fold_fills byID fs p1 = Some placed'"
    by (auto simp: bind_eq_Some_conv)
  with Cons fold_fill_keeps show ?case by blast
qed simp

lemma index_ids_owner:
  assumes "distinct (map fst placed)" "index_ids placed i = Some k"
  shows "\<exists>so. map_of placed k = Some so \<and> so_id so = i"
proof -
  have "(\<exists>so. (k, so) \<in> set xs \<and> so_id so = i) \<or> b i = Some k"
    if "fold (\<lambda>(k, so) byID. byID(so_id so \<mapsto> k)) xs b i = Some k" for xs b
    using that
  proof (induction xs arbitrary: b)
    case (Cons x xs)
    obtain k' so where x: "x = (k', so)" by force
    with Cons.prems Cons.IH[of "b(so_id so \<mapsto> k')"]
    have "(\<exists>so. (k, so) \<in> set xs \<and> so_id so = i) \<or> (b(so_id so \<mapsto> k')) i = Some k" by simp
    then consider "\<exists>so. (k, so) \<in> set xs \<and> so_id so = i" | "(b(so_id so \<mapsto> k')) i = Some k" by blast
    then show ?case
    proof cases
      case 2
      with x show ?thesis by (cases "so_id so = i") auto
    qed auto
  qed simp
  from this[of placed Map.empty] assms show ?thesis by (auto simp: index_ids_def)
qed

lemma foldFillsLocked_keeps:
  assumes "foldFillsLocked s = Some s'" "wf_placed (sd_placed s)" "distinct (map fst (sd_fills s))"
  shows "wf_placed (sd_placed s') \<and> sd_fills s' = [] \<and> sd_ref s' = sd_ref s \<and> sd_DepthLevels s' = sd_DepthLevels s"
proof (cases "sd_fills s = []")
  case True
  with assms show ?thesis by (auto simp: foldFillsLocked_def)
next
  case False
  with assms(1) obtain placed where placed: "fold_fills (index_ids (sd_placed s)) (sd_fills s) (sd_placed s) = Some placed"
    and s': "s' = s\<lparr>sd_fills := [], sd_placed := placed\<rparr>"
    by (auto simp: foldFillsLocked_def bind_eq_Some_conv)
  have "owned (index_ids (sd_placed s)) (sd_fills s) (sd_placed s)"
    using assms(2,3) index_ids_owner by (intro ownedI) (auto simp: wf_placed_def)
  with fold_fills_wf[OF placed assms(2)] s' show ?thesis by simp
qed

subsection \<open>The first pass\<close>

text \<open>What a plan that is not in place does to the level it is about.\<close>

definition settled :: "(string, synthOrder) gomap \<Rightarrow> seed_plan \<Rightarrow> bool" where
  "settled placed p \<longleftrightarrow> in_place placed p = Some True"

definition to_place :: "(string, synthOrder) gomap \<Rightarrow> seed_plan \<Rightarrow> bool" where
  "to_place placed p \<longleftrightarrow> \<not> settled placed p \<and> 0 < Sign (pn_target p)"

definition retired :: "(string, synthOrder) gomap \<Rightarrow> seed_plan list \<Rightarrow> string \<Rightarrow> bool" where
  "retired placed ps k \<longleftrightarrow> (\<exists>p\<in>set ps. pn_key p = k \<and> pn_existed p \<and> \<not> settled placed p)"

lemma settled_cong: "map_of placed (pn_key p) = map_of placed' (pn_key p) \<Longrightarrow> settled placed p = settled placed' p"
  by (simp add: settled_def in_place_def)

lemma cancel_plan_effect:
  assumes "cancel_plan mt p (m, s, st, todo) = Some (None, m', s', st', todo')"
  shows "todo' = (if to_place (sd_placed s) p then todo @ [p] else todo) \<and> st_Skipped st' = st_Skipped st \<and>
    s' = (if pn_existed p \<and> \<not> settled (sd_placed s) p then s\<lparr>sd_placed := AList.delete (pn_key p) (sd_placed s)\<rparr> else s)"
proof -
  from assms obtain keep where keep: "in_place (sd_placed s) p = Some keep"
    by (auto simp: cancel_plan_def bind_eq_Some_conv)
  show ?thesis
  proof (cases keep)
    case True
    with assms keep show ?thesis by (auto simp: cancel_plan_def settled_def to_place_def)
  next
    case False
    with keep have ns: "\<not> settled (sd_placed s) p" by (simp add: settled_def)
    obtain res m1 where res: "(if pn_existed p then mt_CancelOrder mt m (sd_Instrument s) (pn_curID p)
        else (Inl ErrOrderNotFound, m)) = (res, m1)" by force
    with assms keep False ns show ?thesis
      by (auto simp: cancel_plan_def to_place_def Let_def split: sum.splits book_error.splits if_splits)
  qed
qed

lemma retired_Cons: "retired placed (p # ps) k \<longleftrightarrow>
    pn_key p = k \<and> pn_existed p \<and> \<not> settled placed p \<or> retired placed ps k"
  by (auto simp: retired_def)

lemma retired_key: "retired placed ps k \<Longrightarrow> k \<in> pn_key ` set ps"
  by (auto simp: retired_def)

lemma cancel_pass_effect:
  "cancel_pass mt ps (m, s, st, todo) = Some (None, m', s', st', todo') \<Longrightarrow> distinct (map pn_key ps) \<Longrightarrow>
   todo' = todo @ filter (to_place (sd_placed s)) ps \<and> st_Skipped st' = st_Skipped st \<and>
   (\<exists>placed. s' = s\<lparr>sd_placed := placed\<rparr> \<and> (wf_placed (sd_placed s) \<longrightarrow> wf_placed placed) \<and>
     (\<forall>k. map_of placed k = (if retired (sd_placed s) ps k then None else map_of (sd_placed s) k)))"
proof (induction ps arbitrary: m s st todo)
  case Nil
  then show ?case by (auto simp: retired_def intro: exI[of _ "sd_placed s"])
next
  case (Cons p ps)
  then obtain m1 s1 st1 todo1 where step: "cancel_plan mt p (m, s, st, todo) = Some (None, m1, s1, st1, todo1)"
    and rest: "cancel_pass mt ps (m1, s1, st1, todo1) = Some (None, m', s', st', todo')"
    by (auto simp: bind_eq_Some_conv split: option.splits)
  note eff = cancel_plan_effect[OF step]
  have other: "map_of (sd_placed s1) k = map_of (sd_placed s) k" if "k \<noteq> pn_key p" for k
    using eff that by (simp add: map_of_delete_eq)
  have diff: "pn_key q \<noteq> pn_key p" if "q \<in> set ps" for q using Cons.prems(2) that by (metis image_eqI distinct.simps(2) list.simps(9) set_map)
  have settled: "settled (sd_placed s1) q = settled (sd_placed s) q" if "q \<in> set ps" for q
    using other diff that by (intro settled_cong) simp
  then have todo: "filter (to_place (sd_placed s1)) ps = filter (to_place (sd_placed s)) ps"
    by (intro filter_cong) (auto simp: to_place_def)
  have ret: "retired (sd_placed s1) ps k = retired (sd_placed s) ps k" for k
    using settled by (auto simp: retired_def)
  from Cons.IH[OF rest] Cons.prems(2) obtain placed where ih:
    "todo' = todo1 @ filter (to_place (sd_placed s1)) ps" "st_Skipped st' = st_Skipped st1"
    "s' = s1\<lparr>sd_placed := placed\<rparr>" "wf_placed (sd_placed s1) \<longrightarrow> wf_placed placed"
    "\<And>k. map_of placed k = (if retired (sd_placed s1) ps k then None else map_of (sd_placed s1) k)"
    by auto
  have "s' = s\<lparr>sd_placed := placed\<rparr>" using ih(3) eff by auto
  moreover have "wf_placed (sd_placed s) \<longrightarrow> wf_placed placed" using ih(4) eff by (auto simp: wf_placed_delete)
  moreover have "map_of placed k = (if retired (sd_placed s) (p # ps) k then None else map_of (sd_placed s) k)" for k
    using ih(5)[of k, unfolded ret] eff by (auto simp: retired_Cons map_of_delete_eq)
  ultimately show ?case using ih(1,2) eff todo by auto
qed

subsection \<open>The second pass\<close>

lemma hook_trades_placed: "hook_trades ts s = Some s' \<Longrightarrow>
    sd_placed s' = sd_placed s \<and> sd_ref s' = sd_ref s \<and> (distinct (map fst (sd_fills s)) \<longrightarrow> distinct (map fst (sd_fills s')))"
proof (induction ts arbitrary: s)
  case (Cons t ts)
  have buffer: "sd_placed s2 = sd_placed s1 \<and> sd_ref s2 = sd_ref s1 \<and>
      (distinct (map fst (sd_fills s1)) \<longrightarrow> distinct (map fst (sd_fills s2)))"
    if "buffer_fill s1 oid v = Some s2" for s1 s2 oid v
    using that by (auto simp: buffer_fill_def bind_eq_Some_conv distinct_update split: if_splits)
  from Cons.prems obtain s1 where "seeder_OnTrade (Some t) s = Some s1" "hook_trades ts s1 = Some s'"
    by (auto simp: bind_eq_Some_conv)
  with Cons.IH[of s1] show ?case
    by (auto simp: seeder_OnTrade_def bind_eq_Some_conv split: if_splits dest!: buffer)
qed simp

lemma place_plan_effect:
  assumes "place_plan mt p (m, s, st) = Some (err, m', s', st')"
  shows "sd_ref s' = sd_ref s \<and> st_Skipped st' = st_Skipped st \<and>
    (distinct (map fst (sd_fills s)) \<longrightarrow> distinct (map fst (sd_fills s'))) \<and>
    (if err = None then \<exists>so. so_side so = pn_side p \<and> so_price so = pn_price p \<and>
        so_volume so = pn_target p \<and> sd_placed s' = AList.update (pn_key p) so (sd_placed s)
     else sd_placed s' = sd_placed s)"
proof -
  obtain oid s1 where n: "nextIDLocked s (pn_side p) (pn_price p) = (oid, s1)" by force
  then have s1: "sd_placed s1 = sd_placed s" "sd_ref s1 = sd_ref s" "sd_fills s1 = sd_fills s"
    by (auto simp: nextIDLocked_def Let_def)
  from assms n obtain pm m1 where pl: "mt_PlaceLimit mt m (synthetic_order s1 oid p) = Some (pm, m1)"
    by (auto simp: place_plan_def bind_eq_Some_conv)
  with assms n obtain s2 where h: "hook_trades (pm_trades pm) s1 = Some s2"
    by (auto simp: place_plan_def bind_eq_Some_conv)
  let ?so = "\<lparr>so_id = oid, so_side = pn_side p, so_price = pn_price p, so_volume = pn_target p\<rparr>"
  have eff: "s' = (if err = None then s2\<lparr>sd_placed := AList.update (pn_key p) ?so (sd_placed s2)\<rparr> else s2) \<and>
      st_Skipped st' = st_Skipped st"
    using assms n pl h by (auto simp: place_plan_def Let_def split: option.splits if_splits)
  show ?thesis
    using hook_trades_placed[OF h] s1 eff by (auto intro!: exI[of _ ?so])
qed

lemma place_pass_effect:
  "place_pass mt ps (m, s, st) = Some (None, m', s', st') \<Longrightarrow> distinct (map pn_key ps) \<Longrightarrow>
   sd_ref s' = sd_ref s \<and> st_Skipped st' = st_Skipped st \<and>
   (\<forall>p\<in>set ps. \<exists>so. map_of (sd_placed s') (pn_key p) = Some so \<and> so_volume so = pn_target p) \<and>
   (\<forall>k. k \<notin> pn_key ` set ps \<longrightarrow> map_of (sd_placed s') k = map_of (sd_placed s) k)"
proof (induction ps arbitrary: m s st)
  case (Cons p ps)
  then obtain m1 s1 st1 where step: "place_plan mt p (m, s, st) = Some (None, m1, s1, st1)"
    and rest: "place_pass mt ps (m1, s1, st1) = Some (None, m', s', st')"
    by (auto simp: bind_eq_Some_conv split: option.splits)
  from place_plan_effect[OF step] obtain so where so: "so_volume so = pn_target p"
    "sd_placed s1 = AList.update (pn_key p) so (sd_placed s)" "sd_ref s1 = sd_ref s" "st_Skipped st1 = st_Skipped st"
    by auto
  from Cons.IH[OF rest] Cons.prems(2) have ih: "sd_ref s' = sd_ref s1 \<and> st_Skipped st' = st_Skipped st1"
    "\<forall>p\<in>set ps. \<exists>so. map_of (sd_placed s') (pn_key p) = Some so \<and> so_volume so = pn_target p"
    "\<And>k. k \<notin> pn_key ` set ps \<Longrightarrow> map_of (sd_placed s') k = map_of (sd_placed s1) k"
    by auto
  have "pn_key p \<notin> pn_key ` set ps" using Cons.prems(2) by simp
  from ih(3)[OF this] so have "\<exists>so. map_of (sd_placed s') (pn_key p) = Some so \<and> so_volume so = pn_target p"
    by (simp add: map_of_update_eq)
  with ih so show ?case by (simp add: map_of_update_eq)
qed simp

definition keyed :: "seed_plan \<Rightarrow> bool" where
  "keyed p \<longleftrightarrow> two_sides (pn_side p) \<and> pn_key p = priceKey (pn_side p) (pn_price p)"

lemma place_pass_wf:
  "place_pass mt ps (m, s, st) = Some (err, m', s', st') \<Longrightarrow> wf_placed (sd_placed s) \<Longrightarrow> list_all keyed ps \<Longrightarrow>
   wf_placed (sd_placed s') \<and> sd_ref s' = sd_ref s \<and>
   (distinct (map fst (sd_fills s)) \<longrightarrow> distinct (map fst (sd_fills s')))"
proof (induction ps arbitrary: m s st)
  case (Cons p ps)
  then obtain err1 m1 s1 st1 where step: "place_plan mt p (m, s, st) = Some (err1, m1, s1, st1)"
    and rest: "(case err1 of Some e \<Rightarrow> Some (Some e, m1, s1, st1) | None \<Rightarrow> place_pass mt ps (m1, s1, st1)) = Some (err, m', s', st')"
    by (auto simp: bind_eq_Some_conv)
  note eff = place_plan_effect[OF step]
  have "wf_placed (sd_placed s1)"
    using eff Cons.prems(2,3) by (auto simp: wf_placed_update keyed_def split: if_splits)
  with Cons.IH[of m1 s1 st1] rest eff Cons.prems(3) show ?case
    by (cases err1) auto
qed simp

lemma place_pass_ref: "place_pass mt ps (m, s, st) = Some (err, m', s', st') \<Longrightarrow> sd_ref s' = sd_ref s"
proof (induction ps arbitrary: m s st)
  case (Cons p ps)
  then obtain err1 m1 s1 st1 where step: "place_plan mt p (m, s, st) = Some (err1, m1, s1, st1)"
    and rest: "(case err1 of Some e \<Rightarrow> Some (Some e, m1, s1, st1) | None \<Rightarrow> place_pass mt ps (m1, s1, st1)) = Some (err, m', s', st')"
    by (auto simp: bind_eq_Some_conv)
  with Cons.IH[of m1 s1 st1] place_plan_effect[OF step] show ?case by (cases err1) auto
qed simp

lemma distinct_clip: "wf_levels m \<Longrightarrow> distinct (map rl_Price (clip (sortedLevels m desc) n))"
  using distinct_sortedLevels[of m desc] by (simp add: clip_def Let_def distinct_take flip: take_map)

text \<open>With or without an error the first pass only forgets orders.\<close>

lemma cancel_pass_wf:
  "cancel_pass mt ps (m, s, st, todo) = Some (err, m', s', st', todo') \<Longrightarrow> wf_placed (sd_placed s) \<Longrightarrow>
   wf_placed (sd_placed s') \<and> sd_ref s' = sd_ref s \<and> sd_fills s' = sd_fills s \<and> set todo' \<subseteq> set todo \<union> set ps"
proof (induction ps arbitrary: m s st todo)
  case (Cons p ps)
  then obtain err1 m1 s1 st1 todo1 where step: "cancel_plan mt p (m, s, st, todo) = Some (err1, m1, s1, st1, todo1)"
    and rest: "(case err1 of Some e \<Rightarrow> Some (Some e, m1, s1, st1, todo1)
      | None \<Rightarrow> cancel_pass mt ps (m1, s1, st1, todo1)) = Some (err, m', s', st', todo')"
    by (auto simp: bind_eq_Some_conv)
  show ?case
  proof (cases err1)
    case None
    with cancel_plan_effect[of mt p m s st todo] step Cons.prems(2)
    have "wf_placed (sd_placed s1) \<and> sd_ref s1 = sd_ref s \<and> sd_fills s1 = sd_fills s \<and> set todo1 \<subseteq> set todo \<union> {p}"
      by (auto simp: wf_placed_delete)
    with Cons.IH[of m1 s1 st1 todo1] rest None show ?thesis by auto
  next
    case (Some e)
    with step have "s1 = s" "todo1 = todo"
      by (auto simp: cancel_plan_def bind_eq_Some_conv Let_def split: if_splits prod.splits sum.splits book_error.splits)
    with rest Some Cons.prems(2) show ?thesis by auto
  qed
qed simp

subsection \<open>Levels and plans\<close>

definition side_levels :: "side \<Rightarrow> rlevel list \<Rightarrow> (string, decimal \<times> side \<times> decimal) gomap \<Rightarrow> (string, decimal \<times> side \<times> decimal) gomap" where
  "side_levels sd = fold (\<lambda>l. AList.update (priceKey sd (rl_Price l)) (rl_Quantity l, sd, rl_Price l))"

lemma ref_levels_sides: "ref_levels bids asks = side_levels SideSell asks (side_levels SideBuy bids [])"
  by (simp add: ref_levels_def side_levels_def)

definition depth_level :: "side \<Rightarrow> rlevel list \<Rightarrow> rlevel list \<Rightarrow> decimal \<Rightarrow> rlevel option" where
  "depth_level sd bids asks px = find (\<lambda>l. rl_Price l = px) (if sd = SideBuy then bids else asks)"

lemma side_levels_at:
  "two_sides sd \<Longrightarrow> distinct (map rl_Price ls) \<Longrightarrow> two_sides sd' \<Longrightarrow>
   map_of (side_levels sd ls al) (priceKey sd' px) =
     (case if sd' = sd then find (\<lambda>l. rl_Price l = px) ls else None of
        Some l \<Rightarrow> Some (rl_Quantity l, sd, px) | None \<Rightarrow> map_of al (priceKey sd' px))"
proof (induction ls arbitrary: al)
  case (Cons l ls)
  have "find (\<lambda>l'. rl_Price l' = rl_Price l) ls = None"
    unfolding find_None_iff using Cons.prems(2) by (metis distinct.simps(2) image_eqI list.simps(9) set_map)
  with Cons show ?case
    by (auto simp: side_levels_def map_of_update_eq priceKey_inj split: option.splits)
qed (simp add: side_levels_def)

lemma ref_levels_at:
  assumes "two_sides sd" "distinct (map rl_Price bids)" "distinct (map rl_Price asks)"
  shows "map_of (ref_levels bids asks) (priceKey sd px) =
    map_option (\<lambda>l. (rl_Quantity l, sd, px)) (depth_level sd bids asks px)"
  using assms by (cases "sd = SideBuy")
    (auto simp: ref_levels_sides side_levels_at two_sides_def depth_level_def split: option.splits)

definition keyed_levels :: "(string, decimal \<times> side \<times> decimal) gomap \<Rightarrow> bool" where
  "keyed_levels al \<longleftrightarrow> distinct (map fst al) \<and> (\<forall>k q sd px. (k, q, sd, px) \<in> set al \<longrightarrow> two_sides sd \<and> k = priceKey sd px)"

lemma side_levels_keyed: "two_sides sd \<Longrightarrow> keyed_levels al \<Longrightarrow> keyed_levels (side_levels sd ls al)"
proof (induction ls arbitrary: al)
  case (Cons l ls)
  have "set (AList.update k v al) \<subseteq> insert (k, v) (set al)" for k v
    by (induction al) auto
  then have "keyed_levels (AList.update (priceKey sd (rl_Price l)) (rl_Quantity l, sd, rl_Price l) al)"
    using Cons.prems by (fastforce simp: keyed_levels_def distinct_update)
  with Cons show ?case by (simp add: side_levels_def)
qed (simp add: side_levels_def)

lemma ref_levels_keyed: "keyed_levels (ref_levels bids asks)"
  unfolding ref_levels_sides by (intro side_levels_keyed) (auto simp: two_sides_def keyed_levels_def)

lemma ref_plans_shape:
  "ref_plans alpha placed xs = Some ps \<Longrightarrow>
   map pn_key ps = map fst xs \<and>
   (\<forall>p\<in>set ps. \<exists>q. (pn_key p, q, pn_side p, pn_price p) \<in> set xs \<and>
     target_of alpha (case map_of placed (pn_key p) of None \<Rightarrow> Zero | Some so \<Rightarrow> so_volume so) q = Some (pn_target p) \<and>
     (pn_existed p \<longleftrightarrow> map_of placed (pn_key p) \<noteq> None))"
proof (induction xs arbitrary: ps)
  case (Cons x xs)
  obtain k q sd px where x: "x = (k, q, sd, px)" by (cases x) auto
  from Cons.prems x obtain p ps1 where p: "ref_plan alpha placed (k, q, sd, px) = Some p" "ref_plans alpha placed xs = Some ps1"
    "ps = p # ps1" by (auto simp: bind_eq_Some_conv)
  from p(1) have "pn_key p = k \<and> pn_side p = sd \<and> pn_price p = px \<and> (pn_existed p \<longleftrightarrow> map_of placed k \<noteq> None) \<and>
     target_of alpha (case map_of placed k of None \<Rightarrow> Zero | Some so \<Rightarrow> so_volume so) q = Some (pn_target p)"
    by (auto simp: ref_plan_def bind_eq_Some_conv Let_def)
  with Cons.IH[OF p(2)] p(3) x show ?case by fastforce
qed simp

lemma stale_plans_shape: "map pn_key (stale_plans refVol placed) = map fst (filter (\<lambda>(k, cur). map_of refVol k = None) placed)"
  "p \<in> set (stale_plans refVol placed) \<Longrightarrow> pn_existed p \<and> pn_target p = Zero \<and> map_of refVol (pn_key p) = None \<and>
     (\<exists>cur. (pn_key p, cur) \<in> set placed \<and> pn_side p = so_side cur \<and> pn_price p = so_price cur)"
  by (auto simp: stale_plans_def)

lemma fst_filter_notin: "k \<notin> fst ` set xs \<Longrightarrow> k \<notin> fst ` set (filter P xs)"
  by auto

lemma all_plans_keys:
  assumes "ref_plans alpha placed refVol = Some plans" "keyed_levels refVol" "wf_placed placed"
    and ps: "mset ps = mset (plans @ stale_plans refVol placed)"
  shows "distinct (map pn_key ps)" "list_all keyed ps"
proof -
  note shape = ref_plans_shape[OF assms(1)]
  have keys: "map pn_key (plans @ stale_plans refVol placed) =
      map fst refVol @ map fst (filter (\<lambda>(k, cur). map_of refVol k = None) placed)"
    using shape by (simp add: stale_plans_shape(1))
  have "distinct (map fst (filter (\<lambda>(k, cur). map_of refVol k = None) placed))"
    using assms(3) by (simp add: wf_placed_def distinct_map_filter)
  moreover have "k \<notin> fst ` set (filter (\<lambda>(k, cur). map_of refVol k = None) placed)" if "k \<in> fst ` set refVol" for k
    using that by (force simp: map_of_eq_None_iff)
  ultimately have "distinct (map pn_key (plans @ stale_plans refVol placed))"
    unfolding keys using assms(2) by (auto simp: keyed_levels_def)
  moreover have "mset (map pn_key ps) = mset (map pn_key (plans @ stale_plans refVol placed))"
    using ps by simp
  ultimately show "distinct (map pn_key ps)" using mset_eq_imp_distinct_iff by blast
  have "keyed p" if "p \<in> set plans" for p
    using shape that assms(2) unfolding keyed_levels_def keyed_def by blast
  moreover have "keyed p" if p: "p \<in> set (stale_plans refVol placed)" for p
  proof -
    from stale_plans_shape(2)[OF p] obtain cur where cur: "(pn_key p, cur) \<in> set placed" "pn_side p = so_side cur"
      "pn_price p = so_price cur" by blast
    with assms(3) have "map_of placed (pn_key p) = Some cur" by (simp add: wf_placed_def)
    with assms(3) cur show ?thesis unfolding wf_placed_def keyed_def by simp
  qed
  moreover have "set ps = set (plans @ stale_plans refVol placed)" using ps by (rule mset_eq_setD)
  ultimately show "list_all keyed ps" by (auto simp: list_all_iff)
qed

subsection \<open>A pass that snaps to the reference\<close>

definition level_quantity :: "(string, decimal \<times> side \<times> decimal) gomap \<Rightarrow> string \<Rightarrow> int" where
  "level_quantity refVol k = (case map_of refVol k of None \<Rightarrow> 0 | Some (q, _) \<Rightarrow> toBig q)"

definition mirrors :: "int \<Rightarrow> synthOrder option \<Rightarrow> bool" where
  "mirrors q e \<longleftrightarrow> (case e of None \<Rightarrow> q \<le> 0 | Some so \<Rightarrow> \<bar>toBig (so_volume so) - q\<bar> \<le> 10 ^ 9)"

lemma toBig_convergeEps: "toBig convergeEps = 10 ^ 9"
  by (simp add: toBig_eq convergeEps_def)

lemma settled_close:
  assumes "settled placed p" "map_of placed (pn_key p) = Some so"
  shows "mirrors (toBig (pn_target p)) (Some so)"
proof -
  from assms obtain d a where "Sub (pn_target p) (so_volume so) = Some d" "Abs d = Some a" "Lte a convergeEps"
    by (auto simp: settled_def in_place_def bind_eq_Some_conv split: if_splits)
  then show ?thesis
    by (auto simp: mirrors_def Sub_spec Abs_def Neg_spec Sign_spec fromBigChecked_Some le_toBig toBig_convergeEps
        split: if_splits)
qed

lemma target_of_one: "target_of float_one c q = Some q"
  by (simp add: target_of_def float_one_def)

lemma snap_plan:
  assumes "ref_plans float_one placed refVol = Some plans" "keyed_levels refVol" "wf_placed placed"
    and p: "p \<in> set (plans @ stale_plans refVol placed)"
  shows "toBig (pn_target p) = level_quantity refVol (pn_key p) \<and> (pn_existed p \<longleftrightarrow> map_of placed (pn_key p) \<noteq> None)"
proof (cases "p \<in> set plans")
  case True
  with ref_plans_shape[OF assms(1)] obtain q where "(pn_key p, q, pn_side p, pn_price p) \<in> set refVol"
    "pn_target p = q" "pn_existed p \<longleftrightarrow> map_of placed (pn_key p) \<noteq> None" by (auto simp: target_of_one)
  with assms(2) show ?thesis by (simp add: level_quantity_def keyed_levels_def)
next
  case False
  with p have "p \<in> set (stale_plans refVol placed)" by simp
  from stale_plans_shape(2)[OF this] obtain cur where st: "pn_existed p" "pn_target p = Zero"
    "map_of refVol (pn_key p) = None" "(pn_key p, cur) \<in> set placed" by blast
  from st(4) assms(3) have "map_of placed (pn_key p) = Some cur" by (simp add: wf_placed_def)
  with st show ?thesis by (simp add: level_quantity_def)
qed

lemma planned_keys:
  assumes "ref_plans alpha placed refVol = Some plans" "k \<notin> pn_key ` set (plans @ stale_plans refVol placed)"
  shows "map_of refVol k = None" "map_of placed k = None"
proof -
  have "pn_key ` set plans = fst ` set refVol"
    using ref_plans_shape[OF assms(1)] by (metis list.set_map)
  moreover have "k \<notin> pn_key ` set plans" using assms(2) by auto
  ultimately show refk: "map_of refVol k = None" by (simp add: map_of_eq_None_iff)
  show "map_of placed k = None"
  proof (rule ccontr)
    assume "map_of placed k \<noteq> None"
    then obtain cur where "(k, cur) \<in> set placed" by (auto dest: map_of_SomeD)
    with refk have "k \<in> fst ` set (filter (\<lambda>(k, cur). map_of refVol k = None) placed)" by force
    then have "k \<in> pn_key ` set (stale_plans refVol placed)"
      by (metis stale_plans_shape(1) list.set_map)
    with assms(2) show False by (simp add: image_Un)
  qed
qed

lemma passes_mirror:
  assumes plans: "ref_plans float_one (sd_placed s) refVol = Some plans" "keyed_levels refVol" "wf_placed (sd_placed s)"
    and ps: "mset ps = mset (plans @ stale_plans refVol (sd_placed s))"
    and cancel: "cancel_pass mt ps (m, s, st, []) = Some (None, m1, s1, st1, todo)"
    and place: "place_pass mt (slice_stable plan_before todo) (m1, s1, st1) = Some (None, m2, s2, st2)"
  shows "mirrors (level_quantity refVol k) (map_of (sd_placed s2) k)"
proof -
  let ?old = "sd_placed s"
  have dist: "distinct (map pn_key ps)" using all_plans_keys(1)[OF plans ps] .
  have set_ps: "set ps = set (plans @ stale_plans refVol ?old)" using ps by (rule mset_eq_setD)
  from cancel_pass_effect[OF cancel dist] have todo: "todo = filter (to_place ?old) ps"
    and old: "map_of (sd_placed s1) k = (if retired ?old ps k then None else map_of ?old k)" by auto
  have sorted_set: "set (slice_stable plan_before todo) = {p \<in> set ps. to_place ?old p}" by (auto simp: todo)
  have "distinct (map pn_key todo)" using dist by (simp add: todo distinct_map_filter)
  then have "distinct (map pn_key (slice_stable plan_before todo))"
    using mset_eq_imp_distinct_iff[of "map pn_key todo"] by (metis mset_map mset_slice_stable)
  note placed = place_pass_effect[OF place this, THEN conjunct2, THEN conjunct2, unfolded sorted_set]
  show ?thesis
  proof (cases "\<exists>p\<in>set ps. pn_key p = k")
    case False
    with planned_keys[OF plans(1), of k] set_ps have none: "map_of refVol k = None" "map_of ?old k = None" by auto
    with old have "map_of (sd_placed s1) k = None" by simp
    moreover have "k \<notin> pn_key ` {p \<in> set ps. to_place ?old p}" using False by auto
    ultimately have "map_of (sd_placed s2) k = None" using placed by simp
    with none show ?thesis by (simp add: mirrors_def level_quantity_def)
  next
    case True
    then obtain p where p: "p \<in> set ps" "pn_key p = k" by blast
    have uniq: "q = p" if "q \<in> set ps" "pn_key q = k" for q
      using dist p that by (simp add: distinct_map inj_on_def)
    have target: "toBig (pn_target p) = level_quantity refVol k" "pn_existed p \<longleftrightarrow> map_of ?old k \<noteq> None"
      using snap_plan[OF plans, of p] p set_ps by auto
    show ?thesis
    proof (cases "to_place ?old p")
      case True
      with placed p have "\<exists>so. map_of (sd_placed s2) k = Some so \<and> so_volume so = pn_target p" by auto
      with target show ?thesis by (auto simp: mirrors_def)
    next
      case False
      then have "k \<notin> pn_key ` {p \<in> set ps. to_place ?old p}" using uniq by auto
      with placed have new: "map_of (sd_placed s2) k = map_of (sd_placed s1) k" by blast
      have ret: "retired ?old ps k \<longleftrightarrow> pn_existed p \<and> \<not> settled ?old p"
        using p uniq unfolding retired_def by blast
      show ?thesis
      proof (cases "settled ?old p")
        case True
        then have "pn_existed p" by (auto simp: settled_def in_place_def split: if_splits)
        with target obtain so where so: "map_of ?old k = Some so" by blast
        with settled_close[OF True] p(2) have "mirrors (toBig (pn_target p)) (Some so)" by simp
        with new old ret True so target show ?thesis by simp
      next
        case ns: False
        with False have "level_quantity refVol k \<le> 0" using target by (simp add: to_place_def Sign_spec)
        moreover have "map_of (sd_placed s2) k = None" using new old ret ns target by auto
        ultimately show ?thesis by (simp add: mirrors_def)
      qed
    qed
  qed
qed

subsection \<open>The invariant of a seeder\<close>

definition seeder_inv :: "'m \<times> seeder \<Rightarrow> bool" where
  "seeder_inv = (\<lambda>(m, s). coherent (sd_ref s) \<and> wf_placed (sd_placed s) \<and> distinct (map fst (sd_fills s)))"

lemma Converge_cases:
  assumes "Converge mt shuffle m s alpha = Some ((err, st), m', s')" "coherent (sd_ref s)" "wf_placed (sd_placed s)"
    "distinct (map fst (sd_fills s))"
  obtains (skipped) "st_Skipped st" "err = None" "m' = m" "\<exists>r. coherent r \<and> s' = s\<lparr>sd_ref := r\<rparr>"
  | (passed) s0 refVol plans err1 m1 s1 st1 todo bids asks where
      "((bids, asks), sd_ref s0) = Depth (rebuild (sd_ref s)) (sd_DepthLevels s)" "refVol = ref_levels bids asks"
      "wf_placed (sd_placed s0)" "sd_fills s0 = []" "sd_DepthLevels s0 = sd_DepthLevels s" "coherent (sd_ref s0)"
      "ref_plans (float_max float_zero (float_min float_one alpha)) (sd_placed s0) refVol = Some plans"
      "cancel_pass mt (shuffle (plans @ stale_plans refVol (sd_placed s0))) (m, s0, no_stats, []) = Some (err1, m1, s1, st1, todo)"
      "case err1 of Some e \<Rightarrow> (err, st, m', s') = (Some e, st1, m1, s1)
       | None \<Rightarrow> place_pass mt (slice_stable plan_before todo) (m1, s1, st1) = Some (err, m', s', st)"
proof -
  obtain crossed r where cr: "(if Initialized (sd_ref s) then Crossed (sd_ref s) else (True, sd_ref s)) = (crossed, r)"
    by force
  then have r: "coherent r" "\<not> crossed \<Longrightarrow> r = rebuild (sd_ref s)"
    using assms(2) by (auto simp: Crossed_def Let_def coherent_rebuild split: if_splits)
  show ?thesis
  proof (cases crossed)
    case True
    with assms(1) cr r(1) show ?thesis by (intro skipped) (auto simp: Converge_def no_stats_def)
  next
    case False
    with assms(1) cr obtain sf where sf: "foldFillsLocked (s\<lparr>sd_ref := r\<rparr>) = Some sf"
      by (auto simp: Converge_def bind_eq_Some_conv)
    from foldFillsLocked_keeps[OF sf] assms(3,4)
    have sf': "wf_placed (sd_placed sf)" "sd_fills sf = []" "sd_ref sf = r" "sd_DepthLevels sf = sd_DepthLevels s" by auto
    obtain bids asks r' where d: "Depth r (sd_DepthLevels s) = ((bids, asks), r')" by (metis prod.exhaust)
    with r(1) have r': "r' = rebuild r" by (simp add: Depth_view)
    let ?s0 = "sf\<lparr>sd_ref := r'\<rparr>" and ?R = "ref_levels bids asks"
    from assms(1) cr False sf sf' d obtain plans where plans:
      "ref_plans (float_max float_zero (float_min float_one alpha)) (sd_placed sf) ?R = Some plans"
      by (auto simp: Converge_def bind_eq_Some_conv Let_def)
    with assms(1) cr False sf sf' d obtain err1 m1 s1 st1 todo where c:
      "cancel_pass mt (shuffle (plans @ stale_plans ?R (sd_placed sf))) (m, ?s0, no_stats, []) = Some (err1, m1, s1, st1, todo)"
      by (auto simp: Converge_def bind_eq_Some_conv Let_def)
    with assms(1) cr False sf sf' d plans have
      "case err1 of Some e \<Rightarrow> (err, st, m', s') = (Some e, st1, m1, s1)
       | None \<Rightarrow> place_pass mt (slice_stable plan_before todo) (m1, s1, st1) = Some (err, m', s', st)"
      by (cases err1) (auto simp: Converge_def bind_eq_Some_conv Let_def)
    then show ?thesis
      using sf' d r r' plans c False by (intro passed[of bids asks ?s0 ?R plans err1 m1 s1 st1 todo]) (auto simp: coherent_rebuild)
  qed
qed

definition permutes :: "('a list \<Rightarrow> 'a list) \<Rightarrow> bool" where
  "permutes shuffle \<longleftrightarrow> (\<forall>xs. mset (shuffle xs) = mset xs)"

lemma Converge_inv:
  assumes "Converge mt shuffle m s alpha = Some ((err, st), m', s')" "seeder_inv (m, s)" "permutes shuffle"
  shows "seeder_inv (m', s')"
proof -
  from assms(2) have inv: "coherent (sd_ref s)" "wf_placed (sd_placed s)" "distinct (map fst (sd_fills s))"
    by (auto simp: seeder_inv_def)
  from assms(1) inv show ?thesis
  proof (cases rule: Converge_cases)
    case skipped
    with inv show ?thesis by (auto simp: seeder_inv_def)
  next
    case (passed s0 refVol plans err1 m1 s1 st1 todo bids asks)
    have ps: "mset (shuffle (plans @ stale_plans refVol (sd_placed s0))) = mset (plans @ stale_plans refVol (sd_placed s0))"
      using assms(3) by (simp add: permutes_def)
    have keyed: "keyed_levels refVol" using passed(2) ref_levels_keyed by simp
    have "list_all keyed (shuffle (plans @ stale_plans refVol (sd_placed s0)))"
      using all_plans_keys(2)[OF passed(7) keyed passed(3) ps] .
    with cancel_pass_wf[OF passed(8) passed(3)] have c: "wf_placed (sd_placed s1)" "sd_ref s1 = sd_ref s0" "sd_fills s1 = []"
      "list_all keyed (slice_stable plan_before todo)" using passed(4) by (auto simp: list_all_iff)
    show ?thesis
    proof (cases err1)
      case None
      with passed(9) have "place_pass mt (slice_stable plan_before todo) (m1, s1, st1) = Some (err, m', s', st)" by simp
      from place_pass_wf[OF this c(1,4)] c passed(6) show ?thesis by (auto simp: seeder_inv_def)
    next
      case (Some e)
      with passed(6,9) c show ?thesis by (auto simp: seeder_inv_def)
    qed
  qed
qed

lemma clear_orders_inv: "clear_orders mt os (m, s) = (err, m', s') \<Longrightarrow> seeder_inv (m, s) \<Longrightarrow> seeder_inv (m', s')"
proof (induction os arbitrary: m s)
  case (Cons x os)
  obtain k cur where x: "x = (k, cur)" by force
  obtain res m1 where res: "mt_CancelOrder mt m (sd_Instrument s) (so_id cur) = (res, m1)" by force
  have "seeder_inv (m1, s\<lparr>sd_placed := AList.delete k (sd_placed s)\<rparr>)" "seeder_inv (m1, s)"
    using Cons.prems(2) by (auto simp: seeder_inv_def wf_placed_delete)
  with Cons x res show ?case by (auto split: sum.splits book_error.splits)
qed simp

text \<open>What happens to a seeder: frames of the reference, trades of users that move the engine, passes
  of any strength and clearing.\<close>

datatype 'm seeder_op = RefFrame "lob_snapshot option" | UserTrades 'm "trade list" | Pass float64 | ClearAll

fun seeder_step :: "'m matcher \<Rightarrow> (seed_plan list \<Rightarrow> seed_plan list) \<Rightarrow> 'm seeder_op \<Rightarrow> 'm \<times> seeder \<Rightarrow> ('m \<times> seeder) option" where
  "seeder_step mt shuffle (RefFrame f) (m, s) =
     do { (_, r) \<leftarrow> book_Apply (sd_ref s) f; Some (m, s\<lparr>sd_ref := r\<rparr>) }"
| "seeder_step mt shuffle (UserTrades m' ts) (m, s) = do { s \<leftarrow> hook_trades ts s; Some (m', s) }"
| "seeder_step mt shuffle (Pass alpha) (m, s) = map_option snd (Converge mt shuffle m s alpha)"
| "seeder_step mt shuffle ClearAll (m, s) = Some (snd (seeder_Clear mt m s))"

lemma seeder_step_inv:
  assumes "seeder_inv ms" "permutes shuffle" "seeder_step mt shuffle x ms = Some ms'"
  shows "seeder_inv ms'"
proof -
  obtain m s where ms: "ms = (m, s)" by force
  show ?thesis
  proof (cases x)
    case (RefFrame f)
    with assms ms show ?thesis by (auto simp: seeder_inv_def bind_eq_Some_conv coherent_Apply)
  next
    case (UserTrades m' ts)
    with assms ms show ?thesis by (auto simp: seeder_inv_def bind_eq_Some_conv dest: hook_trades_placed)
  next
    case (Pass alpha)
    with assms ms Converge_inv show ?thesis by fastforce
  next
    case ClearAll
    obtain err m' s' where cl: "clear_orders mt (sd_placed s) (m, s) = (err, m', s')" by (metis prod.exhaust)
    with ClearAll assms(3) ms have "ms' = (m', s')" by (simp add: seeder_Clear_def)
    with clear_orders_inv[OF cl] assms(1) ms show ?thesis by simp
  qed
qed

interpretation seeder: invariant_machine "seeder_step mt shuffle" "\<lambda>_. permutes shuffle" seeder_inv
  for mt :: "'m matcher" and shuffle
  by unfold_locales (rule seeder_step_inv)

lemma seeder_run_inv:
  assumes "run_ops (seeder_step mt shuffle) ops (m0, NewSeeder (NewBook i e) inst n) = Some ms" "permutes shuffle"
  shows "seeder_inv ms"
proof (rule seeder.run_inv[OF _ _ assms(1)])
  show "seeder_inv (m0, NewSeeder (NewBook i e) inst n)"
    by (simp add: seeder_inv_def NewSeeder_def coherent_new)
qed (simp add: list_all_iff assms(2))

subsection \<open>Properties of the seeder\<close>


definition ex_matcher :: engine where
  "ex_matcher = engine_New (NewOrderBook int [''BTC'']) (Validate [])"

definition ex_seeder :: seeder where
  "ex_seeder = (NewSeeder (NewBook ''BTC'' ''X'') ''BTC'' 5)\<lparr>sd_ref := (NewBook ''BTC'' ''X'')
     \<lparr>rb_bids := [(ex_two, \<lparr>rl_Price = ex_two, rl_Quantity = ex_three, rl_OrderCount = 0\<rparr>)], rb_initialized := True,
      rb_lastSeq := 9, rb_lastUpdate := 1, rb_dirty := True\<rparr>\<rparr>"

lemma ex_seeder_run: "run_ops (seeder_step engine_matcher rev) [RefFrame (Some (ex_frame True 9 [ex_level ''2'' ''3''] []))]
      (ex_matcher, NewSeeder (NewBook ''BTC'' ''X'') ''BTC'' 5) = Some (ex_matcher, ex_seeder)"
  by (simp add: ex_seeder_def NewSeeder_def ex_frame_def book_Apply_def ex_quotes ex_sign ex_toBig stamp_def NewBook_def)


lemma ex_place: "\<exists>pm e. mt_PlaceLimit engine_matcher ex_matcher \<lparr>ord_ID = oid, ord_Instrument = ''BTC'', ord_Price = ex_two, ord_Volume = ex_three,
      ord_Side = SideBuy, ord_IsMarket = False, ord_Metadata = md\<rparr> = Some (pm, e) \<and> pm_trades pm = [] \<and> pm_error pm = None"
  by (simp add: engine_matcher_def PlaceLimit_def ex_matcher_def engine_New_def Validate_def Snapshot_def aggregateLevels_def
      append_log_def NewOrderBook_def empty_book_def book_eval ex_three_def ex_two_def Zero_def)

lemmas ex_pass = Reconcile_def Converge_def Initialized_def Crossed_def rebuild_def Depth_def Let_def ex_seeder_def NewSeeder_def
  NewBook_def sortedLevels_def foldFillsLocked_def clip_def ref_levels_def ref_plan_def target_of_def float_max_def
  float_min_def float_one_def float_zero_def stale_plans_def cancel_plan_def in_place_def ex_sign ex_toBig place_plan_def
  nextIDLocked_def synthetic_order_def no_stats_def

lemma ex_reconcile: "\<exists>st m' s'. Reconcile engine_matcher rev ex_matcher ex_seeder = Some ((None, st), m', s') \<and> \<not> st_Skipped st \<and>
    sd_ref s' = rebuild (sd_ref ex_seeder)"
proof -
  let ?oid = "idPrefix ex_seeder @ priceKey SideBuy ex_two @ ''#'' @ nat_string (unat (1::u64))"
  from ex_place obtain pm e where "mt_PlaceLimit engine_matcher ex_matcher \<lparr>ord_ID = ?oid, ord_Instrument = ''BTC'',
    ord_Price = ex_two, ord_Volume = ex_three, ord_Side = SideBuy, ord_IsMarket = False,
    ord_Metadata = [MetadataKey \<mapsto> MetadataValue]\<rparr> = Some (pm, e)"
    "pm_trades pm = []" "pm_error pm = None" by blast
  then show ?thesis by (simp add: ex_pass idPrefix_def)
qed


end
