(* ===== verification/BinanceAuth.thy ===== *)
theory BinanceAuth
  imports BinanceEdge
begin

text \<open>
  \<^verbatim>\<open>internal/api/binance/auth.go\<close>: the check of a signed request. A request is its method, its raw query, its body
  (none when there is none or reading fails), its key header and its decoded parameters. The hexadecimal
  HMAC of a text under the configured secret is an argument; the clock is in milliseconds.
\<close>

subsection \<open>Data\<close>

definition maxSignedBody :: nat where "maxSignedBody = 1048576"
definition defaultRecvWindow :: int where "defaultRecvWindow = 5000"
definition maxRecvWindow :: int where "maxRecvWindow = 60000"

record auth_request =
  aq_Method :: string
  aq_Query :: string
  aq_Body :: "string option"
  aq_APIKey :: string
  aq_Form :: "string \<Rightarrow> string"

record authenticator =
  au_apiKey :: string
  au_mac :: "string \<Rightarrow> string"

definition signature_key :: string where "signature_key = ''signature=''"

definition errBadKeyFormat :: api_error where
  "errBadKeyFormat = \<lparr>ae_Code = -2014, ae_Msg = ''API-key format invalid.'', ae_status = 401\<rparr>"

definition errRejectedKey :: api_error where
  "errRejectedKey = \<lparr>ae_Code = -2015, ae_Msg = ''Invalid API-key, IP, or permissions for action.'', ae_status = 401\<rparr>"

definition errInvalidSignature :: api_error where
  "errInvalidSignature = \<lparr>ae_Code = -1022, ae_Msg = ''Signature for this request is not valid.'', ae_status = 400\<rparr>"

definition errRecvWindow :: api_error where
  "errRecvWindow = \<lparr>ae_Code = -1100, ae_Msg = ''recvWindow must be less than 60000.'', ae_status = 400\<rparr>"

definition errInvalidTimestamp :: api_error where
  "errInvalidTimestamp =
     \<lparr>ae_Code = -1021, ae_Msg = ''Timestamp for this request is outside of the recvWindow.'', ae_status = 400\<rparr>"

subsection \<open>The checks\<close>

definition VerifyAPIKey :: "authenticator \<Rightarrow> auth_request \<Rightarrow> api_error option" where
  "VerifyAPIKey a r =
     (if aq_APIKey r = [] then Some errBadKeyFormat
      else if aq_APIKey r \<noteq> au_apiKey a then Some errRejectedKey
      else None)"

definition signedPayload :: "auth_request \<Rightarrow> string" where
  "signedPayload r =
     (case aq_Body r of None \<Rightarrow> aq_Query r
      | Some body \<Rightarrow> if aq_Method r = ''GET'' then aq_Query r else aq_Query r @ take maxSignedBody body)"

text \<open>\<^verbatim>\<open>strings.LastIndex\<close> for a key that is not empty.\<close>

fun LastIndex :: "string \<Rightarrow> string \<Rightarrow> nat option" where
  "LastIndex [] key = None"
| "LastIndex (c # cs) key =
     (case LastIndex cs key of
        Some i \<Rightarrow> Some (Suc i)
      | None \<Rightarrow> if take (length key) (c # cs) = key then Some 0 else None)"

definition trim_amps :: "string \<Rightarrow> string" where
  "trim_amps s = rev (dropWhile (\<lambda>c. c = CHR ''&'') (rev s))"

definition splitSignature :: "string \<Rightarrow> (string \<times> string) option" where
  "splitSignature raw =
     (case LastIndex raw signature_key of
        None \<Rightarrow> None
      | Some idx \<Rightarrow>
          let sig = takeWhile (\<lambda>c. c \<noteq> CHR ''&'') (drop (idx + length signature_key) raw);
              covered = trim_amps (take idx raw)
          in if sig = [] then None else Some (covered, sig))"

definition recv_window :: "auth_request \<Rightarrow> api_error + i64" where
  "recv_window r =
     (let rw = aq_Form r ''recvWindow''
      in if rw = [] then Inr (word_of_int defaultRecvWindow)
         else case Atoi rw of
           None \<Rightarrow> Inl (errIllegalParam ''recvWindow'')
         | Some v \<Rightarrow> if v > maxRecvWindow then Inl errRecvWindow else Inr (word_of_int v))"

definition checkTimestamp :: "i64 \<Rightarrow> auth_request \<Rightarrow> api_error option" where
  "checkTimestamp nowMs r =
     (let tsStr = aq_Form r ''timestamp''
      in if tsStr = [] then Some (errMandatoryParam ''timestamp'')
         else case Atoi tsStr of
           None \<Rightarrow> Some (errIllegalParam ''timestamp'')
         | Some tsMs \<Rightarrow>
            (case recv_window r of
               Inl e \<Rightarrow> Some e
             | Inr recv \<Rightarrow>
                 let diff = nowMs - word_of_int tsMs
                 in if sint diff > sint recv \<or> sint diff < -1000 then Some errInvalidTimestamp else None))"

definition Verify :: "authenticator \<Rightarrow> i64 \<Rightarrow> auth_request \<Rightarrow> api_error option" where
  "Verify a nowMs r =
     (case VerifyAPIKey a r of
        Some e \<Rightarrow> Some e
      | None \<Rightarrow>
         (case splitSignature (signedPayload r) of
            None \<Rightarrow> Some errInvalidSignature
          | Some (covered, sig) \<Rightarrow>
              if ToLower sig \<noteq> au_mac a covered then Some errInvalidSignature else checkTimestamp nowMs r))"

subsection \<open>What a signature covers\<close>

text \<open>Where a key occurs.\<close>

definition occurs :: "string \<Rightarrow> string \<Rightarrow> nat \<Rightarrow> bool" where
  "occurs key s i \<longleftrightarrow> take (length key) (drop i s) = key"

lemma occurs_Cons: "occurs key (c # cs) (Suc i) = occurs key cs i" "occurs key s 0 \<longleftrightarrow> take (length key) s = key"
  by (simp_all add: occurs_def)

lemma LastIndex_None: "LastIndex s key = None \<longleftrightarrow> (\<forall>j < length s. \<not> occurs key s j)"
  by (induction s) (auto simp: occurs_Cons All_less_Suc2 split: option.splits)

lemma LastIndex_Some:
  "LastIndex s key = Some i \<longleftrightarrow> i < length s \<and> occurs key s i \<and> (\<forall>j < length s. i < j \<longrightarrow> \<not> occurs key s j)"
proof (induction s arbitrary: i)
  case (Cons c cs)
  show ?case
  proof (cases "LastIndex cs key")
    case None
    then have "\<not> occurs key (c # cs) (Suc j)" if "j < length cs" for j using that by (simp add: LastIndex_None occurs_Cons)
    with None show ?thesis by (cases i) (auto simp: occurs_Cons less_Suc_eq_0_disj)
  next
    case (Some k)
    with Cons.IH[of k] have k: "k < length cs" "occurs key cs k" "\<forall>j < length cs. k < j \<longrightarrow> \<not> occurs key cs j" by auto
    show ?thesis
    proof (cases i)
      case 0
      with Some k(1,2) show ?thesis by (auto simp: occurs_Cons(1) dest!: spec[of _ "Suc k"])
    next
      case (Suc i')
      with Some Cons.IH[of i'] show ?thesis by (auto simp: occurs_Cons less_Suc_eq_0_disj)
    qed
  qed
qed simp

text \<open>The key begins with a letter that it does not have again, so that it cannot overlap itself.\<close>

lemma occurs_signature: "occurs signature_key s i \<longleftrightarrow> (\<exists>x y. s = x @ signature_key @ y \<and> length x = i)"
proof
  assume "occurs signature_key s i"
  then have t: "take (length signature_key) (drop i s) = signature_key" by (simp add: occurs_def)
  then have "i \<le> length s" by (cases "i \<le> length s") (auto simp: signature_key_def)
  moreover have "drop i s = signature_key @ drop (length signature_key) (drop i s)"
    using append_take_drop_id[of "length signature_key" "drop i s"] unfolding t by (rule sym)
  then have "s = take i s @ signature_key @ drop (length signature_key) (drop i s)"
    using append_take_drop_id[of i s] by (simp del: append_take_drop_id)
  ultimately show "\<exists>x y. s = x @ signature_key @ y \<and> length x = i"
    by (intro exI[of _ "take i s"] exI[of _ "drop (length signature_key) (drop i s)"]) simp
qed (auto simp: occurs_def)

lemma occurs_inside: "0 < j \<Longrightarrow> j < length signature_key \<Longrightarrow> \<not> occurs signature_key (signature_key @ t) j"
proof -
  assume "0 < j" "j < length signature_key"
  then have "j \<in> {1, 2, 3, 4, 5, 6, 7, 8, 9}" by (auto simp: signature_key_def)
  then show ?thesis by (auto simp: occurs_def signature_key_def numeral_eq_Suc)
qed

lemma occurs_append: "occurs key (x @ s) (length x + j) = occurs key s j"
  by (simp add: occurs_def)

lemma LastIndex_split:
  "LastIndex s signature_key = Some i \<longleftrightarrow>
   (\<exists>x t. s = x @ signature_key @ t \<and> length x = i \<and> LastIndex t signature_key = None)"
proof
  assume l: "LastIndex s signature_key = Some i"
  then have "occurs signature_key s i" by (simp add: LastIndex_Some)
  then obtain x t where s: "s = x @ signature_key @ t" "length x = i" by (auto simp: occurs_signature)
  have "\<not> occurs signature_key t j" if "j < length t" for j
  proof -
    have "\<not> occurs signature_key s (length x + (length signature_key + j))"
      using l that s by (auto simp: LastIndex_Some) (simp add: signature_key_def)
    then show ?thesis unfolding s(1) occurs_append .
  qed
  then have "LastIndex t signature_key = None" by (simp add: LastIndex_None)
  with s show "\<exists>x t. s = x @ signature_key @ t \<and> length x = i \<and> LastIndex t signature_key = None" by blast
next
  assume "\<exists>x t. s = x @ signature_key @ t \<and> length x = i \<and> LastIndex t signature_key = None"
  then obtain x t where s: "s = x @ signature_key @ t" "length x = i" "LastIndex t signature_key = None" by blast
  have "\<not> occurs signature_key s j" if "i < j" "j < length s" for j
  proof -
    define k where "k = j - i"
    with that(1) s(2) have k: "j = length x + k" "0 < k" by simp_all
    show ?thesis
    proof (cases "k < length signature_key")
      case True
      then show ?thesis unfolding s(1) k(1) occurs_append by (rule occurs_inside[OF k(2)])
    next
      case False
      then obtain m where m: "k = length signature_key + m" by (metis le_Suc_ex not_less)
      with that(2) s have "m < length t" by (simp add: k)
      with s(3) show ?thesis unfolding s(1) k(1) occurs_append m by (simp add: LastIndex_None)
    qed
  qed
  moreover have "occurs signature_key s i" using s by (auto simp: occurs_signature)
  moreover have "i < length s" using s by (simp add: signature_key_def)
  ultimately show "LastIndex s signature_key = Some i" by (simp add: LastIndex_Some)
qed

text \<open>The text in front of the last signature parameter, any separators, the signature, and whatever follows.\<close>

definition signature_parts :: "string \<Rightarrow> string \<Rightarrow> nat \<Rightarrow> string \<Rightarrow> string \<Rightarrow> bool" where
  "signature_parts payload covered n sig rest \<longleftrightarrow>
     payload = covered @ replicate n (CHR ''&'') @ signature_key @ sig @ rest \<and>
     \<not> (covered \<noteq> [] \<and> last covered = CHR ''&'') \<and> sig \<noteq> [] \<and> CHR ''&'' \<notin> set sig \<and> \<not> (rest \<noteq> [] \<and> hd rest \<noteq> CHR ''&'') \<and>
     LastIndex (sig @ rest) signature_key = None"

lemma trim_amps_split: "\<exists>n. s = trim_amps s @ replicate n (CHR ''&'') \<and> \<not> (trim_amps s \<noteq> [] \<and> last (trim_amps s) = CHR ''&'')"
proof -
  let ?P = "\<lambda>c. c = CHR ''&''"
  have "takeWhile ?P (rev s) = replicate (length (takeWhile ?P (rev s))) (CHR ''&'')"
    by (rule replicate_eqI) (auto dest: set_takeWhileD)
  then have "s = trim_amps s @ replicate (length (takeWhile ?P (rev s))) (CHR ''&'')"
    by (metis (no_types, lifting) rev_append rev_replicate rev_rev_ident takeWhile_dropWhile_id trim_amps_def)
  moreover have "last (trim_amps s) \<noteq> CHR ''&''" if "trim_amps s \<noteq> []"
    using that hd_dropWhile[of ?P "rev s"] by (simp add: trim_amps_def last_rev)
  ultimately show ?thesis by blast
qed

lemma trim_amps_append: "\<not> (s \<noteq> [] \<and> last s = CHR ''&'') \<Longrightarrow> trim_amps (s @ replicate n (CHR ''&'')) = s"
proof -
  assume s: "\<not> (s \<noteq> [] \<and> last s = CHR ''&'')"
  have "dropWhile (\<lambda>c. c = CHR ''&'') (replicate n (CHR ''&'') @ rev s) = rev s"
    using s by (cases "rev s") (auto simp: dropWhile_append hd_rev[symmetric])
  then show ?thesis by (simp add: trim_amps_def)
qed

lemma takeWhile_sig: "CHR ''&'' \<notin> set sig \<Longrightarrow> \<not> (rest \<noteq> [] \<and> hd rest \<noteq> CHR ''&'') \<Longrightarrow>
    takeWhile (\<lambda>c. c \<noteq> CHR ''&'') (sig @ rest) = sig"
  by (subst takeWhile_append2) (auto simp: takeWhile_eq_Nil_iff)

lemma splitSignature_exact: "splitSignature raw = Some (covered, sig) \<longleftrightarrow> (\<exists>n rest. signature_parts raw covered n sig rest)"
proof
  assume "splitSignature raw = Some (covered, sig)"
  then obtain i where i: "LastIndex raw signature_key = Some i" "sig = takeWhile (\<lambda>c. c \<noteq> CHR ''&'') (drop (i + length signature_key) raw)"
    "covered = trim_amps (take i raw)" "sig \<noteq> []"
    by (auto simp: splitSignature_def Let_def split: option.splits if_splits)
  from i(1) obtain x t where raw: "raw = x @ signature_key @ t" "length x = i" "LastIndex t signature_key = None"
    by (auto simp: LastIndex_split)
  from i(2,3) raw have parts: "sig = takeWhile (\<lambda>c. c \<noteq> CHR ''&'') t" "covered = trim_amps x" by simp_all
  obtain n where n: "x = covered @ replicate n (CHR ''&'')" "\<not> (covered \<noteq> [] \<and> last covered = CHR ''&'')"
    using trim_amps_split[of x] parts(2) by blast
  let ?rest = "dropWhile (\<lambda>c. c \<noteq> CHR ''&'') t"
  have "t = sig @ ?rest" unfolding parts(1) by simp
  moreover have "CHR ''&'' \<notin> set sig" unfolding parts(1) by (auto dest: set_takeWhileD)
  moreover have "\<not> (?rest \<noteq> [] \<and> hd ?rest \<noteq> CHR ''&'')" using hd_dropWhile by blast
  ultimately have "signature_parts raw covered n sig ?rest"
    using n raw i(4) by (simp add: signature_parts_def)
  then show "\<exists>n rest. signature_parts raw covered n sig rest" by blast
next
  assume "\<exists>n rest. signature_parts raw covered n sig rest"
  then obtain n rest where p: "signature_parts raw covered n sig rest" by blast
  let ?x = "covered @ replicate n (CHR ''&'')"
  have "LastIndex raw signature_key = Some (length ?x)"
    unfolding LastIndex_split using p by (intro exI[of _ ?x] exI[of _ "sig @ rest"]) (simp add: signature_parts_def)
  moreover have "raw = ?x @ signature_key @ sig @ rest" using p by (simp add: signature_parts_def)
  then have "drop (length ?x + length signature_key) raw = sig @ rest" "take (length ?x) raw = ?x" by simp_all
  ultimately show "splitSignature raw = Some (covered, sig)"
    using p takeWhile_sig[of sig rest] trim_amps_append[of covered n] by (simp add: splitSignature_def Let_def signature_parts_def)
qed

text \<open>C29: A request passes exactly when it carries the configured key, the text in front of its last signature parameter has that
  signature, and its time is in order. What follows the signature is covered by nothing.\<close>

theorem request_accepted_exactly:
  "Verify a nowMs r = None \<longleftrightarrow> aq_APIKey r \<noteq> [] \<and> aq_APIKey r = au_apiKey a \<and>
     (\<exists>covered n sig rest. signature_parts (signedPayload r) covered n sig rest \<and> ToLower sig = au_mac a covered) \<and>
     checkTimestamp nowMs r = None"
proof (cases "splitSignature (signedPayload r)")
  case None
  then have "\<not> signature_parts (signedPayload r) covered n sig rest" for covered n sig rest
    using splitSignature_exact by (metis option.distinct(1))
  with None show ?thesis by (auto simp: Verify_def VerifyAPIKey_def)
next
  case (Some p)
  obtain covered sig where p: "p = (covered, sig)" by fastforce
  have "(\<exists>n rest. signature_parts (signedPayload r) s' n g rest) \<longleftrightarrow> s' = covered \<and> g = sig" for s' g
    using Some p splitSignature_exact[of "signedPayload r" s' g] by auto
  then have "(\<exists>s' n g rest. signature_parts (signedPayload r) s' n g rest \<and> ToLower g = au_mac a s') \<longleftrightarrow> ToLower sig = au_mac a covered"
    by metis
  with Some p show ?thesis by (auto simp: Verify_def VerifyAPIKey_def)
qed

text \<open>So parameters can be added behind the signature of an accepted request.\<close>

lemma unsigned_tail_accepted:
  assumes "signature_parts raw covered n sig rest" "LastIndex (sig @ rest @ ''&'' @ extra) signature_key = None"
  shows "splitSignature (raw @ ''&'' @ extra) = splitSignature raw"
proof -
  from assms have "signature_parts (raw @ ''&'' @ extra) covered n sig (rest @ ''&'' @ extra)"
    by (auto simp: signature_parts_def hd_append)
  with assms(1) show ?thesis using splitSignature_exact by metis
qed

lemma within_window:
  fixes nowMs :: i64
  assumes "0 \<le> sint nowMs" "sint nowMs < 2 ^ 62" "- (2 ^ 63) \<le> ts" "ts < 2 ^ 63" "recv < 2 ^ 63"
  shows "\<not> (sint (nowMs - word_of_int ts) > recv \<or> sint (nowMs - word_of_int ts) < - 1000) \<longleftrightarrow>
    sint nowMs - recv \<le> ts \<and> ts \<le> sint nowMs + 1000"
proof -
  have d: "sint (nowMs - word_of_int ts) = signed_take_bit 63 (sint nowMs - ts)"
    using assms(3,4) by (simp add: sint_word_ariths signed_of_int signed_take_bit_int_eq_self)
  show ?thesis
  proof (cases "sint nowMs - ts < 2 ^ 63")
    case True
    then have "signed_take_bit 63 (sint nowMs - ts) = sint nowMs - ts"
      using assms by (intro signed_take_bit_int_eq_self) auto
    with d show ?thesis by auto
  next
    case False
    define x where "x = sint nowMs - ts - 2 ^ 64"
    have z: "(18446744073709551616 :: i64) = 0" by simp
    have "nowMs - word_of_int ts = word_of_int x" by (simp add: x_def z)
    moreover have "sint (word_of_int x :: i64) = x"
    proof -
      have "- (2 ^ 63) \<le> x" "x < 2 ^ 63" using assms False by (auto simp: x_def)
      then show ?thesis by (simp add: signed_of_int signed_take_bit_int_eq_self)
    qed
    ultimately have "sint (nowMs - word_of_int ts) = x" by (simp only:)
    moreover have "x < - 1000" using assms False by (auto simp: x_def)
    ultimately show ?thesis using assms False by auto
  qed
qed

text \<open>The check of the time accepts exactly the numbers from the window before to one second after the server's time, although
  the difference is computed with 64 bits.\<close>

theorem timestamp_window_exact:
  assumes "0 \<le> sint nowMs" "sint nowMs < 2 ^ 62"
  shows "checkTimestamp nowMs r = None \<longleftrightarrow>
    (\<exists>ts recv. Atoi (aq_Form r ''timestamp'') = Some ts \<and> recv_window r = Inr recv \<and>
       sint nowMs - sint recv \<le> ts \<and> ts \<le> sint nowMs + 1000)"
proof (cases "Atoi (aq_Form r ''timestamp'')")
  case None
  then show ?thesis by (simp add: checkTimestamp_def Let_def)
next
  case (Some ts)
  then have form: "aq_Form r ''timestamp'' \<noteq> []" by (auto simp: Atoi_def)
  have ts: "- (2 ^ 63) \<le> ts" "ts < 2 ^ 63" using Some by (auto simp: Atoi_def Let_def split: if_splits)
  show ?thesis
  proof (cases "recv_window r")
    case (Inl e)
    with Some form show ?thesis by (simp add: checkTimestamp_def Let_def)
  next
    case (Inr recv)
    have "sint recv < 2 ^ 63" using sint_lt[of recv] by simp
    with within_window[OF assms ts] Some Inr form show ?thesis by (auto simp: checkTimestamp_def Let_def)
  qed
qed

definition exa_request :: auth_request where
  "exa_request = \<lparr>aq_Method = ''GET'', aq_Query = ''a=1&signature=AB&b=2'', aq_Body = None, aq_APIKey = ''k'',
     aq_Form = (\<lambda>p. if p = ''timestamp'' then ''7'' else [])\<rparr>"

definition exa_server :: authenticator where
  "exa_server = \<lparr>au_apiKey = ''k'', au_mac = (\<lambda>t. if t = ''a=1'' then ''ab'' else [])\<rparr>"

lemma exa_atoi: "Atoi ''7'' = Some 7"
  by (simp add: Atoi_def isDigit_def digit_value_def Let_def)

lemma exa_form: "aq_Form exa_request ''timestamp'' = ''7''"
  by (simp add: exa_request_def)

lemma exa_recv: "recv_window exa_request = Inr 5000"
  by (simp add: recv_window_def exa_request_def defaultRecvWindow_def)

theorem timestamp_window_exact_witness: "checkTimestamp 1 exa_request = None"
proof -
  have "\<exists>ts recv. Atoi (aq_Form exa_request ''timestamp'') = Some ts \<and> recv_window exa_request = Inr recv \<and>
      sint (1 :: i64) - sint recv \<le> ts \<and> ts \<le> sint (1 :: i64) + 1000"
    by (simp add: exa_recv exa_form exa_atoi)
  with timestamp_window_exact[of 1 exa_request] show ?thesis by simp
qed

theorem request_accepted_exactly_witness: "Verify exa_server 1 exa_request = None"
proof -
  have parts: "signature_parts (signedPayload exa_request) ''a=1'' 1 ''AB'' ''&b=2''"
    by (simp add: signature_parts_def signedPayload_def exa_request_def signature_key_def)
  have time: "checkTimestamp 1 exa_request = None"
    by (simp add: checkTimestamp_def exa_recv exa_form exa_atoi)
  show ?thesis
    unfolding request_accepted_exactly
  proof (intro conjI exI)
    show "signature_parts (signedPayload exa_request) ''a=1'' 1 ''AB'' ''&b=2''" by (rule parts)
    have "ToLower ''AB'' = ''ab''" by code_simp
    then show "ToLower ''AB'' = au_mac exa_server ''a=1''" by (simp add: exa_server_def)
    show "checkTimestamp 1 exa_request = None" by (rule time)
  qed (simp_all add: exa_request_def exa_server_def)
qed

end
