(* ===== verification/BinanceStreams.thy ===== *)
theory BinanceStreams
  imports LevelDiff BinanceAuth FixMessage
begin

text \<open>
  \<^verbatim>\<open>internal/api/binance/broadcaster.go\<close>, \<^verbatim>\<open>ws.go\<close> and \<^verbatim>\<open>listenkey.go\<close>: the WebSocket side of the Binance edge. A
  connection is a position in \<open>bs_conns\<close>; its record holds the buffered channel, whether it is closed, and, to make them
  observable, the frames that the write pump has put on the socket. A set of connections is a list, and a frame
  is what is rendered as JSON. Times are milliseconds, the ones of the listen keys nanoseconds. Pings and deadlines are left out;
  that a socket fails or a client goes away is an operation of its own.
\<close>

subsection \<open>Listen keys\<close>

type_synonym listen_keys = "string \<rightharpoonup> int"

definition listenKeyTTL :: int where "listenKeyTTL = 3600000000000"

text \<open>The random key is an argument.\<close>

definition key_create :: "string \<Rightarrow> int \<Rightarrow> listen_keys \<Rightarrow> listen_keys" where
  "key_create key now m = m(key \<mapsto> now)"

definition key_valid :: "string \<Rightarrow> int \<Rightarrow> listen_keys \<Rightarrow> bool \<times> listen_keys" where
  "key_valid key now m =
     (if key = [] then (False, m)
      else case m key of None \<Rightarrow> (False, m)
        | Some seen \<Rightarrow> if now - seen > listenKeyTTL then (False, m(key := None)) else (True, m))"

definition key_keepalive :: "string \<Rightarrow> int \<Rightarrow> listen_keys \<Rightarrow> bool \<times> listen_keys" where
  "key_keepalive key now m =
     (let (ok, m) = key_valid key now m in if \<not> ok then (False, m) else (True, m(key \<mapsto> now)))"

definition key_remove :: "string \<Rightarrow> listen_keys \<Rightarrow> bool \<times> listen_keys" where
  "key_remove key m = (if m key = None then (False, m) else (True, m(key := None)))"

subsection \<open>Stream names\<close>

datatype stream_kind = KindTrade | KindDepth | KindDepthDiff

record parsed_stream =
  ps_name :: string
  ps_binSym :: string
  ps_engineSym :: string
  ps_kind :: stream_kind

definition resolveStreamSymbol :: "symbol_map \<Rightarrow> string \<Rightarrow> string option" where
  "resolveStreamSymbol sm sym_text =
     (case ToEngine sm sym_text of Some eng \<Rightarrow> Some eng | None \<Rightarrow> ToEngine sm (ToUpper sym_text))"

definition kind_of :: "string \<Rightarrow> stream_kind option" where
  "kind_of ending =
     (if ending = ''trade'' then Some KindTrade
      else if ending = ''depth20'' \<or> ending = ''depth20@100ms'' then Some KindDepth
      else if ending = ''depth'' \<or> ending = ''depth@100ms'' then Some KindDepthDiff
      else None)"

definition parseStreamName :: "symbol_map \<Rightarrow> string \<Rightarrow> parsed_stream option" where
  "parseStreamName sm name =
     (let sym_text = takeWhile (\<lambda>c. c \<noteq> CHR ''@'') name
      in if sym_text = [] \<or> sym_text = name then None
         else case resolveStreamSymbol sm sym_text of None \<Rightarrow> None
           | Some eng \<Rightarrow>
              (case kind_of (drop (length sym_text + 1) name) of None \<Rightarrow> None
               | Some k \<Rightarrow> Some \<lparr>ps_name = name, ps_binSym = sym_text, ps_engineSym = eng, ps_kind = k\<rparr>))"

subsection \<open>Frames and connections\<close>

record trade_event =
  te_EventTime :: int
  te_Symbol :: string
  te_TradeID :: int
  te_Price :: string
  te_Quantity :: string
  te_TradeTime :: int
  te_BuyerMkr :: bool

text \<open>A depth update has its time, its symbol and the difference. Constant fields are left out.\<close>

datatype bin_payload =
    DepthEvent int "(string \<times> string) list" "(string \<times> string) list"
  | DepthUpdateEvent int string depth_update
  | TradeEvent trade_event
  | ExecutionReport exec_report

datatype bin_frame = RawFrame bin_payload | CombinedFrame string bin_payload

definition bin_sendBuffer :: nat where "bin_sendBuffer = 256"

record bin_conn =
  bn_out :: "bin_frame list"
  bn_closed :: bool
  bn_combined :: bool
  bn_sent :: "bin_frame list"

definition bin_newConn :: "bool \<Rightarrow> bin_conn" where
  "bin_newConn combined = \<lparr>bn_out = [], bn_closed = False, bn_combined = combined, bn_sent = []\<rparr>"

definition bin_trySend :: "bin_frame \<Rightarrow> bin_conn \<Rightarrow> bool \<times> bin_conn" where
  "bin_trySend b c =
     (if bn_closed c then (False, c)
      else if length (bn_out c) < bin_sendBuffer then (True, c\<lparr>bn_out := bn_out c @ [b]\<rparr>)
      else (False, c))"

definition bin_close :: "bin_conn \<Rightarrow> bin_conn" where
  "bin_close c = c\<lparr>bn_closed := True\<rparr>"

text \<open>A turn of the write pump that finds a frame.\<close>

definition bin_writePump :: "bin_conn \<Rightarrow> bin_conn" where
  "bin_writePump c = (case bn_out c of [] \<Rightarrow> c | b # bs \<Rightarrow> c\<lparr>bn_out := bs, bn_sent := bn_sent c @ [b]\<rparr>)"

subsection \<open>The hub\<close>

record bin_streams =
  bs_symbols :: symbol_map
  bs_conns :: "bin_conn list"
  bs_market :: "(string, nat list) gomap"
  bs_userData :: "nat list"
  bs_differ :: depthDiffer
  bs_keys :: listen_keys
  bs_tradeSeq :: i64
  bs_delayed :: "bin_frame list"

definition bin_NewStreams :: "symbol_map \<Rightarrow> bin_streams" where
  "bin_NewStreams sm = \<lparr>bs_symbols = sm, bs_conns = [], bs_market = [], bs_userData = [], bs_differ = Map.empty,
     bs_keys = Map.empty, bs_tradeSeq = 0, bs_delayed = []\<rparr>"

definition bin_conns_of :: "(string, nat list) gomap \<Rightarrow> string \<Rightarrow> nat list" where
  "bin_conns_of m name = (case map_of m name of None \<Rightarrow> [] | Some cs \<Rightarrow> cs)"

definition bin_add :: "nat \<Rightarrow> nat list \<Rightarrow> nat list" where
  "bin_add c cs = (if c \<in> set cs then cs else cs @ [c])"

definition bin_subscribeMarket :: "nat \<Rightarrow> string list \<Rightarrow> bin_streams \<Rightarrow> bin_streams" where
  "bin_subscribeMarket c names s =
     s\<lparr>bs_market := fold (\<lambda>name m. AList.update name (bin_add c (bin_conns_of m name)) m) names (bs_market s)\<rparr>"

definition bin_subscribeUserData :: "nat \<Rightarrow> bin_streams \<Rightarrow> bin_streams" where
  "bin_subscribeUserData c s = s\<lparr>bs_userData := bin_add c (bs_userData s)\<rparr>"

definition bin_remove :: "nat \<Rightarrow> bin_streams \<Rightarrow> bin_streams" where
  "bin_remove c s =
     s\<lparr>bs_market := filter (\<lambda>(n, cs). cs \<noteq> []) (map (\<lambda>(n, cs). (n, removeAll c cs)) (bs_market s)),
       bs_userData := removeAll c (bs_userData s)\<rparr>"

definition bin_upd :: "nat \<Rightarrow> (bin_conn \<Rightarrow> bin_conn) \<Rightarrow> bin_streams \<Rightarrow> bin_streams" where
  "bin_upd c f s = s\<lparr>bs_conns := (bs_conns s)[c := f (bs_conns s ! c)]\<rparr>"

definition bin_dropAll :: "nat list \<Rightarrow> bin_streams \<Rightarrow> bin_streams" where
  "bin_dropAll dead s = fold (\<lambda>c. bin_upd c bin_close) dead s"

text \<open>The loop of a publication: the connections that did not take their frame.\<close>

fun bin_publish :: "(bin_conn \<Rightarrow> bin_frame) \<Rightarrow> nat list \<Rightarrow> bin_streams \<Rightarrow> nat list \<times> bin_streams" where
  "bin_publish frameFn [] s = ([], s)"
| "bin_publish frameFn (c # cs) s =
     (let (ok, x) = bin_trySend (frameFn (bs_conns s ! c)) (bs_conns s ! c);
          (dead, s) = bin_publish frameFn cs (bin_upd c (\<lambda>_. x) s)
      in (if ok then dead else c # dead, s))"

definition publishMarketFunc :: "string \<Rightarrow> (bin_conn \<Rightarrow> bin_frame) \<Rightarrow> bin_streams \<Rightarrow> bin_streams" where
  "publishMarketFunc stream frameFn s =
     (let (dead, s) = bin_publish frameFn (bin_conns_of (bs_market s) stream) s in bin_dropAll dead s)"

definition publishUserData :: "bin_frame \<Rightarrow> bin_streams \<Rightarrow> bin_streams" where
  "publishUserData b s = (let (dead, s) = bin_publish (\<lambda>_. b) (bs_userData s) s in bin_dropAll dead s)"

definition bin_hasSubscribers :: "string \<Rightarrow> bin_streams \<Rightarrow> bool" where
  "bin_hasSubscribers stream s \<longleftrightarrow> bin_conns_of (bs_market s) stream \<noteq> []"

definition marketStreams :: "bin_streams \<Rightarrow> string list" where
  "marketStreams s = map fst (bs_market s)"

definition frameFor :: "string \<Rightarrow> bin_payload \<Rightarrow> bin_conn \<Rightarrow> bin_frame" where
  "frameFor stream payload c = (if bn_combined c then CombinedFrame stream payload else RawFrame payload)"

definition bin_fanout :: "string \<Rightarrow> bin_payload \<Rightarrow> bin_streams \<Rightarrow> bin_streams" where
  "bin_fanout stream payload s = publishMarketFunc stream (frameFor stream payload) s"

subsection \<open>Depth\<close>

definition depthLevels :: int where "depthLevels = 20"

definition depthPayload :: "int \<Rightarrow> snapshot \<Rightarrow> bin_payload" where
  "depthPayload now snap =
     DepthEvent now (levelsToPairs (sn_Bids snap) depthLevels) (levelsToPairs (sn_Asks snap) depthLevels)"

definition broadcastDepth :: "engine \<Rightarrow> int \<Rightarrow> parsed_stream \<Rightarrow> bin_streams \<Rightarrow> bin_streams option" where
  "broadcastDepth e now ps s = do {
     snap \<leftarrow> engine_Snapshot e (ps_engineSym ps);
     Some (case snap of Inl _ \<Rightarrow> s | Inr sn \<Rightarrow> bin_fanout (ps_name ps) (depthPayload now sn) s)
   }"

definition broadcastDepthDiff :: "engine \<Rightarrow> int \<Rightarrow> parsed_stream \<Rightarrow> bin_streams \<Rightarrow> bin_streams option" where
  "broadcastDepthDiff e now ps s = do {
     snap \<leftarrow> engine_Snapshot e (ps_engineSym ps);
     Some (case snap of Inl _ \<Rightarrow> s
       | Inr sn \<Rightarrow>
           let (upd, d) = depth_diff now (bs_differ s) (ps_engineSym ps) sn; s = s\<lparr>bs_differ := d\<rparr>
           in case upd of None \<Rightarrow> s
              | Some u \<Rightarrow> bin_fanout (ps_name ps) (DepthUpdateEvent now (ToUpper (ps_binSym ps)) u) s)
   }"

definition push_stream :: "engine \<Rightarrow> int \<Rightarrow> string \<Rightarrow> bin_streams \<Rightarrow> bin_streams option" where
  "push_stream e now name s =
     (case parseStreamName (bs_symbols s) name of
        None \<Rightarrow> Some s
      | Some ps \<Rightarrow>
          if \<not> bin_hasSubscribers name s then Some s
          else (case ps_kind ps of
              KindDepth \<Rightarrow> broadcastDepth e now ps s
            | KindDepthDiff \<Rightarrow> broadcastDepthDiff e now ps s
            | KindTrade \<Rightarrow> Some s))"

fun push_streams :: "engine \<Rightarrow> int \<Rightarrow> string list \<Rightarrow> bin_streams \<Rightarrow> bin_streams option" where
  "push_streams e now [] s = Some s"
| "push_streams e now (name # names) s = do { s \<leftarrow> push_stream e now name s; push_streams e now names s }"

definition pushDepthTick :: "engine \<Rightarrow> int \<Rightarrow> bin_streams \<Rightarrow> bin_streams option" where
  "pushDepthTick e now s = push_streams e now (marketStreams s) s"

definition pushDepthTo :: "engine \<Rightarrow> int \<Rightarrow> nat \<Rightarrow> parsed_stream \<Rightarrow> bin_streams \<Rightarrow> bin_streams option" where
  "pushDepthTo e now c ps s = do {
     snap \<leftarrow> engine_Snapshot e (ps_engineSym ps);
     Some (case snap of Inl _ \<Rightarrow> s
       | Inr sn \<Rightarrow> bin_upd c (\<lambda>x. snd (bin_trySend (frameFor (ps_name ps) (depthPayload now sn) x) x)) s)
   }"

subsection \<open>Connections of clients\<close>

fun push_first :: "engine \<Rightarrow> int \<Rightarrow> nat \<Rightarrow> parsed_stream list \<Rightarrow> bin_streams \<Rightarrow> bin_streams option" where
  "push_first e now c [] s = Some s"
| "push_first e now c (ps # pss) s = do {
     s \<leftarrow> (if ps_kind ps = KindDepth then pushDepthTo e now c ps s else Some s);
     push_first e now c pss s
   }"

definition new_conn :: "bool \<Rightarrow> bin_streams \<Rightarrow> nat \<times> bin_streams" where
  "new_conn combined s = (length (bs_conns s), s\<lparr>bs_conns := bs_conns s @ [bin_newConn combined]\<rparr>)"

definition upgradeMarket :: "engine \<Rightarrow> int \<Rightarrow> parsed_stream list \<Rightarrow> bool \<Rightarrow> bin_streams \<Rightarrow> bin_streams option" where
  "upgradeMarket e now streams combined s =
     (let (c, s) = new_conn combined s
      in push_first e now c streams (bin_subscribeMarket c (map ps_name streams) s))"

definition upgradeUserData :: "bin_streams \<Rightarrow> bin_streams" where
  "upgradeUserData s = (let (c, s) = new_conn False s in bin_subscribeUserData c s)"

text \<open>The answer is the text of an error, or none for an upgrade.\<close>

definition handleRawStream :: "engine \<Rightarrow> int \<Rightarrow> int \<Rightarrow> string \<Rightarrow> bin_streams \<Rightarrow> (string option \<times> bin_streams) option" where
  "handleRawStream e now nowNs seg s =
     (if seg = [] \<or> CHR ''/'' \<in> set seg then Some (Some ''invalid stream'', s)
      else let (ok, keys) = key_valid seg nowNs (bs_keys s); s = s\<lparr>bs_keys := keys\<rparr>
           in if ok then Some (None, upgradeUserData s)
              else case parseStreamName (bs_symbols s) seg of
                None \<Rightarrow> Some (Some ''unknown stream'', s)
              | Some ps \<Rightarrow> do { s \<leftarrow> upgradeMarket e now [ps] False s; Some (None, s) })"

text \<open>The loop over the names: the first that is unknown, or the streams.\<close>

fun parse_names :: "symbol_map \<Rightarrow> string list \<Rightarrow> string + parsed_stream list" where
  "parse_names sm [] = Inr []"
| "parse_names sm (name # names) =
     (if name = [] then parse_names sm names
      else case parseStreamName sm name of
        None \<Rightarrow> Inl name
      | Some ps \<Rightarrow> (case parse_names sm names of Inl n \<Rightarrow> Inl n | Inr pss \<Rightarrow> Inr (ps # pss)))"

definition handleCombinedStream :: "engine \<Rightarrow> int \<Rightarrow> string \<Rightarrow> bin_streams \<Rightarrow> (string option \<times> bin_streams) option" where
  "handleCombinedStream e now raw s =
     (if raw = [] then Some (Some ''missing streams'', s)
      else let names = split_on (CHR ''/'') raw
           in if length names > 1024 then Some (Some ''too many streams'', s)
              else case parse_names (bs_symbols s) names of
                Inl n \<Rightarrow> Some (Some (''unknown stream: '' @ n), s)
              | Inr [] \<Rightarrow> Some (Some ''missing streams'', s)
              | Inr streams \<Rightarrow> do { s \<leftarrow> upgradeMarket e now streams True s; Some (None, s) })"

text \<open>The end of a connection.\<close>

definition bin_conn_end :: "nat \<Rightarrow> bin_streams \<Rightarrow> bin_streams" where
  "bin_conn_end c s = bin_remove c (bin_upd c bin_close s)"

text \<open>The answer is the new key, if the request makes one.\<close>

definition handleUserDataStream ::
    "authenticator \<Rightarrow> string \<Rightarrow> int \<Rightarrow> auth_request \<Rightarrow> bin_streams \<Rightarrow> (api_error + string option) \<times> bin_streams" where
  "handleUserDataStream a fresh nowNs r s =
     (case VerifyAPIKey a r of
        Some e \<Rightarrow> (Inl e, s)
      | None \<Rightarrow>
          let key = aq_Form r ''listenKey''
          in if aq_Method r = ''POST'' then (Inr (Some fresh), s\<lparr>bs_keys := key_create fresh nowNs (bs_keys s)\<rparr>)
             else if aq_Method r = ''PUT'' then
               (if key = [] then (Inl (errMandatoryParam ''listenKey''), s)
                else let (ok, keys) = key_keepalive key nowNs (bs_keys s)
                     in (if ok then Inr None else Inl (errMandatoryParam ''listenKey''), s\<lparr>bs_keys := keys\<rparr>))
             else if aq_Method r = ''DELETE'' then
               (if key = [] then (Inl (errMandatoryParam ''listenKey''), s)
                else let (ok, keys) = key_remove key (bs_keys s)
                     in (if ok then Inr None else Inl (errMandatoryParam ''listenKey''), s\<lparr>bs_keys := keys\<rparr>))
             else (Inl (errIllegalParam ''method''), s))"

subsection \<open>Trades and reports\<close>

text \<open>\<open>executed\<close> is the time of the trade, if it has one.\<close>

definition onBookTrade :: "int \<Rightarrow> int option \<Rightarrow> trade \<Rightarrow> bin_streams \<Rightarrow> bin_streams" where
  "onBookTrade now executed t s =
     (case ToBinance (bs_symbols s) (tr_Instrument t) of
        None \<Rightarrow> s
      | Some binSym \<Rightarrow>
          let stream = ToLower binSym @ ''@trade''
          in if \<not> bin_hasSubscribers stream s then s
             else let tradeID = bs_tradeSeq s + 1;
                      ev = \<lparr>te_EventTime = now, te_Symbol = binSym, te_TradeID = sint tradeID,
                        te_Price = StringPrec (tr_Price t) pricePrec, te_Quantity = StringPrec (tr_Volume t) qtyPrec,
                        te_TradeTime = (case executed of None \<Rightarrow> now | Some x \<Rightarrow> x), te_BuyerMkr = (tr_TakerSide t = SideSell)\<rparr>
                  in bin_fanout stream (TradeEvent ev) (s\<lparr>bs_tradeSeq := tradeID\<rparr>))"

text \<open>What the emission of a report does with it: fills may be held back.\<close>

definition publish_report :: "bool \<Rightarrow> exec_report \<Rightarrow> bin_streams \<Rightarrow> bin_streams" where
  "publish_report delay rep s =
     (let b = RawFrame (ExecutionReport rep)
      in if xr_ExecType rep = ''TRADE'' \<and> delay then s\<lparr>bs_delayed := bs_delayed s @ [b]\<rparr> else publishUserData b s)"

text \<open>A timer that fires.\<close>

definition publish_delayed :: "nat \<Rightarrow> bin_streams \<Rightarrow> bin_streams" where
  "publish_delayed i s =
     (if i < length (bs_delayed s)
      then publishUserData (bs_delayed s ! i) (s\<lparr>bs_delayed := take i (bs_delayed s) @ drop (Suc i) (bs_delayed s)\<rparr>)
      else s)"

end
