(* ===== verification/BinanceStreamsProofs.thy ===== *)
theory BinanceStreamsProofs
  imports BinanceStreams LevelDiffProofs Matching
begin

text \<open>
  Listen keys live exactly as long as their history says, although expired keys are only removed when somebody asks for them.
  A tick sends the change of a book to every open subscriber of its depth stream, if the book has one such stream name; it sends
  nothing to the subscribers of a second name of the same book.
\<close>

subsection \<open>Listen keys\<close>

datatype key_op = KeyCreate string int | KeyValid string int | KeyKeepalive string int | KeyRemove string int

fun key_time :: "key_op \<Rightarrow> int" where
  "key_time (KeyCreate k t) = t"
| "key_time (KeyValid k t) = t"
| "key_time (KeyKeepalive k t) = t"
| "key_time (KeyRemove k t) = t"

fun key_step :: "key_op \<Rightarrow> listen_keys \<Rightarrow> listen_keys" where
  "key_step (KeyCreate k t) m = key_create k t m"
| "key_step (KeyValid k t) m = snd (key_valid k t m)"
| "key_step (KeyKeepalive k t) m = snd (key_keepalive k t m)"
| "key_step (KeyRemove k t) m = snd (key_remove k m)"

text \<open>When a key was last created or kept alive in time, by its history alone.\<close>

fun touched :: "string \<Rightarrow> key_op \<Rightarrow> int option \<Rightarrow> int option" where
  "touched k (KeyCreate k' t) seen = (if k' = k then Some t else seen)"
| "touched k (KeyValid k' t) seen = seen"
| "touched k (KeyKeepalive k' t) seen =
     (if k' = k then case seen of Some x \<Rightarrow> if t - x \<le> listenKeyTTL then Some t else seen | None \<Rightarrow> None else seen)"
| "touched k (KeyRemove k' t) seen = (if k' = k then None else seen)"

text \<open>A key that is missing was never there or has expired.\<close>

definition keys_agree :: "int \<Rightarrow> listen_keys \<Rightarrow> (string \<Rightarrow> int option) \<Rightarrow> bool" where
  "keys_agree now m h \<longleftrightarrow> (\<forall>k. k \<noteq> [] \<longrightarrow> m k = h k \<or> m k = None \<and> (\<exists>t. h k = Some t \<and> now - t > listenKeyTTL))"

lemma keys_agree_later: "keys_agree now m h \<Longrightarrow> now \<le> now' \<Longrightarrow> keys_agree now' m h"
  unfolding keys_agree_def by (meson diff_right_mono less_le_trans)

lemma listenKeyTTL_pos: "0 < listenKeyTTL"
  by (simp add: listenKeyTTL_def)

lemma keys_agree_step:
  assumes "keys_agree (key_time op) m h"
  shows "keys_agree (key_time op) (key_step op m) (\<lambda>k. touched k op (h k))"
proof (cases op)
  case (KeyCreate k t)
  with assms show ?thesis by (auto simp: keys_agree_def key_create_def)
next
  case (KeyValid k t)
  with assms show ?thesis by (auto simp: keys_agree_def key_valid_def split: option.splits)
next
  case (KeyKeepalive k t)
  show ?thesis
    unfolding keys_agree_def
  proof (intro allI impI)
    fix k' :: string
    assume k': "k' \<noteq> []"
    with assms have h: "m k' = h k' \<or> m k' = None \<and> (\<exists>x. h k' = Some x \<and> t - x > listenKeyTTL)"
      by (simp add: keys_agree_def KeyKeepalive)
    show "key_step op m k' = touched k' op (h k') \<or> key_step op m k' = None \<and>
        (\<exists>x. touched k' op (h k') = Some x \<and> key_time op - x > listenKeyTTL)"
    proof (cases "k' = k")
      case True
      with h k' show ?thesis
        by (cases "h k'") (auto simp: KeyKeepalive key_keepalive_def key_valid_def split: option.splits)
    next
      case False
      with h show ?thesis by (auto simp: KeyKeepalive key_keepalive_def key_valid_def split: option.splits)
    qed
  qed
next
  case (KeyRemove k t)
  with assms show ?thesis by (auto simp: keys_agree_def key_remove_def)
qed

lemma keys_agree_run:
  assumes "keys_agree now m h" "sorted (now # map key_time ops)"
  shows "keys_agree (last (now # map key_time ops)) (fold key_step ops m) (\<lambda>k. fold (touched k) ops (h k))"
  using assms
proof (induction ops arbitrary: now m h)
  case (Cons op ops)
  have "keys_agree (key_time op) m h" using Cons.prems by (auto intro: keys_agree_later)
  from Cons.IH[OF keys_agree_step[OF this]] Cons.prems(2) show ?case by simp
qed simp

text \<open>After any operations at times that do not go back, a listen key is valid at a moment exactly when it was created, or kept
  alive in time, no longer ago than an hour, and not removed since. That expired keys stay in the map until they are asked for
  makes no difference.\<close>

theorem listen_key_lifetime:
  assumes "sorted (map key_time ops @ [now])" "key \<noteq> []"
  shows "fst (key_valid key now (fold key_step ops Map.empty)) \<longleftrightarrow>
    (\<exists>t. fold (touched key) ops None = Some t \<and> now - t \<le> listenKeyTTL)"
proof -
  let ?start = "case map key_time ops of [] \<Rightarrow> now | t # ts \<Rightarrow> t"
  have "sorted (?start # map key_time ops)" using assms(1) by (cases ops) (auto simp: sorted_append)
  with keys_agree_run[of ?start Map.empty "\<lambda>k. None" ops]
  have "keys_agree (last (?start # map key_time ops)) (fold key_step ops Map.empty) (\<lambda>k. fold (touched k) ops None)"
    by (simp add: keys_agree_def)
  moreover have "\<forall>t \<in> set (?start # map key_time ops). t \<le> now" using assms(1) by (cases ops) (auto simp: sorted_append)
  then have "last (?start # map key_time ops) \<le> now" using last_in_set by blast
  ultimately have "keys_agree now (fold key_step ops Map.empty) (\<lambda>k. fold (touched k) ops None)"
    by (rule keys_agree_later)
  with assms(2) have "fold key_step ops Map.empty key = fold (touched key) ops None \<or>
      fold key_step ops Map.empty key = None \<and> (\<exists>t. fold (touched key) ops None = Some t \<and> now - t > listenKeyTTL)"
    by (simp add: keys_agree_def)
  with assms(2) show ?thesis
    by (cases "fold (touched key) ops None") (auto simp: key_valid_def split: if_splits)
qed

text \<open>The answer to a removal does depend on whether somebody asked for an expired key before.\<close>

lemma removal_answer_depends:
  "now - t > listenKeyTTL \<Longrightarrow> k \<noteq> [] \<Longrightarrow> m k = Some t \<Longrightarrow>
   fst (key_remove k m) \<and> \<not> fst (key_remove k (snd (key_valid k now m)))"
  by (simp add: key_remove_def key_valid_def)

subsection \<open>Publications\<close>

text \<open>What a connection was sent and what waits for it.\<close>

definition received :: "bin_streams \<Rightarrow> nat \<Rightarrow> bin_frame list" where
  "received s c = bn_sent (bs_conns s ! c) @ bn_out (bs_conns s ! c)"

text \<open>The effect of sending: more frames, and perhaps closed connections.\<close>

definition conn_grows :: "bin_conn \<Rightarrow> bin_conn \<Rightarrow> bool" where
  "conn_grows x y \<longleftrightarrow> bn_combined y = bn_combined x \<and> (bn_closed x \<longrightarrow> bn_closed y) \<and>
     (\<exists>fs. bn_sent y @ bn_out y = bn_sent x @ bn_out x @ fs)"

definition sends :: "bin_streams \<Rightarrow> bin_streams \<Rightarrow> bool" where
  "sends s s' \<longleftrightarrow> bs_market s' = bs_market s \<and> bs_userData s' = bs_userData s \<and> bs_symbols s' = bs_symbols s \<and>
     length (bs_conns s') = length (bs_conns s) \<and> (\<forall>c < length (bs_conns s). conn_grows (bs_conns s ! c) (bs_conns s' ! c))"

lemma conn_grows_refl [simp]: "conn_grows x x"
  by (simp add: conn_grows_def)

lemma conn_grows_trans: "conn_grows x y \<Longrightarrow> conn_grows y z \<Longrightarrow> conn_grows x z"
  unfolding conn_grows_def by (metis append.assoc)

lemma sends_refl [simp]: "sends s s"
  by (simp add: sends_def)

lemma sends_trans: "sends s s' \<Longrightarrow> sends s' s'' \<Longrightarrow> sends s s''"
  unfolding sends_def by (auto intro: conn_grows_trans)

lemma sends_received: "sends s s' \<Longrightarrow> c < length (bs_conns s) \<Longrightarrow> \<exists>fs. received s' c = received s c @ fs"
  by (auto simp: sends_def conn_grows_def received_def)

lemma trySend_grows: "bin_trySend b x = (ok, y) \<Longrightarrow> conn_grows x y"
  by (auto simp: bin_trySend_def conn_grows_def split: if_splits)

lemma close_grows: "conn_grows x (bin_close x)"
  by (simp add: conn_grows_def bin_close_def)

lemma upd_sends:
  "conn_grows (bs_conns s ! c) (f (bs_conns s ! c)) \<Longrightarrow> sends s (bin_upd c f s)"
  unfolding sends_def bin_upd_def by (cases "c < length (bs_conns s)") (auto simp: nth_list_update)

lemma bin_upd_simps [simp]:
  "length (bs_conns (bin_upd c f s)) = length (bs_conns s)" "bs_market (bin_upd c f s) = bs_market s"
  "bs_differ (bin_upd c f s) = bs_differ s" "bs_symbols (bin_upd c f s) = bs_symbols s"
  by (simp_all add: bin_upd_def)

lemma bin_upd_nth: "c < length (bs_conns s) \<Longrightarrow> bs_conns (bin_upd c f s) ! d = (if d = c then f (bs_conns s ! c) else bs_conns s ! d)"
  by (simp add: bin_upd_def nth_list_update)

lemma publish_spec:
  assumes "distinct cs" "\<forall>c \<in> set cs. c < length (bs_conns s)" "bin_publish f cs s = (dead, s')"
  shows "sends s s' \<and> bs_differ s' = bs_differ s \<and> set dead \<subseteq> set cs \<and> (\<forall>c. c \<notin> set cs \<longrightarrow> bs_conns s' ! c = bs_conns s ! c) \<and>
    (\<forall>c \<in> set cs. bs_conns s' ! c = snd (bin_trySend (f (bs_conns s ! c)) (bs_conns s ! c)) \<and>
       (c \<in> set dead \<longleftrightarrow> \<not> fst (bin_trySend (f (bs_conns s ! c)) (bs_conns s ! c))))"
  using assms
proof (induction cs arbitrary: s dead s')
  case (Cons c cs)
  obtain ok x where ok: "bin_trySend (f (bs_conns s ! c)) (bs_conns s ! c) = (ok, x)" by fastforce
  let ?s1 = "bin_upd c (\<lambda>_. x) s"
  obtain dead1 where d: "bin_publish f cs ?s1 = (dead1, s')" "dead = (if ok then dead1 else c # dead1)"
    using Cons.prems(3) ok by (auto split: prod.splits)
  have c: "c < length (bs_conns s)" "c \<notin> set cs" "distinct cs" using Cons.prems by auto
  have IH: "sends ?s1 s' \<and> bs_differ s' = bs_differ ?s1 \<and> set dead1 \<subseteq> set cs \<and> (\<forall>c. c \<notin> set cs \<longrightarrow> bs_conns s' ! c = bs_conns ?s1 ! c) \<and>
    (\<forall>c \<in> set cs. bs_conns s' ! c = snd (bin_trySend (f (bs_conns ?s1 ! c)) (bs_conns ?s1 ! c)) \<and>
       (c \<in> set dead1 \<longleftrightarrow> \<not> fst (bin_trySend (f (bs_conns ?s1 ! c)) (bs_conns ?s1 ! c))))"
    by (rule Cons.IH[OF c(3) _ d(1)]) (use Cons.prems(2) in auto)
  have "sends s ?s1" using upd_sends[of s c "\<lambda>_. x"] trySend_grows[OF ok] by simp
  with IH have "sends s s'" using sends_trans by blast
  moreover have "bs_conns ?s1 ! e = bs_conns s ! e" if "e \<in> set cs" for e using that c by (auto simp: bin_upd_nth)
  ultimately show ?case using IH c d(2) ok by (auto simp: bin_upd_nth)
qed simp

lemma dropAll_spec:
  "\<forall>c \<in> set dead. c < length (bs_conns s) \<Longrightarrow> sends s (bin_dropAll dead s) \<and> bs_differ (bin_dropAll dead s) = bs_differ s \<and>
    (\<forall>c. bs_conns (bin_dropAll dead s) ! c = (if c \<in> set dead then bin_close (bs_conns s ! c) else bs_conns s ! c))"
proof (induction dead arbitrary: s)
  case (Cons d dead)
  let ?s1 = "bin_upd d bin_close s"
  have "sends s ?s1" by (rule upd_sends) (rule close_grows)
  moreover have eq: "bin_dropAll (d # dead) s = bin_dropAll dead ?s1" by (simp add: bin_dropAll_def)
  moreover have "bin_close (bin_close x) = bin_close x" for x by (simp add: bin_close_def)
  ultimately show ?case using Cons.IH[of ?s1] Cons.prems sends_trans by (auto simp: bin_upd_nth)
qed (simp add: bin_dropAll_def)

text \<open>The hub knows every connection at most once, under existing numbers.\<close>

definition hub_ok :: "bin_streams \<Rightarrow> bool" where
  "hub_ok s \<longleftrightarrow> distinct (map fst (bs_market s)) \<and>
     (\<forall>(n, cs) \<in> set (bs_market s). distinct cs \<and> (\<forall>c \<in> set cs. c < length (bs_conns s))) \<and>
     distinct (bs_userData s) \<and> (\<forall>c \<in> set (bs_userData s). c < length (bs_conns s))"

lemma hub_ok_conns:
  assumes "hub_ok s"
  shows "distinct (bin_conns_of (bs_market s) n)" "\<forall>c \<in> set (bin_conns_of (bs_market s) n). c < length (bs_conns s)"
  using assms by (fastforce simp: hub_ok_def bin_conns_of_def split: option.splits dest: map_of_SomeD)+

lemma hub_ok_sends: "hub_ok s \<Longrightarrow> sends s s' \<Longrightarrow> hub_ok s'"
  by (simp add: hub_ok_def sends_def)

lemma publishMarket_spec:
  assumes "hub_ok s"
  shows "sends s (publishMarketFunc stream f s)" "bs_differ (publishMarketFunc stream f s) = bs_differ s"
    "c \<in> set (bin_conns_of (bs_market s) stream) \<Longrightarrow> \<not> bn_closed (bs_conns (publishMarketFunc stream f s) ! c) \<Longrightarrow>
      received (publishMarketFunc stream f s) c = received s c @ [f (bs_conns s ! c)]"
proof -
  obtain dead s1 where p: "bin_publish f (bin_conns_of (bs_market s) stream) s = (dead, s1)" by fastforce
  note spec = publish_spec[OF hub_ok_conns[OF assms] p]
  then have len: "\<forall>c \<in> set dead. c < length (bs_conns s1)" using hub_ok_conns(2)[OF assms] by (auto simp: sends_def)
  have eq: "publishMarketFunc stream f s = bin_dropAll dead s1" by (simp add: publishMarketFunc_def p)
  note drop = dropAll_spec[OF len]
  show "sends s (publishMarketFunc stream f s)" unfolding eq using spec drop sends_trans by blast
  show "bs_differ (publishMarketFunc stream f s) = bs_differ s" unfolding eq using spec drop by simp
  assume c: "c \<in> set (bin_conns_of (bs_market s) stream)" "\<not> bn_closed (bs_conns (publishMarketFunc stream f s) ! c)"
  then have "c \<notin> set dead" using drop by (auto simp: eq bin_close_def split: if_splits)
  with c spec have "fst (bin_trySend (f (bs_conns s ! c)) (bs_conns s ! c))"
    "bs_conns s1 ! c = snd (bin_trySend (f (bs_conns s ! c)) (bs_conns s ! c))" by auto
  with \<open>c \<notin> set dead\<close> drop show "received (publishMarketFunc stream f s) c = received s c @ [f (bs_conns s ! c)]"
    by (auto simp: eq received_def bin_trySend_def split: if_splits)
qed

subsection \<open>Operations\<close>

lemma set_differ_sends [simp]: "sends s (s\<lparr>bs_differ := d\<rparr>)" "sends s (s\<lparr>bs_keys := k\<rparr>)" "sends s (s\<lparr>bs_tradeSeq := q\<rparr>)"
  "sends s (s\<lparr>bs_delayed := l\<rparr>)"
  by (simp_all add: sends_def)

lemma fanout_sends: "hub_ok s \<Longrightarrow> sends s (bin_fanout stream payload s)"
  unfolding bin_fanout_def by (rule publishMarket_spec(1))

lemma fanout_differ: "hub_ok s \<Longrightarrow> bs_differ (bin_fanout stream payload s) = bs_differ s"
  unfolding bin_fanout_def by (rule publishMarket_spec(2))

lemma publishUser_sends:
  assumes "hub_ok s"
  shows "sends s (publishUserData b s)"
proof -
  obtain dead s1 where p: "bin_publish (\<lambda>_. b) (bs_userData s) s = (dead, s1)" by fastforce
  have u: "distinct (bs_userData s)" "\<forall>c \<in> set (bs_userData s). c < length (bs_conns s)" using assms by (auto simp: hub_ok_def)
  note spec = publish_spec[OF u p]
  then have "\<forall>c \<in> set dead. c < length (bs_conns s1)" using u(2) by (auto simp: sends_def)
  with dropAll_spec[OF this] spec show ?thesis by (auto simp: publishUserData_def p intro: sends_trans)
qed

lemma push_stream_cases:
  assumes "push_stream e now name s = Some s'"
  obtains (same) "s' = s"
  | (depth) ps :: parsed_stream and pl where "s' = bin_fanout (ps_name ps) pl s"
  | (diff) ps sn upd d where "parseStreamName (bs_symbols s) name = Some ps" "ps_kind ps = KindDepthDiff"
      "depth_diff now (bs_differ s) (ps_engineSym ps) sn = (upd, d)"
      "s' = s\<lparr>bs_differ := d\<rparr> \<or> (\<exists>pl. s' = bin_fanout (ps_name ps) pl (s\<lparr>bs_differ := d\<rparr>))"
proof (cases "parseStreamName (bs_symbols s) name")
  case None
  with assms same show ?thesis by (simp add: push_stream_def)
next
  case (Some ps)
  show ?thesis
  proof (cases "bin_hasSubscribers name s \<and> ps_kind ps \<noteq> KindTrade")
    case False
    with assms Some same show ?thesis by (auto simp: push_stream_def split: if_splits stream_kind.splits)
  next
    case True
    with assms Some obtain snap where snap: "engine_Snapshot e (ps_engineSym ps) = Some snap"
      by (cases "ps_kind ps") (auto simp: push_stream_def broadcastDepth_def broadcastDepthDiff_def bind_eq_Some_conv)
    show ?thesis
    proof (cases snap)
      case (Inl err)
      with assms Some True snap same show ?thesis
        by (cases "ps_kind ps") (auto simp: push_stream_def broadcastDepth_def broadcastDepthDiff_def)
    next
      case (Inr sn)
      show ?thesis
      proof (cases "ps_kind ps = KindDepth")
        case True
        with assms Some snap Inr \<open>_ \<and> _\<close> show ?thesis by (intro depth[of ps "depthPayload now sn"]) (simp add: push_stream_def broadcastDepth_def)
      next
        case False
        with True have kind: "ps_kind ps = KindDepthDiff" by (cases "ps_kind ps") auto
        obtain upd d where d: "depth_diff now (bs_differ s) (ps_engineSym ps) sn = (upd, d)" by fastforce
        with assms Some snap Inr kind True show ?thesis
          by (intro diff[OF Some kind d]) (auto simp: push_stream_def broadcastDepthDiff_def Let_def split: option.splits)
      qed
    qed
  qed
qed

lemma push_stream_sends:
  assumes "hub_ok s" "push_stream e now name s = Some s'"
  shows "sends s s'"
  using assms(2)
proof (cases rule: push_stream_cases)
  case (diff ps sn upd d)
  have "hub_ok (s\<lparr>bs_differ := d\<rparr>)" by (rule hub_ok_sends[OF assms(1)]) simp
  with diff(4) show ?thesis by (auto intro: sends_trans[OF set_differ_sends(1) fanout_sends])
qed (use assms(1) in \<open>auto intro: fanout_sends\<close>)

lemma push_streams_sends: "hub_ok s \<Longrightarrow> push_streams e now names s = Some s' \<Longrightarrow> sends s s'"
proof (induction names arbitrary: s)
  case (Cons n ns)
  then obtain s1 where s1: "push_stream e now n s = Some s1" "push_streams e now ns s1 = Some s'" by (auto simp: bind_eq_Some_conv)
  with push_stream_sends[OF Cons.prems(1) s1(1)] Cons show ?case by (blast intro: sends_trans hub_ok_sends)
qed simp

lemma stateLocked_local: "d sm = d2 sm \<Longrightarrow> fst (depth_stateLocked now d sm) = fst (depth_stateLocked now d2 sm)"
  by (simp add: depth_stateLocked_def Let_def split: option.split)

lemma depth_diff_local:
  "d sm = d2 sm \<Longrightarrow> fst (depth_diff now d sm sn) = fst (depth_diff now d2 sm sn)"
  "sm' \<noteq> sm \<Longrightarrow> snd (depth_diff now d sm sn) sm' = d sm'"
  by (auto simp: depth_diff_def depth_stateLocked_def Let_def split: option.splits prod.splits)

text \<open>A stream whose differ is another one's, or that is no depth stream, leaves the last book sent alone.\<close>

lemma push_stream_differ:
  assumes "hub_ok s" "push_stream e now name s = Some s'"
    "\<And>ps. parseStreamName (bs_symbols s) name = Some ps \<Longrightarrow> ps_kind ps = KindDepthDiff \<Longrightarrow> ps_engineSym ps \<noteq> sm"
  shows "bs_differ s' sm = bs_differ s sm"
  using assms(2)
proof (cases rule: push_stream_cases)
  case (diff ps sn upd d)
  have "hub_ok (s\<lparr>bs_differ := d\<rparr>)" by (rule hub_ok_sends[OF assms(1)]) simp
  with diff(4) have "bs_differ s' = d" by (auto simp: fanout_differ)
  moreover have "d sm = bs_differ s sm"
    using depth_diff_local(2)[of sm "ps_engineSym ps" now "bs_differ s" sn] assms(3)[OF diff(1,2)] diff(3) by auto
  ultimately show ?thesis by simp
qed (use assms(1) in \<open>auto simp: fanout_differ\<close>)

lemma push_streams_differ:
  "hub_ok s \<Longrightarrow> push_streams e now names s = Some s' \<Longrightarrow>
   (\<And>n ps. n \<in> set names \<Longrightarrow> parseStreamName (bs_symbols s) n = Some ps \<Longrightarrow> ps_kind ps = KindDepthDiff \<Longrightarrow> ps_engineSym ps \<noteq> sm) \<Longrightarrow>
   bs_differ s' sm = bs_differ s sm"
proof (induction names arbitrary: s)
  case (Cons n ns)
  then obtain s1 where s1: "push_stream e now n s = Some s1" "push_streams e now ns s1 = Some s'" by (auto simp: bind_eq_Some_conv)
  note sends = push_stream_sends[OF Cons.prems(1) s1(1)]
  have "bs_differ s1 sm = bs_differ s sm" by (rule push_stream_differ[OF Cons.prems(1) s1(1)]) (use Cons.prems(3) in auto)
  moreover have "bs_differ s' sm = bs_differ s1 sm"
    by (rule Cons.IH[OF hub_ok_sends[OF Cons.prems(1) sends] s1(2)]) (use Cons.prems(3) sends in \<open>auto simp: sends_def\<close>)
  ultimately show ?case by simp
qed simp

lemma push_diff_frame:
  assumes "hub_ok s" "push_stream e now name s = Some s'" "parseStreamName (bs_symbols s) name = Some ps" "ps_kind ps = KindDepthDiff"
    "engine_Snapshot e (ps_engineSym ps) = Some (Inr sn)" "fst (depth_diff now (bs_differ s) (ps_engineSym ps) sn) = Some u"
    "c \<in> set (bin_conns_of (bs_market s) name)" "\<not> bn_closed (bs_conns s' ! c)"
  shows "received s' c = received s c @ [frameFor name (DepthUpdateEvent now (ToUpper (ps_binSym ps)) u) (bs_conns s ! c)]"
proof -
  obtain d where d: "depth_diff now (bs_differ s) (ps_engineSym ps) sn = (Some u, d)" using assms(6) by (metis prod.collapse)
  let ?s1 = "s\<lparr>bs_differ := d\<rparr>"
  have name: "ps_name ps = name" using assms(3) by (auto simp: parseStreamName_def Let_def split: if_splits option.splits)
  have "bin_hasSubscribers name s" using assms(7) by (auto simp: bin_hasSubscribers_def)
  with assms d name have s': "s' = bin_fanout name (DepthUpdateEvent now (ToUpper (ps_binSym ps)) u) ?s1"
    by (simp add: push_stream_def broadcastDepthDiff_def)
  have "hub_ok ?s1" by (rule hub_ok_sends[OF assms(1)]) simp
  from publishMarket_spec(3)[OF this, of c name] assms(7,8) show ?thesis
    unfolding s' bin_fanout_def by (simp add: received_def)
qed

subsection \<open>Runs\<close>

datatype bin_op =
    OpRaw engine int int string | OpCombined engine int string | OpTick engine int | OpTrade int "int option" trade
  | OpReport bool exec_report | OpTimer nat | OpWrite nat | OpGone nat | OpKeys authenticator string int auth_request

fun bin_step :: "bin_op \<Rightarrow> bin_streams \<Rightarrow> bin_streams option" where
  "bin_step (OpRaw e now nowNs seg) s = map_option snd (handleRawStream e now nowNs seg s)"
| "bin_step (OpCombined e now raw) s = map_option snd (handleCombinedStream e now raw s)"
| "bin_step (OpTick e now) s = pushDepthTick e now s"
| "bin_step (OpTrade now executed t) s = Some (onBookTrade now executed t s)"
| "bin_step (OpReport delay rep) s = Some (publish_report delay rep s)"
| "bin_step (OpTimer i) s = Some (publish_delayed i s)"
| "bin_step (OpWrite c) s = Some (bin_upd c bin_writePump s)"
| "bin_step (OpGone c) s = Some (bin_conn_end c s)"
| "bin_step (OpKeys a fresh nowNs r) s = Some (snd (handleUserDataStream a fresh nowNs r s))"

fun bin_run :: "bin_op list \<Rightarrow> bin_streams \<Rightarrow> bin_streams option" where
  "bin_run [] s = Some s"
| "bin_run (op # ops) s = do { s \<leftarrow> bin_step op s; bin_run ops s }"

lemma distinct_bin_add: "distinct cs \<Longrightarrow> distinct (bin_add c cs)" "set (bin_add c cs) = insert c (set cs)"
  by (auto simp: bin_add_def)

lemma update_members: "set (AList.update k v al) \<subseteq> insert (k, v) (set al)"
  by (induction al) auto

lemma subscribe_ok:
  assumes "distinct (map fst m)" "\<forall>(n, cs) \<in> set m. distinct cs \<and> (\<forall>c \<in> set cs. c < k)" "c < k"
  shows "distinct (map fst (fold (\<lambda>name m. AList.update name (bin_add c (bin_conns_of m name)) m) names m)) \<and>
    (\<forall>(n, cs) \<in> set (fold (\<lambda>name m. AList.update name (bin_add c (bin_conns_of m name)) m) names m). distinct cs \<and> (\<forall>c \<in> set cs. c < k))"
  using assms(1,2)
proof (induction names arbitrary: m)
  case (Cons n ns)
  let ?cs = "bin_add c (bin_conns_of m n)"
  have "distinct (bin_conns_of m n) \<and> (\<forall>c \<in> set (bin_conns_of m n). c < k)"
    using Cons.prems(2) by (fastforce simp: bin_conns_of_def split: option.splits dest: map_of_SomeD)
  then have cs: "distinct ?cs" "\<forall>d \<in> set ?cs. d < k" using assms(3) by (auto simp: distinct_bin_add)
  have "set (AList.update n ?cs m) \<subseteq> insert (n, ?cs) (set m)" by (rule update_members)
  with cs Cons.prems(2) have "\<forall>(n, cs) \<in> set (AList.update n ?cs m). distinct cs \<and> (\<forall>c \<in> set cs. c < k)" by fast
  with Cons.IH[of "AList.update n ?cs m"] Cons.prems(1) show ?case by (simp add: distinct_update)
qed simp

lemma new_conn_ok: "hub_ok s \<Longrightarrow> new_conn combined s = (c, s') \<Longrightarrow> hub_ok s' \<and> c < length (bs_conns s')"
  unfolding new_conn_def hub_ok_def by (fastforce intro: less_SucI)

lemma push_first_ok: "hub_ok s \<Longrightarrow> push_first e now c pss s = Some s' \<Longrightarrow> hub_ok s'"
proof (induction pss arbitrary: s)
  case (Cons ps pss)
  then obtain s1 where s1: "(if ps_kind ps = KindDepth then pushDepthTo e now c ps s else Some s) = Some s1" "push_first e now c pss s1 = Some s'"
    by (auto simp: bind_eq_Some_conv)
  have "sends s (bin_upd c (\<lambda>x. snd (bin_trySend (f x) x)) s)" for f
    by (rule upd_sends) (use trySend_grows in \<open>metis prod.collapse\<close>)
  then have push: "hub_ok (case snap of Inl _ \<Rightarrow> s
      | Inr sn \<Rightarrow> bin_upd c (\<lambda>x. snd (bin_trySend (frameFor (ps_name ps) (depthPayload now sn) x) x)) s)" for snap :: "book_error + snapshot"
    using Cons.prems(1) by (auto intro: hub_ok_sends split: sum.split)
  have "hub_ok s1"
  proof (cases "ps_kind ps = KindDepth")
    case True
    define g where "g = (\<lambda>snap :: book_error + snapshot. case snap of Inl _ \<Rightarrow> s
      | Inr sn \<Rightarrow> bin_upd c (\<lambda>x. snd (bin_trySend (frameFor (ps_name ps) (depthPayload now sn) x) x)) s)"
    from s1(1) True have "do { snap \<leftarrow> engine_Snapshot e (ps_engineSym ps); Some (g snap) } = Some s1"
      by (simp add: pushDepthTo_def g_def)
    then obtain snap where "s1 = g snap" by (cases "engine_Snapshot e (ps_engineSym ps)") auto
    with push[of snap] show ?thesis by (simp add: g_def)
  next
    case False
    with s1(1) Cons.prems(1) show ?thesis by simp
  qed
  with Cons.IH s1(2) show ?case by blast
qed simp

lemma upgradeMarket_ok: "hub_ok s \<Longrightarrow> upgradeMarket e now pss combined s = Some s' \<Longrightarrow> hub_ok s'"
proof -
  assume a: "hub_ok s" "upgradeMarket e now pss combined s = Some s'"
  obtain c s1 where c: "new_conn combined s = (c, s1)" by fastforce
  note n = new_conn_ok[OF a(1) c]
  then have "hub_ok (bin_subscribeMarket c (map ps_name pss) s1)"
    using subscribe_ok[of "bs_market s1" "length (bs_conns s1)" c "map ps_name pss"] by (auto simp: hub_ok_def bin_subscribeMarket_def)
  with a(2) c show ?thesis by (auto simp: upgradeMarket_def intro: push_first_ok)
qed

lemma upgradeUser_ok: "hub_ok s \<Longrightarrow> hub_ok (upgradeUserData s)"
proof -
  assume a: "hub_ok s"
  obtain c s1 where c: "new_conn False s = (c, s1)" by fastforce
  from new_conn_ok[OF a c] c show ?thesis
    by (auto simp: upgradeUserData_def bin_subscribeUserData_def hub_ok_def distinct_bin_add)
qed

lemma conn_end_ok: "hub_ok s \<Longrightarrow> hub_ok (bin_conn_end c s)"
proof -
  assume a: "hub_ok s"
  have "hub_ok (bin_upd c bin_close s)" by (rule hub_ok_sends[OF a upd_sends[of s c bin_close, OF close_grows]])
  moreover have "hub_ok (bin_remove c t)" if "hub_ok t" for t
    using that unfolding hub_ok_def bin_remove_def
    by (auto simp: distinct_map_filter comp_def case_prod_beta distinct_removeAll)
  ultimately show ?thesis by (simp add: bin_conn_end_def)
qed

lemma hub_ok_step:
  assumes "hub_ok s" "bin_step op s = Some s'"
  shows "hub_ok s'"
proof (cases op)
  case (OpRaw e now nowNs seg)
  have "hub_ok (s\<lparr>bs_keys := k\<rparr>)" for k by (rule hub_ok_sends[OF assms(1)]) simp
  with assms(2) OpRaw show ?thesis
    by (auto simp: handleRawStream_def Let_def bind_eq_Some_conv split: if_splits option.splits prod.splits
        intro: upgradeUser_ok upgradeMarket_ok) (use assms(1) in simp_all)
next
  case (OpCombined e now raw)
  with assms show ?thesis
    by (auto simp: handleCombinedStream_def Let_def bind_eq_Some_conv split: if_splits sum.splits list.splits intro: upgradeMarket_ok)
next
  case (OpTick e now)
  with assms show ?thesis by (auto simp: pushDepthTick_def intro: hub_ok_sends push_streams_sends)
next
  case (OpTrade now executed t)
  have "hub_ok (s\<lparr>bs_tradeSeq := q\<rparr>)" for q by (rule hub_ok_sends[OF assms(1)]) simp
  with assms OpTrade show ?thesis
    by (auto simp: onBookTrade_def Let_def split: option.splits if_splits intro: hub_ok_sends[OF _ fanout_sends])
next
  case (OpReport delay rep)
  with assms show ?thesis
    by (auto simp: publish_report_def Let_def split: if_splits intro: hub_ok_sends[OF _ publishUser_sends] hub_ok_sends[OF _ set_differ_sends(4)])
next
  case (OpTimer i)
  have "hub_ok (s\<lparr>bs_delayed := l\<rparr>)" for l by (rule hub_ok_sends[OF assms(1)]) simp
  with assms OpTimer show ?thesis
    by (auto simp: publish_delayed_def split: if_splits intro: hub_ok_sends[OF _ publishUser_sends])
next
  case (OpWrite c)
  have "conn_grows x (bin_writePump x)" for x by (auto simp: conn_grows_def bin_writePump_def split: list.splits)
  with assms OpWrite show ?thesis by (auto intro: hub_ok_sends[OF _ upd_sends])
next
  case (OpGone c)
  with assms show ?thesis by (auto intro: conn_end_ok)
next
  case (OpKeys a fresh nowNs r)
  with assms show ?thesis
    by (auto simp: handleUserDataStream_def Let_def split: option.splits if_splits prod.splits intro: hub_ok_sends[OF assms(1)])
qed

lemma hub_ok_run: "hub_ok s \<Longrightarrow> bin_run ops s = Some s' \<Longrightarrow> hub_ok s'"
  by (induction ops arbitrary: s) (auto simp: bind_eq_Some_conv intro: hub_ok_step)

lemma hub_ok_new: "bin_run ops (bin_NewStreams sm) = Some s \<Longrightarrow> hub_ok s"
  by (rule hub_ok_run) (auto simp: hub_ok_def bin_NewStreams_def)

subsection \<open>Ticks\<close>

text \<open>C28: In any state that the server reaches, a tick that finds a change of a book sends it to every subscriber of the depth stream of the
  book that is still open afterwards, in the frame of its kind of connection, provided that no second name of a depth stream of the
  same book has subscribers.\<close>

theorem depth_tick_reaches_all:
  assumes "bin_run ops (bin_NewStreams sm) = Some s" "pushDepthTick e now s = Some s'" "parseStreamName (bs_symbols s) name = Some ps"
    "ps_kind ps = KindDepthDiff"
    "\<And>n ps'. n \<in> set (marketStreams s) \<Longrightarrow> n \<noteq> name \<Longrightarrow> parseStreamName (bs_symbols s) n = Some ps' \<Longrightarrow> ps_kind ps' = KindDepthDiff \<Longrightarrow>
      ps_engineSym ps' \<noteq> ps_engineSym ps"
    "engine_Snapshot e (ps_engineSym ps) = Some (Inr sn)" "fst (depth_diff now (bs_differ s) (ps_engineSym ps) sn) = Some u"
    "c \<in> set (bin_conns_of (bs_market s) name)" "\<not> bn_closed (bs_conns s' ! c)"
  shows "\<exists>fs gs. received s' c =
    received s c @ fs @ [frameFor name (DepthUpdateEvent now (ToUpper (ps_binSym ps)) u) (bs_conns s ! c)] @ gs"
proof -
  have ok: "hub_ok s" by (rule hub_ok_new[OF assms(1)])
  have c: "c < length (bs_conns s)" using hub_ok_conns(2)[OF ok] assms(8) by blast
  have "name \<in> set (marketStreams s)"
  proof (cases "map_of (bs_market s) name")
    case None
    with assms(8) show ?thesis by (simp add: bin_conns_of_def)
  next
    case (Some cs)
    then show ?thesis unfolding marketStreams_def by (force dest: map_of_SomeD)
  qed
  then obtain xs ys where names: "marketStreams s = xs @ name # ys" by (meson split_list)
  moreover have "distinct (marketStreams s)" using ok by (simp add: hub_ok_def marketStreams_def)
  ultimately have other: "name \<notin> set xs" by simp
  have split: "push_streams e now (as @ bs) t = do { t \<leftarrow> push_streams e now as t; push_streams e now bs t }" for as bs t
  proof (induction as arbitrary: t)
    case (Cons a as)
    then show ?case by (cases "push_stream e now a t") auto
  qed simp
  from assms(2) names obtain s1 s2 where s: "push_streams e now xs s = Some s1" "push_stream e now name s1 = Some s2"
    "push_streams e now ys s2 = Some s'" by (auto simp: pushDepthTick_def split bind_eq_Some_conv)
  note sn1 = push_streams_sends[OF ok s(1)]
  have ok1: "hub_ok s1" by (rule hub_ok_sends[OF ok sn1])
  note sn2 = push_stream_sends[OF ok1 s(2)]
  note sn3 = push_streams_sends[OF hub_ok_sends[OF ok1 sn2] s(3)]
  have "bs_differ s1 (ps_engineSym ps) = bs_differ s (ps_engineSym ps)"
    by (rule push_streams_differ[OF ok s(1)]) (use assms(5) names other in auto)
  from depth_diff_local(1)[of "bs_differ s1" "ps_engineSym ps" "bs_differ s" now sn, OF this] assms(7) have u: "fst (depth_diff now (bs_differ s1) (ps_engineSym ps) sn) = Some u" by simp
  have m: "bs_market s1 = bs_market s" "bs_symbols s1 = bs_symbols s" "length (bs_conns s2) = length (bs_conns s)"
    "length (bs_conns s1) = length (bs_conns s)" using sn1 sn2 by (auto simp: sends_def)
  have open2: "\<not> bn_closed (bs_conns s2 ! c)" using sn3 c m assms(9) by (auto simp: sends_def conn_grows_def)
  have "received s2 c = received s1 c @ [frameFor name (DepthUpdateEvent now (ToUpper (ps_binSym ps)) u) (bs_conns s1 ! c)]"
    by (rule push_diff_frame[OF ok1 s(2) _ assms(4,6) u _ open2]) (use assms(3,8) m in simp_all)
  moreover have "frameFor n p (bs_conns s1 ! c) = frameFor n p (bs_conns s ! c)" for n p
    using sn1 c by (auto simp: sends_def conn_grows_def frameFor_def)
  moreover obtain fs where "received s1 c = received s c @ fs" using sends_received[OF sn1 c] by blast
  moreover obtain gs where "received s' c = received s2 c @ gs" using sends_received[OF sn3] c m by auto
  ultimately show ?thesis by (intro exI[of _ fs] exI[of _ gs]) simp
qed

text \<open>A second difference to the same book is none.\<close>

lemma depth_diff_again:
  assumes "depth_diff now d sm sn = (upd, d')" "\<And>st b a. d sm = Some st \<Longrightarrow> sd_books st = Some (b, a) \<Longrightarrow> proper b \<and> proper a"
  shows "depth_diff now' d' sm sn = (None, d')"
proof -
  obtain cb ca where c: "snapMaps sn = (cb, ca)" by fastforce
  note proper = snapMaps_proper[OF c]
  obtain st d1 where st: "depth_stateLocked now d sm = (st, d1)" by fastforce
  have same: "depth_diff now' d' sm sn = (None, d')"
    if "d' sm = Some st'" "sd_books st' = Some (pb, pa)" "proper pb" "proper pa" "map_of pb = map_of cb" "map_of pa = map_of ca" for st' pb pa
    using that c diffSide_Nil proper by (simp add: depth_diff_def depth_stateLocked_def)
  show ?thesis
  proof (cases "sd_books st")
    case None
    with assms(1) st c have "d' sm = Some (st\<lparr>sd_books := Some (cb, ca)\<rparr>)" by (auto simp: depth_diff_def)
    then show ?thesis using proper by (intro same) auto
  next
    case (Some books)
    obtain pb pa where books: "books = (pb, pa)" by fastforce
    have d: "d sm = Some st" using stateLocked_eq[OF st] Some by auto
    then have pp: "proper pb" "proper pa" using assms(2) Some books by auto
    have b: "sd_books st = Some (pb, pa)" using Some books by simp
    from d b pp c show ?thesis
    proof (cases rule: depth_diff_seeded[of d sm st pb pa sn cb ca now])
      case quiet
      with assms(1) d have "d' sm = Some st" by simp
      from same[OF this b pp quiet(2,3)] show ?thesis .
    next
      case (changed u)
      with assms(1) show ?thesis using proper by (intro same) auto
    qed
  qed
qed

text \<open>So within a tick the second name of a depth stream of the same book sends nothing, whatever its subscribers have missed.\<close>

lemma depth_alias_starved:
  assumes "hub_ok s" "depth_reached (bs_differ s)" "push_stream e now n1 s = Some s1" "bin_hasSubscribers n1 s"
    "parseStreamName (bs_symbols s) n1 = Some p1" "ps_kind p1 = KindDepthDiff" "engine_Snapshot e (ps_engineSym p1) = Some (Inr sn)"
    "parseStreamName (bs_symbols s) n2 = Some p2" "ps_kind p2 = KindDepthDiff" "ps_engineSym p2 = ps_engineSym p1"
  shows "push_stream e now n2 s1 = Some s1"
proof -
  obtain upd d where d: "depth_diff now (bs_differ s) (ps_engineSym p1) sn = (upd, d)" by fastforce
  have ok: "hub_ok (s\<lparr>bs_differ := d\<rparr>)" by (rule hub_ok_sends[OF assms(1)]) simp
  have "s1 = (case upd of None \<Rightarrow> s\<lparr>bs_differ := d\<rparr>
      | Some u \<Rightarrow> bin_fanout (ps_name p1) (DepthUpdateEvent now (ToUpper (ps_binSym p1)) u) (s\<lparr>bs_differ := d\<rparr>))"
    using assms(3-7) d by (simp add: push_stream_def broadcastDepthDiff_def Let_def)
  then have "bs_differ s1 = d" using ok by (auto simp: fanout_differ split: option.splits)
  moreover have "depth_diff now d (ps_engineSym p1) sn = (None, d)"
    by (rule depth_diff_again[OF d]) (use assms(2) reached_proper in blast)
  moreover have "bs_symbols s1 = bs_symbols s" using push_stream_sends[OF assms(1,3)] by (simp add: sends_def)
  ultimately show ?thesis
    using assms(7-10) by (simp add: push_stream_def broadcastDepthDiff_def)
qed

text \<open>A client of one stream: it joins and a tick seeds the differ while the book is empty, then an ask comes to rest.\<close>

definition exs_engine :: "order_book \<Rightarrow> engine" where
  "exs_engine b = engine_New b (\<lambda>_ _. Some None)"

definition exs_name :: string where "exs_name = ''BTCUSDT@depth''"

definition exs_symbols :: symbol_map where
  "exs_symbols = NewSymbolMap [(''BTCUSDT'', ''BTC-USD'')]"

definition exs_stream :: parsed_stream where
  "exs_stream = \<lparr>ps_name = exs_name, ps_binSym = ''BTCUSDT'', ps_engineSym = ''BTC-USD'', ps_kind = KindDepthDiff\<rparr>"

definition exs_snap :: snapshot where
  "exs_snap = \<lparr>sn_Instrument = ''BTC-USD'', sn_Bids = [], sn_Asks = [\<lparr>lv_Price = Decimal 0 100, lv_Volume = Decimal 0 5\<rparr>],
     sn_LastTrade = None, sn_BestBid = Zero, sn_BestAsk = Decimal 0 100\<rparr>"

lemma exs_empty: "engine_Snapshot (exs_engine (NewOrderBook int [''BTC-USD''])) ''BTC-USD'' =
    Some (Inr (exs_snap\<lparr>sn_Asks := [], sn_BestAsk := Zero\<rparr>))"
  by (simp add: engine_Snapshot_def exs_engine_def engine_New_def NewOrderBook_def Snapshot_def lookup_def aggregateLevels_def
      empty_book_def exs_snap_def)

lemma exs_ask: "engine_Snapshot (exs_engine ex_book) ''BTC-USD'' = Some (Inr exs_snap)"
  by (simp add: engine_Snapshot_def exs_engine_def engine_New_def ex_snapshot exs_snap_def)

lemma exs_parsed: "parseStreamName exs_symbols exs_name = Some exs_stream"
  by (simp add: parseStreamName_def exs_symbols_def exs_name_def exs_stream_def NewSymbolMap_def add_pair_def resolveStreamSymbol_def
      ToEngine_def kind_of_def)

definition exs_state :: bin_streams where
  "exs_state = \<lparr>bs_symbols = exs_symbols, bs_conns = [bin_newConn False], bs_market = [(exs_name, [0])], bs_userData = [],
     bs_differ = [''BTC-USD'' \<mapsto> \<lparr>sd_lastID = 0, sd_books = Some ([], [])\<rparr>], bs_keys = Map.empty, bs_tradeSeq = 0, bs_delayed = []\<rparr>"

lemma exs_run: "bin_run [OpRaw (exs_engine (NewOrderBook int [''BTC-USD''])) 0 0 exs_name, OpTick (exs_engine (NewOrderBook int [''BTC-USD''])) 0]
    (bin_NewStreams exs_symbols) = Some exs_state"
proof -
  have n: "exs_name \<noteq> []" "CHR ''/'' \<notin> set exs_name" by (simp_all add: exs_name_def)
  show ?thesis
    by (simp add: handleRawStream_def n key_valid_def bin_NewStreams_def exs_parsed upgradeMarket_def new_conn_def bin_subscribeMarket_def
        bin_conns_of_def bin_add_def exs_stream_def pushDepthTick_def marketStreams_def push_stream_def bin_hasSubscribers_def
        broadcastDepthDiff_def exs_empty depth_diff_def snapMaps_def snap_side_def depth_stateLocked_def exs_state_def Let_def)
       (simp add: exs_snap_def)
qed

theorem depth_tick_reaches_all_witness:
  "\<exists>s' u fs gs. pushDepthTick (exs_engine ex_book) 1 exs_state = Some s' \<and>
     received s' 0 = fs @ [RawFrame (DepthUpdateEvent 1 ''BTCUSDT'' u)] @ gs"
proof -
  have "StringPrec (Decimal 0 5) 8 \<noteq> []" using StringPrec_long[of 8] by simp
  then have "\<exists>u. fst (depth_diff 1 (bs_differ exs_state) ''BTC-USD'' exs_snap) = Some u"
    by (simp add: depth_diff_def snapMaps_def snap_side_def exs_snap_def depth_stateLocked_def exs_state_def diffSide_def text_at_def
        qtyPrec_def Let_def)
  then obtain u where u: "fst (depth_diff 1 (bs_differ exs_state) ''BTC-USD'' exs_snap) = Some u" by blast
  then obtain d where d: "depth_diff 1 (bs_differ exs_state) ''BTC-USD'' exs_snap = (Some u, d)" by (metis prod.collapse)
  let ?s' = "bin_fanout exs_name (DepthUpdateEvent 1 (ToUpper ''BTCUSDT'') u) (exs_state\<lparr>bs_differ := d\<rparr>)"
  have facts: "bs_symbols exs_state = exs_symbols" "bs_market exs_state = [(exs_name, [0])]" "bs_conns exs_state = [bin_newConn False]"
    by (simp_all add: exs_state_def)
  have tick: "pushDepthTick (exs_engine ex_book) 1 exs_state = Some ?s'"
    using exs_ask d by (simp add: pushDepthTick_def marketStreams_def push_stream_def facts exs_parsed bin_hasSubscribers_def bin_conns_of_def
        broadcastDepthDiff_def exs_stream_def)
  have alive: "\<not> bn_closed (bs_conns ?s' ! 0)"
    by (simp add: bin_fanout_def publishMarketFunc_def bin_conns_of_def facts bin_trySend_def bin_newConn_def bin_sendBuffer_def
        bin_dropAll_def bin_upd_def)
  have "ToUpper ''BTCUSDT'' = ''BTCUSDT''" by code_simp
  moreover obtain fs gs where "received ?s' 0 = received exs_state 0 @ fs @
      [frameFor exs_name (DepthUpdateEvent 1 (ToUpper (ps_binSym exs_stream)) u) (bs_conns exs_state ! 0)] @ gs"
    using depth_tick_reaches_all[OF exs_run tick, of exs_name exs_stream exs_snap u 0] u alive exs_ask exs_parsed
    by (auto simp: facts exs_stream_def marketStreams_def bin_conns_of_def)
  ultimately show ?thesis
    using tick by (intro exI[of _ ?s'] exI[of _ u] exI[of _ "received exs_state 0 @ fs"] exI[of _ gs])
      (simp add: frameFor_def facts bin_newConn_def exs_stream_def)
qed

definition exs_ops :: "key_op list" where
  "exs_ops = [KeyCreate ''k'' 0, KeyKeepalive ''k'' 3600000000000]"

theorem listen_key_lifetime_witness: "fst (key_valid ''k'' 7000000000000 (fold key_step exs_ops Map.empty))"
proof -
  have "sorted (map key_time exs_ops @ [7000000000000])" by (simp add: exs_ops_def)
  moreover have "fold (touched ''k'') exs_ops None = Some 3600000000000" by (simp add: exs_ops_def listenKeyTTL_def)
  ultimately show ?thesis using listen_key_lifetime[of exs_ops 7000000000000 "''k''"] by (simp add: listenKeyTTL_def)
qed

end
