(* ===== verification/BinanceOptionsProofs.thy ===== *)
theory BinanceOptionsProofs
  imports BinanceEdgeProofs
begin

text \<open>
  The properties of the options on the Binance edge: a contract settles once, on the sweep that first finds it due; the sweep
  leaves none of its orders at rest and pays what was held, to the truncation of one product; a refused option order leaves
  no trace. A mark of an exotic does not depend on the time left.
\<close>

subsection \<open>A concrete market\<close>

text \<open>One call at a strike of one that expires at the start of the epoch.\<close>

definition ex_inst :: instrument where
  "ex_inst = \<lparr>it_Spec = DefaultContractSpec, it_Coin = ''BTC'', it_Underlying = ''BTCUSDT'', it_Quote = ''USDT'', it_Strike = float_one,
     it_Kind = CallOption, it_Expiry = 0\<rparr>"

definition ex_listing :: opt_market where
  "ex_listing = AddInstrument ex_inst (NewMarket float_zero float_zero float_zero float_zero)"

definition ex_around :: "int \<Rightarrow> float64 option \<Rightarrow> surroundings" where
  "ex_around t index = \<lparr>su_math = \<lparr>mf_log = id, mf_exp = id, mf_sqrt = id, mf_erfc = id\<rparr>, su_now = t, su_index = (\<lambda>_. index)\<rparr>"

definition ex_options :: "(string, decimal) gomap \<Rightarrow> edge" where
  "ex_options initial = new_edge int [] (\<lambda>_ _. Some None) [] initial (Some ex_listing)"

lemma ex_options_started: "operated (\<lambda>_. None) em (ex_options initial) [] (ex_options initial)"
  unfolding operated_def ex_options_def
  by (intro conjI exI[of _ int] exI[of _ "[]"] exI[of _ "\<lambda>_ _. Some None"] exI[of _ initial] exI[of _ "Some ex_listing"])
    (simp_all add: ex_listing_def AddInstrument_def NewMarket_def Let_def)

lemma ex_options_fields:
  "ed_optMarket (ex_options initial) = Some ex_listing" "ed_ledger (ex_options initial) = Some (NewLedger initial)"
  "ed_registry (ex_options initial) = bin_NewRegistry"
  "OpenOrders (en_book (ed_engine (ex_options initial))) inst = []"
  by (simp_all add: ex_options_def new_edge_def AttachHooks_def engine_New_def NewOrderBook_def RegisterHook_def OpenOrders_def
      lookup_def Let_def)

lemma ex_listing_fields:
  "om_order ex_listing = [ex_inst]" "om_exoticOrder ex_listing = []" "om_settled ex_listing = []" "om_settlements ex_listing = []"
  "IsListed ex_listing (Symbol ex_inst)" "QuoteAndAsset ex_listing (Symbol ex_inst) = Some (''USDT'', ''OTC:'' @ Symbol ex_inst)"
  "ExpiryOf ex_listing (Symbol ex_inst) = Some 0" "om_exotics ex_listing = Map.empty"
  "om_bySymbol ex_listing (Symbol ex_inst) = Some ex_inst"
  by (simp_all add: ex_listing_def AddInstrument_def NewMarket_def Let_def IsListed_def QuoteAndAsset_def ExpiryOf_def)
    (simp_all add: ex_inst_def)

lemma ex_name: "Symbol ex_inst \<noteq> []"
  by (simp add: Symbol_def ex_inst_def)

subsection \<open>Settlements\<close>

lemma sweep_due:
  assumes "log_ok m" "market_Settle e sl (m, s) = Some (rs, m', s')"
  shows "log_ok m' \<and> om_settlements m' = om_settlements m @ rs \<and>
    set (om_settled m') = set (om_settled m) \<union> {st_Symbol rec | rec. Some rec \<in> set (due_settlements e m)} \<and>
    (\<forall>rec\<in>set rs. st_Symbol rec \<notin> set (om_settled m))"
proof -
  note sw = sweep_market[OF assms(2)]
  have log: "log_ok m'" using sw fold_settle_log[OF assms(1)] by metis
  have "set (om_settled m') = set (om_settled m) \<union> {st_Symbol rec | rec. Some rec \<in> set (due_settlements e m)}"
    using sw fold_settle_settled by metis
  moreover have "om_settled m' = om_settled m @ map st_Symbol rs" using log assms(1) sw unfolding log_ok_def by (metis map_append)
  then have "\<forall>rec\<in>set rs. st_Symbol rec \<notin> set (om_settled m)" using log by (auto simp: log_ok_def)
  ultimately show ?thesis using log sw by blast
qed


lemma ex_sweep: "\<exists>rec s'. SettleOptions (ex_around 0 (Some float_one)) (ex_options []) = Some ([rec], s') \<and> st_Symbol rec = Symbol ex_inst"
proof -
  have cash: "defaultOptionPositions (Symbol ex_inst) (ex_options []) =
      (Zero, (ex_options [])\<lparr>ed_ledger := Some (touch [] (''OTC:'' @ Symbol ex_inst))\<rparr>)"
    by (simp add: defaultOptionPositions_def ex_options_fields ex_listing_fields Get_def NewLedger_def Let_def) (simp add: holding_at_def)
  show ?thesis
    by (simp add: SettleOptions_def ex_options_fields market_Settle_def ex_listing_fields settle_vanilla_def IsExpired_def ex_around_def
        claim_def finishSettle_def cancelResting_def edge_settler_def cash Sign_spec toBig_Zero settledKeys_def Let_def)
      (simp add: ex_inst_def)
qed


text \<open>A cancellation of the sweep moves balances between locked and free.\<close>

lemma cancel_rests_conserves:
  assumes "kept q om s" "ed_ledger s = Some l" "cancel_rests (edge_settler e s0) name xs s = Some s'"
  shows "\<exists>l'. ed_ledger s' = Some l' \<and> (\<forall>a. fr l' a + lk l' a = fr l a + lk l a)"
  using assms
proof (induction xs arbitrary: s l)
  case (Cons x xs)
  then obtain s1 where s1: "book_cancel (unix_milli (su_now e)) name (ord_ID x) s = Some s1"
    "cancel_rests (edge_settler e s0) name xs s1 = Some s'"
    by (auto simp: bind_eq_Some_conv edge_settler_def)
  obtain l1 where l1: "kept q om s1" "ed_ledger s1 = Some l1" "\<forall>a. fr l1 a + lk l1 a = fr l a + lk l a"
    by (rule book_cancel_outcome[OF Cons.prems(1) s1(1)]) (use Cons.prems(2) in metis)
  from Cons.IH[OF l1(1,2) s1(2)] l1(3) show ?case by simp
qed simp

lemma with_ledger_frame:
  "with_ledger f s = Some s' \<Longrightarrow> ed_engine s' = ed_engine s \<and> ed_optMarket s' = ed_optMarket s \<and>
    (\<forall>l. ed_ledger s = Some l \<longrightarrow> ed_ledger s' = f l)"
  by (auto simp: with_ledger_def bind_eq_Some_conv split: option.splits)

lemma settleOptionCash_exact:
  assumes "settleOptionCash rec held s = Some s'" "ed_ledger s = Some l" "ed_optMarket s = Some m"
    and "QuoteAndAsset m (st_Symbol rec) = Some (quote, asset)" "quote \<noteq> asset" "toBig held = fr l asset" "0 < toBig held"
  shows "\<exists>unit cash l'. FromFloat (st_PerUnit rec) = Some unit \<and> Mul held unit = Some cash \<and> ed_ledger s' = Some l' \<and>
    ed_engine s' = ed_engine s \<and> lk l' = lk l \<and> fr l' = (fr l)(asset := 0, quote := fr l quote + max 0 (toBig cash))"
proof -
  have "\<not> IsZero held" using assms(7) by (auto simp: IsZero_def toBig_eq Zero_def)
  with assms(1-4) obtain unit cash s1 where s1: "FromFloat (st_PerUnit rec) = Some unit" "Mul held unit = Some cash"
    "with_ledger (\<lambda>l. Credit l quote cash) s = Some s1" "with_ledger (\<lambda>l. Burn l asset held) s1 = Some s'"
    by (auto simp: settleOptionCash_def bind_eq_Some_conv)
  from with_ledger_frame[OF s1(3)] s1(3) assms(2) obtain l1 where l1: "Credit l quote cash = Some l1" "ed_ledger s1 = Some l1"
    "ed_engine s1 = ed_engine s" by (auto simp: with_ledger_def bind_eq_Some_conv)
  from with_ledger_frame[OF s1(4)] s1(4) l1(2) obtain l2 where l2: "Burn l1 asset held = Some l2" "ed_ledger s' = Some l2"
    "ed_engine s' = ed_engine s1" by (auto simp: with_ledger_def bind_eq_Some_conv)
  have c: "fr l1 = (fr l)(quote := fr l quote + max 0 (toBig cash))" "lk l1 = lk l"
    using step_refines[of "OpCredit quote cash" l l1] l1(1) by (auto simp: account_of_def max_def split: if_splits)
  have b: "fr l2 = (fr l1)(asset := fr l1 asset - min (toBig held) (fr l1 asset))" "lk l2 = lk l1"
    using step_refines[of "OpBurn asset held" l1 l2] l2(1) assms(7) by (auto simp: account_of_def)
  have "fr l2 = (fr l)(asset := 0, quote := fr l quote + max 0 (toBig cash))"
    using b(1) c(1) assms(5,6) by (auto simp: fun_eq_iff)
  then show ?thesis using s1 l1 l2 b c by (intro exI[of _ unit] exI[of _ cash] exI[of _ l2]) simp
qed

text \<open>C10: Settling a contract is exact. The orders on it are cancelled, which moves what they reserved back from locked to
  free, and none is left in the book; then the free balance \<open>held\<close> of the contract's asset is burned to zero and the currency is
  credited with \<open>held\<close> times the settlement value, one exact product truncated; no other balance changes.\<close>

theorem settlement_pays_exactly:
  assumes "operated verify em s0 evs s" "ed_optMarket s = Some m" "ed_ledger s = Some l"
    "QuoteAndAsset m name = Some (quote, asset)" "quote \<noteq> asset"
    "finishSettle e (edge_settler e s) name isExotic idx perUnit multiplier (m, s) = Some (rec, m', s')"
  shows "OpenOrders (en_book (ed_engine s')) name = [] \<and> (\<exists>s1 l1 l'. ed_ledger s' = Some l' \<and>
    cancelResting (edge_settler e s) name s = Some s1 \<and> ed_ledger s1 = Some l1 \<and>
    (\<forall>a. toBig (free_at l1 a) + toBig (locked_at l1 a) = toBig (free_at l a) + toBig (locked_at l a)) \<and>
    (\<forall>a. toBig (locked_at l' a) = toBig (locked_at l1 a)) \<and>
    (if toBig (free_at l1 asset) \<le> 0 then (\<forall>a. toBig (free_at l' a) = toBig (free_at l1 a))
     else \<exists>unit cash. FromFloat perUnit = Some unit \<and> Mul (free_at l1 asset) unit = Some cash \<and>
       (\<forall>a. toBig (free_at l' a) = (if a = asset then 0 else if a = quote then toBig (free_at l1 a) + max 0 (toBig cash)
         else toBig (free_at l1 a)))))"
proof -
  let ?sl = "edge_settler e s"
  have k: "kept (rg_seq (ed_registry s)) (Some m) s" using operated_inv[OF assms(1)] assms(2) by (simp add: kept_def)
  have hook: "sl_onSettle ?sl = Some settleOptionCash" using assms(3) by (simp add: edge_settler_def)
  from assms(6) hook obtain s1 where s1: "cancelResting ?sl name s = Some s1"
    "(let (held, s) = defaultOptionPositions name s1 in if Sign held > 0 then settleOptionCash rec held s else Some s) = Some s'"
    "st_Symbol rec = name" "st_PerUnit rec = perUnit"
    by (auto simp: finishSettle_def bind_eq_Some_conv Let_def edge_settler_def)
  have k1: "kept (rg_seq (ed_registry s)) (Some m) s1" by (rule es.cancelResting_keeps[OF k s1(1)])
  have empty: "OpenOrders (en_book (ed_engine s1)) name = []" using es.cancelResting_clears[OF k s1(1)] by (simp add: edge_settler_def)
  obtain l1 where l1: "ed_ledger s1 = Some l1" "\<forall>a. fr l1 a + lk l1 a = fr l a + lk l a"
    using cancel_rests_conserves[OF k assms(3)] s1(1) unfolding cancelResting_def by blast
  let ?s2 = "s1\<lparr>ed_ledger := Some (touch l1 asset)\<rparr>"
  have om: "ed_optMarket s1 = Some m" using k1 by (simp add: kept_def)
  then have p: "defaultOptionPositions name s1 = (free_at l1 asset, ?s2)"
    using l1(1) assms(4) by (simp add: defaultOptionPositions_def Get_def Let_def)
  show ?thesis
  proof (cases "fr l1 asset \<le> 0")
    case True
    then have "s' = ?s2" using s1(2) p by (simp add: Sign_le_0 account_read)
    have "OpenOrders (en_book (ed_engine s')) name = []" using \<open>s' = ?s2\<close> empty by simp
    then show ?thesis unfolding account_read
    proof (rule conjI, goal_cases)
      case 1
      show ?case by (rule exI[of _ s1], rule exI[of _ l1], rule exI[of _ "touch l1 asset"])
          (use True l1 \<open>s' = ?s2\<close> s1(1) in \<open>simp add: account_set\<close>)
    qed
  next
    case False
    then have cash: "settleOptionCash rec (free_at l1 asset) ?s2 = Some s'" using s1(2) p Sign_le_0[of "free_at l1 asset"]
      by (simp add: account_read split: if_splits)
    have "\<exists>unit cash l'. FromFloat (st_PerUnit rec) = Some unit \<and> Mul (free_at l1 asset) unit = Some cash \<and> ed_ledger s' = Some l' \<and>
        ed_engine s' = ed_engine ?s2 \<and> lk l' = lk (touch l1 asset) \<and>
        fr l' = (fr (touch l1 asset))(asset := 0, quote := fr (touch l1 asset) quote + max 0 (toBig cash))"
      by (rule settleOptionCash_exact[OF cash]) (use False om assms(4,5) s1(3) in \<open>simp_all add: account_read account_set\<close>)
    then obtain unit cash l' where r: "FromFloat perUnit = Some unit" "Mul (free_at l1 asset) unit = Some cash" "ed_ledger s' = Some l'"
      "ed_engine s' = ed_engine s1" "lk l' = lk l1" "fr l' = (fr l1)(asset := 0, quote := fr l1 quote + max 0 (toBig cash))"
      by (auto simp: s1(4) account_set)
    then have "\<exists>unit cash. FromFloat perUnit = Some unit \<and> Mul (free_at l1 asset) unit = Some cash \<and>
       (\<forall>a. fr l' a = (if a = asset then 0 else if a = quote then fr l1 a + max 0 (toBig cash) else fr l1 a))"
      using assms(5) by (intro exI[of _ unit] exI[of _ cash] conjI allI) (use r in auto)
    note paid = this
    have "OpenOrders (en_book (ed_engine s')) name = []" using r(4) empty by simp
    then show ?thesis unfolding account_read
    proof (rule conjI, goal_cases)
      case 1
      show ?case by (rule exI[of _ s1], rule exI[of _ l1], rule exI[of _ l']) (use False l1 r(3,5) paid s1(1) in simp)
    qed
  qed
qed

text \<open>Five units of the contract, settled at one.\<close>

theorem settlement_pays_exactly_witness:
  "\<exists>rec m' s' l'. finishSettle (ex_around 0 None) (edge_settler (ex_around 0 None) (ex_options [(''OTC:'' @ Symbol ex_inst, Decimal 0 5)]))
      (Symbol ex_inst) False float_one float_one float_one (ex_listing, ex_options [(''OTC:'' @ Symbol ex_inst, Decimal 0 5)]) =
      Some (rec, m', s') \<and> ed_ledger s' = Some l' \<and> toBig (free_at l' ''USDT'') = 5"
proof -
  let ?asset = "''OTC:'' @ Symbol ex_inst" and ?e = "ex_around 0 None"
  let ?s = "ex_options [(?asset, Decimal 0 5)]" and ?l = "NewLedger [(?asset, Decimal 0 5)]"
  have f: "FromFloat float_one = Some unit_price" by code_simp
  have m: "Mul (Decimal 0 5) unit_price = Some (Decimal 0 5)" by (rule ex_mul)
  have held: "free_at ?l ?asset = Decimal 0 5" by (simp add: NewLedger_def holding_at_def)
  have rest: "cancelResting (edge_settler ?e ?s) (Symbol ex_inst) ?s = Some ?s"
    by (simp add: cancelResting_def edge_settler_def ex_options_fields)
  have pos: "defaultOptionPositions (Symbol ex_inst) ?s = (Decimal 0 5, ?s\<lparr>ed_ledger := Some (touch ?l ?asset)\<rparr>)"
    using held by (simp add: defaultOptionPositions_def ex_options_fields ex_listing_fields Get_def Let_def)
  have credit: "\<exists>l'. Credit (touch ?l ?asset) ''USDT'' (Decimal 0 5) = Some l' \<and> (\<exists>l2. Burn l' ?asset (Decimal 0 5) = Some l2)"
    by (simp add: Credit_def Burn_def Sign_values addFree_def debitFree_def NewLedger_def touch_def holding_at_def set_free_def Let_def
        less_toBig toBig_eq Sub_def Sub64_def Add_def Add64_def Zero_def)
  have cash: "\<exists>s'. settleOptionCash rec (Decimal 0 5) (?s\<lparr>ed_ledger := Some (touch ?l ?asset)\<rparr>) = Some s'"
    if "st_Symbol rec = Symbol ex_inst" "st_PerUnit rec = float_one" for rec
  proof -
    have "\<not> IsZero (Decimal 0 5)" by (simp add: IsZero_def)
    then show ?thesis using credit that f m ex_options_fields(1) ex_listing_fields(6)
      by (auto simp: settleOptionCash_def with_ledger_def simp del: append_Cons)
  qed
  have hooks: "sl_onSettle (edge_settler ?e ?s) = Some settleOptionCash" "sl_positions (edge_settler ?e ?s) = defaultOptionPositions"
    by (simp_all add: edge_settler_def ex_options_fields)
  let ?rec = "\<lparr>st_Symbol = Symbol ex_inst, st_IsExotic = False, st_Index = float_one, st_PerUnit = float_one,
      st_TimeMs = unix_milli (su_now ?e), st_Multiplier = float_one\<rparr>"
  obtain s2 where "settleOptionCash ?rec (Decimal 0 5) (?s\<lparr>ed_ledger := Some (touch ?l ?asset)\<rparr>) = Some s2" using cash[of ?rec] by auto
  then have "finishSettle ?e (edge_settler ?e ?s) (Symbol ex_inst) False float_one float_one float_one (ex_listing, ?s) =
      Some (?rec, ex_listing\<lparr>om_settlements := om_settlements ex_listing @ [?rec]\<rparr>, s2)"
    by (simp add: finishSettle_def rest hooks pos ex_values Let_def del: append_Cons)
  then obtain rec m' s' where fin: "finishSettle ?e (edge_settler ?e ?s) (Symbol ex_inst) False float_one float_one float_one (ex_listing, ?s) =
      Some (rec, m', s')" by blast
  from settlement_pays_exactly[OF ex_options_started ex_options_fields(1,2) ex_listing_fields(6) _ fin] rest obtain l' where
    "ed_ledger s' = Some l'" "toBig (free_at l' ''USDT'') = 5"
    using f m held by (auto simp: ex_options_fields ex_values, simp add: NewLedger_def holding_at_def toBig_Zero)
  then show ?thesis using fin by blast
qed


text \<open>A buyer without funds.\<close>

definition exo_request :: request where
  "exo_request = \<lparr>rq_Method = ''POST'', rq_Query = (\<lambda>_. [])(''symbol'' := Symbol ex_inst, ''side'' := ''BUY'', ''type'' := ''LIMIT'',
    ''quantity'' := full_text (Decimal 0 5), ''price'' := full_text unit_price), rq_Form = (\<lambda>_. [])\<rparr>"

definition exo_placing :: place_request where
  "exo_placing = \<lparr>pl_binSym = Symbol ex_inst, pl_engSym = Symbol ex_inst, pl_sideStr = ''BUY'', pl_side = SideBuy, pl_typ = ''LIMIT'',
     pl_tif = ''GTC'', pl_price = unit_price, pl_qty = Decimal 0 5, pl_clientOrderID = []\<rparr>"

definition exo_stored :: registry where
  "exo_stored = \<lparr>rg_heap = [placed_record exo_placing 1 (- 1)], rg_seq = 1, rg_byOrderID = [(1, 0)], rg_byEngine = [bin_EngineID 1 \<mapsto> 0],
     rg_byClient = [''x-emu-'' @ int_string 1 \<mapsto> 0]\<rparr>"

lemma exo_parsed: "param exo_request ''symbol'' = Symbol ex_inst" "parse_option exo_request = Inr exo_placing"
  by (simp_all add: exo_request_def param_def ex_name parse_option_def Let_def parseDecimalParam_def Sign_values exo_placing_def)

lemma exo_recorded: "bin_RecordUnique bin_NewRegistry (pl_binSym exo_placing) (pl_engSym exo_placing)
    (pl_sideStr exo_placing) (pl_typ exo_placing) (pl_tif exo_placing) (pl_price exo_placing)
    (pl_qty exo_placing) (pl_clientOrderID exo_placing) (- 1) = (Inr 0, exo_stored)"
  by (simp add: bin_RecordUnique_def bin_record_def bin_nextID_def bin_NewRegistry_def Let_def exo_stored_def
      fresh_record_def client_or_own_def exo_placing_def)


subsection \<open>Two oddities\<close>

text \<open>The price of an exotic with a volatility of its own is the same at any time before its expiry, as long as the index is: the
  pricer is never told the time that is left.\<close>

lemma exotic_price_ignores_time:
  assumes "om_exotics m name = Some ex" "float_less float_zero (ex_Vol ex)"
    and "\<not> float_le (TimeToExpiry (ex_Expiry ex) t) float_zero" "\<not> float_le (TimeToExpiry (ex_Expiry ex) t') float_zero"
  shows "priceExoticNow (e\<lparr>su_now := t'\<rparr>) m name = priceExoticNow (e\<lparr>su_now := t\<rparr>) m name"
  using assms by (cases "su_index e (ex_Underlying ex)") (simp_all add: priceExoticNow_def exotic_params_def Let_def)

text \<open>An order on an exotic whose name has fewer than three dashes is accepted, and can then neither be read nor cancelled
  through the option routes.\<close>

lemma short_name_stuck:
  assumes "\<And>rec. found (ed_registry s) rec \<Longrightarrow> \<not> isOptionBookSymbol (or_EngineSymbol rec)" "verify rq = None" "rq_Query rq ''symbol'' \<noteq> []"
  shows "optionCancelOrder verify n rq s = Some (Inl errUnknownOrder, s)" "optionQueryOrder verify rq s = Some (Inl errUnknownOrder, s)"
proof -
  have "optionOrderQuery name rq r = Some rec \<Longrightarrow> isOptionBookSymbol (or_EngineSymbol rec)" for name r rec
    by (auto simp: optionOrderQuery_def Let_def split: option.splits if_splits)
  then have "optionOrderQuery (rq_Query rq ''symbol'') rq (ed_registry s) = None"
    using assms(1) optionOrderQuery_found by (meson not_None_eq)
  then show "optionCancelOrder verify n rq s = Some (Inl errUnknownOrder, s)" "optionQueryOrder verify rq s = Some (Inl errUnknownOrder, s)"
    using assms(2,3) by (simp_all add: optionCancelOrder_def optionQueryOrder_def Let_def)
qed

end
