(* ===== verification/OptionContractProofs.thy ===== *)
theory OptionContractProofs
  imports OptionContract
begin

text \<open>
  The names of a listed option in the forms of the four venues are read back as its terms; and what the parser of
  names accepts besides.
\<close>

subsection \<open>Digits of dates\<close>

lemma two_digits_value:
  assumes "0 \<le> n" "n < 100"
  shows "list_all isDigit (two_digits n)" "length (two_digits n) = 2" "digits_value (two_digits n) = n"
proof -
  have "nat n div 10 < 10" using assms by linarith
  moreover have "int (nat n div 10) = n div 10" using assms(1) by (simp add: zdiv_int)
  ultimately show "list_all isDigit (two_digits n)" "length (two_digits n) = 2" "digits_value (two_digits n) = n"
    using assms(1) by (simp_all add: two_digits_def zmod_int)
qed

lemma parse_two_digits: "0 \<le> n \<Longrightarrow> n < 100 \<Longrightarrow> parse_two (two_digits n) = Some n"
  by (simp add: parse_two_def two_digits_value)

lemma parse_year_digits:
  assumes "1969 \<le> y" "y \<le> 2068"
  shows "parse_year (two_digits (y mod 100)) = Some y"
proof -
  have n: "0 \<le> y mod 100" "y mod 100 < 100" by simp_all
  note v = two_digits_value[OF n]
  have "two_digits (y mod 100) \<noteq> []" using v(2) by auto
  then have "Atoi (two_digits (y mod 100)) = Some (y mod 100)"
    using Atoi_digits[OF v(1)] v(3) n(2) by simp
  moreover have "(if y mod 100 \<ge> 69 then y mod 100 + 1900 else y mod 100 + 2000) = y"
  proof (cases "y < 2000")
    case True
    then have "y mod 100 = y - 1900" using assms by (intro int_mod_pos_eq[where q = 19]) simp_all
    then show ?thesis using assms True by simp
  next
    case False
    then have "y mod 100 = y - 2000" using assms by (intro int_mod_pos_eq[where q = 20]) simp_all
    then show ?thesis using assms False by simp
  qed
  ultimately show ?thesis using v(2) by (simp add: parse_year_def)
qed

text \<open>Dates in the window of the two-digit years.\<close>

definition listed_date :: "int \<Rightarrow> int \<Rightarrow> int \<Rightarrow> bool" where
  "listed_date y m d \<longleftrightarrow> valid_date y m d \<and> 1969 \<le> y \<and> y \<le> 2068"

lemma listed_date_bounds:
  assumes "listed_date y m d"
  shows "1 \<le> m" "m \<le> 12" "1 \<le> d" "d < 100" "d \<le> month_days y m" "valid_date y m d" "1969 \<le> y" "y \<le> 2068" "max 0 y = y"
  using assms month_days_def[of y m] by (auto simp: listed_date_def valid_date_def split: if_splits)

lemma ymd_read_back:
  assumes "listed_date y m d" "utc_date t = (y, m, d)"
  shows "parse_ymd (format_ymd t) = Some (time_at_hour y m d 0)"
proof -
  note b = listed_date_bounds[OF assms(1)]
  have m: "parse_two (two_digits m) = Some m" and d: "parse_two (two_digits d) = Some d" using b by (simp_all add: parse_two_digits)
  have len: "length (two_digits n) = 2" for n by (simp add: two_digits_def)
  have "format_ymd t = two_digits (y mod 100) @ two_digits m @ two_digits d" using assms(2) b by (simp add: format_ymd_def)
  then show ?thesis using m d b parse_year_digits[of y] by (simp add: parse_ymd_def len date_checked_def)
qed

lemma month_name_index:
  assumes "1 \<le> m" "m \<le> 12"
  shows "month_index month_names 1 (month_names ! (nat m - 1)) = Some m" "length (month_names ! (nat m - 1)) = 3"
    "ToUpper (take 1 (month_names ! (nat m - 1))) = take 1 (month_names ! (nat m - 1))"
    "\<not> isDigit (hd (ToUpper (month_names ! (nat m - 1))))"
    "ToLower (take 2 (drop 1 (ToUpper (month_names ! (nat m - 1))))) = drop 1 (month_names ! (nat m - 1))"
proof -
  have l: "lower_char CHR ''J'' = CHR ''j''" by code_simp
  have "month_index month_names 1 (month_names ! (nat m - 1)) = Some m \<and> length (month_names ! (nat m - 1)) = 3 \<and>
    ToUpper (take 1 (month_names ! (nat m - 1))) = take 1 (month_names ! (nat m - 1)) \<and>
    \<not> isDigit (hd (ToUpper (month_names ! (nat m - 1)))) \<and>
    ToLower (take 2 (drop 1 (ToUpper (month_names ! (nat m - 1))))) = drop 1 (month_names ! (nat m - 1))"
    using assms by (rule months) (simp_all, code_simp+)
  then show "month_index month_names 1 (month_names ! (nat m - 1)) = Some m" "length (month_names ! (nat m - 1)) = 3"
    "ToUpper (take 1 (month_names ! (nat m - 1))) = take 1 (month_names ! (nat m - 1))"
    "\<not> isDigit (hd (ToUpper (month_names ! (nat m - 1))))"
    "ToLower (take 2 (drop 1 (ToUpper (month_names ! (nat m - 1))))) = drop 1 (month_names ! (nat m - 1))" by blast+
qed

lemma upper_digit: "isDigit c \<Longrightarrow> upper_char c = c"
  by (auto simp: upper_char_def isDigit_def Let_def)

lemma upper_idem: "upper_char (upper_char c) = upper_char c"
proof -
  have "of_char (upper_char c) < (97 :: nat) \<or> 122 < (of_char (upper_char c) :: nat)"
    by (auto simp: upper_char_def Let_def of_char_of take_bit_nat_eq_self)
  then show ?thesis by (auto simp: upper_char_def[of "upper_char c"] Let_def)
qed

lemma ToUpper_digits: "list_all isDigit s \<Longrightarrow> ToUpper s = s"
  unfolding ToUpper_def by (rule map_idI) (auto simp: upper_digit list_all_iff)

lemma ToUpper_append: "ToUpper (s @ t) = ToUpper s @ ToUpper t"
  by (simp add: ToUpper_def)

lemma day_month_read_back:
  assumes "listed_date y m d" "utc_date t = (y, m, d)"
  shows "parse_day_month (deribitToGo (deribitDate t)) = Some (time_at_hour y m d 0)"
proof -
  note b = listed_date_bounds[OF assms(1)]
  define ds where "ds = nat_string (nat d)"
  define mon where "mon = month_names ! (nat m - 1)"
  define yy where "yy = two_digits (y mod 100)"
  note mn = month_name_index[OF b(1,2), folded mon_def]
  have ds: "list_all isDigit ds" "ds \<noteq> []" "length ds \<le> 2" "digits_value ds = d"
    using b nat_string_digits nat_string_length[of "nat d" 2] by (simp_all add: ds_def nat_string_value nat_less_iff)
  have yy: "list_all isDigit yy" "length yy = 2" "parse_year yy = Some y"
    using two_digits_value[of "y mod 100"] parse_year_digits[of y] b by (simp_all add: yy_def)
  have up: "deribitDate t = ds @ ToUpper mon @ yy"
    using assms(2) b(9) ToUpper_digits[OF ds(1)] ToUpper_digits[OF yy(1)]
    by (simp add: deribitDate_def format_day_month_def ToUpper_append ds_def mon_def yy_def)
  have again: "ToUpper (ds @ ToUpper mon @ yy) = ds @ ToUpper mon @ yy"
    using ToUpper_digits[OF ds(1)] ToUpper_digits[OF yy(1)] by (simp add: ToUpper_append) (simp add: ToUpper_def upper_idem)
  have len: "length (ToUpper mon) = 3" using mn(2) by (simp add: ToUpper_def)
  then have digits: "takeWhile isDigit (ds @ ToUpper mon @ yy) = ds"
    using ds(1) mn(4) by (cases "ToUpper mon") (auto simp: list_all_iff takeWhile_append2)
  have "take 1 (ToUpper mon) @ ToLower (take 2 (drop 1 (ToUpper mon))) = mon"
    using mn(3,5) by (simp add: ToUpper_def take_map)
  then have go: "deribitToGo (deribitDate t) = ds @ mon @ yy"
    using again digits len ds(2,3) yy(2) mn(2) unfolding up
    by (simp add: deribitToGo_def Let_def Suc_le_eq)
  have hm: "mon \<noteq> []" using mn(2) by auto
  have "\<not> isDigit (hd mon)"
  proof
    assume "isDigit (hd mon)"
    then have "upper_char (hd mon) = hd mon" by (rule upper_digit)
    with mn(4) \<open>isDigit (hd mon)\<close> hm show False by (cases mon) (simp_all add: ToUpper_def)
  qed
  then have "(if length (ds @ mon @ yy) \<ge> 2 \<and> isDigit ((ds @ mon @ yy) ! 1) then 2 else 1) = length ds"
  proof -
    from ds(2,3) consider a where "ds = [a]" | a b where "ds = [a, b]"
      by (cases ds; cases "tl ds") auto
    then show ?thesis
    proof cases
      case 1
      then show ?thesis using \<open>\<not> isDigit (hd mon)\<close> hm by (cases mon) simp_all
    next
      case 2
      then show ?thesis using ds(1) by simp
    qed
  qed
  then have "parse_day_month (ds @ mon @ yy) = date_checked y m d"
    using ds yy mn(1,2) hm by (simp add: parse_day_month_def Let_def list_all_iff hd_append)
  then show ?thesis using go b by (simp add: date_checked_def)
qed

subsection \<open>Names\<close>

lemma split_on_last: "d \<notin> set p \<Longrightarrow> split_on d p = [p]"
  by (induction p) auto

lemma strike_chars:
  assumes "normal_float x" "0 < mant x"
  shows "CHR ''-'' \<notin> set (strikeText x)"
  using assms place_text_chars[of "CHR ''-''"]
  by (auto simp: normal_float_def strikeText_def FormatFloat_def Let_def split: option.splits)

lemma date_chars:
  assumes "listed_date y m d" "utc_date t = (y, m, d)"
  shows "CHR ''-'' \<notin> set (format_ymd t)" "CHR ''-'' \<notin> set (deribitDate t)"
proof -
  note b = listed_date_bounds[OF assms(1)]
  have two: "CHR ''-'' \<notin> set (two_digits n)" for n
  proof
    assume "CHR ''-'' \<in> set (two_digits n)"
    then obtain k where "CHR ''-'' = digit_char k" "k < 10" by (auto simp: two_digits_def)
    then have "isDigit (CHR ''-'')" by simp
    then show False by simp
  qed
  show "CHR ''-'' \<notin> set (format_ymd t)" using assms(2) two by (simp add: format_ymd_def)
  have dash: "c = CHR ''-''" if "upper_char c = CHR ''-''" for c
  proof (rule ccontr)
    assume "c \<noteq> CHR ''-''"
    with that have n: "97 \<le> (of_char c :: nat)" "of_char c \<le> (122 :: nat)" "CHR ''-'' = char_of (of_char c - 32 :: nat)"
      by (auto simp: upper_char_def Let_def split: if_splits)
    then have "(of_char (CHR ''-'') :: nat) = of_char c - 32" by (simp only: n(3)) (simp add: of_char_of take_bit_nat_eq_self)
    with n(1) show False by simp
  qed
  have up: "CHR ''-'' \<notin> set (ToUpper s)" if "CHR ''-'' \<notin> set s" for s
    using that dash unfolding ToUpper_def by (metis imageE set_map)
  have "CHR ''-'' \<notin> set (month_names ! (nat m - 1))"
    using b(1,2) by (rule months) (simp_all add: month_names_def)
  moreover have "CHR ''-'' \<notin> set (nat_string (nat d))" using nat_string_digits[of "nat d"] by (auto simp: list_all_iff)
  ultimately show "CHR ''-'' \<notin> set (deribitDate t)" using assms(2) two up by (simp add: deribitDate_def format_day_month_def)
qed

lemma strike_accepted: "0 < mant x \<Longrightarrow> normal_float x \<Longrightarrow> \<not> float_le x float_zero"
  by (auto simp: normal_float_def float_le_def float_eq_def float_zero_def Let_def mult_less_0_iff zero_less_mult_iff)

text \<open>C12: The symbol of an instrument, and its names at Deribit, Bybit and OKX, are read back as its terms: for any coin without a dash,
  any positive strike, and any expiry in the window of the two-digit years.\<close>

theorem option_names_read_back:
  assumes "listed_date y m d" "utc_date date = (y, m, d)" "CHR ''-'' \<notin> set coin" "normal_float strike" "0 < mant strike"
    "inst = NewInstrument coin (coin @ quote) quote strike kind date"
  shows "ParseSymbol (Symbol inst) quote = Inr inst \<and>
    ParseDeribitName (DeribitName inst) = Inr (coin, strike, kind, it_Expiry inst) \<and>
    ParseBybitName (BybitName inst) = Inr (coin, strike, kind, it_Expiry inst) \<and>
    ParseOKXName (OKXName inst) = Inr (coin, strike, kind, it_Expiry inst)"
proof -
  let ?t = "time_at_hour y m d expiryHourUTC"
  note b = listed_date_bounds[OF assms(1)]
  have dates: "utc_date ?t = (y, m, d)" "utc_date (time_at_hour y m d 0) = (y, m, d)"
    using utc_date_at_hour[OF b(6)] by (simp_all add: expiryHourUTC_def)
  have inst: "it_Coin inst = coin" "it_Strike inst = strike" "it_Kind inst = kind" "it_Expiry inst = ?t"
    using assms(2,6) by (simp_all add: NewInstrument_def)
  note dash = strike_chars[OF assms(4,5)] date_chars[OF assms(1) dates(1)]
  have side: "CHR ''-'' \<notin> set (sideLetter kind)" "parse_side (sideLetter kind) = Some kind"
    by (cases kind; simp add: sideLetter_def parse_side_def ToUpper_def upper_char_def)+
  have strike: "ParseFloat (strikeText strike) = Some strike" "\<not> float_le strike float_zero"
    using float_text_roundtrip[OF assms(4,5)] strike_accepted[OF assms(5,4)] by (simp_all add: strikeText_def)
  note split = split_on_part[of "CHR ''-''"] split_on_last[of "CHR ''-''"]
  have "NewInstrument coin (coin @ quote) quote strike kind (time_at_hour y m d 0) = inst"
    using assms(2,6) dates(2) by (simp add: NewInstrument_def)
  then have "ParseSymbol (Symbol inst) quote = Inr inst"
    using assms(3) dash side strike ymd_read_back[OF assms(1) dates(1)]
    by (simp add: ParseSymbol_def Symbol_def inst split)
  moreover have "ParseDeribitName (DeribitName inst) = Inr (coin, strike, kind, it_Expiry inst)"
    using assms(3) dash side strike day_month_read_back[OF assms(1) dates(1)] dates(2)
    by (simp add: ParseDeribitName_def parseDated_def DeribitName_def parseTail_def inst split)
  moreover from this have "ParseBybitName (BybitName inst) = Inr (coin, strike, kind, it_Expiry inst)"
    by (simp add: ParseBybitName_def ParseDeribitName_def BybitName_def)
  moreover have "ParseOKXName (OKXName inst) = Inr (coin, strike, kind, it_Expiry inst)"
    using assms(3) dash side strike ymd_read_back[OF assms(1) dates(1)] dates(2) split_on_part[of "CHR ''-''" "''USD''"]
    by (simp add: ParseOKXName_def OKXName_def parseTail_def inst split)
  ultimately show ?thesis by blast
qed

theorem option_names_read_back_witness:
  "ParseDeribitName (DeribitName (NewInstrument ''BTC'' ''BTCUSDT'' ''USDT'' (float_of_int 50000) CallOption (time_at_hour 2026 12 31 0))) =
     Inr (''BTC'', float_of_int 50000, CallOption, time_at_hour 2026 12 31 8)"
proof -
  have date: "listed_date 2026 12 31" "utc_date (time_at_hour 2026 12 31 0) = (2026, 12, 31)"
    using utc_date_at_hour[of 2026 12 31 0] by (simp_all add: listed_date_def valid_date_def)
  have strike: "float_of_int 50000 = Finite 6871947673600000 (- 37)" by code_simp
  have "float_of_ratio (ratio_num 6871947673600000 (- 37)) (ratio_den (- 37)) = Finite 6871947673600000 (- 37)" by code_simp
  with strike have "normal_float (float_of_int 50000)" by (simp add: normal_float_def)
  with option_names_read_back[OF date, of "''BTC''" "float_of_int 50000" _ "''USDT''" CallOption] strike date(2)
  show ?thesis by (simp add: NewInstrument_def expiryHourUTC_def)
qed

text \<open>A strike that is no number, or infinite, passes the check that a strike is positive.\<close>

lemma strange_strikes_accepted:
  assumes "listed_date y m d" "utc_date t = (y, m, d)"
  shows "\<exists>inst. ParseSymbol (joined [''BTC'', format_ymd t, ''NaN'', ''C'']) quote = Inr inst \<and> it_Strike inst = NaN"
    "\<exists>inst. ParseSymbol (joined [''BTC'', format_ymd t, ''Inf'', ''C'']) quote = Inr inst \<and> it_Strike inst = Infinite False"
proof -
  note split = split_on_part[of "CHR ''-''"] split_on_last[of "CHR ''-''"]
  have read: "ParseFloat ''NaN'' = Some NaN" "ParseFloat ''Inf'' = Some (Infinite False)" by code_simp+
  have side: "parse_side ''C'' = Some CallOption" by code_simp
  show "\<exists>inst. ParseSymbol (joined [''BTC'', format_ymd t, ''NaN'', ''C'']) quote = Inr inst \<and> it_Strike inst = NaN"
    "\<exists>inst. ParseSymbol (joined [''BTC'', format_ymd t, ''Inf'', ''C'']) quote = Inr inst \<and> it_Strike inst = Infinite False"
    using date_chars(1)[OF assms] ymd_read_back[OF assms] read side
    by (auto simp: ParseSymbol_def split float_le_def float_eq_def float_zero_def NewInstrument_def split: prod.splits)
qed

end
