(* ===== verification/Spec2Isabelle.thy ===== *)
theory Spec2Isabelle
  imports DecimalText Matching LedgerProofs ReferenceProofs EngineProofs TransferProofs
    BinanceRegistryProofs BinanceEdgeProofs CoinbaseEdgeProofs FixServerProofs FixSessionProofs SeederProofs
    BinanceStreamsProofs BinanceOptionsProofs OptionContractProofs
begin

text \<open>
  A verification library for the core of \<^verbatim>\<open>crypto-exchange-golang\<close>, an emulated crypto exchange: a
  matching engine behind venue edges that look like Binance, Coinbase and FIX, with balances, transfers
  between venues, an options market that settles at expiry, reference books rebuilt from real feeds and a seeder that mirrors them
  into the engine.

  \<^bold>\<open>Parts and how they interact.\<close> A client speaks to an edge (\<^verbatim>\<open>internal/api\<close>). The edge records the
  order in its own store, reserves balances in the ledger (\<^verbatim>\<open>internal/account\<close>) and hands the order to
  the engine (\<^verbatim>\<open>internal/engine\<close>), which checks margin (\<^verbatim>\<open>internal/margin\<close>), appends to the
  write-ahead log and drives the order book (\<^verbatim>\<open>internal/orderbook\<close>). The book calls the hooks the edge has
  registered, once per trade and cancellation, while the request is still being served: they fold fills into
  the store, publish reports and settle balances. Next to the edges, the transfer hub
  (\<^verbatim>\<open>internal/transfer\<close>) moves balances between venue ledgers over a chain, and the seeder
  (\<^verbatim>\<open>internal/emulator\<close>) places synthetic orders in the engine so that it shows the levels of a reference
  book (\<^verbatim>\<open>internal/reference\<close>). All amounts are the 128-bit fixed-point numbers of \<^verbatim>\<open>pkg/decimal\<close>.

  \<^bold>\<open>Theories and sources.\<close>
  \<^item> \<^verbatim>\<open>Prelude\<close>: conventions, Go sorts under the locale \<open>comparator\<close>, iterated maps, and the locales
    \<open>invariant_machine\<close> and \<open>total_machine\<close> of machines whose operations keep an invariant.
  \<^item> \<^verbatim>\<open>Decimal\<close>, \<^verbatim>\<open>DecimalArith\<close>, \<^verbatim>\<open>DecimalText\<close> (\<^verbatim>\<open>pkg/decimal/decimal.go\<close>): numbers as a pair
    of 64-bit words with the limb loops of the source; every operation is the integer operation where that
    stays in range and panics where it does not; printing and parsing.
  \<^item> \<^verbatim>\<open>Float64\<close>: the float64 operations that the modelled code uses, as exact values.
  \<^item> \<^verbatim>\<open>OrderBook\<close>, \<^verbatim>\<open>Matching\<close> (\<^verbatim>\<open>internal/orderbook/orderbook.go\<close>): price-time matching; priority,
    conservation of volume, an uncrossed book, snapshots, no panic.
  \<^item> \<^verbatim>\<open>Ledger\<close>, \<^verbatim>\<open>LedgerProofs\<close> (\<^verbatim>\<open>internal/account/ledger.go\<close>): free and locked balances; they
    refine an account of integers, on which the properties of balances are proved.
  \<^item> \<^verbatim>\<open>Engine\<close>, \<^verbatim>\<open>EngineProofs\<close> (\<^verbatim>\<open>internal/engine/engine.go\<close>, \<^verbatim>\<open>internal/margin/validator.go\<close>):
    the log replays to the book; the margin checks.
  \<^item> \<^verbatim>\<open>FillLifecycle\<close>: the locales \<open>fill_record\<close> and \<open>fill_store\<close> of records that fills are folded
    into. \<^verbatim>\<open>BinanceRegistry\<close>, \<^verbatim>\<open>BinanceRegistryProofs\<close>, \<^verbatim>\<open>CoinbaseRegistry\<close>,
    \<^verbatim>\<open>CoinbaseRegistryProofs\<close> (the two \<^verbatim>\<open>registry.go\<close>) interpret them: indexes agree, fills are
    accounted for.
  \<^item> \<^verbatim>\<open>BinanceEdge\<close> (\<^verbatim>\<open>internal/api/binance\<close>: \<^verbatim>\<open>rest.go\<close>, \<^verbatim>\<open>server.go\<close>, \<^verbatim>\<open>symbols.go\<close>,
    \<^verbatim>\<open>errors.go\<close>): the handlers and the hooks over the store, the ledger and the engine.
    \<^verbatim>\<open>EdgeReservations\<close>: what working orders reserve, and what a trade and a cancellation take from it.
    \<^verbatim>\<open>EdgeMatching\<close>: store and book during a match. \<^verbatim>\<open>EdgeInvariant\<close>: the invariant between requests
    and the steps that keep it. \<^verbatim>\<open>EdgeOperation\<close>: the edge in operation, that is spot and option requests, other
    clients of the engine, transfers and expiry sweeps in any order. \<^verbatim>\<open>BinanceEdgeProofs\<close>: the
    properties of an edge in operation.
  \<^item> \<^verbatim>\<open>TransferHub\<close>, \<^verbatim>\<open>TransferProofs\<close> (\<^verbatim>\<open>internal/transfer/hub.go\<close>): withdrawals and the deposit
    watcher over a chain that is an argument.
  \<^item> \<^verbatim>\<open>Reference\<close>, \<^verbatim>\<open>ReferenceProofs\<close> (\<^verbatim>\<open>internal/reference\<close>): the reference book is its feed.
  \<^item> \<^verbatim>\<open>Seeder\<close>, \<^verbatim>\<open>SeederProofs\<close> (\<^verbatim>\<open>internal/emulator/seeder.go\<close>): a reconcile pass mirrors the
    reference, for any engine that keeps the contract of the record \<open>matcher\<close>.
  \<^item> \<^verbatim>\<open>FixMessage\<close>, \<^verbatim>\<open>FixMessageProofs\<close>, \<^verbatim>\<open>FixSession\<close>, \<^verbatim>\<open>FixSessionProofs\<close>
    (\<^verbatim>\<open>internal/api/fix\<close>): the codec with its round trip and checksum, and the acceptor session.
  \<^item> \<^verbatim>\<open>LevelDiff\<close>, \<^verbatim>\<open>LevelDiffProofs\<close> (\<^verbatim>\<open>internal/api/binance/depthdiff.go\<close>,
    \<^verbatim>\<open>internal/api/coinbase/level2diff.go\<close>): the books last sent to subscribers; what a client makes of the levels
    it gets. \<^verbatim>\<open>CoinbaseStreams\<close>, \<^verbatim>\<open>CoinbaseStreamsProofs\<close> (\<^verbatim>\<open>broadcaster.go\<close>, \<^verbatim>\<open>ws.go\<close>,
    \<^verbatim>\<open>symbols.go\<close>): connections, hub and publications as steps, and the invariant that whoever is open and subscribed
    has been sent the book. \<^verbatim>\<open>CoinbaseEdge\<close>, \<^verbatim>\<open>CoinbaseEdgeProofs\<close> (\<^verbatim>\<open>rest.go\<close>,
    \<^verbatim>\<open>server.go\<close>, \<^verbatim>\<open>errors.go\<close>): the REST handlers and hooks, and the edge in operation.
  \<^item> \<^verbatim>\<open>FixServer\<close>, \<^verbatim>\<open>FixServerProofs\<close> (\<^verbatim>\<open>internal/api/fix/server.go\<close>,
    \<^verbatim>\<open>quote.go\<close>): the application behind the FIX sessions over the engine: orders, fills, market data and
    quotes; runs of its callbacks, the numbering of its reports and what a quote is good for.
  \<^item> \<^verbatim>\<open>BinanceAuth\<close> (\<^verbatim>\<open>internal/api/binance/auth.go\<close>): what is signed, and when a
    signed request is accepted. \<^verbatim>\<open>BinanceStreams\<close>, \<^verbatim>\<open>BinanceStreamsProofs\<close> (\<^verbatim>\<open>ws.go\<close>,
    \<^verbatim>\<open>broadcaster.go\<close>, \<^verbatim>\<open>listenkey.go\<close>): listen keys, streams and their hub, runs of everything that
    touches them, and what subscribers are sent.
  \<^item> \<^verbatim>\<open>GoStrings\<close>, \<^verbatim>\<open>FloatText\<close>: functions of the standard library on text, and the printing and
    reading of floats. \<^verbatim>\<open>OptionContract\<close>, \<^verbatim>\<open>OptionContractProofs\<close>
    (\<^verbatim>\<open>internal/optmarket\<close>: \<^verbatim>\<open>contract.go\<close>, \<^verbatim>\<open>instrument.go\<close>, \<^verbatim>\<open>symbols.go\<close>): contracts, their
    expiry and payoff, and their names at four venues, which read back. \<^verbatim>\<open>OptionMarket\<close> (\<^verbatim>\<open>market.go\<close>,
    \<^verbatim>\<open>pkg/options/blackscholes.go\<close>, \<^verbatim>\<open>internal/pricer/pricer.go\<close>): listing, Black-Scholes marks, synthetic books
    and the cache of exotic marks. \<^verbatim>\<open>OptionSettle\<close>, \<^verbatim>\<open>OptionSettleProofs\<close> (\<^verbatim>\<open>settle.go\<close>): the
    expiry sweep over the interface \<open>settler\<close> of a venue; the locales \<open>sweeping\<close> and \<open>clearing\<close> say what a sweep keeps
    and clears. \<^verbatim>\<open>BinanceOptions\<close>, \<^verbatim>\<open>BinanceOptionsProofs\<close>
    (\<^verbatim>\<open>internal/api/binance\<close>: \<^verbatim>\<open>options.go\<close>, \<^verbatim>\<open>options_order.go\<close>, \<^verbatim>\<open>eapi.go\<close>): the option
    routes over the same store, ledger and engine, and the sweep of the edge.

  \<^bold>\<open>How code becomes definitions.\<close> A method is a function from the state of its receiver to its result and
  the new state, under the name of the method (with a prefix where two packages share a name). A mutex makes an
  operation atomic. A panic is \<open>None\<close>, and the state half-written at a panic is not modelled; an
  \<^verbatim>\<open>error\<close> is \<open>Inl\<close>. Maps that the code ranges over are association lists in an arbitrary order.
  Pointers shared between indexes are positions in a heap. Hooks are the events the book appends to its
  list of calls; the edge plays them before the handler goes on. The clock, random numbers, the texts of
  errors, JSON and HTTP are arguments or left out.

  \<^bold>\<open>Bounds.\<close> No definition uses fuel: every loop is a recursion with a termination proof (the loop of a FIX session
  recurses on the bytes that are left). Word arithmetic wraps where the source wraps; order numbers are 64-bit, and the statements about
  an edge in operation bound its events by \<open>2 ^ 63\<close>, below which no number is handed out twice.

  \<^bold>\<open>Not modelled.\<close> The functions exp, log, erfc and sqrt of floats are arguments of the option market, and so are the
  pricer processes; the sign of a zero float is not kept. The toxicity models and the random drivers of the emulator
  compute with pseudo-random floats; custody, the feeds, gRPC, configuration and the programs under \<^verbatim>\<open>cmd\<close> are input
  and output around the parts above or third-party protocols. \<^verbatim>\<open>Instrument.ExpiryMillis\<close>, \<^verbatim>\<open>Kind.String\<close> and
  \<^verbatim>\<open>Registry.Names\<close> only print.
\<close>

end
